(* ===== verification/Prelude.thy ===== *)
theory Prelude
  imports Main "HOL-Library.Word" "HOL-Library.Signed_Division" "HOL-Library.Multiset"
begin

unbundle bit_operations_syntax

text \<open>
  The prelude shared by every contract of the repository: the outcome of a contract
  call, the integer types of the Rust code with its arithmetic operators, big-endian
  byte strings, and the generic lemmas and theorem collections the component theories
  rest on.

  A Soroban entry point returns a value, returns one of the contract's error codes, or
  traps (a panic, an arithmetic overflow under \<open>overflow-checks = true\<close>, a failed
  \<open>require_auth\<close>, an \<open>unwrap\<close> of nothing). In the last two cases the host discards
  every state change of the call, so only \<open>Ok\<close> carries a state.
\<close>

named_theorems outcome_simps
named_theorems arith_defs
named_theorems const_defs

section \<open>Outcomes of a call\<close>

datatype ('e, 'a) outcome = Ok 'a | Err 'e | Trap

definition bnd :: "('e, 'a) outcome \<Rightarrow> ('a \<Rightarrow> ('e, 'b) outcome) \<Rightarrow> ('e, 'b) outcome" where
  "bnd m f = (case m of Ok x \<Rightarrow> f x | Err e \<Rightarrow> Err e | Trap \<Rightarrow> Trap)"

lemma bnd_simps [simp]:
  "bnd (Ok x) f = f x" "bnd (Err e) f = Err e" "bnd Trap f = Trap"
  by (simp_all add: bnd_def)

lemma bnd_eq_Ok [outcome_simps]: "(bnd m f = Ok y) = (\<exists>x. m = Ok x \<and> f x = Ok y)"
  by (cases m) simp_all

lemma bnd_eq_Err [outcome_simps]:
  "(bnd m f = Err e) = (m = Err e \<or> (\<exists>x. m = Ok x \<and> f x = Err e))"
  by (cases m) auto

lemma bnd_eq_Trap [outcome_simps]:
  "(bnd m f = Trap) = (m = Trap \<or> (\<exists>x. m = Ok x \<and> f x = Trap))"
  by (cases m) auto

lemma bnd_assoc: "bnd (bnd m f) g = bnd m (\<lambda>x. bnd (f x) g)"
  by (cases m) simp_all

lemma bnd_cong [fundef_cong]:
  "m = m' \<Longrightarrow> (\<And>x. m' = Ok x \<Longrightarrow> f x = f' x) \<Longrightarrow> bnd m f = bnd m' f'"
  by (cases m') simp_all

lemma bnd_OkE:
  assumes "bnd m f = Ok y"
  obtains x where "m = Ok x" and "f x = Ok y"
  using assms by (auto simp: bnd_eq_Ok)

lemma if_eq_Ok [outcome_simps]:
  "((if b then Err e else m) = Ok y) = (\<not> b \<and> m = Ok y)"
  "((if b then Trap else m) = Ok y) = (\<not> b \<and> m = Ok y)"
  "((if b then m else Err e) = Ok y) = (b \<and> m = Ok y)"
  "((if b then m else Trap) = Ok y) = (b \<and> m = Ok y)"
  by auto

text \<open>\<open>Option::ok_or\<close>, \<open>Option::unwrap_or\<close> and \<open>Option::unwrap\<close>.\<close>

definition ok_or :: "'e \<Rightarrow> 'a option \<Rightarrow> ('e, 'a) outcome" where
  "ok_or e v = (case v of Some x \<Rightarrow> Ok x | None \<Rightarrow> Err e)"

definition unwrap_or :: "'a \<Rightarrow> 'a option \<Rightarrow> 'a" where
  "unwrap_or d v = (case v of Some x \<Rightarrow> x | None \<Rightarrow> d)"

definition unwrap :: "'a option \<Rightarrow> ('e, 'a) outcome" where
  "unwrap v = (case v of Some x \<Rightarrow> Ok x | None \<Rightarrow> Trap)"

lemma ok_or_simps [simp]: "ok_or e (Some x) = Ok x" "ok_or e None = Err e"
  by (simp_all add: ok_or_def)

lemma unwrap_or_simps [simp]: "unwrap_or d (Some x) = x" "unwrap_or d None = d"
  by (simp_all add: unwrap_or_def)

lemma unwrap_simps [simp]: "unwrap (Some x) = Ok x" "unwrap None = Trap"
  by (simp_all add: unwrap_def)

lemma ok_or_eq [outcome_simps]:
  "(ok_or e v = Ok x) = (v = Some x)"
  "(ok_or e v = Err e') = (v = None \<and> e' = e)"
  "ok_or e v \<noteq> Trap"
  by (auto simp: ok_or_def split: option.splits)

lemma unwrap_eq [outcome_simps]:
  "(unwrap v = Ok x) = (v = Some x)"
  "unwrap v \<noteq> Err e"
  "(unwrap v = Trap) = (v = None)"
  by (auto simp: unwrap_def split: option.splits)

section \<open>Integers\<close>

text \<open>
  Amounts are \<open>i128\<close>, times and identifiers \<open>u64\<close>, ledger numbers and counts \<open>u32\<close>.
  The release profile of the workspace sets \<open>overflow-checks = true\<close>, so \<open>+\<close>, \<open>-\<close>
  and \<open>*\<close> trap when the exact result leaves the type: the operators below compute the
  exact result and test the range. \<open>/\<close> truncates towards zero (\<open>sdiv\<close>).
\<close>

type_synonym byte = "8 word"
type_synonym bytes = "byte list"
type_synonym address = nat

definition i128_ok :: "int \<Rightarrow> bool" where
  "i128_ok x \<longleftrightarrow> - (2 ^ 127) \<le> x \<and> x < 2 ^ 127"

definition i128_add :: "int \<Rightarrow> int \<Rightarrow> ('e, int) outcome" where
  [arith_defs]: "i128_add a b = (if i128_ok (a + b) then Ok (a + b) else Trap)"

definition i128_sub :: "int \<Rightarrow> int \<Rightarrow> ('e, int) outcome" where
  [arith_defs]: "i128_sub a b = (if i128_ok (a - b) then Ok (a - b) else Trap)"

definition i128_mul :: "int \<Rightarrow> int \<Rightarrow> ('e, int) outcome" where
  [arith_defs]: "i128_mul a b = (if i128_ok (a * b) then Ok (a * b) else Trap)"

definition i128_checked_add :: "int \<Rightarrow> int \<Rightarrow> int option" where
  [arith_defs]: "i128_checked_add a b = (if i128_ok (a + b) then Some (a + b) else None)"

definition i128_checked_sub :: "int \<Rightarrow> int \<Rightarrow> int option" where
  [arith_defs]: "i128_checked_sub a b = (if i128_ok (a - b) then Some (a - b) else None)"

definition i128_checked_mul :: "int \<Rightarrow> int \<Rightarrow> int option" where
  [arith_defs]: "i128_checked_mul a b = (if i128_ok (a * b) then Some (a * b) else None)"

definition i128_clamp :: "int \<Rightarrow> int" where
  "i128_clamp x = (if x < - (2 ^ 127) then - (2 ^ 127) else if x < 2 ^ 127 then x else 2 ^ 127 - 1)"

definition i128_saturating_add :: "int \<Rightarrow> int \<Rightarrow> int" where
  [arith_defs]: "i128_saturating_add a b = i128_clamp (a + b)"

definition i128_saturating_mul :: "int \<Rightarrow> int \<Rightarrow> int" where
  [arith_defs]: "i128_saturating_mul a b = i128_clamp (a * b)"

definition u64_ok :: "nat \<Rightarrow> bool" where
  "u64_ok n \<longleftrightarrow> n < 2 ^ 64"

definition u64_add :: "nat \<Rightarrow> nat \<Rightarrow> ('e, nat) outcome" where
  [arith_defs]: "u64_add a b = (if u64_ok (a + b) then Ok (a + b) else Trap)"

definition u64_sub :: "nat \<Rightarrow> nat \<Rightarrow> ('e, nat) outcome" where
  [arith_defs]: "u64_sub a b = (if b \<le> a then Ok (a - b) else Trap)"

definition u64_saturating_add :: "nat \<Rightarrow> nat \<Rightarrow> nat" where
  [arith_defs]: "u64_saturating_add a b = min (a + b) (2 ^ 64 - 1)"

definition u64_saturating_sub :: "nat \<Rightarrow> nat \<Rightarrow> nat" where
  [arith_defs]: "u64_saturating_sub a b = (if b \<le> a then a - b else 0)"

definition u32_ok :: "nat \<Rightarrow> bool" where
  "u32_ok n \<longleftrightarrow> n < 2 ^ 32"

definition u32_add :: "nat \<Rightarrow> nat \<Rightarrow> ('e, nat) outcome" where
  [arith_defs]: "u32_add a b = (if u32_ok (a + b) then Ok (a + b) else Trap)"

definition u32_checked_add :: "nat \<Rightarrow> nat \<Rightarrow> nat option" where
  [arith_defs]: "u32_checked_add a b = (if u32_ok (a + b) then Some (a + b) else None)"

lemma i128_clamp_ok [simp]: "i128_ok (i128_clamp x)"
  by (simp add: i128_clamp_def i128_ok_def)

lemma i128_clamp_id [simp]: "i128_ok x \<Longrightarrow> i128_clamp x = x"
  by (simp add: i128_clamp_def i128_ok_def)

lemma i128_clamp_mono: "x \<le> y \<Longrightarrow> i128_clamp x \<le> i128_clamp y"
  by (simp add: i128_clamp_def)

lemma i128_ok_mono: "0 \<le> x \<Longrightarrow> x \<le> y \<Longrightarrow> i128_ok y \<Longrightarrow> i128_ok x"
  by (simp add: i128_ok_def)

lemma i128_ok_0 [simp]: "i128_ok 0"
  by (simp add: i128_ok_def)

lemma sdiv_nonneg: "0 \<le> (a::int) \<Longrightarrow> 0 < b \<Longrightarrow> a sdiv b = a div b"
  by (cases "a = 0") (simp_all add: signed_divide_int_def sgn_if)

lemma sdiv_pos_le: "0 \<le> (a::int) \<Longrightarrow> 0 < b \<Longrightarrow> 0 \<le> a sdiv b \<and> a sdiv b \<le> a"
  using div_le_dividend [of "nat a" "nat b"]
  by (simp add: sdiv_nonneg pos_imp_zdiv_nonneg_iff nat_div_distrib [symmetric])

section \<open>Big-endian byte strings\<close>

text \<open>\<open>to_be_bytes\<close> and \<open>from_be_bytes\<close> of an unsigned and of a two's complement integer.\<close>

fun be_bytes :: "nat \<Rightarrow> nat \<Rightarrow> bytes" where
  "be_bytes 0 x = []"
| "be_bytes (Suc n) x = be_bytes n (x div 256) @ [word_of_nat (x mod 256)]"

definition be_nat :: "bytes \<Rightarrow> nat" where
  "be_nat bs = foldl (\<lambda>a b. a * 256 + unat b) 0 bs"

definition u64_be :: "nat \<Rightarrow> bytes" where "u64_be x = be_bytes 8 x"

definition u32_be :: "nat \<Rightarrow> bytes" where "u32_be x = be_bytes 4 x"

definition i128_be :: "int \<Rightarrow> bytes" where "i128_be x = be_bytes 16 (nat (x mod 2 ^ 128))"

definition be_i128 :: "bytes \<Rightarrow> int" where
  "be_i128 bs = (let u = int (be_nat bs) in if u < 2 ^ 127 then u else u - 2 ^ 128)"

lemma length_be_bytes [simp]: "length (be_bytes n x) = n"
  by (induction n arbitrary: x) simp_all

lemma length_be [simp]: "length (u64_be t) = 8" "length (u32_be n) = 4" "length (i128_be x) = 16"
  by (simp_all add: u64_be_def u32_be_def i128_be_def)

lemma be_nat_append_one: "be_nat (bs @ [b]) = be_nat bs * 256 + unat b"
  by (simp add: be_nat_def)

lemma be_nat_be_bytes: "be_nat (be_bytes n x) = x mod 256 ^ n"
proof (induction n arbitrary: x)
  case 0
  show ?case by (simp add: be_nat_def)
next
  case (Suc n)
  have "unat (word_of_nat (x mod 256) :: byte) = x mod 256"
    by (simp add: unat_of_nat)
  then have "be_nat (be_bytes (Suc n) x) = (x div 256 mod 256 ^ n) * 256 + x mod 256"
    by (simp add: be_nat_append_one Suc.IH)
  also have "\<dots> = x mod 256 ^ Suc n"
    by (simp add: mod_mult2_eq)
  finally show ?case .
qed

lemma be_nat_less: "be_nat bs < 256 ^ length bs"
proof (induction bs rule: rev_induct)
  case Nil
  show ?case by (simp add: be_nat_def)
next
  case (snoc b bs)
  have "unat b < 256" using unsigned_less [of b, where 'a = nat] by simp
  with snoc have "be_nat bs * 256 + unat b < 256 ^ length bs * 256" by linarith
  then show ?case by (simp add: be_nat_append_one)
qed

lemma be_bytes_be_nat: "be_bytes (length bs) (be_nat bs) = bs"
proof (induction bs rule: rev_induct)
  case (snoc b bs)
  have "unat b < 256" using unsigned_less [of b, where ?'a = nat] by simp
  with snoc show ?case by (simp add: be_nat_append_one)
qed simp

lemma u64_be_roundtrip [simp]: "u64_ok x \<Longrightarrow> be_nat (u64_be x) = x"
  by (simp add: u64_be_def be_nat_be_bytes u64_ok_def)

lemma u32_be_roundtrip [simp]: "u32_ok x \<Longrightarrow> be_nat (u32_be x) = x"
  by (simp add: u32_be_def be_nat_be_bytes u32_ok_def)

lemma i128_be_roundtrip [simp]:
  assumes "i128_ok x"
  shows "be_i128 (i128_be x) = x"
proof -
  have "nat (x mod 2 ^ 128) < 2 ^ 128" by (simp add: nat_less_iff)
  then have u: "int (be_nat (i128_be x)) = x mod 2 ^ 128"
    by (simp add: i128_be_def be_nat_be_bytes)
  show ?thesis
  proof (cases "0 \<le> x")
    case True
    with assms have "x mod 2 ^ 128 = x" by (simp add: i128_ok_def)
    with u assms show ?thesis by (simp add: be_i128_def i128_ok_def)
  next
    case False
    have "x mod 2 ^ 128 = (x + 2 ^ 128) mod 2 ^ 128" by simp
    also have "\<dots> = x + 2 ^ 128"
      using False assms unfolding i128_ok_def by (intro mod_pos_pos_trivial) simp_all
    finally show ?thesis using u False assms by (simp add: be_i128_def i128_ok_def)
  qed
qed

section \<open>Fixed-width packed values\<close>

text \<open>
  Several contracts store a tuple as a byte string of a fixed width (\<open>BytesN\<close>) and read
  it back with slices. The contract of such a pair of routines, and what the users of a
  packed ledger entry need of it.
\<close>

locale packed_codec =
  fixes pack :: "'a \<Rightarrow> bytes"
    and unpack :: "bytes \<Rightarrow> 'a"
    and valid :: "'a \<Rightarrow> bool"
    and width :: nat
  assumes length_pack: "valid x \<Longrightarrow> length (pack x) = width"
    and unpack_pack: "valid x \<Longrightarrow> unpack (pack x) = x"
begin

lemma pack_inject: "valid x \<Longrightarrow> valid y \<Longrightarrow> pack x = pack y \<longleftrightarrow> x = y"
  by (metis unpack_pack)

lemma lookup_after_store:
  "valid x \<Longrightarrow> map_option unpack ((m(k \<mapsto> pack x)) k) = Some x"
  by (simp add: unpack_pack)

lemma lookup_other_key:
  "k' \<noteq> k \<Longrightarrow> map_option unpack ((m(k \<mapsto> pack x)) k') = map_option unpack (m k')"
  by simp

lemma store_valid_entries:
  "valid x \<Longrightarrow> (\<forall>k bs. m k = Some bs \<longrightarrow> length bs = width)
     \<Longrightarrow> (m(k \<mapsto> pack x)) k' = Some bs \<Longrightarrow> length bs = width"
  by (auto simp: length_pack split: if_splits)

end

section \<open>Quotas\<close>

text \<open>
  An operation that consumes one unit of a bounded quota and is refused when none is left.
  \<open>take_n\<close> repeats it, as a batch does; the lemma is what the users of a limiter need.
\<close>

fun take_n :: "('s \<Rightarrow> ('e, 's) outcome) \<Rightarrow> nat \<Rightarrow> 's \<Rightarrow> ('e, 's) outcome" where
  "take_n consume 0 s = Ok s"
| "take_n consume (Suc n) s = bnd (consume s) (take_n consume n)"

locale quota =
  fixes inv :: "'s \<Rightarrow> bool"
    and avail :: "'s \<Rightarrow> nat"
    and consume :: "'s \<Rightarrow> ('e, 's) outcome"
    and exhausted :: 'e
  assumes take_avail: "inv s \<Longrightarrow> 0 < avail s \<Longrightarrow> \<exists>s'. consume s = Ok s' \<and> inv s' \<and> avail s' = avail s - 1"
    and take_none: "inv s \<Longrightarrow> avail s = 0 \<Longrightarrow> consume s = Err exhausted"
begin

lemma take_Ok: "inv s \<Longrightarrow> consume s = Ok s' \<Longrightarrow> inv s' \<and> Suc (avail s') = avail s"
  using take_avail [of s] take_none [of s] by (cases "avail s") auto

lemma take_n_outcome:
  "inv s \<Longrightarrow>
   (if n \<le> avail s then \<exists>s'. take_n consume n s = Ok s' \<and> inv s' \<and> avail s' = avail s - n
    else take_n consume n s = Err exhausted)"
proof (induction n arbitrary: s)
  case 0
  then show ?case by simp
next
  case (Suc n)
  show ?case
  proof (cases "avail s")
    case 0
    with Suc.prems take_none show ?thesis by simp
  next
    case (Suc k)
    then obtain s' where s': "consume s = Ok s'" "inv s'" "avail s' = k"
      using take_avail [OF Suc.prems] by auto
    from Suc.IH [OF s'(2)] show ?thesis using s' Suc by (simp split: if_splits)
  qed
qed

end

section \<open>Slices\<close>

definition bslice :: "nat \<Rightarrow> nat \<Rightarrow> 'a list \<Rightarrow> 'a list" where
  "bslice i j xs = take (j - i) (drop i xs)"

lemma bslice_all_left [simp]:
  "length xs = j \<Longrightarrow> bslice 0 j (xs @ ys) = xs"
  by (simp add: bslice_def)

lemma bslice_skip [simp]:
  "length xs \<le> i \<Longrightarrow> bslice i j (xs @ ys) = bslice (i - length xs) (j - length xs) ys"
  by (simp add: bslice_def)

lemma bslice_whole [simp]: "length xs = j \<Longrightarrow> bslice 0 j xs = xs"
  by (simp add: bslice_def)

section \<open>Sums over finite maps\<close>

definition map_sum :: "('b option \<Rightarrow> int) \<Rightarrow> ('a \<Rightarrow> 'b option) \<Rightarrow> int" where
  "map_sum g m = (\<Sum>i\<in>dom m. g (m i))"

lemma map_sum_upd:
  assumes "finite (dom m)" "g None = 0"
  shows "map_sum g (m(k \<mapsto> v)) = map_sum g m - g (m k) + g (Some v)"
proof -
  have "(\<Sum>j\<in>dom m - {k}. g ((m(k \<mapsto> v)) j)) = (\<Sum>j\<in>dom m - {k}. g (m j))"
    by (rule sum.cong) auto
  moreover have "map_sum g (m(k \<mapsto> v)) = g (Some v) + (\<Sum>j\<in>dom m - {k}. g ((m(k \<mapsto> v)) j))"
    using assms(1) by (simp add: map_sum_def sum.insert_remove)
  moreover have "map_sum g m = g (m k) + (\<Sum>j\<in>dom m - {k}. g (m j))"
  proof (cases "k \<in> dom m")
    case True
    then show ?thesis unfolding map_sum_def by (rule sum.remove [OF assms(1)])
  next
    case False
    then have "m k = None" by (simp add: domIff)
    with False show ?thesis by (simp add: map_sum_def assms(2))
  qed
  ultimately show ?thesis by simp
qed

lemma map_sum_empty [simp]: "map_sum g Map.empty = 0"
  by (simp add: map_sum_def)

end
