(* ===== verification/Host.thy ===== *)
theory Host
  imports Prelude
begin

text \<open>
  The Soroban host as the contracts see it: ledger time, the invoking contract's own
  address, authorisation, the hash and signature primitives, events, and the token
  contracts a payment moves funds through. Everything here but the shape of the
  interface is code outside the repository, so it enters the model as fields of the
  environment records, and what the contracts rely on is stated as locale laws. The
  repository's own token (theory \<open>Pausable_Token\<close>) interprets the token laws.

  The host does not let a called contract re-enter its caller, so a cross-contract call
  changes only the outside world \<open>'w\<close>, never the caller's own storage. Entry
  time-to-live (\<open>extend_ttl\<close>) does not change a stored value and is not modelled.
\<close>

section \<open>Environment\<close>

record host =
  now :: nat \<comment> \<open>\<open>env.ledger().timestamp()\<close>, a \<open>u64\<close>\<close>
  seq :: nat \<comment> \<open>\<open>env.ledger().sequence()\<close>, a \<open>u32\<close>\<close>
  self :: address \<comment> \<open>\<open>env.current_contract_address()\<close>\<close>
  auth :: "address \<Rightarrow> bool" \<comment> \<open>who authorised this invocation\<close>
  sha256 :: "bytes \<Rightarrow> bytes"
  ed25519 :: "bytes \<Rightarrow> bytes \<Rightarrow> bytes \<Rightarrow> bool" \<comment> \<open>key, message, signature\<close>

definition require_auth :: "'z host_scheme \<Rightarrow> address \<Rightarrow> ('e, unit) outcome" where
  "require_auth e a = (if auth e a then Ok () else Trap)"

definition ed25519_verify :: "'z host_scheme \<Rightarrow> bytes \<Rightarrow> bytes \<Rightarrow> bytes \<Rightarrow> ('e, unit) outcome" where
  "ed25519_verify e pk msg sig = (if ed25519 e pk msg sig then Ok () else Trap)"

lemma require_auth_eq [outcome_simps]:
  "(require_auth e a = Ok u) = auth e a"
  "require_auth e a \<noteq> Err x"
  "(require_auth e a = Trap) = (\<not> auth e a)"
  by (simp_all add: require_auth_def)

lemma ed25519_verify_eq [outcome_simps]:
  "(ed25519_verify e pk m s = Ok u) = ed25519 e pk m s"
  "ed25519_verify e pk m s \<noteq> Err x"
  "(ed25519_verify e pk m s = Trap) = (\<not> ed25519 e pk m s)"
  by (simp_all add: ed25519_verify_def)

section \<open>Events\<close>

datatype evarg =
    AddrArg address | IntArg int | NatArg nat | BoolArg bool | BytesArg bytes
  | NatsArg "nat list" | StrArg string

datatype event = Event string "evarg list"

section \<open>Cross-contract token calls\<close>

text \<open>
  The three results of a \<open>try_\<close> call of a function that returns unit:
  \<open>Ok(Ok(()))\<close>, \<open>Ok(Err(_))\<close> (the callee ran, its value did not convert) and
  \<open>Err(_)\<close> (the callee failed and its changes are rolled back).
\<close>

datatype 'w call = Done 'w | BadReturn 'w | Failed

record 'w token_host = host +
  tok_balance :: "address \<Rightarrow> address \<Rightarrow> 'w \<Rightarrow> int option"
  tok_allowance :: "address \<Rightarrow> address \<Rightarrow> address \<Rightarrow> 'w \<Rightarrow> int option"
  tok_transfer :: "address \<Rightarrow> address \<Rightarrow> address \<Rightarrow> int \<Rightarrow> 'w \<Rightarrow> 'w call"
  tok_transfer_from ::
    "address \<Rightarrow> address \<Rightarrow> address \<Rightarrow> address \<Rightarrow> int \<Rightarrow> 'w \<Rightarrow> 'w call"

text \<open>A call that is not a \<open>try_\<close> call traps unless it is done.\<close>

definition must :: "'w call \<Rightarrow> ('e, 'w) outcome" where
  "must c = (case c of Done w \<Rightarrow> Ok w | BadReturn w \<Rightarrow> Trap | Failed \<Rightarrow> Trap)"

lemma must_simps [simp]: "must (Done w) = Ok w" "must (BadReturn w) = Trap" "must Failed = Trap"
  by (simp_all add: must_def)

lemma must_eq [outcome_simps]:
  "(must c = Ok w) = (c = Done w)" "must c \<noteq> Err e"
  by (cases c; simp)+

definition balance_of ::
    "('w, 'z) token_host_scheme \<Rightarrow> address \<Rightarrow> address \<Rightarrow> 'w \<Rightarrow> ('e, int) outcome" where
  "balance_of e tok a w = unwrap (tok_balance e tok a w)"

definition transfer ::
    "('w, 'z) token_host_scheme \<Rightarrow> address \<Rightarrow> address \<Rightarrow> address \<Rightarrow> int \<Rightarrow> 'w \<Rightarrow> ('e, 'w) outcome" where
  "transfer e tok src dst a w = must (tok_transfer e tok src dst a w)"

lemma balance_of_eq [outcome_simps]:
  "(balance_of e tok a w = Ok b) = (tok_balance e tok a w = Some b)"
  "balance_of e tok a w \<noteq> Err x"
  by (simp_all add: balance_of_def outcome_simps)

lemma transfer_eq [outcome_simps]:
  "(transfer e tok src dst a w = Ok w') = (tok_transfer e tok src dst a w = Done w')"
  "transfer e tok src dst a w \<noteq> Err x"
  by (simp_all add: transfer_def outcome_simps)

section \<open>What a token contract promises\<close>

text \<open>The change of \<open>x\<close>'s balance of \<open>tok'\<close> when \<open>a\<close> of \<open>tok\<close> goes from \<open>src\<close> to \<open>dst\<close>.\<close>

definition flow ::
    "address \<Rightarrow> address \<Rightarrow> address \<Rightarrow> int \<Rightarrow> address \<Rightarrow> address \<Rightarrow> int" where
  "flow tok src dst a tok' x =
     (if tok' = tok then (if x = dst then a else 0) - (if x = src then a else 0) else 0)"

lemma flow_simps [simp]:
  "tok' \<noteq> tok \<Longrightarrow> flow tok src dst a tok' x = 0"
  "flow tok x x a tok' y = 0"
  "x \<noteq> src \<Longrightarrow> x \<noteq> dst \<Longrightarrow> flow tok src dst a tok' x = 0"
  "flow tok src dst 0 tok' x = 0"
  by (simp_all add: flow_def)

lemma flow_sum:
  "finite S \<Longrightarrow> src \<in> S \<Longrightarrow> dst \<in> S \<Longrightarrow> (\<Sum>x\<in>S. flow tok src dst a tok' x) = 0"
  by (cases "tok' = tok") (simp_all add: flow_def sum_subtractf)

definition holding ::
    "(address \<Rightarrow> address \<Rightarrow> 'w \<Rightarrow> int option) \<Rightarrow> address \<Rightarrow> address \<Rightarrow> 'w \<Rightarrow> int" where
  "holding bal tok x w = unwrap_or 0 (bal tok x w)"

locale token_contract =
  fixes bal :: "address \<Rightarrow> address \<Rightarrow> 'w \<Rightarrow> int option"
    and xfer :: "address \<Rightarrow> address \<Rightarrow> address \<Rightarrow> int \<Rightarrow> 'w \<Rightarrow> 'w call"
  assumes xfer_balance: "xfer tok src dst a w = Done w' \<Longrightarrow>
      bal tok' x w' = map_option (\<lambda>b. b + flow tok src dst a tok' x) (bal tok' x w)"
    and xfer_live: "xfer tok src dst a w = Done w' \<Longrightarrow> bal tok x w \<noteq> None"
    and xfer_nonneg: "xfer tok src dst a w = Done w' \<Longrightarrow> 0 \<le> a"
    and xfer_unit: "xfer tok src dst a w \<noteq> BadReturn w'"
begin

lemma xfer_holding:
  assumes "xfer tok src dst a w = Done w'"
  shows "holding bal tok' x w' = holding bal tok' x w + flow tok src dst a tok' x"
proof (cases "bal tok' x w")
  case None
  then have "tok' \<noteq> tok" using xfer_live [OF assms, of x] by auto
  with None show ?thesis by (simp add: holding_def xfer_balance [OF assms])
next
  case (Some b)
  then show ?thesis by (simp add: holding_def xfer_balance [OF assms])
qed

lemma xfer_conserves:
  assumes "xfer tok src dst a w = Done w'" and "finite S" "src \<in> S" "dst \<in> S"
  shows "(\<Sum>x\<in>S. holding bal tok' x w') = (\<Sum>x\<in>S. holding bal tok' x w)"
  using assms by (simp add: xfer_holding [OF assms(1)] sum.distrib flow_sum)

lemma xfer_sender_le:
  "xfer tok src dst a w = Done w' \<Longrightarrow> x \<noteq> src \<Longrightarrow> holding bal tok' x w \<le> holding bal tok' x w'"
  using xfer_nonneg [of tok src dst a w w'] by (simp add: xfer_holding flow_def)

end

text \<open>A token that also moves funds on an allowance (\<open>transfer_from\<close>).\<close>

locale allowance_token = token_contract bal xfer
  for bal :: "address \<Rightarrow> address \<Rightarrow> 'w \<Rightarrow> int option"
    and xfer :: "address \<Rightarrow> address \<Rightarrow> address \<Rightarrow> int \<Rightarrow> 'w \<Rightarrow> 'w call" +
  fixes xfer_from :: "address \<Rightarrow> address \<Rightarrow> address \<Rightarrow> address \<Rightarrow> int \<Rightarrow> 'w \<Rightarrow> 'w call"
  assumes from_balance: "xfer_from tok sp src dst a w = Done w' \<Longrightarrow>
      bal tok' x w' = map_option (\<lambda>b. b + flow tok src dst a tok' x) (bal tok' x w)"
    and from_live: "xfer_from tok sp src dst a w = Done w' \<Longrightarrow> bal tok x w \<noteq> None"
    and from_nonneg: "xfer_from tok sp src dst a w = Done w' \<Longrightarrow> 0 \<le> a"
    and from_unit: "xfer_from tok sp src dst a w \<noteq> BadReturn w'"

text \<open>Spending through a fixed spender is again a token in the sense above.\<close>

sublocale allowance_token \<subseteq> via: token_contract bal "\<lambda>tok. xfer_from tok sp" for sp
  by unfold_locales (auto simp: from_balance from_nonneg from_unit dest: from_live)

lemma via_allowance:
  assumes "allowance_token bal xfer xfer_from"
  shows "token_contract bal (\<lambda>tok. xfer_from tok sp)"
proof
  show "xfer_from tok sp src dst a w = Done w' \<Longrightarrow>
      bal tok' x w' = map_option (\<lambda>b. b + flow tok src dst a tok' x) (bal tok' x w)"
    for tok src dst a w w' tok' x
    by (rule allowance_token.from_balance [OF assms])
  show "xfer_from tok sp src dst a w = Done w' \<Longrightarrow> bal tok x w \<noteq> None" for tok src dst a w w' x
    by (rule allowance_token.from_live [OF assms])
  show "xfer_from tok sp src dst a w = Done w' \<Longrightarrow> 0 \<le> a" for tok src dst a w w'
    by (rule allowance_token.from_nonneg [OF assms])
  show "xfer_from tok sp src dst a w \<noteq> BadReturn w'" for tok src dst a w w'
    by (rule allowance_token.from_unit [OF assms])
qed

end
