(* ===== verification/Router_State.thy ===== *)
theory Router_State
  imports Host
begin

text \<open>
  The data model of the payment router (\<open>payment_router/src/errors.rs\<close>, \<open>types.rs\<close>,
  \<open>storage.rs\<close>): error codes, roles, pause levels, the payloads of its entry points, its
  constants, and its ledger state. Every key of \<open>DataKey\<close> and \<open>ExtraKey\<close> is one
  field of the record \<open>ledger\<close>: keys of instance storage carry the prefix \<open>i\<close>
  (\<open>x\<close> for those of \<open>ExtraKey\<close>), keys of persistent storage the prefix \<open>p\<close>; a key
  with an argument is a map. An absent key is \<open>None\<close>.
\<close>

section \<open>Errors\<close>

datatype error =
    Unauthorized | InsufficientBalance | LimitExceeded | AlreadyInitialized | NotInitialized
  | Paused | InvalidFeeRate | InvalidRecipient | Blacklisted | NoRefundAvailable
  | TimelockPending | TimelockNotReady | TimelockNotFound | ContractFrozen
  | DexNotRegistered | SwapFailed | SlippageExceeded | SwapDeadlineExpired | InvalidRole
  | NoBackupAdmin | DmsNotReady | InvalidDmsConfig | RateLimited | RoleNotFound
  | InvalidProposal | GovernanceNotConfigured | AlreadyVoted | InvalidKycThreshold
  | YieldProtocolNotConfigured | InvalidYieldAmount
  | OracleNotConfigured | OracleCallFailed | OraclePriceStale | OraclePriceInvalid
  | DeadlineExpired | InvalidNonce | InvalidSignature | InvalidSwapParams | KycRequired
  | InvalidSwapPath | InvalidMultisigConfig | NotMultisigSigner | InsufficientApprovals
  | MultisigNotInitialized | AlreadyApproved | ReentrantCall | CyclicSwapPath
  | InvalidSlippageConfig | InvalidThreshold | DuplicateSigner

text \<open>The aliases of \<open>impl Error\<close> that the modelled code uses.\<close>

abbreviation QuoteExpired :: error where "QuoteExpired \<equiv> SwapDeadlineExpired"
abbreviation QuoteAlreadyUsed :: error where "QuoteAlreadyUsed \<equiv> InvalidNonce"
abbreviation AssetMismatch :: error where "AssetMismatch \<equiv> InvalidSwapPath"

section \<open>Roles and pause levels\<close>

datatype Role =
    SuperAdmin | TreasuryManager | ComplianceOfficer | FeeManager | Pauser
  | SecurityOfficer | UpgradeManager

fun role_code :: "Role \<Rightarrow> nat" where
  "role_code SuperAdmin = 1"
| "role_code TreasuryManager = 2"
| "role_code ComplianceOfficer = 3"
| "role_code FeeManager = 4"
| "role_code Pauser = 5"
| "role_code SecurityOfficer = 6"
| "role_code UpgradeManager = 7"

datatype PauseLevel = NoPause | SwapsOnly | FullHalt

fun pause_code :: "PauseLevel \<Rightarrow> nat" where
  "pause_code NoPause = 0"
| "pause_code SwapsOnly = 1"
| "pause_code FullHalt = 2"

text \<open>The derived order of the enum is that of its codes.\<close>

instantiation PauseLevel :: linorder
begin
definition less_eq_PauseLevel :: "PauseLevel \<Rightarrow> PauseLevel \<Rightarrow> bool" where
  "less_eq_PauseLevel a b \<longleftrightarrow> pause_code a \<le> pause_code b"
definition less_PauseLevel :: "PauseLevel \<Rightarrow> PauseLevel \<Rightarrow> bool" where
  "less_PauseLevel a b \<longleftrightarrow> pause_code a < pause_code b"
instance
proof
  fix x y z :: PauseLevel
  show "(x < y) = (x \<le> y \<and> \<not> y \<le> x)"
    by (auto simp: less_eq_PauseLevel_def less_PauseLevel_def)
  show "x \<le> x" by (simp add: less_eq_PauseLevel_def)
  show "x \<le> y \<Longrightarrow> y \<le> z \<Longrightarrow> x \<le> z" by (simp add: less_eq_PauseLevel_def)
  show "x \<le> y \<Longrightarrow> y \<le> x \<Longrightarrow> x = y"
    by (cases x; cases y) (simp_all add: less_eq_PauseLevel_def)
  show "x \<le> y \<or> y \<le> x" by (auto simp: less_eq_PauseLevel_def)
qed
end

lemma FullHalt_le [simp]: "(FullHalt \<le> l) = (l = FullHalt)"
  by (cases l) (simp_all add: less_eq_PauseLevel_def)

section \<open>Payloads\<close>

record Payment =
  p_sender :: address
  p_recipient :: address
  p_token :: address
  p_amount :: int

record SplitRoute =
  dex_address :: address
  weight_bps :: nat
  split_min_out :: int

record SwapPayment =
  sw_sender :: address
  sw_recipient :: address
  sell_token :: address
  buy_token :: address
  sw_amount_in :: int
  min_amount_out :: int
  expected_amount_out :: int
  sw_deadline :: nat
  sw_dex :: address

record SwapQuote =
  sq_amount_out :: int
  sq_min_amount_out :: int
  sq_max_slippage_bps :: int

record Quote =
  quote_id :: string
  maker :: address
  token_in :: address
  token_out :: address
  q_amount_in :: int
  q_amount_out :: int
  expires_at :: nat

datatype ActionType =
    SetPlatformTreasury address
  | SetFeeConfig int int
  | SetFeeBps int
  | SetGovernance address
  | SetMinLimit int
  | TransferAdmin address
  | Upgrade bytes
  | SetBackupAdmin address nat
  | RegisterDex address
  | DeregisterDex address
  | SetMaxSlippageBps int
  | SetPairMaxSlippageBps address address int
  | SetMultisigConfig "address list" nat

record TimelockEntry =
  queued_at :: nat
  te_action :: ActionType

record PriceData =
  price :: int
  decimals :: nat
  pd_timestamp :: nat

record FeeProposal =
  proposer :: address
  fp_fee_bps :: int
  fp_fee_cap :: int
  created_at :: nat
  voting_ends_at :: nat
  yes_votes :: int
  no_votes :: int
  quorum :: int
  executed :: bool

record UserRecord =
  ur_accumulated_amount :: int
  ur_volume :: int
  ur_last_reset_time :: nat
  ur_flags :: bytes

record ArchiveMetadata =
  committed_at :: nat
  record_count :: nat
  description :: string

datatype ArchiveRecordType = ArUserVolume | ArUserSpending | ArRefundBalance

record ArchiveLeaf =
  record_type :: ArchiveRecordType
  primary_key :: address
  secondary_key :: address

section \<open>Constants\<close>

definition BPS_DIVISOR :: int where [const_defs]: "BPS_DIVISOR = 10000"
definition XLM_DECIMALS :: int where [const_defs]: "XLM_DECIMALS = 10000000"
definition MAX_AMOUNT :: int where [const_defs]: "MAX_AMOUNT = 1000000000000000"
definition DAILY_MAX_LIMIT :: int where [const_defs]: "DAILY_MAX_LIMIT = 1000000 * XLM_DECIMALS"
definition VOLUME_THRESHOLD :: int where [const_defs]: "VOLUME_THRESHOLD = 10000 * XLM_DECIMALS"
definition SECONDS_IN_24H :: nat where [const_defs]: "SECONDS_IN_24H = 24 * 3600"
definition MIN_DMS_TIMEOUT :: nat where [const_defs]: "MIN_DMS_TIMEOUT = 7 * 24 * 3600"
definition DEFAULT_RATE_LIMIT :: nat where [const_defs]: "DEFAULT_RATE_LIMIT = 10"
definition MAX_RATE_LIMIT :: nat where [const_defs]: "MAX_RATE_LIMIT = 1000000"
definition DEFAULT_MAX_SLIPPAGE_BPS :: int where [const_defs]: "DEFAULT_MAX_SLIPPAGE_BPS = 1000"
definition MAX_SLIPPAGE_BPS_LIMIT :: int where [const_defs]: "MAX_SLIPPAGE_BPS_LIMIT = 10000"
definition MAX_PAIR_SLIPPAGE_BPS :: int where [const_defs]: "MAX_PAIR_SLIPPAGE_BPS = 500"
definition TOTAL_WEIGHT_BPS :: nat where [const_defs]: "TOTAL_WEIGHT_BPS = 10000"

section \<open>The outside world of the router\<close>

text \<open>
  \<open>None\<close> is a failed cross-contract call. \<open>xdr_*\<close> are the SDK's \<open>to_xdr\<close> encodings,
  \<open>wasm_uploaded\<close> tells whether a code hash names an uploaded blob.
\<close>

record 'w renv = "'w token_host" +
  kyc_is_verified :: "address \<Rightarrow> address \<Rightarrow> 'w \<Rightarrow> bool option"
  dex_swap :: "address \<Rightarrow> address \<Rightarrow> address \<Rightarrow> int \<Rightarrow> int \<Rightarrow> address \<Rightarrow> 'w
     \<Rightarrow> ((address \<times> int) \<times> 'w) option"
  dex_quote :: "address \<Rightarrow> address \<Rightarrow> address \<Rightarrow> int \<Rightarrow> 'w \<Rightarrow> int option"
  dex_swap_exact :: "address \<Rightarrow> address \<Rightarrow> address \<Rightarrow> int \<Rightarrow> int \<Rightarrow> address list \<Rightarrow> address \<Rightarrow> 'w
     \<Rightarrow> (int list \<times> 'w) option"
  lend_deposit :: "address \<Rightarrow> address \<Rightarrow> address \<Rightarrow> int \<Rightarrow> 'w \<Rightarrow> 'w option"
  lend_withdraw :: "address \<Rightarrow> address \<Rightarrow> address \<Rightarrow> int \<Rightarrow> 'w \<Rightarrow> 'w option"
  lend_harvest :: "address \<Rightarrow> address \<Rightarrow> address \<Rightarrow> 'w \<Rightarrow> (int \<times> 'w) option"
  oracle_get_price :: "address \<Rightarrow> address \<Rightarrow> address \<Rightarrow> 'w \<Rightarrow> PriceData option"
  xdr_address :: "address \<Rightarrow> bytes"
  xdr_i128 :: "int \<Rightarrow> bytes"
  xdr_u64 :: "nat \<Rightarrow> bytes"
  xdr_quote :: "Quote \<Rightarrow> bytes"
  xdr_multisig :: "address list \<Rightarrow> nat \<Rightarrow> bytes"
  wasm_uploaded :: "bytes \<Rightarrow> bool"

section \<open>The router's ledger state\<close>

record 'w ledger =
  iAdmin :: "address option"
  iRole :: "Role \<Rightarrow> address option"
  iGovernance :: "address option"
  iPlatformTreasury :: "address option"
  iFeeBps :: "int option"
  iFeeCap :: "int option"
  iMinLimit :: "int option"
  iPaused :: "bool option"
  iMaxAmount :: "int option"
  iTimelockNonce :: "nat option"
  iFrozen :: "bool option"
  iKycOracle :: "address option"
  iKycThreshold :: "int option"
  iBackupAdmin :: "address option"
  iLastHeartbeat :: "nat option"
  iDmsTimeout :: "nat option"
  iRateLimitConfig :: "nat option"
  iOracleAddress :: "address option"
  iStalenessThreshold :: "nat option"
  iGovernanceToken :: "address option"
  iGovernanceQuorum :: "int option"
  iGovernanceNonce :: "nat option"
  iArchiveEpoch :: "nat option"
  iYieldProtocol :: "address option"
  iMaxSlippageBps :: "int option"
  iMultisigSigners :: "address list option"
  iMultisigThreshold :: "nat option"
  iPauseLevel :: "PauseLevel option"
  iHeartbeatOperator :: "address option"
  xMultisigThreshold :: "nat option"
  xReentrancyGuard :: "bool option"
  pUserRecord :: "address \<Rightarrow> bytes option"
  pUserSpending :: "address \<Rightarrow> bytes option"
  pUserVolume :: "address \<Rightarrow> int option"
  pBlacklist :: "address \<Rightarrow> bool option"
  pRefundBalance :: "address \<times> address \<Rightarrow> int option"
  pTimelockEntry :: "nat \<Rightarrow> TimelockEntry option"
  pUserRole :: "address \<times> Role \<Rightarrow> bool option"
  pMetaNonce :: "address \<Rightarrow> nat option"
  pUsedQuote :: "address \<times> string \<Rightarrow> bool option"
  pRateLimitCounter :: "address \<Rightarrow> bytes option"
  pRateLimitWhitelist :: "address \<Rightarrow> bool option"
  pFallbackPrice :: "address \<times> address \<Rightarrow> PriceData option"
  pGovernanceProposal :: "nat \<Rightarrow> FeeProposal option"
  pArchiveRoot :: "nat \<Rightarrow> bytes option"
  pArchiveMeta :: "nat \<Rightarrow> ArchiveMetadata option"
  pYieldPrincipal :: "address \<Rightarrow> int option"
  pRegisteredDex :: "address \<Rightarrow> bool option"
  pPairSlippage :: "address \<times> address \<Rightarrow> int option"
  pUpgradeApproval :: "bytes \<Rightarrow> address list option"
  pMultisigConfigApproval :: "bytes \<Rightarrow> address list option"
  wasm_hash :: "bytes option"
  world :: 'w
  events :: "event list"

type_synonym ('w, 'a) res = "(error, 'a \<times> 'w ledger) outcome"

text \<open>\<open>env.events().publish\<close>: the topic symbol, the other topics and the data.\<close>

definition emit :: "string \<Rightarrow> evarg list \<Rightarrow> 'w ledger \<Rightarrow> 'w ledger" where
  [simp]: "emit topic args s = s\<lparr>events := events s @ [Event topic args]\<rparr>"

text \<open>A freshly deployed contract: no key is present.\<close>

definition fresh_ledger :: "'w \<Rightarrow> 'w ledger" where
  "fresh_ledger w = \<lparr>
     iAdmin = None, iRole = Map.empty, iGovernance = None, iPlatformTreasury = None,
     iFeeBps = None, iFeeCap = None, iMinLimit = None, iPaused = None, iMaxAmount = None,
     iTimelockNonce = None, iFrozen = None, iKycOracle = None, iKycThreshold = None,
     iBackupAdmin = None, iLastHeartbeat = None, iDmsTimeout = None, iRateLimitConfig = None,
     iOracleAddress = None, iStalenessThreshold = None, iGovernanceToken = None,
     iGovernanceQuorum = None, iGovernanceNonce = None, iArchiveEpoch = None,
     iYieldProtocol = None, iMaxSlippageBps = None, iMultisigSigners = None,
     iMultisigThreshold = None, iPauseLevel = None, iHeartbeatOperator = None,
     xMultisigThreshold = None, xReentrancyGuard = None,
     pUserRecord = Map.empty, pUserSpending = Map.empty, pUserVolume = Map.empty,
     pBlacklist = Map.empty, pRefundBalance = Map.empty, pTimelockEntry = Map.empty,
     pUserRole = Map.empty, pMetaNonce = Map.empty, pUsedQuote = Map.empty,
     pRateLimitCounter = Map.empty, pRateLimitWhitelist = Map.empty,
     pFallbackPrice = Map.empty, pGovernanceProposal = Map.empty, pArchiveRoot = Map.empty,
     pArchiveMeta = Map.empty, pYieldPrincipal = Map.empty, pRegisteredDex = Map.empty,
     pPairSlippage = Map.empty, pUpgradeApproval = Map.empty,
     pMultisigConfigApproval = Map.empty, wasm_hash = None, world = w, events = []\<rparr>"

end
