(* ===== verification/Sample_World.thy ===== *)
theory Sample_World
  imports Router_State
begin

text \<open>
  A concrete outside world, on which the witnesses of the properties evaluate the model:
  tokens are plain balance tables, address 13 refuses every incoming transfer (a missing
  trustline), one exchange adapter pays two units of the bought token for each unit sold,
  and the cryptographic primitives are simple stand-ins. It is an instance of the
  parameters of the model and plays no part in its definitions.
\<close>

type_synonym sworld = "address \<Rightarrow> address \<Rightarrow> int" \<comment> \<open>token, holder\<close>

definition s_move :: "address \<Rightarrow> address \<Rightarrow> address \<Rightarrow> int \<Rightarrow> sworld \<Rightarrow> sworld" where
  "s_move tok src dst a w = (\<lambda>tok' x. w tok' x + flow tok src dst a tok' x)"

definition s_transfer :: "address \<Rightarrow> address \<Rightarrow> address \<Rightarrow> int \<Rightarrow> sworld \<Rightarrow> sworld call" where
  "s_transfer tok src dst a w =
     (if 0 \<le> a \<and> a \<le> w tok src \<and> dst \<noteq> 13 then Done (s_move tok src dst a w) else Failed)"

definition sample_env :: "nat \<Rightarrow> sworld renv" where
  "sample_env t = \<lparr>
     now = t, seq = 7, self = 99, auth = (\<lambda>_. True),
     sha256 = (\<lambda>b. b), ed25519 = (\<lambda>pk m s. s = pk),
     tok_balance = (\<lambda>tok a w. Some (w tok a)),
     tok_allowance = (\<lambda>tok a sp w. Some (w tok a)),
     tok_transfer = s_transfer,
     tok_transfer_from = (\<lambda>tok sp src dst a w. s_transfer tok src dst a w),
     kyc_is_verified = (\<lambda>orc a w. Some (a < 100)),
     dex_swap = (\<lambda>dex sell buy a m rcpt w.
        case s_transfer buy dex rcpt (2 * a) w of Done w' \<Rightarrow> Some ((buy, 2 * a), w') | _ \<Rightarrow> None),
     dex_quote = (\<lambda>dex sell buy a w. Some (2 * a)),
     dex_swap_exact = (\<lambda>dex tin tout a m path rcpt w.
        case s_transfer tout dex rcpt (2 * a) w of Done w' \<Rightarrow> Some ([2 * a, 0], w') | _ \<Rightarrow> None),
     lend_deposit = (\<lambda>p src tok a w. Some w),
     lend_withdraw = (\<lambda>p dst tok a w. Some w),
     lend_harvest = (\<lambda>p dst tok w. Some (5, w)),
     oracle_get_price = (\<lambda>orc b q w. Some \<lparr>price = 250, decimals = 2, pd_timestamp = t\<rparr>),
     xdr_address = u32_be, xdr_i128 = i128_be, xdr_u64 = u64_be,
     xdr_quote = (\<lambda>q. u32_be (maker q)),
     xdr_multisig = (\<lambda>xs n. concat (map u32_be xs) @ u32_be n),
     wasm_uploaded = (\<lambda>h. True)\<rparr>"

text \<open>Every holder starts with a million of every token; admin 1, treasury 2, fee 1\% capped at 500.\<close>

definition sample_world :: sworld where
  "sample_world = (\<lambda>tok a. 1000000)"

definition sample_ledger :: "sworld ledger" where
  "sample_ledger = (fresh_ledger sample_world)\<lparr>
     iAdmin := Some 1, iRole := (\<lambda>r. if r = SecurityOfficer \<or> r = UpgradeManager then None else Some 1),
     iPlatformTreasury := Some 2, iFeeBps := Some 100, iFeeCap := Some 500,
     iMaxAmount := Some MAX_AMOUNT, iPaused := Some False, iFrozen := Some False,
     iTimelockNonce := Some 0, iMaxSlippageBps := Some DEFAULT_MAX_SLIPPAGE_BPS,
     pUserRole := (\<lambda>(a, r). if a = 1 \<and> r \<noteq> SecurityOfficer \<and> r \<noteq> UpgradeManager then Some True else None)\<rparr>"

lemma sample_ledger_access [simp]:
  "iAdmin sample_ledger = Some 1"
  "iRole sample_ledger r = (if r = SecurityOfficer \<or> r = UpgradeManager then None else Some 1)"
  "iPauseLevel sample_ledger = None" "iPaused sample_ledger = Some False"
  "iFrozen sample_ledger = Some False" "iTimelockNonce sample_ledger = Some 0"
  "pUserRole sample_ledger (a, r) =
     (if a = 1 \<and> r \<noteq> SecurityOfficer \<and> r \<noteq> UpgradeManager then Some True else None)"
  by (simp_all add: sample_ledger_def fresh_ledger_def)

lemma sample_env_simps [simp]:
  "now (sample_env t) = t" "seq (sample_env t) = 7" "self (sample_env t) = 99"
  "auth (sample_env t) a" "sha256 (sample_env t) bs = bs" "ed25519 (sample_env t) pk msg sg = (sg = pk)"
  "tok_balance (sample_env t) tok a w = Some (w tok a)"
  "tok_allowance (sample_env t) tok a sp w = Some (w tok a)"
  "tok_transfer (sample_env t) = s_transfer"
  "tok_transfer_from (sample_env t) tok sp = s_transfer tok"
  "kyc_is_verified (sample_env t) orc a w = Some (a < 100)"
  "dex_swap (sample_env t) dex sell buy k m rcpt w =
     (case s_transfer buy dex rcpt (2 * k) w of Done w' \<Rightarrow> Some ((buy, 2 * k), w') | _ \<Rightarrow> None)"
  "dex_quote (sample_env t) dex sell buy k w = Some (2 * k)"
  "dex_swap_exact (sample_env t) dex tin tout k m path rcpt w =
     (case s_transfer tout dex rcpt (2 * k) w of Done w' \<Rightarrow> Some ([2 * k, 0], w') | _ \<Rightarrow> None)"
  "lend_deposit (sample_env t) p a tok k w = Some w"
  "lend_withdraw (sample_env t) p a tok k w = Some w"
  "lend_harvest (sample_env t) p a tok w = Some (5, w)"
  "oracle_get_price (sample_env t) orc b q w = Some \<lparr>price = 250, decimals = 2, pd_timestamp = t\<rparr>"
  "xdr_address (sample_env t) = u32_be" "xdr_i128 (sample_env t) = i128_be"
  "xdr_u64 (sample_env t) = u64_be" "xdr_quote (sample_env t) qt = u32_be (maker qt)"
  "xdr_multisig (sample_env t) xs n = concat (map u32_be xs) @ u32_be n"
  "wasm_uploaded (sample_env t) h"
  by (auto simp: sample_env_def fun_eq_iff)

text \<open>The sample tokens keep the promises of a token contract.\<close>

lemma sample_token: "token_contract (tok_balance (sample_env t)) (tok_transfer (sample_env t))"
  by unfold_locales (auto simp: s_transfer_def s_move_def split: if_splits)

lemma sample_allowance_token:
  "allowance_token (tok_balance (sample_env t)) (tok_transfer (sample_env t))
     (tok_transfer_from (sample_env t))"
  by (intro allowance_token.intro sample_token allowance_token_axioms.intro)
    (auto simp: s_transfer_def s_move_def split: if_splits)

end
