(* ===== verification/Router_Access.thy ===== *)
theory Router_Access
  imports Sample_World
begin

text \<open>
  Roles, the tiered pause and the freeze switch: \<open>payment_router/src/access.rs\<close> up to the
  multi-signature helpers, and the entry points of \<open>lib.rs\<close> built on them. A role is kept
  twice, as a designated holder (\<open>iRole\<close>) and as a flag per account (\<open>pUserRole\<close>);
  \<open>roles_ok\<close> is the invariant that the two agree, under which every role has one
  effective holder (\<open>role_holder\<close>).
\<close>

section \<open>Roles\<close>

definition set_role_internal :: "Role \<Rightarrow> address \<Rightarrow> 'w ledger \<Rightarrow> 'w ledger" where
  "set_role_internal role account s =
     (let s1 = (case iRole s role of
          Some previous \<Rightarrow>
            if previous \<noteq> account
            then s\<lparr>pUserRole := (pUserRole s)((previous, role) \<mapsto> False)\<rparr> else s
        | None \<Rightarrow> s)
      in s1\<lparr>iRole := (iRole s1)(role \<mapsto> account),
            pUserRole := (pUserRole s1)((account, role) \<mapsto> True)\<rparr>)"

definition remove_role_internal :: "Role \<Rightarrow> address \<Rightarrow> 'w ledger \<Rightarrow> 'w ledger" where
  "remove_role_internal role account s =
     (let s1 = (case iRole s role of
          Some current \<Rightarrow>
            if current = account then s\<lparr>iRole := (iRole s)(role := None)\<rparr> else s
        | None \<Rightarrow> s)
      in s1\<lparr>pUserRole := (pUserRole s1)((account, role) \<mapsto> False)\<rparr>)"

definition apply_role_grant :: "'w renv \<Rightarrow> address \<Rightarrow> Role \<Rightarrow> 'w ledger \<Rightarrow> 'w ledger" where
  "apply_role_grant e grantee role s =
     emit ''role_assigned'' [NatArg (role_code role), AddrArg grantee, NatArg (now e)]
       (set_role_internal role grantee s)"

definition apply_role_revoke :: "'w renv \<Rightarrow> address \<Rightarrow> Role \<Rightarrow> 'w ledger \<Rightarrow> 'w ledger" where
  "apply_role_revoke e grantee role s =
     emit ''role_revoked'' [NatArg (role_code role), AddrArg grantee, NatArg (now e)]
       (remove_role_internal role grantee s)"

definition require_admin :: "'w ledger \<Rightarrow> (error, address) outcome" where
  "require_admin s = ok_or NotInitialized (iAdmin s)"

definition require_role :: "'w renv \<Rightarrow> Role \<Rightarrow> 'w ledger \<Rightarrow> (error, address) outcome" where
  "require_role e role s =
     bnd (case iRole s role of Some role_addr \<Rightarrow> Ok role_addr | None \<Rightarrow> require_admin s) (\<lambda>addr.
     bnd (require_auth e addr) (\<lambda>_. Ok addr))"

definition has_role_internal :: "'w ledger \<Rightarrow> address \<Rightarrow> Role \<Rightarrow> bool" where
  "has_role_internal s account role =
     (if unwrap_or False (pUserRole s (account, role)) then True
      else case iRole s role of
        Some primary \<Rightarrow> primary = account
      | None \<Rightarrow> iAdmin s = Some account)"

definition require_role_of ::
    "'w renv \<Rightarrow> address \<Rightarrow> Role \<Rightarrow> 'w ledger \<Rightarrow> (error, unit) outcome" where
  "require_role_of e caller role s =
     (if \<not> has_role_internal s caller role then Err RoleNotFound else require_auth e caller)"

definition require_fee_authority :: "'w renv \<Rightarrow> 'w ledger \<Rightarrow> (error, unit) outcome" where
  "require_fee_authority e s =
     (case iGovernance s of
        Some gov \<Rightarrow> require_auth e gov
      | None \<Rightarrow> bnd (require_role e FeeManager s) (\<lambda>_. Ok ()))"

text \<open>The recurring \<open>require_admin(&env)?; admin.require_auth()\<close> of the admin entry points.\<close>

definition admin_auth :: "'w renv \<Rightarrow> 'w ledger \<Rightarrow> (error, address) outcome" where
  "admin_auth e s = bnd (require_admin s) (\<lambda>admin. bnd (require_auth e admin) (\<lambda>_. Ok admin))"

definition grant_role ::
    "'w renv \<Rightarrow> address \<Rightarrow> address \<Rightarrow> Role \<Rightarrow> 'w ledger \<Rightarrow> ('w, unit) res" where
  "grant_role e admin grantee role s =
     bnd (require_role_of e admin SuperAdmin s) (\<lambda>_. Ok ((), apply_role_grant e grantee role s))"

definition revoke_role ::
    "'w renv \<Rightarrow> address \<Rightarrow> address \<Rightarrow> Role \<Rightarrow> 'w ledger \<Rightarrow> ('w, unit) res" where
  "revoke_role e admin grantee role s =
     bnd (require_role_of e admin SuperAdmin s) (\<lambda>_.
     if role = SuperAdmin \<and> admin = grantee then Err InvalidRole
     else Ok ((), apply_role_revoke e grantee role s))"

definition assign_role :: "'w renv \<Rightarrow> address \<Rightarrow> Role \<Rightarrow> 'w ledger \<Rightarrow> ('w, unit) res" where
  "assign_role e account role s =
     bnd (require_role e SuperAdmin s) (\<lambda>_. Ok ((), apply_role_grant e account role s))"

definition get_role_member :: "'w ledger \<Rightarrow> Role \<Rightarrow> address option" where
  "get_role_member s role = iRole s role"

subsection \<open>One effective holder per role\<close>

definition roles_ok :: "'w ledger \<Rightarrow> bool" where
  "roles_ok s \<longleftrightarrow> (\<forall>a r. pUserRole s (a, r) = Some True \<longleftrightarrow> iRole s r = Some a)"

definition role_holder :: "'w ledger \<Rightarrow> Role \<Rightarrow> address option" where
  "role_holder s role = (case iRole s role of Some a \<Rightarrow> Some a | None \<Rightarrow> iAdmin s)"

lemma set_role_fields:
  "iRole (set_role_internal r a s) = (iRole s)(r \<mapsto> a)"
  "iAdmin (set_role_internal r a s) = iAdmin s"
  by (simp_all add: set_role_internal_def Let_def split: option.splits)

lemma remove_role_fields:
  "iRole (remove_role_internal r a s) = (if iRole s r = Some a then (iRole s)(r := None) else iRole s)"
  "iAdmin (remove_role_internal r a s) = iAdmin s"
  by (auto simp: remove_role_internal_def Let_def split: option.splits)

lemma set_role_roles_ok: "roles_ok s \<Longrightarrow> roles_ok (set_role_internal r a s)"
  by (auto simp: roles_ok_def set_role_internal_def Let_def split: option.splits)

lemma remove_role_roles_ok: "roles_ok s \<Longrightarrow> roles_ok (remove_role_internal r a s)"
  by (auto simp: roles_ok_def remove_role_internal_def Let_def split: option.splits)

lemma roles_ok_cong: "iRole s' = iRole s \<Longrightarrow> pUserRole s' = pUserRole s \<Longrightarrow> roles_ok s' = roles_ok s"
  by (simp add: roles_ok_def)

lemma roles_ok_emit [simp]: "roles_ok (s\<lparr>events := ev\<rparr>) = roles_ok s"
  by (simp add: roles_ok_def)

lemma role_holder_emit [simp]: "role_holder (s\<lparr>events := ev\<rparr>) r = role_holder s r"
  by (simp add: role_holder_def split: option.splits)

lemma role_holder_set [simp]:
  "role_holder (set_role_internal r a s) r' = (if r' = r then Some a else role_holder s r')"
  by (simp add: role_holder_def set_role_fields split: option.splits)

lemma role_holder_remove [simp]:
  "role_holder (remove_role_internal r a s) r' =
     (if r' = r \<and> iRole s r = Some a then iAdmin s else role_holder s r')"
  by (auto simp: role_holder_def remove_role_fields split: option.splits)

lemma has_role_holder: "roles_ok s \<Longrightarrow> has_role_internal s a r = (role_holder s r = Some a)"
  by (auto simp: roles_ok_def has_role_internal_def role_holder_def unwrap_or_def
      split: option.splits)

lemma require_role_eq [outcome_simps]:
  "(require_role e r s = Ok a) = (role_holder s r = Some a \<and> auth e a)"
  "(require_role e r s = Err x) = (role_holder s r = None \<and> x = NotInitialized)"
  by (auto simp: require_role_def role_holder_def require_admin_def outcome_simps
      split: option.splits)

lemma require_admin_eq [outcome_simps]:
  "(require_admin s = Ok a) = (iAdmin s = Some a)"
  by (simp add: require_admin_def outcome_simps)

lemma admin_auth_eq [outcome_simps]:
  "(admin_auth e s = Ok a) = (iAdmin s = Some a \<and> auth e a)"
  by (auto simp: admin_auth_def outcome_simps)

lemma require_role_of_eq [outcome_simps]:
  "(require_role_of e a r s = Ok u) = (has_role_internal s a r \<and> auth e a)"
  by (simp add: require_role_of_def outcome_simps)

lemma apply_role_grant_fields:
  "role_holder (apply_role_grant e g r s) = (role_holder s)(r \<mapsto> g)"
  "roles_ok s \<Longrightarrow> roles_ok (apply_role_grant e g r s)"
  by (rule ext, simp add: apply_role_grant_def) (simp add: apply_role_grant_def set_role_roles_ok)

lemma apply_role_revoke_fields:
  "role_holder (apply_role_revoke e g r s) r' =
     (if r' = r \<and> iRole s r = Some g then iAdmin s else role_holder s r')"
  "roles_ok s \<Longrightarrow> roles_ok (apply_role_revoke e g r s)"
  by (simp_all add: apply_role_revoke_def remove_role_roles_ok)

lemma grant_role_eq:
  "roles_ok s \<Longrightarrow> grant_role e admin g r s = Ok ((), s') \<longleftrightarrow>
     role_holder s SuperAdmin = Some admin \<and> auth e admin \<and> s' = apply_role_grant e g r s"
  unfolding grant_role_def outcome_simps has_role_holder by auto

lemma revoke_role_eq:
  "roles_ok s \<Longrightarrow> revoke_role e admin g r s = Ok ((), s') \<longleftrightarrow>
     role_holder s SuperAdmin = Some admin \<and> auth e admin
   \<and> \<not> (r = SuperAdmin \<and> admin = g) \<and> s' = apply_role_revoke e g r s"
  unfolding revoke_role_def outcome_simps has_role_holder by auto

text \<open>Every role has at most one effective holder, and \<open>has_role\<close> and \<open>require_role\<close> agree on
  who it is: the designated account, or the root admin for a role that was never delegated or was
  taken back. A grant succeeds exactly for the authorised SuperAdmin and moves that one role to the
  grantee, whoever held it before; nothing else changes hands.\<close>

theorem role_has_one_holder:
  assumes "roles_ok s"
  shows "(\<forall>a. has_role_internal s a r = (role_holder s r = Some a))
    \<and> (\<forall>a. require_role e r s = Ok a \<longleftrightarrow> role_holder s r = Some a \<and> auth e a)
    \<and> (\<forall>admin g s'. grant_role e admin g r s = Ok ((), s') \<longrightarrow>
          role_holder s SuperAdmin = Some admin \<and> auth e admin
        \<and> roles_ok s' \<and> role_holder s' = (role_holder s)(r \<mapsto> g))
    \<and> (\<forall>admin g. role_holder s SuperAdmin = Some admin \<and> auth e admin \<longrightarrow>
          grant_role e admin g r s = Ok ((), apply_role_grant e g r s))"
  using assms by (auto simp: has_role_holder require_role_eq grant_role_eq apply_role_grant_fields)

lemma sample_roles_ok: "roles_ok sample_ledger"
  by (auto simp: roles_ok_def)

theorem role_has_one_holder_witness:
  "\<exists>s'. grant_role (sample_env 5) 1 8 Pauser sample_ledger = Ok ((), s')
     \<and> role_holder s' Pauser = Some 8 \<and> role_holder s' UpgradeManager = Some 1"
proof -
  let ?e = "sample_env 5" and ?s = sample_ledger
  note one = role_has_one_holder [OF sample_roles_ok, of Pauser ?e]
  have h: "role_holder ?s SuperAdmin = Some 1" "role_holder ?s UpgradeManager = Some 1"
    by (simp_all add: role_holder_def)
  with one have run: "grant_role ?e 1 8 Pauser ?s = Ok ((), apply_role_grant ?e 8 Pauser ?s)"
    by simp
  with one have "role_holder (apply_role_grant ?e 8 Pauser ?s) = (role_holder ?s)(Pauser \<mapsto> 8)"
    by blast
  with run h show ?thesis by simp
qed

text \<open>Revoking a role hands it back to the root admin if the account was its designated holder
  and changes no other role; revoking from anyone else moves no authority at all, and the acting
  SuperAdmin can never drop its own root role.\<close>

theorem revoke_returns_role_to_admin:
  assumes "roles_ok s" "revoke_role e admin g r s = Ok ((), s')"
  shows "role_holder s SuperAdmin = Some admin \<and> auth e admin \<and> roles_ok s'
     \<and> (r = SuperAdmin \<longrightarrow> g \<noteq> admin)
     \<and> (\<forall>r'. role_holder s' r' =
          (if r' = r \<and> iRole s r = Some g then iAdmin s else role_holder s r'))"
  using assms by (auto simp: revoke_role_eq apply_role_revoke_fields)

theorem revoke_returns_role_to_admin_witness:
  "\<exists>s'. revoke_role (sample_env 5) 1 1 Pauser sample_ledger = Ok ((), s')
     \<and> role_holder s' Pauser = Some 1"
proof -
  let ?s' = "apply_role_revoke (sample_env 5) 1 Pauser sample_ledger"
  have run: "revoke_role (sample_env 5) 1 1 Pauser sample_ledger = Ok ((), ?s')"
    by (simp add: revoke_role_def require_role_of_def has_role_internal_def require_auth_def)
  from revoke_returns_role_to_admin [OF sample_roles_ok run]
  have "role_holder ?s' Pauser = Some 1" by simp
  with run show ?thesis by blast
qed

section \<open>Tiered pause and freeze\<close>

definition get_pause_level :: "'w ledger \<Rightarrow> PauseLevel" where
  "get_pause_level s =
     (case iPauseLevel s of
        Some level \<Rightarrow> level
      | None \<Rightarrow> if unwrap_or False (iPaused s) then FullHalt else NoPause)"

definition set_pause_level_internal :: "PauseLevel \<Rightarrow> 'w ledger \<Rightarrow> 'w ledger" where
  "set_pause_level_internal level s =
     s\<lparr>iPauseLevel := Some level, iPaused := Some (level \<noteq> NoPause)\<rparr>"

definition is_paused_internal :: "'w ledger \<Rightarrow> bool" where
  "is_paused_internal s \<longleftrightarrow> FullHalt \<le> get_pause_level s"

definition require_not_fully_halted :: "'w ledger \<Rightarrow> (error, unit) outcome" where
  "require_not_fully_halted s = (if FullHalt \<le> get_pause_level s then Err Paused else Ok ())"

definition require_swaps_not_paused :: "'w ledger \<Rightarrow> (error, unit) outcome" where
  "require_swaps_not_paused s = (if get_pause_level s \<noteq> NoPause then Err Paused else Ok ())"

definition require_circuit_closed :: "'w ledger \<Rightarrow> (error, unit) outcome" where
  "require_circuit_closed s = require_not_fully_halted s"

definition is_frozen_internal :: "'w ledger \<Rightarrow> bool" where
  "is_frozen_internal s = unwrap_or False (iFrozen s)"

definition set_pause :: "'w renv \<Rightarrow> bool \<Rightarrow> 'w ledger \<Rightarrow> ('w, unit) res" where
  "set_pause e paused s =
     bnd (require_role e Pauser s) (\<lambda>_.
     let level = (if paused then FullHalt else NoPause) in
     Ok ((), emit ''pause'' [BoolArg paused] (set_pause_level_internal level s)))"

definition set_pause_level :: "'w renv \<Rightarrow> PauseLevel \<Rightarrow> 'w ledger \<Rightarrow> ('w, unit) res" where
  "set_pause_level e level s =
     bnd (require_role e Pauser s) (\<lambda>_.
     Ok ((), emit ''pause_level'' [NatArg (pause_code level)] (set_pause_level_internal level s)))"

definition emergency_freeze :: "'w renv \<Rightarrow> 'w ledger \<Rightarrow> ('w, unit) res" where
  "emergency_freeze e s =
     bnd (require_role e SuperAdmin s) (\<lambda>super_admin.
     Ok ((), emit ''emergency_freeze'' [AddrArg super_admin, NatArg (now e)] (s\<lparr>iFrozen := Some True\<rparr>)))"

definition unfreeze :: "'w renv \<Rightarrow> 'w ledger \<Rightarrow> ('w, unit) res" where
  "unfreeze e s =
     bnd (require_role e SuperAdmin s) (\<lambda>super_admin.
     Ok ((), emit ''unfreeze'' [AddrArg super_admin, NatArg (now e)] (s\<lparr>iFrozen := Some False\<rparr>)))"

lemma require_not_fully_halted_eq [outcome_simps]:
  "(require_not_fully_halted s = Ok u) = (get_pause_level s \<noteq> FullHalt)"
  "(require_not_fully_halted s = Err x) = (get_pause_level s = FullHalt \<and> x = Paused)"
  "require_not_fully_halted s \<noteq> Trap"
  by (auto simp: require_not_fully_halted_def)

lemma require_circuit_closed_eq [outcome_simps]:
  "(require_circuit_closed s = Ok u) = (get_pause_level s \<noteq> FullHalt)"
  "(require_circuit_closed s = Err x) = (get_pause_level s = FullHalt \<and> x = Paused)"
  by (simp_all add: require_circuit_closed_def outcome_simps)

lemma require_swaps_not_paused_eq [outcome_simps]:
  "(require_swaps_not_paused s = Ok u) = (get_pause_level s = NoPause)"
  "(require_swaps_not_paused s = Err x) = (get_pause_level s \<noteq> NoPause \<and> x = Paused)"
  by (auto simp: require_swaps_not_paused_def)

lemma get_pause_level_set [simp]: "get_pause_level (set_pause_level_internal l s) = l"
  by (simp add: get_pause_level_def set_pause_level_internal_def)

lemma get_pause_level_events [simp]: "get_pause_level (s\<lparr>events := ev\<rparr>) = get_pause_level s"
  by (simp add: get_pause_level_def)

text \<open>The tiered pause: the holder of the Pauser role, and nobody else, sets the level; from
  then on the level reads back as set, swaps are admitted only at \<open>None\<close>, direct payments and
  queued parameter changes at every level below \<open>FullHalt\<close>, and a ledger of the version before
  the tiers reads its boolean as \<open>FullHalt\<close> or \<open>None\<close>.\<close>

theorem pause_levels:
  "(set_pause_level e level s = Ok ((), s') \<longrightarrow>
      (\<exists>p. role_holder s Pauser = Some p \<and> auth e p) \<and> get_pause_level s' = level
    \<and> (require_swaps_not_paused s' = Ok () \<longleftrightarrow> level = NoPause)
    \<and> (require_not_fully_halted s' = Ok () \<longleftrightarrow> level < FullHalt)
    \<and> (is_paused_internal s' \<longleftrightarrow> level = FullHalt))
   \<and> (iPauseLevel s = None \<longrightarrow>
      get_pause_level s = (if iPaused s = Some True then FullHalt else NoPause))"
  by (cases level; cases "iPaused s")
    (auto simp: set_pause_level_def outcome_simps is_paused_internal_def less_PauseLevel_def
      get_pause_level_def [of s])

theorem pause_levels_witness:
  "\<exists>s'. set_pause_level (sample_env 5) SwapsOnly sample_ledger = Ok ((), s')
     \<and> require_swaps_not_paused s' \<noteq> Ok () \<and> require_not_fully_halted s' = Ok ()"
proof -
  obtain s' where s': "set_pause_level (sample_env 5) SwapsOnly sample_ledger = Ok ((), s')"
    by (simp add: set_pause_level_def require_role_def require_auth_def)
  with pause_levels [of "sample_env 5" SwapsOnly sample_ledger s'] show ?thesis
    by (auto simp: less_PauseLevel_def)
qed

end
