(* ===== verification/Router_Storage.thy ===== *)
theory Router_Storage
  imports Sample_World
begin

text \<open>
  The packed ledger records of \<open>payment_router/src/storage.rs\<close>: the per-sender
  \<open>UserRecord\<close> (24-hour spending window, lifetime volume and flag bitmap in 72 bytes), the
  legacy split entries it replaced, the per-ledger rate counter, and the reentrancy guard.
  The spending window refines an abstract account (\<open>spend\<close>).
\<close>

section \<open>Packing and unpacking\<close>

definition pack_user_record :: "nat \<Rightarrow> int \<Rightarrow> int \<Rightarrow> bytes \<Rightarrow> bytes" where
  "pack_user_record last_reset_time accumulated_amount volume flags =
     u64_be last_reset_time @ i128_be accumulated_amount @ i128_be volume @ flags"

definition unpack_user_record :: "bytes \<Rightarrow> nat \<times> int \<times> int \<times> bytes" where
  "unpack_user_record buf =
     (be_nat (bslice 0 8 buf), be_i128 (bslice 8 24 buf), be_i128 (bslice 24 40 buf),
      bslice 40 72 buf)"

definition unpack_legacy_spending :: "bytes \<Rightarrow> nat \<times> int" where
  "unpack_legacy_spending buf = (be_nat (bslice 0 8 buf), be_i128 (bslice 8 24 buf))"

definition pack_rate_counter :: "nat \<Rightarrow> nat \<Rightarrow> bytes" where
  "pack_rate_counter window_ledger invocations = u32_be window_ledger @ u32_be invocations"

definition unpack_rate_counter :: "bytes \<Rightarrow> nat \<times> nat" where
  "unpack_rate_counter buf = (be_nat (bslice 0 4 buf), be_nat (bslice 4 8 buf))"

definition valid_user_record :: "nat \<times> int \<times> int \<times> bytes \<Rightarrow> bool" where
  "valid_user_record r \<longleftrightarrow>
     (case r of (t, acc, vol, flags) \<Rightarrow>
        u64_ok t \<and> i128_ok acc \<and> i128_ok vol \<and> length flags = 32)"

definition valid_rate_counter :: "nat \<times> nat \<Rightarrow> bool" where
  "valid_rate_counter r \<longleftrightarrow> u32_ok (fst r) \<and> u32_ok (snd r)"

lemma unpack_pack_user_record:
  "u64_ok t \<Longrightarrow> i128_ok acc \<Longrightarrow> i128_ok vol \<Longrightarrow> length flags = 32 \<Longrightarrow>
   unpack_user_record (pack_user_record t acc vol flags) = (t, acc, vol, flags)"
  by (simp add: unpack_user_record_def pack_user_record_def)

interpretation user_record_codec: packed_codec
  "\<lambda>(t, acc, vol, flags). pack_user_record t acc vol flags" unpack_user_record
  valid_user_record 72
  by unfold_locales
    (auto simp: valid_user_record_def unpack_pack_user_record, simp add: pack_user_record_def)

interpretation rate_counter_codec: packed_codec
  "\<lambda>(w, n). pack_rate_counter w n" unpack_rate_counter valid_rate_counter 8
  by unfold_locales
    (auto simp: valid_rate_counter_def pack_rate_counter_def unpack_rate_counter_def)

lemma unpack_pack_rate_counter:
  "u32_ok w \<Longrightarrow> u32_ok n \<Longrightarrow> unpack_rate_counter (pack_rate_counter w n) = (w, n)"
  using rate_counter_codec.unpack_pack [of "(w, n)"] by (simp add: valid_rate_counter_def)

text \<open>Whatever bytes an entry holds, the decoded fields are in range.\<close>

lemma length_bslice_le: "length (bslice i j bs) \<le> j - i"
  by (simp add: bslice_def)

lemma be_nat_bslice_less: "be_nat (bslice i j bs) < 256 ^ (j - i)"
  using be_nat_less [of "bslice i j bs"] length_bslice_le [of i j bs]
  by (meson less_le_trans numeral_One one_le_numeral power_increasing)

lemma be_i128_ok: "length bs \<le> 16 \<Longrightarrow> i128_ok (be_i128 bs)"
proof -
  assume "length bs \<le> 16"
  then have "(256::nat) ^ length bs \<le> 256 ^ 16" by (intro power_increasing) simp_all
  with be_nat_less [of bs] have "be_nat bs < 2 ^ 128" by simp
  then have "int (be_nat bs) < 2 ^ 128" by simp
  then show ?thesis by (simp add: be_i128_def i128_ok_def Let_def)
qed

lemma unpack_user_record_ok:
  assumes "unpack_user_record bs = (t, acc, vol, flags)"
  shows "u64_ok t" "i128_ok acc" "i128_ok vol" "length bs = 72 \<Longrightarrow> length flags = 32"
  using assms be_nat_bslice_less [of 0 8 bs] length_bslice_le [of 8 24 bs]
    length_bslice_le [of 24 40 bs]
  by (auto simp: unpack_user_record_def u64_ok_def bslice_def intro!: be_i128_ok)

lemma unpack_legacy_ok:
  assumes "unpack_legacy_spending bs = (t, acc)"
  shows "u64_ok t" "i128_ok acc"
  using assms be_nat_bslice_less [of 0 8 bs] length_bslice_le [of 8 24 bs]
  by (auto simp: unpack_legacy_spending_def u64_ok_def intro!: be_i128_ok)

section \<open>The flag bitmap\<close>

definition byte_at :: "bytes \<Rightarrow> nat \<Rightarrow> byte" where
  "byte_at b i = (if i < length b then b ! i else 0)"

definition flag_get :: "bytes \<Rightarrow> 8 word \<Rightarrow> bool" where
  "flag_get flags bit_no =
     (let byte = unat (bit_no div 8); offset = unat (bit_no mod 8)
      in drop_bit offset (byte_at flags byte) AND 1 = 1)"

definition flag_set :: "bytes \<Rightarrow> 8 word \<Rightarrow> bool \<Rightarrow> bytes" where
  "flag_set flags bit_no val =
     (let byte = unat (bit_no div 8); offset = unat (bit_no mod 8)
      in if byte < length flags
         then (if val then flags[byte := flags ! byte OR push_bit offset 1]
               else flags[byte := flags ! byte AND NOT (push_bit offset 1)])
         else flags)"

text \<open>\<open>UserRecord::has_flag\<close> and \<open>UserRecord::set_flag\<close> of \<open>types.rs\<close>.\<close>

definition has_flag :: "UserRecord \<Rightarrow> 8 word \<Rightarrow> bool" where
  "has_flag r bit_no = flag_get (ur_flags r) bit_no"

definition set_flag :: "UserRecord \<Rightarrow> 8 word \<Rightarrow> bool \<Rightarrow> UserRecord" where
  "set_flag r bit_no val = r\<lparr>ur_flags := flag_set (ur_flags r) bit_no val\<rparr>"

lemma bit_masked: "(drop_bit n (w :: byte) AND 1 = 1) = bit w n"
  by (auto simp: bit_iff_odd_drop_bit and_one_eq odd_iff_mod_2_eq_one)

lemma unat_bit_no:
  "unat ((b :: byte) div 8) = unat b div 8" "unat (b mod 8) = unat b mod 8"
  "unat b div 8 < 32"
proof -
  have "unat b < 256" using unsigned_less [of b, where 'a = nat] by simp
  then show "unat b div 8 < 32" by simp
qed (simp_all add: unat_div unat_mod)

lemma flag_get_bit: "flag_get f b = bit (byte_at f (unat b div 8)) (unat b mod 8)"
  by (simp add: flag_get_def Let_def bit_masked unat_bit_no)

lemma unat_pos_eq:
  "unat (b :: byte) div 8 = unat b' div 8 \<and> unat b mod 8 = unat b' mod 8 \<longleftrightarrow> b = b'"
  by (metis div_mult_mod_eq unsigned_word_eqI)

lemma length_flag_set [simp]: "length (flag_set f b v) = length f"
  by (simp add: flag_set_def Let_def)

text \<open>Writing one flag changes that flag and no other of the 256.\<close>

lemma flag_get_set:
  assumes "length f = 32"
  shows "flag_get (flag_set f b v) b' = (if b' = b then v else flag_get f b')"
proof -
  have upd: "bit (byte_at (flag_set f b v) (unat b' div 8)) n =
      (if unat b' div 8 = unat b div 8 \<and> n = unat b mod 8 then v
       else bit (byte_at f (unat b' div 8)) n)" if "n < 8" for n
    using assms that unat_bit_no(3) [of b] unat_bit_no(3) [of b']
    by (auto simp: flag_set_def byte_at_def unat_bit_no Let_def nth_list_update bit_simps)
  show ?thesis
    using upd [of "unat b' mod 8"] unat_pos_eq [of b' b] by (auto simp: flag_get_bit)
qed

section \<open>Loading, accruing and migrating a sender's record\<close>

definition zero_flags :: bytes where "zero_flags = replicate 32 0"

text \<open>The fifth component tells whether legacy split entries were found.\<close>

definition load_user_record ::
    "'w ledger \<Rightarrow> address \<Rightarrow> nat \<Rightarrow> nat \<times> int \<times> int \<times> bytes \<times> bool" where
  "load_user_record s sender current_time =
     (case pUserRecord s sender of
        Some packed \<Rightarrow>
          (case unpack_user_record packed of (t, acc, vol, flags) \<Rightarrow> (t, acc, vol, flags, False))
      | None \<Rightarrow>
          (let legacy_spending = map_option unpack_legacy_spending (pUserSpending s sender);
               legacy_volume = unwrap_or 0 (pUserVolume s sender);
               (t, acc) = unwrap_or (current_time, 0) legacy_spending;
               legacy_found = (legacy_spending \<noteq> None \<or> legacy_volume \<noteq> 0)
           in (t, acc, legacy_volume, zero_flags, legacy_found)))"

definition put_user_record ::
    "address \<Rightarrow> nat \<Rightarrow> int \<Rightarrow> int \<Rightarrow> bytes \<Rightarrow> 'w ledger \<Rightarrow> 'w ledger" where
  "put_user_record sender t acc vol flags s =
     s\<lparr>pUserRecord := (pUserRecord s)(sender \<mapsto> pack_user_record t acc vol flags)\<rparr>"

definition drop_legacy :: "address \<Rightarrow> 'w ledger \<Rightarrow> 'w ledger" where
  "drop_legacy sender s =
     s\<lparr>pUserSpending := (pUserSpending s)(sender := None),
       pUserVolume := (pUserVolume s)(sender := None)\<rparr>"

text \<open>Rolls the 24-hour window, checks the daily limit, and returns the volume before the payment.\<close>

definition accrue_user_record ::
    "'w renv \<Rightarrow> address \<Rightarrow> int \<Rightarrow> 'w ledger \<Rightarrow> ('w, int) res" where
  "accrue_user_record e sender amount s =
     (let current_time = now e in
      case load_user_record s sender current_time of (t0, acc0, volume, flags, legacy_found) \<Rightarrow>
      bnd (u64_sub current_time t0) (\<lambda>elapsed.
      let roll = SECONDS_IN_24H \<le> elapsed;
          last_reset_time = (if roll then current_time else t0);
          accumulated_amount = (if roll then 0 else acc0) in
      case i128_checked_add accumulated_amount amount of
        None \<Rightarrow> Err LimitExceeded
      | Some new_accumulated \<Rightarrow>
          if new_accumulated > DAILY_MAX_LIMIT then Err LimitExceeded
          else
            let new_volume = i128_saturating_add volume amount;
                s' = put_user_record sender last_reset_time new_accumulated new_volume flags s
            in Ok (volume, if legacy_found then drop_legacy sender s' else s')))"

definition user_has_flag :: "'w ledger \<Rightarrow> address \<Rightarrow> 8 word \<Rightarrow> bool" where
  "user_has_flag s sender bit_no =
     (case pUserRecord s sender of
        None \<Rightarrow> False
      | Some packed \<Rightarrow>
          (case unpack_user_record packed of (_, _, _, flags) \<Rightarrow> flag_get flags bit_no))"

definition user_set_flag :: "'w renv \<Rightarrow> address \<Rightarrow> 8 word \<Rightarrow> bool \<Rightarrow> 'w ledger \<Rightarrow> 'w ledger" where
  "user_set_flag e sender bit_no val s =
     (case load_user_record s sender (now e) of (t, acc, vol, flags, _) \<Rightarrow>
        put_user_record sender t acc vol (flag_set flags bit_no val) s)"

definition get_user_record :: "'w renv \<Rightarrow> address \<Rightarrow> 'w ledger \<Rightarrow> UserRecord" where
  "get_user_record e user s =
     (case load_user_record s user (now e) of (t, acc, vol, flags, _) \<Rightarrow>
        \<lparr>ur_accumulated_amount = acc, ur_volume = vol, ur_last_reset_time = t, ur_flags = flags\<rparr>)"

definition get_user_volume :: "'w renv \<Rightarrow> address \<Rightarrow> 'w ledger \<Rightarrow> int" where
  "get_user_volume e user s = ur_volume (get_user_record e user s)"

definition get_effective_fee_bps :: "'w renv \<Rightarrow> address \<Rightarrow> 'w ledger \<Rightarrow> int" where
  "get_effective_fee_bps e sender s =
     (let fee_bps = unwrap_or 0 (iFeeBps s) in
      if get_user_volume e sender s > VOLUME_THRESHOLD then fee_bps sdiv 2 else fee_bps)"

definition migrate_user_record :: "'w renv \<Rightarrow> address \<Rightarrow> 'w ledger \<Rightarrow> bool \<times> 'w ledger" where
  "migrate_user_record e user s =
     (let has_packed = (pUserRecord s user \<noteq> None);
          legacy_spending = map_option unpack_legacy_spending (pUserSpending s user);
          legacy_volume = unwrap_or 0 (pUserVolume s user)
      in if legacy_spending = None \<and> legacy_volume = 0 then (False, s)
         else
           let s1 = (if has_packed then s
                     else case unwrap_or (now e, 0) legacy_spending of (t, acc) \<Rightarrow>
                       put_user_record user t acc legacy_volume zero_flags s);
               s2 = drop_legacy user s1
           in (True, emit ''migrated'' [AddrArg user, IntArg legacy_volume] s2))"

section \<open>Well-formed records\<close>

text \<open>What the types \<open>BytesN<72>\<close>, \<open>BytesN<24>\<close> and \<open>i128\<close> of the stored values say.\<close>

definition records_typed :: "'w ledger \<Rightarrow> bool" where
  "records_typed s \<longleftrightarrow>
     (\<forall>a bs. pUserRecord s a = Some bs \<longrightarrow> length bs = 72) \<and>
     (\<forall>a bs. pUserSpending s a = Some bs \<longrightarrow> length bs = 24) \<and>
     (\<forall>a v. pUserVolume s a = Some v \<longrightarrow> i128_ok v)"

lemma length_zero_flags [simp]: "length zero_flags = 32"
  by (simp add: zero_flags_def)

lemma load_user_record_ok:
  assumes "records_typed s" "u64_ok t0" "load_user_record s a t0 = (t, acc, vol, flags, lf)"
  shows "u64_ok t" "i128_ok acc" "i128_ok vol" "length flags = 32"
  using assms
  by (auto simp: load_user_record_def records_typed_def unwrap_or_def Let_def
        dest: unpack_user_record_ok unpack_legacy_ok
        split: option.splits prod.splits if_splits)

lemma put_user_record_frame [simp]:
  "pUserRecord (put_user_record a t acc vol flags s) =
     (pUserRecord s)(a \<mapsto> pack_user_record t acc vol flags)"
  "pUserSpending (put_user_record a t acc vol flags s) = pUserSpending s"
  "pUserVolume (put_user_record a t acc vol flags s) = pUserVolume s"
  by (simp_all add: put_user_record_def)

lemma load_after_put:
  "u64_ok t \<Longrightarrow> i128_ok acc \<Longrightarrow> i128_ok vol \<Longrightarrow> length flags = 32 \<Longrightarrow>
   load_user_record (put_user_record a t acc vol flags s) a' t0 =
     (if a' = a then (t, acc, vol, flags, False) else load_user_record s a' t0)"
  by (auto simp: load_user_record_def unpack_pack_user_record split: option.splits)

lemma load_after_drop:
  "load_user_record (drop_legacy a s) a' t0 =
     (if a' = a \<and> pUserRecord s a = None then (t0, 0, 0, zero_flags, False)
      else load_user_record s a' t0)"
  by (auto simp: load_user_record_def drop_legacy_def split: option.splits)

lemma records_typed_put:
  "records_typed s \<Longrightarrow> length flags = 32 \<Longrightarrow> records_typed (put_user_record a t acc vol flags s)"
  by (auto simp: records_typed_def pack_user_record_def split: if_splits)

lemma records_typed_drop: "records_typed s \<Longrightarrow> records_typed (drop_legacy a s)"
  by (auto simp: records_typed_def drop_legacy_def split: if_splits)

section \<open>The abstract spending account\<close>

text \<open>
  What the packed record means, and the specification of one charge against it: open a new
  window once 24 hours have passed, refuse a charge that would exceed the daily limit,
  otherwise add the amount to the window and to the lifetime volume.
\<close>

record account =
  window_start :: nat
  spent :: int
  lifetime :: int
  bitmap :: bytes

definition account_of :: "'w renv \<Rightarrow> 'w ledger \<Rightarrow> address \<Rightarrow> account" where
  "account_of e s a =
     (case load_user_record s a (now e) of (t, acc, vol, flags, _) \<Rightarrow>
        \<lparr>window_start = t, spent = acc, lifetime = vol, bitmap = flags\<rparr>)"

definition roll_window :: "nat \<Rightarrow> account \<Rightarrow> account" where
  "roll_window t A =
     (if SECONDS_IN_24H \<le> t - window_start A then A\<lparr>window_start := t, spent := 0\<rparr> else A)"

definition spend :: "nat \<Rightarrow> int \<Rightarrow> account \<Rightarrow> account option" where
  "spend t amount A =
     (let B = roll_window t A; total = spent B + amount in
      if i128_ok total \<and> total \<le> DAILY_MAX_LIMIT
      then Some (B\<lparr>spent := total, lifetime := i128_saturating_add (lifetime B) amount\<rparr>)
      else None)"

lemma accrue_refines_spend_aux:
  assumes "records_typed s" "u64_ok (now e)" "window_start (account_of e s a) \<le> now e"
  shows "case spend (now e) amount (account_of e s a) of
      None \<Rightarrow> accrue_user_record e a amount s = Err LimitExceeded
    | Some B \<Rightarrow> \<exists>s'. accrue_user_record e a amount s = Ok (lifetime (account_of e s a), s')
        \<and> account_of e s' a = B \<and> records_typed s'
        \<and> (\<forall>a'. a' \<noteq> a \<longrightarrow> account_of e s' a' = account_of e s a')"
proof -
  obtain t acc vol flags lf where ld: "load_user_record s a (now e) = (t, acc, vol, flags, lf)"
    by (metis prod_cases5)
  note ok = load_user_record_ok [OF assms(1,2) ld]
  have le: "t \<le> now e" using assms(3) by (simp add: account_of_def ld)
  have drop: "account_of e (drop_legacy a (put_user_record a t' acc' vol' flags s)) a' =
      account_of e (put_user_record a t' acc' vol' flags s) a'" for t' acc' vol' a'
    by (simp add: account_of_def load_after_drop)
  have put: "account_of e (put_user_record a t' acc' vol' flags s) a' =
      (if a' = a then \<lparr>window_start = t', spent = acc', lifetime = vol', bitmap = flags\<rparr>
       else account_of e s a')" if "u64_ok t'" "i128_ok acc'" "i128_ok vol'" for t' acc' vol' a'
    using that ok(4) by (simp add: account_of_def load_after_put)
  show ?thesis
    using assms ok le
    by (auto simp: spend_def roll_window_def accrue_user_record_def arith_defs ld put drop Let_def
          records_typed_put records_typed_drop
          account_of_def [of e s a])
qed

text \<open>C9: Charging a payment against a sender's packed 72-byte record (legacy split entries
  included) implements the abstract account: it succeeds exactly when the abstract charge does,
  returns the lifetime volume from before the payment, leaves a record that decodes to the
  charged account, and does not disturb any other sender's record.\<close>

theorem accrue_refines_spend:
  assumes "records_typed s" "u64_ok (now e)" "window_start (account_of e s a) \<le> now e"
  shows "case spend (now e) amount (account_of e s a) of
      None \<Rightarrow> accrue_user_record e a amount s = Err LimitExceeded
    | Some B \<Rightarrow> \<exists>s'. accrue_user_record e a amount s = Ok (lifetime (account_of e s a), s')
        \<and> account_of e s' a = B \<and> records_typed s'
        \<and> (\<forall>a'. a' \<noteq> a \<longrightarrow> account_of e s' a' = account_of e s a')"
  using assms by (rule accrue_refines_spend_aux)

lemma sample_records_typed: "records_typed sample_ledger"
  by (simp add: records_typed_def sample_ledger_def fresh_ledger_def)

lemma sample_account:
  "account_of (sample_env t) sample_ledger a =
     \<lparr>window_start = t, spent = 0, lifetime = 0, bitmap = zero_flags\<rparr>"
  by (simp add: account_of_def load_user_record_def sample_ledger_def fresh_ledger_def Let_def)

theorem accrue_refines_spend_witness:
  "\<exists>s'. accrue_user_record (sample_env 1000) 5 100 sample_ledger = Ok (0, s')
     \<and> spent (account_of (sample_env 1000) s' 5) = 100"
proof -
  have "u64_ok (now (sample_env 1000))" by (simp add: u64_ok_def)
  from accrue_refines_spend [OF sample_records_typed this, of 5 100] show ?thesis
    by (auto simp: sample_account spend_def roll_window_def Let_def i128_ok_def const_defs)
qed

section \<open>The daily limit over a sequence of payments\<close>

lemma accrue_Ok_account:
  assumes "accrue_user_record e a amount s = Ok (v, s')"
    and "records_typed s" "u64_ok (now e)"
  shows "spend (now e) amount (account_of e s a) = Some (account_of e s' a)"
    and "v = lifetime (account_of e s a)" and "records_typed s'"
    and "window_start (account_of e s a) \<le> now e"
proof -
  have le: "window_start (account_of e s a) \<le> now e"
    using assms(1)
    by (auto simp: accrue_user_record_def account_of_def Let_def arith_defs outcome_simps
          split: prod.splits if_splits)
  note r = accrue_refines_spend_aux [OF assms(2,3) le, of amount]
  show "spend (now e) amount (account_of e s a) = Some (account_of e s' a)"
    "v = lifetime (account_of e s a)" "records_typed s'"
    using r assms(1) by (auto split: option.splits)
  show "window_start (account_of e s a) \<le> now e" by (rule le)
qed

text \<open>A run of charges to one sender, each at its own ledger time.\<close>

fun accrue_all :: "'w renv \<Rightarrow> address \<Rightarrow> (nat \<times> int) list \<Rightarrow> 'w ledger \<Rightarrow> ('w, unit) res" where
  "accrue_all e a [] s = Ok ((), s)"
| "accrue_all e a ((t, amount) # xs) s =
     bnd (accrue_user_record (e\<lparr>now := t\<rparr>) a amount s) (\<lambda>(_, s'). accrue_all e a xs s')"

lemma packed_after_accrue:
  "accrue_user_record e a amount s = Ok (v, s') \<Longrightarrow> pUserRecord s' a \<noteq> None"
  by (auto simp: accrue_user_record_def Let_def arith_defs outcome_simps drop_legacy_def
        split: prod.splits if_splits)

lemma account_of_packed:
  "pUserRecord s a \<noteq> None \<Longrightarrow> account_of e s a = account_of e' s a"
  by (auto simp: account_of_def load_user_record_def split: option.splits prod.splits)

lemma spend_in_window:
  assumes "spend t amount A = Some B" "t < window_start A + SECONDS_IN_24H"
  shows "spent B = spent A + amount" "spent B \<le> DAILY_MAX_LIMIT" "window_start B = window_start A"
proof -
  have "\<not> SECONDS_IN_24H \<le> t - window_start A"
    using assms(2) by (auto simp: SECONDS_IN_24H_def)
  then show "spent B = spent A + amount" "spent B \<le> DAILY_MAX_LIMIT"
    "window_start B = window_start A"
    using assms(1) by (auto simp: spend_def roll_window_def Let_def split: if_splits)
qed

text \<open>One charge inside the window of a packed record.\<close>

lemma accrue_in_window:
  assumes ok: "accrue_user_record (e\<lparr>now := t\<rparr>) a amount s = Ok (v, s')"
    and s: "records_typed s" "pUserRecord s a \<noteq> None" "u64_ok t"
    and t: "t < window_start (account_of e s a) + SECONDS_IN_24H"
  shows "spent (account_of e s' a) = spent (account_of e s a) + amount"
    and "spent (account_of e s' a) \<le> DAILY_MAX_LIMIT"
    and "window_start (account_of e s' a) = window_start (account_of e s a)"
    and "records_typed s'" "pUserRecord s' a \<noteq> None"
proof -
  let ?e = "e\<lparr>now := t\<rparr>"
  note acc = accrue_Ok_account [OF ok s(1)]
  have eq: "account_of ?e s a = account_of e s a" "account_of ?e s' a = account_of e s' a"
    using account_of_packed s(2) packed_after_accrue [OF ok] by blast+
  have "spend t amount (account_of e s a) = Some (account_of e s' a)"
    using acc(1) s(3) by (simp add: eq)
  then show "spent (account_of e s' a) = spent (account_of e s a) + amount"
    "spent (account_of e s' a) \<le> DAILY_MAX_LIMIT"
    "window_start (account_of e s' a) = window_start (account_of e s a)"
    using spend_in_window t by blast+
  show "records_typed s'" using acc(3) s(3) by simp
  show "pUserRecord s' a \<noteq> None" by (rule packed_after_accrue [OF ok])
qed

text \<open>The daily limit holds over whole runs: whatever payments a sender makes inside one
  24-hour window of its packed record, if all are accepted then what the window had already
  counted plus everything they moved is at most \<open>DAILY_MAX_LIMIT\<close>, and the record counts it
  exactly.\<close>

theorem daily_limit_over_window:
  assumes "accrue_all e a xs s = Ok ((), s')" and "xs \<noteq> []"
    and "records_typed s" "pUserRecord s a \<noteq> None"
    and "\<forall>(t, amount) \<in> set xs. u64_ok t \<and> t < window_start (account_of e s a) + SECONDS_IN_24H"
  shows "spent (account_of e s' a) = spent (account_of e s a) + sum_list (map snd xs)
    \<and> spent (account_of e s a) + sum_list (map snd xs) \<le> DAILY_MAX_LIMIT"
  using assms
proof (induction xs arbitrary: s)
  case Nil
  then show ?case by simp
next
  case (Cons x xs)
  obtain t amount where x: "x = (t, amount)" by (cases x)
  with Cons.prems(1) obtain v s1
    where st: "accrue_user_record (e\<lparr>now := t\<rparr>) a amount s = Ok (v, s1)"
      and rest: "accrue_all e a xs s1 = Ok ((), s')"
    by (auto simp: outcome_simps)
  have t: "u64_ok t" "t < window_start (account_of e s a) + SECONDS_IN_24H"
    using Cons.prems(5) x by auto
  note one = accrue_in_window [OF st Cons.prems(3,4) t]
  show ?case
  proof (cases "xs = []")
    case True
    with rest one x show ?thesis by simp
  next
    case False
    have "\<forall>(t, amount) \<in> set xs. u64_ok t \<and> t < window_start (account_of e s1 a) + SECONDS_IN_24H"
      using Cons.prems(5) one(3) by simp
    from Cons.IH [OF rest False one(4,5) this] one(1) x show ?thesis by simp
  qed
qed

text \<open>A sender whose window opened at time 1000 with 100 counted, charged twice more.\<close>

definition sample_record_ledger :: "sworld ledger" where
  "sample_record_ledger = put_user_record 5 1000 100 100 zero_flags sample_ledger"

lemma sample_record_typed: "records_typed sample_record_ledger"
  by (simp add: sample_record_ledger_def records_typed_put sample_records_typed)

lemma sample_record_account:
  "account_of e sample_record_ledger 5 =
     \<lparr>window_start = 1000, spent = 100, lifetime = 100, bitmap = zero_flags\<rparr>"
  by (simp add: account_of_def sample_record_ledger_def load_after_put u64_ok_def i128_ok_def)

theorem daily_limit_over_window_witness:
  "\<exists>s'. accrue_all (sample_env 0) 5 [(2000, 50), (3000, 70)] sample_record_ledger = Ok ((), s')
     \<and> spent (account_of (sample_env 0) s' 5) = 220"
proof -
  let ?s = sample_record_ledger
  let ?s1 = "put_user_record 5 1000 150 150 zero_flags ?s"
  let ?s2 = "put_user_record 5 1000 220 220 zero_flags ?s1"
  have ld: "load_user_record ?s 5 t = (1000, 100, 100, zero_flags, False)"
    "load_user_record ?s1 5 t = (1000, 150, 150, zero_flags, False)" for t
    by (simp_all add: sample_record_ledger_def load_after_put u64_ok_def i128_ok_def)
  have run: "accrue_all (sample_env 0) 5 [(2000, 50), (3000, 70)] ?s = Ok ((), ?s2)"
    by (simp add: accrue_user_record_def ld arith_defs i128_ok_def const_defs Let_def)
  have packed: "pUserRecord ?s 5 \<noteq> None" by (simp add: sample_record_ledger_def)
  from daily_limit_over_window [OF run _ sample_record_typed packed]
  have "spent (account_of (sample_env 0) ?s2 5) = 220"
    by (simp add: sample_record_account u64_ok_def const_defs)
  with run show ?thesis by blast
qed

text \<open>Migrating a sender's legacy split entries into the packed record changes nothing a
  client can read: every sender's record (window, volume and flags) is the same before and after;
  it reports whether there was anything to migrate, leaves no legacy entry behind when it did,
  and a second migration is a no-op.\<close>

theorem migrate_preserves_records:
  assumes "records_typed s" "u64_ok (now e)" "migrate_user_record e user s = (b, s')"
  shows "(\<forall>a. get_user_record e a s' = get_user_record e a s)
    \<and> (b \<longrightarrow> pUserSpending s' user = None \<and> pUserVolume s' user = None)
    \<and> (\<not> b \<longrightarrow> s' = s)
    \<and> migrate_user_record e user s' = (False, s')"
proof (cases "b")
  case False
  with assms(3) show ?thesis by (auto simp: migrate_user_record_def Let_def split: if_splits)
next
  case True
  obtain t acc vol flags lf where ld: "load_user_record s user (now e) = (t, acc, vol, flags, lf)"
    by (metis prod_cases5)
  note ok = load_user_record_ok [OF assms(1,2) ld]
  have load_emit: "load_user_record (emit c d r) a k = load_user_record r a k" for c d r a k
    by (simp add: load_user_record_def split: option.split)
  show ?thesis
  proof (cases "pUserRecord s user")
    case (Some packed)
    with True assms(3)
    have s': "s' = emit ''migrated'' [AddrArg user, IntArg (unwrap_or 0 (pUserVolume s user))]
      (drop_legacy user s)"
      by (auto simp: migrate_user_record_def Let_def split: if_splits)
    have "get_user_record e a s' = get_user_record e a s" for a
      by (simp only: s' get_user_record_def load_emit load_after_drop Some) simp
    with s' True show ?thesis by (simp add: migrate_user_record_def drop_legacy_def Let_def)
  next
    case None
    define p where "p = unwrap_or (now e, 0) (map_option unpack_legacy_spending (pUserSpending s user))"
    have p: "p = (t, acc)" "vol = unwrap_or 0 (pUserVolume s user)" "flags = zero_flags"
      using ld None by (auto simp: p_def load_user_record_def Let_def split: prod.splits)
    have s': "s' = emit ''migrated'' [AddrArg user, IntArg vol]
      (drop_legacy user (put_user_record user t acc vol flags s))"
      using True assms(3) None p
      by (auto simp: migrate_user_record_def Let_def p_def split: if_splits)
    have "get_user_record e a s' = get_user_record e a s" for a
      using ok by (auto simp: s' get_user_record_def load_emit load_after_drop load_after_put ld
          simp del: emit_def)
    with s' True show ?thesis by (simp add: migrate_user_record_def drop_legacy_def Let_def)
  qed
qed

text \<open>A sender with legacy entries only.\<close>

definition sample_legacy_ledger :: "sworld ledger" where
  "sample_legacy_ledger = sample_ledger\<lparr>pUserSpending := [6 \<mapsto> u64_be 900 @ i128_be 40],
     pUserVolume := [6 \<mapsto> 70]\<rparr>"

theorem migrate_preserves_records_witness:
  "\<exists>s'. migrate_user_record (sample_env 1000) 6 sample_legacy_ledger = (True, s')
     \<and> pUserVolume s' 6 = None
     \<and> get_user_record (sample_env 1000) 6 s' = get_user_record (sample_env 1000) 6 sample_legacy_ledger"
proof -
  let ?e = "sample_env 1000" and ?s = sample_legacy_ledger
  have typed: "records_typed ?s"
    by (simp add: records_typed_def sample_legacy_ledger_def sample_ledger_def fresh_ledger_def
        i128_ok_def)
  obtain b s' where m: "migrate_user_record ?e 6 ?s = (b, s')" by (metis surj_pair)
  then have b: b
    by (simp add: migrate_user_record_def sample_legacy_ledger_def Let_def)
  from migrate_preserves_records [OF typed _ m] b m show ?thesis by (simp add: u64_ok_def)
qed

section \<open>User flags\<close>

lemma flag_get_zero: "\<not> flag_get zero_flags b"
  using unat_bit_no(3) [of b] by (simp add: flag_get_bit byte_at_def zero_flags_def)

text \<open>Setting one of the 256 user flags changes that flag alone: the same flag then reads
  back as written, every other flag of the sender reads as before (unset when the sender had no
  record yet), and the sender's window, spent amount and lifetime volume are untouched.\<close>

theorem user_flag_update:
  assumes "records_typed s" "u64_ok (now e)"
    and "account_of e s a = A" "user_set_flag e a b v s = s'"
    and "pUserRecord s a \<noteq> None \<or> (pUserSpending s a = None \<and> pUserVolume s a = None)"
  shows "user_has_flag s' a b' = (if b' = b then v else user_has_flag s a b')
    \<and> window_start (account_of e s' a) = window_start A
    \<and> spent (account_of e s' a) = spent A \<and> lifetime (account_of e s' a) = lifetime A"
proof -
  obtain t acc vol flags lf where ld: "load_user_record s a (now e) = (t, acc, vol, flags, lf)"
    by (metis prod_cases5)
  note ok = load_user_record_ok [OF assms(1,2) ld]
  have old: "user_has_flag s a b' = flag_get flags b'"
    using ld by (auto simp: user_has_flag_def load_user_record_def Let_def flag_get_zero
        split: option.splits prod.splits)
  have s': "s' = put_user_record a t acc vol (flag_set flags b v) s"
    using assms(4) by (simp add: user_set_flag_def ld)
  have "user_has_flag s' a b' = flag_get (flag_set flags b v) b'"
    using ok by (simp add: s' user_has_flag_def unpack_pack_user_record)
  moreover have "account_of e s' a = A\<lparr>bitmap := flag_set flags b v\<rparr>"
    using ok assms(3) by (auto simp: s' account_of_def load_after_put ld)
  ultimately show ?thesis by (simp add: old flag_get_set ok(4))
qed

theorem user_flag_update_witness:
  "user_has_flag (user_set_flag (sample_env 2000) 5 17 True sample_record_ledger) 5 17
     \<and> \<not> user_has_flag (user_set_flag (sample_env 2000) 5 17 True sample_record_ledger) 5 18"
proof -
  have p: "pUserRecord sample_record_ledger 5 \<noteq> None" by (simp add: sample_record_ledger_def)
  have u: "u64_ok (now (sample_env 2000))" by (simp add: u64_ok_def)
  have "\<not> user_has_flag sample_record_ledger 5 18"
    by (simp add: user_has_flag_def sample_record_ledger_def unpack_pack_user_record u64_ok_def
        i128_ok_def flag_get_zero)
  then show ?thesis
    using user_flag_update [OF sample_record_typed u refl refl, of 5 17 True 17] p
      user_flag_update [OF sample_record_typed u refl refl, of 5 17 True 18]
    by simp
qed

end
