(* ===== verification/Router_Fees.thy ===== *)
theory Router_Fees
  imports Router_Storage
begin

text \<open>
  The platform fee (\<open>payment_router/src/fees.rs\<close> and the two inlined variants of it in
  \<open>lib.rs\<close>). The three routines differ only in how they treat a product that does not fit
  an \<open>i128\<close>: the swap routes trap, the direct route saturates, the meta-transaction route
  falls back to the amount. Where the product fits they obey the same contract, \<open>fee_rule\<close>.
\<close>

definition clip_fee :: "int \<Rightarrow> int \<Rightarrow> int \<Rightarrow> int" where
  "clip_fee fee fee_cap amount =
     (let fee1 = (if fee > fee_cap then fee_cap else fee)
      in if fee1 > amount then amount else fee1)"

definition calculate_fee :: "int \<Rightarrow> int \<Rightarrow> int \<Rightarrow> (error, int \<times> int) outcome" where
  "calculate_fee amount effective_fee_bps fee_cap =
     bnd (i128_mul amount effective_fee_bps) (\<lambda>prod.
     let fee_amount = clip_fee (prod sdiv BPS_DIVISOR) fee_cap amount in
     bnd (i128_sub amount fee_amount) (\<lambda>remainder. Ok (fee_amount, remainder)))"

text \<open>The fee block of \<open>process_single_payment\<close>.\<close>

definition direct_fee :: "int \<Rightarrow> int \<Rightarrow> int \<Rightarrow> (error, int \<times> int) outcome" where
  "direct_fee amount effective_fee_bps fee_cap =
     (let fee_amount = clip_fee (i128_saturating_mul amount effective_fee_bps sdiv BPS_DIVISOR)
            fee_cap amount in
      bnd (i128_sub amount fee_amount) (\<lambda>remainder. Ok (fee_amount, remainder)))"

text \<open>The fee block of \<open>process_single_payment_no_auth\<close>.\<close>

definition meta_fee :: "int \<Rightarrow> int \<Rightarrow> int \<Rightarrow> (error, int \<times> int) outcome" where
  "meta_fee amount effective_fee_bps fee_cap =
     (let fee_product = unwrap_or amount (i128_checked_mul amount effective_fee_bps);
          fee_amount = clip_fee (fee_product sdiv BPS_DIVISOR) fee_cap amount in
      bnd (i128_sub amount fee_amount) (\<lambda>remainder. Ok (fee_amount, remainder)))"

text \<open>The tiered discount: half the rate once the lifetime volume exceeds the threshold.\<close>

definition effective_fee_bps :: "int \<Rightarrow> int \<Rightarrow> int" where
  "effective_fee_bps user_volume fee_bps =
     (if user_volume > VOLUME_THRESHOLD then fee_bps sdiv 2 else fee_bps)"

definition load_fee_config :: "'w ledger \<Rightarrow> (error, address \<times> int \<times> int) outcome" where
  "load_fee_config s =
     bnd (ok_or NotInitialized (iPlatformTreasury s)) (\<lambda>platform_treasury.
     bnd (ok_or NotInitialized (iFeeBps s)) (\<lambda>fee_bps.
     bnd (ok_or NotInitialized (iFeeCap s)) (\<lambda>fee_cap.
     Ok (platform_treasury, fee_bps, fee_cap))))"

lemma load_fee_config_eq [outcome_simps]:
  "(load_fee_config s = Ok (tr, bps, cap)) =
     (iPlatformTreasury s = Some tr \<and> iFeeBps s = Some bps \<and> iFeeCap s = Some cap)"
  by (auto simp: load_fee_config_def outcome_simps)

section \<open>What a fee is\<close>

definition fee_spec :: "int \<Rightarrow> int \<Rightarrow> int \<Rightarrow> int" where
  "fee_spec amount bps cap = min amount (min cap (amount * bps div BPS_DIVISOR))"

lemma fee_spec_bounds:
  assumes "0 \<le> a" "0 \<le> bps" "0 \<le> cap"
  shows "0 \<le> fee_spec a bps cap" "fee_spec a bps cap \<le> a" "fee_spec a bps cap \<le> cap"
    "BPS_DIVISOR * fee_spec a bps cap \<le> a * bps"
proof -
  have "BPS_DIVISOR * (a * bps div BPS_DIVISOR) \<le> a * bps"
    using pos_mod_sign [of BPS_DIVISOR "a * bps"] mult_div_mod_eq [of BPS_DIVISOR "a * bps"]
    by (simp add: BPS_DIVISOR_def)
  moreover have "fee_spec a bps cap \<le> a * bps div BPS_DIVISOR"
    by (simp add: fee_spec_def)
  ultimately show "BPS_DIVISOR * fee_spec a bps cap \<le> a * bps"
    by (simp add: BPS_DIVISOR_def)
  show "0 \<le> fee_spec a bps cap" "fee_spec a bps cap \<le> a" "fee_spec a bps cap \<le> cap"
    using assms by (simp_all add: fee_spec_def BPS_DIVISOR_def pos_imp_zdiv_nonneg_iff)
qed

lemma fee_remainder_ok:
  "0 \<le> a \<Longrightarrow> i128_ok a \<Longrightarrow> 0 \<le> bps \<Longrightarrow> 0 \<le> cap \<Longrightarrow> i128_ok (a - fee_spec a bps cap)"
  using fee_spec_bounds [of a bps cap] by (simp add: i128_ok_def)

locale fee_rule =
  fixes split_fee :: "int \<Rightarrow> int \<Rightarrow> int \<Rightarrow> (error, int \<times> int) outcome"
  assumes split_fits: "0 \<le> a \<Longrightarrow> i128_ok a \<Longrightarrow> 0 \<le> bps \<Longrightarrow> 0 \<le> cap \<Longrightarrow> i128_ok (a * bps) \<Longrightarrow>
      split_fee a bps cap = Ok (fee_spec a bps cap, a - fee_spec a bps cap)"
    and split_sum: "split_fee a bps cap = Ok (fee, rest) \<Longrightarrow> fee + rest = a"
begin

lemma split_parts:
  assumes "split_fee a bps cap = Ok (fee, rest)"
    and "0 \<le> a" "i128_ok a" "0 \<le> bps" "0 \<le> cap" "i128_ok (a * bps)"
  shows "0 \<le> fee \<and> fee \<le> cap \<and> 0 \<le> rest \<and> fee + rest = a"
  using assms fee_spec_bounds [of a bps cap] by (auto simp: split_fits)

lemma split_mono:
  assumes "split_fee a bps cap = Ok (fee, rest)" "split_fee a' bps cap = Ok (fee', rest')"
    and "0 \<le> a" "a \<le> a'" "i128_ok a'" "0 \<le> bps" "0 \<le> cap" "i128_ok (a' * bps)"
  shows "fee \<le> fee'"
proof -
  have le: "a * bps \<le> a' * bps" using assms by (simp add: mult_right_mono)
  have "i128_ok a" "i128_ok (a * bps)"
    using assms le by (auto intro: i128_ok_mono)
  moreover have "a * bps div BPS_DIVISOR \<le> a' * bps div BPS_DIVISOR"
    using le by (simp add: BPS_DIVISOR_def zdiv_mono1)
  ultimately have "fee = fee_spec a bps cap" "fee' = fee_spec a' bps cap"
    "fee_spec a bps cap \<le> fee_spec a' bps cap"
    using assms by (auto simp: split_fits fee_spec_def min_def)
  then show ?thesis by simp
qed

end

lemma clip_fee_spec:
  "0 \<le> a \<Longrightarrow> 0 \<le> bps \<Longrightarrow> clip_fee ((a * bps) sdiv BPS_DIVISOR) cap a = fee_spec a bps cap"
  by (simp add: clip_fee_def fee_spec_def sdiv_nonneg BPS_DIVISOR_def Let_def min_def)

interpretation calc: fee_rule calculate_fee
  by unfold_locales
    (auto simp: calculate_fee_def clip_fee_spec fee_remainder_ok i128_mul_def outcome_simps Let_def
        i128_sub_def split: if_splits)

interpretation direct: fee_rule direct_fee
  by unfold_locales
    (auto simp: direct_fee_def clip_fee_spec fee_remainder_ok i128_saturating_mul_def outcome_simps
        Let_def i128_sub_def split: if_splits)

interpretation meta: fee_rule meta_fee
  by unfold_locales
    (auto simp: meta_fee_def clip_fee_spec fee_remainder_ok i128_checked_mul_def outcome_simps
        Let_def i128_sub_def split: if_splits)

text \<open>The three fee routines of the router compute the same split wherever amount times rate
  fits an \<open>i128\<close>: the fee is the rate's share rounded down, clipped to the cap and to the amount,
  so it is between 0 and both bounds, never more than the rate asks for, and fee plus remainder is
  exactly the amount.\<close>

theorem fee_routines_agree:
  assumes "0 \<le> amount" "i128_ok amount" "0 \<le> bps" "0 \<le> cap" "i128_ok (amount * bps)"
  shows "\<exists>fee rest.
      calculate_fee amount bps cap = Ok (fee, rest)
    \<and> direct_fee amount bps cap = Ok (fee, rest)
    \<and> meta_fee amount bps cap = Ok (fee, rest)
    \<and> fee = min amount (min cap (amount * bps div BPS_DIVISOR))
    \<and> 0 \<le> fee \<and> fee \<le> cap \<and> 0 \<le> rest \<and> fee + rest = amount
    \<and> BPS_DIVISOR * fee \<le> amount * bps"
  using assms fee_spec_bounds [OF assms(1,3,4)]
  by (simp add: calc.split_fits direct.split_fits meta.split_fits fee_spec_def [symmetric])

theorem fee_routines_agree_witness:
  "calculate_fee 30000 100 250 = Ok (250, 29750) \<and> meta_fee 30000 100 250 = Ok (250, 29750)"
  using fee_routines_agree [of 30000 100 250] by (auto simp: i128_ok_def BPS_DIVISOR_def)

end
