(* ===== verification/Router_Admin.thy ===== *)
theory Router_Admin
  imports Router_Access Router_Fees
begin

text \<open>
  Initialisation, the direct parameter setters, the blacklist, fee proposals, the handover of
  the admin key and the dead man's switch: the entry points \<open>initialize\<close>,
  \<open>set_platform_treasury\<close> to \<open>set_min_limit\<close>, \<open>blacklist_address\<close> to
  \<open>set_kyc_config\<close> and \<open>ping\<close> to \<open>renew_heartbeat\<close> of \<open>payment_router/src/lib.rs\<close>
  with \<open>dead_mans_switch.rs\<close>. \<open>dms_view\<close> is the abstract state of the switch.
\<close>

section \<open>Initialisation\<close>

definition initialize ::
    "'w renv \<Rightarrow> address \<Rightarrow> address \<Rightarrow> int \<Rightarrow> int \<Rightarrow> int \<Rightarrow> 'w ledger \<Rightarrow> ('w, unit) res" where
  "initialize e admin platform_treasury fee_bps fee_cap max_amount s =
     (if iAdmin s \<noteq> None then Err AlreadyInitialized
      else bnd (require_auth e admin) (\<lambda>_.
        let s1 = s\<lparr>iAdmin := Some admin, iPlatformTreasury := Some platform_treasury,
                   iFeeBps := Some fee_bps, iFeeCap := Some fee_cap, iMaxAmount := Some max_amount,
                   iPaused := Some False, iFrozen := Some False,
                   iMaxSlippageBps := Some DEFAULT_MAX_SLIPPAGE_BPS, iTimelockNonce := Some 0\<rparr>;
            s2 = set_role_internal SuperAdmin admin s1;
            s3 = set_role_internal TreasuryManager admin s2;
            s4 = set_role_internal ComplianceOfficer admin s3;
            s5 = set_role_internal FeeManager admin s4;
            s6 = set_role_internal Pauser admin s5
        in Ok ((), s6)))"

section \<open>Direct setters\<close>

definition set_platform_treasury :: "'w renv \<Rightarrow> address \<Rightarrow> 'w ledger \<Rightarrow> ('w, unit) res" where
  "set_platform_treasury e new_treasury s =
     bnd (require_circuit_closed s) (\<lambda>_.
     bnd (require_role e TreasuryManager s) (\<lambda>_.
     Ok ((), s\<lparr>iPlatformTreasury := Some new_treasury\<rparr>)))"

definition set_fee_config :: "'w renv \<Rightarrow> int \<Rightarrow> int \<Rightarrow> 'w ledger \<Rightarrow> ('w, unit) res" where
  "set_fee_config e fee_bps fee_cap s =
     bnd (require_circuit_closed s) (\<lambda>_.
     bnd (require_fee_authority e s) (\<lambda>_.
     Ok ((), s\<lparr>iFeeBps := Some fee_bps, iFeeCap := Some fee_cap\<rparr>)))"

definition set_fee_bps :: "'w renv \<Rightarrow> int \<Rightarrow> 'w ledger \<Rightarrow> ('w, unit) res" where
  "set_fee_bps e new_fee_bps s =
     bnd (require_circuit_closed s) (\<lambda>_.
     bnd (require_fee_authority e s) (\<lambda>_.
     Ok ((), s\<lparr>iFeeBps := Some new_fee_bps\<rparr>)))"

definition set_governance :: "'w renv \<Rightarrow> address \<Rightarrow> 'w ledger \<Rightarrow> ('w, unit) res" where
  "set_governance e gov s =
     bnd (require_circuit_closed s) (\<lambda>_.
     bnd (require_role e SuperAdmin s) (\<lambda>_.
     Ok ((), s\<lparr>iGovernance := Some gov\<rparr>)))"

definition configure_governance :: "'w renv \<Rightarrow> address \<Rightarrow> int \<Rightarrow> 'w ledger \<Rightarrow> ('w, unit) res" where
  "configure_governance e governance_token quor s =
     bnd (require_role e SuperAdmin s) (\<lambda>_.
     if quor \<le> 0 then Err InvalidProposal
     else Ok ((), s\<lparr>iGovernanceToken := Some governance_token, iGovernanceQuorum := Some quor\<rparr>))"

definition propose_fee_change ::
    "'w renv \<Rightarrow> address \<Rightarrow> int \<Rightarrow> int \<Rightarrow> nat \<Rightarrow> 'w ledger \<Rightarrow> ('w, nat) res" where
  "propose_fee_change e prop fee_bps fee_cap voting_period s =
     bnd (require_auth e prop) (\<lambda>_.
     bnd (ok_or GovernanceNotConfigured (iGovernanceToken s)) (\<lambda>governance_token.
     bnd (balance_of e governance_token prop (world s)) (\<lambda>b.
     if b \<le> 0 then Err GovernanceNotConfigured
     else if \<not> (0 \<le> fee_bps \<and> fee_bps \<le> 10000) \<or> fee_cap < 0 \<or> voting_period = 0
     then Err InvalidProposal
     else
       let nonce = unwrap_or 0 (iGovernanceNonce s);
           pid = u64_saturating_add nonce 1;
           quor = unwrap_or 0 (iGovernanceQuorum s);
           proposal = \<lparr>proposer = prop, fp_fee_bps = fee_bps, fp_fee_cap = fee_cap,
             created_at = now e, voting_ends_at = u64_saturating_add (now e) voting_period,
             yes_votes = 0, no_votes = 0, quorum = quor, executed = False\<rparr>
       in Ok (pid, s\<lparr>iGovernanceNonce := Some pid,
                     pGovernanceProposal := (pGovernanceProposal s)(pid \<mapsto> proposal)\<rparr>))))"

definition set_min_limit :: "'w renv \<Rightarrow> int \<Rightarrow> 'w ledger \<Rightarrow> ('w, unit) res" where
  "set_min_limit e min_limit s =
     bnd (require_circuit_closed s) (\<lambda>_.
     bnd (require_role e FeeManager s) (\<lambda>_.
     Ok ((), s\<lparr>iMinLimit := Some min_limit\<rparr>)))"

definition get_fee :: "'w ledger \<Rightarrow> int" where
  "get_fee s = unwrap_or 0 (iFeeBps s)"

definition blacklist_address :: "'w renv \<Rightarrow> address \<Rightarrow> 'w ledger \<Rightarrow> ('w, unit) res" where
  "blacklist_address e address s =
     bnd (require_role e ComplianceOfficer s) (\<lambda>_.
     Ok ((), s\<lparr>pBlacklist := (pBlacklist s)(address \<mapsto> True)\<rparr>))"

definition unblacklist_address :: "'w renv \<Rightarrow> address \<Rightarrow> 'w ledger \<Rightarrow> ('w, unit) res" where
  "unblacklist_address e address s =
     bnd (require_role e ComplianceOfficer s) (\<lambda>_.
     Ok ((), s\<lparr>pBlacklist := (pBlacklist s)(address := None)\<rparr>))"

definition is_blacklisted :: "'w ledger \<Rightarrow> address \<Rightarrow> bool" where
  "is_blacklisted s address = unwrap_or False (pBlacklist s address)"

definition set_yield_protocol :: "'w renv \<Rightarrow> address \<Rightarrow> 'w ledger \<Rightarrow> ('w, unit) res" where
  "set_yield_protocol e protocol s =
     bnd (require_role e TreasuryManager s) (\<lambda>_.
     Ok ((), emit ''yield_cfg'' [AddrArg protocol] (s\<lparr>iYieldProtocol := Some protocol\<rparr>)))"

definition set_kyc_config :: "'w renv \<Rightarrow> address \<Rightarrow> int \<Rightarrow> 'w ledger \<Rightarrow> ('w, unit) res" where
  "set_kyc_config e oracle threshold s =
     (if threshold < 0 then Err InvalidKycThreshold
      else bnd (require_role e ComplianceOfficer s) (\<lambda>_.
        Ok ((), emit ''kyc_cfg'' [AddrArg oracle, IntArg threshold]
          (s\<lparr>iKycOracle := Some oracle, iKycThreshold := Some threshold\<rparr>))))"

section \<open>The admin key\<close>

definition set_admin :: "'w renv \<Rightarrow> address \<Rightarrow> 'w ledger \<Rightarrow> ('w, unit) res" where
  "set_admin e new_admin s =
     bnd (if iAdmin s \<noteq> None then bnd (require_role e SuperAdmin s) (\<lambda>_. Ok ()) else Ok ()) (\<lambda>_.
     Ok ((), set_role_internal SuperAdmin new_admin (s\<lparr>iAdmin := Some new_admin\<rparr>)))"

definition transfer_admin :: "'w renv \<Rightarrow> address \<Rightarrow> 'w ledger \<Rightarrow> ('w, unit) res" where
  "transfer_admin e new_admin s =
     bnd (require_role e SuperAdmin s) (\<lambda>current_admin.
     let s1 = remove_role_internal SuperAdmin current_admin s in
     Ok ((), set_role_internal SuperAdmin new_admin (s1\<lparr>iAdmin := Some new_admin\<rparr>)))"

section \<open>The dead man's switch\<close>

definition bump_heartbeat :: "'w renv \<Rightarrow> 'w ledger \<Rightarrow> 'w ledger" where
  "bump_heartbeat e s =
     (if iBackupAdmin s \<noteq> None then s\<lparr>iLastHeartbeat := Some (now e)\<rparr> else s)"

definition apply_set_backup_admin ::
    "'w renv \<Rightarrow> address \<Rightarrow> nat \<Rightarrow> 'w ledger \<Rightarrow> (error, 'w ledger) outcome" where
  "apply_set_backup_admin e backup timeout_seconds s =
     (if timeout_seconds < MIN_DMS_TIMEOUT then Err InvalidDmsConfig
      else bnd (require_admin s) (\<lambda>admin.
      if backup = admin then Err InvalidDmsConfig
      else Ok (emit ''backup_admin_set'' [AddrArg admin, AddrArg backup, NatArg timeout_seconds]
        (s\<lparr>iBackupAdmin := Some backup, iDmsTimeout := Some timeout_seconds,
           iLastHeartbeat := Some (now e)\<rparr>))))"

definition set_backup_admin_internal ::
    "'w renv \<Rightarrow> address \<Rightarrow> nat \<Rightarrow> 'w ledger \<Rightarrow> ('w, unit) res" where
  "set_backup_admin_internal e backup timeout_seconds s =
     bnd (admin_auth e s) (\<lambda>_.
     bnd (apply_set_backup_admin e backup timeout_seconds s) (\<lambda>s1. Ok ((), s1)))"

definition remove_backup_admin :: "'w renv \<Rightarrow> 'w ledger \<Rightarrow> ('w, unit) res" where
  "remove_backup_admin e s =
     bnd (admin_auth e s) (\<lambda>admin.
     Ok ((), emit ''backup_admin_removed'' [AddrArg admin, NatArg (now e)]
       (s\<lparr>iBackupAdmin := None, iLastHeartbeat := None\<rparr>)))"

definition ping :: "'w renv \<Rightarrow> 'w ledger \<Rightarrow> ('w, unit) res" where
  "ping e s =
     bnd (admin_auth e s) (\<lambda>admin.
     Ok ((), emit ''ping'' [AddrArg admin, NatArg (now e)] (bump_heartbeat e s)))"

definition claim_admin :: "'w renv \<Rightarrow> address \<Rightarrow> 'w ledger \<Rightarrow> ('w, unit) res" where
  "claim_admin e claimant s =
     bnd (require_auth e claimant) (\<lambda>_.
     bnd (ok_or NoBackupAdmin (iBackupAdmin s)) (\<lambda>backup.
     if claimant \<noteq> backup then Err Unauthorized
     else bnd (ok_or InvalidDmsConfig (iDmsTimeout s)) (\<lambda>timeout.
     bnd (ok_or InvalidDmsConfig (iLastHeartbeat s)) (\<lambda>last_heartbeat.
     if now e < u64_saturating_add last_heartbeat timeout then Err DmsNotReady
     else Ok ((), emit ''admin_claimed'' [AddrArg claimant, NatArg (now e)]
       (s\<lparr>iAdmin := Some claimant, iBackupAdmin := None, iLastHeartbeat := None,
          iDmsTimeout := None\<rparr>))))))"

definition get_dead_mans_switch :: "'w renv \<Rightarrow> 'w ledger \<Rightarrow> address option \<times> nat \<times> nat \<times> nat" where
  "get_dead_mans_switch e s =
     (let backup = iBackupAdmin s;
          timeout = unwrap_or 0 (iDmsTimeout s);
          lst = unwrap_or 0 (iLastHeartbeat s);
          elapsed = (if backup \<noteq> None then u64_saturating_sub (now e) lst else 0)
      in (backup, timeout, lst, elapsed))"

definition is_dead_mans_switch_expired :: "'w renv \<Rightarrow> 'w ledger \<Rightarrow> bool" where
  "is_dead_mans_switch_expired e s =
     (let backup_set = (iBackupAdmin s \<noteq> None) in
      if \<not> backup_set then False
      else unwrap_or 0 (iDmsTimeout s) \<le> u64_saturating_sub (now e) (unwrap_or 0 (iLastHeartbeat s)))"

definition set_heartbeat_operator :: "'w renv \<Rightarrow> address \<Rightarrow> 'w ledger \<Rightarrow> ('w, unit) res" where
  "set_heartbeat_operator e operator s =
     bnd (admin_auth e s) (\<lambda>admin.
     Ok ((), emit ''hb_operator_set'' [AddrArg admin, AddrArg operator]
       (s\<lparr>iHeartbeatOperator := Some operator\<rparr>)))"

definition remove_heartbeat_operator :: "'w renv \<Rightarrow> 'w ledger \<Rightarrow> ('w, unit) res" where
  "remove_heartbeat_operator e s =
     bnd (admin_auth e s) (\<lambda>admin.
     Ok ((), emit ''hb_operator_rm'' [AddrArg admin, NatArg (now e)]
       (s\<lparr>iHeartbeatOperator := None\<rparr>)))"

definition renew_heartbeat :: "'w renv \<Rightarrow> address \<Rightarrow> 'w ledger \<Rightarrow> ('w, unit) res" where
  "renew_heartbeat e operator s =
     bnd (ok_or Unauthorized (iHeartbeatOperator s)) (\<lambda>stored_operator.
     if operator \<noteq> stored_operator then Err Unauthorized
     else bnd (require_auth e operator) (\<lambda>_.
     if iLastHeartbeat s = None then Err InvalidDmsConfig
     else Ok ((), emit ''heartbeat_renewed'' [AddrArg operator, NatArg (now e)]
       (s\<lparr>iLastHeartbeat := Some (now e)\<rparr>))))"

section \<open>Initialisation and handover\<close>

lemma set_role_other_fields [simp]:
  "iPlatformTreasury (set_role_internal r a s) = iPlatformTreasury s"
  "iFeeBps (set_role_internal r a s) = iFeeBps s" "iFeeCap (set_role_internal r a s) = iFeeCap s"
  "iMaxAmount (set_role_internal r a s) = iMaxAmount s" "iFrozen (set_role_internal r a s) = iFrozen s"
  "iMaxSlippageBps (set_role_internal r a s) = iMaxSlippageBps s"
  "iTimelockNonce (set_role_internal r a s) = iTimelockNonce s"
  "iAdmin (set_role_internal r a s) = iAdmin s"
  "world (set_role_internal r a s) = world s"
  "get_pause_level (set_role_internal r a s) = get_pause_level s"
  by (simp_all add: set_role_internal_def get_pause_level_def Let_def split: option.splits)

text \<open>Initialisation happens once: it goes through exactly on a contract without an admin and
  with the admin's authorisation, stores the fee, treasury and amount settings it is given, leaves
  the contract running, and puts every role in the admin's hands; from then on it is refused.\<close>

theorem initialize_once:
  assumes "roles_ok s" "iPauseLevel s = None" "\<forall>r. iRole s r = None"
  shows "((\<exists>s'. initialize e admin tr bps cap mx s = Ok ((), s')) \<longleftrightarrow> iAdmin s = None \<and> auth e admin)
    \<and> (\<forall>s'. initialize e admin tr bps cap mx s = Ok ((), s') \<longrightarrow>
          iAdmin s' = Some admin \<and> (\<forall>r. role_holder s' r = Some admin) \<and> roles_ok s'
        \<and> load_fee_config s' = Ok (tr, bps, cap) \<and> iMaxAmount s' = Some mx
        \<and> get_pause_level s' = NoPause \<and> \<not> is_frozen_internal s'
        \<and> (\<forall>e' a' tr' bps' cap' mx'. initialize e' a' tr' bps' cap' mx' s' = Err AlreadyInitialized))"
proof -
  define s1 where "s1 = s\<lparr>iAdmin := Some admin, iPlatformTreasury := Some tr,
     iFeeBps := Some bps, iFeeCap := Some cap, iMaxAmount := Some mx,
     iPaused := Some False, iFrozen := Some False,
     iMaxSlippageBps := Some DEFAULT_MAX_SLIPPAGE_BPS, iTimelockNonce := Some 0\<rparr>"
  define s6 where "s6 = set_role_internal Pauser admin (set_role_internal FeeManager admin
     (set_role_internal ComplianceOfficer admin (set_role_internal TreasuryManager admin
     (set_role_internal SuperAdmin admin s1))))"
  have run: "initialize e admin tr bps cap mx s =
      (if iAdmin s \<noteq> None then Err AlreadyInitialized
       else bnd (require_auth e admin) (\<lambda>_. Ok ((), s6)))"
    by (simp add: initialize_def Let_def s1_def s6_def)
  have holder: "role_holder s6 r = Some admin" for r
    using assms(3) by (simp add: s6_def) (simp add: s1_def role_holder_def)
  have "roles_ok s1" using assms(1) by (simp add: s1_def roles_ok_def)
  then have roles: "roles_ok s6" by (simp add: s6_def set_role_roles_ok)
  have fields: "iAdmin s6 = Some admin" "load_fee_config s6 = Ok (tr, bps, cap)"
    "iMaxAmount s6 = Some mx" "get_pause_level s6 = NoPause" "\<not> is_frozen_internal s6"
    using assms(2) by (simp_all add: s6_def load_fee_config_def is_frozen_internal_def)
      (simp_all add: s1_def get_pause_level_def)
  have again: "initialize e' a' tr' bps' cap' mx' s6 = Err AlreadyInitialized"
    for e' :: "'a renv" and a' tr' bps' cap' mx'
    using fields(1) by (simp add: initialize_def)
  show ?thesis using holder roles fields again by (auto simp: run outcome_simps split: if_splits)
qed

theorem initialize_once_witness:
  "\<exists>s'. initialize (sample_env 0) 1 2 100 500 MAX_AMOUNT (fresh_ledger sample_world) = Ok ((), s')
     \<and> role_holder s' Pauser = Some 1"
proof -
  let ?s = "fresh_ledger sample_world"
  have ok: "roles_ok ?s" "iPauseLevel ?s = None" "\<forall>r. iRole ?s r = None"
    by (simp_all add: roles_ok_def fresh_ledger_def)
  note once = initialize_once [OF ok, of "sample_env 0" 1 2 100 500 MAX_AMOUNT]
  have "iAdmin ?s = None" by (simp add: fresh_ledger_def)
  with once obtain s' where s': "initialize (sample_env 0) 1 2 100 500 MAX_AMOUNT ?s = Ok ((), s')"
    by auto
  with once have "role_holder s' Pauser = Some 1" by blast
  with s' show ?thesis by blast
qed

lemma role_holder_admin_update:
  "role_holder (s\<lparr>iAdmin := x\<rparr>) r = (case iRole s r of Some a \<Rightarrow> Some a | None \<Rightarrow> x)"
  by (simp add: role_holder_def split: option.splits)

lemma roles_ok_admin [simp]: "roles_ok (s\<lparr>iAdmin := x\<rparr>) = roles_ok s"
  by (simp add: roles_ok_def)

text \<open>Handing over the contract (\<open>transfer_admin\<close>, or \<open>set_admin\<close> on an initialised contract)
  takes the current SuperAdmin's authorisation and makes the new address both admin and the one
  SuperAdmin, with every other designated role left with its holder.\<close>

theorem admin_handover:
  assumes "roles_ok s" "iAdmin s = Some old"
    and "transfer_admin e new_admin s = Ok ((), s') \<or> set_admin e new_admin s = Ok ((), s')"
  shows "(\<exists>a. role_holder s SuperAdmin = Some a \<and> auth e a) \<and> roles_ok s'
    \<and> iAdmin s' = Some new_admin \<and> role_holder s' SuperAdmin = Some new_admin
    \<and> (\<forall>r. r \<noteq> SuperAdmin \<longrightarrow> iRole s' r = iRole s r)"
  using assms
  by (auto simp: transfer_admin_def set_admin_def outcome_simps Let_def set_role_roles_ok
      remove_role_roles_ok set_role_fields remove_role_fields)

theorem admin_handover_witness:
  "\<exists>s'. transfer_admin (sample_env 0) 6 sample_ledger = Ok ((), s') \<and> iAdmin s' = Some 6"
proof -
  obtain s' where run: "transfer_admin (sample_env 0) 6 sample_ledger = Ok ((), s')"
    by (simp add: transfer_admin_def require_role_def require_auth_def)
  from admin_handover [OF sample_roles_ok _ disjI1 [OF run]] run show ?thesis by simp
qed

section \<open>The switch\<close>

text \<open>The abstract switch: disarmed, or armed for a backup that may claim from a deadline on.\<close>

datatype switch = Disarmed | Armed address nat

definition switch_of :: "'w ledger \<Rightarrow> switch" where
  "switch_of s = (case iBackupAdmin s of
      None \<Rightarrow> Disarmed
    | Some b \<Rightarrow> Armed b (u64_saturating_add (unwrap_or 0 (iLastHeartbeat s)) (unwrap_or 0 (iDmsTimeout s))))"

definition dms_ok :: "'w ledger \<Rightarrow> bool" where
  "dms_ok s \<longleftrightarrow> (iBackupAdmin s \<noteq> None \<longleftrightarrow> iLastHeartbeat s \<noteq> None) \<and>
     (iBackupAdmin s \<noteq> None \<longrightarrow> (\<exists>t. iDmsTimeout s = Some t \<and> MIN_DMS_TIMEOUT \<le> t))"

lemma dms_ok_cong:
  "iBackupAdmin s' = iBackupAdmin s \<Longrightarrow> iLastHeartbeat s' = iLastHeartbeat s \<Longrightarrow>
   iDmsTimeout s' = iDmsTimeout s \<Longrightarrow> dms_ok s' = dms_ok s"
  by (simp add: dms_ok_def)

lemma dms_ok_bump: "dms_ok s \<Longrightarrow> dms_ok (bump_heartbeat e s)"
  by (auto simp: dms_ok_def bump_heartbeat_def)

lemma claim_admin_eq:
  assumes "dms_ok s"
  shows "claim_admin e c s = Ok ((), s') \<longleftrightarrow>
     auth e c \<and> (\<exists>d. switch_of s = Armed c d \<and> d \<le> now e)
   \<and> s' = emit ''admin_claimed'' [AddrArg c, NatArg (now e)]
       (s\<lparr>iAdmin := Some c, iBackupAdmin := None, iLastHeartbeat := None, iDmsTimeout := None\<rparr>)"
  using assms by (auto simp: claim_admin_def outcome_simps switch_of_def dms_ok_def
      split: option.splits if_splits)

lemma heartbeat_switch:
  "ping e s = Ok ((), s') \<Longrightarrow> switch_of s = Armed b d \<Longrightarrow>
     switch_of s' = Armed b (u64_saturating_add (now e) (unwrap_or 0 (iDmsTimeout s)))"
  "renew_heartbeat e a s = Ok ((), s') \<Longrightarrow> switch_of s = Armed b d \<Longrightarrow>
     switch_of s' = Armed b (u64_saturating_add (now e) (unwrap_or 0 (iDmsTimeout s)))"
  "switch_of s = Armed b d \<Longrightarrow>
     switch_of (bump_heartbeat e s) = Armed b (u64_saturating_add (now e) (unwrap_or 0 (iDmsTimeout s)))"
  by (auto simp: ping_def renew_heartbeat_def bump_heartbeat_def outcome_simps switch_of_def
      split: option.splits if_splits)

lemma dms_steps_ok:
  "dms_ok s \<Longrightarrow> ping e s = Ok ((), s') \<Longrightarrow> dms_ok s'"
  "dms_ok s \<Longrightarrow> renew_heartbeat e a s = Ok ((), s') \<Longrightarrow> dms_ok s'"
  "dms_ok s \<Longrightarrow> claim_admin e a s = Ok ((), s') \<Longrightarrow> dms_ok s'"
  "dms_ok s \<Longrightarrow> remove_backup_admin e s = Ok ((), s') \<Longrightarrow> dms_ok s'"
  "apply_set_backup_admin e b t s = Ok s' \<Longrightarrow> dms_ok s'"
  by (auto simp: ping_def renew_heartbeat_def claim_admin_def remove_backup_admin_def
      apply_set_backup_admin_def outcome_simps dms_ok_def bump_heartbeat_def split: if_splits)


definition sample_armed_ledger :: "sworld ledger" where
  "sample_armed_ledger = sample_ledger\<lparr>iBackupAdmin := Some 4, iDmsTimeout := Some 700000,
     iLastHeartbeat := Some 1000\<rparr>"

lemma sample_armed: "dms_ok sample_armed_ledger" "switch_of sample_armed_ledger = Armed 4 701000"
  "roles_ok sample_armed_ledger" "iAdmin sample_armed_ledger = Some 1"
  "role_holder sample_armed_ledger SuperAdmin = Some 1"
  using sample_roles_ok
  by (simp_all add: sample_armed_ledger_def dms_ok_def switch_of_def arith_defs const_defs
      roles_ok_def role_holder_def)


text \<open>A claim moves the admin key and nothing else: every designated role, SuperAdmin among
  them, stays with its old holder, who can at once take the contract back with
  \<open>transfer_admin\<close>, while the new admin cannot grant a role.\<close>

theorem claim_keeps_old_super_admin:
  assumes "roles_ok s" "dms_ok s" "iRole s SuperAdmin = Some old" "claim_admin e c s = Ok ((), s')"
  shows "iAdmin s' = Some c \<and> iRole s' = iRole s \<and> role_holder s' SuperAdmin = Some old
    \<and> (\<forall>e'. auth e' old \<longrightarrow> (\<exists>s''. transfer_admin e' old s' = Ok ((), s'') \<and> iAdmin s'' = Some old))
    \<and> (\<forall>e' g r. c \<noteq> old \<longrightarrow> grant_role e' c g r s' = Err RoleNotFound)"
proof -
  have s': "s' = emit ''admin_claimed'' [AddrArg c, NatArg (now e)]
       (s\<lparr>iAdmin := Some c, iBackupAdmin := None, iLastHeartbeat := None, iDmsTimeout := None\<rparr>)"
    using assms(4) unfolding claim_admin_eq [OF assms(2)] by blast
  have r: "roles_ok s'" "iAdmin s' = Some c" "iRole s' = iRole s" "role_holder s' SuperAdmin = Some old"
    using assms(1,3) by (simp_all add: s' roles_ok_def role_holder_def)
  have "grant_role e' c g k s' = Err RoleNotFound" if "c \<noteq> old" for e' :: "'a renv" and g k
    using r that by (simp add: grant_role_def require_role_of_def has_role_holder)
  moreover have "\<exists>s''. transfer_admin e' old s' = Ok ((), s'') \<and> iAdmin s'' = Some old"
    if "auth e' old" for e' :: "'a renv"
  proof -
    have "require_role e' SuperAdmin s' = Ok old" using r that by (simp add: require_role_eq)
    then show ?thesis by (simp add: transfer_admin_def Let_def)
  qed
  ultimately show ?thesis using r by blast
qed

theorem claim_keeps_old_super_admin_witness:
  "\<exists>s'. claim_admin (sample_env 800000) 4 sample_armed_ledger = Ok ((), s')
     \<and> role_holder s' SuperAdmin = Some 1"
proof -
  obtain s' where run: "claim_admin (sample_env 800000) 4 sample_armed_ledger = Ok ((), s')"
    using sample_armed(2) by (auto simp: claim_admin_eq [OF sample_armed(1)])
  have "iRole sample_armed_ledger SuperAdmin = Some 1" by (simp add: sample_armed_ledger_def)
  from claim_keeps_old_super_admin [OF sample_armed(3,1) this run] run show ?thesis by blast
qed

end
