(* ===== verification/Router_Multisig.thy ===== *)
theory Router_Multisig
  imports Router_Access
begin

text \<open>
  The M-of-N upgrade authority: the multi-signature helpers of
  \<open>payment_router/src/access.rs\<close> and the entry points \<open>set_multisig_config\<close>,
  \<open>approve_multisig_config\<close>, \<open>approve_upgrade\<close>, \<open>revoke_upgrade_approval\<close>,
  \<open>cancel_upgrade\<close>, \<open>get_upgrade_approvals\<close> and \<open>upgrade\<close> of \<open>lib.rs\<close>. Approvals of a
  code hash and approvals of a new signer group are two instances of the contract
  \<open>approval_book\<close>.
\<close>

section \<open>Signer groups\<close>

definition load_multisig_config :: "'w ledger \<Rightarrow> (error, address list \<times> nat) outcome" where
  "load_multisig_config s =
     bnd (ok_or MultisigNotInitialized (xMultisigThreshold s)) (\<lambda>threshold.
     bnd (ok_or MultisigNotInitialized (iMultisigSigners s)) (\<lambda>signers.
     Ok (signers, threshold)))"

definition has_duplicate :: "address list \<Rightarrow> bool" where
  "has_duplicate signers =
     list_ex (\<lambda>i. list_ex (\<lambda>j. signers ! i = signers ! j) [i + 1..<length signers])
       [0..<length signers]"

definition validate_multisig_config :: "address list \<Rightarrow> nat \<Rightarrow> (error, nat) outcome" where
  "validate_multisig_config signers threshold =
     (let min_threshold = (if 2 \<le> length signers then 2 else 1) in
      if signers = [] \<or> threshold < min_threshold \<or> length signers < threshold
      then Err InvalidThreshold
      else if has_duplicate signers then Err DuplicateSigner
      else Ok threshold)"

datatype ordering = Less | Equal | Greater

text \<open>Byte by byte over the common prefix, then by length.\<close>

fun compare_bytes :: "bytes \<Rightarrow> bytes \<Rightarrow> ordering" where
  "compare_bytes (l # left) (r # right) =
     (if l = r then compare_bytes left right else if l < r then Less else Greater)"
| "compare_bytes [] [] = Equal"
| "compare_bytes [] (r # right) = Less"
| "compare_bytes (l # left) [] = Greater"

text \<open>One round of the outer loop: insert before the first element the signer is below.\<close>

fun insert_signer :: "(address \<Rightarrow> bytes) \<Rightarrow> address \<Rightarrow> address list \<Rightarrow> address list" where
  "insert_signer to_xdr signer [] = [signer]"
| "insert_signer to_xdr signer (existing # rest) =
     (if compare_bytes (to_xdr signer) (to_xdr existing) = Less then signer # existing # rest
      else existing # insert_signer to_xdr signer rest)"

definition sorted_multisig_signers :: "'w renv \<Rightarrow> address list \<Rightarrow> address list" where
  "sorted_multisig_signers e signers = foldl (\<lambda>acc x. insert_signer (xdr_address e) x acc) [] signers"

definition multisig_config_hash :: "'w renv \<Rightarrow> address list \<Rightarrow> nat \<Rightarrow> bytes" where
  "multisig_config_hash e signers threshold = sha256 e (xdr_multisig e signers threshold)"

lemma has_duplicate_iff [simp]: "has_duplicate xs = (\<not> distinct xs)"
proof
  assume "has_duplicate xs"
  then obtain i j where ij: "Suc i \<le> j" "j < length xs" "xs ! i = xs ! j"
    by (auto simp add: has_duplicate_def list_ex_iff)
  then have "i < length xs" "i \<noteq> j" by simp_all
  with ij show "\<not> distinct xs" unfolding distinct_conv_nth by blast
next
  assume "\<not> distinct xs"
  then obtain i j where ij: "i < length xs" "j < length xs" "i \<noteq> j" "xs ! i = xs ! j"
    unfolding distinct_conv_nth by blast
  define a b where "a = min i j" and "b = max i j"
  have ab: "a < b" "b < length xs" "xs ! a = xs ! b"
    using ij by (auto simp: a_def b_def min_def max_def)
  have "list_ex (\<lambda>j. xs ! a = xs ! j) [a + 1..<length xs]"
    using ab by (auto simp add: list_ex_iff intro!: bexI [of _ b])
  then show "has_duplicate xs"
    using ab unfolding has_duplicate_def by (subst list_ex_iff) (auto intro!: bexI [of _ a])
qed

lemma validate_multisig_config_eq [outcome_simps]:
  "(validate_multisig_config xs n = Ok m) =
     (m = n \<and> distinct xs \<and> 1 \<le> n \<and> n \<le> length xs \<and> (2 \<le> length xs \<longrightarrow> 2 \<le> n))"
  by (auto simp: validate_multisig_config_def Let_def)

lemma load_multisig_config_eq [outcome_simps]:
  "(load_multisig_config s = Ok (xs, n)) = (iMultisigSigners s = Some xs \<and> xMultisigThreshold s = Some n)"
  by (auto simp: load_multisig_config_def outcome_simps)

text \<open>\<open>compare_bytes\<close> is a linear order.\<close>

lemma compare_refl [simp]: "compare_bytes x x = Equal"
  by (induction x) simp_all

lemma compare_Equal [simp]: "(compare_bytes x y = Equal) = (x = y)"
  by (induction x y rule: compare_bytes.induct) auto

lemma compare_flip: "(compare_bytes x y = Greater) = (compare_bytes y x = Less)"
  by (induction x y rule: compare_bytes.induct) auto

lemma compare_trans: "compare_bytes x y = Less \<Longrightarrow> compare_bytes y z = Less \<Longrightarrow> compare_bytes x z = Less"
proof (induction x y arbitrary: z rule: compare_bytes.induct)
  case (1 l left r right)
  then show ?case by (cases z) (auto split: if_splits)
next
  case (3 r right)
  then show ?case by (cases z) auto
qed auto

definition bytes_below :: "bytes \<Rightarrow> bytes \<Rightarrow> bool" where
  "bytes_below x y \<longleftrightarrow> compare_bytes x y \<noteq> Greater"

lemma bytes_below_trans: "bytes_below x y \<Longrightarrow> bytes_below y z \<Longrightarrow> bytes_below x z"
  unfolding bytes_below_def by (metis compare_Equal compare_flip compare_trans ordering.exhaust)

lemma bytes_below_antisym: "bytes_below x y \<Longrightarrow> bytes_below y x \<Longrightarrow> x = y"
  unfolding bytes_below_def by (metis compare_Equal compare_flip ordering.exhaust)

lemma not_below: "compare_bytes x y = Less \<Longrightarrow> bytes_below x y"
  "compare_bytes x y \<noteq> Less \<Longrightarrow> bytes_below y x"
  unfolding bytes_below_def by (auto simp: compare_flip)

abbreviation signers_sorted :: "(address \<Rightarrow> bytes) \<Rightarrow> address list \<Rightarrow> bool" where
  "signers_sorted to_xdr \<equiv> sorted_wrt (\<lambda>a b. bytes_below (to_xdr a) (to_xdr b))"

lemma mset_insert_signer [simp]: "mset (insert_signer f x xs) = add_mset x (mset xs)"
  by (induction xs) simp_all

lemma set_insert_signer [simp]: "set (insert_signer f x xs) = insert x (set xs)"
  by (induction xs) auto

lemma sorted_insert_signer: "signers_sorted f xs \<Longrightarrow> signers_sorted f (insert_signer f x xs)"
  by (induction xs) (auto dest: not_below intro: bytes_below_trans)

lemma sorted_multisig_snoc:
  "sorted_multisig_signers e (xs @ [x]) = insert_signer (xdr_address e) x (sorted_multisig_signers e xs)"
  by (simp add: sorted_multisig_signers_def)

lemma mset_sorted_multisig [simp]: "mset (sorted_multisig_signers e xs) = mset xs"
  by (induction xs rule: rev_induct) (simp_all add: sorted_multisig_snoc, simp add: sorted_multisig_signers_def)

lemma set_sorted_multisig [simp]: "set (sorted_multisig_signers e xs) = set xs"
  by (metis mset_sorted_multisig set_mset_mset)

lemma length_sorted_multisig [simp]: "length (sorted_multisig_signers e xs) = length xs"
  by (metis mset_sorted_multisig size_mset)

lemma distinct_sorted_multisig [simp]: "distinct (sorted_multisig_signers e xs) = distinct xs"
  by (metis mset_sorted_multisig mset_eq_imp_distinct_iff)

lemma sorted_multisig_sorted: "signers_sorted (xdr_address e) (sorted_multisig_signers e xs)"
  by (induction xs rule: rev_induct)
    (simp_all add: sorted_multisig_snoc sorted_insert_signer, simp add: sorted_multisig_signers_def)

lemma signers_sorted_unique:
  assumes "inj_on f (set xs)" "signers_sorted f xs" "signers_sorted f ys" "mset xs = mset ys"
  shows "xs = ys"
  using assms
proof (induction xs arbitrary: ys)
  case Nil
  then show ?case by simp
next
  case (Cons x xs)
  then obtain y ys' where ys: "ys = y # ys'" by (cases ys) auto
  have sets: "set ys = set (x # xs)" using Cons.prems(4) by (metis set_mset_mset)
  have "bytes_below (f x) (f y)" "bytes_below (f y) (f x)"
    using Cons.prems(2,3) sets ys by (auto simp: bytes_below_def)
  then have "f x = f y" by (rule bytes_below_antisym)
  with Cons.prems(1) sets ys have "x = y" by (metis inj_onD list.set_intros(1))
  with Cons.IH [of ys'] Cons.prems ys show ?case by auto
qed

lemma sorted_multisig_order_free:
  "inj (xdr_address e) \<Longrightarrow> mset xs = mset ys \<Longrightarrow> sorted_multisig_signers e xs = sorted_multisig_signers e ys"
  by (rule signers_sorted_unique [of "xdr_address e"])
    (auto simp: sorted_multisig_sorted intro: inj_on_subset)

section \<open>Approvals\<close>

definition approve_multisig_config ::
    "'w renv \<Rightarrow> address list \<Rightarrow> nat \<Rightarrow> address \<Rightarrow> 'w ledger \<Rightarrow> ('w, nat) res" where
  "approve_multisig_config e signers threshold signer s =
     bnd (validate_multisig_config signers threshold) (\<lambda>_.
     bnd (load_multisig_config s) (\<lambda>(current_signers, _).
     if signer \<notin> set current_signers then Err NotMultisigSigner
     else bnd (require_auth e signer) (\<lambda>_.
     let sorted_signers = sorted_multisig_signers e signers;
         key = multisig_config_hash e sorted_signers threshold;
         approvals = unwrap_or [] (pMultisigConfigApproval s key) in
     if signer \<in> set approvals then Err AlreadyApproved
     else
       let approvals' = approvals @ [signer] in
       Ok (length approvals',
         s\<lparr>pMultisigConfigApproval := (pMultisigConfigApproval s)(key \<mapsto> approvals')\<rparr>))))"

definition load_upgrade_approvals :: "'w ledger \<Rightarrow> bytes \<Rightarrow> address list" where
  "load_upgrade_approvals s new_wasm_hash = unwrap_or [] (pUpgradeApproval s new_wasm_hash)"

definition load_effective_approvals :: "'w ledger \<Rightarrow> address list \<Rightarrow> bytes \<Rightarrow> address list" where
  "load_effective_approvals s signers new_wasm_hash =
     filter (\<lambda>approver. approver \<in> set signers) (load_upgrade_approvals s new_wasm_hash)"

definition check_upgrade_authorized :: "'w ledger \<Rightarrow> bytes \<Rightarrow> (error, bool) outcome" where
  "check_upgrade_authorized s new_wasm_hash =
     bnd (load_multisig_config s) (\<lambda>(signers, threshold).
     Ok (threshold \<le> length (load_effective_approvals s signers new_wasm_hash)))"

definition require_upgrade_authorized :: "'w ledger \<Rightarrow> bytes \<Rightarrow> (error, nat) outcome" where
  "require_upgrade_authorized s new_wasm_hash =
     bnd (load_multisig_config s) (\<lambda>(signers, threshold).
     let approvals = load_effective_approvals s signers new_wasm_hash in
     if length approvals < threshold then Err InsufficientApprovals else Ok (length approvals))"

text \<open>\<open>update_current_contract_wasm\<close> traps for a hash that names no uploaded code.\<close>

definition apply_upgrade :: "'w renv \<Rightarrow> bytes \<Rightarrow> 'w ledger \<Rightarrow> (error, 'w ledger) outcome" where
  "apply_upgrade e new_wasm_hash s =
     (if wasm_uploaded e new_wasm_hash
      then Ok (s\<lparr>wasm_hash := Some new_wasm_hash,
                 pUpgradeApproval := (pUpgradeApproval s)(new_wasm_hash := None)\<rparr>)
      else Trap)"

definition store_multisig_config ::
    "'w renv \<Rightarrow> address list \<Rightarrow> nat \<Rightarrow> 'w ledger \<Rightarrow> (error, 'w ledger) outcome" where
  "store_multisig_config e signers threshold s =
     bnd (validate_multisig_config signers threshold) (\<lambda>_.
     let has_signers = (iMultisigSigners s \<noteq> None);
         has_threshold = (iMultisigThreshold s \<noteq> None) in
     bnd (if has_signers \<or> has_threshold
          then bnd (load_multisig_config s) (\<lambda>(current_signers, current_threshold).
            let sorted_signers = sorted_multisig_signers e signers;
                key = multisig_config_hash e sorted_signers threshold;
                stored = unwrap_or [] (pMultisigConfigApproval s key);
                approvals = length (filter (\<lambda>approver. approver \<in> set current_signers) stored) in
            if approvals < current_threshold then Err InsufficientApprovals
            else Ok (s\<lparr>pMultisigConfigApproval := (pMultisigConfigApproval s)(key := None)\<rparr>))
          else Ok s) (\<lambda>s1.
     Ok (s1\<lparr>iMultisigSigners := Some (sorted_multisig_signers e signers),
            xMultisigThreshold := Some threshold\<rparr>)))"

definition set_multisig_config ::
    "'w renv \<Rightarrow> address list \<Rightarrow> nat \<Rightarrow> 'w ledger \<Rightarrow> ('w, unit) res" where
  "set_multisig_config e signers threshold s =
     bnd (admin_auth e s) (\<lambda>admin.
     bnd (validate_multisig_config signers threshold) (\<lambda>validated.
     bnd (store_multisig_config e signers validated s) (\<lambda>s1.
     Ok ((), emit ''multisig_config_set'' [AddrArg admin, NatArg validated] s1))))"

definition approve_upgrade :: "'w renv \<Rightarrow> address \<Rightarrow> bytes \<Rightarrow> 'w ledger \<Rightarrow> ('w, unit) res" where
  "approve_upgrade e signer new_wasm_hash s =
     bnd (load_multisig_config s) (\<lambda>(signers, threshold).
     if signer \<notin> set signers then Err NotMultisigSigner
     else bnd (require_auth e signer) (\<lambda>_.
     let approvals = unwrap_or [] (pUpgradeApproval s new_wasm_hash) in
     if signer \<in> set approvals then Err AlreadyApproved
     else
       let approvals' = approvals @ [signer] in
       Ok ((), emit ''upgrade_approved''
           [AddrArg signer, BytesArg new_wasm_hash, NatArg (length approvals'), NatArg threshold]
         (s\<lparr>pUpgradeApproval := (pUpgradeApproval s)(new_wasm_hash \<mapsto> approvals')\<rparr>))))"

definition revoke_upgrade_approval :: "'w renv \<Rightarrow> address \<Rightarrow> bytes \<Rightarrow> 'w ledger \<Rightarrow> ('w, unit) res" where
  "revoke_upgrade_approval e signer new_wasm_hash s =
     bnd (load_multisig_config s) (\<lambda>(signers, _).
     if signer \<notin> set signers then Err NotMultisigSigner
     else bnd (require_auth e signer) (\<lambda>_.
     let approvals = unwrap_or [] (pUpgradeApproval s new_wasm_hash) in
     if signer \<in> set approvals then
       let approvals' = remove1 signer approvals;
           s1 = s\<lparr>pUpgradeApproval := (pUpgradeApproval s)
                   (new_wasm_hash := (if approvals' = [] then None else Some approvals'))\<rparr> in
       Ok ((), emit ''upgrade_revoked''
           [AddrArg signer, BytesArg new_wasm_hash, NatArg (length approvals')] s1)
     else Ok ((), s)))"

definition cancel_upgrade :: "'w renv \<Rightarrow> bytes \<Rightarrow> 'w ledger \<Rightarrow> ('w, unit) res" where
  "cancel_upgrade e new_wasm_hash s =
     bnd (admin_auth e s) (\<lambda>admin.
     let s1 = (if pUpgradeApproval s new_wasm_hash \<noteq> None
               then s\<lparr>pUpgradeApproval := (pUpgradeApproval s)(new_wasm_hash := None)\<rparr> else s) in
     Ok ((), emit ''upgrade_cancelled'' [AddrArg admin, BytesArg new_wasm_hash] s1))"

definition get_upgrade_approvals :: "'w ledger \<Rightarrow> bytes \<Rightarrow> address list" where
  "get_upgrade_approvals s new_wasm_hash =
     (case load_multisig_config s of
        Ok (signers, _) \<Rightarrow> load_effective_approvals s signers new_wasm_hash
      | Err _ \<Rightarrow> []
      | Trap \<Rightarrow> [])"

definition upgrade :: "'w renv \<Rightarrow> bytes \<Rightarrow> 'w ledger \<Rightarrow> ('w, unit) res" where
  "upgrade e new_wasm_hash s =
     bnd (require_upgrade_authorized s new_wasm_hash) (\<lambda>approvals.
     bnd (apply_upgrade e new_wasm_hash s) (\<lambda>s1.
     Ok ((), emit ''contract_upgraded'' [BytesArg new_wasm_hash, NatArg approvals] s1)))"

lemma require_upgrade_authorized_eq [outcome_simps]:
  "(require_upgrade_authorized s h = Ok n) =
     (\<exists>signers threshold. iMultisigSigners s = Some signers \<and> xMultisigThreshold s = Some threshold
        \<and> n = length (load_effective_approvals s signers h) \<and> threshold \<le> n)"
  by (auto simp: require_upgrade_authorized_def outcome_simps Let_def split: if_splits)

section \<open>Approval books\<close>

text \<open>
  A book of approvals per key: a current signer who authorises the call adds itself once to
  the entry of the request's key. What both upgrade approvals and group approvals promise.
\<close>

locale approval_book =
  fixes members :: "'s \<Rightarrow> address list option"
    and book :: "'s \<Rightarrow> bytes \<Rightarrow> address list"
    and key_of :: "'r \<Rightarrow> bytes"
    and authorised :: "address \<Rightarrow> bool"
    and approve :: "address \<Rightarrow> 'r \<Rightarrow> 's \<Rightarrow> (error, 'a \<times> 's) outcome"
  assumes approve_adds: "approve a r s = Ok (x, s') \<Longrightarrow>
      members s' = members s \<and> book s' = (book s)(key_of r := book s (key_of r) @ [a])"
    and approve_needs: "approve a r s = Ok (x, s') \<Longrightarrow>
      authorised a \<and> a \<notin> set (book s (key_of r)) \<and> (\<exists>ms. members s = Some ms \<and> a \<in> set ms)"
begin

lemma approve_distinct:
  "approve a r s = Ok (x, s') \<Longrightarrow> (\<forall>k. distinct (book s k)) \<Longrightarrow> distinct (book s' k)"
  using approve_adds [of a r s x s'] approve_needs [of a r s x s'] by auto

lemma approve_set:
  "approve a r s = Ok (x, s') \<Longrightarrow>
   set (book s' k) = (if k = key_of r then insert a (set (book s k)) else set (book s k))"
  using approve_adds [of a r s x s'] by auto

lemma approve_monotone: "approve a r s = Ok (x, s') \<Longrightarrow> set (book s k) \<subseteq> set (book s' k)"
  by (auto simp: approve_set)

lemma approve_not_twice:
  "approve a r s = Ok (x, s') \<Longrightarrow> key_of r' = key_of r \<Longrightarrow> approve a r' s' \<noteq> Ok y"
  using approve_needs [of a r' s' "fst y" "snd y"] approve_set [of a r s x s' "key_of r"] by auto

end

interpretation upgrade_book: approval_book iMultisigSigners load_upgrade_approvals "\<lambda>h. h"
  "auth e" "approve_upgrade e" for e :: "'w renv"
  by unfold_locales
    (auto simp: approve_upgrade_def outcome_simps Let_def load_upgrade_approvals_def fun_eq_iff
      split: if_splits)

definition config_approvals :: "'w ledger \<Rightarrow> bytes \<Rightarrow> address list" where
  "config_approvals s k = unwrap_or [] (pMultisigConfigApproval s k)"

definition config_key :: "'w renv \<Rightarrow> address list \<times> nat \<Rightarrow> bytes" where
  "config_key e r = multisig_config_hash e (sorted_multisig_signers e (fst r)) (snd r)"

interpretation config_book: approval_book iMultisigSigners config_approvals "config_key e"
  "auth e" "\<lambda>a (signers, threshold) s. approve_multisig_config e signers threshold a s"
  for e :: "'w renv"
  by unfold_locales
    (auto simp: approve_multisig_config_def outcome_simps Let_def config_approvals_def config_key_def
      fun_eq_iff split: if_splits)

text \<open>The well-formedness of the multi-signature state.\<close>

definition multisig_ok :: "'w ledger \<Rightarrow> bool" where
  "multisig_ok s \<longleftrightarrow>
     (\<forall>k. distinct (load_upgrade_approvals s k)) \<and> (\<forall>k. distinct (config_approvals s k)) \<and>
     (\<forall>xs. iMultisigSigners s = Some xs \<longrightarrow> (\<exists>n. xMultisigThreshold s = Some n \<and>
        distinct xs \<and> 1 \<le> n \<and> n \<le> length xs \<and> (2 \<le> length xs \<longrightarrow> 2 \<le> n)))"

lemma multisig_ok_cong:
  "iMultisigSigners s' = iMultisigSigners s \<Longrightarrow> xMultisigThreshold s' = xMultisigThreshold s \<Longrightarrow>
   pUpgradeApproval s' = pUpgradeApproval s \<Longrightarrow> pMultisigConfigApproval s' = pMultisigConfigApproval s \<Longrightarrow>
   multisig_ok s' = multisig_ok s"
  by (simp add: multisig_ok_def load_upgrade_approvals_def config_approvals_def)

lemma multisig_ok_events [simp]: "multisig_ok (s\<lparr>events := ev\<rparr>) = multisig_ok s"
  by (rule multisig_ok_cong) simp_all

lemma multisig_okD:
  assumes "multisig_ok s"
  shows "distinct (load_upgrade_approvals s k)" "distinct (config_approvals s k)"
  using assms by (simp_all add: multisig_ok_def)

lemma approve_upgrade_ok:
  assumes "multisig_ok s" "approve_upgrade e a h s = Ok ((), s')"
  shows "multisig_ok s'"
proof -
  have "distinct (load_upgrade_approvals s' k)" for k
    using upgrade_book.approve_distinct [OF assms(2)] assms(1) by (simp add: multisig_ok_def)
  moreover have "xMultisigThreshold s' = xMultisigThreshold s" "iMultisigSigners s' = iMultisigSigners s"
    "config_approvals s' = config_approvals s"
    using assms(2) by (auto simp: approve_upgrade_def outcome_simps Let_def config_approvals_def
        fun_eq_iff split: if_splits)
  ultimately show ?thesis using assms(1) by (simp add: multisig_ok_def)
qed

lemma approve_multisig_config_ok:
  assumes "multisig_ok s" "approve_multisig_config e xs n a s = Ok (m, s')"
  shows "multisig_ok s'"
proof -
  have "distinct (config_approvals s' k)" for k
    using config_book.approve_distinct [of e a "(xs, n)" s m s'] assms by (simp add: multisig_ok_def)
  moreover have "xMultisigThreshold s' = xMultisigThreshold s" "iMultisigSigners s' = iMultisigSigners s"
    "load_upgrade_approvals s' = load_upgrade_approvals s"
    using assms(2) by (auto simp: approve_multisig_config_def outcome_simps Let_def
        load_upgrade_approvals_def fun_eq_iff split: if_splits)
  ultimately show ?thesis using assms(1) by (simp add: multisig_ok_def)
qed

lemma drop_approvals_ok:
  assumes "multisig_ok s"
  shows "multisig_ok (s\<lparr>pUpgradeApproval := (pUpgradeApproval s)(h := None)\<rparr>)"
    and "multisig_ok (s\<lparr>pMultisigConfigApproval := (pMultisigConfigApproval s)(h := None)\<rparr>)"
    and "multisig_ok (s\<lparr>pUpgradeApproval := (pUpgradeApproval s)
           (h := (if remove1 a (load_upgrade_approvals s h) = [] then None
                  else Some (remove1 a (load_upgrade_approvals s h))))\<rparr>)"
  using assms by (auto simp: multisig_ok_def load_upgrade_approvals_def config_approvals_def)

lemma apply_upgrade_ok: "multisig_ok s \<Longrightarrow> apply_upgrade e h s = Ok s' \<Longrightarrow> multisig_ok s'"
  using drop_approvals_ok(1) [of s h]
  by (auto simp: apply_upgrade_def multisig_ok_def load_upgrade_approvals_def config_approvals_def
      split: if_splits)

lemma upgrade_ok: "multisig_ok s \<Longrightarrow> upgrade e h s = Ok ((), s') \<Longrightarrow> multisig_ok s'"
  by (auto simp: upgrade_def outcome_simps dest: apply_upgrade_ok [rotated])

lemma revoke_upgrade_approval_ok:
  "multisig_ok s \<Longrightarrow> revoke_upgrade_approval e a h s = Ok ((), s') \<Longrightarrow> multisig_ok s'"
  using drop_approvals_ok(3) [of s h a]
  by (auto simp: revoke_upgrade_approval_def outcome_simps Let_def load_upgrade_approvals_def
      split: if_splits)

lemma cancel_upgrade_ok: "multisig_ok s \<Longrightarrow> cancel_upgrade e h s = Ok ((), s') \<Longrightarrow> multisig_ok s'"
  by (auto simp: cancel_upgrade_def outcome_simps Let_def drop_approvals_ok split: if_splits)

lemma store_multisig_config_ok:
  assumes "multisig_ok s" "store_multisig_config e xs n s = Ok s'"
  shows "multisig_ok s'"
  using assms drop_approvals_ok(2) [OF assms(1)]
  by (auto simp: store_multisig_config_def outcome_simps Let_def multisig_ok_def
      load_upgrade_approvals_def config_approvals_def split: if_splits)

lemma set_multisig_config_ok:
  "multisig_ok s \<Longrightarrow> set_multisig_config e xs n s = Ok ((), s') \<Longrightarrow> multisig_ok s'"
  by (auto simp: set_multisig_config_def outcome_simps dest: store_multisig_config_ok [rotated])

lemmas multisig_steps_ok =
  approve_upgrade_ok approve_multisig_config_ok upgrade_ok revoke_upgrade_approval_ok
  cancel_upgrade_ok store_multisig_config_ok set_multisig_config_ok

section \<open>Properties\<close>

text \<open>The signer list a group is stored and hashed under is canonical: it has the same
  signers, is in the lexicographic order of their XDR encodings, and two listings of one group
  give the same list and the same approval key, however the caller orders them.\<close>

theorem signer_order_is_canonical:
  assumes "inj (xdr_address e)"
  shows "mset (sorted_multisig_signers e xs) = mset xs
    \<and> sorted_wrt (\<lambda>a b. compare_bytes (xdr_address e a) (xdr_address e b) \<noteq> Greater)
        (sorted_multisig_signers e xs)
    \<and> (mset ys = mset xs \<longrightarrow> sorted_multisig_signers e ys = sorted_multisig_signers e xs
         \<and> config_key e (ys, n) = config_key e (xs, n))"
  using sorted_multisig_order_free [OF assms, of ys xs] sorted_multisig_sorted [of e xs]
  by (auto simp: config_key_def bytes_below_def)

text \<open>An environment whose address encoding is injective, for the witness: the length of a string.\<close>

definition unary_env :: "nat \<Rightarrow> sworld renv" where
  "unary_env t = (sample_env t)\<lparr>xdr_address := (\<lambda>a. replicate a 0)\<rparr>"

lemma unary_env_inj: "inj (xdr_address (unary_env t))"
  by (auto simp: unary_env_def inj_def dest: arg_cong [of _ _ length])

theorem signer_order_is_canonical_witness:
  "sorted_multisig_signers (unary_env 0) [3, 1, 2] = [1, 2, 3]
   \<and> config_key (unary_env 0) ([2, 3, 1], 2) = config_key (unary_env 0) ([3, 1, 2], 2)"
proof -
  have "sorted_multisig_signers (unary_env 0) [3, 1, 2] = [1, 2, 3]"
    by (simp add: sorted_multisig_signers_def unary_env_def numeral_nat)
  moreover have "mset [2, 3, 1] = mset [3, 1, 2 :: nat]" by simp
  ultimately show ?thesis
    using signer_order_is_canonical [OF unary_env_inj, of 0 "[3, 1, 2]" "[2, 3, 1]" 2] by blast
qed

lemma upgrade_eq:
  "upgrade e h s = Ok ((), s') \<longleftrightarrow>
     (\<exists>n. require_upgrade_authorized s h = Ok n \<and> wasm_uploaded e h
       \<and> s' = emit ''contract_upgraded'' [BytesArg h, NatArg n]
           (s\<lparr>wasm_hash := Some h, pUpgradeApproval := (pUpgradeApproval s)(h := None)\<rparr>))"
  by (auto simp: upgrade_def apply_upgrade_def outcome_simps)

lemma effective_approvals_set:
  "set (load_effective_approvals s xs h) = set (load_upgrade_approvals s h) \<inter> set xs"
  by (auto simp: load_effective_approvals_def)

lemma effective_approvals_card:
  assumes "multisig_ok s"
  shows "length (load_effective_approvals s xs h) = card (set (load_upgrade_approvals s h) \<inter> set xs)"
proof -
  have "distinct (load_effective_approvals s xs h)"
    using multisig_okD(1) [OF assms] by (simp add: load_effective_approvals_def)
  from distinct_card [OF this] show ?thesis by (simp only: effective_approvals_set)
qed

text \<open>C3: An upgrade installs exactly the approved code and goes through if and only if the number
  of distinct current signers that approved that hash reaches the threshold (and the hash names
  uploaded code): approvals of removed signers do not count, no key of the admin can replace
  them, and a success consumes the approvals, so one quorum authorises one installation.\<close>

theorem upgrade_needs_quorum:
  assumes "multisig_ok s" "iMultisigSigners s = Some signers" "xMultisigThreshold s = Some threshold"
  shows "((\<exists>s'. upgrade e h s = Ok ((), s')) \<longleftrightarrow>
            wasm_uploaded e h
          \<and> threshold \<le> card (set (load_upgrade_approvals s h) \<inter> set signers))
    \<and> (\<forall>s'. upgrade e h s = Ok ((), s') \<longrightarrow>
            wasm_hash s' = Some h \<and> multisig_ok s' \<and> load_upgrade_approvals s' h = []
          \<and> upgrade e h s' = Err InsufficientApprovals)"
proof -
  have one: "1 \<le> threshold" using assms by (auto simp: multisig_ok_def)
  have again: "upgrade e h s' = Err InsufficientApprovals"
    if "load_upgrade_approvals s' h = []" "iMultisigSigners s' = Some signers"
      "xMultisigThreshold s' = Some threshold" for s'
    using one that by (simp add: upgrade_def require_upgrade_authorized_def load_multisig_config_def
        load_effective_approvals_def)
  have iff: "(\<exists>s'. upgrade e h s = Ok ((), s')) \<longleftrightarrow>
      wasm_uploaded e h \<and> threshold \<le> card (set (load_upgrade_approvals s h) \<inter> set signers)"
    using assms(2,3) effective_approvals_card [OF assms(1), of signers h]
    by (auto simp: upgrade_eq require_upgrade_authorized_eq)
  have post: "wasm_hash s' = Some h \<and> multisig_ok s' \<and> load_upgrade_approvals s' h = []
      \<and> upgrade e h s' = Err InsufficientApprovals" if "upgrade e h s = Ok ((), s')" for s'
  proof -
    from that obtain n where s': "s' = emit ''contract_upgraded'' [BytesArg h, NatArg n]
        (s\<lparr>wasm_hash := Some h, pUpgradeApproval := (pUpgradeApproval s)(h := None)\<rparr>)"
      by (auto simp only: upgrade_eq)
    have "load_upgrade_approvals s' h = []" by (simp add: s' load_upgrade_approvals_def)
    moreover have "iMultisigSigners s' = Some signers" "xMultisigThreshold s' = Some threshold"
      "wasm_hash s' = Some h"
      using assms(2,3) by (simp_all add: s')
    ultimately show ?thesis using again upgrade_ok [OF assms(1) that] by blast
  qed
  from iff post show ?thesis by blast
qed

definition sample_multisig_ledger :: "sworld ledger" where
  "sample_multisig_ledger = sample_ledger\<lparr>iMultisigSigners := Some [1, 2, 3],
     xMultisigThreshold := Some 2, pUpgradeApproval := [[7] \<mapsto> [2, 3, 44], [8] \<mapsto> [2, 44]]\<rparr>"

lemma sample_multisig_fields [simp]:
  "iMultisigSigners sample_multisig_ledger = Some [1, 2, 3]"
  "xMultisigThreshold sample_multisig_ledger = Some 2"
  "iMultisigThreshold sample_multisig_ledger = None"
  "load_upgrade_approvals sample_multisig_ledger h =
     (if h = [8] then [2, 44] else if h = [7] then [2, 3, 44] else [])"
  "config_approvals sample_multisig_ledger k = []"
  by (simp_all add: sample_multisig_ledger_def load_upgrade_approvals_def config_approvals_def
      sample_ledger_def fresh_ledger_def)

lemma sample_multisig_ok: "multisig_ok sample_multisig_ledger"
  by (simp add: multisig_ok_def)

theorem upgrade_needs_quorum_witness:
  "(\<exists>s'. upgrade (sample_env 0) [7] sample_multisig_ledger = Ok ((), s') \<and> wasm_hash s' = Some [7])
   \<and> \<not> (\<exists>s'. upgrade (sample_env 0) [8] sample_multisig_ledger = Ok ((), s'))"
proof -
  note q = upgrade_needs_quorum [OF sample_multisig_ok sample_multisig_fields(1,2), of "sample_env 0"]
  have "{2, 3, 44} \<inter> {1, 2, 3 :: nat} = {2, 3}" "{2, 44} \<inter> {1, 2, 3 :: nat} = {2}" by auto
  with q [of "[7]"] q [of "[8]"] show ?thesis by auto
qed

text \<open>A run of \<open>approve_upgrade\<close> calls for one code hash.\<close>

fun approve_all :: "'w renv \<Rightarrow> bytes \<Rightarrow> address list \<Rightarrow> 'w ledger \<Rightarrow> ('w, unit) res" where
  "approve_all e h [] s = Ok ((), s)"
| "approve_all e h (a # as) s = bnd (approve_upgrade e a h s) (\<lambda>(_, s1). approve_all e h as s1)"

lemma approve_all_book:
  "approve_all e h as s = Ok ((), s') \<Longrightarrow> multisig_ok s \<Longrightarrow> iMultisigSigners s = Some xs \<Longrightarrow>
   xMultisigThreshold s = Some n \<Longrightarrow>
     multisig_ok s' \<and> load_upgrade_approvals s' h = load_upgrade_approvals s h @ as
   \<and> set as \<subseteq> set xs \<and> (\<forall>a\<in>set as. auth e a)
   \<and> iMultisigSigners s' = Some xs \<and> xMultisigThreshold s' = Some n"
proof (induction as arbitrary: s)
  case Nil
  then show ?case by simp
next
  case (Cons a as)
  then obtain s1 where s1: "approve_upgrade e a h s = Ok ((), s1)" "approve_all e h as s1 = Ok ((), s')"
    by (auto simp: bnd_eq_Ok)
  have thr: "xMultisigThreshold s1 = Some n"
    using s1(1) Cons.prems by (auto simp: approve_upgrade_def outcome_simps Let_def split: if_splits)
  show ?case
    using Cons.IH [OF s1(2) approve_upgrade_ok [OF Cons.prems(2) s1(1)] _ thr]
      upgrade_book.approve_adds [OF s1(1)] upgrade_book.approve_needs [OF s1(1)] Cons.prems
    by auto
qed

text \<open>Collecting a quorum: from an empty book, a run of successful approvals of one hash comes
  from that many different current signers, each of whom authorised its own call, and the
  upgrade then succeeds exactly when their number has reached the threshold.\<close>

theorem quorum_is_distinct_signers:
  assumes "multisig_ok s" "iMultisigSigners s = Some signers" "xMultisigThreshold s = Some threshold"
    and "load_upgrade_approvals s h = []" "approve_all e h as s = Ok ((), s')" "wasm_uploaded e h"
  shows "distinct as \<and> set as \<subseteq> set signers \<and> (\<forall>a\<in>set as. auth e a)
    \<and> ((\<exists>s''. upgrade e h s' = Ok ((), s'')) \<longleftrightarrow> threshold \<le> length as)"
proof -
  note run = approve_all_book [OF assms(5,1,2,3)]
  have d: "distinct as" using run multisig_okD(1) [of s' h] assms(4) by simp
  have "set as \<inter> set signers = set as" using run by auto
  then have "length (load_effective_approvals s' signers h) = length as"
    using run d assms(4) by (simp add: effective_approvals_card distinct_card)
  with run d assms(6) show ?thesis by (auto simp: upgrade_eq require_upgrade_authorized_eq)
qed

theorem quorum_is_distinct_signers_witness:
  "\<exists>s'. approve_all (sample_env 0) [9] [3, 1] sample_multisig_ledger = Ok ((), s')
     \<and> (\<exists>s''. upgrade (sample_env 0) [9] s' = Ok ((), s''))"
proof -
  obtain s' where run: "approve_all (sample_env 0) [9] [3, 1] sample_multisig_ledger = Ok ((), s')"
    by (simp add: approve_upgrade_def load_multisig_config_def require_auth_def Let_def
        sample_multisig_ledger_def sample_ledger_def fresh_ledger_def)
  have e: "load_upgrade_approvals sample_multisig_ledger [9] = []" by simp
  from quorum_is_distinct_signers [OF sample_multisig_ok sample_multisig_fields(1,2) e run] run
  show ?thesis by simp
qed

lemma store_multisig_config_eq:
  assumes "multisig_ok s"
  shows "store_multisig_config e xs n s = Ok s' \<Longrightarrow>
      iMultisigSigners s' = Some (sorted_multisig_signers e xs) \<and> xMultisigThreshold s' = Some n
    \<and> distinct xs \<and> 1 \<le> n \<and> n \<le> length xs \<and> (2 \<le> length xs \<longrightarrow> 2 \<le> n)
    \<and> (\<forall>cur m. iMultisigSigners s = Some cur \<and> xMultisigThreshold s = Some m \<longrightarrow>
         m \<le> card (set (config_approvals s (config_key e (xs, n))) \<inter> set cur)
       \<and> config_approvals s' (config_key e (xs, n)) = [])"
proof -
  have len: "length (filter (\<lambda>a. a \<in> set cur) (config_approvals s k)) =
      card (set (config_approvals s k) \<inter> set cur)" for cur k
    using distinct_card [of "filter (\<lambda>a. a \<in> set cur) (config_approvals s k)"] multisig_okD(2) [OF assms, of k]
    by (simp add: Int_def conj_commute)
  show "store_multisig_config e xs n s = Ok s' \<Longrightarrow> ?thesis"
    by (auto simp: store_multisig_config_def outcome_simps Let_def config_key_def
        len [unfolded config_approvals_def] config_approvals_def split: if_splits)
qed

text \<open>Replacing the signer group: it takes the admin's authorisation and, once a group is in
  place, approvals by at least the current threshold of distinct current signers of exactly the
  proposed group and threshold; the new group is stored in canonical order with a threshold
  between 2 (1 for a group of one) and its size, and the approvals are used up.\<close>

theorem group_change_needs_quorum:
  assumes "multisig_ok s" "set_multisig_config e signers threshold s = Ok ((), s')"
  shows "(\<exists>admin. iAdmin s = Some admin \<and> auth e admin)
    \<and> (\<forall>current m. iMultisigSigners s = Some current \<and> xMultisigThreshold s = Some m \<longrightarrow>
         m \<le> card (set (config_approvals s (config_key e (signers, threshold))) \<inter> set current)
       \<and> config_approvals s' (config_key e (signers, threshold)) = [])
    \<and> iMultisigSigners s' = Some (sorted_multisig_signers e signers)
    \<and> xMultisigThreshold s' = Some threshold
    \<and> min 2 (length signers) \<le> threshold \<and> threshold \<le> length signers \<and> multisig_ok s'"
proof -
  obtain s1 where s1: "store_multisig_config e signers threshold s = Ok s1"
    "s' = s1\<lparr>events := events s'\<rparr>" "\<exists>admin. iAdmin s = Some admin \<and> auth e admin"
    using assms(2) by (auto simp: set_multisig_config_def outcome_simps)
  have frame: "iMultisigSigners s' = iMultisigSigners s1" "xMultisigThreshold s' = xMultisigThreshold s1"
    "config_approvals s' = config_approvals s1"
    by (subst s1(2), simp add: config_approvals_def fun_eq_iff)+
  from store_multisig_config_eq [OF assms(1) s1(1)] s1(3) frame set_multisig_config_ok [OF assms]
  show ?thesis by (auto simp: min_def)
qed

theorem group_change_needs_quorum_witness:
  "\<exists>s'. set_multisig_config (sample_env 0) [5, 4] 2 sample_ledger = Ok ((), s')
     \<and> xMultisigThreshold s' = Some 2"
proof -
  obtain s' where run: "set_multisig_config (sample_env 0) [5, 4] 2 sample_ledger = Ok ((), s')"
    by (simp add: set_multisig_config_def admin_auth_def require_admin_def require_auth_def
        validate_multisig_config_def store_multisig_config_def sample_ledger_def fresh_ledger_def)
  have "multisig_ok sample_ledger"
    by (simp add: multisig_ok_def load_upgrade_approvals_def config_approvals_def sample_ledger_def
        fresh_ledger_def)
  from group_change_needs_quorum [OF this run] run show ?thesis by simp
qed

end
