(* ===== verification/Router_Timelock.thy ===== *)
theory Router_Timelock
  imports Router_Admin Router_Multisig
begin

text \<open>
  The 24-hour timelock: \<open>queue_action\<close>, \<open>execute_action\<close>, \<open>execute_batch_actions\<close> and
  \<open>cancel_action\<close> of \<open>payment_router/src/lib.rs\<close> and \<open>timelock.rs\<close>. The repository has
  two copies of the single execution, the entry point's own (\<open>execute_action_entry\<close>) and the
  module's (\<open>execute_action\<close>); both are instances of the contract \<open>delayed_queue\<close>.
\<close>

section \<open>Operations\<close>

definition validate_queued_action :: "ActionType \<Rightarrow> 'w ledger \<Rightarrow> (error, unit) outcome" where
  "validate_queued_action action s =
     (case action of
        Upgrade new_wasm_hash \<Rightarrow> bnd (require_upgrade_authorized s new_wasm_hash) (\<lambda>_. Ok ())
      | SetMultisigConfig signers threshold \<Rightarrow>
          bnd (validate_multisig_config signers threshold) (\<lambda>_. Ok ())
      | SetPairMaxSlippageBps _ _ bps \<Rightarrow>
          if \<not> (0 \<le> bps \<and> bps \<le> MAX_PAIR_SLIPPAGE_BPS) then Err InvalidSlippageConfig else Ok ()
      | _ \<Rightarrow> Ok ())"

definition next_nonce :: "'w ledger \<Rightarrow> ('w, nat) res" where
  "next_nonce s =
     bnd (u64_add (unwrap_or 0 (iTimelockNonce s)) 1) (\<lambda>nxt.
     Ok (nxt, s\<lparr>iTimelockNonce := Some nxt\<rparr>))"

definition queue_action :: "'w renv \<Rightarrow> ActionType \<Rightarrow> 'w ledger \<Rightarrow> ('w, nat) res" where
  "queue_action e action s =
     (if is_frozen_internal s then Err ContractFrozen
      else bnd (require_circuit_closed s) (\<lambda>_.
      bnd (admin_auth e s) (\<lambda>admin.
      bnd (next_nonce s) (\<lambda>(nonce, s1).
      let entry = \<lparr>queued_at = now e, te_action = action\<rparr> in
      Ok (nonce, emit ''action_queued'' [AddrArg admin, NatArg nonce, NatArg (now e)]
        (s1\<lparr>pTimelockEntry := (pTimelockEntry s1)(nonce \<mapsto> entry)\<rparr>))))))"

definition get_queued_action :: "'w ledger \<Rightarrow> nat \<Rightarrow> (error, TimelockEntry) outcome" where
  "get_queued_action s nonce = ok_or TimelockNotFound (pTimelockEntry s nonce)"

definition apply_action :: "'w renv \<Rightarrow> ActionType \<Rightarrow> 'w ledger \<Rightarrow> (error, 'w ledger) outcome" where
  "apply_action e action s =
     (case action of
        SetPlatformTreasury new_treasury \<Rightarrow> Ok (s\<lparr>iPlatformTreasury := Some new_treasury\<rparr>)
      | SetFeeConfig fee_bps fee_cap \<Rightarrow> Ok (s\<lparr>iFeeBps := Some fee_bps, iFeeCap := Some fee_cap\<rparr>)
      | SetFeeBps new_fee_bps \<Rightarrow> Ok (s\<lparr>iFeeBps := Some new_fee_bps\<rparr>)
      | SetGovernance gov \<Rightarrow> Ok (s\<lparr>iGovernance := Some gov\<rparr>)
      | SetMinLimit min_limit \<Rightarrow> Ok (s\<lparr>iMinLimit := Some min_limit\<rparr>)
      | TransferAdmin new_admin \<Rightarrow>
          Ok (set_role_internal SuperAdmin new_admin (s\<lparr>iAdmin := Some new_admin\<rparr>))
      | SetBackupAdmin backup timeout_seconds \<Rightarrow> apply_set_backup_admin e backup timeout_seconds s
      | Upgrade new_wasm_hash \<Rightarrow> apply_upgrade e new_wasm_hash s
      | SetMultisigConfig signers threshold \<Rightarrow> store_multisig_config e signers threshold s
      | RegisterDex dex \<Rightarrow> Ok (s\<lparr>pRegisteredDex := (pRegisteredDex s)(dex \<mapsto> True)\<rparr>)
      | DeregisterDex dex \<Rightarrow> Ok (s\<lparr>pRegisteredDex := (pRegisteredDex s)(dex := None)\<rparr>)
      | SetMaxSlippageBps max_slippage_bps \<Rightarrow> Ok (s\<lparr>iMaxSlippageBps := Some max_slippage_bps\<rparr>)
      | SetPairMaxSlippageBps tin tout bps \<Rightarrow>
          Ok (s\<lparr>pPairSlippage := (pPairSlippage s)((tin, tout) \<mapsto> bps)\<rparr>))"

definition drop_entry :: "nat \<Rightarrow> 'w ledger \<Rightarrow> 'w ledger" where
  "drop_entry nonce s = s\<lparr>pTimelockEntry := (pTimelockEntry s)(nonce := None)\<rparr>"

text \<open>\<open>timelock::execute_action\<close>.\<close>

definition execute_action :: "'w renv \<Rightarrow> nat \<Rightarrow> 'w ledger \<Rightarrow> ('w, unit) res" where
  "execute_action e nonce s =
     (if is_frozen_internal s then Err ContractFrozen
      else bnd (require_circuit_closed s) (\<lambda>_.
      bnd (admin_auth e s) (\<lambda>admin.
      bnd (ok_or TimelockNotFound (pTimelockEntry s nonce)) (\<lambda>entry.
      bnd (u64_add (queued_at entry) SECONDS_IN_24H) (\<lambda>ready.
      if now e < ready then Err TimelockNotReady
      else bnd (validate_queued_action (te_action entry) s) (\<lambda>_.
      bnd (apply_action e (te_action entry) (drop_entry nonce s)) (\<lambda>s1.
      Ok ((), emit ''action_executed'' [AddrArg admin, NatArg nonce] s1))))))))"

text \<open>The entry point \<open>PaymentRouter::execute_action\<close>, with its own copy of the match.\<close>

definition execute_action_entry :: "'w renv \<Rightarrow> nat \<Rightarrow> 'w ledger \<Rightarrow> ('w, unit) res" where
  "execute_action_entry e nonce s =
     (if is_frozen_internal s then Err ContractFrozen
      else bnd (require_circuit_closed s) (\<lambda>_.
      bnd (require_admin s) (\<lambda>admin.
      bnd (require_auth e admin) (\<lambda>_.
      bnd (ok_or TimelockNotFound (pTimelockEntry s nonce)) (\<lambda>entry.
      bnd (u64_add (queued_at entry) SECONDS_IN_24H) (\<lambda>ready.
      if now e < ready then Err TimelockNotReady
      else bnd (validate_queued_action (te_action entry) s) (\<lambda>_.
      let s1 = s\<lparr>pTimelockEntry := (pTimelockEntry s)(nonce := None)\<rparr> in
      bnd (case te_action entry of
          SetPlatformTreasury new_treasury \<Rightarrow> Ok (s1\<lparr>iPlatformTreasury := Some new_treasury\<rparr>)
        | SetFeeConfig fee_bps fee_cap \<Rightarrow> Ok (s1\<lparr>iFeeBps := Some fee_bps, iFeeCap := Some fee_cap\<rparr>)
        | SetFeeBps new_fee_bps \<Rightarrow> Ok (s1\<lparr>iFeeBps := Some new_fee_bps\<rparr>)
        | SetGovernance gov \<Rightarrow> Ok (s1\<lparr>iGovernance := Some gov\<rparr>)
        | SetMinLimit min_limit \<Rightarrow> Ok (s1\<lparr>iMinLimit := Some min_limit\<rparr>)
        | TransferAdmin new_admin \<Rightarrow>
            (let s2 = s1\<lparr>iAdmin := Some new_admin\<rparr> in Ok (set_role_internal SuperAdmin new_admin s2))
        | SetBackupAdmin backup timeout_seconds \<Rightarrow> apply_set_backup_admin e backup timeout_seconds s1
        | Upgrade new_wasm_hash \<Rightarrow> apply_upgrade e new_wasm_hash s1
        | SetMultisigConfig signers threshold \<Rightarrow> store_multisig_config e signers threshold s1
        | RegisterDex dex \<Rightarrow> Ok (s1\<lparr>pRegisteredDex := (pRegisteredDex s1)(dex \<mapsto> True)\<rparr>)
        | DeregisterDex dex \<Rightarrow> Ok (s1\<lparr>pRegisteredDex := (pRegisteredDex s1)(dex := None)\<rparr>)
        | SetMaxSlippageBps max_slippage_bps \<Rightarrow> Ok (s1\<lparr>iMaxSlippageBps := Some max_slippage_bps\<rparr>)
        | SetPairMaxSlippageBps tin tout bps \<Rightarrow>
            Ok (s1\<lparr>pPairSlippage := (pPairSlippage s1)((tin, tout) \<mapsto> bps)\<rparr>)) (\<lambda>s3.
      Ok ((), emit ''action_executed'' [AddrArg admin, NatArg nonce] s3)))))))))"

text \<open>Phase 1 of a batch: read and check every entry, in order, before anything changes.\<close>

fun batch_entries :: "'w renv \<Rightarrow> nat list \<Rightarrow> 'w ledger \<Rightarrow> (error, TimelockEntry list) outcome" where
  "batch_entries e [] s = Ok []"
| "batch_entries e (nonce # nonces) s =
     bnd (ok_or TimelockNotFound (pTimelockEntry s nonce)) (\<lambda>entry.
     bnd (u64_add (queued_at entry) SECONDS_IN_24H) (\<lambda>ready.
     if now e < ready then Err TimelockNotReady
     else bnd (validate_queued_action (te_action entry) s) (\<lambda>_.
     bnd (batch_entries e nonces s) (\<lambda>entries. Ok (entry # entries)))))"

text \<open>Phase 2: remove and apply them in order.\<close>

fun batch_apply ::
    "'w renv \<Rightarrow> address \<Rightarrow> (nat \<times> TimelockEntry) list \<Rightarrow> 'w ledger \<Rightarrow> (error, 'w ledger) outcome" where
  "batch_apply e admin [] s = Ok s"
| "batch_apply e admin ((nonce, entry) # rest) s =
     bnd (apply_action e (te_action entry) (drop_entry nonce s)) (\<lambda>s1.
     batch_apply e admin rest (emit ''action_executed'' [AddrArg admin, NatArg nonce] s1))"

definition execute_batch_actions :: "'w renv \<Rightarrow> nat list \<Rightarrow> 'w ledger \<Rightarrow> ('w, unit) res" where
  "execute_batch_actions e nonces s =
     (if is_frozen_internal s then Err ContractFrozen
      else bnd (require_circuit_closed s) (\<lambda>_.
      bnd (admin_auth e s) (\<lambda>admin.
      if nonces = [] then Ok ((), s)
      else if has_duplicate nonces then Err TimelockNotFound
      else bnd (batch_entries e nonces s) (\<lambda>entries.
      bnd (batch_apply e admin (zip nonces entries) s) (\<lambda>s1.
      Ok ((), emit ''batch_actions_executed'' [AddrArg admin, NatsArg nonces] s1))))))"

definition cancel_action :: "'w renv \<Rightarrow> nat \<Rightarrow> 'w ledger \<Rightarrow> ('w, unit) res" where
  "cancel_action e nonce s =
     bnd (admin_auth e s) (\<lambda>admin.
     if pTimelockEntry s nonce = None then Err TimelockNotFound
     else Ok ((), emit ''action_cancelled'' [AddrArg admin, NatArg nonce] (drop_entry nonce s)))"

section \<open>What an action leaves alone\<close>

lemma set_role_frame [simp]:
  "pTimelockEntry (set_role_internal r a s) = pTimelockEntry s"
  "iFrozen (set_role_internal r a s) = iFrozen s"
  "iPauseLevel (set_role_internal r a s) = iPauseLevel s"
  "iPaused (set_role_internal r a s) = iPaused s"
  by (simp_all add: set_role_internal_def Let_def split: option.splits)

lemma drop_entry_frame [simp]:
  "pTimelockEntry (drop_entry n s) = (pTimelockEntry s)(n := None)"
  "iTimelockNonce (drop_entry n s) = iTimelockNonce s"
  "iFrozen (drop_entry n s) = iFrozen s" "iAdmin (drop_entry n s) = iAdmin s"
  "get_pause_level (drop_entry n s) = get_pause_level s"
  "is_frozen_internal (drop_entry n s) = is_frozen_internal s"
  by (simp_all add: drop_entry_def get_pause_level_def is_frozen_internal_def)

lemma store_multisig_frame:
  "store_multisig_config e xs n s = Ok s' \<Longrightarrow>
     pTimelockEntry s' = pTimelockEntry s \<and> iTimelockNonce s' = iTimelockNonce s
   \<and> get_pause_level s' = get_pause_level s \<and> is_frozen_internal s' = is_frozen_internal s
   \<and> iAdmin s' = iAdmin s"
  by (auto simp: store_multisig_config_def outcome_simps Let_def get_pause_level_def
      is_frozen_internal_def split: if_splits)

lemma apply_action_frame:
  assumes "apply_action e act s = Ok s'"
  shows "pTimelockEntry s' = pTimelockEntry s" "iTimelockNonce s' = iTimelockNonce s"
    "get_pause_level s' = get_pause_level s" "is_frozen_internal s' = is_frozen_internal s"
    "(\<forall>a. act \<noteq> TransferAdmin a) \<Longrightarrow> iAdmin s' = iAdmin s"
  using assms store_multisig_frame [of e _ _ s s']
  by (cases act; auto simp: apply_action_def apply_set_backup_admin_def apply_upgrade_def
      outcome_simps get_pause_level_def is_frozen_internal_def split: if_splits)+

section \<open>A queue of delayed one-shot actions\<close>

locale delayed_queue =
  fixes pending :: "'s \<Rightarrow> nat \<Rightarrow> 'q option"
    and ready_at :: "'q \<Rightarrow> nat"
    and clock :: "'e \<Rightarrow> nat"
    and execute :: "'e \<Rightarrow> nat \<Rightarrow> 's \<Rightarrow> ('err, unit \<times> 's) outcome"
  assumes exec_needs: "execute e n s = Ok ((), s') \<Longrightarrow> \<exists>q. pending s n = Some q \<and> ready_at q \<le> clock e"
    and exec_takes: "execute e n s = Ok ((), s') \<Longrightarrow> pending s' = (pending s)(n := None)"
begin

lemma not_early: "pending s n = Some q \<Longrightarrow> clock e < ready_at q \<Longrightarrow> execute e n s \<noteq> Ok ((), s')"
  using exec_needs [of e n s s'] by auto

lemma not_twice: "execute e n s = Ok ((), s') \<Longrightarrow> execute e' n s' \<noteq> Ok ((), s'')"
  using exec_takes [of e n s s'] exec_needs [of e' n s' s''] by auto

lemma others_wait: "execute e n s = Ok ((), s') \<Longrightarrow> m \<noteq> n \<Longrightarrow> pending s' m = pending s m"
  using exec_takes [of e n s s'] by simp

lemma absent_stays_absent:
  "pending s m = None \<Longrightarrow> execute e n s = Ok ((), s') \<Longrightarrow> execute e' m s' \<noteq> Ok ((), s'')"
  using exec_takes [of e n s s'] exec_needs [of e' m s' s''] by (auto split: if_splits)

end

lemma execute_action_steps:
  "execute_action e n s = Ok ((), s') \<Longrightarrow>
     \<exists>entry admin s1. pTimelockEntry s n = Some entry \<and> queued_at entry + SECONDS_IN_24H \<le> now e
       \<and> validate_queued_action (te_action entry) s = Ok ()
       \<and> apply_action e (te_action entry) (drop_entry n s) = Ok s1
       \<and> iAdmin s = Some admin \<and> auth e admin
       \<and> s' = emit ''action_executed'' [AddrArg admin, NatArg n] s1"
  by (auto simp: execute_action_def outcome_simps u64_add_def split: if_splits)

lemma execute_copies_agree: "execute_action_entry e n s = execute_action e n s"
  unfolding execute_action_entry_def execute_action_def admin_auth_def bnd_assoc bnd_simps
    apply_action_def drop_entry_def Let_def
  by (rule refl)

interpretation queue: delayed_queue pTimelockEntry "\<lambda>q. queued_at q + SECONDS_IN_24H" now execute_action
proof
  fix e :: "'w renv" and n s s'
  assume "execute_action e n s = Ok ((), s')"
  then obtain entry admin s1 where x: "pTimelockEntry s n = Some entry"
    "queued_at entry + SECONDS_IN_24H \<le> now e"
    "apply_action e (te_action entry) (drop_entry n s) = Ok s1"
    "s' = emit ''action_executed'' [AddrArg admin, NatArg n] s1"
    using execute_action_steps [of e n s s'] by blast
  then show "\<exists>q. pTimelockEntry s n = Some q \<and> queued_at q + SECONDS_IN_24H \<le> now e"
    "pTimelockEntry s' = (pTimelockEntry s)(n := None)"
    by (auto simp: apply_action_frame(1))
qed

interpretation entry_queue: delayed_queue pTimelockEntry "\<lambda>q. queued_at q + SECONDS_IN_24H" now
  execute_action_entry
  by unfold_locales (auto simp: execute_copies_agree dest: queue.exec_needs queue.exec_takes)

lemma queue_action_eq:
  "queue_action e act s = Ok (n, s') \<longleftrightarrow>
     \<not> is_frozen_internal s \<and> get_pause_level s \<noteq> FullHalt
   \<and> (\<exists>admin. iAdmin s = Some admin \<and> auth e admin
      \<and> n = Suc (unwrap_or 0 (iTimelockNonce s)) \<and> u64_ok n
      \<and> s' = emit ''action_queued'' [AddrArg admin, NatArg n, NatArg (now e)]
          (s\<lparr>iTimelockNonce := Some n, pTimelockEntry := (pTimelockEntry s)
             (n \<mapsto> \<lparr>queued_at = now e, te_action = act\<rparr>)\<rparr>))"
  by (auto simp: queue_action_def next_nonce_def outcome_simps u64_add_def Let_def split: if_splits)

text \<open>Every queued entry has a nonce the counter has already passed.\<close>

definition nonces_ok :: "'w ledger \<Rightarrow> bool" where
  "nonces_ok s \<longleftrightarrow> (\<forall>n. pTimelockEntry s n \<noteq> None \<longrightarrow> n \<le> unwrap_or 0 (iTimelockNonce s))"

lemma queue_nonces_ok: "nonces_ok s \<Longrightarrow> queue_action e act s = Ok (n, s') \<Longrightarrow> nonces_ok s'"
  by (auto simp: nonces_ok_def queue_action_eq le_Suc_eq)

lemma nonces_ok_subset:
  "nonces_ok s \<Longrightarrow> iTimelockNonce s' = iTimelockNonce s \<Longrightarrow>
   (\<And>n. pTimelockEntry s' n \<noteq> None \<Longrightarrow> pTimelockEntry s n \<noteq> None) \<Longrightarrow> nonces_ok s'"
  unfolding nonces_ok_def by metis

lemma execute_frame:
  "execute_action e n s = Ok ((), s') \<Longrightarrow>
     iTimelockNonce s' = iTimelockNonce s \<and> get_pause_level s' = get_pause_level s
   \<and> is_frozen_internal s' = is_frozen_internal s"
  using execute_action_steps [of e n s s']
  by (auto simp: apply_action_frame is_frozen_internal_def [of "_\<lparr>events := _\<rparr>"]
      is_frozen_internal_def [symmetric])

section \<open>Properties\<close>


definition sample_queue_ledger :: "sworld ledger" where
  "sample_queue_ledger = sample_ledger\<lparr>iTimelockNonce := Some 2,
     pTimelockEntry := [1 \<mapsto> \<lparr>queued_at = 1000, te_action = SetMinLimit 50\<rparr>,
                        2 \<mapsto> \<lparr>queued_at = 2000, te_action = RegisterDex 30\<rparr>]\<rparr>"

lemma sample_queue_fields [simp]:
  "iAdmin sample_queue_ledger = Some 1" "iTimelockNonce sample_queue_ledger = Some 2"
  "is_frozen_internal sample_queue_ledger = False" "get_pause_level sample_queue_ledger = NoPause"
  "pTimelockEntry sample_queue_ledger =
     [1 \<mapsto> \<lparr>queued_at = 1000, te_action = SetMinLimit 50\<rparr>,
      2 \<mapsto> \<lparr>queued_at = 2000, te_action = RegisterDex 30\<rparr>]"
  by (simp_all add: sample_queue_ledger_def is_frozen_internal_def get_pause_level_def)


text \<open>Queueing: the admin of a running contract gets a nonce no entry has ever had, the entry
  records the action and the time, every other entry stays, and once 24 hours have passed (and not
  before) the entry can be executed, as long as its validation passes and its effect goes through.
  After a cancellation it never can.\<close>

theorem queued_action_lifecycle:
  assumes "nonces_ok s" "queue_action e act s = Ok (n, s')" "now e + 24 * 3600 < 2 ^ 64"
  shows "pTimelockEntry s n = None
    \<and> pTimelockEntry s' = (pTimelockEntry s)(n \<mapsto> \<lparr>queued_at = now e, te_action = act\<rparr>) \<and> nonces_ok s'
    \<and> (\<forall>e' t. now e' < now e + 24 * 3600 \<longrightarrow> execute_action_entry e' n s' \<noteq> Ok ((), t))
    \<and> (\<forall>e' admin t. now e + 24 * 3600 \<le> now e' \<and> iAdmin s' = Some admin \<and> auth e' admin
          \<and> validate_queued_action act s' = Ok () \<and> apply_action e' act (drop_entry n s') = Ok t \<longrightarrow>
        (\<exists>t'. execute_action_entry e' n s' = Ok ((), t')))
    \<and> (\<forall>e' e'' t t'. cancel_action e' n s' = Ok ((), t) \<longrightarrow> execute_action_entry e'' n t \<noteq> Ok ((), t'))"
proof -
  obtain admin where n: "n = Suc (unwrap_or 0 (iTimelockNonce s))" "u64_ok n"
    "\<not> is_frozen_internal s" "get_pause_level s \<noteq> FullHalt"
    and s': "s' = emit ''action_queued'' [AddrArg admin, NatArg n, NatArg (now e)]
          (s\<lparr>iTimelockNonce := Some n, pTimelockEntry := (pTimelockEntry s)
             (n \<mapsto> \<lparr>queued_at = now e, te_action = act\<rparr>)\<rparr>)"
    using assms(2) unfolding queue_action_eq by blast
  have fresh: "pTimelockEntry s n = None" using assms(1) n(1) by (auto simp: nonces_ok_def)
  have entry: "pTimelockEntry s' = (pTimelockEntry s)(n \<mapsto> \<lparr>queued_at = now e, te_action = act\<rparr>)"
    by (simp add: s')
  have gates: "\<not> is_frozen_internal s'" "get_pause_level s' \<noteq> FullHalt"
    using n(3,4) by (simp_all add: s' is_frozen_internal_def get_pause_level_def split: option.splits if_splits)
  have early: "execute_action_entry e' n s' \<noteq> Ok ((), t)"
    if "now e' < now e + 24 * 3600" for e' :: "'a renv" and t
    using entry_queue.not_early [of s' n "\<lparr>queued_at = now e, te_action = act\<rparr>" e'] that entry
    by (simp add: SECONDS_IN_24H_def)
  have ready: "\<exists>t'. execute_action_entry e' n s' = Ok ((), t')"
    if "now e + 24 * 3600 \<le> now e'" "iAdmin s' = Some a" "auth e' a"
      "validate_queued_action act s' = Ok ()" "apply_action e' act (drop_entry n s') = Ok t"
    for e' :: "'a renv" and a t
  proof -
    have "require_circuit_closed s' = Ok ()" "admin_auth e' s' = Ok a"
      "(u64_add (now e) SECONDS_IN_24H :: (error, nat) outcome) = Ok (now e + SECONDS_IN_24H)"
      using gates that assms(3)
      by (simp_all add: require_circuit_closed_eq admin_auth_eq u64_add_def u64_ok_def SECONDS_IN_24H_def)
    then show ?thesis using gates that entry
      by (simp add: execute_copies_agree execute_action_def SECONDS_IN_24H_def)
  qed
  have cancelled: "execute_action_entry e'' n t \<noteq> Ok ((), t')"
    if "cancel_action e' n s' = Ok ((), t)" for e' e'' :: "'a renv" and t t'
  proof -
    have "pTimelockEntry t n = None"
      using that by (auto simp: cancel_action_def outcome_simps split: if_splits)
    then show ?thesis using entry_queue.exec_needs [of e'' n t t'] by auto
  qed
  from fresh entry queue_nonces_ok [OF assms(1,2)] early ready cancelled show ?thesis by blast
qed

theorem queued_action_lifecycle_witness:
  "\<exists>s'. queue_action (sample_env 5) (SetFeeBps 20) sample_queue_ledger = Ok (3, s')
     \<and> pTimelockEntry s' 3 = Some \<lparr>queued_at = 5, te_action = SetFeeBps 20\<rparr>"
proof -
  have ok: "nonces_ok sample_queue_ledger" by (simp add: nonces_ok_def)
  obtain s' where run: "queue_action (sample_env 5) (SetFeeBps 20) sample_queue_ledger = Ok (3, s')"
    by (simp add: queue_action_eq u64_ok_def)
  with queued_action_lifecycle [OF ok run] show ?thesis by auto
qed

text \<open>The repository's two copies of the execution, the entry point's and the module's that the
  batch is built on, are the same function: same guards in the same order, same effects, same
  errors.\<close>

theorem execution_copies_equal: "execute_action_entry e n s = execute_action e n s"
  by (rule execute_copies_agree)

section \<open>Batches\<close>

fun execute_each :: "'w renv \<Rightarrow> nat list \<Rightarrow> 'w ledger \<Rightarrow> ('w, unit) res" where
  "execute_each e [] s = Ok ((), s)"
| "execute_each e (n # ns) s = bnd (execute_action e n s) (\<lambda>(_, s1). execute_each e ns s1)"

text \<open>The two kinds of action whose execution changes what a later one in the list needs.\<close>

fun needs_order :: "ActionType \<Rightarrow> bool" where
  "needs_order (Upgrade _) = True"
| "needs_order (TransferAdmin _) = True"
| "needs_order _ = False"

definition open_for :: "'w renv \<Rightarrow> address \<Rightarrow> 'w ledger \<Rightarrow> bool" where
  "open_for e admin s \<longleftrightarrow> \<not> is_frozen_internal s \<and> get_pause_level s \<noteq> FullHalt
     \<and> iAdmin s = Some admin \<and> auth e admin"

lemma execute_when_open:
  "open_for e admin s \<Longrightarrow> execute_action e n s =
     bnd (ok_or TimelockNotFound (pTimelockEntry s n)) (\<lambda>entry.
     bnd (u64_add (queued_at entry) SECONDS_IN_24H) (\<lambda>ready.
     if now e < ready then Err TimelockNotReady
     else bnd (validate_queued_action (te_action entry) s) (\<lambda>_.
     bnd (apply_action e (te_action entry) (drop_entry n s)) (\<lambda>s1.
     Ok ((), emit ''action_executed'' [AddrArg admin, NatArg n] s1)))))"
proof -
  assume o: "open_for e admin s"
  then have "require_circuit_closed s = Ok ()" "admin_auth e s = Ok admin"
    by (simp_all add: open_for_def outcome_simps)
  with o show ?thesis by (simp add: execute_action_def open_for_def)
qed

lemma validate_state_free:
  "\<not> needs_order act \<Longrightarrow> validate_queued_action act s = validate_queued_action act s'"
  by (cases act) (simp_all add: validate_queued_action_def)

lemma batch_entries_cong:
  "(\<And>n. n \<in> set ns \<Longrightarrow> pTimelockEntry s' n = pTimelockEntry s n) \<Longrightarrow>
   (\<And>n entry. n \<in> set ns \<Longrightarrow> pTimelockEntry s n = Some entry \<Longrightarrow> \<not> needs_order (te_action entry)) \<Longrightarrow>
   batch_entries e ns s' = batch_entries e ns s"
proof (induction ns)
  case (Cons n ns)
  have "validate_queued_action (te_action entry) s' = validate_queued_action (te_action entry) s"
    if "pTimelockEntry s n = Some entry" for entry
    using that Cons.prems(2) [of n entry] by (auto intro: validate_state_free)
  moreover have "batch_entries e ns s' = batch_entries e ns s"
    by (rule Cons.IH) (use Cons.prems in auto)
  ultimately show ?case
    using Cons.prems(1) [of n] by (cases "pTimelockEntry s n") (simp_all cong: if_cong)
qed simp

lemma apply_open:
  "open_for e admin s \<Longrightarrow> apply_action e act (drop_entry n s) = Ok s1 \<Longrightarrow> \<not> needs_order act \<Longrightarrow>
   open_for e admin (emit x y s1) \<and> pTimelockEntry (emit x y s1) = (pTimelockEntry s)(n := None)"
  using apply_action_frame [of e act "drop_entry n s" s1]
  by (cases act) (auto simp: open_for_def is_frozen_internal_def)

lemma each_is_batch:
  assumes "open_for e admin s" "distinct ns"
    and "\<And>n entry. n \<in> set ns \<Longrightarrow> pTimelockEntry s n = Some entry \<Longrightarrow> \<not> needs_order (te_action entry)"
  shows "execute_each e ns s = Ok ((), s') \<longleftrightarrow>
    (\<exists>entries. batch_entries e ns s = Ok entries \<and> batch_apply e admin (zip ns entries) s = Ok s')"
  using assms
proof (induction ns arbitrary: s)
  case Nil
  then show ?case by simp
next
  case (Cons n ns)
  show ?case
  proof (cases "pTimelockEntry s n")
    case None
    then show ?thesis by (simp add: execute_when_open [OF Cons.prems(1)])
  next
    case (Some entry)
    let ?act = "te_action entry"
    let ?next = "\<lambda>s1. emit ''action_executed'' [AddrArg admin, NatArg n] s1"
    have act: "\<not> needs_order ?act" using Cons.prems(3) [of n] Some by simp
    have IH: "execute_each e ns (?next s1) = Ok ((), s') \<longleftrightarrow>
        (\<exists>entries. batch_entries e ns s = Ok entries
           \<and> batch_apply e admin (zip ns entries) (?next s1) = Ok s')"
      if "apply_action e ?act (drop_entry n s) = Ok s1" for s1
    proof -
      note ap = apply_open [OF Cons.prems(1) that act, of "''action_executed''" "[AddrArg admin, NatArg n]"]
      have same: "batch_entries e ns (?next s1) = batch_entries e ns s"
        by (rule batch_entries_cong) (use ap Cons.prems(2,3) in auto)
      have "execute_each e ns (?next s1) = Ok ((), s') \<longleftrightarrow>
        (\<exists>entries. batch_entries e ns (?next s1) = Ok entries
           \<and> batch_apply e admin (zip ns entries) (?next s1) = Ok s')"
        by (rule Cons.IH) (use ap Cons.prems in \<open>auto split: if_splits\<close>)
      then show ?thesis by (simp only: same)
    qed
    show ?thesis
      using IH by (auto simp: execute_when_open [OF Cons.prems(1)] Some outcome_simps
          simp del: emit_def split: if_splits)
  qed
qed

text \<open>A batch is all or nothing and means the same as executing its entries one by one: for
  distinct nonces whose actions neither install code nor move the admin key, the batch succeeds
  exactly when the single executions in that order do, with the same resulting state and one
  summary event; a repeated nonce rejects the batch.\<close>

theorem batch_is_sequence:
  assumes "ns \<noteq> []" "open_for e admin s"
    and "\<forall>n\<in>set ns. \<forall>entry. pTimelockEntry s n = Some entry \<longrightarrow> \<not> needs_order (te_action entry)"
  shows "(distinct ns \<longrightarrow>
      (execute_batch_actions e ns s = Ok ((), s') \<longleftrightarrow>
        (\<exists>s1. execute_each e ns s = Ok ((), s1)
           \<and> s' = emit ''batch_actions_executed'' [AddrArg admin, NatsArg ns] s1)))
    \<and> (\<not> distinct ns \<longrightarrow> execute_batch_actions e ns s = Err TimelockNotFound)"
proof -
  have "require_circuit_closed s = Ok ()" "admin_auth e s = Ok admin" "\<not> is_frozen_internal s"
    using assms(2) by (simp_all add: open_for_def outcome_simps)
  then have batch: "execute_batch_actions e ns s =
      (if distinct ns then bnd (batch_entries e ns s) (\<lambda>entries.
         bnd (batch_apply e admin (zip ns entries) s) (\<lambda>s1.
         Ok ((), emit ''batch_actions_executed'' [AddrArg admin, NatsArg ns] s1)))
       else Err TimelockNotFound)"
    using assms(1) by (simp add: execute_batch_actions_def)
  have each: "distinct ns \<Longrightarrow> execute_each e ns s = Ok ((), s1) \<longleftrightarrow>
    (\<exists>entries. batch_entries e ns s = Ok entries \<and> batch_apply e admin (zip ns entries) s = Ok s1)" for s1
    by (rule each_is_batch [OF assms(2)]) (use assms(3) in auto)
  show ?thesis by (auto simp: batch each bnd_eq_Ok)
qed

theorem batch_is_sequence_witness:
  "\<exists>s'. execute_batch_actions (sample_env 90000) [2, 1] sample_queue_ledger = Ok ((), s')"
proof -
  have o: "open_for (sample_env 90000) 1 sample_queue_ledger" by (simp add: open_for_def)
  have run: "\<exists>s1. execute_each (sample_env 90000) [2, 1] sample_queue_ledger = Ok ((), s1)"
    by (simp add: execute_action_def require_circuit_closed_def require_not_fully_halted_def
        admin_auth_def require_admin_def require_auth_def u64_add_def u64_ok_def const_defs
        validate_queued_action_def apply_action_def drop_entry_def sample_queue_ledger_def
        is_frozen_internal_def get_pause_level_def sample_ledger_def fresh_ledger_def)
  have "\<forall>n\<in>set [2, 1]. \<forall>entry. pTimelockEntry sample_queue_ledger n = Some entry \<longrightarrow>
      \<not> needs_order (te_action entry)" by auto
  from batch_is_sequence [OF _ o this] run show ?thesis by auto
qed

end
