(* ===== verification/Router_Rate_Limit.thy ===== *)
theory Router_Rate_Limit
  imports Router_Storage Router_Access
begin

text \<open>
  The per-sender, per-ledger call cap: \<open>payment_router/src/rate_limit.rs\<close> and the entry
  points of \<open>lib.rs\<close> that configure and read it. For a capped sender the check is a quota
  (locale \<open>quota\<close>) of \<open>get_rate_limit_remaining\<close> calls per ledger.
\<close>

definition current_window :: "'w renv \<Rightarrow> nat" where
  "current_window e = seq e"

definition rate_limit_raw :: "'w ledger \<Rightarrow> nat" where
  "rate_limit_raw s = unwrap_or DEFAULT_RATE_LIMIT (iRateLimitConfig s)"

definition is_whitelisted :: "'w ledger \<Rightarrow> address \<Rightarrow> bool" where
  "is_whitelisted s address = unwrap_or False (pRateLimitWhitelist s address)"

definition rate_limit_used :: "'w renv \<Rightarrow> address \<Rightarrow> 'w ledger \<Rightarrow> nat" where
  "rate_limit_used e sender s =
     (case pRateLimitCounter s sender of
        Some packed \<Rightarrow>
          (case unpack_rate_counter packed of (window_ledger, cnt) \<Rightarrow>
             if window_ledger = current_window e then cnt else 0)
      | None \<Rightarrow> 0)"

definition check_rate_limit :: "'w renv \<Rightarrow> address \<Rightarrow> 'w ledger \<Rightarrow> (error, 'w ledger) outcome" where
  "check_rate_limit e sender s =
     (let limit = rate_limit_raw s in
      if limit = 0 \<or> is_whitelisted s sender then Ok s
      else
        let used = rate_limit_used e sender s in
        if limit \<le> used then Err RateLimited
        else bnd (u32_add used 1) (\<lambda>used'.
          Ok (s\<lparr>pRateLimitCounter := (pRateLimitCounter s)
                 (sender \<mapsto> pack_rate_counter (current_window e) used')\<rparr>)))"

definition get_rate_limit_remaining :: "'w renv \<Rightarrow> address \<Rightarrow> 'w ledger \<Rightarrow> nat" where
  "get_rate_limit_remaining e sender s =
     (let limit = rate_limit_raw s in
      if limit = 0 \<or> is_whitelisted s sender then 2 ^ 32 - 1
      else limit - rate_limit_used e sender s)"

definition set_rate_limit :: "'w renv \<Rightarrow> nat \<Rightarrow> 'w ledger \<Rightarrow> ('w, unit) res" where
  "set_rate_limit e max_calls_per_ledger s =
     bnd (admin_auth e s) (\<lambda>admin.
     if max_calls_per_ledger > MAX_RATE_LIMIT then Err LimitExceeded
     else Ok ((), emit ''rate_limit_set'' [AddrArg admin, NatArg max_calls_per_ledger]
       (s\<lparr>iRateLimitConfig := Some max_calls_per_ledger\<rparr>)))"

definition set_rate_limit_whitelist :: "'w renv \<Rightarrow> address \<Rightarrow> 'w ledger \<Rightarrow> ('w, unit) res" where
  "set_rate_limit_whitelist e address s =
     bnd (admin_auth e s) (\<lambda>_.
     Ok ((), emit ''rate_limit_whitelist_added'' [AddrArg address, NatArg (now e)]
       (s\<lparr>pRateLimitWhitelist := (pRateLimitWhitelist s)(address \<mapsto> True)\<rparr>)))"

definition remove_rate_limit_whitelist :: "'w renv \<Rightarrow> address \<Rightarrow> 'w ledger \<Rightarrow> ('w, unit) res" where
  "remove_rate_limit_whitelist e address s =
     bnd (admin_auth e s) (\<lambda>_.
     Ok ((), emit ''rate_limit_whitelist_removed'' [AddrArg address, NatArg (now e)]
       (s\<lparr>pRateLimitWhitelist := (pRateLimitWhitelist s)(address := None)\<rparr>)))"

section \<open>The check is a quota\<close>

definition capped :: "'w renv \<Rightarrow> address \<Rightarrow> 'w ledger \<Rightarrow> bool" where
  "capped e sender s \<longleftrightarrow> rate_limit_raw s \<noteq> 0 \<and> u32_ok (rate_limit_raw s)
     \<and> \<not> is_whitelisted s sender \<and> u32_ok (seq e)"

definition count_call :: "'w renv \<Rightarrow> address \<Rightarrow> nat \<Rightarrow> 'w ledger \<Rightarrow> 'w ledger" where
  "count_call e sender n s =
     s\<lparr>pRateLimitCounter := (pRateLimitCounter s)(sender \<mapsto> pack_rate_counter (seq e) n)\<rparr>"

lemma count_call_frame [simp]:
  "rate_limit_raw (count_call e a n s) = rate_limit_raw s"
  "is_whitelisted (count_call e a n s) b = is_whitelisted s b"
  "capped e a (count_call e a n s) = capped e a s"
  "b \<noteq> a \<Longrightarrow> rate_limit_used e b (count_call e a n s) = rate_limit_used e b s"
  by (simp_all add: count_call_def rate_limit_raw_def is_whitelisted_def capped_def
      rate_limit_used_def)

lemma used_count_call [simp]:
  "u32_ok (seq e) \<Longrightarrow> u32_ok n \<Longrightarrow> rate_limit_used e a (count_call e a n s) = n"
  by (simp add: rate_limit_used_def count_call_def current_window_def unpack_pack_rate_counter)

lemma check_capped:
  assumes "capped e a s"
  shows "check_rate_limit e a s =
    (if rate_limit_used e a s < rate_limit_raw s
     then Ok (count_call e a (Suc (rate_limit_used e a s)) s) else Err RateLimited)"
proof -
  have "u32_ok (Suc (rate_limit_used e a s))" if "rate_limit_used e a s < rate_limit_raw s"
    using that assms by (simp add: capped_def u32_ok_def)
  then show ?thesis using assms
    by (simp add: check_rate_limit_def capped_def u32_add_def count_call_def current_window_def Let_def)
qed

lemma remaining_capped:
  "capped e a s \<Longrightarrow> get_rate_limit_remaining e a s = rate_limit_raw s - rate_limit_used e a s"
  by (simp add: get_rate_limit_remaining_def capped_def)

interpretation limiter: quota "capped e a" "get_rate_limit_remaining e a" "check_rate_limit e a"
  RateLimited for e :: "'w renv" and a
proof
  fix s :: "'w ledger"
  let ?n = "Suc (rate_limit_used e a s)"
  assume c: "capped e a s"
  show "\<exists>s'. check_rate_limit e a s = Ok s' \<and> capped e a s'
      \<and> get_rate_limit_remaining e a s' = get_rate_limit_remaining e a s - 1"
    if "0 < get_rate_limit_remaining e a s"
  proof -
    have lt: "rate_limit_used e a s < rate_limit_raw s"
      using that c by (simp add: remaining_capped)
    then have "u32_ok ?n" "u32_ok (seq e)" using c by (simp_all add: capped_def u32_ok_def)
    with c lt show ?thesis by (simp add: check_capped remaining_capped)
  qed
  show "check_rate_limit e a s = Err RateLimited" if "get_rate_limit_remaining e a s = 0"
    using that c by (simp add: check_capped remaining_capped)
qed

lemma check_other_sender:
  "check_rate_limit e a s = Ok s' \<Longrightarrow> b \<noteq> a \<Longrightarrow>
     get_rate_limit_remaining e' b s' = get_rate_limit_remaining e' b s"
  by (auto simp: check_rate_limit_def outcome_simps Let_def get_rate_limit_remaining_def
      rate_limit_raw_def is_whitelisted_def rate_limit_used_def split: if_splits)

lemma take_n_other_sender:
  "take_n (check_rate_limit e a) n s = Ok s' \<Longrightarrow> b \<noteq> a \<Longrightarrow>
     get_rate_limit_remaining e' b s' = get_rate_limit_remaining e' b s"
  by (induction n arbitrary: s) (auto simp: bnd_eq_Ok check_other_sender)

text \<open>A counter written in one ledger says nothing about another one.\<close>

lemma take_n_stamped:
  "take_n (check_rate_limit e sender) k s = Ok s' \<Longrightarrow> 0 < k \<Longrightarrow> capped e sender s \<Longrightarrow> u32_ok (seq e') \<Longrightarrow>
   seq e' \<noteq> seq e \<Longrightarrow> get_rate_limit_remaining e' sender s' = rate_limit_raw s"
proof (induction k arbitrary: s)
  case (Suc k)
  let ?n = "Suc (rate_limit_used e sender s)"
  have lt: "rate_limit_used e sender s < rate_limit_raw s"
    and rest: "take_n (check_rate_limit e sender) k (count_call e sender ?n s) = Ok s'"
    using Suc.prems(1,3) by (auto simp: check_capped split: if_splits)
  have u: "u32_ok ?n" using lt Suc.prems(3) by (simp add: capped_def u32_ok_def)
  show ?case
  proof (cases k)
    case 0
    have "capped e' sender s'" using rest 0 Suc.prems by (auto simp: capped_def)
    moreover have "rate_limit_used e' sender s' = 0"
      using rest 0 u Suc.prems
      by (auto simp: rate_limit_used_def count_call_def current_window_def capped_def
          unpack_pack_rate_counter)
    ultimately show ?thesis using rest 0 by (auto simp: remaining_capped)
  next
    case Suc': (Suc k')
    then show ?thesis using Suc.IH [OF rest] Suc.prems by simp
  qed
qed simp

text \<open>C38: A capped sender gets exactly the calls \<open>get_rate_limit_remaining\<close> announces: n
  checks in one ledger all pass if n is at most that number, and use it up by n, and otherwise
  the batch fails with \<open>RateLimited\<close>. Nobody else's allowance moves, and in any other ledger the
  sender has the full cap again.\<close>

theorem rate_limit_is_quota:
  assumes "rate_limit_raw s = limit" "0 < limit" "u32_ok limit" "u32_ok (seq e)"
    and "\<not> is_whitelisted s sender"
  shows "(n \<le> get_rate_limit_remaining e sender s \<longrightarrow>
      (\<exists>s'. take_n (check_rate_limit e sender) n s = Ok s'
        \<and> get_rate_limit_remaining e sender s' = get_rate_limit_remaining e sender s - n
        \<and> (\<forall>b. b \<noteq> sender \<longrightarrow> get_rate_limit_remaining e b s' = get_rate_limit_remaining e b s)
        \<and> (\<forall>e'. u32_ok (seq e') \<and> seq e' \<noteq> seq e \<and> 0 < n \<longrightarrow>
              get_rate_limit_remaining e' sender s' = limit)))
    \<and> (get_rate_limit_remaining e sender s < n \<longrightarrow>
        take_n (check_rate_limit e sender) n s = Err RateLimited)"
proof -
  have c: "capped e sender s" using assms by (simp add: capped_def)
  have quota: "if n \<le> get_rate_limit_remaining e sender s
      then \<exists>s'. take_n (check_rate_limit e sender) n s = Ok s' \<and> capped e sender s'
        \<and> get_rate_limit_remaining e sender s' = get_rate_limit_remaining e sender s - n
      else take_n (check_rate_limit e sender) n s = Err RateLimited"
    using limiter.take_n_outcome [OF c, of n] by simp
  show ?thesis
  proof (intro conjI impI)
    assume "n \<le> get_rate_limit_remaining e sender s"
    with quota obtain s' where s': "take_n (check_rate_limit e sender) n s = Ok s'"
      "get_rate_limit_remaining e sender s' = get_rate_limit_remaining e sender s - n" by auto
    with take_n_other_sender [OF s'(1)] take_n_stamped [OF s'(1) _ c] assms(1) show
      "\<exists>s'. take_n (check_rate_limit e sender) n s = Ok s'
        \<and> get_rate_limit_remaining e sender s' = get_rate_limit_remaining e sender s - n
        \<and> (\<forall>b. b \<noteq> sender \<longrightarrow> get_rate_limit_remaining e b s' = get_rate_limit_remaining e b s)
        \<and> (\<forall>e'. u32_ok (seq e') \<and> seq e' \<noteq> seq e \<and> 0 < n \<longrightarrow>
              get_rate_limit_remaining e' sender s' = limit)"
      by auto
  next
    assume "get_rate_limit_remaining e sender s < n"
    with quota show "take_n (check_rate_limit e sender) n s = Err RateLimited" by simp
  qed
qed

theorem rate_limit_is_quota_witness:
  "(\<exists>s'. take_n (check_rate_limit (sample_env 0) 5) 10 sample_ledger = Ok s')
   \<and> take_n (check_rate_limit (sample_env 0) 5) 11 sample_ledger = Err RateLimited"
proof -
  have s: "rate_limit_raw sample_ledger = 10" "\<not> is_whitelisted sample_ledger 5"
    "get_rate_limit_remaining (sample_env 0) 5 sample_ledger = 10"
    by (simp_all add: rate_limit_raw_def is_whitelisted_def get_rate_limit_remaining_def
        rate_limit_used_def sample_ledger_def fresh_ledger_def const_defs)
  from rate_limit_is_quota [OF s(1), of "sample_env 0" 5 10]
    rate_limit_is_quota [OF s(1), of "sample_env 0" 5 11] s
  show ?thesis by (auto simp: u32_ok_def)
qed

end
