(* ===== verification/Router_Payments.thy ===== *)
theory Router_Payments
  imports Router_Admin Router_Rate_Limit
begin

text \<open>
  Direct payments of \<open>payment_router/src/lib.rs\<close>: the settlement of one payment by transfer
  or by allowance, \<open>route_payment\<close>, \<open>route_payments\<close>, the refund ledger with
  \<open>withdraw_refund\<close> and \<open>claim_all_refunds\<close>, and the reentrancy guard of
  \<open>storage.rs\<close>. The token contract is a parameter; what a settlement moves is stated under
  the laws of the locale \<open>token_contract\<close>.
\<close>

section \<open>Reentrancy guard\<close>

text \<open>\<open>ReentrancyGuard::new\<close>, and its \<open>Drop\<close> when the body returns.\<close>

definition with_guard :: "('w ledger \<Rightarrow> ('w, 'a) res) \<Rightarrow> 'w ledger \<Rightarrow> ('w, 'a) res" where
  "with_guard body s =
     (if unwrap_or False (xReentrancyGuard s) then Err ReentrantCall
      else bnd (body (s\<lparr>xReentrancyGuard := Some True\<rparr>)) (\<lambda>(x, s1).
        Ok (x, s1\<lparr>xReentrancyGuard := Some False\<rparr>)))"

section \<open>Refund ledger\<close>

definition get_refund_balance :: "'w ledger \<Rightarrow> address \<Rightarrow> address \<Rightarrow> int" where
  "get_refund_balance s user tok = unwrap_or 0 (pRefundBalance s (user, tok))"

definition credit_refund_balance ::
    "address \<Rightarrow> address \<Rightarrow> int \<Rightarrow> 'w ledger \<Rightarrow> (error, 'w ledger) outcome" where
  "credit_refund_balance user tok amount s =
     bnd (i128_add (get_refund_balance s user tok) amount) (\<lambda>new_balance.
     Ok (emit ''refunded'' [AddrArg user, AddrArg tok, IntArg amount]
       (s\<lparr>pRefundBalance := (pRefundBalance s)((user, tok) \<mapsto> new_balance)\<rparr>)))"

definition withdraw_refund ::
    "'w renv \<Rightarrow> address \<Rightarrow> address \<Rightarrow> int \<Rightarrow> 'w ledger \<Rightarrow> ('w, unit) res" where
  "withdraw_refund e user tok amount s =
     bnd (require_auth e user) (\<lambda>_.
     if amount \<le> 0 then Err NoRefundAvailable
     else
       let current_balance = get_refund_balance s user tok in
       if amount > current_balance then Err NoRefundAvailable
       else bnd (i128_sub current_balance amount) (\<lambda>new_balance.
         let s1 = s\<lparr>pRefundBalance := (pRefundBalance s)
                ((user, tok) := (if new_balance > 0 then Some new_balance else None))\<rparr> in
         bnd (transfer e tok (self e) user amount (world s1)) (\<lambda>w.
         Ok ((), emit ''withdrawn'' [AddrArg user, AddrArg tok, IntArg amount] (s1\<lparr>world := w\<rparr>)))))"

definition claim_all_refunds ::
    "'w renv \<Rightarrow> address \<Rightarrow> address \<Rightarrow> 'w ledger \<Rightarrow> ('w, int) res" where
  "claim_all_refunds e user tok s =
     bnd (require_auth e user) (\<lambda>_.
     let current_balance = get_refund_balance s user tok in
     if current_balance \<le> 0 then Err NoRefundAvailable
     else bnd (withdraw_refund e user tok current_balance s) (\<lambda>(_, s1). Ok (current_balance, s1)))"

section \<open>Settling one payment\<close>

text \<open>\<open>verify_kyc_for_amount\<close>; a failed oracle call traps.\<close>

definition verify_kyc_for_amount ::
    "'w renv \<Rightarrow> address \<Rightarrow> int \<Rightarrow> 'w ledger \<Rightarrow> (error, unit) outcome" where
  "verify_kyc_for_amount e sender amount s =
     (case iKycThreshold s of
        None \<Rightarrow> Ok ()
      | Some threshold \<Rightarrow>
          if amount \<le> threshold then Ok ()
          else bnd (ok_or KycRequired (iKycOracle s)) (\<lambda>oracle.
            bnd (unwrap (kyc_is_verified e oracle sender (world s))) (\<lambda>verified.
            if \<not> verified then Err KycRequired else Ok ())))"

text \<open>
  The transfers of a payment: the fee to the treasury, then the remainder to the recipient
  or, when the recipient cannot receive it, to the router against a refund credit. \<open>send\<close>
  is the way funds leave the sender (\<open>try_transfer\<close> or \<open>try_transfer_from\<close>).
\<close>

definition pay_fee ::
    "(address \<Rightarrow> int \<Rightarrow> 'w \<Rightarrow> 'w call) \<Rightarrow> address \<Rightarrow> int \<Rightarrow> 'w ledger \<Rightarrow> (error, 'w ledger) outcome" where
  "pay_fee send platform_treasury fee_amount s =
     (if fee_amount > 0 then
        (case send platform_treasury fee_amount (world s) of
           Done w \<Rightarrow> Ok (s\<lparr>world := w\<rparr>)
         | BadReturn w \<Rightarrow> Ok (s\<lparr>world := w\<rparr>)
         | Failed \<Rightarrow> Err LimitExceeded)
      else Ok s)"

definition pay_remainder ::
    "(address \<Rightarrow> int \<Rightarrow> 'w \<Rightarrow> 'w call) \<Rightarrow> address \<Rightarrow> address \<Rightarrow> address \<Rightarrow> address \<Rightarrow> int \<Rightarrow> 'w ledger
       \<Rightarrow> (error, 'w ledger) outcome" where
  "pay_remainder send router sender recipient tok remainder s =
     (if remainder > 0 then
        (case send recipient remainder (world s) of
           Done w \<Rightarrow> Ok (s\<lparr>world := w\<rparr>)
         | failure \<Rightarrow>
             (let s1 = (case failure of BadReturn w \<Rightarrow> s\<lparr>world := w\<rparr> | _ \<Rightarrow> s) in
              case send router remainder (world s1) of
                Done w \<Rightarrow> credit_refund_balance sender tok remainder (s1\<lparr>world := w\<rparr>)
              | _ \<Rightarrow> Err LimitExceeded))
      else Ok s)"

definition process_single_payment ::
    "'w renv \<Rightarrow> address \<Rightarrow> address \<Rightarrow> address \<Rightarrow> int \<Rightarrow> address \<Rightarrow> int \<Rightarrow> int \<Rightarrow> 'w ledger
       \<Rightarrow> (error, 'w ledger) outcome" where
  "process_single_payment e sender recipient tok amount platform_treasury fee_bps fee_cap s =
     (let s0 = emit ''payment_initiated'' [AddrArg sender, IntArg amount] s in
      bnd (accrue_user_record e sender amount s0) (\<lambda>(user_volume, s1).
      let effective_bps = (if user_volume > VOLUME_THRESHOLD then fee_bps sdiv 2 else fee_bps) in
      bnd (balance_of e tok sender (world s1)) (\<lambda>b.
      if b < amount then Err InsufficientBalance
      else bnd (direct_fee amount effective_bps fee_cap) (\<lambda>(fee_amount, remainder).
      let send = tok_transfer e tok sender in
      bnd (pay_fee send platform_treasury fee_amount s1) (\<lambda>s2.
      bnd (pay_remainder send (self e) sender recipient tok remainder s2) (\<lambda>s3.
      Ok (emit ''routed'' [AddrArg sender, AddrArg recipient, IntArg amount] s3)))))))"

definition process_single_payment_no_auth ::
    "'w renv \<Rightarrow> address \<Rightarrow> address \<Rightarrow> address \<Rightarrow> int \<Rightarrow> address \<Rightarrow> int \<Rightarrow> int \<Rightarrow> 'w ledger
       \<Rightarrow> (error, 'w ledger) outcome" where
  "process_single_payment_no_auth e sender recipient tok amount platform_treasury fee_bps fee_cap s =
     (let s0 = emit ''payment_initiated'' [AddrArg sender, IntArg amount] s in
      if sender = recipient then Err InvalidRecipient
      else if is_blacklisted s0 recipient then Err Blacklisted
      else
        let max_amount = unwrap_or MAX_AMOUNT (iMaxAmount s0) in
        if amount \<le> 0 \<or> amount > max_amount then Err LimitExceeded
        else
          let min_limit = unwrap_or 0 (iMinLimit s0) in
          if amount < min_limit then Err LimitExceeded
          else
            bnd (verify_kyc_for_amount e sender amount s0) (\<lambda>_.
            bnd (accrue_user_record e sender amount s0) (\<lambda>(user_volume, s1).
            let effective_bps = (if user_volume > VOLUME_THRESHOLD then fee_bps sdiv 2 else fee_bps);
                router = self e in
            bnd (balance_of e tok sender (world s1)) (\<lambda>b.
            if b < amount then Err InsufficientBalance
            else bnd (unwrap (tok_allowance e tok sender router (world s1))) (\<lambda>allowed.
            if allowed < amount then Err InsufficientBalance
            else bnd (meta_fee amount effective_bps fee_cap) (\<lambda>(fee_amount, remainder).
            let send = tok_transfer_from e tok router sender in
            bnd (pay_fee send platform_treasury fee_amount s1) (\<lambda>s2.
            bnd (pay_remainder send router sender recipient tok remainder s2) (\<lambda>s3.
            Ok (emit ''routed'' [AddrArg sender, AddrArg recipient, IntArg amount] s3)))))))))"

section \<open>Entry points\<close>

definition route_payment ::
    "'w renv \<Rightarrow> address \<Rightarrow> address \<Rightarrow> address \<Rightarrow> int \<Rightarrow> 'w ledger \<Rightarrow> ('w, unit) res" where
  "route_payment e sender recipient tok amount = with_guard (\<lambda>s.
     if is_frozen_internal s then Err ContractFrozen
     else if is_paused_internal s then Err Paused
     else
       let max_amount = unwrap_or MAX_AMOUNT (iMaxAmount s);
           min_limit = unwrap_or 0 (iMinLimit s) in
       if sender = recipient then Err InvalidRecipient
       else if is_blacklisted s recipient then Err Blacklisted
       else if amount \<le> 0 \<or> amount > max_amount then Err LimitExceeded
       else if amount < min_limit then Err LimitExceeded
       else
         bnd (verify_kyc_for_amount e sender amount s) (\<lambda>_.
         bnd (require_auth e sender) (\<lambda>_.
         bnd (check_rate_limit e sender s) (\<lambda>s1.
         bnd (load_fee_config s1) (\<lambda>(platform_treasury, fee_bps, fee_cap).
         bnd (process_single_payment e sender recipient tok amount platform_treasury fee_bps fee_cap s1)
           (\<lambda>s2. Ok ((), bump_heartbeat e s2)))))))"

text \<open>The validation loop of \<open>route_payments\<close>; \<open>seen\<close> are the senders already asked.\<close>

fun validate_payments ::
    "'w renv \<Rightarrow> address list \<Rightarrow> Payment list \<Rightarrow> 'w ledger \<Rightarrow> (error, 'w ledger) outcome" where
  "validate_payments e seen [] s = Ok s"
| "validate_payments e seen (p # ps) s =
     (let max_amount = unwrap_or MAX_AMOUNT (iMaxAmount s);
          min_limit = unwrap_or 0 (iMinLimit s) in
      if p_sender p = p_recipient p then Err InvalidRecipient
      else if is_blacklisted s (p_recipient p) then Err Blacklisted
      else if p_amount p \<le> 0 \<or> p_amount p > max_amount then Err LimitExceeded
      else if p_amount p < min_limit then Err LimitExceeded
      else
        bnd (verify_kyc_for_amount e (p_sender p) (p_amount p) s) (\<lambda>_.
        bnd (check_rate_limit e (p_sender p) s) (\<lambda>s1.
        if p_sender p \<in> set seen then validate_payments e seen ps s1
        else bnd (require_auth e (p_sender p)) (\<lambda>_.
          validate_payments e (seen @ [p_sender p]) ps s1))))"

fun process_payments ::
    "'w renv \<Rightarrow> address \<Rightarrow> int \<Rightarrow> int \<Rightarrow> Payment list \<Rightarrow> 'w ledger \<Rightarrow> (error, 'w ledger) outcome" where
  "process_payments e platform_treasury fee_bps fee_cap [] s = Ok s"
| "process_payments e platform_treasury fee_bps fee_cap (p # ps) s =
     bnd (process_single_payment e (p_sender p) (p_recipient p) (p_token p) (p_amount p)
       platform_treasury fee_bps fee_cap s) (\<lambda>s1.
     process_payments e platform_treasury fee_bps fee_cap ps s1)"

definition route_payments :: "'w renv \<Rightarrow> Payment list \<Rightarrow> 'w ledger \<Rightarrow> ('w, unit) res" where
  "route_payments e payments = with_guard (\<lambda>s.
     if is_frozen_internal s then Err ContractFrozen
     else
       bnd (require_not_fully_halted s) (\<lambda>_.
       bnd (validate_payments e [] payments s) (\<lambda>s1.
       bnd (load_fee_config s1) (\<lambda>(platform_treasury, fee_bps, fee_cap).
       bnd (process_payments e platform_treasury fee_bps fee_cap payments (bump_heartbeat e s1)) (\<lambda>s2.
       Ok ((), bump_heartbeat e s2))))))"

section \<open>What a settlement moves\<close>

lemma credit_refund_eq [outcome_simps]:
  "(credit_refund_balance u t a s = Ok s') =
     (i128_ok (get_refund_balance s u t + a)
      \<and> s' = emit ''refunded'' [AddrArg u, AddrArg t, IntArg a]
          (s\<lparr>pRefundBalance := (pRefundBalance s)((u, t) \<mapsto> get_refund_balance s u t + a)\<rparr>))"
  by (auto simp: credit_refund_balance_def i128_add_def)

text \<open>
  The two ways a payment of \<open>fee + rest\<close> can end: delivered, or refunded because the
  recipient could not receive the rest.
\<close>

definition settled ::
    "(address \<Rightarrow> address \<Rightarrow> 'w \<Rightarrow> int option) \<Rightarrow> address \<Rightarrow> address \<Rightarrow> address \<Rightarrow> address \<Rightarrow> address
       \<Rightarrow> int \<Rightarrow> int \<Rightarrow> 'w ledger \<Rightarrow> 'w ledger \<Rightarrow> bool" where
  "settled bal tok sender recipient router treasury fee rest s s' \<longleftrightarrow>
     (\<exists>target refund.
        (target = recipient \<and> refund = 0 \<or> target = router \<and> refund = rest \<and> 0 < rest)
      \<and> (\<forall>t x. holding bal t x (world s') = holding bal t x (world s)
            + flow tok sender treasury fee t x + flow tok sender target rest t x)
      \<and> (\<forall>u t. get_refund_balance s' u t =
            get_refund_balance s u t + (if u = sender \<and> t = tok then refund else 0)))"


context token_contract
begin

lemma pay_fee_effect:
  assumes "pay_fee (xfer tok sender) treasury fee s = Ok s'" "0 \<le> fee"
  shows "\<exists>w. s' = s\<lparr>world := w\<rparr>
    \<and> (\<forall>t x. holding bal t x w = holding bal t x (world s) + flow tok sender treasury fee t x)"
proof (cases "fee = 0")
  case True
  with assms have "s' = s" by (simp add: pay_fee_def)
  with True show ?thesis by (intro exI [of _ "world s"]) simp
next
  case False
  then obtain w where "xfer tok sender treasury fee (world s) = Done w" "s' = s\<lparr>world := w\<rparr>"
    using assms xfer_unit [of tok sender treasury fee "world s"]
    by (cases "xfer tok sender treasury fee (world s)") (auto simp: pay_fee_def)
  then show ?thesis by (auto simp: xfer_holding)
qed

lemma pay_remainder_effect:
  assumes "pay_remainder (xfer tok sender) router sender recipient tok rest s = Ok s'" "0 \<le> rest"
  shows "\<exists>target refund.
      (target = recipient \<and> refund = 0 \<or> target = router \<and> refund = rest \<and> 0 < rest)
    \<and> (\<forall>t x. holding bal t x (world s') = holding bal t x (world s) + flow tok sender target rest t x)
    \<and> (\<forall>u t. get_refund_balance s' u t =
          get_refund_balance s u t + (if u = sender \<and> t = tok then refund else 0))"
proof (cases "rest = 0")
  case True
  with assms show ?thesis by (intro exI [of _ recipient] exI [of _ 0]) (auto simp: pay_remainder_def)
next
  case False
  show ?thesis
  proof (cases "xfer tok sender recipient rest (world s)")
    case (Done w)
    with assms False have "s' = s\<lparr>world := w\<rparr>" by (simp add: pay_remainder_def)
    with Done show ?thesis
      by (intro exI [of _ recipient] exI [of _ 0]) (simp add: xfer_holding get_refund_balance_def)
  next
    case (BadReturn w)
    with xfer_unit show ?thesis by simp
  next
    case Failed
    with assms False obtain w where w: "xfer tok sender router rest (world s) = Done w"
      and c: "credit_refund_balance sender tok rest (s\<lparr>world := w\<rparr>) = Ok s'"
      by (cases "xfer tok sender router rest (world s)") (simp_all add: pay_remainder_def)
    from c w False assms(2) show ?thesis
      by (intro exI [of _ router] exI [of _ rest])
        (auto simp: credit_refund_eq xfer_holding get_refund_balance_def)
  qed
qed

lemma settle_effect:
  assumes "pay_fee (xfer tok sender) treasury fee s = Ok s1"
    and "pay_remainder (xfer tok sender) router sender recipient tok rest s1 = Ok s2"
    and "0 \<le> fee" "0 \<le> rest"
  shows "settled bal tok sender recipient router treasury fee rest s s2"
proof -
  obtain w where w: "s1 = s\<lparr>world := w\<rparr>"
    "\<And>t x. holding bal t x w = holding bal t x (world s) + flow tok sender treasury fee t x"
    using pay_fee_effect [OF assms(1,3)] by auto
  show ?thesis
    using pay_remainder_effect [OF assms(2,4)] w
    by (auto simp: settled_def get_refund_balance_def)
qed

end

lemma settled_cong:
  "world s' = world s \<Longrightarrow> pRefundBalance s' = pRefundBalance s \<Longrightarrow> world t' = world t \<Longrightarrow>
   pRefundBalance t' = pRefundBalance t \<Longrightarrow>
   settled bal tok a b r tr fee rest s' t' = settled bal tok a b r tr fee rest s t"
  by (simp add: settled_def get_refund_balance_def)

lemma accrue_frame:
  assumes "accrue_user_record e a k s = Ok (v, s')"
  shows "v = get_user_volume e a s"
    and "s' = s\<lparr>pUserRecord := pUserRecord s', pUserSpending := pUserSpending s',
                pUserVolume := pUserVolume s'\<rparr>"
proof -
  obtain t acc vol flags lf where ld: "load_user_record s a (now e) = (t, acc, vol, flags, lf)"
    by (metis prod_cases5)
  obtain t' acc' vol' where s': "v = vol"
    "s' = (if lf then drop_legacy a (put_user_record a t' acc' vol' flags s)
           else put_user_record a t' acc' vol' flags s)"
    using assms by (auto simp: accrue_user_record_def ld bnd_eq_Ok Let_def i128_checked_add_def
        split: if_split_asm)
  then show "v = get_user_volume e a s"
    by (simp add: get_user_volume_def get_user_record_def ld)
  show "s' = s\<lparr>pUserRecord := pUserRecord s', pUserSpending := pUserSpending s',
                pUserVolume := pUserVolume s'\<rparr>"
    by (simp add: s'(2) put_user_record_def drop_legacy_def)
qed

lemma i128_clamp_nonneg: "0 \<le> x \<Longrightarrow> 0 \<le> i128_clamp x"
  by (simp add: i128_clamp_def)

lemma clip_fee_bounds:
  "0 \<le> p \<Longrightarrow> 0 \<le> cap \<Longrightarrow> 0 \<le> a \<Longrightarrow> 0 \<le> clip_fee p cap a \<and> clip_fee p cap a \<le> a \<and> clip_fee p cap a \<le> cap"
  by (simp add: clip_fee_def Let_def)

lemma direct_fee_bounds:
  assumes "direct_fee a bps cap = Ok (fee, rest)" "0 \<le> a" "0 \<le> bps" "0 \<le> cap"
  shows "0 \<le> fee" "fee \<le> cap" "0 \<le> rest" "fee + rest = a"
proof -
  have "0 \<le> i128_saturating_mul a bps sdiv BPS_DIVISOR"
    using assms by (intro sdiv_pos_le [THEN conjunct1])
      (simp_all add: i128_saturating_mul_def i128_clamp_nonneg BPS_DIVISOR_def)
  from clip_fee_bounds [OF this assms(4,2)] assms(1)
  show "0 \<le> fee" "fee \<le> cap" "0 \<le> rest" "fee + rest = a"
    by (auto simp: direct_fee_def outcome_simps Let_def i128_sub_def split: if_splits)
qed

lemma meta_fee_bounds:
  assumes "meta_fee a bps cap = Ok (fee, rest)" "0 \<le> a" "0 \<le> bps" "0 \<le> cap"
  shows "0 \<le> fee" "fee \<le> cap" "0 \<le> rest" "fee + rest = a"
proof -
  have "0 \<le> unwrap_or a (i128_checked_mul a bps) sdiv BPS_DIVISOR"
    using assms by (intro sdiv_pos_le [THEN conjunct1])
      (simp_all add: i128_checked_mul_def unwrap_or_def BPS_DIVISOR_def)
  from clip_fee_bounds [OF this assms(4,2)] assms(1)
  show "0 \<le> fee" "fee \<le> cap" "0 \<le> rest" "fee + rest = a"
    by (auto simp: meta_fee_def outcome_simps Let_def i128_sub_def split: if_splits)
qed

lemma half_rate: "0 \<le> bps \<Longrightarrow> 0 \<le> effective_fee_bps v bps \<and> effective_fee_bps v bps \<le> bps"
  using sdiv_pos_le [of bps 2] by (simp add: effective_fee_bps_def)

lemma process_single_payment_steps:
  "process_single_payment e sender recipient tok amount tr bps cap s = Ok s' \<longleftrightarrow>
   (\<exists>v s1 b fee rest s2 s3.
      accrue_user_record e sender amount (emit ''payment_initiated'' [AddrArg sender, IntArg amount] s)
        = Ok (v, s1)
    \<and> tok_balance e tok sender (world s1) = Some b \<and> amount \<le> b
    \<and> direct_fee amount (effective_fee_bps v bps) cap = Ok (fee, rest)
    \<and> pay_fee (tok_transfer e tok sender) tr fee s1 = Ok s2
    \<and> pay_remainder (tok_transfer e tok sender) (self e) sender recipient tok rest s2 = Ok s3
    \<and> s' = emit ''routed'' [AddrArg sender, AddrArg recipient, IntArg amount] s3)"
  unfolding process_single_payment_def Let_def effective_fee_bps_def [symmetric]
  by (auto simp: outcome_simps not_less simp del: emit_def)

section \<open>Admission\<close>

definition admissible :: "'w renv \<Rightarrow> Payment \<Rightarrow> 'w ledger \<Rightarrow> bool" where
  "admissible e p s \<longleftrightarrow>
     p_sender p \<noteq> p_recipient p \<and> \<not> is_blacklisted s (p_recipient p)
   \<and> 0 < p_amount p \<and> p_amount p \<le> unwrap_or MAX_AMOUNT (iMaxAmount s)
   \<and> unwrap_or 0 (iMinLimit s) \<le> p_amount p
   \<and> verify_kyc_for_amount e (p_sender p) (p_amount p) s = Ok () \<and> auth e (p_sender p)"

definition gate_open :: "'w ledger \<Rightarrow> bool" where
  "gate_open s \<longleftrightarrow> \<not> unwrap_or False (xReentrancyGuard s) \<and> \<not> is_frozen_internal s
     \<and> get_pause_level s \<noteq> FullHalt"

fun charge_all :: "'w renv \<Rightarrow> Payment list \<Rightarrow> 'w ledger \<Rightarrow> (error, 'w ledger) outcome" where
  "charge_all e [] s = Ok s"
| "charge_all e (p # ps) s = bnd (check_rate_limit e (p_sender p) s) (charge_all e ps)"

lemma admissible_cong:
  "pBlacklist s' = pBlacklist s \<Longrightarrow> iMaxAmount s' = iMaxAmount s \<Longrightarrow> iMinLimit s' = iMinLimit s \<Longrightarrow>
   iKycThreshold s' = iKycThreshold s \<Longrightarrow> iKycOracle s' = iKycOracle s \<Longrightarrow>
   (\<And>orc a. kyc_is_verified e orc a (world s') = kyc_is_verified e orc a (world s)) \<Longrightarrow>
   admissible e p s' = admissible e p s"
  by (simp add: admissible_def is_blacklisted_def verify_kyc_for_amount_def
      cong: option.case_cong if_cong)

lemma check_rate_shape:
  "check_rate_limit e a s = Ok s1 \<Longrightarrow> s1 = s\<lparr>pRateLimitCounter := pRateLimitCounter s1\<rparr>"
  by (auto simp: check_rate_limit_def bnd_eq_Ok Let_def split: if_split_asm)

lemma admissible_rate [simp]: "admissible e p (s\<lparr>pRateLimitCounter := c\<rparr>) = admissible e p s"
  by (rule admissible_cong) simp_all

lemma admissible_guard [simp]: "admissible e p (s\<lparr>xReentrancyGuard := c\<rparr>) = admissible e p s"
  by (rule admissible_cong) simp_all

lemma validate_payments_eq:
  "(\<forall>a\<in>set seen. auth e a) \<Longrightarrow>
     validate_payments e seen ps s = Ok s1 \<longleftrightarrow>
       (\<forall>p\<in>set ps. admissible e p s) \<and> charge_all e ps s = Ok s1"
proof (induction ps arbitrary: seen s)
  case Nil
  then show ?case by simp
next
  case (Cons p ps)
  have IH: "validate_payments e seen' ps t = Ok s1 \<longleftrightarrow>
      (\<forall>q\<in>set ps. admissible e q s) \<and> charge_all e ps t = Ok s1"
    if "\<forall>a\<in>set seen'. auth e a" "check_rate_limit e (p_sender p) s = Ok t" for seen' t
  proof -
    have "admissible e q t = admissible e q s" for q
      by (subst check_rate_shape [OF that(2)]) simp
    with Cons.IH [OF that(1)] show ?thesis by simp
  qed
  show ?case
    using Cons.prems IH
    by (auto simp: admissible_def [of e p] bnd_eq_Ok require_auth_eq Let_def split: if_splits)
qed

lemma route_payments_eq:
  "route_payments e ps s = Ok ((), s') \<longleftrightarrow> gate_open s \<and>
     (\<forall>p\<in>set ps. admissible e p s) \<and>
     (\<exists>s1 tr bps cap s2. charge_all e ps (s\<lparr>xReentrancyGuard := Some True\<rparr>) = Ok s1
       \<and> load_fee_config s1 = Ok (tr, bps, cap)
       \<and> process_payments e tr bps cap ps (bump_heartbeat e s1) = Ok s2
       \<and> s' = (bump_heartbeat e s2)\<lparr>xReentrancyGuard := Some False\<rparr>)"
proof -
  let ?l = "s\<lparr>xReentrancyGuard := Some True\<rparr>"
  have g: "is_frozen_internal ?l = is_frozen_internal s" "get_pause_level ?l = get_pause_level s"
    by (simp_all add: is_frozen_internal_def get_pause_level_def split: option.splits)
  show ?thesis
    by (auto simp: route_payments_def with_guard_def gate_open_def g validate_payments_eq bnd_eq_Ok
        require_not_fully_halted_eq split: if_splits)
qed

text \<open>A single payment is admitted and settled like a batch of one.\<close>

lemma route_payment_eq:
  "route_payment e a b tok k s = Ok ((), s') \<longleftrightarrow> gate_open s \<and>
     admissible e \<lparr>p_sender = a, p_recipient = b, p_token = tok, p_amount = k\<rparr> s \<and>
     (\<exists>s1 tr bps cap s2. check_rate_limit e a (s\<lparr>xReentrancyGuard := Some True\<rparr>) = Ok s1
       \<and> load_fee_config s1 = Ok (tr, bps, cap)
       \<and> process_single_payment e a b tok k tr bps cap s1 = Ok s2
       \<and> s' = (bump_heartbeat e s2)\<lparr>xReentrancyGuard := Some False\<rparr>)"
proof -
  let ?l = "s\<lparr>xReentrancyGuard := Some True\<rparr>"
  have g: "is_frozen_internal ?l = is_frozen_internal s" "get_pause_level ?l = get_pause_level s"
    by (simp_all add: is_frozen_internal_def get_pause_level_def split: option.splits)
  have adm: "admissible e \<lparr>p_sender = a, p_recipient = b, p_token = tok, p_amount = k\<rparr> s \<longleftrightarrow>
      a \<noteq> b \<and> \<not> is_blacklisted ?l b \<and> 0 < k \<and> k \<le> unwrap_or MAX_AMOUNT (iMaxAmount s)
    \<and> unwrap_or 0 (iMinLimit s) \<le> k \<and> verify_kyc_for_amount e a k ?l = Ok () \<and> auth e a"
    using admissible_guard [of e "\<lparr>p_sender = a, p_recipient = b, p_token = tok, p_amount = k\<rparr>" "Some True" s]
    by (simp add: admissible_def)
  show ?thesis
    unfolding adm route_payment_def with_guard_def gate_open_def
    by (auto simp: g bnd_eq_Ok require_auth_eq is_paused_internal_def Let_def split: if_splits)
qed

section \<open>Funds of a payment\<close>

lemma bump_frame [simp]:
  "world (bump_heartbeat e s) = world s" "pRefundBalance (bump_heartbeat e s) = pRefundBalance s"
  "load_fee_config (bump_heartbeat e s) = load_fee_config s"
  by (simp_all add: bump_heartbeat_def load_fee_config_def)

lemma process_single_payment_settled:
  assumes "token_contract (tok_balance e) (tok_transfer e)"
    and "process_single_payment e sender recipient tok amount tr bps cap s = Ok s'"
    and "0 \<le> amount" "0 \<le> bps" "0 \<le> cap"
  shows "\<exists>fee rest. direct_fee amount (effective_fee_bps (get_user_volume e sender s) bps) cap = Ok (fee, rest)
    \<and> 0 \<le> fee \<and> fee \<le> cap \<and> 0 \<le> rest \<and> fee + rest = amount
    \<and> settled (tok_balance e) tok sender recipient (self e) tr fee rest s s'"
proof -
    obtain v s1 b fee rest s2 s3 where st:
      "accrue_user_record e sender amount (emit ''payment_initiated'' [AddrArg sender, IntArg amount] s)
         = Ok (v, s1)"
      "direct_fee amount (effective_fee_bps v bps) cap = Ok (fee, rest)"
      "pay_fee (tok_transfer e tok sender) tr fee s1 = Ok s2"
      "pay_remainder (tok_transfer e tok sender) (self e) sender recipient tok rest s2 = Ok s3"
      "s' = emit ''routed'' [AddrArg sender, AddrArg recipient, IntArg amount] s3"
      using assms(2) unfolding process_single_payment_steps by blast
    have v: "v = get_user_volume e sender s"
      using accrue_frame(1) [OF st(1)]
      by (simp add: get_user_volume_def get_user_record_def load_user_record_def split: option.splits)
    note fee = direct_fee_bounds [OF st(2) assms(3) half_rate [OF assms(4), THEN conjunct1] assms(5)]
    have "world s1 = world s" "pRefundBalance s1 = pRefundBalance s"
      by (subst accrue_frame(2) [OF st(1)], simp)+
    then have "settled (tok_balance e) tok sender recipient (self e) tr fee rest s s'"
      using token_contract.settle_effect [OF assms(1) st(3,4) fee(1,3)]
      by (subst settled_cong [of s s1 s' s3]) (simp_all add: st(5))
    with fee st(2) show ?thesis unfolding v by blast
qed

lemma route_payment_settled:
  assumes "token_contract (tok_balance e) (tok_transfer e)"
    and "route_payment e sender recipient tok amount s = Ok ((), s')"
    and "load_fee_config s = Ok (treasury, bps, cap)" "0 \<le> bps" "0 \<le> cap"
  shows "gate_open s
    \<and> admissible e \<lparr>p_sender = sender, p_recipient = recipient, p_token = tok, p_amount = amount\<rparr> s
    \<and> (\<exists>fee rest.
        direct_fee amount (effective_fee_bps (get_user_volume e sender s) bps) cap = Ok (fee, rest)
      \<and> 0 \<le> fee \<and> fee \<le> cap \<and> 0 \<le> rest \<and> fee + rest = amount
      \<and> settled (tok_balance e) tok sender recipient (self e) treasury fee rest s s')"
proof -
  obtain s1 tr' bps' cap' s2 where adm: "gate_open s"
    "admissible e \<lparr>p_sender = sender, p_recipient = recipient, p_token = tok, p_amount = amount\<rparr> s"
    and rate: "check_rate_limit e sender (s\<lparr>xReentrancyGuard := Some True\<rparr>) = Ok s1"
    and cfg: "load_fee_config s1 = Ok (tr', bps', cap')"
    and pay: "process_single_payment e sender recipient tok amount tr' bps' cap' s1 = Ok s2"
    and s': "s' = (bump_heartbeat e s2)\<lparr>xReentrancyGuard := Some False\<rparr>"
    using assms(2) unfolding route_payment_eq by blast
  have f: "load_fee_config s1 = load_fee_config s" "world s1 = world s"
    "pRefundBalance s1 = pRefundBalance s" "get_user_volume e sender s1 = get_user_volume e sender s"
    by (subst check_rate_shape [OF rate],
        simp add: load_fee_config_def get_user_volume_def get_user_record_def load_user_record_def
          split: option.split)+
  have eq: "tr' = treasury" "bps' = bps" "cap' = cap" using cfg assms(3) f(1) by simp_all
  have "0 \<le> amount" using adm(2) by (simp add: admissible_def)
  from process_single_payment_settled [OF assms(1) pay this] assms(4,5)
  obtain fee rest where x:
    "direct_fee amount (effective_fee_bps (get_user_volume e sender s1) bps) cap = Ok (fee, rest)"
    "0 \<le> fee" "fee \<le> cap" "0 \<le> rest" "fee + rest = amount"
    "settled (tok_balance e) tok sender recipient (self e) treasury fee rest s1 s2"
    unfolding eq by blast
  have "settled (tok_balance e) tok sender recipient (self e) treasury fee rest s s'"
    using x(6) by (subst settled_cong [of s s1 s' s2]) (simp_all add: f s')
  with adm x(1-5) show ?thesis unfolding f(4) by blast
qed


lemma sample_fee_config [simp]: "load_fee_config sample_ledger = Ok (2, 100, 500)"
  by (simp add: load_fee_config_def sample_ledger_def fresh_ledger_def)

lemma sample_payment_runs: "\<exists>s'. route_payment (sample_env 1000) 5 6 50 1000 sample_ledger = Ok ((), s')"
  by (simp add: route_payment_def with_guard_def is_frozen_internal_def is_paused_internal_def
      get_pause_level_def is_blacklisted_def verify_kyc_for_amount_def require_auth_def
      check_rate_limit_def rate_limit_raw_def is_whitelisted_def rate_limit_used_def
      load_fee_config_def process_single_payment_def accrue_user_record_def load_user_record_def
      put_user_record_def balance_of_def direct_fee_def clip_fee_def pay_fee_def pay_remainder_def
      s_transfer_def s_move_def flow_def sample_world_def arith_defs const_defs i128_ok_def
      u32_ok_def i128_clamp_def sdiv_nonneg Let_def sample_ledger_def fresh_ledger_def)


section \<open>Batches\<close>

text \<open>
  Settling a payment neither reads nor writes the rate counters, the heartbeat and the guard,
  so it commutes with changes of them (\<open>touch\<close>).
\<close>

definition touch :: "(address \<Rightarrow> bytes option) \<Rightarrow> nat option \<Rightarrow> bool option \<Rightarrow> 'w ledger \<Rightarrow> 'w ledger" where
  "touch c h g s = s\<lparr>pRateLimitCounter := c, iLastHeartbeat := h, xReentrancyGuard := g\<rparr>"

definition touched :: "(address \<Rightarrow> bytes option) \<Rightarrow> nat option \<Rightarrow> bool option
    \<Rightarrow> (error, 'w ledger) outcome \<Rightarrow> (error, 'w ledger) outcome" where
  "touched c h g m = bnd m (\<lambda>s. Ok (touch c h g s))"

lemma touch_fields [simp]:
  "world (touch c h g s) = world s" "pRefundBalance (touch c h g s) = pRefundBalance s"
  "events (touch c h g s) = events s" "pUserRecord (touch c h g s) = pUserRecord s"
  "pUserSpending (touch c h g s) = pUserSpending s" "pUserVolume (touch c h g s) = pUserVolume s"
  "get_refund_balance (touch c h g s) u t = get_refund_balance s u t"
  "load_user_record (touch c h g s) a k = load_user_record s a k"
  "(touch c h g s)\<lparr>world := w\<rparr> = touch c h g (s\<lparr>world := w\<rparr>)"
  "(touch c h g s)\<lparr>events := ev\<rparr> = touch c h g (s\<lparr>events := ev\<rparr>)"
  "put_user_record a t0 acc vol fl (touch c h g s) = touch c h g (put_user_record a t0 acc vol fl s)"
  "drop_legacy a (touch c h g s) = touch c h g (drop_legacy a s)"
  by (simp_all add: touch_def get_refund_balance_def load_user_record_def put_user_record_def
      drop_legacy_def split: option.split)

lemma touched_simps [simp]:
  "touched c h g (Ok s) = Ok (touch c h g s)" "touched c h g (Err x) = Err x" "touched c h g Trap = Trap"
  by (simp_all add: touched_def)

lemma touched_bnd: "touched c h g (bnd m f) = bnd m (\<lambda>x. touched c h g (f x))"
  by (simp add: touched_def bnd_assoc)

lemma bnd_touched: "bnd (touched c h g m) f = bnd m (\<lambda>s. f (touch c h g s))"
  by (simp add: touched_def bnd_assoc)

lemma credit_touch:
  "credit_refund_balance u t a (touch c h g s) = touched c h g (credit_refund_balance u t a s)"
  by (auto simp: credit_refund_balance_def i128_add_def touch_def get_refund_balance_def)

lemma pay_touch:
  "pay_fee send tr fee (touch c h g s) = touched c h g (pay_fee send tr fee s)"
  "pay_remainder send r a b tok rest (touch c h g s) =
     touched c h g (pay_remainder send r a b tok rest s)"
  by (auto simp: pay_fee_def pay_remainder_def credit_touch split: call.splits)

lemma accrue_touch:
  "accrue_user_record e a k (touch c h g s) =
     bnd (accrue_user_record e a k s) (\<lambda>(v, s'). Ok (v, touch c h g s'))"
proof -
  obtain t acc vol flags lf where ld: "load_user_record s a (now e) = (t, acc, vol, flags, lf)"
    by (metis prod_cases5)
  show ?thesis
    by (cases "u64_sub (now e) t :: (error, nat) outcome")
      (simp_all add: accrue_user_record_def ld Let_def i128_checked_add_def)
qed

lemma process_touch:
  "process_single_payment e a b tok k tr bps cap (touch c h g s) =
     touched c h g (process_single_payment e a b tok k tr bps cap s)"
  by (auto simp: process_single_payment_def accrue_touch pay_touch touched_bnd bnd_touched bnd_assoc
      Let_def intro!: bnd_cong split: prod.splits if_splits)

text \<open>A settlement writes the sender's records, the outside world, the refunds and the events only.\<close>

definition pay_part :: "'w ledger \<Rightarrow> 'w ledger \<Rightarrow> 'w ledger" where
  "pay_part s s' = s\<lparr>pUserRecord := pUserRecord s', pUserSpending := pUserSpending s',
     pUserVolume := pUserVolume s', world := world s', pRefundBalance := pRefundBalance s',
     events := events s'\<rparr>"

lemma pay_part_trans: "s1 = pay_part s s1 \<Longrightarrow> s2 = pay_part s1 s2 \<Longrightarrow> s2 = pay_part s s2"
proof -
  assume a: "s1 = pay_part s s1" "s2 = pay_part s1 s2"
  have "pay_part (pay_part s s1) s2 = pay_part s s2" by (simp add: pay_part_def)
  with a show "s2 = pay_part s s2" by metis
qed

lemma pay_part_steps:
  "pay_fee send tr fee s = Ok s' \<Longrightarrow> s' = pay_part s s'"
  "pay_remainder send r a b tok rest s = Ok s' \<Longrightarrow> s' = pay_part s s'"
  "accrue_user_record e a k s = Ok (v, s') \<Longrightarrow> s' = pay_part s s'"
  "emit x y s = pay_part s (emit x y s)"
proof -
  show "accrue_user_record e a k s = Ok (v, s') \<Longrightarrow> s' = pay_part s s'"
  proof -
    assume a: "accrue_user_record e a k s = Ok (v, s')"
    have "world s' = world s" "pRefundBalance s' = pRefundBalance s" "events s' = events s"
      by (subst accrue_frame(2) [OF a], simp)+
    then show ?thesis using accrue_frame(2) [OF a] by (simp add: pay_part_def)
  qed
qed (auto simp: pay_part_def pay_fee_def pay_remainder_def credit_refund_eq Let_def
    split: call.splits if_splits)

lemma process_frame:
  assumes "process_single_payment e a b tok k tr bps cap s = Ok s'"
  shows "s' = pay_part s s'"
proof -
  let ?s0 = "emit ''payment_initiated'' [AddrArg a, IntArg k] s"
  obtain v s1 s2 s3 fee rest where st:
    "accrue_user_record e a k ?s0 = Ok (v, s1)"
    "pay_fee (tok_transfer e tok a) tr fee s1 = Ok s2"
    "pay_remainder (tok_transfer e tok a) (self e) a b tok rest s2 = Ok s3"
    and s': "s' = emit ''routed'' [AddrArg a, AddrArg b, IntArg k] s3"
    using assms unfolding process_single_payment_steps by blast
  have "s1 = pay_part s s1"
    by (rule pay_part_trans [OF pay_part_steps(4) pay_part_steps(3) [OF st(1)]])
  from pay_part_trans [OF this pay_part_steps(1) [OF st(2)]]
  have "s3 = pay_part s s3" by (rule pay_part_trans [OF _ pay_part_steps(2) [OF st(3)]])
  from pay_part_trans [OF this pay_part_steps(4)] show ?thesis unfolding s' .
qed

lemma pay_part_fields:
  "load_fee_config (pay_part s t) = load_fee_config s"
  "xReentrancyGuard (pay_part s t) = xReentrancyGuard s"
  "pRateLimitCounter (pay_part s t) = pRateLimitCounter s"
  "iLastHeartbeat (pay_part s t) = iLastHeartbeat s" "iBackupAdmin (pay_part s t) = iBackupAdmin s"
  "iRateLimitConfig (pay_part s t) = iRateLimitConfig s"
  "pRateLimitWhitelist (pay_part s t) = pRateLimitWhitelist s"
  "gate_open (pay_part s t) = gate_open s"
  by (simp_all add: pay_part_def load_fee_config_def gate_open_def is_frozen_internal_def
      get_pause_level_def split: option.split)

lemma pay_part_admissible:
  assumes "\<And>orc a w w'. kyc_is_verified e orc a w = kyc_is_verified e orc a w'"
  shows "admissible e p (pay_part s t) = admissible e p s"
  by (rule admissible_cong) (simp_all add: pay_part_def assms [of _ _ "world t" "world s"])

lemma process_frame_fields:
  assumes "process_single_payment e a b tok k tr bps cap s = Ok s'"
  shows "load_fee_config s' = load_fee_config s" "xReentrancyGuard s' = xReentrancyGuard s"
    "pRateLimitCounter s' = pRateLimitCounter s" "iLastHeartbeat s' = iLastHeartbeat s"
    "iBackupAdmin s' = iBackupAdmin s" "iRateLimitConfig s' = iRateLimitConfig s"
    "pRateLimitWhitelist s' = pRateLimitWhitelist s" "gate_open s' = gate_open s"
  using process_frame [OF assms] pay_part_fields [of s s'] by metis+

text \<open>The counters after charging a batch; they depend on the three rate-limit fields only.\<close>

definition charges :: "'w renv \<Rightarrow> Payment list \<Rightarrow> 'w ledger \<Rightarrow> (error, address \<Rightarrow> bytes option) outcome" where
  "charges e ps s = bnd (charge_all e ps s) (\<lambda>s1. Ok (pRateLimitCounter s1))"

abbreviation same_rate :: "'w ledger \<Rightarrow> 'w ledger \<Rightarrow> bool" where
  "same_rate s s' \<equiv> iRateLimitConfig s' = iRateLimitConfig s
     \<and> pRateLimitWhitelist s' = pRateLimitWhitelist s \<and> pRateLimitCounter s' = pRateLimitCounter s"

definition charge_one :: "'w renv \<Rightarrow> address \<Rightarrow> 'w ledger \<Rightarrow> (error, address \<Rightarrow> bytes option) outcome" where
  "charge_one e a s = bnd (check_rate_limit e a s) (\<lambda>s1. Ok (pRateLimitCounter s1))"

lemma charge_one_check:
  "check_rate_limit e a s = bnd (charge_one e a s) (\<lambda>c. Ok (s\<lparr>pRateLimitCounter := c\<rparr>))"
  by (cases "check_rate_limit e a s") (auto simp: charge_one_def dest: check_rate_shape)

lemma charge_one_cong: "same_rate s s' \<Longrightarrow> charge_one e a s' = charge_one e a s"
proof -
  assume f: "same_rate s s'"
  then have "rate_limit_used e a s' = rate_limit_used e a s" "rate_limit_raw s' = rate_limit_raw s"
    "is_whitelisted s' a = is_whitelisted s a"
    by (simp_all add: rate_limit_used_def rate_limit_raw_def is_whitelisted_def)
  then show ?thesis using f
    by (simp add: charge_one_def check_rate_limit_def u32_add_def Let_def)
qed

lemma charges_rec:
  "charges e [] s = Ok (pRateLimitCounter s)"
  "charges e (p # ps) s = bnd (charge_one e (p_sender p) s) (\<lambda>c. charges e ps (s\<lparr>pRateLimitCounter := c\<rparr>))"
  by (simp_all add: charges_def charge_one_check bnd_assoc)

lemma charges_cong: "same_rate s s' \<Longrightarrow> charges e ps s' = charges e ps s"
proof (induction ps arbitrary: s s')
  case (Cons p ps)
  have "charges e ps (s'\<lparr>pRateLimitCounter := c\<rparr>) = charges e ps (s\<lparr>pRateLimitCounter := c\<rparr>)" for c
    by (rule Cons.IH) (use Cons.prems in simp)
  then show ?case using charge_one_cong [OF Cons.prems] by (simp add: charges_rec)
qed (simp add: charges_rec)

lemma charge_all_charges:
  "charge_all e ps s = bnd (charges e ps s) (\<lambda>c. Ok (s\<lparr>pRateLimitCounter := c\<rparr>))"
proof (induction ps arbitrary: s)
  case (Cons p ps)
  then show ?case by (simp add: charges_rec charge_one_check bnd_assoc)
qed (simp add: charges_rec)

definition heartbeat_after :: "'w renv \<Rightarrow> 'w ledger \<Rightarrow> nat option" where
  "heartbeat_after e s = (if iBackupAdmin s \<noteq> None then Some (now e) else iLastHeartbeat s)"

lemma bump_touch:
  "bump_heartbeat e s = touch (pRateLimitCounter s) (heartbeat_after e s) (xReentrancyGuard s) s"
  by (simp add: bump_heartbeat_def heartbeat_after_def touch_def)

lemma touch_config [simp]:
  "load_fee_config (touch c h g s) = load_fee_config s"
  "iBackupAdmin (touch c h g s) = iBackupAdmin s" "iLastHeartbeat (touch c h g s) = h"
  "xReentrancyGuard (touch c h g s) = g" "pRateLimitCounter (touch c h g s) = c"
  "iRateLimitConfig (touch c h g s) = iRateLimitConfig s"
  "pRateLimitWhitelist (touch c h g s) = pRateLimitWhitelist s"
  "touch c h g (touch c' h' g' s) = touch c h g s"
  by (simp_all add: touch_def load_fee_config_def)

lemma touch_gates [simp]:
  "admissible e p (touch c h g s) = admissible e p s"
  "gate_open s \<Longrightarrow> gate_open (touch c h (Some False) s)"
proof -
  show "admissible e p (touch c h g s) = admissible e p s"
    by (rule admissible_cong) (simp_all add: touch_def)
  show "gate_open s \<Longrightarrow> gate_open (touch c h (Some False) s)"
    by (auto simp: touch_def gate_open_def is_frozen_internal_def get_pause_level_def
        split: option.splits)
qed

lemma process_payments_touch:
  "process_payments e tr bps cap ps (touch c h g s) = touched c h g (process_payments e tr bps cap ps s)"
  by (induction ps arbitrary: s) (simp_all add: process_touch touched_bnd bnd_touched)

lemma process_payments_frame:
  "process_payments e tr bps cap ps s = Ok s' \<Longrightarrow> iBackupAdmin s' = iBackupAdmin s"
  by (induction ps arbitrary: s) (auto simp: bnd_eq_Ok process_frame_fields)

text \<open>Normal forms of the two entry points: what is admitted, charged, settled and recorded.\<close>

lemma locked_bump:
  "bump_heartbeat e (s\<lparr>xReentrancyGuard := Some True, pRateLimitCounter := c\<rparr>) =
     touch c (heartbeat_after e s) (Some True) s"
  by (simp add: bump_touch heartbeat_after_def) (simp add: touch_def)

lemma unlock_bump:
  "iBackupAdmin v = iBackupAdmin s \<Longrightarrow>
   (bump_heartbeat e (touch c (heartbeat_after e s) g v))\<lparr>xReentrancyGuard := Some False\<rparr> =
     touch c (heartbeat_after e s) (Some False) v"
  by (simp add: bump_touch) (simp add: touch_def heartbeat_after_def)

lemma charges_locked: "charges e ps (s\<lparr>xReentrancyGuard := g\<rparr>) = charges e ps s"
  "charge_one e a (s\<lparr>xReentrancyGuard := g\<rparr>) = charge_one e a s"
  by (rule charges_cong, simp) (rule charge_one_cong, simp)

lemma load_fee_config_locked:
  "load_fee_config (s\<lparr>xReentrancyGuard := g, pRateLimitCounter := c\<rparr>) = load_fee_config s"
  by (simp add: load_fee_config_def)

lemma route_payments_normal:
  "route_payments e ps s = Ok ((), s') \<longleftrightarrow> gate_open s \<and> (\<forall>p\<in>set ps. admissible e p s) \<and>
     (\<exists>c tr bps cap v. charges e ps s = Ok c \<and> load_fee_config s = Ok (tr, bps, cap)
       \<and> process_payments e tr bps cap ps s = Ok v
       \<and> s' = touch c (heartbeat_after e s) (Some False) v)"
proof -
  have fin: "(process_payments e tr bps cap ps s = Ok v \<and>
      s' = (bump_heartbeat e (touch c (heartbeat_after e s) g v))\<lparr>xReentrancyGuard := Some False\<rparr>)
    \<longleftrightarrow> (process_payments e tr bps cap ps s = Ok v \<and> s' = touch c (heartbeat_after e s) (Some False) v)"
    for tr bps cap v c g
    using process_payments_frame [of e tr bps cap ps s v] unlock_bump [of v s e c g] by auto
  show ?thesis
    unfolding route_payments_eq charge_all_charges charges_locked
    by (auto simp: bnd_eq_Ok load_fee_config_locked locked_bump process_payments_touch touched_def)
      (metis fin)+
qed

lemma route_payment_normal:
  "route_payment e a b tok k s = Ok ((), s') \<longleftrightarrow> gate_open s \<and>
     admissible e \<lparr>p_sender = a, p_recipient = b, p_token = tok, p_amount = k\<rparr> s \<and>
     (\<exists>c tr bps cap v. charge_one e a s = Ok c \<and> load_fee_config s = Ok (tr, bps, cap)
       \<and> process_single_payment e a b tok k tr bps cap s = Ok v
       \<and> s' = touch c (heartbeat_after e s) (Some False) v)"
proof -
  have lock: "s\<lparr>xReentrancyGuard := Some True, pRateLimitCounter := c\<rparr> =
      touch c (iLastHeartbeat s) (Some True) s" for c
    by (simp add: touch_def)
  have "(bump_heartbeat e (touch c (iLastHeartbeat s) g v))\<lparr>xReentrancyGuard := Some False\<rparr> =
      touch c (heartbeat_after e s) (Some False) v" if "iBackupAdmin v = iBackupAdmin s" for c g v
    using that by (simp add: bump_touch) (simp add: touch_def heartbeat_after_def)
  then have fin: "(process_single_payment e a b tok k tr bps cap s = Ok v \<and>
      s' = (bump_heartbeat e (touch c (iLastHeartbeat s) g v))\<lparr>xReentrancyGuard := Some False\<rparr>)
    \<longleftrightarrow> (process_single_payment e a b tok k tr bps cap s = Ok v
      \<and> s' = touch c (heartbeat_after e s) (Some False) v)" for tr bps cap v c g
    using process_frame_fields(5) [of e a b tok k tr bps cap s v] by auto
  show ?thesis
    unfolding route_payment_eq charge_one_check charges_locked
    by (auto simp: bnd_eq_Ok lock process_touch touched_def) (metis fin)+
qed

text \<open>Payments routed one by one.\<close>

fun route_each :: "'w renv \<Rightarrow> Payment list \<Rightarrow> 'w ledger \<Rightarrow> ('w, unit) res" where
  "route_each e [] s = Ok ((), s)"
| "route_each e (p # ps) s =
     bnd (route_payment e (p_sender p) (p_recipient p) (p_token p) (p_amount p) s) (\<lambda>(_, s1).
     route_each e ps s1)"

definition kyc_stable :: "'w renv \<Rightarrow> bool" where
  "kyc_stable e \<longleftrightarrow> (\<forall>orc a w w'. kyc_is_verified e orc a w = kyc_is_verified e orc a w')"

lemma route_payments_Nil_after:
  assumes "route_payment e a b tok k s = Ok ((), s')"
  shows "route_payments e [] s' = Ok ((), s')"
proof -
  obtain c tr bps cap v where v: "process_single_payment e a b tok k tr bps cap s = Ok v"
    "s' = touch c (heartbeat_after e s) (Some False) v" "gate_open s" "load_fee_config s = Ok (tr, bps, cap)"
    using assms unfolding route_payment_normal by blast
  note f = process_frame_fields [OF v(1)]
  have "gate_open s'" using v f by simp
  moreover have "heartbeat_after e s' = heartbeat_after e s"
    using v f by (simp add: heartbeat_after_def)
  moreover have "load_fee_config s' = Ok (tr, bps, cap)" using v f by simp
  ultimately show ?thesis
    unfolding route_payments_normal by (simp add: charges_rec v(2))
qed

lemma route_payments_Cons:
  assumes "kyc_stable e"
  shows "route_payments e (p # ps) s = Ok ((), s'') \<longleftrightarrow>
    (\<exists>s'. route_payment e (p_sender p) (p_recipient p) (p_token p) (p_amount p) s = Ok ((), s')
        \<and> route_payments e ps s' = Ok ((), s''))"
proof -
  let ?pay = "\<lambda>tr bps cap. process_single_payment e (p_sender p) (p_recipient p) (p_token p) (p_amount p) tr bps cap s"
  have nxt: "route_payments e ps (touch c (heartbeat_after e s) (Some False) v) = Ok ((), s'') \<longleftrightarrow>
      (\<forall>q\<in>set ps. admissible e q s) \<and>
      (\<exists>c' v'. charges e ps (s\<lparr>pRateLimitCounter := c\<rparr>) = Ok c' \<and> process_payments e tr bps cap ps v = Ok v'
        \<and> s'' = touch c' (heartbeat_after e s) (Some False) v')"
    if v: "?pay tr bps cap = Ok v" "gate_open s" "load_fee_config s = Ok (tr, bps, cap)" for tr bps cap v c
  proof -
    note f = process_frame_fields [OF v(1)]
    let ?t = "touch c (heartbeat_after e s) (Some False) v"
    have adm: "admissible e q ?t = admissible e q s" for q
      using pay_part_admissible [of e q s v] assms process_frame [OF v(1)]
      unfolding kyc_stable_def touch_gates(1) by metis
    have ch: "charges e ps ?t = charges e ps (s\<lparr>pRateLimitCounter := c\<rparr>)"
      by (rule charges_cong) (simp add: f)
    have hb: "heartbeat_after e ?t = heartbeat_after e s" using f by (simp add: heartbeat_after_def)
    have g: "gate_open ?t" "load_fee_config ?t = Ok (tr, bps, cap)" using v f by simp_all
    show ?thesis
      unfolding route_payments_normal adm ch hb g process_payments_touch
      by (auto simp: g touched_def bnd_eq_Ok)
  qed
  have p: "\<lparr>p_sender = p_sender p, p_recipient = p_recipient p, p_token = p_token p, p_amount = p_amount p\<rparr> = p"
    by simp
  show ?thesis
  proof
    assume "route_payments e (p # ps) s = Ok ((), s'')"
    then obtain c tr bps cap v c1 v1 where x: "gate_open s" "\<forall>q\<in>set (p # ps). admissible e q s"
      "charge_one e (p_sender p) s = Ok c1" "charges e ps (s\<lparr>pRateLimitCounter := c1\<rparr>) = Ok c"
      "load_fee_config s = Ok (tr, bps, cap)" "?pay tr bps cap = Ok v1"
      "process_payments e tr bps cap ps v1 = Ok v" "s'' = touch c (heartbeat_after e s) (Some False) v"
      unfolding route_payments_normal charges_rec process_payments.simps bnd_eq_Ok by blast
    let ?t = "touch c1 (heartbeat_after e s) (Some False) v1"
    have "route_payment e (p_sender p) (p_recipient p) (p_token p) (p_amount p) s = Ok ((), ?t)"
      unfolding route_payment_normal p using x by auto
    moreover have "route_payments e ps ?t = Ok ((), s'')"
      unfolding nxt [OF x(6,1,5)] using x by auto
    ultimately show "\<exists>s'. route_payment e (p_sender p) (p_recipient p) (p_token p) (p_amount p) s = Ok ((), s')
        \<and> route_payments e ps s' = Ok ((), s'')" by blast
  next
    assume "\<exists>s'. route_payment e (p_sender p) (p_recipient p) (p_token p) (p_amount p) s = Ok ((), s')
        \<and> route_payments e ps s' = Ok ((), s'')"
    then obtain c1 tr bps cap v1 where x: "gate_open s" "admissible e p s"
      "charge_one e (p_sender p) s = Ok c1" "load_fee_config s = Ok (tr, bps, cap)" "?pay tr bps cap = Ok v1"
      and r: "route_payments e ps (touch c1 (heartbeat_after e s) (Some False) v1) = Ok ((), s'')"
      unfolding route_payment_normal p by blast
    from r [unfolded nxt [OF x(5,1,4)]] x
    show "route_payments e (p # ps) s = Ok ((), s'')"
      unfolding route_payments_normal charges_rec process_payments.simps bnd_eq_Ok by auto
  qed
qed

text \<open>C8: A batch of payments is the same as its payments routed one by one in order: it succeeds
  exactly when they all do, with the same balances, refunds, spending records, rate counters and
  events (given that the KYC oracle's answers do not depend on the payments). A failing item makes
  the whole batch fail.\<close>

theorem batch_is_payments_in_order:
  assumes "\<forall>orc a w w'. kyc_is_verified e orc a w = kyc_is_verified e orc a w'"
  shows "route_payments e (p # ps) s = Ok ((), s') \<longleftrightarrow> route_each e (p # ps) s = Ok ((), s')"
proof (induction ps arbitrary: p s)
  case Nil
  have "kyc_stable e" using assms by (simp add: kyc_stable_def)
  moreover have "route_payments e [] t = Ok ((), s') \<longleftrightarrow> t = s'"
    if "route_payment e (p_sender p) (p_recipient p) (p_token p) (p_amount p) s = Ok ((), t)" for t
    using route_payments_Nil_after [OF that] by auto
  ultimately show ?case using route_payments_Cons [of e p "[]" s s'] by (auto simp: bnd_eq_Ok)
next
  case (Cons q qs)
  have "kyc_stable e" using assms by (simp add: kyc_stable_def)
  from route_payments_Cons [OF this, of p "q # qs"] Cons.IH show ?case by (auto simp: bnd_eq_Ok)
qed

theorem batch_is_payments_in_order_witness:
  "\<exists>s'. route_payments (sample_env 1000)
      [\<lparr>p_sender = 5, p_recipient = 6, p_token = 50, p_amount = 1000\<rparr>] sample_ledger = Ok ((), s')"
proof -
  have "\<exists>s'. route_each (sample_env 1000)
      [\<lparr>p_sender = 5, p_recipient = 6, p_token = 50, p_amount = 1000\<rparr>] sample_ledger = Ok ((), s')"
    using sample_payment_runs by auto
  with batch_is_payments_in_order [of "sample_env 1000"
      "\<lparr>p_sender = 5, p_recipient = 6, p_token = 50, p_amount = 1000\<rparr>" "[]" sample_ledger]
  show ?thesis by auto
qed

section \<open>Refunds\<close>

lemma withdraw_refund_eq:
  assumes "i128_ok (get_refund_balance s u tok)"
  shows "withdraw_refund e u tok k s = Ok ((), s') \<longleftrightarrow>
     auth e u \<and> 0 < k \<and> k \<le> get_refund_balance s u tok
   \<and> (\<exists>w. tok_transfer e tok (self e) u k (world s) = Done w
      \<and> s' = emit ''withdrawn'' [AddrArg u, AddrArg tok, IntArg k]
          (s\<lparr>pRefundBalance := (pRefundBalance s)((u, tok) :=
               (if get_refund_balance s u tok - k > 0 then Some (get_refund_balance s u tok - k) else None)),
             world := w\<rparr>))"
  using assms by (auto simp: withdraw_refund_def outcome_simps i128_sub_def i128_ok_def Let_def)

text \<open>Refunds: only the credited user can draw on a refund, never more than the balance, and
  the contract pays out exactly the amount by which that one balance shrinks; claiming everything
  pays the whole balance and leaves nothing to claim.\<close>

theorem refund_withdrawal:
  assumes "token_contract (tok_balance e) (tok_transfer e)" "i128_ok (get_refund_balance s u tok)"
  shows "(withdraw_refund e u tok k s = Ok ((), s') \<longrightarrow>
        auth e u \<and> 0 < k \<and> k \<le> get_refund_balance s u tok
      \<and> (\<forall>u' t'. get_refund_balance s' u' t' =
            get_refund_balance s u' t' - (if u' = u \<and> t' = tok then k else 0))
      \<and> (\<forall>t' x. holding (tok_balance e) t' x (world s') =
            holding (tok_balance e) t' x (world s) + flow tok (self e) u k t' x))
    \<and> (claim_all_refunds e u tok s = Ok (k, s') \<longrightarrow>
        k = get_refund_balance s u tok \<and> withdraw_refund e u tok k s = Ok ((), s')
      \<and> get_refund_balance s' u tok = 0 \<and> claim_all_refunds e u tok s' = Err NoRefundAvailable)"
proof -
  have one: "auth e u \<and> 0 < j \<and> j \<le> get_refund_balance s u tok
      \<and> (\<forall>u' t'. get_refund_balance t u' t' =
            get_refund_balance s u' t' - (if u' = u \<and> t' = tok then j else 0))
      \<and> (\<forall>t' x. holding (tok_balance e) t' x (world t) =
            holding (tok_balance e) t' x (world s) + flow tok (self e) u j t' x)"
    if run: "withdraw_refund e u tok j s = Ok ((), t)" for j t
  proof -
    obtain w where w: "auth e u" "0 < j" "j \<le> get_refund_balance s u tok"
      "tok_transfer e tok (self e) u j (world s) = Done w"
      "t = emit ''withdrawn'' [AddrArg u, AddrArg tok, IntArg j]
          (s\<lparr>pRefundBalance := (pRefundBalance s)((u, tok) :=
               (if get_refund_balance s u tok - j > 0 then Some (get_refund_balance s u tok - j) else None)),
             world := w\<rparr>)"
      using run unfolding withdraw_refund_eq [OF assms(2)] by blast
    then show ?thesis
      by (auto simp: get_refund_balance_def token_contract.xfer_holding [OF assms(1) w(4)])
  qed
  have all: "k = get_refund_balance s u tok \<and> withdraw_refund e u tok k s = Ok ((), s')"
    if "claim_all_refunds e u tok s = Ok (k, s')"
    using that by (auto simp: claim_all_refunds_def outcome_simps Let_def split: if_splits)
  have empty: "claim_all_refunds e u tok s' = Err NoRefundAvailable"
    if "get_refund_balance s' u tok = 0" "auth e u"
    using that by (simp add: claim_all_refunds_def require_auth_def)
  from one all empty show ?thesis by auto
qed

text \<open>A payment to an account that rejects it, and the sender's claim of the refund.\<close>

theorem refund_withdrawal_witness:
  "\<exists>s1 s2. route_payment (sample_env 1000) 5 13 50 1000 sample_ledger = Ok ((), s1)
     \<and> claim_all_refunds (sample_env 1000) 5 50 s1 = Ok (990, s2) \<and> get_refund_balance s2 5 50 = 0"
proof -
  let ?e = "sample_env 1000"
  have "\<exists>s1. route_payment ?e 5 13 50 1000 sample_ledger = Ok ((), s1)
      \<and> get_refund_balance s1 5 50 = 990 \<and> world s1 50 99 = 1000990"
    by (simp add: route_payment_def with_guard_def is_frozen_internal_def is_paused_internal_def
        get_pause_level_def is_blacklisted_def verify_kyc_for_amount_def require_auth_def
        check_rate_limit_def rate_limit_raw_def is_whitelisted_def rate_limit_used_def
        load_fee_config_def process_single_payment_def accrue_user_record_def load_user_record_def
        put_user_record_def balance_of_def direct_fee_def clip_fee_def pay_fee_def pay_remainder_def
        credit_refund_balance_def get_refund_balance_def bump_heartbeat_def
        s_transfer_def s_move_def flow_def sample_world_def arith_defs const_defs i128_ok_def
        u32_ok_def i128_clamp_def sdiv_nonneg Let_def sample_ledger_def fresh_ledger_def)
  then obtain s1 where s1: "route_payment ?e 5 13 50 1000 sample_ledger = Ok ((), s1)"
    "get_refund_balance s1 5 50 = 990" "world s1 50 99 = 1000990" by blast
  obtain s2 where s2: "claim_all_refunds ?e 5 50 s1 = Ok (990, s2)"
    using s1 by (auto simp: claim_all_refunds_def withdraw_refund_def require_auth_def outcome_simps
        i128_sub_def i128_ok_def s_transfer_def Let_def bnd_def transfer_def)
  have ok: "i128_ok (get_refund_balance s1 5 50)" using s1 by (simp add: i128_ok_def)
  from refund_withdrawal [OF sample_token ok, where k = 990 and s' = s2] s1 s2 show ?thesis by blast
qed

end
