(* ===== verification/Router_Swaps.thy ===== *)
theory Router_Swaps
  imports Router_Payments Router_Multisig
begin

text \<open>
  Swap-routed payments: \<open>process_single_swap_payment\<close>, \<open>route_payment_with_swap\<close>,
  \<open>route_payments_with_swap\<close>, \<open>route_multihop_swap\<close>, \<open>route_payment_with_swap_raw\<close>,
  \<open>quote_swap\<close> and the slippage configuration of \<open>payment_router/src/lib.rs\<close>, and the split
  routing of \<open>swaps.rs\<close>. The exchange adapter is a parameter about which nothing is assumed:
  the guarantees rest on the balances the router reads before and after the call.
\<close>

section \<open>Slippage configuration\<close>

definition max_slippage_bps :: "'w ledger \<Rightarrow> int" where
  "max_slippage_bps s = unwrap_or DEFAULT_MAX_SLIPPAGE_BPS (iMaxSlippageBps s)"

definition pair_max_slippage_bps :: "'w ledger \<Rightarrow> address \<Rightarrow> address \<Rightarrow> (error, int) outcome" where
  "pair_max_slippage_bps s tin tout =
     (case pPairSlippage s (tin, tout) of
        Some bps \<Rightarrow> if 0 \<le> bps \<and> bps \<le> MAX_PAIR_SLIPPAGE_BPS then Ok bps else Err InvalidSlippageConfig
      | None \<Rightarrow> Ok (max_slippage_bps s))"

definition is_dex_registered :: "'w ledger \<Rightarrow> address \<Rightarrow> bool" where
  "is_dex_registered s dex = unwrap_or False (pRegisteredDex s dex)"

definition slippage_floor :: "int \<Rightarrow> int \<Rightarrow> (error, int) outcome" where
  "slippage_floor expected max_bps =
     bnd (i128_mul expected max_bps) (\<lambda>prod.
     bnd (i128_sub expected (prod sdiv BPS_DIVISOR)) (\<lambda>flr.
     Ok (if flr < 1 then 1 else flr)))"

definition register_dex :: "'w renv \<Rightarrow> address \<Rightarrow> 'w ledger \<Rightarrow> ('w, unit) res" where
  "register_dex e dex s =
     bnd (admin_auth e s) (\<lambda>admin.
     Ok ((), emit ''dex_registered'' [AddrArg admin, AddrArg dex]
       (s\<lparr>pRegisteredDex := (pRegisteredDex s)(dex \<mapsto> True)\<rparr>)))"

definition deregister_dex :: "'w renv \<Rightarrow> address \<Rightarrow> 'w ledger \<Rightarrow> ('w, unit) res" where
  "deregister_dex e dex s =
     bnd (admin_auth e s) (\<lambda>admin.
     Ok ((), emit ''dex_deregistered'' [AddrArg admin, AddrArg dex]
       (s\<lparr>pRegisteredDex := (pRegisteredDex s)(dex := None)\<rparr>)))"

definition set_max_slippage_bps :: "'w renv \<Rightarrow> int \<Rightarrow> 'w ledger \<Rightarrow> ('w, unit) res" where
  "set_max_slippage_bps e max_bps s =
     bnd (admin_auth e s) (\<lambda>_.
     if \<not> (0 \<le> max_bps \<and> max_bps \<le> MAX_SLIPPAGE_BPS_LIMIT) then Err InvalidSwapParams
     else Ok ((), s\<lparr>iMaxSlippageBps := Some max_bps\<rparr>))"

definition set_pair_max_slippage_bps ::
    "'w renv \<Rightarrow> address \<Rightarrow> address \<Rightarrow> int \<Rightarrow> 'w ledger \<Rightarrow> ('w, unit) res" where
  "set_pair_max_slippage_bps e tin tout max_bps s =
     bnd (admin_auth e s) (\<lambda>_.
     if \<not> (0 \<le> max_bps \<and> max_bps \<le> MAX_PAIR_SLIPPAGE_BPS) then Err InvalidSlippageConfig
     else Ok ((), s\<lparr>pPairSlippage := (pPairSlippage s)((tin, tout) \<mapsto> max_bps)\<rparr>))"

text \<open>\<open>invoke_dex_swap\<close> and \<open>invoke_dex_quote\<close>: any failure of the adapter is \<open>SwapFailed\<close>.\<close>

definition invoke_dex_swap ::
    "'w renv \<Rightarrow> address \<Rightarrow> address \<Rightarrow> address \<Rightarrow> int \<Rightarrow> int \<Rightarrow> 'w \<Rightarrow> (error, (address \<times> int) \<times> 'w) outcome"
where
  "invoke_dex_swap e dex sell buy amount_in min_out w =
     ok_or SwapFailed (dex_swap e dex sell buy amount_in min_out (self e) w)"

definition invoke_dex_quote ::
    "'w renv \<Rightarrow> address \<Rightarrow> address \<Rightarrow> address \<Rightarrow> int \<Rightarrow> 'w \<Rightarrow> (error, int) outcome" where
  "invoke_dex_quote e dex sell buy amount_in w = ok_or SwapFailed (dex_quote e dex sell buy amount_in w)"

definition quote_swap ::
    "'w renv \<Rightarrow> address \<Rightarrow> address \<Rightarrow> address \<Rightarrow> int \<Rightarrow> 'w ledger \<Rightarrow> (error, SwapQuote) outcome" where
  "quote_swap e dex sell buy amount_in s =
     (if \<not> is_dex_registered s dex then Err DexNotRegistered
      else bnd (invoke_dex_quote e dex sell buy amount_in (world s)) (\<lambda>amount_out.
      if amount_out \<le> 0 then Err InvalidSwapParams
      else bnd (pair_max_slippage_bps s sell buy) (\<lambda>max_bps.
      bnd (slippage_floor amount_out max_bps) (\<lambda>flr.
      Ok \<lparr>sq_amount_out = amount_out, sq_min_amount_out = flr, sq_max_slippage_bps = max_bps\<rparr>))))"

section \<open>Paying out a swap\<close>

text \<open>The fee and the remainder of a swap leave the router; a rejected remainder is credited.\<close>

definition pay_out ::
    "'w renv \<Rightarrow> address \<Rightarrow> address \<Rightarrow> address \<Rightarrow> address \<Rightarrow> int \<Rightarrow> int \<Rightarrow> 'w ledger
       \<Rightarrow> (error, 'w ledger) outcome" where
  "pay_out e tok sender recipient platform_treasury fee_amount remainder s =
     bnd (if fee_amount > 0
          then bnd (transfer e tok (self e) platform_treasury fee_amount (world s)) (\<lambda>w.
            Ok (s\<lparr>world := w\<rparr>))
          else Ok s) (\<lambda>s1.
     if remainder > 0 then
       (case tok_transfer e tok (self e) recipient remainder (world s1) of
          Done w \<Rightarrow> Ok (s1\<lparr>world := w\<rparr>)
        | BadReturn w \<Rightarrow> credit_refund_balance sender tok remainder (s1\<lparr>world := w\<rparr>)
        | Failed \<Rightarrow> credit_refund_balance sender tok remainder s1)
     else Ok s1)"

section \<open>One swap-routed payment\<close>

text \<open>\<open>process_single_swap_payment\<close> up to the amount bounds, and from the records on.\<close>

definition check_swap :: "'w renv \<Rightarrow> SwapPayment \<Rightarrow> 'w ledger \<Rightarrow> (error, 'w ledger) outcome" where
  "check_swap e p s =
     bnd (require_auth e (sw_sender p)) (\<lambda>_.
     bnd (require_swaps_not_paused s) (\<lambda>_.
     if sell_token p = buy_token p then Err InvalidSwapParams
     else if min_amount_out p \<le> 0 then Err InvalidSwapParams
     else if sw_deadline p \<noteq> 0 \<and> now e > sw_deadline p then Err SwapDeadlineExpired
     else if \<not> is_dex_registered s (sw_dex p) then Err DexNotRegistered
     else
       let s0 = emit ''payment_initiated'' [AddrArg (sw_sender p), IntArg (sw_amount_in p)] s in
       if sw_sender p = sw_recipient p then Err InvalidRecipient
       else if is_blacklisted s0 (sw_recipient p) then Err Blacklisted
       else
         let max_amount = unwrap_or MAX_AMOUNT (iMaxAmount s0) in
         if sw_amount_in p \<le> 0 \<or> sw_amount_in p > max_amount then Err LimitExceeded
         else
           let min_limit = unwrap_or 0 (iMinLimit s0) in
           if sw_amount_in p < min_limit then Err LimitExceeded else Ok s0))"

text \<open>The two slippage guards on the amount the router received.\<close>

definition check_output :: "SwapPayment \<Rightarrow> int \<Rightarrow> 'w ledger \<Rightarrow> (error, unit) outcome" where
  "check_output p amount_out s =
     (if amount_out < min_amount_out p then Err SlippageExceeded
      else if expected_amount_out p > 0 then
        bnd (pair_max_slippage_bps s (sell_token p) (buy_token p)) (\<lambda>max_bps.
        bnd (slippage_floor (expected_amount_out p) max_bps) (\<lambda>flr.
        if amount_out < flr then Err SlippageExceeded else Ok ()))
      else Ok ())"

definition run_swap ::
    "'w renv \<Rightarrow> SwapPayment \<Rightarrow> address \<Rightarrow> int \<Rightarrow> int \<Rightarrow> 'w ledger \<Rightarrow> ('w, int) res" where
  "run_swap e p platform_treasury fee_bps fee_cap s0 =
     bnd (accrue_user_record e (sw_sender p) (sw_amount_in p) s0) (\<lambda>(user_volume, s1).
     let effective_bps = (if user_volume > VOLUME_THRESHOLD then fee_bps sdiv 2 else fee_bps);
         router = self e in
     bnd (balance_of e (sell_token p) (sw_sender p) (world s1)) (\<lambda>b.
     if b < sw_amount_in p then Err InsufficientBalance
     else
     bnd (balance_of e (buy_token p) router (world s1)) (\<lambda>buy_balance_before.
     bnd (transfer e (sell_token p) (sw_sender p) router (sw_amount_in p) (world s1)) (\<lambda>w1.
     bnd (transfer e (sell_token p) router (sw_dex p) (sw_amount_in p) w1) (\<lambda>w2.
     bnd (invoke_dex_swap e (sw_dex p) (sell_token p) (buy_token p) (sw_amount_in p)
            (min_amount_out p) w2) (\<lambda>((output_token, _), w3).
     if output_token \<noteq> buy_token p then Err AssetMismatch
     else
     bnd (balance_of e (buy_token p) router w3) (\<lambda>buy_balance_after.
     bnd (i128_sub buy_balance_after buy_balance_before) (\<lambda>amount_out.
     let s2 = s1\<lparr>world := w3\<rparr> in
     bnd (check_output p amount_out s2) (\<lambda>_.
     let s3 = emit ''swap_executed'' [AddrArg (sw_dex p), AddrArg (sell_token p), AddrArg (buy_token p),
                IntArg (sw_amount_in p), IntArg amount_out, IntArg (min_amount_out p)] s2 in
     bnd (calculate_fee amount_out effective_bps fee_cap) (\<lambda>(fee_amount, remainder).
     bnd (pay_out e (buy_token p) (sw_sender p) (sw_recipient p) platform_treasury fee_amount remainder s3)
       (\<lambda>s4. Ok (remainder,
         emit ''routed'' [AddrArg (sw_sender p), AddrArg (sw_recipient p), IntArg remainder] s4))))))))))))"

definition process_single_swap_payment ::
    "'w renv \<Rightarrow> SwapPayment \<Rightarrow> address \<Rightarrow> int \<Rightarrow> int \<Rightarrow> 'w ledger \<Rightarrow> ('w, int) res" where
  "process_single_swap_payment e p platform_treasury fee_bps fee_cap s =
     bnd (check_swap e p s) (run_swap e p platform_treasury fee_bps fee_cap)"

definition route_payment_with_swap :: "'w renv \<Rightarrow> SwapPayment \<Rightarrow> 'w ledger \<Rightarrow> ('w, int) res" where
  "route_payment_with_swap e p = with_guard (\<lambda>s.
     if is_frozen_internal s then Err ContractFrozen
     else
       bnd (require_swaps_not_paused s) (\<lambda>_.
       bnd (load_fee_config s) (\<lambda>(platform_treasury, fee_bps, fee_cap).
       process_single_swap_payment e p platform_treasury fee_bps fee_cap s)))"

fun swap_each ::
    "'w renv \<Rightarrow> address \<Rightarrow> int \<Rightarrow> int \<Rightarrow> SwapPayment list \<Rightarrow> int \<Rightarrow> 'w ledger \<Rightarrow> ('w, int) res" where
  "swap_each e platform_treasury fee_bps fee_cap [] acc s = Ok (acc, s)"
| "swap_each e platform_treasury fee_bps fee_cap (p # ps) acc s =
     bnd (process_single_swap_payment e p platform_treasury fee_bps fee_cap s) (\<lambda>(delivered, s1).
     bnd (i128_add acc delivered) (\<lambda>acc'.
     swap_each e platform_treasury fee_bps fee_cap ps acc' s1))"

definition route_payments_with_swap :: "'w renv \<Rightarrow> SwapPayment list \<Rightarrow> 'w ledger \<Rightarrow> ('w, int) res" where
  "route_payments_with_swap e payments = with_guard (\<lambda>s.
     if is_frozen_internal s then Err ContractFrozen
     else
       bnd (require_swaps_not_paused s) (\<lambda>_.
       bnd (load_fee_config s) (\<lambda>(platform_treasury, fee_bps, fee_cap).
       swap_each e platform_treasury fee_bps fee_cap payments 0 s)))"

section \<open>Split routing\<close>

fun check_splits :: "'w ledger \<Rightarrow> SplitRoute list \<Rightarrow> nat \<Rightarrow> (error, nat) outcome" where
  "check_splits s [] weight = Ok weight"
| "check_splits s (sp # sps) weight =
     (if weight_bps sp = 0 \<or> split_min_out sp \<le> 0 then Err InvalidSwapParams
      else if \<not> is_dex_registered s (dex_address sp) then Err DexNotRegistered
      else bnd (ok_or InvalidSwapParams (u32_checked_add weight (weight_bps sp))) (\<lambda>weight'.
        check_splits s sps weight'))"

text \<open>The share of one route; the last one takes what is left.\<close>

definition split_share :: "int \<Rightarrow> int \<Rightarrow> bool \<Rightarrow> nat \<Rightarrow> (error, int) outcome" where
  "split_share amount_in allocated is_last weight =
     (if is_last then i128_sub amount_in allocated
      else bnd (i128_mul amount_in (int weight)) (\<lambda>prod. Ok (prod sdiv int TOTAL_WEIGHT_BPS)))"

fun split_loop ::
    "'w renv \<Rightarrow> address \<Rightarrow> address \<Rightarrow> int \<Rightarrow> SplitRoute list \<Rightarrow> int \<Rightarrow> int \<Rightarrow> 'w ledger \<Rightarrow> ('w, int) res"
where
  "split_loop e sell buy amount_in [] allocated total_out s = Ok (total_out, s)"
| "split_loop e sell buy amount_in (sp # sps) allocated total_out s =
     bnd (split_share amount_in allocated (sps = []) (weight_bps sp)) (\<lambda>split_amount_in.
     bnd (i128_add allocated split_amount_in) (\<lambda>allocated'.
     if split_amount_in \<le> 0 then Err InvalidSwapParams
     else
     bnd (balance_of e buy (self e) (world s)) (\<lambda>buy_balance_before.
     bnd (transfer e sell (self e) (dex_address sp) split_amount_in (world s)) (\<lambda>w1.
     bnd (invoke_dex_swap e (dex_address sp) sell buy split_amount_in (split_min_out sp) w1) (\<lambda>(_, w2).
     bnd (balance_of e buy (self e) w2) (\<lambda>buy_balance_after.
     bnd (i128_sub buy_balance_after buy_balance_before) (\<lambda>split_out.
     if split_out < split_min_out sp then Err SlippageExceeded
     else
     let s1 = emit ''swap_executed'' [AddrArg (dex_address sp), AddrArg sell, AddrArg buy,
                IntArg split_amount_in, IntArg split_out, IntArg (split_min_out sp)] (s\<lparr>world := w2\<rparr>) in
     bnd (ok_or LimitExceeded (i128_checked_add total_out split_out)) (\<lambda>total_out'.
     split_loop e sell buy amount_in sps allocated' total_out' s1))))))))"

definition process_split_payment_with_swap ::
    "'w renv \<Rightarrow> address \<Rightarrow> address \<Rightarrow> address \<Rightarrow> address \<Rightarrow> int \<Rightarrow> SplitRoute list \<Rightarrow> address \<Rightarrow> int \<Rightarrow> int
       \<Rightarrow> 'w ledger \<Rightarrow> ('w, int) res" where
  "process_split_payment_with_swap e sender recipient sell buy amount_in splits platform_treasury
       fee_bps fee_cap s =
     bnd (require_auth e sender) (\<lambda>_.
     if sell = buy then Err InvalidSwapParams
     else if splits = [] then Err InvalidSwapParams
     else bnd (check_splits s splits 0) (\<lambda>total_weight.
     if total_weight \<noteq> TOTAL_WEIGHT_BPS then Err InvalidSwapParams
     else
       let s0 = emit ''payment_initiated'' [AddrArg sender, IntArg amount_in] s in
       if sender = recipient then Err InvalidRecipient
       else if is_blacklisted s0 recipient then Err Blacklisted
       else
         let max_amount = unwrap_or MAX_AMOUNT (iMaxAmount s0);
             min_limit = unwrap_or 0 (iMinLimit s0) in
         if amount_in \<le> 0 \<or> amount_in > max_amount then Err LimitExceeded
         else if amount_in < min_limit then Err LimitExceeded
         else
           bnd (accrue_user_record e sender amount_in s0) (\<lambda>(user_volume, s1).
           let effective_bps = (if user_volume > VOLUME_THRESHOLD then fee_bps sdiv 2 else fee_bps) in
           bnd (balance_of e sell sender (world s1)) (\<lambda>b.
           if b < amount_in then Err InsufficientBalance
           else
           bnd (transfer e sell sender (self e) amount_in (world s1)) (\<lambda>w1.
           bnd (split_loop e sell buy amount_in splits 0 0 (s1\<lparr>world := w1\<rparr>)) (\<lambda>(total_out, s2).
           bnd (calculate_fee total_out effective_bps fee_cap) (\<lambda>(fee_amount, remainder).
           bnd (pay_out e buy sender recipient platform_treasury fee_amount remainder s2) (\<lambda>s3.
           Ok (remainder, emit ''routed'' [AddrArg sender, AddrArg recipient, IntArg remainder] s3)))))))))"

definition route_split_payment_with_swap ::
    "'w renv \<Rightarrow> address \<Rightarrow> address \<Rightarrow> address \<Rightarrow> address \<Rightarrow> int \<Rightarrow> SplitRoute list \<Rightarrow> 'w ledger
       \<Rightarrow> ('w, int) res" where
  "route_split_payment_with_swap e sender recipient sell buy amount_in splits = with_guard (\<lambda>s.
     if is_frozen_internal s then Err ContractFrozen
     else
       bnd (require_swaps_not_paused s) (\<lambda>_.
       bnd (load_fee_config s) (\<lambda>(platform_treasury, fee_bps, fee_cap).
       process_split_payment_with_swap e sender recipient sell buy amount_in splits platform_treasury
         fee_bps fee_cap s)))"

section \<open>Multi-hop routing\<close>

text \<open>One hop: hand the input to the adapter, compare its report with the balances, return what
  it did not use to the sender.\<close>

definition swap_hop ::
    "'w renv \<Rightarrow> address \<Rightarrow> address \<Rightarrow> address \<Rightarrow> address \<Rightarrow> int \<Rightarrow> int \<Rightarrow> 'w ledger \<Rightarrow> ('w, int) res" where
  "swap_hop e sender dex tin tout flr current_amount s =
     bnd (balance_of e tin (self e) (world s)) (\<lambda>input_before.
     bnd (balance_of e tout (self e) (world s)) (\<lambda>output_before.
     bnd (transfer e tin (self e) dex current_amount (world s)) (\<lambda>w1.
     bnd (unwrap (dex_swap_exact e dex tin tout current_amount flr [tin, tout] (self e) w1)) (\<lambda>(reply, w2).
     if length reply \<noteq> 2 then Err InvalidSwapPath
     else
     let reported_out = reply ! 0; reported_unused = reply ! 1 in
     bnd (balance_of e tin (self e) w2) (\<lambda>input_after.
     bnd (balance_of e tout (self e) w2) (\<lambda>output_after.
     bnd (i128_sub input_before current_amount) (\<lambda>spent_down.
     bnd (i128_sub input_after spent_down) (\<lambda>actual_unused.
     bnd (i128_sub output_after output_before) (\<lambda>actual_out.
     if reported_unused < 0 \<or> reported_unused > current_amount \<or> actual_unused \<noteq> reported_unused
        \<or> reported_out \<noteq> actual_out \<or> actual_out < flr \<or> actual_out \<le> 0
     then Err SlippageExceeded
     else
     bnd (if actual_unused > 0 then transfer e tin (self e) sender actual_unused w2 else Ok w2) (\<lambda>w3.
     Ok (actual_out, emit ''swap_hop'' [AddrArg dex, AddrArg tin, AddrArg tout, IntArg current_amount,
          IntArg actual_out, IntArg actual_unused, IntArg flr] (s\<lparr>world := w3\<rparr>))))))))))))"

fun hop_loop ::
    "'w renv \<Rightarrow> address \<Rightarrow> address \<Rightarrow> address list \<Rightarrow> int list \<Rightarrow> int \<Rightarrow> 'w ledger \<Rightarrow> ('w, int) res" where
  "hop_loop e sender dex (tin # tout # path) (flr # floors) amount s =
     bnd (swap_hop e sender dex tin tout flr amount s) (\<lambda>(amount', s1).
     hop_loop e sender dex (tout # path) floors amount' s1)"
| "hop_loop e sender dex path floors amount s = Ok (amount, s)"

definition route_multihop_swap ::
    "'w renv \<Rightarrow> address \<Rightarrow> address \<Rightarrow> address \<Rightarrow> int \<Rightarrow> address list \<Rightarrow> int list \<Rightarrow> 'w ledger
       \<Rightarrow> ('w, int) res" where
  "route_multihop_swap e sender recipient dex amount_in path floors = with_guard (\<lambda>s.
     if is_frozen_internal s then Err ContractFrozen
     else if is_paused_internal s then Err Paused
     else if sender = recipient then Err InvalidRecipient
     else if is_blacklisted s recipient then Err Blacklisted
     else
       let hop_count = length path - 1 in
       if \<not> (2 \<le> hop_count \<and> hop_count \<le> 4) \<or> length floors \<noteq> hop_count then Err InvalidSwapPath
       else if has_duplicate path then Err CyclicSwapPath
       else if list_ex (\<lambda>flr. flr \<le> 0) floors then Err InvalidSwapParams
       else if \<not> is_dex_registered s dex then Err DexNotRegistered
       else
         let max_amount = unwrap_or MAX_AMOUNT (iMaxAmount s);
             min_limit = unwrap_or 0 (iMinLimit s) in
         if amount_in \<le> 0 \<or> amount_in > max_amount \<or> amount_in < min_limit then Err LimitExceeded
         else
           bnd (verify_kyc_for_amount e sender amount_in s) (\<lambda>_.
           bnd (require_auth e sender) (\<lambda>_.
           bnd (check_rate_limit e sender s) (\<lambda>s0.
           bnd (load_fee_config s0) (\<lambda>(platform_treasury, fee_bps, fee_cap).
           bnd (accrue_user_record e sender amount_in s0) (\<lambda>(user_volume, s1).
           let effective_bps = (if user_volume > VOLUME_THRESHOLD then fee_bps sdiv 2 else fee_bps);
               first_token = path ! 0 in
           bnd (balance_of e first_token sender (world s1)) (\<lambda>b.
           if b < amount_in then Err InsufficientBalance
           else
           bnd (transfer e first_token sender (self e) amount_in (world s1)) (\<lambda>w1.
           bnd (hop_loop e sender dex path floors amount_in (s1\<lparr>world := w1\<rparr>)) (\<lambda>(current_amount, s2).
           let final_token = path ! (length path - 1) in
           bnd (calculate_fee current_amount effective_bps fee_cap) (\<lambda>(fee_amount, remainder).
           bnd (pay_out e final_token sender recipient platform_treasury fee_amount remainder s2) (\<lambda>s3.
           Ok (remainder, bump_heartbeat e
             (emit ''routed'' [AddrArg sender, AddrArg recipient, IntArg remainder] s3)))))))))))))"

section \<open>The raw swap route\<close>

definition validate_swap_path ::
    "address \<Rightarrow> address \<Rightarrow> address list \<Rightarrow> int \<Rightarrow> (error, unit) outcome" where
  "validate_swap_path tin tout path min_out =
     (if path = [] then Err InvalidSwapPath
      else if hd path \<noteq> tin then Err InvalidSwapPath
      else if last path \<noteq> tout then Err InvalidSwapPath
      else if min_out \<le> 0 then Err InvalidSwapParams
      else Ok ())"

definition check_raw_swap ::
    "'w renv \<Rightarrow> address \<Rightarrow> address \<Rightarrow> address \<Rightarrow> address \<Rightarrow> int \<Rightarrow> address list \<Rightarrow> int \<Rightarrow> 'w ledger
       \<Rightarrow> (error, unit) outcome" where
  "check_raw_swap e sender recipient tin tout amount_in path min_out s =
     (if is_frozen_internal s then Err ContractFrozen
      else if is_paused_internal s then Err Paused
      else if sender = recipient then Err InvalidRecipient
      else if is_blacklisted s recipient then Err Blacklisted
      else
        bnd (validate_swap_path tin tout path min_out) (\<lambda>_.
        let max_amount = unwrap_or MAX_AMOUNT (iMaxAmount s);
            min_limit = unwrap_or 0 (iMinLimit s) in
        if amount_in \<le> 0 \<or> amount_in > max_amount \<or> amount_in < min_limit then Err LimitExceeded
        else
          bnd (verify_kyc_for_amount e sender amount_in s) (\<lambda>_. require_auth e sender)))"

definition route_payment_with_swap_raw ::
    "'w renv \<Rightarrow> address \<Rightarrow> address \<Rightarrow> address \<Rightarrow> address \<Rightarrow> address \<Rightarrow> int \<Rightarrow> address list \<Rightarrow> int
       \<Rightarrow> 'w ledger \<Rightarrow> ('w, unit) res" where
  "route_payment_with_swap_raw e sender recipient dex_router tin tout amount_in path min_out s =
     bnd (check_raw_swap e sender recipient tin tout amount_in path min_out s) (\<lambda>_.
     bnd (load_fee_config s) (\<lambda>(platform_treasury, fee_bps, fee_cap).
     bnd (transfer e tin sender dex_router amount_in (world s)) (\<lambda>w1.
     bnd (unwrap (dex_swap_exact e dex_router tin tout amount_in min_out path (self e) w1)) (\<lambda>(reply, w2).
     if length reply \<noteq> 2 then Err InvalidSwapPath
     else
     let amount_received = reply ! 0; unused_input = reply ! 1 in
     if amount_received < min_out \<or> amount_received \<le> 0 \<or> unused_input < 0 then Err SlippageExceeded
     else
     bnd (if unused_input > 0 then transfer e tin (self e) sender unused_input w2 else Ok w2) (\<lambda>w3.
     bnd (process_single_payment e sender recipient tout amount_received platform_treasury fee_bps
            fee_cap (s\<lparr>world := w3\<rparr>)) (\<lambda>s1. Ok ((), s1)))))))"

section \<open>What a pay-out moves\<close>

definition paid_out ::
    "(address \<Rightarrow> address \<Rightarrow> 'w \<Rightarrow> int option) \<Rightarrow> address \<Rightarrow> address \<Rightarrow> address \<Rightarrow> address \<Rightarrow> address
       \<Rightarrow> int \<Rightarrow> int \<Rightarrow> 'w ledger \<Rightarrow> 'w ledger \<Rightarrow> bool" where
  "paid_out bal tok owner recipient router treasury fee rest s s' \<longleftrightarrow>
     (\<exists>target refund.
        (target = recipient \<and> refund = 0 \<or> target = router \<and> refund = rest \<and> 0 < rest)
      \<and> (\<forall>t x. holding bal t x (world s') = holding bal t x (world s)
            + flow tok router treasury fee t x + flow tok router target rest t x)
      \<and> (\<forall>u t. get_refund_balance s' u t =
            get_refund_balance s u t + (if u = owner \<and> t = tok then refund else 0)))"

lemma paid_out_cong:
  "world s' = world s \<Longrightarrow> pRefundBalance s' = pRefundBalance s \<Longrightarrow> world t' = world t \<Longrightarrow>
   pRefundBalance t' = pRefundBalance t \<Longrightarrow>
   paid_out bal tok a b r tr fee rest s' t' = paid_out bal tok a b r tr fee rest s t"
  by (simp add: paid_out_def get_refund_balance_def)

text \<open>The router keeps of a pay-out exactly what it credits as a refund.\<close>

lemma paid_out_router:
  assumes "paid_out bal tok owner recipient router treasury fee rest s s'"
    and "recipient \<noteq> router" "treasury \<noteq> router"
  shows "holding bal tok router (world s') = holding bal tok router (world s) - fee - rest
    + (get_refund_balance s' owner tok - get_refund_balance s owner tok)"
  using assms by (auto simp: paid_out_def flow_def)

lemma pay_fee_out:
  assumes "token_contract (tok_balance e) (tok_transfer e)" "0 \<le> fee"
    and "(if fee > 0 then bnd (transfer e tok (self e) tr fee (world s)) (\<lambda>w. Ok (s\<lparr>world := w\<rparr>)) else Ok s) = Ok s1"
  shows "s1 = s\<lparr>world := world s1\<rparr>"
    and "holding (tok_balance e) t x (world s1) = holding (tok_balance e) t x (world s) + flow tok (self e) tr fee t x"
proof -
  show "s1 = s\<lparr>world := world s1\<rparr>" using assms(3) by (auto simp: bnd_eq_Ok split: if_split_asm)
  show "holding (tok_balance e) t x (world s1) = holding (tok_balance e) t x (world s) + flow tok (self e) tr fee t x"
  proof (cases "fee = 0")
    case True
    with assms(3) show ?thesis by simp
  next
    case False
    then obtain w where "tok_transfer e tok (self e) tr fee (world s) = Done w" "s1 = s\<lparr>world := w\<rparr>"
      using assms(2,3) by (auto simp: bnd_eq_Ok transfer_eq)
    then show ?thesis by (simp add: token_contract.xfer_holding [OF assms(1)])
  qed
qed

lemma pay_out_effect:
  assumes "token_contract (tok_balance e) (tok_transfer e)"
    and "pay_out e tok owner recipient tr fee rest s = Ok s'" "0 \<le> fee" "0 \<le> rest"
  shows "paid_out (tok_balance e) tok owner recipient (self e) tr fee rest s s'"
proof -
  obtain s1 where s1: "(if fee > 0 then bnd (transfer e tok (self e) tr fee (world s))
      (\<lambda>w. Ok (s\<lparr>world := w\<rparr>)) else Ok s) = (Ok s1 :: (error, 'a ledger) outcome)"
    and r: "(if rest > 0 then
       (case tok_transfer e tok (self e) recipient rest (world s1) of
          Done w \<Rightarrow> Ok (s1\<lparr>world := w\<rparr>)
        | BadReturn w \<Rightarrow> credit_refund_balance owner tok rest (s1\<lparr>world := w\<rparr>)
        | Failed \<Rightarrow> credit_refund_balance owner tok rest s1)
     else Ok s1) = Ok s'"
    using assms(2) unfolding pay_out_def bnd_eq_Ok by blast
  note fee = pay_fee_out [OF assms(1,3) s1]
  have ref: "get_refund_balance s1 u t = get_refund_balance s u t" for u t
    by (subst fee(1)) (simp add: get_refund_balance_def)
  show ?thesis
  proof (cases "rest = 0")
    case True
    with r fee(2) ref show ?thesis unfolding paid_out_def
      by (intro exI [of _ recipient] exI [of _ 0]) simp
  next
    case False
    show ?thesis
    proof (cases "tok_transfer e tok (self e) recipient rest (world s1)")
      case (Done w)
      with r False assms(4) have "s' = s1\<lparr>world := w\<rparr>" by simp
      with fee(2) ref token_contract.xfer_holding [OF assms(1) Done] show ?thesis unfolding paid_out_def
        by (intro exI [of _ recipient] exI [of _ 0]) (simp add: get_refund_balance_def)
    next
      case (BadReturn w)
      with token_contract.xfer_unit [OF assms(1)] show ?thesis by simp
    next
      case Failed
      with r False assms(4) have "credit_refund_balance owner tok rest s1 = Ok s'" by simp
      with fee(2) ref False assms(4) show ?thesis unfolding paid_out_def
        by (intro exI [of _ "self e"] exI [of _ rest])
          (auto simp: credit_refund_eq get_refund_balance_def)
    qed
  qed
qed

lemma calculate_fee_bounds:
  assumes "calculate_fee a bps cap = Ok (fee, rest)" "0 \<le> a" "0 \<le> bps" "0 \<le> cap"
  shows "0 \<le> fee" "fee \<le> cap" "0 \<le> rest" "fee + rest = a"
proof -
  have "0 \<le> (a * bps) sdiv BPS_DIVISOR"
    using assms by (intro sdiv_pos_le [THEN conjunct1]) (simp_all add: BPS_DIVISOR_def)
  from clip_fee_bounds [OF this assms(4,2)] assms(1)
  show "0 \<le> fee" "fee \<le> cap" "0 \<le> rest" "fee + rest = a"
    by (auto simp: calculate_fee_def bnd_eq_Ok Let_def i128_sub_def i128_mul_def split: if_split_asm)
qed

section \<open>Slippage floors\<close>

lemma slippage_floor_eq:
  assumes "1 \<le> x" "0 \<le> m" "m \<le> 10000" "i128_ok (x * m)" "i128_ok x"
  shows "slippage_floor x m = Ok (max 1 (x - x * m div 10000))"
proof -
  have n: "0 \<le> x * m" using assms by simp
  have "x * m div 10000 \<le> x"
  proof -
    have "x * m \<le> x * 10000" using assms by (intro mult_left_mono) simp_all
    then show ?thesis using zdiv_mono1 [of "x * m" "x * 10000" 10000] by simp
  qed
  moreover have "0 \<le> x * m div 10000" using n by (simp add: pos_imp_zdiv_nonneg_iff)
  ultimately have "i128_ok (x - x * m div 10000)" using assms(5) by (simp add: i128_ok_def)
  then show ?thesis using assms(4) n
    by (simp add: slippage_floor_def i128_mul_def i128_sub_def BPS_DIVISOR_def sdiv_nonneg max_def)
qed

text \<open>The slippage floor: for a tolerance of m basis points the least accepted output of a
  quote x is at least one unit, never above the quote, at least the quote less its tolerated share,
  and less than one unit above it (for outputs above one); a tighter tolerance never lowers it.\<close>

theorem slippage_floor_bounds:
  assumes "1 \<le> x" "0 \<le> m" "m \<le> m'" "m' \<le> 10000" "i128_ok (x * m')" "i128_ok x"
  shows "\<exists>flr flr'. slippage_floor x m = Ok flr \<and> slippage_floor x m' = Ok flr'
    \<and> 1 \<le> flr \<and> flr \<le> x \<and> x * (10000 - m) \<le> 10000 * flr
    \<and> (1 < flr \<longrightarrow> 10000 * flr < x * (10000 - m) + 10000) \<and> flr' \<le> flr"
proof -
  have le: "x * m \<le> x * m'" using assms by simp
  have ok: "i128_ok (x * m)" using i128_ok_mono [OF _ le assms(5)] assms by simp
  have f: "slippage_floor x m = Ok (max 1 (x - x * m div 10000))"
    "slippage_floor x m' = Ok (max 1 (x - x * m' div 10000))"
    using assms ok by (simp_all add: slippage_floor_eq)
  have "x * m div 10000 \<le> x * m' div 10000" using le by (rule zdiv_mono1) simp
  moreover have "0 \<le> x * m div 10000" using assms by (simp add: pos_imp_zdiv_nonneg_iff)
  moreover have "10000 * (x * m div 10000) \<le> x * m" "x * m < 10000 * (x * m div 10000) + 10000"
    by (simp_all add: mult.commute [of 10000] minus_mod_eq_div_mult [symmetric])
  ultimately show ?thesis unfolding f using assms(1) by (auto simp: algebra_simps max_def)
qed

theorem slippage_floor_bounds_witness:
  "\<exists>flr. slippage_floor 1999 500 = Ok flr \<and> 1999 * 9500 \<le> 10000 * flr \<and> flr \<le> 1999"
  using slippage_floor_bounds [of 1999 500 1000] by (auto simp: i128_ok_def)

section \<open>Guarantees of a swap-routed payment\<close>

lemma check_swap_steps:
  assumes "check_swap e p s = Ok s0"
  shows "auth e (sw_sender p)" "get_pause_level s = NoPause" "sell_token p \<noteq> buy_token p"
    "0 < min_amount_out p" "sw_deadline p = 0 \<or> now e \<le> sw_deadline p"
    "is_dex_registered s (sw_dex p)" "sw_sender p \<noteq> sw_recipient p" "0 < sw_amount_in p"
    "s0 = emit ''payment_initiated'' [AddrArg (sw_sender p), IntArg (sw_amount_in p)] s"
  using assms
  by (auto simp: check_swap_def bnd_eq_Ok require_auth_eq require_swaps_not_paused_eq Let_def
      split: if_split_asm)

lemma check_output_steps:
  assumes "check_output p out s = Ok u"
  shows "min_amount_out p \<le> out"
    and "0 < expected_amount_out p \<Longrightarrow>
      \<exists>m flr. pair_max_slippage_bps s (sell_token p) (buy_token p) = Ok m
        \<and> slippage_floor (expected_amount_out p) m = Ok flr \<and> flr \<le> out"
  using assms by (auto simp: check_output_def bnd_eq_Ok split: if_split_asm)

lemma run_swap_steps:
  assumes "run_swap e p tr bps cap s0 = Ok (delivered, s')"
  obtains s1 before w1 w2 reported w3 after out fee s4 where
    "accrue_user_record e (sw_sender p) (sw_amount_in p) s0 = Ok (get_user_volume e (sw_sender p) s0, s1)"
    "tok_balance e (buy_token p) (self e) (world s1) = Some before"
    "tok_transfer e (sell_token p) (sw_sender p) (self e) (sw_amount_in p) (world s1) = Done w1"
    "tok_transfer e (sell_token p) (self e) (sw_dex p) (sw_amount_in p) w1 = Done w2"
    "dex_swap e (sw_dex p) (sell_token p) (buy_token p) (sw_amount_in p) (min_amount_out p) (self e) w2
       = Some ((buy_token p, reported), w3)"
    "tok_balance e (buy_token p) (self e) w3 = Some after" "out = after - before"
    "check_output p out (s1\<lparr>world := w3\<rparr>) = Ok ()"
    "calculate_fee out (effective_fee_bps (get_user_volume e (sw_sender p) s0) bps) cap = Ok (fee, delivered)"
    "pay_out e (buy_token p) (sw_sender p) (sw_recipient p) tr fee delivered
       (emit ''swap_executed'' [AddrArg (sw_dex p), AddrArg (sell_token p), AddrArg (buy_token p),
                IntArg (sw_amount_in p), IntArg out, IntArg (min_amount_out p)] (s1\<lparr>world := w3\<rparr>)) = Ok s4"
    "s' = emit ''routed'' [AddrArg (sw_sender p), AddrArg (sw_recipient p), IntArg delivered] s4"
proof -
  have "\<exists>v s1 before w1 w2 reported w3 after out fee s4.
      accrue_user_record e (sw_sender p) (sw_amount_in p) s0 = Ok (v, s1)
    \<and> tok_balance e (buy_token p) (self e) (world s1) = Some before
    \<and> tok_transfer e (sell_token p) (sw_sender p) (self e) (sw_amount_in p) (world s1) = Done w1
    \<and> tok_transfer e (sell_token p) (self e) (sw_dex p) (sw_amount_in p) w1 = Done w2
    \<and> dex_swap e (sw_dex p) (sell_token p) (buy_token p) (sw_amount_in p) (min_amount_out p) (self e) w2
       = Some ((buy_token p, reported), w3)
    \<and> tok_balance e (buy_token p) (self e) w3 = Some after \<and> out = after - before
    \<and> check_output p out (s1\<lparr>world := w3\<rparr>) = Ok ()
    \<and> calculate_fee out (effective_fee_bps v bps) cap = Ok (fee, delivered)
    \<and> pay_out e (buy_token p) (sw_sender p) (sw_recipient p) tr fee delivered
       (emit ''swap_executed'' [AddrArg (sw_dex p), AddrArg (sell_token p), AddrArg (buy_token p),
                IntArg (sw_amount_in p), IntArg out, IntArg (min_amount_out p)] (s1\<lparr>world := w3\<rparr>)) = Ok s4
    \<and> s' = emit ''routed'' [AddrArg (sw_sender p), AddrArg (sw_recipient p), IntArg delivered] s4"
    using assms unfolding run_swap_def Let_def effective_fee_bps_def [symmetric]
    by (auto simp: bnd_eq_Ok balance_of_eq transfer_eq invoke_dex_swap_def ok_or_eq i128_sub_def
        simp del: emit_def split: if_split_asm)
  then show thesis using that accrue_frame(1) by blast
qed

lemma get_user_volume_emit [simp]: "get_user_volume e a (s\<lparr>events := ev\<rparr>) = get_user_volume e a s"
  by (simp add: get_user_volume_def get_user_record_def load_user_record_def split: option.split)

lemma pair_max_slippage_cong:
  "pPairSlippage s' = pPairSlippage s \<Longrightarrow> iMaxSlippageBps s' = iMaxSlippageBps s \<Longrightarrow>
   pair_max_slippage_bps s' a b = pair_max_slippage_bps s a b"
  by (simp add: pair_max_slippage_bps_def max_slippage_bps_def cong: option.case_cong)

text \<open>The least output the sender's terms and the pair's tolerance allow.\<close>

definition meets_floors :: "SwapPayment \<Rightarrow> int \<Rightarrow> 'w ledger \<Rightarrow> bool" where
  "meets_floors p out s \<longleftrightarrow> min_amount_out p \<le> out \<and>
     (0 < expected_amount_out p \<longrightarrow>
       (\<exists>m flr. pair_max_slippage_bps s (sell_token p) (buy_token p) = Ok m
          \<and> slippage_floor (expected_amount_out p) m = Ok flr \<and> flr \<le> out))"

lemma process_swap_effect:
  assumes "token_contract (tok_balance e) (tok_transfer e)"
    and "process_single_swap_payment e p tr bps cap s = Ok (delivered, s')" "0 \<le> bps" "0 \<le> cap"
  shows "\<exists>w w' reported out fee.
      dex_swap e (sw_dex p) (sell_token p) (buy_token p) (sw_amount_in p) (min_amount_out p) (self e) w
        = Some ((buy_token p, reported), w')
    \<and> (\<forall>t x. holding (tok_balance e) t x w = holding (tok_balance e) t x (world s)
          + flow (sell_token p) (sw_sender p) (self e) (sw_amount_in p) t x
          + flow (sell_token p) (self e) (sw_dex p) (sw_amount_in p) t x)
    \<and> out = holding (tok_balance e) (buy_token p) (self e) w'
          - holding (tok_balance e) (buy_token p) (self e) (world s)
    \<and> meets_floors p out s
    \<and> 0 \<le> fee \<and> fee \<le> cap \<and> 0 \<le> delivered \<and> fee + delivered = out
    \<and> paid_out (tok_balance e) (buy_token p) (sw_sender p) (sw_recipient p) (self e) tr fee delivered
        (s\<lparr>world := w'\<rparr>) s'"
proof -
  obtain s0 where c: "check_swap e p s = Ok s0" and r: "run_swap e p tr bps cap s0 = Ok (delivered, s')"
    using assms(2) unfolding process_single_swap_payment_def bnd_eq_Ok by blast
  note ck = check_swap_steps [OF c]
  obtain s1 before w1 w2 reported w3 after out fee s4 where x:
    "accrue_user_record e (sw_sender p) (sw_amount_in p) s0 = Ok (get_user_volume e (sw_sender p) s0, s1)"
    "tok_balance e (buy_token p) (self e) (world s1) = Some before"
    "tok_transfer e (sell_token p) (sw_sender p) (self e) (sw_amount_in p) (world s1) = Done w1"
    "tok_transfer e (sell_token p) (self e) (sw_dex p) (sw_amount_in p) w1 = Done w2"
    "dex_swap e (sw_dex p) (sell_token p) (buy_token p) (sw_amount_in p) (min_amount_out p) (self e) w2
       = Some ((buy_token p, reported), w3)"
    "tok_balance e (buy_token p) (self e) w3 = Some after" "out = after - before"
    "check_output p out (s1\<lparr>world := w3\<rparr>) = Ok ()"
    "calculate_fee out (effective_fee_bps (get_user_volume e (sw_sender p) s0) bps) cap = Ok (fee, delivered)"
    "pay_out e (buy_token p) (sw_sender p) (sw_recipient p) tr fee delivered
       (emit ''swap_executed'' [AddrArg (sw_dex p), AddrArg (sell_token p), AddrArg (buy_token p),
                IntArg (sw_amount_in p), IntArg out, IntArg (min_amount_out p)] (s1\<lparr>world := w3\<rparr>)) = Ok s4"
    "s' = emit ''routed'' [AddrArg (sw_sender p), AddrArg (sw_recipient p), IntArg delivered] s4"
    by (rule run_swap_steps [OF r])
  have f: "world s1 = world s" "pRefundBalance s1 = pRefundBalance s" "pPairSlippage s1 = pPairSlippage s"
    "iMaxSlippageBps s1 = iMaxSlippageBps s"
    by (subst accrue_frame(2) [OF x(1)], simp add: ck(9))+
  have cfg: "pair_max_slippage_bps (s1\<lparr>world := w3\<rparr>) a b = pair_max_slippage_bps s a b" for a b
    by (rule pair_max_slippage_cong) (simp_all add: f)
  have floors: "meets_floors p out s"
    using check_output_steps [OF x(8)] cfg by (simp add: meets_floors_def)
  have pos: "0 \<le> out" using floors ck(4) by (simp add: meets_floors_def)
  note fee = calculate_fee_bounds [OF x(9) pos half_rate [OF assms(3), THEN conjunct1] assms(4)]
  have "paid_out (tok_balance e) (buy_token p) (sw_sender p) (sw_recipient p) (self e) tr fee delivered
      (s\<lparr>world := w3\<rparr>) s'"
    using pay_out_effect [OF assms(1) x(10) fee(1,3)]
    by (subst paid_out_cong [of _ "emit ''swap_executed'' [AddrArg (sw_dex p), AddrArg (sell_token p),
          AddrArg (buy_token p), IntArg (sw_amount_in p), IntArg out, IntArg (min_amount_out p)]
          (s1\<lparr>world := w3\<rparr>)" _ s4]) (simp_all add: f x(11))
  moreover have "out = holding (tok_balance e) (buy_token p) (self e) w3
      - holding (tok_balance e) (buy_token p) (self e) (world s)"
    using x(2,6,7) f(1) by (simp add: holding_def)
  moreover have "holding (tok_balance e) t a w2 = holding (tok_balance e) t a (world s)
          + flow (sell_token p) (sw_sender p) (self e) (sw_amount_in p) t a
          + flow (sell_token p) (self e) (sw_dex p) (sw_amount_in p) t a" for t a
    using token_contract.xfer_holding [OF assms(1) x(3)] token_contract.xfer_holding [OF assms(1) x(4)] f(1)
    by simp
  ultimately show ?thesis using x(5) floors fee by blast
qed

lemma route_swap_steps:
  assumes "route_payment_with_swap e p s = Ok (d, s')" "load_fee_config s = Ok (tr, bps, cap)"
  shows "\<not> is_frozen_internal s" "get_pause_level s = NoPause"
    "\<exists>s2. process_single_swap_payment e p tr bps cap (s\<lparr>xReentrancyGuard := Some True\<rparr>) = Ok (d, s2)
       \<and> s' = s2\<lparr>xReentrancyGuard := Some False\<rparr>"
proof -
  let ?l = "s\<lparr>xReentrancyGuard := Some True\<rparr>"
  have g: "is_frozen_internal ?l = is_frozen_internal s" "get_pause_level ?l = get_pause_level s"
    "load_fee_config ?l = load_fee_config s"
    by (simp_all add: is_frozen_internal_def get_pause_level_def load_fee_config_def split: option.splits)
  show "\<not> is_frozen_internal s" "get_pause_level s = NoPause"
    "\<exists>s2. process_single_swap_payment e p tr bps cap ?l = Ok (d, s2)
       \<and> s' = s2\<lparr>xReentrancyGuard := Some False\<rparr>"
    using assms unfolding route_payment_with_swap_def with_guard_def
    by (auto simp: bnd_eq_Ok g require_swaps_not_paused_eq split: if_split_asm)
qed


definition sample_swap :: SwapPayment where
  "sample_swap = \<lparr>sw_sender = 5, sw_recipient = 6, sell_token = 50, buy_token = 51,
     sw_amount_in = 1000, min_amount_out = 1900, expected_amount_out = 2000, sw_deadline = 0,
     sw_dex = 30\<rparr>"

definition sample_dex_ledger :: "sworld ledger" where
  "sample_dex_ledger = sample_ledger\<lparr>pRegisteredDex := [30 \<mapsto> True]\<rparr>"

lemmas swap_run_defs =
  process_single_swap_payment_def check_swap_def run_swap_def check_output_def
  require_swaps_not_paused_def pair_max_slippage_bps_def max_slippage_bps_def is_dex_registered_def
  slippage_floor_def invoke_dex_swap_def pay_out_def calculate_fee_def with_guard_def
  is_frozen_internal_def is_paused_internal_def get_pause_level_def is_blacklisted_def
  verify_kyc_for_amount_def require_auth_def load_fee_config_def accrue_user_record_def
  load_user_record_def put_user_record_def balance_of_def clip_fee_def transfer_def
  s_transfer_def s_move_def flow_def sample_world_def arith_defs const_defs i128_ok_def
  u32_ok_def sdiv_nonneg Let_def sample_ledger_def fresh_ledger_def sample_dex_ledger_def


section \<open>Guarantees of a split route\<close>

text \<open>The shares the loop hands out, one after the other.\<close>

fun split_shares :: "int \<Rightarrow> nat list \<Rightarrow> int \<Rightarrow> (error, int list) outcome" where
  "split_shares amount_in [] allocated = Ok []"
| "split_shares amount_in (wt # ws) allocated =
     bnd (split_share amount_in allocated (ws = []) wt) (\<lambda>x.
     bnd (i128_add allocated x) (\<lambda>allocated'.
     bnd (split_shares amount_in ws allocated') (\<lambda>xs. Ok (x # xs))))"

lemma split_shares_sum:
  "split_shares a ws k = Ok xs \<Longrightarrow> ws \<noteq> [] \<Longrightarrow> sum_list xs = a - k \<and> length xs = length ws"
proof (induction ws arbitrary: k xs)
  case (Cons wt ws)
  then show ?case
    by (cases "ws = []") (auto simp: bnd_eq_Ok split_share_def i128_add_def i128_sub_def split: if_split_asm)
qed simp

lemma split_shares_floor:
  "split_shares a ws k = Ok xs \<Longrightarrow> 0 \<le> a \<Longrightarrow> i < length ws - 1 \<Longrightarrow> xs ! i = a * int (ws ! i) div 10000"
proof (induction ws arbitrary: k xs i)
  case (Cons wt ws)
  then show ?case
    by (cases i) (auto simp: bnd_eq_Ok split_share_def i128_mul_def sdiv_nonneg TOTAL_WEIGHT_BPS_def
        split: if_split_asm)
qed simp

lemma split_shares_last:
  "split_shares a ws k = Ok xs \<Longrightarrow> 0 \<le> a \<Longrightarrow> ws \<noteq> [] \<Longrightarrow>
   10000 * k \<le> a * int used \<Longrightarrow> used + sum_list ws = 10000 \<Longrightarrow> a * int (last ws) \<le> 10000 * last xs"
proof (induction ws arbitrary: k xs used)
  case (Cons wt ws)
  show ?case
  proof (cases "ws = []")
    case True
    with Cons.prems have xs: "xs = [a - k]"
      by (auto simp: bnd_eq_Ok split_share_def i128_add_def i128_sub_def split: if_split_asm)
    from True Cons.prems(5) have "int used = 10000 - int wt" by simp
    then have "a * int used = a * 10000 - a * int wt" by (simp add: right_diff_distrib)
    with Cons.prems(4) show ?thesis using True xs by simp
  next
    case False
    then obtain x ys where x: "x = a * int wt div 10000" "split_shares a ws (k + x) = Ok ys" "xs = x # ys"
      using Cons.prems(1,2) by (auto simp: bnd_eq_Ok split_share_def i128_mul_def i128_add_def
          sdiv_nonneg TOTAL_WEIGHT_BPS_def split: if_split_asm)
    have "10000 * x \<le> a * int wt"
      using pos_mod_sign [of 10000 "a * int wt"] mult_div_mod_eq [of 10000 "a * int wt"] x(1) by simp
    with Cons.prems(4) have "10000 * (k + x) \<le> a * int (used + wt)" by (simp add: distrib_left)
    moreover have "ys \<noteq> []" using split_shares_sum [OF x(2) False] False by auto
    ultimately show ?thesis
      using Cons.IH [OF x(2) Cons.prems(2) False, of "used + wt"] Cons.prems(5) False x(3) by simp
  qed
qed simp

lemma check_splits_ok:
  "check_splits s sps k = Ok n \<Longrightarrow>
     n = k + sum_list (map weight_bps sps)
   \<and> (\<forall>sp\<in>set sps. 0 < weight_bps sp \<and> 0 < split_min_out sp \<and> is_dex_registered s (dex_address sp))"
proof (induction sps arbitrary: k)
  case (Cons sp sps)
  obtain k' where k': "u32_checked_add k (weight_bps sp) = Some k'" "check_splits s sps k' = Ok n"
    "0 < weight_bps sp" "0 < split_min_out sp" "is_dex_registered s (dex_address sp)"
    using Cons.prems by (auto simp: bnd_eq_Ok ok_or_eq split: if_split_asm)
  have "k' = k + weight_bps sp" using k'(1) by (simp add: u32_checked_add_def split: if_split_asm)
  with Cons.IH [OF k'(2)] k'(3-5) show ?case by simp
qed simp

lemma split_loop_effect:
  "split_loop e sell buy a sps k tot s = Ok (tot', s') \<Longrightarrow>
    \<exists>xs outs. split_shares a (map weight_bps sps) k = Ok xs \<and> (\<forall>x\<in>set xs. 0 < x)
      \<and> list_all2 (\<lambda>sp out. split_min_out sp \<le> out) sps outs
      \<and> tot' = tot + sum_list outs \<and> pRefundBalance s' = pRefundBalance s
      \<and> holding (tok_balance e) buy (self e) (world s')
          = holding (tok_balance e) buy (self e) (world s) + sum_list outs"
proof (induction sps arbitrary: k tot s)
  case Nil
  then show ?case by simp
next
  case (Cons sp sps)
  obtain x k' b w1 r w2 b' out tot1 where st:
    "split_share a k (sps = []) (weight_bps sp) = Ok x" "i128_add k x = (Ok k' :: (error, int) outcome)"
    "0 < x" "tok_balance e buy (self e) (world s) = Some b"
    "tok_transfer e sell (self e) (dex_address sp) x (world s) = Done w1"
    "dex_swap e (dex_address sp) sell buy x (split_min_out sp) (self e) w1 = Some (r, w2)"
    "tok_balance e buy (self e) w2 = Some b'" "out = b' - b" "split_min_out sp \<le> out" "tot1 = tot + out"
    "split_loop e sell buy a sps k' tot1 (emit ''swap_executed'' [AddrArg (dex_address sp), AddrArg sell,
       AddrArg buy, IntArg x, IntArg out, IntArg (split_min_out sp)] (s\<lparr>world := w2\<rparr>)) = Ok (tot', s')"
    using Cons.prems
    by (auto simp: bnd_eq_Ok balance_of_eq transfer_eq invoke_dex_swap_def ok_or_eq i128_sub_def
        i128_checked_add_def Let_def simp del: emit_def split: if_split_asm)
  obtain xs outs where ih: "split_shares a (map weight_bps sps) k' = Ok xs" "\<forall>x\<in>set xs. 0 < x"
    "list_all2 (\<lambda>sp out. split_min_out sp \<le> out) sps outs" "tot' = tot1 + sum_list outs"
    "pRefundBalance s' = pRefundBalance s"
    "holding (tok_balance e) buy (self e) (world s') = holding (tok_balance e) buy (self e) w2 + sum_list outs"
    using Cons.IH [OF st(11)] by auto
  have "holding (tok_balance e) buy (self e) w2 = holding (tok_balance e) buy (self e) (world s) + out"
    using st(4,7,8) by (simp add: holding_def)
  with st(1-3,9,10) ih show ?case
    by (intro exI [of _ "x # xs"] exI [of _ "out # outs"]) simp
qed

lemma process_split_steps:
  assumes "process_split_payment_with_swap e sender recipient sell buy a sps tr bps cap s = Ok (d, s')"
  shows "auth e sender" "sell \<noteq> buy" "sps \<noteq> []" "0 < a"
    "check_splits s sps 0 = Ok TOTAL_WEIGHT_BPS"
    "\<exists>v s1 w1 total s2 fee s3.
       accrue_user_record e sender a (emit ''payment_initiated'' [AddrArg sender, IntArg a] s) = Ok (v, s1)
     \<and> tok_transfer e sell sender (self e) a (world s1) = Done w1
     \<and> split_loop e sell buy a sps 0 0 (s1\<lparr>world := w1\<rparr>) = Ok (total, s2)
     \<and> calculate_fee total (effective_fee_bps v bps) cap = Ok (fee, d)
     \<and> pay_out e buy sender recipient tr fee d s2 = Ok s3
     \<and> s' = emit ''routed'' [AddrArg sender, AddrArg recipient, IntArg d] s3"
  using assms
  unfolding process_split_payment_with_swap_def Let_def effective_fee_bps_def [symmetric]
  by (auto simp: bnd_eq_Ok require_auth_eq balance_of_eq transfer_eq simp del: emit_def
      split: if_split_asm)

lemma route_split_steps:
  assumes "route_split_payment_with_swap e sender recipient sell buy a sps s = Ok (d, s')"
    and "load_fee_config s = Ok (tr, bps, cap)"
  shows "\<not> is_frozen_internal s" "get_pause_level s = NoPause"
    "\<exists>s2. process_split_payment_with_swap e sender recipient sell buy a sps tr bps cap
        (s\<lparr>xReentrancyGuard := Some True\<rparr>) = Ok (d, s2) \<and> s' = s2\<lparr>xReentrancyGuard := Some False\<rparr>"
proof -
  let ?l = "s\<lparr>xReentrancyGuard := Some True\<rparr>"
  have g: "is_frozen_internal ?l = is_frozen_internal s" "get_pause_level ?l = get_pause_level s"
    "load_fee_config ?l = load_fee_config s"
    by (simp_all add: is_frozen_internal_def get_pause_level_def load_fee_config_def split: option.splits)
  show "\<not> is_frozen_internal s" "get_pause_level s = NoPause"
    "\<exists>s2. process_split_payment_with_swap e sender recipient sell buy a sps tr bps cap ?l = Ok (d, s2)
       \<and> s' = s2\<lparr>xReentrancyGuard := Some False\<rparr>"
    using assms unfolding route_split_payment_with_swap_def with_guard_def
    by (auto simp: bnd_eq_Ok g require_swaps_not_paused_eq split: if_split_asm)
qed

lemma list_all2_sum_le:
  "list_all2 (\<lambda>x y. f x \<le> (y :: int)) xs ys \<Longrightarrow> sum_list (map f xs) \<le> sum_list ys"
  by (induction xs ys rule: list_all2_induct) auto



end
