(* ===== verification/Router_Hops.thy ===== *)
theory Router_Hops
  imports Router_Swaps
begin

text \<open>
  Guarantees of the multi-hop route and an observation on the raw swap route; the definitions
  are those of \<open>Router_Swaps\<close>.
\<close>

section \<open>One hop\<close>

lemma swap_hop_steps:
  assumes "swap_hop e sender dex tin tout flr k s = Ok (out, s')"
  obtains i0 o0 w1 reply w2 i1 o1 unused w3 where
    "tok_balance e tin (self e) (world s) = Some i0" "tok_balance e tout (self e) (world s) = Some o0"
    "tok_transfer e tin (self e) dex k (world s) = Done w1"
    "dex_swap_exact e dex tin tout k flr [tin, tout] (self e) w1 = Some (reply, w2)"
    "tok_balance e tin (self e) w2 = Some i1" "tok_balance e tout (self e) w2 = Some o1"
    "unused = i1 - (i0 - k)" "out = o1 - o0" "reply = [out, unused]"
    "0 \<le> unused" "unused \<le> k" "flr \<le> out" "0 < out"
    "if unused > 0 then tok_transfer e tin (self e) sender unused w2 = Done w3 else w3 = w2"
    "s' = emit ''swap_hop'' [AddrArg dex, AddrArg tin, AddrArg tout, IntArg k, IntArg out,
            IntArg unused, IntArg flr] (s\<lparr>world := w3\<rparr>)"
proof -
  have "\<exists>i0 o0 w1 reply w2 i1 o1 unused w3.
      tok_balance e tin (self e) (world s) = Some i0 \<and> tok_balance e tout (self e) (world s) = Some o0
    \<and> tok_transfer e tin (self e) dex k (world s) = Done w1
    \<and> dex_swap_exact e dex tin tout k flr [tin, tout] (self e) w1 = Some (reply, w2)
    \<and> tok_balance e tin (self e) w2 = Some i1 \<and> tok_balance e tout (self e) w2 = Some o1
    \<and> length reply = 2 \<and> unused = i1 - (i0 - k) \<and> out = o1 - o0 \<and> reply ! 0 = out \<and> reply ! 1 = unused
    \<and> 0 \<le> unused \<and> unused \<le> k \<and> flr \<le> out \<and> 0 < out
    \<and> (if unused > 0 then tok_transfer e tin (self e) sender unused w2 = Done w3 else w3 = w2)
    \<and> s' = emit ''swap_hop'' [AddrArg dex, AddrArg tin, AddrArg tout, IntArg k, IntArg out,
            IntArg unused, IntArg flr] (s\<lparr>world := w3\<rparr>)"
    using assms unfolding swap_hop_def Let_def
    by (auto simp: bnd_eq_Ok balance_of_eq transfer_eq unwrap_eq i128_sub_def
        simp del: emit_def split: if_split_asm)
  then obtain i0 o0 w1 reply w2 i1 o1 unused w3 where x:
    "tok_balance e tin (self e) (world s) = Some i0" "tok_balance e tout (self e) (world s) = Some o0"
    "tok_transfer e tin (self e) dex k (world s) = Done w1"
    "dex_swap_exact e dex tin tout k flr [tin, tout] (self e) w1 = Some (reply, w2)"
    "tok_balance e tin (self e) w2 = Some i1" "tok_balance e tout (self e) w2 = Some o1"
    "length reply = 2" "unused = i1 - (i0 - k)" "out = o1 - o0" "reply ! 0 = out" "reply ! 1 = unused"
    "0 \<le> unused" "unused \<le> k" "flr \<le> out" "0 < out"
    "if unused > 0 then tok_transfer e tin (self e) sender unused w2 = Done w3 else w3 = w2"
    "s' = emit ''swap_hop'' [AddrArg dex, AddrArg tin, AddrArg tout, IntArg k, IntArg out,
            IntArg unused, IntArg flr] (s\<lparr>world := w3\<rparr>)"
    by blast
  have "reply = [out, unused]"
    using x(7,10,11) by (cases reply; cases "tl reply") auto
  with x that show thesis by blast
qed

lemma swap_hop_accounts:
  assumes "token_contract (tok_balance e) (tok_transfer e)"
    and "swap_hop e sender dex tin tout flr k s = Ok (out, s')" "tin \<noteq> tout" "sender \<noteq> self e"
  shows "holding (tok_balance e) tin (self e) (world s') = holding (tok_balance e) tin (self e) (world s) - k"
    and "holding (tok_balance e) tout (self e) (world s') = holding (tok_balance e) tout (self e) (world s) + out"
    and "flr \<le> out" "0 < out" "pRefundBalance s' = pRefundBalance s"
proof -
  obtain i0 o0 w1 reply w2 i1 o1 unused w3 where x:
    "tok_balance e tin (self e) (world s) = Some i0" "tok_balance e tout (self e) (world s) = Some o0"
    "tok_transfer e tin (self e) dex k (world s) = Done w1"
    "dex_swap_exact e dex tin tout k flr [tin, tout] (self e) w1 = Some (reply, w2)"
    "tok_balance e tin (self e) w2 = Some i1" "tok_balance e tout (self e) w2 = Some o1"
    "unused = i1 - (i0 - k)" "out = o1 - o0" "reply = [out, unused]"
    "0 \<le> unused" "unused \<le> k" "flr \<le> out" "0 < out"
    "if unused > 0 then tok_transfer e tin (self e) sender unused w2 = Done w3 else w3 = w2"
    "s' = emit ''swap_hop'' [AddrArg dex, AddrArg tin, AddrArg tout, IntArg k, IntArg out,
            IntArg unused, IntArg flr] (s\<lparr>world := w3\<rparr>)"
    by (rule swap_hop_steps [OF assms(2)])
  have w3: "holding (tok_balance e) tin (self e) w3 = holding (tok_balance e) tin (self e) w2 - unused"
    "holding (tok_balance e) tout (self e) w3 = holding (tok_balance e) tout (self e) w2"
    using x(10,14) assms(3,4)
    by (auto simp: token_contract.xfer_holding [OF assms(1)] flow_def split: if_split_asm)
  show "holding (tok_balance e) tin (self e) (world s') = holding (tok_balance e) tin (self e) (world s) - k"
    "holding (tok_balance e) tout (self e) (world s') = holding (tok_balance e) tout (self e) (world s) + out"
    using w3 x(1,2,5-8,15) by (simp_all add: holding_def)
  show "flr \<le> out" "0 < out" "pRefundBalance s' = pRefundBalance s" using x(12,13,15) by simp_all
qed

text \<open>One hop of a multi-hop route balances on the router's own books: the adapter's report must
  agree with the balances, the router's holding of the input falls by exactly the hop's amount
  (what the adapter left unused is passed on to the sender) and its holding of the output grows by
  exactly the amount carried into the next hop, which meets the hop's floor.\<close>

theorem hop_accounts:
  assumes "token_contract (tok_balance e) (tok_transfer e)"
    and "swap_hop e sender dex tin tout flr amount s = Ok (out, s')" "tin \<noteq> tout" "sender \<noteq> self e"
  shows "holding (tok_balance e) tin (self e) (world s')
        = holding (tok_balance e) tin (self e) (world s) - amount
    \<and> holding (tok_balance e) tout (self e) (world s')
        = holding (tok_balance e) tout (self e) (world s) + out
    \<and> flr \<le> out \<and> 0 < out \<and> pRefundBalance s' = pRefundBalance s"
  using swap_hop_accounts [OF assms] by simp

theorem hop_accounts_witness:
  "\<exists>s'. swap_hop (sample_env 0) 5 30 50 51 7 10 sample_dex_ledger = Ok (20, s')
     \<and> holding (tok_balance (sample_env 0)) 51 99 (world s') = 1000020"
proof -
  obtain s' where run: "swap_hop (sample_env 0) 5 30 50 51 7 10 sample_dex_ledger = Ok (20, s')"
    by (simp add: swap_hop_def balance_of_def transfer_def s_transfer_def s_move_def flow_def
        sample_world_def arith_defs i128_ok_def Let_def sample_ledger_def fresh_ledger_def
        sample_dex_ledger_def)
  have "world sample_dex_ledger = sample_world"
    by (simp add: sample_dex_ledger_def sample_ledger_def fresh_ledger_def)
  with hop_accounts [OF sample_token run] run show ?thesis
    by (auto simp: holding_def sample_world_def)
qed

section \<open>The whole route\<close>

lemma hop_loop_floors:
  "hop_loop e sender dex path floors k s = Ok (out, s') \<Longrightarrow> length path = Suc (length floors) \<Longrightarrow>
     \<exists>outs. list_all2 (\<le>) floors outs \<and> out = last (k # outs) \<and> (\<forall>x\<in>set outs. 0 < x)
       \<and> pRefundBalance s' = pRefundBalance s"
proof (induction e sender dex path floors k s rule: hop_loop.induct)
  case (1 e sender dex tin tout path flr floors k s)
  obtain k1 s1 where h: "swap_hop e sender dex tin tout flr k s = Ok (k1, s1)"
    and r: "hop_loop e sender dex (tout # path) floors k1 s1 = Ok (out, s')"
    using "1.prems"(1) by (auto simp: bnd_eq_Ok)
  have k1: "flr \<le> k1" "0 < k1" "pRefundBalance s1 = pRefundBalance s"
    by (rule swap_hop_steps [OF h], simp)+
  obtain outs where "list_all2 (\<le>) floors outs" "out = last (k1 # outs)" "\<forall>x\<in>set outs. 0 < x"
    "pRefundBalance s' = pRefundBalance s1"
    using "1.IH" [OF h refl r] "1.prems"(2) by auto
  with k1 show ?case by (intro exI [of _ "k1 # outs"]) simp
qed simp_all

lemma multihop_steps:
  assumes "route_multihop_swap e sender recipient dex a path floors s = Ok (d, s')"
    and "load_fee_config s = Ok (tr, bps, cap)"
  shows "\<not> is_frozen_internal s" "get_pause_level s \<noteq> FullHalt" "auth e sender"
    "2 \<le> length floors" "length floors \<le> 4" "length path = Suc (length floors)" "distinct path"
    "is_dex_registered s dex" "\<forall>f\<in>set floors. 0 < f" "0 < a"
    "\<exists>s1 w1 out s2 fee s3 v.
       pRefundBalance s1 = pRefundBalance s \<and> world s1 = world s
     \<and> tok_transfer e (hd path) sender (self e) a (world s1) = Done w1
     \<and> hop_loop e sender dex path floors a (s1\<lparr>world := w1\<rparr>) = Ok (out, s2)
     \<and> calculate_fee out (effective_fee_bps v bps) cap = Ok (fee, d)
     \<and> pay_out e (last path) sender recipient tr fee d s2 = Ok s3
     \<and> world s' = world s3 \<and> pRefundBalance s' = pRefundBalance s3"
proof -
  let ?l = "s\<lparr>xReentrancyGuard := Some True\<rparr>"
  have g: "is_frozen_internal ?l = is_frozen_internal s" "get_pause_level ?l = get_pause_level s"
    "is_dex_registered ?l dex = is_dex_registered s dex" "load_fee_config ?l = load_fee_config s"
    by (simp_all add: is_frozen_internal_def get_pause_level_def is_dex_registered_def
        load_fee_config_def split: option.splits)
  obtain c0 tr' bps' cap' v s1 w1 out s2 fee s3 where x: "\<not> is_frozen_internal s"
    "get_pause_level s \<noteq> FullHalt" "auth e sender" "2 \<le> length path - 1" "length path - 1 \<le> 4"
    "length floors = length path - 1" "distinct path" "is_dex_registered s dex"
    "\<not> list_ex (\<lambda>f. f \<le> 0) floors" "0 < a" "check_rate_limit e sender ?l = Ok c0"
    "load_fee_config c0 = Ok (tr', bps', cap')" "accrue_user_record e sender a c0 = Ok (v, s1)"
    "tok_transfer e (path ! 0) sender (self e) a (world s1) = Done w1"
    "hop_loop e sender dex path floors a (s1\<lparr>world := w1\<rparr>) = Ok (out, s2)"
    "calculate_fee out (effective_fee_bps v bps') cap' = Ok (fee, d)"
    "pay_out e (path ! (length path - 1)) sender recipient tr' fee d s2 = Ok s3"
    "world s' = world s3" "pRefundBalance s' = pRefundBalance s3"
    using assms(1)
    unfolding route_multihop_swap_def with_guard_def Let_def effective_fee_bps_def [symmetric]
    by (auto simp: bnd_eq_Ok g is_paused_internal_def require_auth_eq balance_of_eq transfer_eq
        split: if_split_asm)
  have c0: "load_fee_config c0 = load_fee_config s" "world c0 = world s" "pRefundBalance c0 = pRefundBalance s"
    by (subst check_rate_shape [OF x(11)], simp add: load_fee_config_def)+
  have s1: "world s1 = world c0" "pRefundBalance s1 = pRefundBalance c0"
    by (subst accrue_frame(2) [OF x(13)], simp)+
  have p: "path \<noteq> []" using x(4) by auto
  show "\<not> is_frozen_internal s" "get_pause_level s \<noteq> FullHalt" "auth e sender"
    "2 \<le> length floors" "length floors \<le> 4" "length path = Suc (length floors)" "distinct path"
    "is_dex_registered s dex" "\<forall>f\<in>set floors. 0 < f" "0 < a"
    using x p by (auto simp: list_ex_iff not_le)
  show "\<exists>s1 w1 out s2 fee s3 v.
       pRefundBalance s1 = pRefundBalance s \<and> world s1 = world s
     \<and> tok_transfer e (hd path) sender (self e) a (world s1) = Done w1
     \<and> hop_loop e sender dex path floors a (s1\<lparr>world := w1\<rparr>) = Ok (out, s2)
     \<and> calculate_fee out (effective_fee_bps v bps) cap = Ok (fee, d)
     \<and> pay_out e (last path) sender recipient tr fee d s2 = Ok s3
     \<and> world s' = world s3 \<and> pRefundBalance s' = pRefundBalance s3"
  proof -
    have "tr' = tr" "bps' = bps" "cap' = cap" using x(12) c0(1) assms(2) by simp_all
    then show ?thesis
      using x(14-19) c0(2,3) s1 p
      by (intro exI [of _ s1] exI [of _ w1] exI [of _ out] exI [of _ s2] exI [of _ fee] exI [of _ s3]
          exI [of _ v]) (simp add: hd_conv_nth last_conv_nth)
  qed
qed



section \<open>The raw swap route\<close>

lemma raw_swap_steps:
  assumes "route_payment_with_swap_raw e sender recipient dex tin tout a path m s = Ok ((), s')"
    and "load_fee_config s = Ok (tr, bps, cap)"
  shows "\<exists>w1 out unused w2 w3.
      tok_transfer e tin sender dex a (world s) = Done w1
    \<and> dex_swap_exact e dex tin tout a m path (self e) w1 = Some ([out, unused], w2)
    \<and> m \<le> out \<and> 0 < out \<and> 0 \<le> unused
    \<and> (if unused > 0 then tok_transfer e tin (self e) sender unused w2 = Done w3 else w3 = w2)
    \<and> process_single_payment e sender recipient tout out tr bps cap (s\<lparr>world := w3\<rparr>) = Ok s'"
    and "0 < m"
proof -
  obtain w1 reply w2 w3 where x: "check_raw_swap e sender recipient tin tout a path m s = Ok ()"
    "tok_transfer e tin sender dex a (world s) = Done w1"
    "dex_swap_exact e dex tin tout a m path (self e) w1 = Some (reply, w2)" "length reply = 2"
    "m \<le> reply ! 0" "0 < reply ! 0" "0 \<le> reply ! 1"
    "if reply ! 1 > 0 then tok_transfer e tin (self e) sender (reply ! 1) w2 = Done w3 else w3 = w2"
    "process_single_payment e sender recipient tout (reply ! 0) tr bps cap (s\<lparr>world := w3\<rparr>) = Ok s'"
    using assms unfolding route_payment_with_swap_raw_def Let_def
    by (auto simp: bnd_eq_Ok transfer_eq unwrap_eq split: if_split_asm)
  have "reply = [reply ! 0, reply ! 1]"
    using x(4) by (cases reply; cases "tl reply") auto
  with x show "\<exists>w1 out unused w2 w3.
      tok_transfer e tin sender dex a (world s) = Done w1
    \<and> dex_swap_exact e dex tin tout a m path (self e) w1 = Some ([out, unused], w2)
    \<and> m \<le> out \<and> 0 < out \<and> 0 \<le> unused
    \<and> (if unused > 0 then tok_transfer e tin (self e) sender unused w2 = Done w3 else w3 = w2)
    \<and> process_single_payment e sender recipient tout out tr bps cap (s\<lparr>world := w3\<rparr>) = Ok s'"
    by metis
  show "0 < m" using x(1) by (auto simp: check_raw_swap_def validate_swap_path_def bnd_eq_Ok
      split: if_split_asm)
qed

text \<open>What the raw route does with the swapped output: the adapter sends it to the contract, but
  the payment that follows is drawn from the sender's own balance of the output token. A call that
  succeeds therefore costs the sender the input and, on top, the whole output amount of their own,
  while the swap's proceeds stay in the contract without any refund credit (the only credit is
  for a rejected delivery).\<close>

theorem raw_route_charges_twice:
  assumes "token_contract (tok_balance e) (tok_transfer e)"
    and "route_payment_with_swap_raw e sender recipient dex tin tout amount_in path min_out s = Ok ((), s')"
    and "load_fee_config s = Ok (treasury, bps, cap)" "0 \<le> bps" "0 \<le> cap"
    and "tin \<noteq> tout" "sender \<noteq> self e" "sender \<noteq> recipient" "sender \<noteq> treasury"
      "recipient \<noteq> self e" "treasury \<noteq> self e"
  shows "\<exists>w1 out unused w2.
      tok_transfer e tin sender dex amount_in (world s) = Done w1
    \<and> dex_swap_exact e dex tin tout amount_in min_out path (self e) w1 = Some ([out, unused], w2)
    \<and> holding (tok_balance e) tout sender (world s') = holding (tok_balance e) tout sender w2 - out
    \<and> holding (tok_balance e) tout (self e) (world s')
        = holding (tok_balance e) tout (self e) w2
          + (get_refund_balance s' sender tout - get_refund_balance s sender tout)"
proof -
  obtain w1 out unused w2 w3 where x: "tok_transfer e tin sender dex amount_in (world s) = Done w1"
    "dex_swap_exact e dex tin tout amount_in min_out path (self e) w1 = Some ([out, unused], w2)"
    "0 < out" "0 \<le> unused"
    "if unused > 0 then tok_transfer e tin (self e) sender unused w2 = Done w3 else w3 = w2"
    "process_single_payment e sender recipient tout out treasury bps cap (s\<lparr>world := w3\<rparr>) = Ok s'"
    using raw_swap_steps(1) [OF assms(2,3)] by blast
  have w3: "holding (tok_balance e) tout y w3 = holding (tok_balance e) tout y w2" for y
    using x(5) assms(6) by (auto simp: token_contract.xfer_holding [OF assms(1)] split: if_split_asm)
  have o: "0 \<le> out" using x(3) by simp
  obtain fee rest where f: "fee + rest = out"
    "settled (tok_balance e) tout sender recipient (self e) treasury fee rest (s\<lparr>world := w3\<rparr>) s'"
    using process_single_payment_settled [OF assms(1) x(6) o assms(4,5)] by blast
  obtain target refund where t:
    "target = recipient \<and> refund = 0 \<or> target = self e \<and> refund = rest \<and> 0 < rest"
    "\<forall>t x. holding (tok_balance e) t x (world s') = holding (tok_balance e) t x w3
            + flow tout sender treasury fee t x + flow tout sender target rest t x"
    "\<forall>u t. get_refund_balance s' u t =
            get_refund_balance s u t + (if u = sender \<and> t = tout then refund else 0)"
    using f(2) by (auto simp: settled_def get_refund_balance_def)
  have "holding (tok_balance e) tout sender (world s') = holding (tok_balance e) tout sender w2 - out"
    using t(1,2) w3 f(1) assms(7-9) by (auto simp: flow_def)
  moreover have "holding (tok_balance e) tout (self e) (world s')
        = holding (tok_balance e) tout (self e) w2
          + (get_refund_balance s' sender tout - get_refund_balance s sender tout)"
    using t w3 assms(7,10,11) by (auto simp: flow_def)
  ultimately show ?thesis using x(1,2) by blast
qed

theorem raw_route_charges_twice_witness:
  "\<exists>s' w2. route_payment_with_swap_raw (sample_env 1000) 5 6 30 50 51 100 [50, 51] 150 sample_ledger = Ok ((), s')
     \<and> holding (tok_balance (sample_env 1000)) 51 5 (world s') = holding (tok_balance (sample_env 1000)) 51 5 w2 - 200"
proof -
  let ?e = "sample_env 1000"
  obtain s' where run: "route_payment_with_swap_raw ?e 5 6 30 50 51 100 [50, 51] 150 sample_ledger = Ok ((), s')"
    by (simp add: route_payment_with_swap_raw_def check_raw_swap_def validate_swap_path_def
        process_single_payment_def direct_fee_def pay_fee_def pay_remainder_def i128_clamp_def swap_run_defs)
  obtain w1 out unused w2 where "dex_swap_exact ?e 30 50 51 100 150 [50, 51] 99 w1 = Some ([out, unused], w2)"
    "holding (tok_balance ?e) 51 5 (world s') = holding (tok_balance ?e) 51 5 w2 - out"
    using raw_route_charges_twice [OF sample_token run sample_fee_config] by auto
  moreover from this(1) have "out = 200" by (simp split: call.splits)
  ultimately show ?thesis using run by blast
qed

end
