(* ===== verification/Router_Signed.thy ===== *)
theory Router_Signed
  imports Router_Payments
begin

text \<open>
  Payments carried by an off-chain signature: \<open>route_payment_meta\<close> (a relayer submits the
  sender's payment, funds move on the sender's allowance) and \<open>route_payment_with_quote\<close>
  (a maker's quote is settled once) of \<open>payment_router/src/lib.rs\<close>.
\<close>

section \<open>Operations\<close>

definition get_meta_nonce :: "'w ledger \<Rightarrow> address \<Rightarrow> nat" where
  "get_meta_nonce s user = unwrap_or 0 (pMetaNonce s user)"

definition build_meta_message ::
    "'w renv \<Rightarrow> address \<Rightarrow> bytes \<Rightarrow> address \<Rightarrow> address \<Rightarrow> int \<Rightarrow> nat \<Rightarrow> nat \<Rightarrow> bytes" where
  "build_meta_message e sender signer_pubkey recipient tok amount nonce deadline =
     sha256 e (xdr_address e (self e) @ xdr_address e sender @ signer_pubkey
       @ xdr_address e recipient @ xdr_address e tok @ xdr_i128 e amount @ xdr_u64 e nonce
       @ xdr_u64 e deadline)"

definition build_quote_message ::
    "'w renv \<Rightarrow> address \<Rightarrow> address \<Rightarrow> Quote \<Rightarrow> bytes \<Rightarrow> bytes" where
  "build_quote_message e sender recipient quote maker_pubkey =
     sha256 e (xdr_address e (self e) @ xdr_address e sender @ xdr_address e recipient
       @ xdr_quote e quote @ maker_pubkey)"

definition route_payment_meta ::
    "'w renv \<Rightarrow> address \<Rightarrow> bytes \<Rightarrow> address \<Rightarrow> address \<Rightarrow> int \<Rightarrow> nat \<Rightarrow> nat \<Rightarrow> bytes \<Rightarrow> 'w ledger
       \<Rightarrow> ('w, unit) res" where
  "route_payment_meta e sender signer_pubkey recipient tok amount nonce deadline signature =
     with_guard (\<lambda>s.
     if is_frozen_internal s then Err ContractFrozen
     else if is_paused_internal s then Err Paused
     else
       bnd (load_fee_config s) (\<lambda>(platform_treasury, fee_bps, fee_cap).
       if now e > deadline then Err DeadlineExpired
       else if get_meta_nonce s sender \<noteq> nonce then Err InvalidNonce
       else
         bnd (ed25519_verify e signer_pubkey
                (build_meta_message e sender signer_pubkey recipient tok amount nonce deadline)
                signature) (\<lambda>_.
         bnd (u64_add nonce 1) (\<lambda>nxt.
         let s1 = s\<lparr>pMetaNonce := (pMetaNonce s)(sender \<mapsto> nxt)\<rparr> in
         bnd (process_single_payment_no_auth e sender recipient tok amount platform_treasury
                fee_bps fee_cap s1) (\<lambda>s2. Ok ((), s2))))))"

text \<open>\<open>route_payment_with_quote\<close> up to the rate limit, and from the balance checks on.\<close>

definition check_quote ::
    "'w renv \<Rightarrow> address \<Rightarrow> address \<Rightarrow> Quote \<Rightarrow> bytes \<Rightarrow> bytes \<Rightarrow> 'w ledger
       \<Rightarrow> (error, 'w ledger) outcome" where
  "check_quote e sender recipient quote maker_pubkey signature s =
     (if is_frozen_internal s then Err ContractFrozen
     else if is_paused_internal s then Err Paused
     else if sender = recipient then Err InvalidRecipient
     else if is_blacklisted s recipient then Err Blacklisted
     else if token_in quote = token_out quote \<or> q_amount_in quote \<le> 0 \<or> q_amount_out quote \<le> 0
       \<or> quote_id quote = [] then Err InvalidSwapParams
     else if now e > expires_at quote then Err QuoteExpired
     else if pUsedQuote s (maker quote, quote_id quote) \<noteq> None then Err QuoteAlreadyUsed
     else
       let max_amount = unwrap_or MAX_AMOUNT (iMaxAmount s);
           min_limit = unwrap_or 0 (iMinLimit s) in
       if q_amount_in quote > max_amount \<or> q_amount_in quote < min_limit then Err LimitExceeded
       else
         bnd (verify_kyc_for_amount e sender (q_amount_in quote) s) (\<lambda>_.
         bnd (load_fee_config s) (\<lambda>_.
         bnd (ed25519_verify e maker_pubkey
                (build_quote_message e sender recipient quote maker_pubkey) signature) (\<lambda>_.
         bnd (require_auth e sender) (\<lambda>_.
         bnd (require_auth e (maker quote)) (\<lambda>_.
         check_rate_limit e sender s))))))"

definition settle_quote ::
    "'w renv \<Rightarrow> address \<Rightarrow> address \<Rightarrow> Quote \<Rightarrow> 'w ledger \<Rightarrow> ('w, int) res" where
  "settle_quote e sender recipient quote s1 =
     bnd (balance_of e (token_in quote) sender (world s1)) (\<lambda>in_balance.
     bnd (if in_balance < q_amount_in quote then Err InsufficientBalance
          else bnd (balance_of e (token_out quote) (maker quote) (world s1)) (\<lambda>out_balance.
            if out_balance < q_amount_out quote then Err InsufficientBalance else Ok ())) (\<lambda>_.
     bnd (accrue_user_record e sender (q_amount_in quote) s1) (\<lambda>(_, s2).
     let s3 = s2\<lparr>pUsedQuote := (pUsedQuote s2)((maker quote, quote_id quote) \<mapsto> True)\<rparr> in
     bnd (transfer e (token_in quote) sender (maker quote) (q_amount_in quote) (world s3)) (\<lambda>w1.
     bnd (transfer e (token_out quote) (maker quote) recipient (q_amount_out quote) w1) (\<lambda>w2.
     Ok (q_amount_out quote, bump_heartbeat e (s3\<lparr>world := w2\<rparr>)))))))"

definition route_payment_with_quote ::
    "'w renv \<Rightarrow> address \<Rightarrow> address \<Rightarrow> Quote \<Rightarrow> bytes \<Rightarrow> bytes \<Rightarrow> 'w ledger \<Rightarrow> ('w, int) res" where
  "route_payment_with_quote e sender recipient quote maker_pubkey signature = with_guard (\<lambda>s.
     bnd (check_quote e sender recipient quote maker_pubkey signature s) (\<lambda>s1.
     settle_quote e sender recipient quote s1))"

section \<open>Meta-transactions\<close>

lemma process_no_auth_steps:
  "process_single_payment_no_auth e sender recipient tok amount tr bps cap s = Ok s' \<longleftrightarrow>
   sender \<noteq> recipient \<and> \<not> is_blacklisted s recipient \<and> 0 < amount
   \<and> amount \<le> unwrap_or MAX_AMOUNT (iMaxAmount s) \<and> unwrap_or 0 (iMinLimit s) \<le> amount
   \<and> verify_kyc_for_amount e sender amount (emit ''payment_initiated'' [AddrArg sender, IntArg amount] s) = Ok ()
   \<and> (\<exists>v s1 b allowed fee rest s2 s3.
      accrue_user_record e sender amount (emit ''payment_initiated'' [AddrArg sender, IntArg amount] s)
        = Ok (v, s1)
    \<and> tok_balance e tok sender (world s1) = Some b \<and> amount \<le> b
    \<and> tok_allowance e tok sender (self e) (world s1) = Some allowed \<and> amount \<le> allowed
    \<and> meta_fee amount (effective_fee_bps v bps) cap = Ok (fee, rest)
    \<and> pay_fee (tok_transfer_from e tok (self e) sender) tr fee s1 = Ok s2
    \<and> pay_remainder (tok_transfer_from e tok (self e) sender) (self e) sender recipient tok rest s2 = Ok s3
    \<and> s' = emit ''routed'' [AddrArg sender, AddrArg recipient, IntArg amount] s3)"
proof -
  have f: "is_blacklisted (emit x y s) a = is_blacklisted s a" "iMaxAmount (emit x y s) = iMaxAmount s"
    "iMinLimit (emit x y s) = iMinLimit s" for x y a
    by (simp_all add: is_blacklisted_def)
  show ?thesis
    unfolding process_single_payment_no_auth_def Let_def effective_fee_bps_def [symmetric] f
    by (auto simp: outcome_simps not_less not_le simp del: emit_def split: if_splits)
qed

lemma route_payment_meta_eq:
  "route_payment_meta e sender pk recipient tok amount nonce deadline sg s = Ok ((), s') \<longleftrightarrow>
     gate_open s \<and> now e \<le> deadline \<and> get_meta_nonce s sender = nonce \<and> u64_ok (Suc nonce)
   \<and> ed25519 e pk (build_meta_message e sender pk recipient tok amount nonce deadline) sg
   \<and> (\<exists>tr bps cap s2. load_fee_config s = Ok (tr, bps, cap)
      \<and> process_single_payment_no_auth e sender recipient tok amount tr bps cap
          (s\<lparr>xReentrancyGuard := Some True, pMetaNonce := (pMetaNonce s)(sender \<mapsto> Suc nonce)\<rparr>) = Ok s2
      \<and> s' = s2\<lparr>xReentrancyGuard := Some False\<rparr>)"
proof -
  let ?l = "s\<lparr>xReentrancyGuard := Some True\<rparr>"
  have g: "is_frozen_internal ?l = is_frozen_internal s" "get_pause_level ?l = get_pause_level s"
    "load_fee_config ?l = load_fee_config s" "get_meta_nonce ?l sender = get_meta_nonce s sender"
    by (simp_all add: is_frozen_internal_def get_pause_level_def load_fee_config_def
        get_meta_nonce_def split: option.splits)
  show ?thesis
    unfolding route_payment_meta_def with_guard_def gate_open_def is_paused_internal_def
    by (auto simp: g bnd_eq_Ok ed25519_verify_eq u64_add_def Let_def split: if_splits)
qed

lemma process_no_auth_settled:
  assumes "allowance_token (tok_balance e) (tok_transfer e) (tok_transfer_from e)"
    and "process_single_payment_no_auth e sender recipient tok amount tr bps cap s = Ok s'"
    and "0 \<le> bps" "0 \<le> cap"
  shows "\<exists>fee rest. 0 \<le> fee \<and> fee \<le> cap \<and> 0 \<le> rest \<and> fee + rest = amount
    \<and> settled (tok_balance e) tok sender recipient (self e) tr fee rest s s'"
    and "pMetaNonce s' = pMetaNonce s"
    and "\<exists>allowed. tok_allowance e tok sender (self e) (world s) = Some allowed \<and> amount \<le> allowed"
proof -
  let ?s0 = "emit ''payment_initiated'' [AddrArg sender, IntArg amount] s"
  obtain v s1 b allowed fee rest s2 s3 where st: "0 < amount"
    "accrue_user_record e sender amount ?s0 = Ok (v, s1)"
    "tok_allowance e tok sender (self e) (world s1) = Some allowed" "amount \<le> allowed"
    "meta_fee amount (effective_fee_bps v bps) cap = Ok (fee, rest)"
    "pay_fee (tok_transfer_from e tok (self e) sender) tr fee s1 = Ok s2"
    "pay_remainder (tok_transfer_from e tok (self e) sender) (self e) sender recipient tok rest s2 = Ok s3"
    and s': "s' = emit ''routed'' [AddrArg sender, AddrArg recipient, IntArg amount] s3"
    using assms(2) unfolding process_no_auth_steps by blast
  have amt: "0 \<le> amount" using st(1) by simp
  note fee = meta_fee_bounds [OF st(5) amt half_rate [OF assms(3), THEN conjunct1] assms(4)]
  have w: "world s1 = world s" "pRefundBalance s1 = pRefundBalance s"
    by (subst accrue_frame(2) [OF st(2)], simp)+
  have "settled (tok_balance e) tok sender recipient (self e) tr fee rest s s'"
    using token_contract.settle_effect [OF via_allowance [OF assms(1)] st(6,7) fee(1,3)] w
    by (subst settled_cong [of s s1 s' s3]) (simp_all add: s')
  with fee show "\<exists>fee rest. 0 \<le> fee \<and> fee \<le> cap \<and> 0 \<le> rest \<and> fee + rest = amount
    \<and> settled (tok_balance e) tok sender recipient (self e) tr fee rest s s'" by blast
  have "s1 = pay_part s s1"
    by (rule pay_part_trans [OF pay_part_steps(4) pay_part_steps(3) [OF st(2)]])
  from pay_part_trans [OF this pay_part_steps(1) [OF st(6)]]
  have "s3 = pay_part s s3" by (rule pay_part_trans [OF _ pay_part_steps(2) [OF st(7)]])
  from arg_cong [OF this, of pMetaNonce] have "pMetaNonce s3 = pMetaNonce s"
    by (simp add: pay_part_def)
  then show "pMetaNonce s' = pMetaNonce s" by (simp add: s')
  show "\<exists>allowed. tok_allowance e tok sender (self e) (world s) = Some allowed \<and> amount \<le> allowed"
    using st(3,4) w(1) by auto
qed


lemmas meta_run_defs =
  route_payment_meta_def with_guard_def is_frozen_internal_def is_paused_internal_def
  get_pause_level_def is_blacklisted_def verify_kyc_for_amount_def require_auth_def
  get_meta_nonce_def ed25519_verify_def process_single_payment_no_auth_def
  load_fee_config_def accrue_user_record_def load_user_record_def put_user_record_def
  balance_of_def meta_fee_def clip_fee_def pay_fee_def pay_remainder_def s_transfer_def s_move_def
  flow_def sample_world_def arith_defs const_defs i128_ok_def u64_ok_def sdiv_nonneg Let_def
  sample_ledger_def fresh_ledger_def


text \<open>The signing key is the caller's choice: the router never ties \<open>signer_pubkey\<close> to
  \<open>sender\<close>. Whenever a meta-transaction succeeds, the same payment succeeds with the same effect
  under any other key that signs the corresponding message, whoever holds it, so an allowance
  to the router can be spent by anyone.\<close>

theorem meta_signature_is_any_key:
  assumes "route_payment_meta e sender pk recipient tok amount nonce deadline sg s = Ok ((), s')"
    and "ed25519 e other (build_meta_message e sender other recipient tok amount nonce deadline) osg"
  shows "route_payment_meta e sender other recipient tok amount nonce deadline osg s = Ok ((), s')"
  using assms unfolding route_payment_meta_eq by blast

theorem meta_signature_is_any_key_witness:
  "\<exists>s'. route_payment_meta (sample_env 1000) 5 [66] 6 50 1000 0 2000 [66] sample_ledger = Ok ((), s')"
proof -
  obtain s' where run:
    "route_payment_meta (sample_env 1000) 5 [7] 6 50 1000 0 2000 [7] sample_ledger = Ok ((), s')"
    by (simp add: meta_run_defs)
  have "ed25519 (sample_env 1000) [66] (build_meta_message (sample_env 1000) 5 [66] 6 50 1000 0 2000) [66]"
    by simp
  from meta_signature_is_any_key [OF run this] show ?thesis by blast
qed

section \<open>Quotes\<close>

lemma check_quote_steps:
  assumes "check_quote e sender recipient q mpk sg s = Ok s1"
  shows "now e \<le> expires_at q" "pUsedQuote s (maker q, quote_id q) = None"
    "auth e sender" "auth e (maker q)"
    "ed25519 e mpk (build_quote_message e sender recipient q mpk) sg"
    "s1 = s\<lparr>pRateLimitCounter := pRateLimitCounter s1\<rparr>"
  using assms
  by (auto simp: check_quote_def bnd_eq_Ok require_auth_eq ed25519_verify_eq Let_def
      split: if_split_asm dest: check_rate_shape)

lemma settle_quote_steps:
  assumes "settle_quote e sender recipient q s1 = Ok (paid, s')"
  shows "paid = q_amount_out q"
    "\<exists>w. tok_transfer e (token_in q) sender (maker q) (q_amount_in q) (world s1) = Done w
       \<and> tok_transfer e (token_out q) (maker q) recipient (q_amount_out q) w = Done (world s')"
    "pUsedQuote s' = (pUsedQuote s1)((maker q, quote_id q) \<mapsto> True)"
proof -
  obtain v s2 w1 w2 where st: "paid = q_amount_out q"
    "accrue_user_record e sender (q_amount_in q) s1 = Ok (v, s2)"
    "tok_transfer e (token_in q) sender (maker q) (q_amount_in q) (world s2) = Done w1"
    "tok_transfer e (token_out q) (maker q) recipient (q_amount_out q) w1 = Done w2"
    "s' = bump_heartbeat e (s2\<lparr>pUsedQuote := (pUsedQuote s2)((maker q, quote_id q) \<mapsto> True), world := w2\<rparr>)"
    using assms unfolding settle_quote_def by (auto simp: bnd_eq_Ok transfer_eq Let_def split: if_split_asm)
  have "world s2 = world s1" "pUsedQuote s2 = pUsedQuote s1"
    by (subst accrue_frame(2) [OF st(2)], simp)+
  with st show "paid = q_amount_out q"
    "\<exists>w. tok_transfer e (token_in q) sender (maker q) (q_amount_in q) (world s1) = Done w
       \<and> tok_transfer e (token_out q) (maker q) recipient (q_amount_out q) w = Done (world s')"
    "pUsedQuote s' = (pUsedQuote s1)((maker q, quote_id q) \<mapsto> True)"
    by (simp_all add: bump_heartbeat_def)
qed

lemma quote_steps:
  assumes "route_payment_with_quote e sender recipient q mpk sg s = Ok (paid, s')"
  shows "now e \<le> expires_at q" "pUsedQuote s (maker q, quote_id q) = None" "paid = q_amount_out q"
    "auth e sender" "auth e (maker q)"
    "ed25519 e mpk (build_quote_message e sender recipient q mpk) sg"
    "\<exists>w. tok_transfer e (token_in q) sender (maker q) (q_amount_in q) (world s) = Done w
       \<and> tok_transfer e (token_out q) (maker q) recipient (q_amount_out q) w = Done (world s')"
    "pUsedQuote s' = (pUsedQuote s)((maker q, quote_id q) \<mapsto> True)"
proof -
  let ?l = "s\<lparr>xReentrancyGuard := Some True\<rparr>"
  obtain s1 s2 where c: "check_quote e sender recipient q mpk sg ?l = Ok s1"
    and p: "settle_quote e sender recipient q s1 = Ok (paid, s2)"
    and s': "s' = s2\<lparr>xReentrancyGuard := Some False\<rparr>"
    using assms unfolding route_payment_with_quote_def with_guard_def
    by (auto simp: bnd_eq_Ok split: if_split_asm)
  have "world s1 = world s" "pUsedQuote s1 = pUsedQuote s"
    by (subst check_quote_steps(6) [OF c], simp)+
  with check_quote_steps(1-5) [OF c] settle_quote_steps [OF p] s'
  show "now e \<le> expires_at q" "pUsedQuote s (maker q, quote_id q) = None" "paid = q_amount_out q"
    "auth e sender" "auth e (maker q)"
    "ed25519 e mpk (build_quote_message e sender recipient q mpk) sg"
    "\<exists>w. tok_transfer e (token_in q) sender (maker q) (q_amount_in q) (world s) = Done w
       \<and> tok_transfer e (token_out q) (maker q) recipient (q_amount_out q) w = Done (world s')"
    "pUsedQuote s' = (pUsedQuote s)((maker q, quote_id q) \<mapsto> True)"
    by simp_all
qed

text \<open>A quote settles once and only as its maker signed it: both the sender and the maker
  authorise the call, the quote is unexpired and unused, exactly \<open>amount_in\<close> goes from the sender
  to the maker and \<open>amount_out\<close> from the maker to the recipient with every other balance unchanged,
  and the maker's quote identifier can never settle again.\<close>

theorem quote_settles_once:
  assumes "token_contract (tok_balance e) (tok_transfer e)"
    and "route_payment_with_quote e sender recipient q mpk sg s = Ok (paid, s')"
  shows "auth e sender \<and> auth e (maker q) \<and> now e \<le> expires_at q \<and> paid = q_amount_out q
    \<and> ed25519 e mpk (build_quote_message e sender recipient q mpk) sg
    \<and> pUsedQuote s (maker q, quote_id q) = None
    \<and> (\<forall>t x. holding (tok_balance e) t x (world s') = holding (tok_balance e) t x (world s)
          + flow (token_in q) sender (maker q) (q_amount_in q) t x
          + flow (token_out q) (maker q) recipient (q_amount_out q) t x)
    \<and> (\<forall>e' a b q' mpk' sg' y. maker q' = maker q \<and> quote_id q' = quote_id q \<longrightarrow>
          route_payment_with_quote e' a b q' mpk' sg' s' \<noteq> Ok y)"
proof -
  note st = quote_steps [OF assms(2)]
  obtain w where w: "tok_transfer e (token_in q) sender (maker q) (q_amount_in q) (world s) = Done w"
    "tok_transfer e (token_out q) (maker q) recipient (q_amount_out q) w = Done (world s')"
    using st(7) by blast
  note fl = token_contract.xfer_holding [OF assms(1) w(1)] token_contract.xfer_holding [OF assms(1) w(2)]
  have "route_payment_with_quote e' a b q' mpk' sg' s' \<noteq> Ok y"
    if "maker q' = maker q" "quote_id q' = quote_id q" for e' :: "'a renv" and a b q' mpk' sg' y
    using quote_steps(2) [of e' a b q' mpk' sg' s' "fst y" "snd y"] that st(8) by auto
  with st(1-6) fl show ?thesis by simp
qed

theorem quote_settles_once_witness:
  "\<exists>s'. route_payment_with_quote (sample_env 1000) 5 6
      \<lparr>quote_id = ''a'', maker = 8, token_in = 50, token_out = 51, q_amount_in = 300,
       q_amount_out = 70, expires_at = 2000\<rparr> [7] [7] sample_ledger = Ok (70, s')
    \<and> holding (tok_balance (sample_env 1000)) 51 6 (world s') = 1000070"
proof -
  let ?q = "\<lparr>quote_id = ''a'', maker = 8, token_in = 50, token_out = 51, q_amount_in = 300,
       q_amount_out = 70, expires_at = 2000\<rparr>"
  obtain s' where run: "route_payment_with_quote (sample_env 1000) 5 6 ?q [7] [7] sample_ledger = Ok (70, s')"
    by (simp add: route_payment_with_quote_def check_quote_def settle_quote_def with_guard_def is_frozen_internal_def
        is_paused_internal_def get_pause_level_def is_blacklisted_def verify_kyc_for_amount_def
        require_auth_def ed25519_verify_def check_rate_limit_def rate_limit_raw_def
        is_whitelisted_def rate_limit_used_def load_fee_config_def accrue_user_record_def
        load_user_record_def put_user_record_def balance_of_def transfer_def s_transfer_def
        s_move_def flow_def sample_world_def arith_defs const_defs i128_ok_def u32_ok_def
        Let_def sample_ledger_def fresh_ledger_def)
  have 0: "world sample_ledger = sample_world" by (simp add: sample_ledger_def fresh_ledger_def)
  from quote_settles_once [OF sample_token run] run 0 show ?thesis
    by (auto simp: holding_def flow_def sample_world_def)
qed

end
