(* ===== verification/Router_Treasury.thy ===== *)
theory Router_Treasury
  imports Router_Payments
begin

text \<open>
  The treasury side of the router: idle funds lent out for yield, the two ways the treasury
  manager takes tokens out of the contract, the price feed with its fallback prices, and the
  archive of pruned records (\<open>deposit_to_yield\<close> to \<open>get_yield_position\<close>,
  \<open>set_price_oracle\<close> to \<open>get_price\<close>, \<open>recover_tokens\<close>, \<open>emergency_withdraw\<close> and
  the archival block at the end of \<open>payment_router/src/lib.rs\<close>, with \<open>archival.rs\<close>).
  \<open>archive_log\<close> is the abstract state of the archive, the list of its committed roots.
\<close>

section \<open>Yield on treasury funds\<close>

definition deposit_to_yield :: "'w renv \<Rightarrow> address \<Rightarrow> int \<Rightarrow> 'w ledger \<Rightarrow> ('w, unit) res" where
  "deposit_to_yield e tok amount s =
     bnd (require_circuit_closed s) (\<lambda>_.
     if amount \<le> 0 then Err InvalidYieldAmount
     else
       bnd (require_role e TreasuryManager s) (\<lambda>_.
       bnd (ok_or NotInitialized (iPlatformTreasury s)) (\<lambda>treasury.
       bnd (require_auth e treasury) (\<lambda>_.
       bnd (ok_or YieldProtocolNotConfigured (iYieldProtocol s)) (\<lambda>protocol.
       bnd (unwrap (lend_deposit e protocol treasury tok amount (world s))) (\<lambda>w.
       bnd (i128_add (unwrap_or 0 (pYieldPrincipal s tok)) amount) (\<lambda>p.
       Ok ((), emit ''yield_dep'' [AddrArg tok, IntArg amount]
         (s\<lparr>world := w, pYieldPrincipal := (pYieldPrincipal s)(tok \<mapsto> p)\<rparr>)))))))))"

definition withdraw_from_yield :: "'w renv \<Rightarrow> address \<Rightarrow> int \<Rightarrow> 'w ledger \<Rightarrow> ('w, unit) res" where
  "withdraw_from_yield e tok amount s =
     bnd (require_circuit_closed s) (\<lambda>_.
     let principal = unwrap_or 0 (pYieldPrincipal s tok) in
     if amount \<le> 0 \<or> amount > principal then Err InvalidYieldAmount
     else
       bnd (require_role e TreasuryManager s) (\<lambda>_.
       bnd (ok_or NotInitialized (iPlatformTreasury s)) (\<lambda>treasury.
       bnd (ok_or YieldProtocolNotConfigured (iYieldProtocol s)) (\<lambda>protocol.
       bnd (unwrap (lend_withdraw e protocol treasury tok amount (world s))) (\<lambda>w.
       bnd (i128_sub principal amount) (\<lambda>remaining.
       Ok ((), emit ''yield_wdr'' [AddrArg tok, IntArg amount]
         (s\<lparr>world := w, pYieldPrincipal := (pYieldPrincipal s)
              (tok := (if remaining = 0 then None else Some remaining))\<rparr>))))))))"

definition harvest_yield :: "'w renv \<Rightarrow> address \<Rightarrow> 'w ledger \<Rightarrow> ('w, int) res" where
  "harvest_yield e tok s =
     bnd (require_circuit_closed s) (\<lambda>_.
     bnd (require_role e TreasuryManager s) (\<lambda>_.
     bnd (ok_or NotInitialized (iPlatformTreasury s)) (\<lambda>treasury.
     bnd (ok_or YieldProtocolNotConfigured (iYieldProtocol s)) (\<lambda>protocol.
     bnd (unwrap (lend_harvest e protocol treasury tok (world s))) (\<lambda>(harvested, w).
     Ok (harvested, emit ''yield_har'' [AddrArg tok, IntArg harvested] (s\<lparr>world := w\<rparr>)))))))"

definition get_yield_position :: "'w ledger \<Rightarrow> address \<Rightarrow> int" where
  "get_yield_position s tok = unwrap_or 0 (pYieldPrincipal s tok)"

section \<open>Funds out of the contract\<close>

definition recover_tokens :: "'w renv \<Rightarrow> address \<Rightarrow> int \<Rightarrow> 'w ledger \<Rightarrow> ('w, unit) res" where
  "recover_tokens e tok amount s =
     bnd (require_circuit_closed s) (\<lambda>_.
     bnd (require_role e TreasuryManager s) (\<lambda>treasury_mgr.
     bnd (transfer e tok (self e) treasury_mgr amount (world s)) (\<lambda>w.
     Ok ((), s\<lparr>world := w\<rparr>))))"

definition emergency_withdraw :: "'w renv \<Rightarrow> address \<Rightarrow> int \<Rightarrow> 'w ledger \<Rightarrow> ('w, unit) res" where
  "emergency_withdraw e tok amount = with_guard (\<lambda>s.
     bnd (require_role e TreasuryManager s) (\<lambda>treasury_mgr.
     if amount \<le> 0 then Err LimitExceeded
     else
       bnd (balance_of e tok (self e) (world s)) (\<lambda>b.
       if amount > b then Err InsufficientBalance
       else
         bnd (transfer e tok (self e) treasury_mgr amount (world s)) (\<lambda>w.
         Ok ((), s\<lparr>world := w\<rparr>)))))"

section \<open>Price feed\<close>

definition set_price_oracle :: "'w renv \<Rightarrow> address \<Rightarrow> 'w ledger \<Rightarrow> ('w, unit) res" where
  "set_price_oracle e oracle s =
     bnd (require_role e ComplianceOfficer s) (\<lambda>_.
     Ok ((), emit ''price_cfg'' [AddrArg oracle] (s\<lparr>iOracleAddress := Some oracle\<rparr>)))"

definition set_staleness_threshold :: "'w renv \<Rightarrow> nat \<Rightarrow> 'w ledger \<Rightarrow> ('w, unit) res" where
  "set_staleness_threshold e threshold_secs s =
     bnd (require_role e ComplianceOfficer s) (\<lambda>_.
     Ok ((), emit ''stale_cfg'' [NatArg threshold_secs]
       (s\<lparr>iStalenessThreshold := Some threshold_secs\<rparr>)))"

definition set_fallback_price ::
    "'w renv \<Rightarrow> address \<Rightarrow> address \<Rightarrow> int \<Rightarrow> nat \<Rightarrow> 'w ledger \<Rightarrow> ('w, unit) res" where
  "set_fallback_price e base_asset quote_asset fallback_price decs s =
     bnd (require_role e ComplianceOfficer s) (\<lambda>_.
     Ok ((), emit ''fall_cfg'' [AddrArg base_asset, AddrArg quote_asset, IntArg fallback_price]
       (s\<lparr>pFallbackPrice := (pFallbackPrice s)((base_asset, quote_asset) :=
            (if fallback_price = 0 then None
             else Some \<lparr>price = fallback_price, decimals = decs, pd_timestamp = 0\<rparr>))\<rparr>)))"

definition get_fallback_price :: "'w ledger \<Rightarrow> address \<Rightarrow> address \<Rightarrow> PriceData option" where
  "get_fallback_price s base_asset quote_asset = pFallbackPrice s (base_asset, quote_asset)"

definition fallback_or_err ::
    "'w ledger \<Rightarrow> address \<Rightarrow> address \<Rightarrow> error \<Rightarrow> ('w, PriceData) res" where
  "fallback_or_err s base quote err =
     (case pFallbackPrice s (base, quote) of Some fallback \<Rightarrow> Ok (fallback, s) | None \<Rightarrow> Err err)"

definition get_price :: "'w renv \<Rightarrow> address \<Rightarrow> address \<Rightarrow> 'w ledger \<Rightarrow> ('w, PriceData) res" where
  "get_price e base_asset quote_asset s =
     (let staleness_threshold = unwrap_or 3600 (iStalenessThreshold s) in
      case iOracleAddress s of
        None \<Rightarrow> fallback_or_err s base_asset quote_asset OracleNotConfigured
      | Some oracle \<Rightarrow>
          (case oracle_get_price e oracle base_asset quote_asset (world s) of
             None \<Rightarrow> fallback_or_err s base_asset quote_asset OracleCallFailed
           | Some price_data \<Rightarrow>
               if staleness_threshold > 0 \<and>
                  (pd_timestamp price_data = 0 \<or>
                   u64_saturating_sub (now e) (pd_timestamp price_data) > staleness_threshold)
               then fallback_or_err s base_asset quote_asset OraclePriceStale
               else if price price_data \<le> 0
               then fallback_or_err s base_asset quote_asset OraclePriceInvalid
               else Ok (price_data,
                 emit ''price_ok'' [AddrArg base_asset, AddrArg quote_asset, IntArg (price price_data)] s)))"

section \<open>Archive\<close>

definition emit_archive_committed ::
    "'w renv \<Rightarrow> nat \<Rightarrow> bytes \<Rightarrow> nat \<Rightarrow> 'w ledger \<Rightarrow> 'w ledger" where
  "emit_archive_committed e epoch root cnt s =
     emit ''archive_committed'' [NatArg epoch, BytesArg root, NatArg cnt, NatArg (now e)] s"

definition commit_archive_root ::
    "'w renv \<Rightarrow> bytes \<Rightarrow> ArchiveLeaf list \<Rightarrow> string \<Rightarrow> 'w ledger \<Rightarrow> ('w, nat) res" where
  "commit_archive_root e root leaves descr s =
     (if is_frozen_internal s then Err ContractFrozen
      else
        bnd (require_role e TreasuryManager s) (\<lambda>_.
        bnd (u64_add (unwrap_or 0 (iArchiveEpoch s)) 1) (\<lambda>new_epoch.
        let meta = \<lparr>committed_at = now e, record_count = length leaves, description = descr\<rparr>;
            s1 = s\<lparr>iArchiveEpoch := Some new_epoch,
                   pArchiveRoot := (pArchiveRoot s)(new_epoch \<mapsto> root),
                   pArchiveMeta := (pArchiveMeta s)(new_epoch \<mapsto> meta)\<rparr>
        in Ok (new_epoch, emit_archive_committed e new_epoch root (length leaves) s1))))"

definition get_archive_info :: "'w ledger \<Rightarrow> nat \<Rightarrow> (bytes \<times> ArchiveMetadata) option" where
  "get_archive_info s epoch =
     (case (pArchiveRoot s epoch, pArchiveMeta s epoch) of
        (Some r, Some m) \<Rightarrow> Some (r, m)
      | _ \<Rightarrow> None)"

definition get_archive_epoch :: "'w ledger \<Rightarrow> nat" where
  "get_archive_epoch s = unwrap_or 0 (iArchiveEpoch s)"

text \<open>The loop of \<open>prune_archived_entries\<close>: the key a leaf names, if present, is removed.\<close>

definition prune_leaf :: "ArchiveLeaf \<Rightarrow> 'w ledger \<Rightarrow> bool \<times> 'w ledger" where
  "prune_leaf leaf s =
     (case record_type leaf of
        ArUserVolume \<Rightarrow>
          (pUserVolume s (primary_key leaf) \<noteq> None,
           s\<lparr>pUserVolume := (pUserVolume s)(primary_key leaf := None)\<rparr>)
      | ArUserSpending \<Rightarrow>
          (pUserSpending s (primary_key leaf) \<noteq> None,
           s\<lparr>pUserSpending := (pUserSpending s)(primary_key leaf := None)\<rparr>)
      | ArRefundBalance \<Rightarrow>
          (pRefundBalance s (primary_key leaf, secondary_key leaf) \<noteq> None,
           s\<lparr>pRefundBalance := (pRefundBalance s)((primary_key leaf, secondary_key leaf) := None)\<rparr>))"

fun prune_loop :: "ArchiveLeaf list \<Rightarrow> nat \<Rightarrow> 'w ledger \<Rightarrow> ('w, nat) res" where
  "prune_loop [] removed s = Ok (removed, s)"
| "prune_loop (leaf # leaves) removed s =
     (let (hit, s1) = prune_leaf leaf s in
      bnd (if hit then u32_add removed 1 else Ok removed) (\<lambda>removed1.
      prune_loop leaves removed1 s1))"

definition prune_archived_entries ::
    "'w renv \<Rightarrow> nat \<Rightarrow> ArchiveLeaf list \<Rightarrow> 'w ledger \<Rightarrow> ('w, nat) res" where
  "prune_archived_entries e committed_epoch leaves s =
     (if is_frozen_internal s then Err ContractFrozen
      else
        bnd (require_role e TreasuryManager s) (\<lambda>_.
        if pArchiveRoot s committed_epoch = None then Err TimelockNotFound
        else
          bnd (prune_loop leaves 0 s) (\<lambda>(removed, s1).
          Ok (removed, emit ''entries_pruned''
            [NatArg committed_epoch, NatArg removed, NatArg (now e)] s1))))"

section \<open>The yield account of the treasury\<close>

datatype yield_step = Deposit address int | Withdraw address int | Harvest address

fun run_yield :: "('w renv \<times> yield_step) list \<Rightarrow> 'w ledger \<Rightarrow> (error, 'w ledger) outcome" where
  "run_yield [] s = Ok s"
| "run_yield ((e, Deposit tok a) # xs) s = bnd (deposit_to_yield e tok a s) (\<lambda>(_, s1). run_yield xs s1)"
| "run_yield ((e, Withdraw tok a) # xs) s = bnd (withdraw_from_yield e tok a s) (\<lambda>(_, s1). run_yield xs s1)"
| "run_yield ((e, Harvest tok) # xs) s = bnd (harvest_yield e tok s) (\<lambda>(_, s1). run_yield xs s1)"

fun principal_change :: "address \<Rightarrow> yield_step \<Rightarrow> int" where
  "principal_change tok (Deposit tok' a) = (if tok' = tok then a else 0)"
| "principal_change tok (Withdraw tok' a) = (if tok' = tok then - a else 0)"
| "principal_change tok (Harvest tok') = 0"

definition principals_ok :: "'w ledger \<Rightarrow> bool" where
  "principals_ok s \<longleftrightarrow> (\<forall>tok p. pYieldPrincipal s tok = Some p \<longrightarrow> 0 < p \<and> i128_ok p)"

lemma deposit_to_yield_OkD:
  assumes "deposit_to_yield e tok a s = Ok (u, s')"
  shows "0 < a \<and> pYieldPrincipal s' = (pYieldPrincipal s)(tok \<mapsto> get_yield_position s tok + a)
    \<and> i128_ok (get_yield_position s tok + a)"
  using assms
  by (auto simp: deposit_to_yield_def outcome_simps i128_add_def get_yield_position_def split: if_splits)

lemma withdraw_from_yield_OkD:
  assumes "withdraw_from_yield e tok a s = Ok (u, s')"
  shows "0 < a \<and> a \<le> get_yield_position s tok \<and> i128_ok (get_yield_position s tok - a)
    \<and> pYieldPrincipal s' = (pYieldPrincipal s)(tok :=
         (if get_yield_position s tok = a then None else Some (get_yield_position s tok - a)))"
  using assms
  by (auto simp: withdraw_from_yield_def outcome_simps i128_sub_def get_yield_position_def Let_def
      split: if_splits)

lemma harvest_yield_OkD:
  "harvest_yield e tok s = Ok (h, s') \<Longrightarrow> pYieldPrincipal s' = pYieldPrincipal s"
  by (auto simp: harvest_yield_def outcome_simps)

lemma yield_position_nonneg: "principals_ok s \<Longrightarrow> 0 \<le> get_yield_position s tok"
  by (cases "pYieldPrincipal s tok") (auto simp: principals_ok_def get_yield_position_def dest: less_imp_le)

lemma yield_deposit_effect:
  assumes "principals_ok s" "deposit_to_yield e tok a s = Ok (u, s')"
  shows "principals_ok s' \<and>
    (\<forall>t. get_yield_position s' t = get_yield_position s t + (if tok = t then a else 0))"
  using deposit_to_yield_OkD [OF assms(2)] assms(1) yield_position_nonneg [OF assms(1), of tok]
  by (simp add: principals_ok_def) (simp add: get_yield_position_def)

lemma yield_withdraw_effect:
  assumes "principals_ok s" "withdraw_from_yield e tok a s = Ok (u, s')"
  shows "principals_ok s' \<and>
    (\<forall>t. get_yield_position s' t = get_yield_position s t - (if tok = t then a else 0))"
  using withdraw_from_yield_OkD [OF assms(2)] assms(1)
  by (simp add: principals_ok_def) (simp add: get_yield_position_def)

lemma yield_harvest_effect:
  assumes "principals_ok s" "harvest_yield e tok s = Ok (h, s')"
  shows "principals_ok s' \<and> (\<forall>t. get_yield_position s' t = get_yield_position s t)"
  using harvest_yield_OkD [OF assms(2)] assms(1) by (simp add: principals_ok_def get_yield_position_def)

lemma run_yield_account:
  assumes "principals_ok s" "run_yield xs s = Ok s'"
  shows "principals_ok s' \<and>
    (\<forall>t. get_yield_position s' t =
       get_yield_position s t + sum_list (map (\<lambda>(e, x). principal_change t x) xs))"
  using assms
proof (induction xs s rule: run_yield.induct)
  case (2 e tok a xs s)
  then obtain u s1 where "deposit_to_yield e tok a s = Ok (u, s1)" "run_yield xs s1 = Ok s'"
    by (auto simp: bnd_eq_Ok)
  with 2 yield_deposit_effect [OF 2(2)] show ?case by fastforce
next
  case (3 e tok a xs s)
  then obtain u s1 where "withdraw_from_yield e tok a s = Ok (u, s1)" "run_yield xs s1 = Ok s'"
    by (auto simp: bnd_eq_Ok)
  with 3 yield_withdraw_effect [OF 3(2)] show ?case by fastforce
next
  case (4 e tok xs s)
  then obtain u s1 where "harvest_yield e tok s = Ok (u, s1)" "run_yield xs s1 = Ok s'"
    by (auto simp: bnd_eq_Ok)
  with 4 yield_harvest_effect [OF 4(2)] show ?case by fastforce
qed simp

text \<open>C39: The yield account: after any sequence of deposits, withdrawals and harvests that went
  through, the recorded principal of every token is what it was plus the deposits minus the
  withdrawals and is never negative; and no withdrawal, whoever calls it, gets more than the
  principal recorded at that moment.\<close>

theorem yield_account:
  assumes "principals_ok s" "run_yield xs s = Ok s'"
  shows "(\<forall>tok. get_yield_position s' tok =
           get_yield_position s tok + sum_list (map (\<lambda>(e, x). principal_change tok x) xs)
         \<and> 0 \<le> get_yield_position s' tok)
    \<and> (\<forall>e tok a u s''. withdraw_from_yield e tok a s' = Ok (u, s'') \<longrightarrow>
           0 < a \<and> a \<le> get_yield_position s' tok)"
proof -
  note acc = run_yield_account [OF assms]
  then have "0 \<le> get_yield_position s' tok" for tok by (blast intro: yield_position_nonneg)
  with acc show ?thesis using withdraw_from_yield_OkD by blast
qed

definition sample_yield_ledger :: "sworld ledger" where
  "sample_yield_ledger = sample_ledger\<lparr>iYieldProtocol := Some 70\<rparr>"

theorem yield_account_witness:
  "\<exists>s'. run_yield [(sample_env 1, Deposit 50 900), (sample_env 2, Withdraw 50 300),
          (sample_env 3, Harvest 50)] sample_yield_ledger = Ok s'
     \<and> get_yield_position s' 50 = 600"
proof -
  let ?xs = "[(sample_env 1, Deposit 50 900), (sample_env 2, Withdraw 50 300), (sample_env 3, Harvest 50)]"
  have ok: "principals_ok sample_yield_ledger" "get_yield_position sample_yield_ledger 50 = 0"
    by (simp_all add: principals_ok_def get_yield_position_def sample_yield_ledger_def
        sample_ledger_def fresh_ledger_def)
  obtain s' where run: "run_yield ?xs sample_yield_ledger = Ok s'"
    by (simp add: deposit_to_yield_def withdraw_from_yield_def harvest_yield_def require_auth_def
        require_role_def require_circuit_closed_def require_not_fully_halted_def get_pause_level_def
        i128_add_def i128_sub_def i128_ok_def Let_def sample_yield_ledger_def sample_ledger_def
        fresh_ledger_def)
  from yield_account [OF ok(1) run] run ok(2) show ?thesis by auto
qed

section \<open>Which price is served\<close>

text \<open>A reading of the configured oracle that may be used at the current time.\<close>

definition live_price :: "'w renv \<Rightarrow> 'w ledger \<Rightarrow> address \<Rightarrow> address \<Rightarrow> PriceData option" where
  "live_price e s base quote =
     (case iOracleAddress s of
        None \<Rightarrow> None
      | Some oracle \<Rightarrow>
          (case oracle_get_price e oracle base quote (world s) of
             None \<Rightarrow> None
           | Some p \<Rightarrow>
               let max_age = unwrap_or 3600 (iStalenessThreshold s) in
               if 0 < price p \<and> (max_age = 0 \<or> (pd_timestamp p \<noteq> 0 \<and> now e \<le> pd_timestamp p + max_age))
               then Some p else None))"

lemma get_price_live:
  "live_price e s b q = Some p \<Longrightarrow>
   get_price e b q s = Ok (p, emit ''price_ok'' [AddrArg b, AddrArg q, IntArg (price p)] s)"
  by (auto simp: live_price_def get_price_def Let_def u64_saturating_sub_def
      split: option.splits if_splits)

lemma get_price_fallback:
  "live_price e s b q = None \<Longrightarrow>
   \<exists>x\<in>{OracleNotConfigured, OracleCallFailed, OraclePriceStale, OraclePriceInvalid}.
     get_price e b q s = fallback_or_err s b q x"
  by (auto simp: live_price_def get_price_def Let_def u64_saturating_sub_def
      split: option.splits if_splits)

text \<open>The price feed serves a reading of the configured oracle only when it is positive and, unless
  the staleness check is off, not older than the threshold; in every other case it serves the stored
  fallback of the pair and, when there is none, one of the four oracle errors: it never traps. A
  fallback is served with the value the compliance officer stored, be it negative; storing zero
  removes it.\<close>

theorem price_feed:
  fixes s :: "'w ledger"
  assumes "set_fallback_price e' b q f d s0 = Ok ((), s)"
  shows "(case live_price e s b q of
      Some p \<Rightarrow> get_price e b q s = Ok (p, emit ''price_ok'' [AddrArg b, AddrArg q, IntArg (price p)] s)
              \<and> 0 < price p
    | None \<Rightarrow> (if f = 0
        then \<exists>x\<in>{OracleNotConfigured, OracleCallFailed, OraclePriceStale, OraclePriceInvalid}.
               get_price e b q s = Err x
        else get_price e b q s = Ok (\<lparr>price = f, decimals = d, pd_timestamp = 0\<rparr>, s)))"
proof (cases "live_price e s b q")
  case (Some p)
  then have "0 < price p" by (auto simp: live_price_def Let_def split: option.splits if_splits)
  with Some show ?thesis by (simp add: get_price_live del: emit_def)
next
  case None
  have "pFallbackPrice s (b, q) =
      (if f = 0 then None else Some \<lparr>price = f, decimals = d, pd_timestamp = 0\<rparr>)"
    using assms by (auto simp: set_fallback_price_def outcome_simps)
  with get_price_fallback [OF None] None show ?thesis
    by (auto simp: fallback_or_err_def)
qed

text \<open>The oracle's reading of 250 at time 5000 is fresh; without an oracle the fallback of -5 is served.\<close>

theorem price_feed_witness:
  "\<exists>s s'. set_fallback_price (sample_env 5000) 50 51 (- 5) 2 (sample_ledger\<lparr>iOracleAddress := None\<rparr>) = Ok ((), s)
     \<and> (\<exists>p. get_price (sample_env 5000) 50 51 s = Ok (p, s) \<and> price p = - 5)
     \<and> set_fallback_price (sample_env 5000) 50 51 0 0 (sample_ledger\<lparr>iOracleAddress := Some 80\<rparr>) = Ok ((), s')
     \<and> (\<exists>p t. get_price (sample_env 5000) 50 51 s' = Ok (p, t) \<and> price p = 250)"
proof -
  let ?e = "sample_env 5000"
  obtain s s' where
    s: "set_fallback_price ?e 50 51 (- 5) 2 (sample_ledger\<lparr>iOracleAddress := None\<rparr>) = Ok ((), s)"
      "iOracleAddress s = None"
    and s': "set_fallback_price ?e 50 51 0 0 (sample_ledger\<lparr>iOracleAddress := Some 80\<rparr>) = Ok ((), s')"
      "iOracleAddress s' = Some 80" "iStalenessThreshold s' = None"
    by (simp add: set_fallback_price_def require_role_def require_auth_def)
      (simp add: sample_ledger_def fresh_ledger_def)
  have l: "live_price ?e s 50 51 = None"
    "live_price ?e s' 50 51 = Some \<lparr>price = 250, decimals = 2, pd_timestamp = 5000\<rparr>"
    using s(2) s'(2,3) by (simp_all add: live_price_def)
  from price_feed [OF s(1), of ?e] price_feed [OF s'(1), of ?e] l s(1) s'(1) show ?thesis
    by fastforce
qed

section \<open>The archive as a log\<close>

definition archive_ok :: "'w ledger \<Rightarrow> bool" where
  "archive_ok s \<longleftrightarrow> (\<forall>n. (pArchiveRoot s n \<noteq> None \<longleftrightarrow> 0 < n \<and> n \<le> get_archive_epoch s) \<and>
     (pArchiveMeta s n \<noteq> None \<longleftrightarrow> 0 < n \<and> n \<le> get_archive_epoch s))"

definition archive_log :: "'w ledger \<Rightarrow> (bytes \<times> ArchiveMetadata) option list" where
  "archive_log s = map (get_archive_info s) [1..<Suc (get_archive_epoch s)]"

datatype archive_key = VolumeKey address | SpendingKey address | RefundKey address address

fun leaf_key :: "ArchiveLeaf \<Rightarrow> archive_key" where
  "leaf_key l = (case record_type l of
      ArUserVolume \<Rightarrow> VolumeKey (primary_key l)
    | ArUserSpending \<Rightarrow> SpendingKey (primary_key l)
    | ArRefundBalance \<Rightarrow> RefundKey (primary_key l) (secondary_key l))"

fun stored :: "'w ledger \<Rightarrow> archive_key \<Rightarrow> bool" where
  "stored s (VolumeKey a) = (pUserVolume s a \<noteq> None)"
| "stored s (SpendingKey a) = (pUserSpending s a \<noteq> None)"
| "stored s (RefundKey a t) = (pRefundBalance s (a, t) \<noteq> None)"

text \<open>The ledger without the archivable records named by \<open>K\<close>.\<close>

definition drop_keys :: "archive_key set \<Rightarrow> 'w ledger \<Rightarrow> 'w ledger" where
  "drop_keys K s = s\<lparr>
     pUserVolume := (\<lambda>a. if VolumeKey a \<in> K then None else pUserVolume s a),
     pUserSpending := (\<lambda>a. if SpendingKey a \<in> K then None else pUserSpending s a),
     pRefundBalance := (\<lambda>(a, t). if RefundKey a t \<in> K then None else pRefundBalance s (a, t))\<rparr>"

lemma drop_keys_empty [simp]: "drop_keys {} s = s"
  by (simp add: drop_keys_def)

lemma drop_keys_twice: "drop_keys K (drop_keys L s) = drop_keys (L \<union> K) s"
  by (auto simp: drop_keys_def fun_eq_iff)

lemma stored_drop_keys: "stored (drop_keys K s) k \<longleftrightarrow> stored s k \<and> k \<notin> K"
  by (cases k) (auto simp: drop_keys_def)

lemma prune_leaf_eq: "prune_leaf l s = (stored s (leaf_key l), drop_keys {leaf_key l} s)"
  by (auto simp: prune_leaf_def drop_keys_def fun_eq_iff split: ArchiveRecordType.splits)

lemma prune_loop_eq:
  "u32_ok (n + length leaves) \<Longrightarrow> prune_loop leaves n s =
     Ok (n + card {k \<in> leaf_key ` set leaves. stored s k}, drop_keys (leaf_key ` set leaves) s)"
proof (induction leaves arbitrary: n s)
  case (Cons l leaves)
  let ?k = "leaf_key l" and ?K = "leaf_key ` set leaves"
  have step: "prune_loop (l # leaves) n s =
      prune_loop leaves (if stored s ?k then n + 1 else n) (drop_keys {?k} s)"
    using Cons.prems by (auto simp: prune_leaf_eq u32_add_def u32_ok_def simp del: leaf_key.simps)
  have "{k \<in> leaf_key ` set (l # leaves). stored s k} =
      (if stored s ?k then insert ?k {k \<in> ?K. stored s k \<and> k \<noteq> ?k} else {k \<in> ?K. stored s k \<and> k \<noteq> ?k})"
    by auto
  moreover have "finite {k \<in> ?K. stored s k \<and> k \<noteq> ?k}" by simp
  ultimately have "card {k \<in> leaf_key ` set (l # leaves). stored s k} =
      (if stored s ?k then 1 else 0) + card {k \<in> ?K. stored s k \<and> k \<noteq> ?k}"
    by (simp del: leaf_key.simps)
  with step Cons.IH [of "if stored s ?k then n + 1 else n" "drop_keys {?k} s"] Cons.prems show ?case
    by (simp add: stored_drop_keys drop_keys_twice u32_ok_def del: leaf_key.simps split: if_splits)
qed simp

lemma commit_archive_root_eq:
  "commit_archive_root e root leaves descr s = Ok (n, s') \<longleftrightarrow>
     \<not> is_frozen_internal s \<and> (\<exists>a. require_role e TreasuryManager s = Ok a)
   \<and> n = Suc (get_archive_epoch s) \<and> u64_ok n
   \<and> s' = emit_archive_committed e n root (length leaves) (s\<lparr>iArchiveEpoch := Some n,
        pArchiveRoot := (pArchiveRoot s)(n \<mapsto> root),
        pArchiveMeta := (pArchiveMeta s)(n \<mapsto>
          \<lparr>committed_at = now e, record_count = length leaves, description = descr\<rparr>)\<rparr>)"
  by (auto simp: commit_archive_root_def get_archive_epoch_def outcome_simps u64_add_def Let_def
      split: if_splits)

lemma prune_archived_entries_eq:
  assumes "u32_ok (length leaves)"
  shows "prune_archived_entries e n leaves s = Ok (k, s') \<longleftrightarrow>
     \<not> is_frozen_internal s \<and> (\<exists>a. require_role e TreasuryManager s = Ok a) \<and> pArchiveRoot s n \<noteq> None
   \<and> k = card {k \<in> leaf_key ` set leaves. stored s k}
   \<and> s' = emit ''entries_pruned'' [NatArg n, NatArg k, NatArg (now e)] (drop_keys (leaf_key ` set leaves) s)"
  using prune_loop_eq [of 0 leaves s] assms
  by (auto simp: prune_archived_entries_def outcome_simps)

text \<open>The archive is an append-only log: committing a root appends it with its metadata as the
  next epoch and touches no earlier one. Pruning needs a committed epoch, leaves the log as it is,
  removes exactly the volume, spending and refund records its leaves name, counting those that
  existed, and no other entry; the leaves need not be those the root was computed from.\<close>

theorem archive_log_append_only:
  fixes s :: "'w ledger"
  assumes "archive_ok s" "u32_ok (length leaves)"
  shows "(commit_archive_root e root leaves descr s = Ok (n, s') \<longrightarrow>
        archive_ok s' \<and> n = length (archive_log s')
      \<and> archive_log s' = archive_log s @
          [Some (root, \<lparr>committed_at = now e, record_count = length leaves, description = descr\<rparr>)])
    \<and> (prune_archived_entries e n leaves s = Ok (k, s') \<longrightarrow>
        archive_ok s' \<and> archive_log s' = archive_log s \<and> 0 < n \<and> n \<le> length (archive_log s)
      \<and> k = card {k \<in> leaf_key ` set leaves. stored s k}
      \<and> s' = emit ''entries_pruned'' [NatArg n, NatArg k, NatArg (now e)]
          (drop_keys (leaf_key ` set leaves) s))"
proof (intro conjI [of "_ \<longrightarrow> _"] impI)
  assume "commit_archive_root e root leaves descr s = Ok (n, s')"
  then have c: "n = Suc (get_archive_epoch s)" "get_archive_epoch s' = n"
    "pArchiveRoot s' = (pArchiveRoot s)(n \<mapsto> root)"
    "pArchiveMeta s' = (pArchiveMeta s)(n \<mapsto>
       \<lparr>committed_at = now e, record_count = length leaves, description = descr\<rparr>)"
    by (auto simp: commit_archive_root_eq emit_archive_committed_def get_archive_epoch_def)
  then have "archive_ok s'" using assms(1) by (auto simp: archive_ok_def)
  moreover have "get_archive_info s' i = get_archive_info s i" if "i < n" for i
    using that c by (simp add: get_archive_info_def)
  ultimately show "archive_ok s' \<and> n = length (archive_log s') \<and> archive_log s' = archive_log s @
      [Some (root, \<lparr>committed_at = now e, record_count = length leaves, description = descr\<rparr>)]"
    using c by (simp add: archive_log_def) (simp add: get_archive_info_def)
next
  assume p: "prune_archived_entries e n leaves s = Ok (k, s')"
  then have "pArchiveRoot s n \<noteq> None" "pArchiveRoot s' = pArchiveRoot s"
    "pArchiveMeta s' = pArchiveMeta s" "iArchiveEpoch s' = iArchiveEpoch s"
    unfolding prune_archived_entries_eq [OF assms(2)] by (auto simp: drop_keys_def)
  moreover from this have "get_archive_info s' = get_archive_info s"
    by (simp add: get_archive_info_def fun_eq_iff)
  ultimately have "archive_ok s' \<and> archive_log s' = archive_log s \<and> 0 < n \<and> n \<le> length (archive_log s)"
    using assms(1) by (simp add: archive_ok_def archive_log_def get_archive_epoch_def)
  with p show "archive_ok s' \<and> archive_log s' = archive_log s \<and> 0 < n \<and> n \<le> length (archive_log s)
      \<and> k = card {k \<in> leaf_key ` set leaves. stored s k}
      \<and> s' = emit ''entries_pruned'' [NatArg n, NatArg k, NatArg (now e)]
          (drop_keys (leaf_key ` set leaves) s)"
    unfolding prune_archived_entries_eq [OF assms(2)] by blast
qed

text \<open>An epoch committed for no leaves at all lets the manager prune the refund of user 5.\<close>

theorem archive_log_append_only_witness:
  "\<exists>s1 s2. commit_archive_root (sample_env 9) [1, 2] [] ''none''
        (sample_ledger\<lparr>pRefundBalance := [(5, 50) \<mapsto> 990]\<rparr>) = Ok (1, s1)
     \<and> prune_archived_entries (sample_env 9) 1
         [\<lparr>record_type = ArRefundBalance, primary_key = 5, secondary_key = 50\<rparr>] s1 = Ok (1, s2)
     \<and> length (archive_log s2) = 1 \<and> get_refund_balance s2 5 50 = 0"
proof -
  let ?e = "sample_env 9" and ?s = "sample_ledger\<lparr>pRefundBalance := [(5, 50) \<mapsto> 990]\<rparr>"
  let ?l = "[\<lparr>record_type = ArRefundBalance, primary_key = 5, secondary_key = 50\<rparr>]"
  have ok: "archive_ok ?s" "u32_ok (length [])" "u32_ok (length ?l)" "get_archive_epoch ?s = 0"
    by (simp_all add: archive_ok_def get_archive_epoch_def u32_ok_def) (auto simp: sample_ledger_def fresh_ledger_def)
  have role: "require_role ?e TreasuryManager (t :: sworld ledger) = Ok 1" if "iRole t = iRole ?s" for t
    using that by (simp add: require_role_def require_auth_def)
  obtain s1 where c: "commit_archive_root ?e [1, 2] [] ''none'' ?s = Ok (1, s1)"
    using ok(4) role [of ?s]
    by (simp add: commit_archive_root_eq is_frozen_internal_def u64_ok_def)
  then have s1: "iRole s1 = iRole ?s" "iFrozen s1 = Some False" "pRefundBalance s1 = [(5, 50) \<mapsto> 990]"
    "pArchiveRoot s1 1 = Some [1, 2]"
    by (auto simp: commit_archive_root_eq emit_archive_committed_def)
  have "{k \<in> leaf_key ` set ?l. stored s1 k} = {RefundKey 5 50}" using s1(3) by auto
  then obtain s2 where p: "prune_archived_entries ?e 1 ?l s1 = Ok (1, s2)"
    "s2 = emit ''entries_pruned'' [NatArg 1, NatArg 1, NatArg 9] (drop_keys (leaf_key ` set ?l) s1)"
    using role [OF s1(1)] s1 by (simp add: prune_archived_entries_eq [OF ok(3)] is_frozen_internal_def)
  note one = archive_log_append_only [OF ok(1,2), THEN conjunct1, rule_format, OF c]
  note two = archive_log_append_only [OF conjunct1 [OF one] ok(3), THEN conjunct2, rule_format, OF p(1)]
  have "get_refund_balance s2 5 50 = 0" by (simp add: p(2) get_refund_balance_def drop_keys_def)
  moreover have "length (archive_log s2) = 1" using one two by metis
  ultimately show ?thesis using c p(1) by blast
qed

end
