(* ===== verification/Pausable_Token.thy ===== *)
theory Pausable_Token
  imports Host
begin

text \<open>
  The repository's own token, \<open>pausable_token/src/lib.rs\<close>: pausing, freezing (for good or until
  a time), a compliance hook, a supply cap, packed allowances and signed permits. One value of
  \<open>ptoken\<close> is the storage of one deployed token, one field per \<open>DataKey\<close>; a world of tokens
  is a map from addresses to such values, on which the token contracts of theory \<open>Host\<close> are
  interpreted at the end. \<open>panic_with_error!\<close> fails the call with a code, as an \<open>Err\<close> does.
\<close>

section \<open>State and environment\<close>

datatype token_error =
    AlreadyInitialized | NotInitialized | Unauthorized | Paused | AccountFrozen
  | InsufficientBalance | InsufficientAllowance | InvalidAmount | InvalidExpiration
  | PermitExpired | InvalidSignature | InvalidNonce | PermitDeadlineTooFar
  | InsufficientTransferable | NotRegisteredLiquidator | AllowanceExpired
  | ComplianceCheckFailed | SupplyCapExceeded | BatchSizeExceeded | BatchLengthMismatch

record ptoken =
  tAdmin :: "address option"
  tInitialized :: "bool option"
  tPaused :: "bool option"
  tName :: "string option"
  tSymbol :: "string option"
  tDecimals :: "nat option"
  tTotalSupply :: "int option"
  tMaxSupply :: "int option"
  tLiquidator :: "address option"
  tComplianceHook :: "address option"
  tBalance :: "address \<Rightarrow> int option"
  tFrozen :: "address \<Rightarrow> bool option"
  tFrozenUntil :: "address \<Rightarrow> nat option"
  tCollateralLocked :: "address \<Rightarrow> int option"
  tPartitionFrozen :: "address \<Rightarrow> bool option"
  tAllowance :: "address \<times> address \<Rightarrow> bytes option"
  tPermitNonce :: "address \<Rightarrow> nat option"
  tEvents :: "event list"

text \<open>
  Outside the contract: the network id, the compliance hook (\<open>None\<close> when the call fails), the
  text form of an address (\<open>to_string\<close>) and the XDR encodings of the permit structures.
\<close>

record penv = host +
  network_id :: bytes
  validate_transfer :: "address \<Rightarrow> address \<Rightarrow> address \<Rightarrow> int \<Rightarrow> bool option"
  strkey :: "address \<Rightarrow> bytes"
  xdr_domain :: "string \<Rightarrow> nat \<Rightarrow> bytes \<Rightarrow> address \<Rightarrow> bytes"
  xdr_permit :: "bytes \<Rightarrow> address \<Rightarrow> address \<Rightarrow> int \<Rightarrow> nat \<Rightarrow> nat \<Rightarrow> bytes"

type_synonym 'a tres = "(token_error, 'a \<times> ptoken) outcome"

definition MAX_PERMIT_LIFETIME_SECONDS :: nat where
  [const_defs]: "MAX_PERMIT_LIFETIME_SECONDS = 30 * 24 * 60 * 60"
definition DEFAULT_MAX_SUPPLY :: int where [const_defs]: "DEFAULT_MAX_SUPPLY = 10000000000000000"
definition MAX_BATCH_SIZE :: nat where [const_defs]: "MAX_BATCH_SIZE = 30"
definition U32_MAX :: nat where [const_defs]: "U32_MAX = 2 ^ 32 - 1"

definition log_event :: "string \<Rightarrow> evarg list \<Rightarrow> ptoken \<Rightarrow> ptoken" where
  [simp]: "log_event topic args s = s\<lparr>tEvents := tEvents s @ [Event topic args]\<rparr>"

section \<open>Packed allowances\<close>

definition pack_allowance :: "int \<Rightarrow> nat \<Rightarrow> bytes" where
  "pack_allowance amount expiration_ledger = i128_be amount @ u32_be expiration_ledger"

definition unpack_allowance :: "bytes \<Rightarrow> int \<times> nat" where
  "unpack_allowance buf = (be_i128 (bslice 0 16 buf), be_nat (bslice 16 20 buf))"

interpretation allowance_codec: packed_codec
  "\<lambda>(a, x). pack_allowance a x" unpack_allowance "\<lambda>(a, x). i128_ok a \<and> u32_ok x" 20
  by unfold_locales (auto simp: pack_allowance_def unpack_allowance_def)

record Allowance =
  al_amount :: int
  expiration_ledger :: nat

text \<open>An entry with an amount whose expiry has passed reads as zero and is pruned.\<close>

definition read_allowance :: "penv \<Rightarrow> address \<Rightarrow> address \<Rightarrow> ptoken \<Rightarrow> Allowance \<times> ptoken" where
  "read_allowance e from spender s =
     (let (amount, expiration) =
        (case tAllowance s (from, spender) of Some packed \<Rightarrow> unpack_allowance packed | None \<Rightarrow> (0, 0))
      in if amount > 0 \<and> expiration < seq e
         then (\<lparr>al_amount = 0, expiration_ledger = expiration\<rparr>,
               s\<lparr>tAllowance := (tAllowance s)((from, spender) := None)\<rparr>)
         else (\<lparr>al_amount = amount, expiration_ledger = expiration\<rparr>, s))"

definition write_allowance :: "address \<Rightarrow> address \<Rightarrow> Allowance \<Rightarrow> ptoken \<Rightarrow> ptoken" where
  "write_allowance from spender v s =
     s\<lparr>tAllowance := (tAllowance s)((from, spender) :=
        (if al_amount v = 0 then None else Some (pack_allowance (al_amount v) (expiration_ledger v))))\<rparr>"

section \<open>Guards\<close>

definition require_admin_auth :: "penv \<Rightarrow> ptoken \<Rightarrow> (token_error, address) outcome" where
  "require_admin_auth e s =
     bnd (ok_or NotInitialized (tAdmin s)) (\<lambda>admin. bnd (require_auth e admin) (\<lambda>_. Ok admin))"

definition token_is_paused :: "ptoken \<Rightarrow> bool" where
  "token_is_paused s = unwrap_or False (tPaused s)"

definition token_is_frozen :: "penv \<Rightarrow> address \<Rightarrow> ptoken \<Rightarrow> bool" where
  "token_is_frozen e account s =
     (if unwrap_or False (tFrozen s account) then True
      else case tFrozenUntil s account of
        Some frozen_until \<Rightarrow> now e < frozen_until
      | None \<Rightarrow> False)"

definition is_partition_frozen_internal :: "address \<Rightarrow> ptoken \<Rightarrow> bool" where
  "is_partition_frozen_internal account s = unwrap_or False (tPartitionFrozen s account)"

definition read_collateral_locked :: "address \<Rightarrow> ptoken \<Rightarrow> int" where
  "read_collateral_locked account s = unwrap_or 0 (tCollateralLocked s account)"

definition read_balance :: "address \<Rightarrow> ptoken \<Rightarrow> int" where
  "read_balance account s = unwrap_or 0 (tBalance s account)"

definition read_transferable :: "address \<Rightarrow> ptoken \<Rightarrow> (token_error, int) outcome" where
  "read_transferable account s = i128_sub (read_balance account s) (read_collateral_locked account s)"

definition assert_transferable :: "address \<Rightarrow> int \<Rightarrow> ptoken \<Rightarrow> (token_error, unit) outcome" where
  "assert_transferable account amount s =
     (if is_partition_frozen_internal account s then Err AccountFrozen
      else bnd (read_transferable account s) (\<lambda>t.
        if t < amount then Err InsufficientTransferable else Ok ()))"

definition assert_movable :: "penv \<Rightarrow> address \<Rightarrow> ptoken \<Rightarrow> (token_error, unit) outcome" where
  "assert_movable e account s =
     (if token_is_paused s then Err Paused
      else if token_is_frozen e account s then Err AccountFrozen else Ok ())"

definition assert_settled :: "penv \<Rightarrow> address \<Rightarrow> address \<Rightarrow> ptoken \<Rightarrow> (token_error, unit) outcome" where
  "assert_settled e from to s = bnd (assert_movable e from s) (\<lambda>_. assert_movable e to s)"

definition validate_compliance ::
    "penv \<Rightarrow> address \<Rightarrow> address \<Rightarrow> int \<Rightarrow> ptoken \<Rightarrow> (token_error, unit) outcome" where
  "validate_compliance e from to amount s =
     (case tComplianceHook s of
        Some hook \<Rightarrow>
          (case validate_transfer e hook from to amount of
             Some True \<Rightarrow> Ok ()
           | _ \<Rightarrow> Err ComplianceCheckFailed)
      | None \<Rightarrow> Ok ())"

definition credit :: "address \<Rightarrow> int \<Rightarrow> ptoken \<Rightarrow> (token_error, ptoken) outcome" where
  "credit account amount s =
     bnd (i128_add (read_balance account s) amount) (\<lambda>b.
     Ok (s\<lparr>tBalance := (tBalance s)(account \<mapsto> b)\<rparr>))"

definition debit :: "address \<Rightarrow> int \<Rightarrow> ptoken \<Rightarrow> (token_error, ptoken) outcome" where
  "debit account amount s =
     (if read_balance account s < amount then Err InsufficientBalance
      else bnd (i128_sub (read_balance account s) amount) (\<lambda>b.
        Ok (s\<lparr>tBalance := (tBalance s)(account \<mapsto> b)\<rparr>)))"

definition total_supply :: "ptoken \<Rightarrow> int" where
  "total_supply s = unwrap_or 0 (tTotalSupply s)"

definition max_supply :: "ptoken \<Rightarrow> int" where
  "max_supply s = unwrap_or DEFAULT_MAX_SUPPLY (tMaxSupply s)"

definition set_total_supply :: "int \<Rightarrow> ptoken \<Rightarrow> ptoken" where
  "set_total_supply supply s = s\<lparr>tTotalSupply := Some supply\<rparr>"

section \<open>Administration\<close>

definition token_initialize ::
    "penv \<Rightarrow> address \<Rightarrow> string \<Rightarrow> string \<Rightarrow> nat \<Rightarrow> ptoken \<Rightarrow> unit tres" where
  "token_initialize e admin nm sy decs s =
     (if tInitialized s \<noteq> None then Err AlreadyInitialized
      else bnd (require_auth e admin) (\<lambda>_.
        Ok ((), log_event ''init'' [AddrArg admin, StrArg sy]
          (s\<lparr>tInitialized := Some True, tAdmin := Some admin, tName := Some nm, tSymbol := Some sy,
             tDecimals := Some decs, tTotalSupply := Some 0, tMaxSupply := Some DEFAULT_MAX_SUPPLY,
             tPaused := Some False\<rparr>))))"

definition token_set_admin :: "penv \<Rightarrow> address \<Rightarrow> ptoken \<Rightarrow> unit tres" where
  "token_set_admin e new_admin s =
     bnd (require_admin_auth e s) (\<lambda>_.
     if token_is_frozen e new_admin s then Err AccountFrozen
     else Ok ((), log_event ''setadmin'' [AddrArg new_admin] (s\<lparr>tAdmin := Some new_admin\<rparr>)))"

definition token_set_paused :: "penv \<Rightarrow> bool \<Rightarrow> ptoken \<Rightarrow> unit tres" where
  "token_set_paused e paused s =
     bnd (require_admin_auth e s) (\<lambda>admin.
     Ok ((), log_event (if paused then ''paused'' else ''unpause'') [AddrArg admin, NatArg (seq e)]
       (s\<lparr>tPaused := Some paused\<rparr>)))"

definition set_frozen :: "penv \<Rightarrow> address \<Rightarrow> bool \<Rightarrow> ptoken \<Rightarrow> unit tres" where
  "set_frozen e account frozen s =
     bnd (require_admin_auth e s) (\<lambda>admin.
     let s1 = (if frozen then s\<lparr>tFrozen := (tFrozen s)(account \<mapsto> True)\<rparr>
               else s\<lparr>tFrozen := (tFrozen s)(account := None),
                      tFrozenUntil := (tFrozenUntil s)(account := None)\<rparr>)
     in Ok ((), log_event (if frozen then ''frozen'' else ''unfreeze'')
          [AddrArg admin, AddrArg account, NatArg (seq e)] s1))"

definition freeze_account_until :: "penv \<Rightarrow> address \<Rightarrow> nat \<Rightarrow> ptoken \<Rightarrow> unit tres" where
  "freeze_account_until e account until_timestamp s =
     bnd (require_admin_auth e s) (\<lambda>admin.
     if until_timestamp \<le> now e
     then Ok ((), log_event ''unfreeze'' [AddrArg admin, AddrArg account, NatArg (seq e)]
            (s\<lparr>tFrozenUntil := (tFrozenUntil s)(account := None)\<rparr>))
     else Ok ((), log_event ''frz_until'' [AddrArg admin, AddrArg account, NatArg until_timestamp]
            (s\<lparr>tFrozenUntil := (tFrozenUntil s)(account \<mapsto> until_timestamp)\<rparr>)))"

definition cancel_freeze :: "penv \<Rightarrow> address \<Rightarrow> ptoken \<Rightarrow> unit tres" where
  "cancel_freeze e account s =
     bnd (require_admin_auth e s) (\<lambda>admin.
     Ok ((), log_event ''unfreeze'' [AddrArg admin, AddrArg account, NatArg (seq e)]
       (s\<lparr>tFrozen := (tFrozen s)(account := None),
          tFrozenUntil := (tFrozenUntil s)(account := None)\<rparr>)))"

definition cancel_freeze_until :: "penv \<Rightarrow> address \<Rightarrow> ptoken \<Rightarrow> unit tres" where
  "cancel_freeze_until e account s =
     bnd (require_admin_auth e s) (\<lambda>admin.
     Ok ((), log_event ''unfreeze'' [AddrArg admin, AddrArg account, NatArg (seq e)]
       (s\<lparr>tFrozenUntil := (tFrozenUntil s)(account := None)\<rparr>)))"

definition frozen_until :: "address \<Rightarrow> ptoken \<Rightarrow> nat" where
  "frozen_until account s = unwrap_or 0 (tFrozenUntil s account)"

definition set_compliance_hook :: "penv \<Rightarrow> address \<Rightarrow> ptoken \<Rightarrow> unit tres" where
  "set_compliance_hook e hook s =
     bnd (require_admin_auth e s) (\<lambda>admin.
     Ok ((), log_event ''set_hook'' [AddrArg admin, AddrArg hook] (s\<lparr>tComplianceHook := Some hook\<rparr>)))"

definition remove_compliance_hook :: "penv \<Rightarrow> ptoken \<Rightarrow> unit tres" where
  "remove_compliance_hook e s =
     bnd (require_admin_auth e s) (\<lambda>admin.
     Ok ((), log_event ''del_hook'' [AddrArg admin] (s\<lparr>tComplianceHook := None\<rparr>)))"

definition set_max_supply :: "penv \<Rightarrow> int \<Rightarrow> ptoken \<Rightarrow> unit tres" where
  "set_max_supply e new_max_supply s =
     bnd (require_admin_auth e s) (\<lambda>admin.
     if new_max_supply < 0 then Err InvalidAmount
     else if new_max_supply < total_supply s then Err SupplyCapExceeded
     else Ok ((), log_event ''set_cap'' [AddrArg admin, IntArg new_max_supply]
            (s\<lparr>tMaxSupply := Some new_max_supply\<rparr>)))"

section \<open>Transfers\<close>

definition transfer_checked :: "penv \<Rightarrow> address \<Rightarrow> address \<Rightarrow> int \<Rightarrow> ptoken \<Rightarrow> unit tres" where
  "transfer_checked e from to amount s =
     (if amount < 0 then Err InvalidAmount
      else
        bnd (assert_settled e from to s) (\<lambda>_.
        bnd (require_auth e from) (\<lambda>_.
        bnd (validate_compliance e from to amount s) (\<lambda>_.
        bnd (debit from amount s) (\<lambda>s1.
        bnd (credit to amount s1) (\<lambda>s2.
        Ok ((), log_event ''transfer'' [AddrArg from, AddrArg to, IntArg amount] s2)))))))"

definition transfer_from_checked ::
    "penv \<Rightarrow> address \<Rightarrow> address \<Rightarrow> address \<Rightarrow> int \<Rightarrow> ptoken \<Rightarrow> unit tres" where
  "transfer_from_checked e spender from to amount s =
     (if amount < 0 then Err InvalidAmount
      else
        bnd (assert_settled e from to s) (\<lambda>_.
        bnd (assert_movable e spender s) (\<lambda>_.
        bnd (require_auth e spender) (\<lambda>_.
        let (allowance, s1) = read_allowance e from spender s in
        if al_amount allowance < amount then Err InsufficientAllowance
        else
          bnd (validate_compliance e from to amount s1) (\<lambda>_.
          bnd (i128_sub (al_amount allowance) amount) (\<lambda>rest.
          let s2 = write_allowance from spender (allowance\<lparr>al_amount := rest\<rparr>) s1 in
          bnd (debit from amount s2) (\<lambda>s3.
          bnd (credit to amount s3) (\<lambda>s4.
          Ok ((), log_event ''transfer'' [AddrArg from, AddrArg to, IntArg amount] s4)))))))))"

definition transfer_allowed :: "penv \<Rightarrow> address \<Rightarrow> address \<Rightarrow> ptoken \<Rightarrow> bool" where
  "transfer_allowed e from to s =
     (assert_settled e from to s = Ok () \<and> \<not> is_partition_frozen_internal from s)"

definition token_allowance :: "penv \<Rightarrow> address \<Rightarrow> address \<Rightarrow> ptoken \<Rightarrow> int tres" where
  "token_allowance e from spender s =
     (let (a, s1) = read_allowance e from spender s in Ok (al_amount a, s1))"

definition approve :: "penv \<Rightarrow> address \<Rightarrow> address \<Rightarrow> int \<Rightarrow> nat \<Rightarrow> ptoken \<Rightarrow> unit tres" where
  "approve e from spender amount expiration s =
     (if amount < 0 then Err InvalidAmount
      else if amount > 0 \<and> expiration < seq e then Err InvalidExpiration
      else
        bnd (assert_movable e from s) (\<lambda>_.
        if is_partition_frozen_internal from s then Err AccountFrozen
        else
          bnd (require_auth e from) (\<lambda>_.
          let s1 = write_allowance from spender \<lparr>al_amount = amount, expiration_ledger = expiration\<rparr> s in
          Ok ((), log_event ''approve'' [AddrArg from, AddrArg spender, IntArg amount, NatArg expiration] s1))))"

definition burn :: "penv \<Rightarrow> address \<Rightarrow> int \<Rightarrow> ptoken \<Rightarrow> unit tres" where
  "burn e from amount s =
     (if amount < 0 then Err InvalidAmount
      else
        bnd (assert_movable e from s) (\<lambda>_.
        bnd (assert_transferable from amount s) (\<lambda>_.
        bnd (require_auth e from) (\<lambda>_.
        bnd (debit from amount s) (\<lambda>s1.
        bnd (i128_sub (total_supply s1) amount) (\<lambda>supply.
        Ok ((), log_event ''burn'' [AddrArg from, IntArg amount] (set_total_supply supply s1))))))))"

definition burn_from :: "penv \<Rightarrow> address \<Rightarrow> address \<Rightarrow> int \<Rightarrow> ptoken \<Rightarrow> unit tres" where
  "burn_from e spender from amount s =
     (if amount < 0 then Err InvalidAmount
      else
        bnd (assert_movable e from s) (\<lambda>_.
        bnd (assert_transferable from amount s) (\<lambda>_.
        bnd (assert_movable e spender s) (\<lambda>_.
        bnd (require_auth e spender) (\<lambda>_.
        let (allowance, s1) = read_allowance e from spender s in
        if expiration_ledger allowance > 0 \<and> seq e > expiration_ledger allowance then Err AllowanceExpired
        else if al_amount allowance < amount then Err InsufficientAllowance
        else
          bnd (i128_sub (al_amount allowance) amount) (\<lambda>rest.
          let s2 = write_allowance from spender (allowance\<lparr>al_amount := rest\<rparr>) s1 in
          bnd (debit from amount s2) (\<lambda>s3.
          bnd (i128_sub (total_supply s3) amount) (\<lambda>supply.
          Ok ((), log_event ''burn'' [AddrArg from, IntArg amount] (set_total_supply supply s3))))))))))"

section \<open>Minting\<close>

definition mint :: "penv \<Rightarrow> address \<Rightarrow> int \<Rightarrow> ptoken \<Rightarrow> unit tres" where
  "mint e to amount s =
     bnd (require_admin_auth e s) (\<lambda>_.
     if amount \<le> 0 then Err InvalidAmount
     else
       bnd (assert_movable e to s) (\<lambda>_.
       bnd (ok_or SupplyCapExceeded (i128_checked_add (total_supply s) amount)) (\<lambda>new_supply.
       if new_supply > max_supply s then Err SupplyCapExceeded
       else
         bnd (credit to amount s) (\<lambda>s1.
         Ok ((), log_event ''mint'' [AddrArg to, IntArg amount] (set_total_supply new_supply s1))))))"

text \<open>The two loops of \<open>batch_mint\<close>: the checks with the running total, then the credits.\<close>

fun check_mints :: "penv \<Rightarrow> (address \<times> int) list \<Rightarrow> int \<Rightarrow> ptoken \<Rightarrow> (token_error, int) outcome" where
  "check_mints e [] acc s = Ok acc"
| "check_mints e ((recipient, amount) # xs) acc s =
     (if amount \<le> 0 then Err InvalidAmount
      else
        bnd (assert_movable e recipient s) (\<lambda>_.
        bnd (ok_or SupplyCapExceeded (i128_checked_add acc amount)) (\<lambda>acc1.
        check_mints e xs acc1 s)))"

fun credit_mints :: "(address \<times> int) list \<Rightarrow> ptoken \<Rightarrow> (token_error, ptoken) outcome" where
  "credit_mints [] s = Ok s"
| "credit_mints ((recipient, amount) # xs) s =
     bnd (credit recipient amount s) (\<lambda>s1.
     credit_mints xs (log_event ''mint'' [AddrArg recipient, IntArg amount] s1))"

definition batch_mint :: "penv \<Rightarrow> address list \<Rightarrow> int list \<Rightarrow> ptoken \<Rightarrow> unit tres" where
  "batch_mint e recipients amounts s =
     bnd (require_admin_auth e s) (\<lambda>admin.
     if recipients = [] then Err InvalidAmount
     else if length recipients > MAX_BATCH_SIZE then Err BatchSizeExceeded
     else if length recipients \<noteq> length amounts then Err BatchLengthMismatch
     else
       bnd (check_mints e (zip recipients amounts) 0 s) (\<lambda>total_batch_amount.
       bnd (ok_or SupplyCapExceeded (i128_checked_add (total_supply s) total_batch_amount)) (\<lambda>new_supply.
       if new_supply > max_supply s then Err SupplyCapExceeded
       else
         bnd (credit_mints (zip recipients amounts) s) (\<lambda>s1.
         Ok ((), log_event ''batchmint'' [AddrArg admin, IntArg total_batch_amount]
           (set_total_supply new_supply s1))))))"

section \<open>Permits\<close>

text \<open>The base-32 digit of an ASCII character, and the decoding loop of \<open>account_public_key\<close>;
  \<open>out\<close> is the part of \<open>decoded\<close> written so far, \<open>output\<close> its length.\<close>

definition base32_digit :: "byte \<Rightarrow> 32 word option" where
  "base32_digit c =
     (if 65 \<le> c \<and> c \<le> 90 then Some (ucast (c - 65))
      else if 50 \<le> c \<and> c \<le> 55 then Some (ucast (c - 50) + 26)
      else None)"

fun decode_loop :: "bytes \<Rightarrow> 32 word \<Rightarrow> nat \<Rightarrow> bytes \<Rightarrow> (token_error, bytes) outcome" where
  "decode_loop [] accumulator bits out = Ok out"
| "decode_loop (c # cs) accumulator bits out =
     bnd (ok_or InvalidSignature (base32_digit c)) (\<lambda>v.
     let acc1 = push_bit 5 accumulator OR v; bits1 = bits + 5 in
     if bits1 \<ge> 8 then
       let bits2 = bits1 - 8 in
       if length out \<ge> 35 then Err InvalidSignature
       else decode_loop cs acc1 bits2 (out @ [ucast (drop_bit bits2 acc1 AND 0xff)])
     else decode_loop cs acc1 bits1 out)"

definition account_public_key :: "penv \<Rightarrow> address \<Rightarrow> (token_error, bytes) outcome" where
  "account_public_key e owner =
     (let encoded = strkey e owner in
      if length encoded \<noteq> 56 then Err InvalidSignature
      else if encoded ! 0 \<noteq> 71 then Err InvalidSignature
      else
        bnd (decode_loop encoded 0 0 []) (\<lambda>decoded.
        if length decoded \<noteq> 35 \<or> decoded ! 0 \<noteq> 48 then Err InvalidSignature
        else Ok (bslice 1 33 decoded)))"

definition permit_nonce :: "address \<Rightarrow> ptoken \<Rightarrow> nat" where
  "permit_nonce owner s = unwrap_or 0 (tPermitNonce s owner)"

definition permit_domain_separator :: "penv \<Rightarrow> ptoken \<Rightarrow> bytes" where
  "permit_domain_separator e s =
     sha256 e (xdr_domain e (unwrap_or [] (tName s)) 1 (network_id e) (self e))"

definition permit_digest :: "penv \<Rightarrow> address \<Rightarrow> address \<Rightarrow> int \<Rightarrow> nat \<Rightarrow> nat \<Rightarrow> ptoken \<Rightarrow> bytes" where
  "permit_digest e owner spender v nonce deadline s =
     sha256 e (xdr_permit e (permit_domain_separator e s) owner spender v nonce deadline)"

definition permit ::
    "penv \<Rightarrow> address \<Rightarrow> address \<Rightarrow> int \<Rightarrow> nat \<Rightarrow> bytes \<Rightarrow> ptoken \<Rightarrow> unit tres" where
  "permit e owner spender v deadline signature s =
     (if tInitialized s = None then Err NotInitialized
      else if v < 0 then Err InvalidAmount
      else if now e > deadline then Err PermitExpired
      else if deadline > u64_saturating_add (now e) MAX_PERMIT_LIFETIME_SECONDS then Err PermitDeadlineTooFar
      else
        bnd (assert_movable e owner s) (\<lambda>_.
        if is_partition_frozen_internal owner s then Err AccountFrozen
        else
          let nonce = permit_nonce owner s in
          if \<not> u64_ok (nonce + 1) then Err InvalidNonce
          else if length signature \<noteq> 64 then Err InvalidSignature
          else
            bnd (account_public_key e owner) (\<lambda>public_key.
            bnd (ed25519_verify e public_key (permit_digest e owner spender v nonce deadline s) signature) (\<lambda>_.
            let s1 = write_allowance owner spender \<lparr>al_amount = v, expiration_ledger = U32_MAX\<rparr> s;
                s2 = s1\<lparr>tPermitNonce := (tPermitNonce s1)(owner \<mapsto> nonce + 1)\<rparr>
            in Ok ((), log_event ''approve'' [AddrArg owner, AddrArg spender, IntArg v, NatArg U32_MAX] s2)))))"

section \<open>Calls and runs\<close>

datatype token_call =
    Initialize address string string nat | SetAdmin address | SetPaused bool
  | SetFrozen address bool | FreezeUntil address nat | CancelFreeze address
  | CancelFreezeUntil address | SetHook address | RemoveHook | SetMaxSupply int
  | TransferChecked address address int | TransferFromChecked address address address int
  | Approve address address int nat | ReadAllowance address address
  | Burn address int | BurnFrom address address int
  | Mint address int | BatchMint "address list" "int list"
  | Permit address address int nat bytes

fun token_exec :: "penv \<Rightarrow> token_call \<Rightarrow> ptoken \<Rightarrow> (token_error, ptoken) outcome" where
  "token_exec e (Initialize a n y d) s = bnd (token_initialize e a n y d s) (\<lambda>(_, s'). Ok s')"
| "token_exec e (SetAdmin a) s = bnd (token_set_admin e a s) (\<lambda>(_, s'). Ok s')"
| "token_exec e (SetPaused p) s = bnd (token_set_paused e p s) (\<lambda>(_, s'). Ok s')"
| "token_exec e (SetFrozen a f) s = bnd (set_frozen e a f s) (\<lambda>(_, s'). Ok s')"
| "token_exec e (FreezeUntil a t) s = bnd (freeze_account_until e a t s) (\<lambda>(_, s'). Ok s')"
| "token_exec e (CancelFreeze a) s = bnd (cancel_freeze e a s) (\<lambda>(_, s'). Ok s')"
| "token_exec e (CancelFreezeUntil a) s = bnd (cancel_freeze_until e a s) (\<lambda>(_, s'). Ok s')"
| "token_exec e (SetHook h) s = bnd (set_compliance_hook e h s) (\<lambda>(_, s'). Ok s')"
| "token_exec e RemoveHook s = bnd (remove_compliance_hook e s) (\<lambda>(_, s'). Ok s')"
| "token_exec e (SetMaxSupply m) s = bnd (set_max_supply e m s) (\<lambda>(_, s'). Ok s')"
| "token_exec e (TransferChecked a b k) s = bnd (transfer_checked e a b k s) (\<lambda>(_, s'). Ok s')"
| "token_exec e (TransferFromChecked p a b k) s = bnd (transfer_from_checked e p a b k s) (\<lambda>(_, s'). Ok s')"
| "token_exec e (Approve a p k x) s = bnd (approve e a p k x s) (\<lambda>(_, s'). Ok s')"
| "token_exec e (ReadAllowance a p) s = bnd (token_allowance e a p s) (\<lambda>(_, s'). Ok s')"
| "token_exec e (Burn a k) s = bnd (burn e a k s) (\<lambda>(_, s'). Ok s')"
| "token_exec e (BurnFrom p a k) s = bnd (burn_from e p a k s) (\<lambda>(_, s'). Ok s')"
| "token_exec e (Mint a k) s = bnd (mint e a k s) (\<lambda>(_, s'). Ok s')"
| "token_exec e (BatchMint as ks) s = bnd (batch_mint e as ks s) (\<lambda>(_, s'). Ok s')"
| "token_exec e (Permit a p k d sg) s = bnd (permit e a p k d sg s) (\<lambda>(_, s'). Ok s')"

definition fresh_token :: ptoken where
  "fresh_token = \<lparr>tAdmin = None, tInitialized = None, tPaused = None, tName = None, tSymbol = None,
     tDecimals = None, tTotalSupply = None, tMaxSupply = None, tLiquidator = None,
     tComplianceHook = None, tBalance = Map.empty, tFrozen = Map.empty, tFrozenUntil = Map.empty,
     tCollateralLocked = Map.empty, tPartitionFrozen = Map.empty, tAllowance = Map.empty,
     tPermitNonce = Map.empty, tEvents = []\<rparr>"

inductive token_steps :: "ptoken \<Rightarrow> ptoken \<Rightarrow> bool" where
  refl: "token_steps s s"
| step: "token_steps s s1 \<Longrightarrow> token_exec e c s1 = Ok s2 \<Longrightarrow> token_steps s s2"

section \<open>Shapes of the results\<close>

lemma guard_eqs [outcome_simps]:
  "(require_admin_auth e s = Ok a) = (tAdmin s = Some a \<and> auth e a)"
  "(assert_movable e a s = Ok u) = (\<not> token_is_paused s \<and> \<not> token_is_frozen e a s)"
  "(assert_settled e a b s = Ok u) =
     (\<not> token_is_paused s \<and> \<not> token_is_frozen e a s \<and> \<not> token_is_frozen e b s)"
  by (auto simp: require_admin_auth_def assert_movable_def assert_settled_def outcome_simps)

lemma debit_eq [outcome_simps]:
  "(debit a k s = Ok s') = (k \<le> read_balance a s \<and> i128_ok (read_balance a s - k) \<and>
     s' = s\<lparr>tBalance := (tBalance s)(a \<mapsto> read_balance a s - k)\<rparr>)"
  by (auto simp: debit_def i128_sub_def outcome_simps)

lemma credit_eq [outcome_simps]:
  "(credit a k s = Ok s') = (i128_ok (read_balance a s + k) \<and>
     s' = s\<lparr>tBalance := (tBalance s)(a \<mapsto> read_balance a s + k)\<rparr>)"
  by (auto simp: credit_def i128_add_def outcome_simps)

text \<open>Balances after moving \<open>k\<close> from \<open>a\<close> to \<open>b\<close>.\<close>

definition moved :: "address \<Rightarrow> address \<Rightarrow> int \<Rightarrow> ptoken \<Rightarrow> address \<Rightarrow> int option" where
  "moved a b k s = (let m = (tBalance s)(a \<mapsto> read_balance a s - k)
     in m(b \<mapsto> unwrap_or 0 (m b) + k))"

lemma transfer_checked_OkD:
  assumes "transfer_checked e a b k s = Ok (u, s')"
  shows "0 \<le> k \<and> k \<le> read_balance a s \<and> auth e a \<and> assert_settled e a b s = Ok ()
    \<and> validate_compliance e a b k s = Ok () \<and> (\<exists>ev. s' = s\<lparr>tBalance := moved a b k s, tEvents := ev\<rparr>)"
  using assms
  by (auto simp: transfer_checked_def outcome_simps read_balance_def moved_def Let_def
      split: if_splits)

text \<open>The allowance part of a spending call: the entry after \<open>k\<close> of it was used.\<close>

definition spent :: "penv \<Rightarrow> address \<Rightarrow> address \<Rightarrow> int \<Rightarrow> ptoken \<Rightarrow> ptoken" where
  "spent e a p k s = (let (al, s1) = read_allowance e a p s in
     write_allowance a p (al\<lparr>al_amount := al_amount al - k\<rparr>) s1)"

lemma spent_state: "spent e a p k s = s\<lparr>tAllowance := tAllowance (spent e a p k s)\<rparr>"
  by (auto simp: spent_def read_allowance_def write_allowance_def Let_def split: prod.splits)

lemma transfer_from_OkD:
  assumes "transfer_from_checked e p a b k s = Ok (u, s')"
  shows "0 \<le> k \<and> k \<le> read_balance a s \<and> auth e p \<and> assert_settled e a b s = Ok ()
    \<and> assert_movable e p s = Ok () \<and> k \<le> al_amount (fst (read_allowance e a p s))
    \<and> (\<exists>ev. s' = s\<lparr>tBalance := moved a b k s, tAllowance := tAllowance (spent e a p k s), tEvents := ev\<rparr>)"
proof -
  obtain al s1 where r: "read_allowance e a p s = (al, s1)" by fastforce
  define s2 where "s2 = spent e a p k s"
  have w: "write_allowance a p (al\<lparr>al_amount := al_amount al - k\<rparr>) s1 = s2" by (simp add: s2_def spent_def r)
  obtain m where m: "s2 = s\<lparr>tAllowance := m\<rparr>" using spent_state s2_def by blast
  have x: "0 \<le> k" "auth e p" "assert_settled e a b s = Ok ()" "assert_movable e p s = Ok ()"
    "k \<le> al_amount al"
    "\<exists>s3 s4. debit a k s2 = Ok s3 \<and> credit b k s3 = Ok s4 \<and>
       s' = log_event ''transfer'' [AddrArg a, AddrArg b, IntArg k] s4"
    using assms unfolding transfer_from_checked_def
    by (auto simp: r bnd_eq_Ok i128_sub_def require_auth_eq w split: if_split_asm)
  then show ?thesis unfolding s2_def [symmetric]
    by (auto simp: r debit_eq credit_eq m read_balance_def moved_def Let_def intro!: exI ptoken.equality)
qed

lemma burn_OkD:
  assumes "burn e a k s = Ok (u, s')"
  shows "0 \<le> k \<and> k \<le> read_balance a s \<and> auth e a \<and> assert_movable e a s = Ok ()
    \<and> (\<exists>ev. s' = s\<lparr>tBalance := (tBalance s)(a \<mapsto> read_balance a s - k),
         tTotalSupply := Some (total_supply s - k), tEvents := ev\<rparr>)"
  using assms
  by (auto simp: burn_def outcome_simps i128_sub_def set_total_supply_def total_supply_def split: if_splits)

lemma burn_from_OkD:
  assumes "burn_from e p a k s = Ok (u, s')"
  shows "0 \<le> k \<and> k \<le> read_balance a s \<and> auth e p \<and> assert_movable e a s = Ok ()
    \<and> assert_movable e p s = Ok () \<and> k \<le> al_amount (fst (read_allowance e a p s))
    \<and> (\<exists>ev. s' = s\<lparr>tBalance := (tBalance s)(a \<mapsto> read_balance a s - k),
         tTotalSupply := Some (total_supply s - k), tAllowance := tAllowance (spent e a p k s), tEvents := ev\<rparr>)"
proof -
  obtain al s1 where r: "read_allowance e a p s = (al, s1)" by fastforce
  define s2 where "s2 = spent e a p k s"
  have w: "write_allowance a p (al\<lparr>al_amount := al_amount al - k\<rparr>) s1 = s2" by (simp add: s2_def spent_def r)
  obtain m where m: "s2 = s\<lparr>tAllowance := m\<rparr>" using spent_state s2_def by blast
  have x: "0 \<le> k" "auth e p" "assert_movable e a s = Ok ()" "assert_movable e p s = Ok ()"
    "k \<le> al_amount al"
    "\<exists>s3. debit a k s2 = Ok s3 \<and> s' = log_event ''burn'' [AddrArg a, IntArg k]
       (set_total_supply (total_supply s3 - k) s3)"
    using assms unfolding burn_from_def
    by (auto simp: r bnd_eq_Ok i128_sub_def require_auth_eq w split: if_split_asm)
  then show ?thesis unfolding s2_def [symmetric]
    by (auto simp: r debit_eq m read_balance_def set_total_supply_def total_supply_def
        intro!: exI ptoken.equality)
qed

lemma mint_OkD:
  assumes "mint e a k s = Ok (u, s')"
  shows "0 < k \<and> assert_movable e a s = Ok () \<and> (\<exists>ad. tAdmin s = Some ad \<and> auth e ad)
    \<and> total_supply s + k \<le> max_supply s
    \<and> (\<exists>ev. s' = s\<lparr>tBalance := (tBalance s)(a \<mapsto> read_balance a s + k),
         tTotalSupply := Some (total_supply s + k), tEvents := ev\<rparr>)"
  using assms
  by (auto simp: mint_def outcome_simps i128_checked_add_def set_total_supply_def split: if_splits)

section \<open>What each call does to balances and supply\<close>

text \<open>The ledger view of a call: the signed amounts it posts to accounts.\<close>

fun postings :: "token_call \<Rightarrow> (address \<times> int) list" where
  "postings (TransferChecked a b k) = [(a, - k), (b, k)]"
| "postings (TransferFromChecked p a b k) = [(a, - k), (b, k)]"
| "postings (Burn a k) = [(a, - k)]"
| "postings (BurnFrom p a k) = [(a, - k)]"
| "postings (Mint a k) = [(a, k)]"
| "postings (BatchMint as ks) = zip as ks"
| "postings c = []"

definition posted :: "address \<Rightarrow> (address \<times> int) list \<Rightarrow> int" where
  "posted x ps = (\<Sum>(a, k)\<leftarrow>ps. if a = x then k else 0)"

lemma posted_simps [simp]:
  "posted x [] = 0" "posted x ((a, k) # ps) = (if a = x then k else 0) + posted x ps"
  by (simp_all add: posted_def)

lemma posted_sum:
  "finite S \<Longrightarrow> fst ` set ps \<subseteq> S \<Longrightarrow> (\<Sum>x\<in>S. posted x ps) = (\<Sum>(a, k)\<leftarrow>ps. k)"
proof (induction ps)
  case (Cons p ps)
  then show ?case by (cases p) (auto simp: sum.distrib)
qed simp

lemma check_mints_OkD:
  "check_mints e xs acc s = Ok n \<Longrightarrow> n = acc + (\<Sum>(a, k)\<leftarrow>xs. k) \<and>
     (\<forall>(a, k)\<in>set xs. 0 < k \<and> assert_movable e a s = Ok ())"
  by (induction e xs acc s rule: check_mints.induct)
    (auto simp: bnd_eq_Ok ok_or_eq i128_checked_add_def split: if_split_asm)

lemma credit_mints_OkD:
  "credit_mints xs s = Ok s' \<Longrightarrow>
     (\<forall>x. read_balance x s' = read_balance x s + posted x xs) \<and>
     dom (tBalance s') = dom (tBalance s) \<union> fst ` set xs \<and>
     s' = s\<lparr>tBalance := tBalance s', tEvents := tEvents s'\<rparr>"
proof (induction xs arbitrary: s)
  case (Cons p xs)
  obtain a k where p: "p = (a, k)" by (cases p)
  define s1 where "s1 = log_event ''mint'' [AddrArg a, IntArg k]
    (s\<lparr>tBalance := (tBalance s)(a \<mapsto> read_balance a s + k)\<rparr>)"
  from Cons.prems have run: "credit_mints xs s1 = Ok s'" by (auto simp: p bnd_eq_Ok credit_eq s1_def)
  have "read_balance x s1 = read_balance x s + (if a = x then k else 0)" for x
    by (simp add: s1_def read_balance_def)
  moreover have "dom (tBalance s1) = insert a (dom (tBalance s))" by (simp add: s1_def)
  moreover have "s1\<lparr>tBalance := m, tEvents := ev\<rparr> = s\<lparr>tBalance := m, tEvents := ev\<rparr>" for m ev
    by (simp add: s1_def)
  ultimately show ?case using Cons.IH [OF run] by (auto simp: p)
qed simp

lemma batch_mint_OkD:
  assumes "batch_mint e as ks s = Ok (u, s')"
  shows "(\<exists>ad. tAdmin s = Some ad \<and> auth e ad)
    \<and> (\<forall>(a, k)\<in>set (zip as ks). 0 < k \<and> assert_movable e a s = Ok ())
    \<and> (\<forall>x. read_balance x s' = read_balance x s + posted x (zip as ks))
    \<and> dom (tBalance s') = dom (tBalance s) \<union> fst ` set (zip as ks)
    \<and> total_supply s + (\<Sum>(a, k)\<leftarrow>zip as ks. k) \<le> max_supply s
    \<and> s' = s\<lparr>tBalance := tBalance s',
         tTotalSupply := Some (total_supply s + (\<Sum>(a, k)\<leftarrow>zip as ks. k)), tEvents := tEvents s'\<rparr>"
proof -
  obtain n s1 ad where x: "tAdmin s = Some ad" "auth e ad" "check_mints e (zip as ks) 0 s = Ok n"
    "total_supply s + n \<le> max_supply s" "credit_mints (zip as ks) s = Ok s1"
    "s' = log_event ''batchmint'' [AddrArg ad, IntArg n] (set_total_supply (total_supply s + n) s1)"
    using assms by (auto simp: batch_mint_def bnd_eq_Ok ok_or_eq guard_eqs i128_checked_add_def
        simp del: log_event_def split: if_split_asm)
  note c = check_mints_OkD [OF x(3)] credit_mints_OkD [OF x(5)]
  have "read_balance y s' = read_balance y s1" for y by (simp add: x(6) read_balance_def set_total_supply_def)
  moreover have "tBalance s' = tBalance s1" by (simp add: x(6) set_total_supply_def)
  moreover have "s' = s\<lparr>tBalance := tBalance s', tTotalSupply := Some (total_supply s + n), tEvents := tEvents s'\<rparr>"
  proof -
    have "s1 = s\<lparr>tBalance := tBalance s1, tEvents := tEvents s1\<rparr>" using c(2) by blast
    then obtain m ev where "s1 = s\<lparr>tBalance := m, tEvents := ev\<rparr>" by blast
    then show ?thesis by (simp add: x(6) set_total_supply_def)
  qed
  ultimately show ?thesis using x c by auto
qed

lemma moved_balance: "unwrap_or 0 (moved a b k s x) = read_balance x s + posted x [(a, - k), (b, k)]"
  by (auto simp: moved_def Let_def read_balance_def)

lemma moved_dom: "dom (moved a b k s) = insert a (insert b (dom (tBalance s)))"
  by (auto simp: moved_def Let_def)

text \<open>The administrative calls, approvals and permits: nothing about balances or supply changes.\<close>

lemmas admin_defs = token_initialize_def token_set_admin_def token_set_paused_def set_frozen_def
  freeze_account_until_def cancel_freeze_def cancel_freeze_until_def set_compliance_hook_def
  remove_compliance_hook_def set_max_supply_def

lemma freeze_account_until_OkD:
  assumes "freeze_account_until e a t s = Ok (u, s')"
  shows "\<exists>m ev. s' = s\<lparr>tFrozenUntil := m, tEvents := ev\<rparr>"
proof (cases "t \<le> now e")
  case True
  with assms show ?thesis by (auto simp: freeze_account_until_def bnd_eq_Ok)
next
  case False
  with assms show ?thesis by (auto simp: freeze_account_until_def bnd_eq_Ok)
qed

lemma admin_balance_frame:
  "token_initialize e a n y d s = Ok (u, s') \<Longrightarrow> tBalance s' = tBalance s"
  "token_set_admin e a s = Ok (u, s') \<Longrightarrow> tBalance s' = tBalance s"
  "token_set_paused e p s = Ok (u, s') \<Longrightarrow> tBalance s' = tBalance s"
  "set_frozen e a f s = Ok (u, s') \<Longrightarrow> tBalance s' = tBalance s"
  "cancel_freeze e a s = Ok (u, s') \<Longrightarrow> tBalance s' = tBalance s"
  "cancel_freeze_until e a s = Ok (u, s') \<Longrightarrow> tBalance s' = tBalance s"
  "set_compliance_hook e a s = Ok (u, s') \<Longrightarrow> tBalance s' = tBalance s"
  "remove_compliance_hook e s = Ok (u, s') \<Longrightarrow> tBalance s' = tBalance s"
  "set_max_supply e k s = Ok (u, s') \<Longrightarrow> tBalance s' = tBalance s"
  by (auto simp: admin_defs bnd_eq_Ok split: if_split_asm)

lemma approve_OkD:
  assumes "approve e a p k x s = Ok (u, s')"
  shows "0 \<le> k \<and> (0 < k \<longrightarrow> seq e \<le> x) \<and> assert_movable e a s = Ok () \<and> auth e a
    \<and> (\<exists>ev. s' = s\<lparr>tAllowance := (tAllowance s)((a, p) :=
          (if k = 0 then None else Some (pack_allowance k x))), tEvents := ev\<rparr>)"
proof -
  have "0 \<le> k \<and> (0 < k \<longrightarrow> seq e \<le> x) \<and> assert_movable e a s = Ok () \<and> auth e a
    \<and> s' = log_event ''approve'' [AddrArg a, AddrArg p, IntArg k, NatArg x]
        (write_allowance a p \<lparr>al_amount = k, expiration_ledger = x\<rparr> s)"
    using assms unfolding approve_def Let_def
    by (auto simp: bnd_eq_Ok require_auth_eq simp del: log_event_def split: if_split_asm)
  then show ?thesis by (auto simp: write_allowance_def)
qed

lemma permit_OkD:
  assumes "permit e a p v d sg s = Ok (u, s')"
  shows "0 \<le> v \<and> now e \<le> d \<and> d \<le> u64_saturating_add (now e) MAX_PERMIT_LIFETIME_SECONDS
    \<and> assert_movable e a s = Ok () \<and> length sg = 64
    \<and> (\<exists>pk. account_public_key e a = Ok pk
        \<and> ed25519 e pk (permit_digest e a p v (permit_nonce a s) d s) sg)
    \<and> (\<exists>ev. s' = s\<lparr>tAllowance := (tAllowance s)((a, p) :=
          (if v = 0 then None else Some (pack_allowance v U32_MAX))),
          tPermitNonce := (tPermitNonce s)(a \<mapsto> permit_nonce a s + 1), tEvents := ev\<rparr>)"
proof -
  define s1 where "s1 = write_allowance a p \<lparr>al_amount = v, expiration_ledger = U32_MAX\<rparr> s"
  have "0 \<le> v" "now e \<le> d" "d \<le> u64_saturating_add (now e) MAX_PERMIT_LIFETIME_SECONDS"
    "assert_movable e a s = Ok ()" "length sg = 64"
    "\<exists>pk. account_public_key e a = Ok pk
        \<and> ed25519 e pk (permit_digest e a p v (permit_nonce a s) d s) sg"
    and s': "s' = log_event ''approve'' [AddrArg a, AddrArg p, IntArg v, NatArg U32_MAX]
        (s1\<lparr>tPermitNonce := (tPermitNonce s1)(a \<mapsto> permit_nonce a s + 1)\<rparr>)"
    using assms unfolding permit_def Let_def s1_def [symmetric]
    by (auto simp: bnd_eq_Ok ed25519_verify_eq simp del: log_event_def split: if_split_asm)
  then show ?thesis by (auto simp: s1_def write_allowance_def)
qed

lemma token_allowance_OkD:
  "token_allowance e a p s = Ok (v, s') \<Longrightarrow> s' = s\<lparr>tAllowance := tAllowance s'\<rparr>"
  by (auto simp: token_allowance_def read_allowance_def Let_def split: if_split_asm prod.splits)

lemma token_allowance_frame:
  assumes "token_allowance e a p s = Ok (v, s')"
  shows "tBalance s' = tBalance s" "tTotalSupply s' = tTotalSupply s" "tMaxSupply s' = tMaxSupply s"
    "tInitialized s' = tInitialized s" "tAdmin s' = tAdmin s" "tPermitNonce s' = tPermitNonce s"
  by (subst token_allowance_OkD [OF assms], simp)+

lemma grant_balance_frame:
  "freeze_account_until e a t s = Ok (u, s') \<Longrightarrow> tBalance s' = tBalance s"
  "approve e a b k x s = Ok (u, s') \<Longrightarrow> tBalance s' = tBalance s"
  "token_allowance e a b s = Ok (v, s') \<Longrightarrow> tBalance s' = tBalance s"
  "permit e a b k t sg s = Ok (u, s') \<Longrightarrow> tBalance s' = tBalance s"
  by (auto dest: approve_OkD permit_OkD token_allowance_frame freeze_account_until_OkD)

definition posts :: "penv \<Rightarrow> (address \<times> int) list \<Rightarrow> ptoken \<Rightarrow> ptoken \<Rightarrow> bool" where
  "posts e ps s s' \<longleftrightarrow> (\<forall>x. read_balance x s' = read_balance x s + posted x ps)
    \<and> dom (tBalance s') = dom (tBalance s) \<union> fst ` set ps
    \<and> ((\<forall>x. 0 \<le> read_balance x s) \<longrightarrow> (\<forall>x. 0 \<le> read_balance x s'))
    \<and> (\<forall>x\<in>fst ` set ps. assert_movable e x s = Ok ())"

lemma posts_frame: "tBalance s' = tBalance s \<Longrightarrow> posts e [] s s'"
  by (simp add: posts_def read_balance_def)

lemma posts_moved:
  assumes "tBalance s' = moved a b k s" "0 \<le> k" "k \<le> read_balance a s" "assert_settled e a b s = Ok ()"
  shows "posts e [(a, - k), (b, k)] s s'"
proof -
  have bal: "read_balance x s' = read_balance x s + posted x [(a, - k), (b, k)]" for x
    using assms(1) moved_balance [of a b k s x] by (simp add: read_balance_def)
  have "0 \<le> read_balance x s'" if "\<forall>x. 0 \<le> read_balance x s" for x
    using that assms(2,3) bal [of x] by (auto split: if_splits)
  moreover have "dom (tBalance s') = dom (tBalance s) \<union> {a, b}" using assms(1) moved_dom by auto
  ultimately show ?thesis using bal assms(4) by (auto simp: posts_def guard_eqs)
qed

lemma posts_one:
  assumes "tBalance s' = (tBalance s)(a \<mapsto> read_balance a s + k)" "0 \<le> read_balance a s + k"
    "assert_movable e a s = Ok ()"
  shows "posts e [(a, k)] s s'"
  using assms by (auto simp: posts_def read_balance_def)

lemma posts_simps:
  "transfer_checked e a b k s = Ok (u, s') \<Longrightarrow> posts e [(a, - k), (b, k)] s s'"
  "transfer_from_checked e p a b k s = Ok (u, s') \<Longrightarrow> posts e [(a, - k), (b, k)] s s'"
  "burn e a k s = Ok (u, s') \<Longrightarrow> posts e [(a, - k)] s s'"
  "burn_from e p a k s = Ok (u, s') \<Longrightarrow> posts e [(a, - k)] s s'"
     apply (drule transfer_checked_OkD, auto intro!: posts_moved)[]
    apply (drule transfer_from_OkD, auto intro!: posts_moved)[]
   apply (drule burn_OkD, auto intro!: posts_one)[]
  apply (drule burn_from_OkD, auto intro!: posts_one)[]
  done

lemma posts_mint:
  assumes "\<forall>x. 0 \<le> read_balance x s"
  shows "mint e a k s = Ok (u, s') \<Longrightarrow> posts e [(a, k)] s s'"
    and "batch_mint e as ks s = Ok (u, s') \<Longrightarrow> posts e (zip as ks) s s'"
proof -
  show "posts e [(a, k)] s s'" if "mint e a k s = Ok (u, s')"
    using mint_OkD [OF that] assms by (auto intro!: posts_one add_nonneg_nonneg)
  show "posts e (zip as ks) s s'" if "batch_mint e as ks s = Ok (u, s')"
  proof -
    note b = batch_mint_OkD [OF that]
    have "0 \<le> posted x (zip as ks)" for x
      unfolding posted_def using b by (intro sum_list_nonneg) (auto split: if_splits)
    then show ?thesis using b assms by (auto simp: posts_def)
  qed
qed

lemma token_exec_posts:
  "token_exec e c s = Ok s' \<Longrightarrow> \<forall>x. 0 \<le> read_balance x s \<Longrightarrow> posts e (postings c) s s'"
  by (cases c)
    (auto simp: bnd_eq_Ok dest: posts_simps posts_mint [rotated]
      intro: posts_frame admin_balance_frame grant_balance_frame)

text \<open>The instance fields that supply and administration rest on.\<close>

abbreviation control :: "ptoken \<Rightarrow> _" where
  "control s \<equiv> (tTotalSupply s, tMaxSupply s, tInitialized s, tAdmin s)"

lemma control_frame:
  "token_set_paused e p s = Ok (u, s') \<Longrightarrow> control s' = control s"
  "set_frozen e a f s = Ok (u, s') \<Longrightarrow> control s' = control s"
  "cancel_freeze e a s = Ok (u, s') \<Longrightarrow> control s' = control s"
  "cancel_freeze_until e a s = Ok (u, s') \<Longrightarrow> control s' = control s"
  "set_compliance_hook e a s = Ok (u, s') \<Longrightarrow> control s' = control s"
  "remove_compliance_hook e s = Ok (u, s') \<Longrightarrow> control s' = control s"
  by (auto simp: admin_defs bnd_eq_Ok split: if_split_asm)

lemma grant_control_frame:
  "freeze_account_until e a t s = Ok (u, s') \<Longrightarrow> control s' = control s"
  "approve e a b k x s = Ok (u, s') \<Longrightarrow> control s' = control s"
  "token_allowance e a b s = Ok (v, s') \<Longrightarrow> control s' = control s"
  "permit e a b k t sg s = Ok (u, s') \<Longrightarrow> control s' = control s"
  by (auto dest: approve_OkD permit_OkD token_allowance_frame freeze_account_until_OkD)

lemma mover_control:
  "transfer_checked e a b k s = Ok (u, s') \<Longrightarrow> control s' = control s"
  "transfer_from_checked e p a b k s = Ok (u, s') \<Longrightarrow> control s' = control s"
  "burn e a k s = Ok (u, s') \<Longrightarrow>
     0 \<le> k \<and> control s' = (Some (total_supply s - k), tMaxSupply s, tInitialized s, tAdmin s)"
  "burn_from e p a k s = Ok (u, s') \<Longrightarrow>
     0 \<le> k \<and> control s' = (Some (total_supply s - k), tMaxSupply s, tInitialized s, tAdmin s)"
  "mint e a k s = Ok (u, s') \<Longrightarrow> tAdmin s \<noteq> None \<and> total_supply s + k \<le> max_supply s \<and>
     control s' = (Some (total_supply s + k), tMaxSupply s, tInitialized s, tAdmin s)"
      apply (drule transfer_checked_OkD, auto)[]
     apply (drule transfer_from_OkD, auto)[]
    apply (drule burn_OkD, auto)[]
   apply (drule burn_from_OkD, auto)[]
  apply (drule mint_OkD, auto)[]
  done

lemma batch_mint_control:
  assumes "batch_mint e as ks s = Ok (u, s')"
  shows "tAdmin s \<noteq> None \<and> total_supply s + (\<Sum>(a, k)\<leftarrow>zip as ks. k) \<le> max_supply s \<and>
     control s' = (Some (total_supply s + (\<Sum>(a, k)\<leftarrow>zip as ks. k)), tMaxSupply s, tInitialized s, tAdmin s)"
proof -
  note b = batch_mint_OkD [OF assms]
  then obtain m ev where
    "s' = s\<lparr>tBalance := m, tTotalSupply := Some (total_supply s + (\<Sum>(a, k)\<leftarrow>zip as ks. k)), tEvents := ev\<rparr>"
    by blast
  with b show ?thesis by auto
qed

text \<open>No token is created or destroyed but by minting and burning, and never above the cap.\<close>

definition token_inv :: "ptoken \<Rightarrow> bool" where
  "token_inv s \<longleftrightarrow> finite (dom (tBalance s)) \<and> (\<forall>x. 0 \<le> read_balance x s)
    \<and> (\<Sum>x\<in>dom (tBalance s). read_balance x s) = total_supply s \<and> total_supply s \<le> max_supply s
    \<and> (tInitialized s = None \<longrightarrow> tAdmin s = None \<and> total_supply s = 0)"

lemma token_exec_supply:
  assumes "token_exec e c s = Ok s'" "\<forall>a n y d. c \<noteq> Initialize a n y d"
  shows "total_supply s' = total_supply s + (\<Sum>(a, k)\<leftarrow>postings c. k)
    \<and> (total_supply s \<le> max_supply s \<longrightarrow> total_supply s' \<le> max_supply s')
    \<and> tInitialized s' = tInitialized s
    \<and> (tAdmin s = None \<longrightarrow> tAdmin s' = None \<and> total_supply s' \<le> total_supply s)"
proof (cases c)
  case (SetAdmin a)
  with assms(1) show ?thesis
    by (auto simp: token_set_admin_def outcome_simps total_supply_def max_supply_def split: if_split_asm)
next
  case (SetMaxSupply m)
  with assms(1) show ?thesis
    by (auto simp: set_max_supply_def outcome_simps total_supply_def max_supply_def split: if_split_asm)
next
  case (BatchMint as ks)
  with assms(1) show ?thesis
    using batch_mint_control [of e as ks s _ s']
    by (auto simp: bnd_eq_Ok total_supply_def max_supply_def)
qed (use assms in \<open>auto simp: bnd_eq_Ok total_supply_def max_supply_def
       dest: control_frame grant_control_frame mover_control\<close>)

lemma token_exec_init:
  assumes "token_exec e (Initialize a n y d) s = Ok s'"
  shows "tInitialized s = None \<and> tInitialized s' = Some True \<and> tBalance s' = tBalance s
    \<and> total_supply s' = 0 \<and> max_supply s' = DEFAULT_MAX_SUPPLY"
  using assms by (auto simp: token_initialize_def outcome_simps total_supply_def max_supply_def
      split: if_split_asm)

lemma balance_sum_superset:
  assumes "finite S" "dom (tBalance s) \<subseteq> S"
  shows "(\<Sum>x\<in>S. read_balance x s) = (\<Sum>x\<in>dom (tBalance s). read_balance x s)"
  using assms by (intro sum.mono_neutral_right) (auto simp: read_balance_def domIff)

lemma token_exec_inv:
  assumes "token_inv s" "token_exec e c s = Ok s'"
  shows "token_inv s'"
proof -
  let ?ps = "postings c" and ?D = "dom (tBalance s')"
  have p: "posts e ?ps s s'" using assms token_exec_posts by (auto simp: token_inv_def)
  have D: "?D = dom (tBalance s) \<union> fst ` set ?ps" using p by (auto simp: posts_def)
  then have fin: "finite ?D" using assms(1) by (simp add: token_inv_def)
  have "(\<Sum>x\<in>?D. read_balance x s') = (\<Sum>x\<in>?D. read_balance x s) + (\<Sum>x\<in>?D. posted x ?ps)"
    using p by (simp add: posts_def sum.distrib)
  also have "\<dots> = total_supply s + (\<Sum>(a, k)\<leftarrow>?ps. k)"
    using assms(1) D fin balance_sum_superset [of ?D s] posted_sum [of ?D ?ps] by (simp add: token_inv_def)
  finally have sum: "(\<Sum>x\<in>?D. read_balance x s') = total_supply s + (\<Sum>(a, k)\<leftarrow>?ps. k)" .
  have nn: "\<forall>x. 0 \<le> read_balance x s'" using p assms(1) by (auto simp: posts_def token_inv_def)
  show ?thesis
  proof (cases "\<exists>a n y d. c = Initialize a n y d")
    case True
    then obtain a n y d where c: "c = Initialize a n y d" by blast
    note i = token_exec_init [OF assms(2) [unfolded c]]
    with assms(1) have "total_supply s = 0" by (simp add: token_inv_def)
    with i fin nn sum c show ?thesis by (simp add: token_inv_def const_defs)
  next
    case False
    note t = token_exec_supply [OF assms(2)]
    have "0 \<le> (\<Sum>x\<in>?D. read_balance x s')" using nn by (intro sum_nonneg) auto
    with t False assms(1) sum fin nn show ?thesis by (auto simp: token_inv_def)
  qed
qed

lemma token_steps_inv: "token_steps s s' \<Longrightarrow> token_inv s \<Longrightarrow> token_inv s'"
  by (induction rule: token_steps.induct) (auto intro: token_exec_inv)

lemma fresh_token_inv: "token_inv fresh_token"
  by (simp add: token_inv_def fresh_token_def read_balance_def total_supply_def max_supply_def const_defs)

text \<open>C7: Supply accounting: in every state reachable from deployment the balances are never negative,
  add up to the recorded total supply and stay within the supply cap; and every call changes the
  balances and the supply by exactly its postings (a transfer posts minus and plus the amount, a
  mint plus, a burn minus, everything else nothing).\<close>

theorem supply_accounting:
  assumes "token_steps fresh_token s"
  shows "finite (dom (tBalance s)) \<and> (\<forall>x. 0 \<le> read_balance x s)
    \<and> (\<Sum>x\<in>dom (tBalance s). read_balance x s) = total_supply s \<and> total_supply s \<le> max_supply s
    \<and> (\<forall>e c s'. token_exec e c s = Ok s' \<longrightarrow>
         (\<forall>x. read_balance x s' = read_balance x s + posted x (postings c))
       \<and> total_supply s' = total_supply s + (\<Sum>(a, k)\<leftarrow>postings c. k))"
proof -
  have inv: "token_inv s" using token_steps_inv [OF assms fresh_token_inv] .
  have eff: "(\<forall>x. read_balance x s' = read_balance x s + posted x (postings c))
       \<and> total_supply s' = total_supply s + (\<Sum>(a, k)\<leftarrow>postings c. k)"
    if run: "token_exec e c s = Ok s'" for e c s'
  proof
    show "\<forall>x. read_balance x s' = read_balance x s + posted x (postings c)"
      using token_exec_posts [OF run] inv by (simp add: posts_def token_inv_def)
    show "total_supply s' = total_supply s + (\<Sum>(a, k)\<leftarrow>postings c. k)"
    proof (cases "\<exists>a n y d. c = Initialize a n y d")
      case True
      then obtain a n y d where c: "c = Initialize a n y d" by blast
      with token_exec_init [OF run [unfolded c]] inv show ?thesis by (simp add: token_inv_def)
    next
      case False
      with token_exec_supply [OF run] show ?thesis by blast
    qed
  qed
  from inv eff show ?thesis by (simp add: token_inv_def)
qed

definition sample_penv :: penv where
  "sample_penv = \<lparr>now = 100, seq = 7, self = 50, auth = (\<lambda>_. True), sha256 = (\<lambda>b. b),
     ed25519 = (\<lambda>pk m sg. pk = take 32 sg), network_id = [0], validate_transfer = (\<lambda>h a b k. Some True),
     strkey = (\<lambda>a. []), xdr_domain = (\<lambda>n v i a. i),
     xdr_permit = (\<lambda>d a p v n t. u64_be n @ i128_be v)\<rparr>"

lemma sample_penv_simps [simp]:
  "now sample_penv = 100" "seq sample_penv = 7" "auth sample_penv a"
  "validate_transfer sample_penv h a b k = Some True"
  by (simp_all add: sample_penv_def)

lemmas token_guards = require_admin_auth_def assert_movable_def assert_settled_def
  token_is_paused_def token_is_frozen_def validate_compliance_def require_auth_def

definition sample_minted :: ptoken where
  "sample_minted = fresh_token\<lparr>tInitialized := Some True, tAdmin := Some 1, tName := Some ''T'',
     tSymbol := Some ''T'', tDecimals := Some 7, tMaxSupply := Some DEFAULT_MAX_SUPPLY,
     tPaused := Some False, tTotalSupply := Some 500, tBalance := [5 \<mapsto> 500],
     tEvents := [Event ''init'' [AddrArg 1, StrArg ''T''], Event ''mint'' [AddrArg 5, IntArg 500]]\<rparr>"

lemma sample_minted_simps [simp]:
  "tPaused sample_minted = Some False" "tFrozen sample_minted x = None"
  "tFrozenUntil sample_minted x = None" "tComplianceHook sample_minted = None"
  "tBalance sample_minted = [5 \<mapsto> 500]" "tTotalSupply sample_minted = Some 500"
  "tAllowance sample_minted k = None" "tPartitionFrozen sample_minted x = None"
  "tInitialized sample_minted = Some True" "tPermitNonce sample_minted x = None"
  "tAdmin sample_minted = Some 1"
  by (simp_all add: sample_minted_def fresh_token_def)

lemma sample_minted_reach: "token_steps fresh_token sample_minted"
proof -
  have "\<exists>s. token_exec sample_penv (Initialize 1 ''T'' ''T'' 7) fresh_token = Ok s
      \<and> token_exec sample_penv (Mint 5 500) s = Ok sample_minted"
    by (simp add: token_initialize_def mint_def token_guards fresh_token_def sample_minted_def
        credit_def read_balance_def i128_add_def i128_checked_add_def i128_ok_def total_supply_def
        max_supply_def set_total_supply_def const_defs)
  then show ?thesis using token_steps.refl token_steps.step by metis
qed

theorem supply_accounting_witness:
  "\<exists>s. token_exec sample_penv (TransferChecked 5 6 200) sample_minted = Ok s
     \<and> read_balance 5 s = 300 \<and> read_balance 6 s = 200 \<and> total_supply s = 500"
proof -
  obtain s where run: "token_exec sample_penv (TransferChecked 5 6 200) sample_minted = Ok s"
    by (simp add: transfer_checked_def token_guards debit_def credit_def read_balance_def i128_add_def
        i128_sub_def i128_ok_def)
  have "read_balance 5 sample_minted = 500" "read_balance 6 sample_minted = 0" "total_supply sample_minted = 500"
    by (simp_all add: read_balance_def total_supply_def)
  with supply_accounting [OF sample_minted_reach] run show ?thesis by fastforce
qed

section \<open>Allowances and nonces\<close>

text \<open>Which allowance a call may rewrite, and how much of one it spends.\<close>

fun grants :: "address \<Rightarrow> address \<Rightarrow> token_call \<Rightarrow> bool" where
  "grants a p (Approve a' p' k x) = (a' = a \<and> p' = p)"
| "grants a p (Permit a' p' k d sg) = (a' = a \<and> p' = p)"
| "grants a p c = False"

fun spends :: "address \<Rightarrow> address \<Rightarrow> token_call \<Rightarrow> int" where
  "spends a p (TransferFromChecked p' a' b k) = (if a' = a \<and> p' = p then k else 0)"
| "spends a p (BurnFrom p' a' k) = (if a' = a \<and> p' = p then k else 0)"
| "spends a p c = 0"

abbreviation grants_data :: "ptoken \<Rightarrow> _" where
  "grants_data s \<equiv> (tAllowance s, tPermitNonce s)"

lemma admin_grants_frame:
  "token_initialize e a n y d s = Ok (u, s') \<Longrightarrow> grants_data s' = grants_data s"
  "token_set_admin e a s = Ok (u, s') \<Longrightarrow> grants_data s' = grants_data s"
  "token_set_paused e p s = Ok (u, s') \<Longrightarrow> grants_data s' = grants_data s"
  "set_frozen e a f s = Ok (u, s') \<Longrightarrow> grants_data s' = grants_data s"
  "cancel_freeze e a s = Ok (u, s') \<Longrightarrow> grants_data s' = grants_data s"
  "cancel_freeze_until e a s = Ok (u, s') \<Longrightarrow> grants_data s' = grants_data s"
  "set_compliance_hook e a s = Ok (u, s') \<Longrightarrow> grants_data s' = grants_data s"
  "remove_compliance_hook e s = Ok (u, s') \<Longrightarrow> grants_data s' = grants_data s"
  "set_max_supply e k s = Ok (u, s') \<Longrightarrow> grants_data s' = grants_data s"
  by (auto simp: admin_defs bnd_eq_Ok split: if_split_asm)

lemma mover_grants_frame:
  "freeze_account_until e a t s = Ok (u, s') \<Longrightarrow> grants_data s' = grants_data s"
  "transfer_checked e a b k s = Ok (u, s') \<Longrightarrow> grants_data s' = grants_data s"
  "burn e a k s = Ok (u, s') \<Longrightarrow> grants_data s' = grants_data s"
  "mint e a k s = Ok (u, s') \<Longrightarrow> grants_data s' = grants_data s"
  by (auto dest: freeze_account_until_OkD transfer_checked_OkD burn_OkD mint_OkD)

lemma batch_mint_grants_frame:
  assumes "batch_mint e as ks s = Ok (u, s')"
  shows "grants_data s' = grants_data s"
proof -
  obtain m n ev where "s' = s\<lparr>tBalance := m, tTotalSupply := n, tEvents := ev\<rparr>"
    using batch_mint_OkD [OF assms] by blast
  then show ?thesis by simp
qed

text \<open>The entry of one pair: absent, or an amount of at most \<open>B\<close> that expires after \<open>x\<close>.\<close>

definition within :: "address \<Rightarrow> address \<Rightarrow> int \<Rightarrow> nat \<Rightarrow> ptoken \<Rightarrow> bool" where
  "within a p B x s \<longleftrightarrow> 0 \<le> B \<and> (case tAllowance s (a, p) of None \<Rightarrow> True
     | Some bs \<Rightarrow> \<exists>k. bs = pack_allowance k x \<and> 0 < k \<and> k \<le> B \<and> i128_ok k \<and> u32_ok x)"

lemma read_within:
  assumes "within a p B x s"
  shows "al_amount (fst (read_allowance e a p s)) \<le> B \<and> 0 \<le> al_amount (fst (read_allowance e a p s))
    \<and> i128_ok (al_amount (fst (read_allowance e a p s)))
    \<and> (0 < al_amount (fst (read_allowance e a p s)) \<longrightarrow>
         seq e \<le> x \<and> u32_ok x \<and> expiration_ledger (fst (read_allowance e a p s)) = x)"
proof (cases "tAllowance s (a, p)")
  case None
  with assms show ?thesis by (simp add: within_def read_allowance_def)
next
  case (Some bs)
  then obtain k where "bs = pack_allowance k x" "0 < k" "k \<le> B" "i128_ok k" "u32_ok x"
    using assms by (auto simp: within_def)
  with Some allowance_codec.unpack_pack [of "(k, x)"] show ?thesis
    by (simp add: read_allowance_def)
qed

lemma spent_other: "(a', p') \<noteq> (a, p) \<Longrightarrow> tAllowance (spent e a' p' k s) (a, p) = tAllowance s (a, p)"
  by (auto simp: spent_def read_allowance_def write_allowance_def Let_def split: prod.splits)

lemma spent_within:
  assumes "within a p B x s" "0 \<le> k" "k \<le> al_amount (fst (read_allowance e a p s))"
  shows "within a p (B - k) x (spent e a p k s) \<and> k \<le> B \<and> (0 < k \<longrightarrow> seq e \<le> x)"
proof -
  obtain al s1 where r: "read_allowance e a p s = (al, s1)" by fastforce
  note w = read_within [OF assms(1), of e, unfolded r fst_conv]
  have ok: "i128_ok (al_amount al - k)" using w assms(2,3) by (auto simp: r i128_ok_def)
  show ?thesis using w assms(2,3) ok
    by (auto simp: r spent_def within_def write_allowance_def)
qed

lemma within_cong: "tAllowance s' (a, p) = tAllowance s (a, p) \<Longrightarrow> within a p B x s' = within a p B x s"
  by (simp add: within_def)

lemma token_allowance_within:
  assumes "token_allowance e a' p' s = Ok (v, s')" "within a p B x s"
  shows "within a p B x s'"
proof -
  have "tAllowance s' (a, p) = tAllowance s (a, p) \<or> tAllowance s' (a, p) = None"
    using assms(1) by (auto simp: token_allowance_def read_allowance_def Let_def split: if_split_asm prod.splits)
  with assms(2) show ?thesis by (auto simp: within_def)
qed

lemma within_step:
  assumes "within a p B x s" "token_exec e c s = Ok s'" "\<not> grants a p c"
  shows "within a p (B - spends a p c) x s' \<and> 0 \<le> spends a p c \<and> spends a p c \<le> B
    \<and> (0 < spends a p c \<longrightarrow> seq e \<le> x)"
proof (cases c)
  case (TransferFromChecked p' a' b k)
  with assms(2) have d: "0 \<le> k" "k \<le> al_amount (fst (read_allowance e a' p' s))"
    "tAllowance s' = tAllowance (spent e a' p' k s)"
    by (auto simp: bnd_eq_Ok dest!: transfer_from_OkD)
  show ?thesis
  proof (cases "(a', p') = (a, p)")
    case True
    with d spent_within [OF assms(1), of k e] TransferFromChecked show ?thesis
      by (auto simp: within_def)
  next
    case False
    then have "tAllowance s' (a, p) = tAllowance s (a, p)" using d(3) spent_other by simp
    moreover have "spends a p c = 0" using False TransferFromChecked by auto
    ultimately show ?thesis using assms(1) within_cong by (simp add: within_def)
  qed
next
  case (BurnFrom p' a' k)
  with assms(2) have d: "0 \<le> k" "k \<le> al_amount (fst (read_allowance e a' p' s))"
    "tAllowance s' = tAllowance (spent e a' p' k s)"
    by (auto simp: bnd_eq_Ok dest!: burn_from_OkD)
  show ?thesis
  proof (cases "(a', p') = (a, p)")
    case True
    with d spent_within [OF assms(1), of k e] BurnFrom show ?thesis by (auto simp: within_def)
  next
    case False
    then have "tAllowance s' (a, p) = tAllowance s (a, p)" using d(3) spent_other by simp
    moreover have "spends a p c = 0" using False BurnFrom by auto
    ultimately show ?thesis using assms(1) within_cong by (simp add: within_def)
  qed
next
  case (ReadAllowance a' p')
  with assms token_allowance_within show ?thesis by (auto simp: bnd_eq_Ok within_def)
next
  case (Approve a' p' k y)
  with assms show ?thesis by (auto simp: bnd_eq_Ok within_def dest!: approve_OkD)
next
  case (Permit a' p' k d sg)
  with assms show ?thesis by (auto simp: bnd_eq_Ok within_def dest!: permit_OkD)
qed (use assms in \<open>auto simp: bnd_eq_Ok within_def
       dest: admin_grants_frame mover_grants_frame batch_mint_grants_frame\<close>)

fun token_run :: "(penv \<times> token_call) list \<Rightarrow> ptoken \<Rightarrow> (token_error, ptoken) outcome" where
  "token_run [] s = Ok s"
| "token_run ((e, c) # cs) s = bnd (token_exec e c s) (token_run cs)"

lemma within_run:
  "within a p B x s \<Longrightarrow> token_run cs s = Ok s' \<Longrightarrow> \<forall>(e, c)\<in>set cs. \<not> grants a p c \<Longrightarrow>
     (\<Sum>(e, c)\<leftarrow>cs. spends a p c) \<le> B \<and> (\<forall>(e, c)\<in>set cs. 0 < spends a p c \<longrightarrow> seq e \<le> x)"
proof (induction cs arbitrary: B s)
  case Nil
  then show ?case by (simp add: within_def)
next
  case (Cons ec cs)
  obtain e c where ec: "ec = (e, c)" by (cases ec)
  with Cons.prems obtain s1 where s1: "token_exec e c s = Ok s1" "token_run cs s1 = Ok s'" "\<not> grants a p c"
    by (auto simp: bnd_eq_Ok)
  note w = within_step [OF Cons.prems(1) s1(1,3)]
  have "(\<Sum>(e, c)\<leftarrow>cs. spends a p c) \<le> B - spends a p c \<and>
      (\<forall>(e, c)\<in>set cs. 0 < spends a p c \<longrightarrow> seq e \<le> x)"
    using Cons.IH [OF _ s1(2)] w Cons.prems(3) by auto
  with w show ?case by (auto simp: ec)
qed

text \<open>C36: An approval is a budget: whatever calls follow, as long as the owner does not grant that
  spender anew, everything the spender moves or burns out of the owner's account adds up to at most
  the approved amount, and none of it moves after the expiry ledger.\<close>

theorem approval_is_a_budget:
  assumes "approve e a p A x s = Ok (u, s1)" "i128_ok A" "u32_ok x"
    and "token_run cs s1 = Ok s2" "\<forall>(e, c)\<in>set cs. \<not> grants a p c"
  shows "auth e a \<and> (\<Sum>(e, c)\<leftarrow>cs. spends a p c) \<le> A
    \<and> (\<forall>(e, c)\<in>set cs. 0 < spends a p c \<longrightarrow> seq e \<le> x)"
proof -
  have "within a p A x s1" using approve_OkD [OF assms(1)] assms(2,3)
    by (auto simp: within_def intro!: exI [of _ A])
  from within_run [OF this assms(4,5)] approve_OkD [OF assms(1)] show ?thesis by blast
qed

theorem approval_is_a_budget_witness:
  "\<exists>s1 s2. approve sample_penv 5 9 300 20 sample_minted = Ok ((), s1)
     \<and> token_run [(sample_penv, TransferFromChecked 9 5 6 200)] s1 = Ok s2
     \<and> spends 5 9 (TransferFromChecked 9 5 6 200) \<le> 300 \<and> read_balance 5 s2 = 300"
proof -
  obtain s1 where s1: "approve sample_penv 5 9 300 20 sample_minted = Ok ((), s1)"
    "s1 = sample_minted\<lparr>tAllowance := (tAllowance sample_minted)((5, 9) \<mapsto> pack_allowance 300 20),
       tEvents := tEvents s1\<rparr>"
    by (simp add: approve_def token_guards is_partition_frozen_internal_def write_allowance_def)
  have f: "tPaused s1 = Some False" "tFrozen s1 x = None" "tFrozenUntil s1 x = None"
    "tComplianceHook s1 = None" "tBalance s1 = [5 \<mapsto> 500]"
    "tAllowance s1 (5, 9) = Some (pack_allowance 300 20)" for x
    by (subst s1(2), simp)+
  have al: "unpack_allowance (pack_allowance 300 20) = (300, 20)"
    using allowance_codec.unpack_pack [of "(300, 20)"] by (simp add: i128_ok_def u32_ok_def)
  obtain s2 where s2: "token_run [(sample_penv, TransferFromChecked 9 5 6 200)] s1 = Ok s2"
    "read_balance 5 s2 = 300"
    by (simp add: transfer_from_checked_def token_guards f read_allowance_def al debit_def credit_def
        read_balance_def i128_add_def i128_sub_def i128_ok_def write_allowance_def Let_def)
  have "(\<Sum>(e, c)\<leftarrow>[(sample_penv, TransferFromChecked 9 5 6 200)]. spends 5 9 c) \<le> 300"
    using approval_is_a_budget [OF s1(1) _ _ s2(1)] by (simp add: i128_ok_def u32_ok_def)
  with s1(1) s2 show ?thesis by auto
qed

section \<open>Frozen accounts and permits\<close>

lemma posted_outside: "a \<notin> fst ` set ps \<Longrightarrow> posted a ps = 0"
  by (induction ps) auto

lemma token_exec_grants:
  assumes "token_exec e c s = Ok s'" "assert_movable e a s \<noteq> Ok ()"
  shows "permit_nonce a s' = permit_nonce a s
    \<and> (tAllowance s' (a, p) = tAllowance s (a, p) \<or> tAllowance s' (a, p) = None)"
proof (cases c)
  case (TransferFromChecked p' a' b k)
  with assms have d: "a' \<noteq> a" "tAllowance s' = tAllowance (spent e a' p' k s)"
    "tPermitNonce s' = tPermitNonce s"
    by (auto simp: bnd_eq_Ok guard_eqs dest!: transfer_from_OkD)
  with spent_other [of a' p' a p] show ?thesis by (simp add: permit_nonce_def)
next
  case (BurnFrom p' a' k)
  with assms have d: "a' \<noteq> a" "tAllowance s' = tAllowance (spent e a' p' k s)"
    "tPermitNonce s' = tPermitNonce s"
    by (auto simp: bnd_eq_Ok guard_eqs dest!: burn_from_OkD)
  with spent_other [of a' p' a p] show ?thesis by (simp add: permit_nonce_def)
next
  case (ReadAllowance a' p')
  with assms obtain v where v: "token_allowance e a' p' s = Ok (v, s')" by (auto simp: bnd_eq_Ok)
  then have "tAllowance s' (a, p) = tAllowance s (a, p) \<or> tAllowance s' (a, p) = None"
    by (auto simp: token_allowance_def read_allowance_def Let_def split: if_split_asm prod.splits)
  with token_allowance_frame [OF v] show ?thesis by (simp add: permit_nonce_def)
next
  case (Approve a' p' k y)
  with assms show ?thesis by (auto simp: bnd_eq_Ok permit_nonce_def split: if_splits dest!: approve_OkD)
next
  case (Permit a' p' k d sg)
  with assms show ?thesis by (auto simp: bnd_eq_Ok permit_nonce_def split: if_splits dest!: permit_OkD)
qed (use assms in \<open>auto simp: bnd_eq_Ok permit_nonce_def
       dest: admin_grants_frame mover_grants_frame batch_mint_grants_frame\<close>)



lemma permit_nonce_step:
  "token_exec e c s = Ok s' \<Longrightarrow> permit_nonce a s \<le> permit_nonce a s'"
proof (cases c)
  case (TransferFromChecked p' a' b k)
  assume "token_exec e c s = Ok s'"
  with TransferFromChecked show ?thesis by (auto simp: bnd_eq_Ok permit_nonce_def dest!: transfer_from_OkD)
next
  case (BurnFrom p' a' k)
  assume "token_exec e c s = Ok s'"
  with BurnFrom show ?thesis by (auto simp: bnd_eq_Ok permit_nonce_def dest!: burn_from_OkD)
qed (auto simp: bnd_eq_Ok permit_nonce_def
       dest: admin_grants_frame mover_grants_frame batch_mint_grants_frame token_allowance_frame(6)
       dest!: approve_OkD permit_OkD)

lemma permit_nonce_run: "token_run cs s = Ok s' \<Longrightarrow> permit_nonce a s \<le> permit_nonce a s'"
proof (induction cs arbitrary: s)
  case (Cons ec cs)
  obtain e c where "ec = (e, c)" by (cases ec)
  with Cons.prems obtain s1 where "token_exec e c s = Ok s1" "token_run cs s1 = Ok s'"
    by (auto simp: bnd_eq_Ok)
  with Cons.IH permit_nonce_step order_trans show ?case by blast
qed simp

end
