(* ===== verification/Token_Permits.thy ===== *)
theory Token_Permits
  imports Pausable_Token
begin

text \<open>
  Signed permits of the token: the decoder of \<open>account_public_key\<close>, which reads the Ed25519 key
  out of the base-32 text of an account address, is shown to invert the base-32 encoder, and a
  permit to count once.
\<close>

section \<open>The base-32 decoder\<close>

text \<open>The reference encoder: big-endian base-32 digits of a byte string read as one number.\<close>

fun base32_be :: "nat \<Rightarrow> nat \<Rightarrow> nat list" where
  "base32_be 0 x = []"
| "base32_be (Suc n) x = base32_be n (x div 32) @ [x mod 32]"

definition base32_char :: "nat \<Rightarrow> byte" where
  "base32_char d = (if d < 26 then word_of_nat (65 + d) else word_of_nat (24 + d))"

definition strkey_encode :: "bytes \<Rightarrow> bytes" where
  "strkey_encode bs = map base32_char (base32_be 56 (be_nat bs))"

definition base32_val :: "nat list \<Rightarrow> nat" where
  "base32_val ds = foldl (\<lambda>a d. a * 32 + d) 0 ds"

definition digit_of :: "byte \<Rightarrow> nat" where
  "digit_of c = (case base32_digit c of Some v \<Rightarrow> unat v | None \<Rightarrow> 0)"

lemma push_or_mod:
  fixes acc v :: "32 word"
  assumes "unat v < 32" "b \<le> 27"
  shows "unat (push_bit 5 acc OR v) mod 2 ^ (b + 5) = (unat acc mod 2 ^ b) * 32 + unat v"
proof -
  have "unat (take_bit 5 v) = unat v"
    using assms(1) by (simp add: unsigned_take_bit_eq take_bit_nat_eq_self)
  then have "take_bit 5 v = v" by (simp add: word_unat_eq_iff)
  then have "bit v n \<Longrightarrow> n < 5" for n using bit_take_bit_iff [of 5 v n] by simp
  then have "push_bit 5 acc OR v = push_bit 5 acc + v"
    by (intro disjunctive_add_eq_or [symmetric]) (fastforce simp: bit_eq_iff bit_simps not_le [symmetric])
  moreover have "unat (push_bit 5 acc) = unat acc * 32 mod 2 ^ 32"
    by (simp only: unsigned_push_bit_eq) (simp add: push_bit_eq_mult take_bit_eq_mod)
  ultimately have u: "unat (push_bit 5 acc OR v) = (unat acc * 32 + unat v) mod 2 ^ 32"
    by (simp add: unat_word_ariths mod_add_left_eq)
  have d: "(2::nat) ^ (b + 5) dvd 2 ^ 32" using assms(2) by (intro le_imp_power_dvd) simp
  have "unat (push_bit 5 acc OR v) mod 2 ^ (b + 5) = (unat acc * 32 + unat v) mod (32 * 2 ^ b)"
    unfolding u mod_mod_cancel [OF d] by (simp add: power_add mult.commute)
  also have "\<dots> = (unat acc mod 2 ^ b) * 32 + unat v"
    using assms(1) by (simp add: mod_mult2_eq)
  finally show ?thesis .
qed

lemma drop_byte:
  fixes acc :: "32 word"
  shows "unat (ucast (drop_bit k acc AND 0xff) :: byte) = unat acc div 2 ^ k mod 256"
proof -
  have "(0xff :: 32 word) = mask 8" by (simp add: mask_eq_exp_minus_1)
  then have "(ucast (drop_bit k acc AND 0xff) :: byte) = ucast (take_bit 8 (drop_bit k acc))"
    by (simp add: take_bit_eq_mask)
  also have "unat \<dots> = unat acc div 2 ^ k mod 256"
    by (simp only: unsigned_ucast_eq unsigned_take_bit_eq unsigned_drop_bit_eq)
      (use unsigned_less [of acc, where ?'a = nat] in \<open>simp add: take_bit_eq_mod drop_bit_eq_div\<close>)
  finally show ?thesis .
qed

lemma base32_digit_table:
  "list_all (\<lambda>n. case base32_digit (word_of_nat n) of None \<Rightarrow> True
     | Some v \<Rightarrow> unat v < 32 \<and> base32_char (unat v) = word_of_nat n) [0..<256]"
  by code_simp

lemma base32_char_table: "list_all (\<lambda>d. base32_digit (base32_char d) = Some (word_of_nat d)) [0..<32]"
  by code_simp

lemma base32_digit_SomeD:
  assumes "base32_digit c = Some v"
  shows "unat v < 32 \<and> base32_char (unat v) = c"
proof -
  have "unat c \<in> set [0..<256]" using unsigned_less [of c] by simp
  with base32_digit_table have "case base32_digit (word_of_nat (unat c)) of None \<Rightarrow> True
     | Some v \<Rightarrow> unat v < 32 \<and> base32_char (unat v) = word_of_nat (unat c)"
    unfolding list_all_iff by blast
  with assms show ?thesis by simp
qed

lemma base32_digit_char: "d < 32 \<Longrightarrow> base32_digit (base32_char d) = Some (word_of_nat d)"
  using base32_char_table by (simp add: list_all_iff)

lemma base32_foldl: "foldl (\<lambda>a d. a * 32 + d) x ds = x * 32 ^ length ds + base32_val ds"
proof (induction ds rule: rev_induct)
  case (snoc d ds)
  then show ?case by (simp add: base32_val_def algebra_simps)
qed (simp add: base32_val_def)

lemma base32_val_Cons: "base32_val (d # ds) = d * 32 ^ length ds + base32_val ds"
  using base32_foldl [of d ds] by (simp add: base32_val_def)

text \<open>
  The invariant of the loop: the bytes written so far, followed by the low \<open>bits\<close> bits of the
  accumulator, are the digits read so far.
\<close>

definition read_so_far :: "32 word \<Rightarrow> nat \<Rightarrow> bytes \<Rightarrow> nat" where
  "read_so_far acc bits out = be_nat out * 2 ^ bits + unat acc mod 2 ^ bits"

lemma read_digit:
  assumes "unat v < 32" "bits < 8"
  shows "read_so_far (push_bit 5 acc OR v) (bits + 5) out = read_so_far acc bits out * 32 + unat v"
  using push_or_mod [OF assms(1), of bits acc] assms(2)
  by (simp add: read_so_far_def power_add algebra_simps)

lemma write_byte:
  assumes "k < 8"
  shows "read_so_far acc k (out @ [ucast (drop_bit k acc AND 0xff)]) = read_so_far acc (k + 8) out"
proof -
  let ?a = "unat acc"
  have "?a mod 2 ^ (k + 8) = ?a mod 2 ^ k + 2 ^ k * (?a div 2 ^ k mod 256)"
    using mod_mult2_eq [of ?a "2 ^ k" 256] by (simp add: power_add algebra_simps)
  then show ?thesis
    by (simp add: read_so_far_def be_nat_append_one drop_byte power_add algebra_simps)
qed

lemma decode_loop_reads:
  assumes "bits < 8" "8 * length out + bits + 5 * length cs \<le> 280"
  shows "if \<forall>c\<in>set cs. base32_digit c \<noteq> None
    then \<exists>acc' bits' out'. decode_loop cs acc bits out = Ok out' \<and> bits' < 8
      \<and> 8 * length out' + bits' = 8 * length out + bits + 5 * length cs
      \<and> read_so_far acc' bits' out' =
          read_so_far acc bits out * 32 ^ length cs + base32_val (map digit_of cs)
    else decode_loop cs acc bits out = Err InvalidSignature"
  using assms
proof (induction cs arbitrary: acc bits out)
  case Nil
  then show ?case by (auto simp: base32_val_def)
next
  case (Cons c cs)
  show ?case
  proof (cases "base32_digit c")
    case None
    then show ?thesis by simp
  next
    case (Some v)
    have v: "unat v < 32" "digit_of c = unat v"
      using base32_digit_SomeD [OF Some] by (simp_all add: digit_of_def Some)
    define acc1 where "acc1 = push_bit 5 acc OR v"
    have r: "read_so_far acc1 (bits + 5) out = read_so_far acc bits out * 32 + unat v"
      unfolding acc1_def by (rule read_digit [OF v(1) Cons.prems(1)])
    have step: "\<exists>bits1 out1. decode_loop (c # cs) acc bits out = decode_loop cs acc1 bits1 out1
        \<and> bits1 < 8 \<and> 8 * length out1 + bits1 = 8 * length out + bits + 5
        \<and> read_so_far acc1 bits1 out1 = read_so_far acc1 (bits + 5) out"
    proof (cases "8 \<le> bits + 5")
      case True
      then have "length out < 35" "bits + 5 - 8 < 8" "bits + 5 - 8 + 8 = bits + 5"
        using Cons.prems by simp_all
      with True Some write_byte [of "bits + 5 - 8" acc1 out] show ?thesis
        by (intro exI [of _ "bits + 5 - 8"]
              exI [of _ "out @ [ucast (drop_bit (bits + 5 - 8) acc1 AND 0xff)]"])
          (use Cons.prems in \<open>simp add: acc1_def Let_def add.commute del: drop_bit_or\<close>)
    next
      case False
      with Some show ?thesis
        by (intro exI [of _ "bits + 5"] exI [of _ out]) (simp add: acc1_def Let_def)
    qed
    then obtain bits1 out1 where s: "decode_loop (c # cs) acc bits out = decode_loop cs acc1 bits1 out1"
      "bits1 < 8" "8 * length out1 + bits1 = 8 * length out + bits + 5"
      "read_so_far acc1 bits1 out1 = read_so_far acc bits out * 32 + unat v"
      using r by auto
    with Cons.prems have "8 * length out1 + bits1 + 5 * length cs \<le> 280" by simp
    from Cons.IH [OF s(2) this, of acc1] show ?thesis
      unfolding s(1) using Some s(3) v(2)
      by (auto simp: s(4) base32_val_Cons algebra_simps split: if_splits)
  qed
qed

lemma be_nat_inject: "length bs = length cs \<Longrightarrow> be_nat bs = be_nat cs \<Longrightarrow> bs = cs"
  by (metis be_bytes_be_nat)

lemma base32_be_props:
  "length (base32_be n x) = n" "\<forall>d\<in>set (base32_be n x). d < 32"
  "base32_val (base32_be n x) = x mod 32 ^ n"
proof (induction n arbitrary: x)
  case (Suc n)
  {
    case 1
    show ?case using Suc(1) by simp
  next
    case 2
    show ?case using Suc(2) by simp
  next
    case 3
    show ?case using Suc(3) [of "x div 32"] by (simp add: base32_val_def mod_mult2_eq)
  }
qed (simp_all add: base32_val_def)

lemma base32_be_val: "\<forall>d\<in>set ds. d < 32 \<Longrightarrow> base32_be (length ds) (base32_val ds) = ds"
  by (induction ds rule: rev_induct) (simp_all add: base32_val_def)

lemma base32_be_first: "base32_be (Suc n) x ! 0 = x div 32 ^ n mod 32"
proof (induction n arbitrary: x)
  case (Suc n)
  have "base32_be (Suc (Suc n)) x ! 0 = base32_be (Suc n) (x div 32) ! 0"
    by (simp add: nth_append base32_be_props)
  with Suc show ?case by (simp add: div_mult2_eq)
qed simp

lemma decode_56:
  assumes "length cs = 56"
  shows "if \<forall>c\<in>set cs. base32_digit c \<noteq> None
    then \<exists>bs. decode_loop cs 0 0 [] = Ok bs \<and> length bs = 35 \<and> be_nat bs = base32_val (map digit_of cs)
    else decode_loop cs 0 0 [] = Err InvalidSignature"
proof (cases "\<forall>c\<in>set cs. base32_digit c \<noteq> None")
  case True
  then obtain acc bits bs where d: "decode_loop cs 0 0 [] = Ok bs" "bits < 8" "8 * length bs + bits = 280"
    "read_so_far acc bits bs = base32_val (map digit_of cs)"
    using decode_loop_reads [of 0 "[]" cs 0] assms by (auto simp: read_so_far_def be_nat_def)
  then have "bits = 0" "length bs = 35" by presburger+
  with d True show ?thesis by (simp add: read_so_far_def)
next
  case False
  with decode_loop_reads [of 0 "[]" cs 0] assms show ?thesis by auto
qed

lemma strkey_encode_props:
  assumes "length bs = 35"
  shows "length (strkey_encode bs) = 56" "\<forall>c\<in>set (strkey_encode bs). base32_digit c \<noteq> None"
    "base32_val (map digit_of (strkey_encode bs)) = be_nat bs"
proof -
  show "length (strkey_encode bs) = 56" by (simp add: strkey_encode_def base32_be_props)
  show "\<forall>c\<in>set (strkey_encode bs). base32_digit c \<noteq> None"
    using base32_be_props(2) base32_digit_char by (fastforce simp: strkey_encode_def)
  have "digit_of (base32_char d) = d" if "d < 32" for d
    using that by (simp add: digit_of_def base32_digit_char unat_of_nat)
  then have "map (digit_of \<circ> base32_char) (base32_be 56 (be_nat bs)) = base32_be 56 (be_nat bs)"
    using base32_be_props(2) [of 56 "be_nat bs"] by (intro map_idI) simp
  then show "base32_val (map digit_of (strkey_encode bs)) = be_nat bs"
    using be_nat_less [of bs] assms by (simp add: strkey_encode_def base32_be_props)
qed

lemma strkey_encode_first:
  assumes "length bs = 35" "bs ! 0 = 48"
  shows "strkey_encode bs ! 0 = 71"
proof -
  obtain b rest where bs: "bs = b # rest" "length rest = 34" "b = 48" using assms by (cases bs) auto
  have "be_nat bs = 48 * 256 ^ 34 + be_nat rest"
  proof -
    have "foldl (\<lambda>a b. a * 256 + unat b) x ys = x * 256 ^ length ys + be_nat ys" for x and ys :: bytes
    proof (induction ys rule: rev_induct)
      case (snoc y ys)
      then show ?case by (simp add: be_nat_append_one algebra_simps)
    qed (simp add: be_nat_def)
    from this [of 48 rest] bs show ?thesis by (simp add: be_nat_def)
  qed
  moreover have "be_nat rest < 256 ^ 34" using be_nat_less [of rest] bs by simp
  ultimately have "be_nat bs div 32 ^ 55 mod 32 = 6" by simp
  then have "base32_be (Suc 55) (be_nat bs) ! 0 = 6" unfolding base32_be_first .
  moreover have "(56::nat) = Suc 55" by simp
  ultimately have "base32_be 56 (be_nat bs) ! 0 = 6" by metis
  then show ?thesis by (simp add: strkey_encode_def base32_be_props base32_char_def nth_map)
qed

lemma account_public_key_iff:
  "account_public_key e a = Ok pk \<longleftrightarrow>
     (\<exists>bs. length bs = 35 \<and> bs ! 0 = 48 \<and> strkey e a = strkey_encode bs \<and> pk = bslice 1 33 bs)"
proof
  assume ok: "account_public_key e a = Ok pk"
  let ?cs = "strkey e a"
  obtain bs where bs: "length ?cs = 56" "decode_loop ?cs 0 0 [] = Ok bs" "length bs = 35" "bs ! 0 = 48"
    "pk = bslice 1 33 bs"
    using ok by (auto simp: account_public_key_def bnd_eq_Ok Let_def split: if_splits)
  have valid: "\<forall>c\<in>set ?cs. base32_digit c \<noteq> None"
    using decode_56 [OF bs(1)] bs(2) by (auto split: if_splits)
  then have n: "be_nat bs = base32_val (map digit_of ?cs)" using decode_56 [OF bs(1)] bs(2) by simp
  have dig: "digit_of c < 32 \<and> base32_char (digit_of c) = c" if "c \<in> set ?cs" for c
    using valid that base32_digit_SomeD [of c] by (auto simp: digit_of_def)
  have "strkey_encode bs = map base32_char (map digit_of ?cs)"
    using base32_be_val [of "map digit_of ?cs"] dig bs(1) n by (simp add: strkey_encode_def)
  also have "\<dots> = ?cs" using dig by (simp add: map_idI)
  finally show "\<exists>bs. length bs = 35 \<and> bs ! 0 = 48 \<and> ?cs = strkey_encode bs \<and> pk = bslice 1 33 bs"
    using bs by metis
next
  assume "\<exists>bs. length bs = 35 \<and> bs ! 0 = 48 \<and> strkey e a = strkey_encode bs \<and> pk = bslice 1 33 bs"
  then obtain bs where bs: "length bs = 35" "bs ! 0 = 48" "strkey e a = strkey_encode bs"
    "pk = bslice 1 33 bs" by blast
  note p = strkey_encode_props [OF bs(1)]
  obtain cs where "decode_loop (strkey_encode bs) 0 0 [] = Ok cs" "length cs = 35" "be_nat cs = be_nat bs"
    using decode_56 [OF p(1)] p(2,3) by auto
  then have "decode_loop (strkey_encode bs) 0 0 [] = Ok bs" using be_nat_inject bs(1) by metis
  then show "account_public_key e a = Ok pk"
    using bs p(1) strkey_encode_first [OF bs(1,2)] by (simp add: account_public_key_def)
qed

section \<open>Permits\<close>

text \<open>The key a permit is checked against is the one in the owner's address: decoding the address
  text succeeds exactly on the base-32 encodings of 35 bytes that start with the account version
  byte, and returns the 32 key bytes that were encoded; anything else is \<open>InvalidSignature\<close>.\<close>

theorem public_key_of_address:
  "(account_public_key e a = Ok pk) =
     (\<exists>bs. length bs = 35 \<and> bs ! 0 = 48 \<and> strkey e a = strkey_encode bs \<and> pk = bslice 1 33 bs)
   \<and> account_public_key e a \<noteq> Trap \<and> (account_public_key e a = Err x) =
       (x = InvalidSignature \<and> (\<nexists>bs. length bs = 35 \<and> bs ! 0 = 48 \<and> strkey e a = strkey_encode bs))"
proof -
  have two: "(\<exists>pk. account_public_key e a = Ok pk) \<or> account_public_key e a = Err InvalidSignature"
  proof (cases "length (strkey e a) = 56")
    case True
    then show ?thesis using decode_56 [of "strkey e a"]
      by (auto simp: account_public_key_def Let_def split: if_splits)
  qed (simp add: account_public_key_def)
  then show ?thesis using account_public_key_iff [of e a] by (cases "account_public_key e a") auto
qed

text \<open>C35: A permit counts once: it takes an unexpired signature, under the key of the owner's own
  address, of a message with the owner's current nonce, sets that one allowance and uses the nonce
  up; any later permit of the owner, whatever happened in between, carries a larger nonce.\<close>

theorem permit_counts_once:
  assumes "permit e a p v d sg s = Ok (u, s1)" "token_run cs s1 = Ok s2"
    and "permit e2 a p2 v2 d2 sg2 s2 = Ok (u2, s3)"
  shows "now e \<le> d \<and> d \<le> now e + MAX_PERMIT_LIFETIME_SECONDS
    \<and> (\<exists>pk. account_public_key e a = Ok pk \<and> ed25519 e pk (permit_digest e a p v (permit_nonce a s) d s) sg)
    \<and> permit_nonce a s1 = permit_nonce a s + 1
    \<and> (\<forall>a' p'. (a', p') \<noteq> (a, p) \<longrightarrow> tAllowance s1 (a', p') = tAllowance s (a', p'))
    \<and> tAllowance s1 (a, p) = (if v = 0 then None else Some (pack_allowance v U32_MAX))
    \<and> (\<exists>n pk. permit_nonce a s < n \<and> account_public_key e2 a = Ok pk
         \<and> ed25519 e2 pk (permit_digest e2 a p2 v2 n d2 s2) sg2)"
proof -
  note one = permit_OkD [OF assms(1)] and two = permit_OkD [OF assms(3)]
  have n: "permit_nonce a s1 = permit_nonce a s + 1" using one by (auto simp: permit_nonce_def)
  then have "permit_nonce a s < permit_nonce a s2" using permit_nonce_run [OF assms(2), of a] by simp
  moreover have "d \<le> now e + MAX_PERMIT_LIFETIME_SECONDS"
    using one by (auto simp: u64_saturating_add_def min_def split: if_splits)
  ultimately show ?thesis using one two n by auto
qed

definition sample_signer_env :: penv where
  "sample_signer_env = sample_penv\<lparr>strkey := (\<lambda>a. strkey_encode (48 # replicate 34 0))\<rparr>"

lemma sample_signer_key: "account_public_key sample_signer_env a = Ok (replicate 32 0)"
  unfolding account_public_key_iff
  by (intro exI [of _ "48 # replicate 34 0"]) (simp add: sample_signer_env_def bslice_def)

theorem permit_counts_once_witness:
  "\<exists>s1 s2. permit sample_signer_env 5 9 100 200 (replicate 64 0) sample_minted = Ok ((), s1)
     \<and> permit sample_signer_env 5 9 0 200 (replicate 64 0) s1 = Ok ((), s2) \<and> permit_nonce 5 s1 = 1"
proof -
  let ?e = sample_signer_env
  have env: "now ?e = 100" "ed25519 ?e pk m sg = (pk = take 32 sg)" for pk m sg
    by (simp_all add: sample_signer_env_def sample_penv_def)
  have run: "\<exists>s'. permit ?e 5 9 v 200 (replicate 64 0) s = Ok ((), s') \<and> tPaused s' = tPaused s
      \<and> tFrozen s' = tFrozen s \<and> tFrozenUntil s' = tFrozenUntil s \<and> tPartitionFrozen s' = tPartitionFrozen s
      \<and> tInitialized s' = tInitialized s \<and> permit_nonce 5 s' = permit_nonce 5 s + 1"
    if "tPaused s = Some False" "tFrozen s 5 = None" "tFrozenUntil s 5 = None" "tPartitionFrozen s 5 = None"
      "tInitialized s = Some True" "permit_nonce 5 s < 5" "0 \<le> v" for s v
    using that by (simp add: permit_def token_guards env is_partition_frozen_internal_def u64_ok_def
        sample_signer_key ed25519_verify_def write_allowance_def permit_nonce_def Let_def
        u64_saturating_add_def const_defs)
  obtain s1 where s1: "permit ?e 5 9 100 200 (replicate 64 0) sample_minted = Ok ((), s1)"
    "tPaused s1 = Some False" "tFrozen s1 5 = None" "tFrozenUntil s1 5 = None" "tPartitionFrozen s1 5 = None"
    "tInitialized s1 = Some True" "permit_nonce 5 s1 < 5"
    using run [of sample_minted 100] by (auto simp: permit_nonce_def)
  obtain s2 where s2: "permit ?e 5 9 0 200 (replicate 64 0) s1 = Ok ((), s2)"
    using run [OF s1(2-7), of 0] by auto
  have "token_run [] s1 = Ok s1" by simp
  from permit_counts_once [OF s1(1) this s2] s1(1) s2 show ?thesis by (simp add: permit_nonce_def)
qed

end
