(* ===== verification/Token_World.thy ===== *)
theory Token_World
  imports Token_Permits Router_Payments
begin

text \<open>
  Tokens of the repository as the token contracts the other contracts call: a world is a map
  from addresses to deployed tokens, a call from another contract runs \<open>transfer\<close> or
  \<open>transfer_from\<close> of \<open>pausable_token\<close> on the one it names and fails when that fails. The
  interpretation discharges the laws of \<open>token_contract\<close> and \<open>allowance_token\<close> for this
  code, so what is proved of the router under those laws holds on these tokens; the last
  section puts the two contracts together.
\<close>

type_synonym token_world = "address \<Rightarrow> ptoken option"

definition ptw_balance :: "address \<Rightarrow> address \<Rightarrow> token_world \<Rightarrow> int option" where
  "ptw_balance tok x w = map_option (read_balance x) (w tok)"

definition ptw_allowance :: "penv \<Rightarrow> address \<Rightarrow> address \<Rightarrow> address \<Rightarrow> token_world \<Rightarrow> int option" where
  "ptw_allowance p tok owner sp w =
     map_option (\<lambda>t. al_amount (fst (read_allowance (p\<lparr>self := tok\<rparr>) owner sp t))) (w tok)"

definition ptw_run ::
    "address \<Rightarrow> (ptoken \<Rightarrow> unit tres) \<Rightarrow> token_world \<Rightarrow> token_world call" where
  "ptw_run tok f w =
     (case w tok of
        None \<Rightarrow> Failed
      | Some t \<Rightarrow> (case f t of Ok (_, t') \<Rightarrow> Done (w(tok \<mapsto> t')) | Err x \<Rightarrow> Failed | Trap \<Rightarrow> Failed))"

definition ptw_transfer ::
    "penv \<Rightarrow> address \<Rightarrow> address \<Rightarrow> address \<Rightarrow> int \<Rightarrow> token_world \<Rightarrow> token_world call" where
  "ptw_transfer p tok src dst a = ptw_run tok (transfer_checked (p\<lparr>self := tok\<rparr>) src dst a)"

definition ptw_transfer_from ::
    "penv \<Rightarrow> address \<Rightarrow> address \<Rightarrow> address \<Rightarrow> address \<Rightarrow> int \<Rightarrow> token_world \<Rightarrow> token_world call" where
  "ptw_transfer_from p tok sp src dst a = ptw_run tok (transfer_from_checked (p\<lparr>self := tok\<rparr>) sp src dst a)"

lemma ptw_run_eq:
  "(ptw_run tok f w = Done w') = (\<exists>t t'. w tok = Some t \<and> f t = Ok ((), t') \<and> w' = w(tok \<mapsto> t'))"
  "ptw_run tok f w \<noteq> BadReturn w'"
  by (auto simp: ptw_run_def split: option.splits outcome.splits)

lemma posted_flow: "posted x [(a, - k), (b, k)] = flow tok a b k tok x"
  by (simp add: flow_def)

lemma posts_flow:
  assumes "posts e [(a, - k), (b, k)] t t'" "w tok = Some t"
  shows "ptw_balance tok' x (w(tok \<mapsto> t')) =
    map_option (\<lambda>n. n + flow tok a b k tok' x) (ptw_balance tok' x w)"
proof (cases "tok' = tok")
  case True
  have "read_balance x t' = read_balance x t + posted x [(a, - k), (b, k)]"
    using assms(1) unfolding posts_def by blast
  then have "read_balance x t' = read_balance x t + flow tok a b k tok x"
    unfolding posted_flow [of x a k b tok] .
  with True assms(2) show ?thesis by (simp add: ptw_balance_def)
next
  case False
  then show ?thesis by (simp add: ptw_balance_def option.map_ident)
qed

lemma ptw_transfer_eq:
  "(ptw_transfer p tok src dst a w = Done w') = (\<exists>t t'. w tok = Some t
     \<and> transfer_checked (p\<lparr>self := tok\<rparr>) src dst a t = Ok ((), t') \<and> w' = w(tok \<mapsto> t'))"
  "(ptw_transfer_from p tok sp src dst a w = Done w') = (\<exists>t t'. w tok = Some t
     \<and> transfer_from_checked (p\<lparr>self := tok\<rparr>) sp src dst a t = Ok ((), t') \<and> w' = w(tok \<mapsto> t'))"
  "ptw_transfer p tok src dst a w \<noteq> BadReturn w'"
  "ptw_transfer_from p tok sp src dst a w \<noteq> BadReturn w'"
  by (simp_all add: ptw_transfer_def ptw_transfer_from_def ptw_run_eq)

interpretation tokens: allowance_token ptw_balance "ptw_transfer p" "ptw_transfer_from p" for p
proof
  fix tok src dst a w w' tok' x sp
  {
    assume "ptw_transfer p tok src dst a w = Done w'"
    then obtain t t' where r: "w tok = Some t" "w' = w(tok \<mapsto> t')"
      "transfer_checked (p\<lparr>self := tok\<rparr>) src dst a t = Ok ((), t')"
      unfolding ptw_transfer_eq by blast
    from posts_flow [OF posts_simps(1) [OF r(3)], of w tok tok' x] r(1)
    show "ptw_balance tok' x w' = map_option (\<lambda>b. b + flow tok src dst a tok' x) (ptw_balance tok' x w)"
      by (simp add: r(2))
    from r(1) show "ptw_balance tok x w \<noteq> None" by (simp add: ptw_balance_def)
    from transfer_checked_OkD [OF r(3)] show "0 \<le> a" by blast
  next
    assume "ptw_transfer_from p tok sp src dst a w = Done w'"
    then obtain t t' where r: "w tok = Some t" "w' = w(tok \<mapsto> t')"
      "transfer_from_checked (p\<lparr>self := tok\<rparr>) sp src dst a t = Ok ((), t')"
      unfolding ptw_transfer_eq by blast
    from posts_flow [OF posts_simps(2) [OF r(3)], of w tok tok' x] r(1)
    show "ptw_balance tok' x w' = map_option (\<lambda>b. b + flow tok src dst a tok' x) (ptw_balance tok' x w)"
      by (simp add: r(2))
    from r(1) show "ptw_balance tok x w \<noteq> None" by (simp add: ptw_balance_def)
    from transfer_from_OkD [OF r(3)] show "0 \<le> a" by blast
  }
qed (simp_all add: ptw_transfer_eq)

section \<open>What a transfer leaves alone\<close>

text \<open>One token before and after calls made at one ledger time.\<close>

definition token_kept :: "penv \<Rightarrow> ptoken \<Rightarrow> ptoken \<Rightarrow> bool" where
  "token_kept p t t' \<longleftrightarrow> total_supply t' = total_supply t \<and> (token_inv t \<longrightarrow> token_inv t')
    \<and> tPaused t' = tPaused t \<and> tFrozen t' = tFrozen t \<and> tFrozenUntil t' = tFrozenUntil t
    \<and> (\<forall>x. assert_movable p x t \<noteq> Ok () \<longrightarrow> read_balance x t' = read_balance x t)"

definition world_kept :: "penv \<Rightarrow> token_world \<Rightarrow> token_world \<Rightarrow> bool" where
  "world_kept p w w' \<longleftrightarrow> dom w' = dom w \<and>
     (\<forall>tok t t'. w tok = Some t \<longrightarrow> w' tok = Some t' \<longrightarrow> token_kept p t t')"

lemma movable_cong:
  "tPaused t' = tPaused t \<Longrightarrow> tFrozen t' = tFrozen t \<Longrightarrow> tFrozenUntil t' = tFrozenUntil t \<Longrightarrow>
   assert_movable p x t' = assert_movable p x t"
  by (simp add: assert_movable_def token_is_paused_def token_is_frozen_def)

lemma token_kept_trans: "token_kept p t t1 \<Longrightarrow> token_kept p t1 t2 \<Longrightarrow> token_kept p t t2"
  using movable_cong [of t1 t p] by (simp add: token_kept_def)

lemma world_kept_refl [simp]: "world_kept p w w"
  by (simp add: world_kept_def token_kept_def)

lemma world_kept_trans: "world_kept p w w1 \<Longrightarrow> world_kept p w1 w2 \<Longrightarrow> world_kept p w w2"
  unfolding world_kept_def
proof (intro conjI allI impI)
  assume *: "dom w1 = dom w \<and> (\<forall>tok t t'. w tok = Some t \<longrightarrow> w1 tok = Some t' \<longrightarrow> token_kept p t t')"
    "dom w2 = dom w1 \<and> (\<forall>tok t t'. w1 tok = Some t \<longrightarrow> w2 tok = Some t' \<longrightarrow> token_kept p t t')"
  then show "dom w2 = dom w" by simp
  fix tok t t2 assume "w tok = Some t" "w2 tok = Some t2"
  moreover from this * obtain t1 where "w1 tok = Some t1" by blast
  ultimately show "token_kept p t t2" using * token_kept_trans by blast
qed

lemma movable_self [simp]: "assert_movable (p\<lparr>self := a\<rparr>) x t = assert_movable p x t"
  by (simp add: assert_movable_def token_is_frozen_def split: option.split)

lemma transfer_kept:
  assumes "transfer_checked (p\<lparr>self := tok\<rparr>) a b k t = Ok (u, t')"
  shows "token_kept p t t'"
proof -
  have run: "token_exec (p\<lparr>self := tok\<rparr>) (TransferChecked a b k) t = Ok t'" using assms by simp
  have "total_supply t' = total_supply t"
    using mover_control(1) [OF assms] by (simp add: total_supply_def)
  moreover have "tPaused t' = tPaused t" "tFrozen t' = tFrozen t" "tFrozenUntil t' = tFrozenUntil t"
    using transfer_checked_OkD [OF assms] by auto
  moreover have "read_balance x t' = read_balance x t" if "assert_movable p x t \<noteq> Ok ()" for x
  proof -
    have "x \<notin> fst ` set [(a, - k), (b, k)]"
      using that posts_simps(1) [OF assms] by (auto simp: posts_def)
    with posts_simps(1) [OF assms] posted_outside show ?thesis by (metis add.right_neutral posts_def)
  qed
  ultimately show ?thesis using token_exec_inv [OF _ run] by (simp add: token_kept_def)
qed

lemma ptw_transfer_kept: "ptw_transfer p tok a b k w = Done w' \<Longrightarrow> world_kept p w w'"
  using transfer_kept
  by (auto simp: ptw_transfer_def ptw_run_eq world_kept_def token_kept_def split: if_splits)

section \<open>The router on these tokens\<close>

text \<open>The router's environment with its token calls going to deployed tokens.\<close>

definition on_tokens :: "penv \<Rightarrow> token_world renv \<Rightarrow> token_world renv" where
  "on_tokens p e = e\<lparr>tok_balance := ptw_balance, tok_allowance := ptw_allowance p,
     tok_transfer := ptw_transfer p, tok_transfer_from := ptw_transfer_from p\<rparr>"

lemma on_tokens_simps [simp]:
  "tok_balance (on_tokens p e) = ptw_balance" "tok_transfer (on_tokens p e) = ptw_transfer p"
  "self (on_tokens p e) = self e" "now (on_tokens p e) = now e"
  by (simp_all add: on_tokens_def)

lemma pay_fee_kept:
  "pay_fee (ptw_transfer p tok sender) tr fee s = Ok s' \<Longrightarrow> world_kept p (world s) (world s')"
  by (auto simp: pay_fee_def ptw_transfer_eq(3,4) split: if_splits call.splits dest: ptw_transfer_kept)

lemma pay_remainder_kept:
  "pay_remainder (ptw_transfer p tok sender) r sender a tok k s = Ok s' \<Longrightarrow>
     world_kept p (world s) (world s')"
  by (auto simp: pay_remainder_def ptw_transfer_eq(3,4) credit_refund_eq split: if_splits call.splits
      dest: ptw_transfer_kept)

lemma process_payment_kept:
  assumes "process_single_payment (on_tokens p e) sender recipient tok k tr bps cap s = Ok s'"
  shows "world_kept p (world s) (world s')"
proof -
  obtain v s1 b fee rest s2 s3 where st:
    "accrue_user_record (on_tokens p e) sender k
       (emit ''payment_initiated'' [AddrArg sender, IntArg k] s) = Ok (v, s1)"
    "pay_fee (ptw_transfer p tok sender) tr fee s1 = Ok s2"
    "pay_remainder (ptw_transfer p tok sender) (self e) sender recipient tok rest s2 = Ok s3"
    "s' = emit ''routed'' [AddrArg sender, AddrArg recipient, IntArg k] s3"
    using assms unfolding process_single_payment_steps on_tokens_simps by blast
  have "world s1 = world s" by (subst accrue_frame(2) [OF st(1)]) simp
  with world_kept_trans [OF pay_fee_kept [OF st(2)] pay_remainder_kept [OF st(3)]] st(4)
  show ?thesis by simp
qed

lemma route_payment_kept:
  assumes "route_payment (on_tokens p e) sender recipient tok k s = Ok ((), s')"
  shows "world_kept p (world s) (world s')"
proof -
  obtain s1 tr bps cap s2 where
    rate: "check_rate_limit (on_tokens p e) sender (s\<lparr>xReentrancyGuard := Some True\<rparr>) = Ok s1"
    and pay: "process_single_payment (on_tokens p e) sender recipient tok k tr bps cap s1 = Ok s2"
    and s': "s' = (bump_heartbeat (on_tokens p e) s2)\<lparr>xReentrancyGuard := Some False\<rparr>"
    using assms unfolding route_payment_eq by blast
  have "world s1 = world s" by (subst check_rate_shape [OF rate]) simp
  with process_payment_kept [OF pay] show ?thesis by (simp add: s')
qed


text \<open>Account 6 is frozen: a payment of 200 to it ends as a refund of 198, the fee of 2 is kept.\<close>

definition sample_frozen_token :: ptoken where
  "sample_frozen_token = sample_minted\<lparr>tFrozen := (tFrozen sample_minted)(6 \<mapsto> True),
     tEvents := tEvents sample_minted @ [Event ''frozen'' [AddrArg 1, AddrArg 6, NatArg 7]]\<rparr>"

lemma sample_frozen_token_simps [simp]:
  "tPaused sample_frozen_token = Some False"
  "tFrozen sample_frozen_token x = (if x = 6 then Some True else None)"
  "tFrozenUntil sample_frozen_token x = None" "tComplianceHook sample_frozen_token = None"
  "tBalance sample_frozen_token = [5 \<mapsto> 500]"
  by (simp_all add: sample_frozen_token_def)

lemma sample_frozen_token_inv: "token_inv sample_frozen_token"
proof (rule token_exec_inv)
  show "token_inv sample_minted" using token_steps_inv [OF sample_minted_reach fresh_token_inv] .
  show "token_exec sample_penv (SetFrozen 6 True) sample_minted = Ok sample_frozen_token"
    by (simp add: set_frozen_def token_guards sample_frozen_token_def)
qed

definition sample_token_env :: "token_world renv" where
  "sample_token_env = \<lparr>
     now = 100, seq = 7, self = 99, auth = (\<lambda>_. True), sha256 = (\<lambda>b. b), ed25519 = (\<lambda>pk m s. True),
     tok_balance = (\<lambda>t a w. None), tok_allowance = (\<lambda>t a b w. None),
     tok_transfer = (\<lambda>t a b k w. Failed), tok_transfer_from = (\<lambda>t p a b k w. Failed),
     kyc_is_verified = (\<lambda>q a w. None), dex_swap = (\<lambda>d a b k m r w. None),
     dex_quote = (\<lambda>d a b k w. None), dex_swap_exact = (\<lambda>d a b k m p r w. None),
     lend_deposit = (\<lambda>p a t k w. None), lend_withdraw = (\<lambda>p a t k w. None),
     lend_harvest = (\<lambda>p a t w. None), oracle_get_price = (\<lambda>q a b w. None),
     xdr_address = (\<lambda>a. []), xdr_i128 = (\<lambda>k. []), xdr_u64 = (\<lambda>n. []), xdr_quote = (\<lambda>q. []),
     xdr_multisig = (\<lambda>xs n. []), wasm_uploaded = (\<lambda>h. False)\<rparr>"

definition sample_token_ledger :: "token_world ledger" where
  "sample_token_ledger = (fresh_ledger [50 \<mapsto> sample_frozen_token])\<lparr>
     iAdmin := Some 1, iPlatformTreasury := Some 2, iFeeBps := Some 100, iFeeCap := Some 500,
     iMaxAmount := Some MAX_AMOUNT, iPaused := Some False, iFrozen := Some False\<rparr>"

lemma ptw_transfer_runs:
  assumes "w tok = Some t" "assert_settled p a b t = Ok ()" "auth p a" "tComplianceHook t = None"
    and "0 \<le> k" "k \<le> read_balance a t" "i128_ok (read_balance a t - k)"
    and "i128_ok (unwrap_or 0 (((tBalance t)(a \<mapsto> read_balance a t - k)) b) + k)"
  shows "ptw_transfer p tok a b k w =
    Done (w(tok \<mapsto> log_event ''transfer'' [AddrArg a, AddrArg b, IntArg k] (t\<lparr>tBalance := moved a b k t\<rparr>)))"
proof -
  have "transfer_checked (p\<lparr>self := tok\<rparr>) a b k t =
      Ok ((), log_event ''transfer'' [AddrArg a, AddrArg b, IntArg k] (t\<lparr>tBalance := moved a b k t\<rparr>))"
    using assms(2-8)
    by (simp add: transfer_checked_def assert_settled_def require_auth_def validate_compliance_def
        debit_def credit_def i128_sub_def i128_add_def read_balance_def moved_def Let_def)
  with assms(1) show ?thesis by (simp add: ptw_transfer_def ptw_run_def)
qed

lemma ptw_transfer_frozen:
  assumes "w tok = Some t" "assert_movable p b t \<noteq> Ok ()"
  shows "ptw_transfer p tok a b k w = Failed"
proof -
  have "transfer_checked (p\<lparr>self := tok\<rparr>) a b k t \<noteq> Ok ((), t')" for t'
    using assms(2) transfer_checked_OkD [of "p\<lparr>self := tok\<rparr>" a b k t "()" t']
    by (auto simp: assert_settled_def bnd_eq_Ok)
  with assms(1) show ?thesis
    by (auto simp: ptw_transfer_def ptw_run_def split: outcome.splits)
qed


end
