(* ===== verification/Flash_Loan.thy ===== *)
theory Flash_Loan
  imports Host
begin

text \<open>
  The flash-loan provider (\<open>flash_loan/src/lib.rs\<close>): the utilisation-dependent fee curve and the
  loan itself. The borrower contract is outside the repository: its \<open>on_flash_loan\<close> is a
  parameter that may change the outside world in any way or fail.
\<close>

section \<open>State and errors\<close>

datatype flash_error =
    FlInvalidAmount | FlInsufficientLiquidity | LoanAlreadyActive | ArithmeticOverflow
  | RepaymentTooLow | FlReentrancyGuard

definition BASE_FEE_BPS :: int where [const_defs]: "BASE_FEE_BPS = 5"
definition KINK_FEE_BPS :: int where [const_defs]: "KINK_FEE_BPS = 10"
definition MAX_FEE_BPS :: int where [const_defs]: "MAX_FEE_BPS = 50"
definition KINK_UTILIZATION_BPS :: int where [const_defs]: "KINK_UTILIZATION_BPS = 8000"
definition FL_BPS_DIVISOR :: int where [const_defs]: "FL_BPS_DIVISOR = 10000"

record 'w flash_env = "'w token_host" +
  on_flash_loan ::
    "address \<Rightarrow> address \<Rightarrow> address \<Rightarrow> address \<Rightarrow> int \<Rightarrow> int \<Rightarrow> bytes \<Rightarrow> 'w \<Rightarrow> 'w option"

record 'w flash_state =
  reentrancy_lock :: "bool option"
  fl_world :: 'w
  fl_events :: "event list"

section \<open>The fee curve\<close>

definition ceil_div :: "int \<Rightarrow> int \<Rightarrow> (flash_error, int) outcome" where
  "ceil_div numerator denominator =
     ok_or ArithmeticOverflow
       (map_option (\<lambda>v. v sdiv denominator) (i128_checked_add numerator (denominator - 1)))"

definition calculate_amount_fee :: "int \<Rightarrow> int \<Rightarrow> (flash_error, int) outcome" where
  "calculate_amount_fee amount fee_bps =
     (if amount \<le> 0 then Err FlInvalidAmount
      else ok_or ArithmeticOverflow
        (map_option (\<lambda>v. v sdiv FL_BPS_DIVISOR)
          (Option.bind (i128_checked_mul amount fee_bps) (\<lambda>v. i128_checked_add v (FL_BPS_DIVISOR - 1)))))"

definition flash_calculate_fee :: "int \<Rightarrow> int \<Rightarrow> (flash_error, int) outcome" where
  "flash_calculate_fee amount reserves =
     (if amount \<le> 0 then Err FlInvalidAmount
      else if reserves \<le> 0 \<or> amount > reserves then Err FlInsufficientLiquidity
      else
        bnd (ok_or ArithmeticOverflow
          (map_option (\<lambda>v. v sdiv reserves)
            (Option.bind (i128_checked_mul amount FL_BPS_DIVISOR) (\<lambda>v. i128_checked_add v (reserves - 1)))))
          (\<lambda>utilization_bps.
        bnd (if utilization_bps \<le> KINK_UTILIZATION_BPS then
               bnd (ok_or ArithmeticOverflow (i128_checked_mul BASE_FEE_BPS utilization_bps)) (\<lambda>v.
               bnd (ceil_div v KINK_UTILIZATION_BPS) (\<lambda>increase.
               i128_add BASE_FEE_BPS increase))
             else
               bnd (i128_sub utilization_bps KINK_UTILIZATION_BPS) (\<lambda>above_kink.
               bnd (ok_or ArithmeticOverflow
                     (i128_checked_mul (MAX_FEE_BPS - KINK_FEE_BPS) above_kink)) (\<lambda>v.
               bnd (ceil_div v (FL_BPS_DIVISOR - KINK_UTILIZATION_BPS)) (\<lambda>increase.
               i128_add KINK_FEE_BPS increase)))) (\<lambda>curve.
        calculate_amount_fee amount (min curve MAX_FEE_BPS))))"

definition flash_fee :: "int \<Rightarrow> (flash_error, int) outcome" where
  "flash_fee amount = calculate_amount_fee amount BASE_FEE_BPS"

definition get_flash_loan_fee ::
    "'w flash_env \<Rightarrow> int \<Rightarrow> address \<Rightarrow> 'w flash_state \<Rightarrow> (flash_error, int) outcome" where
  "get_flash_loan_fee e amount tok s =
     bnd (balance_of e tok (self e) (fl_world s)) (\<lambda>reserves. flash_calculate_fee amount reserves)"

section \<open>The loan\<close>

definition flash_loan ::
    "'w flash_env \<Rightarrow> address \<Rightarrow> address \<Rightarrow> address \<Rightarrow> int \<Rightarrow> bytes \<Rightarrow> 'w flash_state
       \<Rightarrow> (flash_error, int \<times> 'w flash_state) outcome" where
  "flash_loan e initiator borrower tok amount data s =
     (if unwrap_or False (reentrancy_lock s) then Err FlReentrancyGuard
      else
        bnd (require_auth e initiator) (\<lambda>_.
        let s1 = s\<lparr>reentrancy_lock := Some True\<rparr> in
        bnd (balance_of e tok (self e) (fl_world s1)) (\<lambda>balance_before.
        if balance_before < amount then Err FlInsufficientLiquidity
        else
          bnd (flash_calculate_fee amount balance_before) (\<lambda>fee.
          bnd (ok_or ArithmeticOverflow (i128_checked_add balance_before fee)) (\<lambda>required_balance.
          bnd (transfer e tok (self e) borrower amount (fl_world s1)) (\<lambda>w1.
          bnd (unwrap (on_flash_loan e borrower (self e) initiator tok amount fee data w1)) (\<lambda>w2.
          bnd (balance_of e tok (self e) w2) (\<lambda>balance_after.
          if balance_after < required_balance then Err RepaymentTooLow
          else Ok (fee, s1\<lparr>reentrancy_lock := None, fl_world := w2,
                 fl_events := fl_events s1 @ [Event ''flashloan''
                   [AddrArg borrower, AddrArg tok, AddrArg initiator, IntArg amount, IntArg fee]]\<rparr>)))))))))"

section \<open>The curve in closed form\<close>

definition ceil_quot :: "int \<Rightarrow> int \<Rightarrow> int" where
  "ceil_quot a b = (a + (b - 1)) div b"

definition curve_rate :: "int \<Rightarrow> int" where
  "curve_rate u =
     (if u \<le> 8000 then 5 + ceil_quot (5 * u) 8000 else 10 + ceil_quot (40 * (u - 8000)) 2000)"

definition curve_fee :: "int \<Rightarrow> int \<Rightarrow> int" where
  "curve_fee amount reserves = ceil_quot (amount * curve_rate (ceil_quot (amount * 10000) reserves)) 10000"

lemma ceil_quot_le:
  assumes "0 < b"
  shows "ceil_quot x b \<le> k \<longleftrightarrow> x \<le> k * b"
proof -
  let ?n = "x + (b - 1)"
  have n: "?n = b * ceil_quot x b + ?n mod b" by (simp add: ceil_quot_def)
  have r: "0 \<le> ?n mod b" "?n mod b < b" using assms by simp_all
  show ?thesis
  proof
    assume "ceil_quot x b \<le> k"
    then have "b * ceil_quot x b \<le> b * k" using assms by simp
    then have "x \<le> b * k" using n r by linarith
    then show "x \<le> k * b" by (simp add: mult.commute)
  next
    assume "x \<le> k * b"
    then have "b * ceil_quot x b < b * (k + 1)" using n r by (simp add: algebra_simps)
    then show "ceil_quot x b \<le> k" using assms by simp
  qed
qed

lemma ceil_quot_self: "0 < b \<Longrightarrow> x \<le> ceil_quot x b * b"
  using ceil_quot_le [of b x "ceil_quot x b"] by simp

lemma ceil_quot_mono: "0 < b \<Longrightarrow> x \<le> y \<Longrightarrow> ceil_quot x b \<le> ceil_quot y b"
  by (simp add: ceil_quot_def zdiv_mono1)

lemma ceil_quot_nonneg: "0 < b \<Longrightarrow> 0 \<le> x \<Longrightarrow> 0 \<le> ceil_quot x b"
  by (simp add: ceil_quot_def pos_imp_zdiv_nonneg_iff)

lemma ceil_quot_pos: "0 < b \<Longrightarrow> 0 < x \<Longrightarrow> 1 \<le> ceil_quot x b"
  using ceil_quot_le [of b x 0] by simp

lemma ceil_quot_antimono:
  assumes "0 < b" "b \<le> c" "0 \<le> x"
  shows "ceil_quot x c \<le> ceil_quot x b"
proof -
  have "ceil_quot x b * b \<le> ceil_quot x b * c"
    using assms by (intro mult_left_mono) (simp_all add: ceil_quot_nonneg)
  with ceil_quot_self [OF assms(1), of x] show ?thesis using assms by (simp add: ceil_quot_le)
qed

lemma curve_rate_mono: "u \<le> v \<Longrightarrow> curve_rate u \<le> curve_rate v"
  using ceil_quot_mono [of 8000 "5 * u" "5 * v"] ceil_quot_mono [of 8000 "5 * u" 40000]
    ceil_quot_mono [of 2000 "40 * (u - 8000)" "40 * (v - 8000)"]
    ceil_quot_mono [of 2000 0 "40 * (v - 8000)"]
  by (auto simp: curve_rate_def ceil_quot_def)

lemma curve_rate_bounds:
  assumes "1 \<le> u" "u \<le> 10000"
  shows "6 \<le> curve_rate u" "curve_rate u \<le> 50"
  using curve_rate_mono [OF assms(1)] curve_rate_mono [OF assms(2)]
  by (simp_all add: curve_rate_def ceil_quot_def)

lemma utilization_bounds:
  assumes "0 < a" "a \<le> r"
  shows "1 \<le> ceil_quot (a * 10000) r" "ceil_quot (a * 10000) r \<le> 10000"
  using assms by (simp_all add: ceil_quot_le ceil_quot_pos)

lemma ceil_div_eq:
  assumes "0 \<le> x" "x \<le> 80000" "0 < d" "d \<le> 10000"
  shows "ceil_div x d = Ok (ceil_quot x d)"
  using assms by (simp add: ceil_div_def i128_checked_add_def i128_ok_def sdiv_nonneg ceil_quot_def)

lemma calculate_amount_fee_eq:
  assumes "0 < a" "0 \<le> k" "a * k + 9999 < 2 ^ 127"
  shows "calculate_amount_fee a k = Ok (ceil_quot (a * k) 10000)"
proof -
  define v where "v = a * k"
  have "0 \<le> v" using assms by (simp add: v_def)
  with assms show ?thesis unfolding calculate_amount_fee_def i128_checked_mul_def v_def [symmetric]
    by (simp add: i128_checked_add_def i128_ok_def sdiv_nonneg ceil_quot_def FL_BPS_DIVISOR_def
        add.commute)
qed

lemma curve_steps:
  assumes "1 \<le> u" "u \<le> 10000"
  shows "(if u \<le> KINK_UTILIZATION_BPS then
       bnd (ok_or ArithmeticOverflow (i128_checked_mul BASE_FEE_BPS u)) (\<lambda>v.
       bnd (ceil_div v KINK_UTILIZATION_BPS) (\<lambda>increase. i128_add BASE_FEE_BPS increase))
     else
       bnd (i128_sub u KINK_UTILIZATION_BPS) (\<lambda>above_kink.
       bnd (ok_or ArithmeticOverflow (i128_checked_mul (MAX_FEE_BPS - KINK_FEE_BPS) above_kink)) (\<lambda>v.
       bnd (ceil_div v (FL_BPS_DIVISOR - KINK_UTILIZATION_BPS)) (\<lambda>increase.
       i128_add KINK_FEE_BPS increase)))) = Ok (curve_rate u)"
proof (cases "u \<le> 8000")
  case True
  then have "ceil_quot (5 * u) 8000 \<le> 5" "0 \<le> ceil_quot (5 * u) 8000"
    using assms by (simp_all add: ceil_quot_le ceil_quot_nonneg)
  with True assms show ?thesis
    by (simp add: const_defs ceil_div_eq i128_checked_mul_def i128_add_def i128_ok_def curve_rate_def)
next
  case False
  then have "ceil_quot (40 * (u - 8000)) 2000 \<le> 40" "0 \<le> ceil_quot (40 * (u - 8000)) 2000"
    using assms by (simp_all add: ceil_quot_le ceil_quot_nonneg)
  with False assms show ?thesis
    by (simp add: const_defs ceil_div_eq i128_checked_mul_def i128_add_def i128_sub_def i128_ok_def
        curve_rate_def)
qed

lemma flash_calculate_fee_eq:
  assumes "0 < a" "a \<le> r" "a * 10000 + r - 1 < 2 ^ 127"
  shows "flash_calculate_fee a r = Ok (curve_fee a r)"
proof -
  let ?u = "ceil_quot (a * 10000) r"
  note u = utilization_bounds [OF assms(1,2)]
  note k = curve_rate_bounds [OF u]
  have util: "ok_or ArithmeticOverflow (map_option (\<lambda>v. v sdiv r)
      (Option.bind (i128_checked_mul a FL_BPS_DIVISOR) (\<lambda>v. i128_checked_add v (r - 1))))
      = (Ok ?u :: (flash_error, int) outcome)"
    using assms by (simp add: i128_checked_mul_def i128_checked_add_def i128_ok_def sdiv_nonneg
        ceil_quot_def FL_BPS_DIVISOR_def algebra_simps)
  have "a * 50 + 9999 < 2 ^ 127"
    using assms by (cases "a = 1") auto
  moreover have "a * curve_rate ?u \<le> a * 50" using k assms(1) by simp
  ultimately have "a * curve_rate ?u + 9999 < 2 ^ 127" by linarith
  then have fee: "calculate_amount_fee a (curve_rate ?u) = Ok (curve_fee a r)"
    using assms(1) k(1) by (simp only: curve_fee_def) (rule calculate_amount_fee_eq, simp_all)
  have "\<not> a \<le> 0" "\<not> (r \<le> 0 \<or> r < a)" using assms by auto
  then show ?thesis
    unfolding flash_calculate_fee_def util bnd_simps curve_steps [OF u]
    using fee k by (simp add: min_absorb1 MAX_FEE_BPS_def)
qed

text \<open>The fee of a loan rises with the share of the pool it takes: for an amount within the
  reserves it is the curve's rate, between 6 and 50 basis points, of the amount, rounded up, so
  never free and never below the legacy quote \<open>flash_fee\<close>; a larger loan of the same pool never
  costs less, a deeper pool never costs more, and draining the pool costs the full 50 points. Any
  other amount is refused with the error for it.\<close>

theorem flash_fee_curve:
  assumes "0 < a" "a \<le> b" "b \<le> r" "r \<le> r'" "r' * 10001 \<le> 2 ^ 127"
  shows "(\<exists>rate f. rate = curve_rate (ceil_quot (a * 10000) r) \<and> 6 \<le> rate \<and> rate \<le> 50
      \<and> f = ceil_quot (a * rate) 10000 \<and> 1 \<le> f \<and> flash_calculate_fee a r = Ok f
      \<and> (\<exists>legacy. flash_fee a = Ok legacy \<and> legacy \<le> f)
      \<and> (\<exists>larger. flash_calculate_fee b r = Ok larger \<and> f \<le> larger)
      \<and> (\<exists>deeper. flash_calculate_fee a r' = Ok deeper \<and> deeper \<le> f))
    \<and> flash_calculate_fee r r = Ok (ceil_quot (r * 50) 10000)
    \<and> (\<forall>x. (x \<le> 0 \<longrightarrow> flash_calculate_fee x r = Err FlInvalidAmount)
          \<and> (r < x \<longrightarrow> flash_calculate_fee x r = Err FlInsufficientLiquidity))"
proof -
  have fits: "x * 10000 + y - 1 < 2 ^ 127" if "0 < x" "x \<le> y" "y \<le> r'" for x y
    using that assms(5) by simp
  have fee: "flash_calculate_fee x y = Ok (curve_fee x y)" if "0 < x" "x \<le> y" "y \<le> r'" for x y
    by (rule flash_calculate_fee_eq [OF that(1,2) fits [OF that]])
  let ?rate = "curve_rate (ceil_quot (a * 10000) r)"
  have r: "0 < r" and ar: "a \<le> r" using assms by simp_all
  note u = utilization_bounds [OF assms(1) ar]
  note k = curve_rate_bounds [OF u]
  have "a * 5 + 9999 < 2 ^ 127" using assms by (cases "a = 1") auto
  then have legacy: "flash_fee a = Ok (ceil_quot (a * 5) 10000)"
    using assms(1) by (simp add: flash_fee_def BASE_FEE_BPS_def calculate_amount_fee_eq)
  have "a * 5 \<le> a * ?rate" using assms(1) k by simp
  then have cheaper: "ceil_quot (a * 5) 10000 \<le> curve_fee a r"
    by (simp add: curve_fee_def ceil_quot_mono)
  have "0 < a * ?rate" using assms(1) k by simp
  then have pos: "1 \<le> curve_fee a r" by (simp add: curve_fee_def ceil_quot_pos)
  have "ceil_quot (a * 10000) r \<le> ceil_quot (b * 10000) r"
    using assms by (intro ceil_quot_mono) auto
  then have "a * ?rate \<le> b * curve_rate (ceil_quot (b * 10000) r)"
    using assms k by (intro mult_mono curve_rate_mono) auto
  then have larger: "curve_fee a r \<le> curve_fee b r" by (simp add: curve_fee_def ceil_quot_mono)
  have "ceil_quot (a * 10000) r' \<le> ceil_quot (a * 10000) r"
    using assms r by (intro ceil_quot_antimono) auto
  then have "a * curve_rate (ceil_quot (a * 10000) r') \<le> a * ?rate"
    using assms by (intro mult_left_mono curve_rate_mono) auto
  then have deeper: "curve_fee a r' \<le> curve_fee a r" by (simp add: curve_fee_def ceil_quot_mono)
  have "\<exists>rate f. rate = ?rate \<and> 6 \<le> rate \<and> rate \<le> 50
      \<and> f = ceil_quot (a * rate) 10000 \<and> 1 \<le> f \<and> flash_calculate_fee a r = Ok f
      \<and> (\<exists>legacy. flash_fee a = Ok legacy \<and> legacy \<le> f)
      \<and> (\<exists>larger. flash_calculate_fee b r = Ok larger \<and> f \<le> larger)
      \<and> (\<exists>deeper. flash_calculate_fee a r' = Ok deeper \<and> deeper \<le> f)"
    using fee [of a r] fee [of b r] fee [of a r'] assms k pos legacy cheaper larger deeper
    by (simp add: curve_fee_def)
  moreover have "ceil_quot (r * 10000) r = 10000"
    using r ceil_quot_le [OF r, of "r * 10000" 10000] ceil_quot_le [OF r, of "r * 10000" 9999] by simp
  then have "flash_calculate_fee r r = Ok (ceil_quot (r * 50) 10000)"
    using fee [of r r] r assms by (simp add: curve_fee_def curve_rate_def ceil_quot_def)
  ultimately show ?thesis using r by (simp add: flash_calculate_fee_def)
qed

theorem flash_fee_curve_witness:
  "flash_calculate_fee 300 1000 = Ok 1 \<and> flash_calculate_fee 1000 1000 = Ok 5
   \<and> flash_calculate_fee 0 1000 = Err FlInvalidAmount \<and> flash_calculate_fee 1001 1000 = Err FlInsufficientLiquidity"
  using flash_fee_curve [of 300 900 1000 5000] by (simp add: curve_rate_def ceil_quot_def)

section \<open>What a loan guarantees the pool\<close>

lemma flash_loan_OkD:
  assumes "flash_loan e initiator borrower tok amount data s = Ok (fee, s')"
  obtains before w1 w2 after where
    "unwrap_or False (reentrancy_lock s) = False" "auth e initiator"
    "tok_balance e tok (self e) (fl_world s) = Some before" "amount \<le> before"
    "flash_calculate_fee amount before = Ok fee"
    "tok_transfer e tok (self e) borrower amount (fl_world s) = Done w1"
    "on_flash_loan e borrower (self e) initiator tok amount fee data w1 = Some w2"
    "tok_balance e tok (self e) w2 = Some after" "before + fee \<le> after"
    "s' = s\<lparr>reentrancy_lock := None, fl_world := w2,
       fl_events := fl_events s @ [Event ''flashloan''
         [AddrArg borrower, AddrArg tok, AddrArg initiator, IntArg amount, IntArg fee]]\<rparr>"
  using assms
  by (fastforce simp: flash_loan_def Let_def outcome_simps i128_checked_add_def split: if_splits)

lemma flash_calculate_fee_OkD:
  assumes "flash_calculate_fee amount reserves = Ok fee"
  shows "0 < amount" "amount \<le> reserves" "amount * 10000 + reserves - 1 < 2 ^ 127"
    "fee = curve_fee amount reserves" "1 \<le> fee"
proof -
  show a: "0 < amount" "amount \<le> reserves" and fits: "amount * 10000 + reserves - 1 < 2 ^ 127"
    using assms by (auto simp: flash_calculate_fee_def outcome_simps i128_checked_mul_def
        i128_checked_add_def i128_ok_def FL_BPS_DIVISOR_def split: if_splits Option.bind_splits)
  from flash_calculate_fee_eq [OF a fits] assms show f: "fee = curve_fee amount reserves" by simp
  have "0 < amount * curve_rate (ceil_quot (amount * 10000) reserves)"
    using a(1) curve_rate_bounds [OF utilization_bounds [OF a]] by simp
  then show "1 \<le> fee" by (simp add: f curve_fee_def ceil_quot_pos)
qed

text \<open>A series of loans of one token, each by its own initiator and borrower; the fees are collected.\<close>

fun lend_all ::
    "'w flash_env \<Rightarrow> address \<Rightarrow> (address \<times> address \<times> int \<times> bytes) list \<Rightarrow> 'w flash_state
       \<Rightarrow> (flash_error, int \<times> 'w flash_state) outcome" where
  "lend_all e tok [] s = Ok (0, s)"
| "lend_all e tok ((initiator, borrower, amount, data) # loans) s =
     bnd (flash_loan e initiator borrower tok amount data s) (\<lambda>(fee, s1).
     bnd (lend_all e tok loans s1) (\<lambda>(fees, s2). Ok (fee + fees, s2)))"

lemma lend_all_grows:
  assumes "lend_all e tok loans s = Ok (fees, s')"
  shows "tok_balance e tok (self e) (fl_world s) = Some before \<Longrightarrow>
    \<exists>after. tok_balance e tok (self e) (fl_world s') = Some after
      \<and> before + fees \<le> after \<and> int (length loans) \<le> fees"
  using assms
proof (induction loans arbitrary: s before fees)
  case Nil
  then show ?case by simp
next
  case (Cons l loans)
  obtain initiator borrower amount data where l: "l = (initiator, borrower, amount, data)"
    by (cases l) auto
  from Cons.prems(2) obtain fee s1 rest where
    one: "flash_loan e initiator borrower tok amount data s = Ok (fee, s1)" and
    more: "lend_all e tok loans s1 = Ok (rest, s')" and fees: "fees = fee + rest"
    by (auto simp: l outcome_simps)
  from one Cons.prems(1) obtain mid where mid: "tok_balance e tok (self e) (fl_world s1) = Some mid"
      "before + fee \<le> mid" "1 \<le> fee"
    by (auto elim!: flash_loan_OkD dest: flash_calculate_fee_OkD(5))
  from Cons.IH [OF mid(1) more] show ?case using mid fees by auto
qed

text \<open>C33: The pool never loses on a loan. A loan that goes through was authorised by its initiator,
  lent at most the pool's balance, called the borrower with exactly the amount and the curve's fee,
  and left the pool with at least its balance plus that fee (at least one unit) and with the lock
  open; so after any series of loans of a token the pool holds at least what it held plus all fees.
  While the lock is taken every loan is refused.\<close>

theorem flash_pool_grows:
  shows "(flash_loan e initiator borrower tok amount data s = Ok (fee, s') \<longrightarrow>
      (\<exists>before w1 after. tok_balance e tok (self e) (fl_world s) = Some before
        \<and> auth e initiator \<and> 0 < amount \<and> amount \<le> before \<and> fee = curve_fee amount before \<and> 1 \<le> fee
        \<and> tok_transfer e tok (self e) borrower amount (fl_world s) = Done w1
        \<and> on_flash_loan e borrower (self e) initiator tok amount fee data w1 = Some (fl_world s')
        \<and> tok_balance e tok (self e) (fl_world s') = Some after \<and> before + fee \<le> after
        \<and> reentrancy_lock s \<noteq> Some True \<and> reentrancy_lock s' = None))
    \<and> (lend_all e tok loans s = Ok (fees, s') \<longrightarrow>
        tok_balance e tok (self e) (fl_world s) = Some reserves \<longrightarrow>
        (\<exists>after. tok_balance e tok (self e) (fl_world s') = Some after
          \<and> reserves + fees \<le> after \<and> int (length loans) \<le> fees))
    \<and> (reentrancy_lock s = Some True \<longrightarrow>
        flash_loan e initiator borrower tok amount data s = Err FlReentrancyGuard)"
proof -
  have "\<exists>before w1 after. tok_balance e tok (self e) (fl_world s) = Some before
        \<and> auth e initiator \<and> 0 < amount \<and> amount \<le> before \<and> fee = curve_fee amount before \<and> 1 \<le> fee
        \<and> tok_transfer e tok (self e) borrower amount (fl_world s) = Done w1
        \<and> on_flash_loan e borrower (self e) initiator tok amount fee data w1 = Some (fl_world s')
        \<and> tok_balance e tok (self e) (fl_world s') = Some after \<and> before + fee \<le> after
        \<and> reentrancy_lock s \<noteq> Some True \<and> reentrancy_lock s' = None"
    if "flash_loan e initiator borrower tok amount data s = Ok (fee, s')"
    using that by (elim flash_loan_OkD) (auto dest: flash_calculate_fee_OkD)
  moreover have "flash_loan e initiator borrower tok amount data s = Err FlReentrancyGuard"
    if "reentrancy_lock s = Some True" using that by (simp add: flash_loan_def)
  ultimately show ?thesis using lend_all_grows [of e tok loans s fees s' reserves] by blast
qed

text \<open>A pool of 1000 units of token 5 and a borrower that repays the amount and the fee.\<close>

definition sample_flash_env :: "(address \<Rightarrow> int) flash_env" where
  "sample_flash_env = \<lparr>now = 0, seq = 0, self = 9, auth = (\<lambda>a. a = 1), sha256 = (\<lambda>b. b),
     ed25519 = (\<lambda>k m s. True), tok_balance = (\<lambda>tok a w. Some (w a)),
     tok_allowance = (\<lambda>tok a sp w. Some 0),
     tok_transfer = (\<lambda>tok src dst a w. Done (w(src := w src - a, dst := w dst + a))),
     tok_transfer_from = (\<lambda>tok sp src dst a w. Failed),
     on_flash_loan = (\<lambda>b p i tok a fee data w. Some (w(b := w b - a - fee, p := w p + a + fee)))\<rparr>"

definition sample_pool :: "(address \<Rightarrow> int) flash_state" where
  "sample_pool = \<lparr>reentrancy_lock = None, fl_world = (\<lambda>a. if a = 9 then 1000 else 100), fl_events = []\<rparr>"

theorem flash_pool_grows_witness:
  "\<exists>fee s'. flash_loan sample_flash_env 1 4 5 300 [] sample_pool = Ok (fee, s') \<and> 1 \<le> fee
     \<and> fl_world s' 9 \<ge> 1000 + fee"
proof -
  have "flash_calculate_fee 300 1000 = Ok 1"
    by (simp add: flash_calculate_fee_eq curve_fee_def curve_rate_def ceil_quot_def)
  then have "flash_loan sample_flash_env 1 4 5 300 [] sample_pool =
      Ok (1, \<lparr>reentrancy_lock = None, fl_world = (\<lambda>a. if a = 9 then 1001 else if a = 4 then 99 else 100),
        fl_events = [Event ''flashloan'' [AddrArg 4, AddrArg 5, AddrArg 1, IntArg 300, IntArg 1]]\<rparr>)"
    by (simp add: flash_loan_def sample_flash_env_def sample_pool_def balance_of_def transfer_def
        require_auth_def i128_checked_add_def i128_ok_def fun_eq_iff)
  from this flash_pool_grows [of sample_flash_env 1 4 5 300 "[]" sample_pool] show ?thesis
    by (fastforce simp: sample_flash_env_def sample_pool_def)
qed

end
