(* ===== verification/Timelock_Escrow.thy ===== *)
theory Timelock_Escrow
  imports Host
begin

text \<open>
  The timelock escrow (\<open>timelock_escrow/src/lib.rs\<close>): deposits that only their recipient receives,
  once, from the release time on. The runs of the contract are an inductive relation over its two
  entry points and the token movements of others; the invariant ties the contract's holdings to
  the open escrows.
\<close>

section \<open>State and operations\<close>

datatype escrow_error = EsInvalidAmount | EsAlreadyClaimed | EsStillLocked | EsNotFound

record Escrow =
  es_depositor :: address
  es_recipient :: address
  es_token :: address
  es_amount :: int
  es_release_time :: nat
  es_claimed :: bool

record 'w escrow_state =
  es_counter :: "nat option"
  escrows :: "nat \<Rightarrow> Escrow option"
  es_world :: 'w

definition escrow_deposit ::
    "'w token_host \<Rightarrow> address \<Rightarrow> address \<Rightarrow> address \<Rightarrow> int \<Rightarrow> nat \<Rightarrow> 'w escrow_state
       \<Rightarrow> (escrow_error, nat \<times> 'w escrow_state) outcome" where
  "escrow_deposit e depositor recipient tok amount release_time s =
     bnd (require_auth e depositor) (\<lambda>_.
     if amount \<le> 0 then Err EsInvalidAmount
     else
       bnd (transfer e tok depositor (self e) amount (es_world s)) (\<lambda>w.
       bnd (u64_add (unwrap_or 0 (es_counter s)) 1) (\<lambda>id'.
       Ok (id', s\<lparr>es_counter := Some id',
         escrows := (escrows s)(id' \<mapsto> \<lparr>es_depositor = depositor, es_recipient = recipient,
           es_token = tok, es_amount = amount, es_release_time = release_time, es_claimed = False\<rparr>),
         es_world := w\<rparr>))))"

definition escrow_claim ::
    "'w token_host \<Rightarrow> nat \<Rightarrow> 'w escrow_state \<Rightarrow> (escrow_error, 'w escrow_state) outcome" where
  "escrow_claim e i s =
     bnd (ok_or EsNotFound (escrows s i)) (\<lambda>escrow.
     if es_claimed escrow then Err EsAlreadyClaimed
     else if now e < es_release_time escrow then Err EsStillLocked
     else
       bnd (transfer e (es_token escrow) (self e) (es_recipient escrow) (es_amount escrow) (es_world s)) (\<lambda>w.
       Ok (s\<lparr>escrows := (escrows s)(i \<mapsto> escrow\<lparr>es_claimed := True\<rparr>), es_world := w\<rparr>)))"

definition fresh_escrow :: "'w \<Rightarrow> 'w escrow_state" where
  "fresh_escrow w = \<lparr>es_counter = None, escrows = Map.empty, es_world = w\<rparr>"

section \<open>Runs\<close>

text \<open>
  One deployed instance at address \<open>me\<close>, over tokens with balance function \<open>bal\<close> and transfer
  \<open>xfer\<close>: every call comes with its own time and signers, nobody signs for the contract itself, and
  between calls the holders of other accounts move their own tokens.
\<close>

definition escrow_host ::
    "address \<Rightarrow> (address \<Rightarrow> address \<Rightarrow> 'w \<Rightarrow> int option)
      \<Rightarrow> (address \<Rightarrow> address \<Rightarrow> address \<Rightarrow> int \<Rightarrow> 'w \<Rightarrow> 'w call) \<Rightarrow> 'w token_host \<Rightarrow> bool" where
  "escrow_host me bal xfer e \<longleftrightarrow>
     self e = me \<and> tok_balance e = bal \<and> tok_transfer e = xfer \<and> \<not> auth e me"

inductive escrow_steps for me bal xfer where
  start: "escrow_steps me bal xfer s s"
| deposited: "escrow_steps me bal xfer s t \<Longrightarrow> escrow_host me bal xfer e
    \<Longrightarrow> escrow_deposit e depositor recipient tok amount release_time t = Ok (i, u)
    \<Longrightarrow> escrow_steps me bal xfer s u"
| claimed: "escrow_steps me bal xfer s t \<Longrightarrow> escrow_host me bal xfer e
    \<Longrightarrow> escrow_claim e i t = Ok u \<Longrightarrow> escrow_steps me bal xfer s u"
| moved: "escrow_steps me bal xfer s t \<Longrightarrow> src \<noteq> me
    \<Longrightarrow> xfer tok src dst a (es_world t) = Done w \<Longrightarrow> escrow_steps me bal xfer s (t\<lparr>es_world := w\<rparr>)"

section \<open>Lemmas\<close>

definition open_amount :: "address \<Rightarrow> Escrow option \<Rightarrow> int" where
  "open_amount tok x = (case x of
     Some esc \<Rightarrow> if es_token esc = tok \<and> \<not> es_claimed esc then es_amount esc else 0 | None \<Rightarrow> 0)"

definition owed :: "address \<Rightarrow> 'w escrow_state \<Rightarrow> int" where
  "owed tok s = map_sum (open_amount tok) (escrows s)"

definition escrow_inv :: "'w escrow_state \<Rightarrow> bool" where
  "escrow_inv s \<longleftrightarrow> dom (escrows s) = {1..unwrap_or 0 (es_counter s)}
     \<and> (\<forall>i esc. escrows s i = Some esc \<longrightarrow> 0 < es_amount esc)"

lemma escrow_deposit_OkD:
  assumes "escrow_deposit e depositor recipient tok amount release_time s = Ok (i, s')"
  shows "auth e depositor" "0 < amount" "i = Suc (unwrap_or 0 (es_counter s))"
    "tok_transfer e tok depositor (self e) amount (es_world s) = Done (es_world s')"
    "es_counter s' = Some i"
    "escrows s' = (escrows s)(i \<mapsto> \<lparr>es_depositor = depositor, es_recipient = recipient,
       es_token = tok, es_amount = amount, es_release_time = release_time, es_claimed = False\<rparr>)"
  using assms by (auto simp: escrow_deposit_def u64_add_def outcome_simps split: if_splits)

lemma escrow_claim_OkD:
  assumes "escrow_claim e i s = Ok s'"
  obtains esc where "escrows s i = Some esc" "\<not> es_claimed esc" "es_release_time esc \<le> now e"
    "tok_transfer e (es_token esc) (self e) (es_recipient esc) (es_amount esc) (es_world s)
       = Done (es_world s')"
    "es_counter s' = es_counter s" "escrows s' = (escrows s)(i \<mapsto> esc\<lparr>es_claimed := True\<rparr>)"
  using assms by (fastforce simp: escrow_claim_def outcome_simps split: if_splits)

lemma owed_update:
  assumes "finite (dom (escrows s))" "escrows s' = (escrows s)(i \<mapsto> esc)"
  shows "owed tok s' = owed tok s - open_amount tok (escrows s i) + open_amount tok (Some esc)"
  using assms by (simp add: owed_def map_sum_upd open_amount_def)

lemma escrow_inv_finite: "escrow_inv s \<Longrightarrow> finite (dom (escrows s))"
  by (simp add: escrow_inv_def)

lemma escrow_inv_deposit:
  assumes "escrow_inv s" "escrow_deposit e d r tok a t s = Ok (i, s')"
  shows "escrow_inv s'" "escrows s i = None"
proof -
  note d = escrow_deposit_OkD [OF assms(2)]
  have fresh: "i \<notin> dom (escrows s)" using assms(1) by (simp add: escrow_inv_def d(3))
  then show "escrows s i = None" by (simp add: domIff)
  show "escrow_inv s'" using assms(1) d(2) by (auto simp: escrow_inv_def d(3,5,6))
qed

lemma escrow_inv_claim:
  assumes "escrow_inv s" "escrow_claim e i s = Ok s'"
  shows "escrow_inv s'"
  using assms(2)
proof (rule escrow_claim_OkD)
  fix esc assume "escrows s i = Some esc" "es_counter s' = es_counter s"
    "escrows s' = (escrows s)(i \<mapsto> esc\<lparr>es_claimed := True\<rparr>)"
  then show ?thesis using assms(1) by (auto simp: escrow_inv_def insert_absorb domI)
qed

lemma escrow_inv_world [simp]: "escrow_inv (s\<lparr>es_world := w\<rparr>) = escrow_inv s"
  by (simp add: escrow_inv_def)

lemma escrow_steps_inv:
  "escrow_steps me bal xfer s t \<Longrightarrow> escrow_inv s \<Longrightarrow> escrow_inv t"
  by (induction rule: escrow_steps.induct) (auto intro: escrow_inv_deposit escrow_inv_claim)

text \<open>What a state keeps of an earlier one: the terms of every escrow, and every claim made.\<close>

definition escrow_kept :: "'w escrow_state \<Rightarrow> 'w escrow_state \<Rightarrow> bool" where
  "escrow_kept s t \<longleftrightarrow> (\<forall>i esc. escrows s i = Some esc \<longrightarrow>
     (\<exists>c. escrows t i = Some (esc\<lparr>es_claimed := c\<rparr>) \<and> (es_claimed esc \<longrightarrow> c)))"

lemma escrow_steps_kept:
  assumes "escrow_steps me bal xfer s t" "escrow_inv s"
  shows "escrow_kept s t"
  using assms
proof (induction rule: escrow_steps.induct)
  case (start s)
  show ?case unfolding escrow_kept_def by (metis Escrow.surjective Escrow.update_convs(6))
next
  case (deposited s t e d r tok a rel i u)
  have "escrows t i = None"
    by (rule escrow_inv_deposit(2) [OF escrow_steps_inv [OF deposited.hyps(1) deposited.prems] deposited.hyps(3)])
  with deposited.IH [OF deposited.prems] show ?case
    by (fastforce simp: escrow_kept_def escrow_deposit_OkD(6) [OF deposited.hyps(3)])
next
  case (claimed s t e i u)
  note kept = claimed.IH [OF claimed.prems]
  show ?case
    by (rule escrow_claim_OkD [OF claimed.hyps(3)]) (use kept in \<open>fastforce simp: escrow_kept_def\<close>)
next
  case (moved s t src tok dst a w)
  then show ?case by (simp add: escrow_kept_def)
qed

lemma claimed_final:
  assumes "escrow_kept t u" "escrows t i = Some esc" "es_claimed esc"
  shows "escrow_claim e i u = Err EsAlreadyClaimed"
proof -
  from assms obtain c where "escrows u i = Some (esc\<lparr>es_claimed := c\<rparr>)" c
    unfolding escrow_kept_def by blast
  then show ?thesis by (simp add: escrow_claim_def)
qed

section \<open>Solvency\<close>

lemma escrow_steps_solvent:
  assumes "token_contract bal xfer" "escrow_steps me bal xfer s t" "escrow_inv s"
  shows "holding bal tok me (es_world s) - owed tok s \<le> holding bal tok me (es_world t) - owed tok t"
  using assms(2,3)
proof (induction rule: escrow_steps.induct)
  case (start s)
  show ?case by simp
next
  case (deposited s t e d r tok' a rel i u)
  note inv = escrow_steps_inv [OF deposited.hyps(1) deposited.prems]
  note d = escrow_deposit_OkD [OF deposited.hyps(3)]
  have host: "self e = me" "tok_transfer e = xfer" "d \<noteq> me"
    using deposited.hyps(2) d(1) by (auto simp: escrow_host_def)
  have "holding bal tok me (es_world u)
      = holding bal tok me (es_world t) + flow tok' d me a tok me"
    using token_contract.xfer_holding [OF assms(1)] d(4) by (simp add: host)
  moreover have "owed tok u = owed tok t + (if tok' = tok then a else 0)"
    using owed_update [OF escrow_inv_finite [OF inv] d(6)]
      escrow_inv_deposit(2) [OF inv deposited.hyps(3)] by (simp add: open_amount_def)
  ultimately show ?case using deposited.IH [OF deposited.prems] host(3) by (simp add: flow_def)
next
  case (claimed s t e i u)
  note inv = escrow_steps_inv [OF claimed.hyps(1) claimed.prems]
  have host: "self e = me" "tok_transfer e = xfer"
    using claimed.hyps(2) by (auto simp: escrow_host_def)
  show ?case
  proof (rule escrow_claim_OkD [OF claimed.hyps(3)])
    fix esc
    assume esc: "escrows t i = Some esc" "\<not> es_claimed esc"
      and x: "tok_transfer e (es_token esc) (self e) (es_recipient esc) (es_amount esc) (es_world t)
        = Done (es_world u)"
      and u: "escrows u = (escrows t)(i \<mapsto> esc\<lparr>es_claimed := True\<rparr>)"
    have "holding bal tok me (es_world u) = holding bal tok me (es_world t)
        + flow (es_token esc) me (es_recipient esc) (es_amount esc) tok me"
      using token_contract.xfer_holding [OF assms(1)] x by (simp add: host)
    moreover have "owed tok u = owed tok t - (if es_token esc = tok then es_amount esc else 0)"
      using owed_update [OF escrow_inv_finite [OF inv] u] esc by (simp add: open_amount_def)
    moreover have "0 < es_amount esc" using inv esc(1) by (auto simp: escrow_inv_def)
    ultimately show ?thesis using claimed.IH [OF claimed.prems] by (auto simp: flow_def)
  qed
next
  case (moved s t src tok' dst a w)
  then show ?case
    using token_contract.xfer_sender_le [OF assms(1) moved.hyps(3), of me tok] by (auto simp: owed_def)
qed

lemma fresh_escrow_inv: "escrow_inv (fresh_escrow w)" "owed tok (fresh_escrow w) = 0"
  by (simp_all add: escrow_inv_def fresh_escrow_def owed_def)

text \<open>C16: The escrow is always solvent: in every state reachable from deployment, through any
  deposits, claims and token transfers of others, the contract holds at least what it held at
  deployment plus the amounts of all escrows still open, for every token.\<close>

theorem escrow_solvent:
  assumes "token_contract bal xfer" "escrow_steps me bal xfer (fresh_escrow w) s"
  shows "holding bal tok me w + owed tok s \<le> holding bal tok me (es_world s)"
  using escrow_steps_solvent [OF assms fresh_escrow_inv(1), of tok]
  by (simp add: fresh_escrow_inv(2)) (simp add: fresh_escrow_def)

text \<open>A run on the sample: one deposit of 40 units by account 1 for account 2, released at time 50.\<close>

definition escrow_bal :: "address \<Rightarrow> address \<Rightarrow> (address \<Rightarrow> int) \<Rightarrow> int option" where
  "escrow_bal tok x w = (if tok = 5 then Some (w x) else None)"

definition escrow_xfer ::
    "address \<Rightarrow> address \<Rightarrow> address \<Rightarrow> int \<Rightarrow> (address \<Rightarrow> int) \<Rightarrow> (address \<Rightarrow> int) call" where
  "escrow_xfer tok src dst a w =
     (if tok = 5 \<and> 0 \<le> a then Done (\<lambda>x. w x + flow tok src dst a tok x) else Failed)"

definition escrow_env :: "nat \<Rightarrow> (address \<Rightarrow> int) token_host" where
  "escrow_env t = \<lparr>now = t, seq = 0, self = 9, auth = (\<lambda>a. a = 1), sha256 = (\<lambda>b. b),
     ed25519 = (\<lambda>k m s. True), tok_balance = escrow_bal, tok_allowance = (\<lambda>tok a sp w. Some 0),
     tok_transfer = escrow_xfer, tok_transfer_from = (\<lambda>tok sp src dst a w. Failed)\<rparr>"

lemma escrow_env_host: "escrow_host 9 escrow_bal escrow_xfer (escrow_env t)"
  by (simp add: escrow_host_def escrow_env_def)

lemma escrow_sample_token: "token_contract escrow_bal escrow_xfer"
  by unfold_locales (auto simp: escrow_bal_def escrow_xfer_def flow_def split: if_splits)

definition sample_escrow :: "(address \<Rightarrow> int) escrow_state" where
  "sample_escrow = \<lparr>es_counter = Some 1,
     escrows = [1 \<mapsto> \<lparr>es_depositor = 1, es_recipient = 2, es_token = 5, es_amount = 40,
        es_release_time = 50, es_claimed = False\<rparr>],
     es_world = (\<lambda>x. 100 + flow 5 1 9 40 5 x)\<rparr>"

lemma sample_escrow_run:
  "escrow_steps 9 escrow_bal escrow_xfer (fresh_escrow (\<lambda>x. 100)) sample_escrow"
proof -
  have "escrow_deposit (escrow_env 10) 1 2 5 40 50 (fresh_escrow (\<lambda>x. 100)) = Ok (1, sample_escrow)"
    by (simp add: escrow_deposit_def escrow_env_def fresh_escrow_def sample_escrow_def require_auth_def
        transfer_def escrow_xfer_def u64_add_def u64_ok_def)
  then show ?thesis by (rule escrow_steps.deposited [OF escrow_steps.start escrow_env_host])
qed

theorem escrow_solvent_witness:
  "140 \<le> holding escrow_bal 5 9 (es_world sample_escrow)"
  using escrow_solvent [OF escrow_sample_token sample_escrow_run, of 5]
  by (simp add: owed_def map_sum_def open_amount_def sample_escrow_def holding_def escrow_bal_def)

text \<open>C34: An escrow pays once, late enough and to the right account: a claim needs an open escrow
  whose release time has come, transfers exactly its amount to its recipient and closes it; once
  claimed it is refused for ever as already claimed, before the release time it is refused as
  locked, and no call changes the depositor, recipient, token, amount or release time it was
  created with.\<close>

theorem escrow_pays_once:
  assumes "token_contract bal xfer" "escrow_steps me bal xfer (fresh_escrow w) s"
    "escrow_host me bal xfer e" "escrows s i = Some esc"
  shows "(\<forall>t. escrow_claim e i s = Ok t \<longrightarrow>
        \<not> es_claimed esc \<and> es_release_time esc \<le> now e
      \<and> (\<forall>tok x. holding bal tok x (es_world t) = holding bal tok x (es_world s)
            + flow (es_token esc) me (es_recipient esc) (es_amount esc) tok x)
      \<and> (\<forall>u e'. escrow_steps me bal xfer t u \<longrightarrow> escrow_claim e' i u = Err EsAlreadyClaimed))
    \<and> (\<not> es_claimed esc \<and> now e < es_release_time esc \<longrightarrow> escrow_claim e i s = Err EsStillLocked)
    \<and> (\<forall>u. escrow_steps me bal xfer s u \<longrightarrow> (\<exists>c. escrows u i = Some (esc\<lparr>es_claimed := c\<rparr>)))"
proof -
  note inv = escrow_steps_inv [OF assms(2) fresh_escrow_inv(1)]
  have host: "self e = me" "tok_transfer e = xfer" using assms(3) by (auto simp: escrow_host_def)
  have paid: "\<not> es_claimed esc \<and> es_release_time esc \<le> now e
      \<and> (\<forall>tok x. holding bal tok x (es_world t) = holding bal tok x (es_world s)
            + flow (es_token esc) me (es_recipient esc) (es_amount esc) tok x)
      \<and> (\<forall>u e'. escrow_steps me bal xfer t u \<longrightarrow> escrow_claim e' i u = Err EsAlreadyClaimed)"
    if c: "escrow_claim e i s = Ok t" for t
  proof (rule escrow_claim_OkD [OF c])
    fix esc'
    assume *: "escrows s i = Some esc'" "\<not> es_claimed esc'" "es_release_time esc' \<le> now e"
      "tok_transfer e (es_token esc') (self e) (es_recipient esc') (es_amount esc') (es_world s)
        = Done (es_world t)" "escrows t = (escrows s)(i \<mapsto> esc'\<lparr>es_claimed := True\<rparr>)"
    have esc: "esc' = esc" using *(1) assms(4) by simp
    have "escrow_claim e' i u = Err EsAlreadyClaimed" if "escrow_steps me bal xfer t u" for u e'
      using claimed_final [OF escrow_steps_kept [OF that escrow_inv_claim [OF inv c]],
        of i "esc'\<lparr>es_claimed := True\<rparr>"] by (simp add: *(5))
    with * show ?thesis
      by (auto simp: esc host token_contract.xfer_holding [OF assms(1)])
  qed
  have kept: "\<exists>c. escrows u i = Some (esc\<lparr>es_claimed := c\<rparr>)" if "escrow_steps me bal xfer s u" for u
    using escrow_steps_kept [OF that inv] assms(4) by (auto simp: escrow_kept_def)
  from paid kept assms(4) show ?thesis by (auto simp: escrow_claim_def)
qed

theorem escrow_pays_once_witness:
  "escrow_claim (escrow_env 20) 1 sample_escrow = Err EsStillLocked
   \<and> (\<exists>t. escrow_claim (escrow_env 60) 1 sample_escrow = Ok t \<and> es_world t 2 = 140
        \<and> escrow_claim (escrow_env 61) 1 t = Err EsAlreadyClaimed)"
proof -
  let ?esc = "\<lparr>es_depositor = 1, es_recipient = 2, es_token = 5, es_amount = 40,
    es_release_time = 50, es_claimed = False\<rparr>"
  have e: "escrows sample_escrow 1 = Some ?esc" by (simp add: sample_escrow_def)
  note once = escrow_pays_once [OF escrow_sample_token sample_escrow_run escrow_env_host e]
  obtain t where t: "escrow_claim (escrow_env 60) 1 sample_escrow = Ok t" and w: "es_world t 2 = 140"
    by (simp add: escrow_claim_def escrow_env_def sample_escrow_def transfer_def escrow_xfer_def
        flow_def)
  have "escrow_claim (escrow_env 61) 1 t = Err EsAlreadyClaimed"
    using once [of 60] t escrow_steps.start by blast
  moreover have "now (escrow_env 20) = 20" by (simp add: escrow_env_def)
  then have "escrow_claim (escrow_env 20) 1 sample_escrow = Err EsStillLocked"
    using once [of 20] by simp
  ultimately show ?thesis using t w by blast
qed

end
