(* ===== verification/Twap_Oracle.thy ===== *)
theory Twap_Oracle
  imports Host
begin

text \<open>
  The time-weighted average price oracle (\<open>twap_oracle/src/lib.rs\<close>): append-only observations with a
  256-bit cumulative price that wraps, pruning, the circuit breaker, the average over a window, and
  the fixed-point logarithm its second accumulator uses. The reference definition of the average is
  the sum of the price in force over the seconds of the window.
\<close>

section \<open>Data\<close>

type_synonym u256 = "256 word"

datatype twap_error =
    TwAlreadyInitialized | TwNotInitialized | InvalidPrice | TimestampNotMonotonic | TimestampInFuture
  | ObservationTooSoon | PriceOverflow | InvalidWindow | InsufficientHistory | NoObservations
  | PriceStale | CircuitBreakerTripped | InvalidConfig | OracleUnavailable

definition MAX_OBSERVATIONS :: nat where [const_defs]: "MAX_OBSERVATIONS = 64"
definition MIN_INTERVAL_SECONDS :: nat where [const_defs]: "MIN_INTERVAL_SECONDS = 60"
definition MAX_WINDOW_SECONDS :: nat where [const_defs]: "MAX_WINDOW_SECONDS = 7 * 24 * 60 * 60"
definition DEFAULT_MAX_STALENESS_SECONDS :: nat where [const_defs]: "DEFAULT_MAX_STALENESS_SECONDS = 3600"
definition DEFAULT_MAX_SINGLE_UPDATE_DEVIATION_BPS :: nat where
  [const_defs]: "DEFAULT_MAX_SINGLE_UPDATE_DEVIATION_BPS = 1000"
definition TW_BPS_DIVISOR :: int where [const_defs]: "TW_BPS_DIVISOR = 10000"
definition Q64 :: int where [const_defs]: "Q64 = 2 ^ 64"
definition MAX_PRICE :: int where [const_defs]: "MAX_PRICE = (2 ^ 127 - 1) div 1000000000"

record Observation =
  ob_time :: nat
  ob_price :: int
  ob_cumulative :: u256

record LogObservation =
  lo_time :: nat
  lo_cumulative :: int

record oracle_state =
  twAdmin :: "address option"
  twPair :: "address \<times> address \<Rightarrow> Observation list option"
  twStaleness :: "address \<times> address \<Rightarrow> nat option"
  twBreaker :: "bool option"
  twMaxDeviation :: "nat option"
  twLogs :: "address \<times> address \<Rightarrow> LogObservation list option"
  twEvents :: "event list"

type_synonym 'a twap_res = "(twap_error, 'a \<times> oracle_state) outcome"

definition twap_read_admin :: "oracle_state \<Rightarrow> (twap_error, address) outcome" where
  "twap_read_admin s = ok_or TwNotInitialized (twAdmin s)"

definition read_observations :: "address \<Rightarrow> address \<Rightarrow> oracle_state \<Rightarrow> Observation list" where
  "read_observations base quote s = unwrap_or [] (twPair s (base, quote))"

text \<open>\<open>i128::cast_unsigned\<close> followed by the widening \<open>From<u128>\<close>, \<open>From<u64>\<close>, and \<open>TryFrom<U256>\<close>.\<close>

definition u256_of_i128 :: "int \<Rightarrow> u256" where
  "u256_of_i128 p = ucast (word_of_int p :: 128 word)"

definition u256_of_u64 :: "nat \<Rightarrow> u256" where
  "u256_of_u64 n = word_of_nat n"

definition i128_of_u256 :: "u256 \<Rightarrow> (twap_error, int) outcome" where
  "i128_of_u256 x = (if uint x < 2 ^ 127 then Ok (uint x) else Err PriceOverflow)"

section \<open>The fixed-point logarithm\<close>

text \<open>\<open>u128::ilog2\<close>, and the bit-by-bit fraction (\<open>k\<close> iterations are left, bit number \<open>32 - k\<close>).\<close>

fun ilog2 :: "nat \<Rightarrow> nat" where
  "ilog2 n = (if n < 2 then 0 else Suc (ilog2 (n div 2)))"

declare ilog2.simps [simp del]

fun log2_loop :: "nat \<Rightarrow> nat \<Rightarrow> nat \<Rightarrow> (twap_error, nat) outcome" where
  "log2_loop 0 normalized fraction = Ok fraction"
| "log2_loop (Suc k) normalized fraction =
     (if normalized * normalized < 2 ^ 128 then
        let squared = normalized * normalized div 2 ^ 63 in
        if squared \<ge> 2 ^ 64 then log2_loop k (squared div 2) (fraction OR 2 ^ (63 - (31 - k)))
        else log2_loop k squared fraction
      else Err PriceOverflow)"

definition log2_q64 :: "int \<Rightarrow> (twap_error, int) outcome" where
  "log2_q64 v =
     (if v \<le> 0 then Err InvalidPrice
      else
        let u = nat v; highest_bit = ilog2 u;
            normalized = (if highest_bit \<ge> 63 then u div 2 ^ (highest_bit - 63)
                          else u * 2 ^ (63 - highest_bit) mod 2 ^ 128) in
        bnd (log2_loop 32 normalized 0) (\<lambda>fraction.
        bnd (if int fraction < 2 ^ 127 then Ok (int fraction) else Err PriceOverflow) (\<lambda>fractional.
        ok_or PriceOverflow
          (Option.bind (i128_checked_mul (int highest_bit) Q64) (\<lambda>whole. i128_checked_add whole fractional)))))"

section \<open>Operations\<close>

fun logs_loop :: "Observation option \<Rightarrow> Observation list \<Rightarrow> int \<Rightarrow> LogObservation list
    \<Rightarrow> (twap_error, LogObservation list) outcome" where
  "logs_loop previous [] cumulative logs = Ok logs"
| "logs_loop previous (observation # rest) cumulative logs =
     bnd (case previous of
            None \<Rightarrow> Ok cumulative
          | Some p \<Rightarrow>
              if ob_time observation < ob_time p then Err TimestampNotMonotonic
              else
                bnd (log2_q64 (ob_price p)) (\<lambda>l.
                bnd (ok_or PriceOverflow (i128_checked_mul l (int (ob_time observation - ob_time p)))) (\<lambda>inc.
                ok_or PriceOverflow (i128_checked_add cumulative inc)))) (\<lambda>cumulative'.
     logs_loop (Some observation) rest cumulative'
       (logs @ [\<lparr>lo_time = ob_time observation, lo_cumulative = cumulative'\<rparr>]))"

definition read_cumulative_logs ::
    "address \<Rightarrow> address \<Rightarrow> Observation list \<Rightarrow> oracle_state \<Rightarrow> (twap_error, LogObservation list) outcome" where
  "read_cumulative_logs base quote observations s =
     (case twLogs s (base, quote) of
        Some logs \<Rightarrow> if length logs = length observations then Ok logs else logs_loop None observations 0 []
      | None \<Rightarrow> logs_loop None observations 0 [])"

definition twap_initialize :: "'z host_scheme \<Rightarrow> address \<Rightarrow> oracle_state \<Rightarrow> unit twap_res" where
  "twap_initialize e admin s =
     bnd (require_auth e admin) (\<lambda>_.
     if twAdmin s \<noteq> None then Err TwAlreadyInitialized else Ok ((), s\<lparr>twAdmin := Some admin\<rparr>))"

definition set_max_staleness ::
    "'z host_scheme \<Rightarrow> address \<Rightarrow> address \<Rightarrow> nat \<Rightarrow> oracle_state \<Rightarrow> unit twap_res" where
  "set_max_staleness e base quote max_staleness_seconds s =
     bnd (twap_read_admin s) (\<lambda>admin. bnd (require_auth e admin) (\<lambda>_.
     Ok ((), s\<lparr>twStaleness := (twStaleness s)((base, quote) \<mapsto> max_staleness_seconds)\<rparr>)))"

definition get_max_staleness :: "address \<Rightarrow> address \<Rightarrow> oracle_state \<Rightarrow> nat" where
  "get_max_staleness base quote s = unwrap_or DEFAULT_MAX_STALENESS_SECONDS (twStaleness s (base, quote))"

definition is_circuit_breaker_tripped :: "oracle_state \<Rightarrow> bool" where
  "is_circuit_breaker_tripped s = unwrap_or False (twBreaker s)"

definition set_breaker :: "'z host_scheme \<Rightarrow> bool \<Rightarrow> oracle_state \<Rightarrow> unit twap_res" where
  "set_breaker e on s =
     bnd (twap_read_admin s) (\<lambda>admin. bnd (require_auth e admin) (\<lambda>_.
     Ok ((), s\<lparr>twBreaker := Some on\<rparr>)))"

definition trip_circuit_breaker :: "'z host_scheme \<Rightarrow> oracle_state \<Rightarrow> unit twap_res" where
  "trip_circuit_breaker e s = set_breaker e True s"

definition reset_circuit_breaker :: "'z host_scheme \<Rightarrow> oracle_state \<Rightarrow> unit twap_res" where
  "reset_circuit_breaker e s = set_breaker e False s"

definition set_max_single_update_dev_bps :: "'z host_scheme \<Rightarrow> nat \<Rightarrow> oracle_state \<Rightarrow> unit twap_res" where
  "set_max_single_update_dev_bps e max_deviation_bps s =
     bnd (twap_read_admin s) (\<lambda>admin. bnd (require_auth e admin) (\<lambda>_.
     if max_deviation_bps > 10000 then Err InvalidConfig
     else Ok ((), s\<lparr>twMaxDeviation := Some max_deviation_bps\<rparr>)))"

definition max_single_update_dev_bps :: "oracle_state \<Rightarrow> nat" where
  "max_single_update_dev_bps s = unwrap_or DEFAULT_MAX_SINGLE_UPDATE_DEVIATION_BPS (twMaxDeviation s)"

text \<open>The append and prune at the end of \<open>observe\<close>.\<close>

definition append_pruned :: "'a list \<Rightarrow> 'a \<Rightarrow> bool \<Rightarrow> 'a list" where
  "append_pruned xs x full = (if full then tl (xs @ [x]) else xs @ [x])"

definition store_observation ::
    "address \<Rightarrow> address \<Rightarrow> Observation list \<Rightarrow> LogObservation list \<Rightarrow> Observation \<Rightarrow> LogObservation
       \<Rightarrow> oracle_state \<Rightarrow> nat twap_res" where
  "store_observation base quote observations logs ob lo s =
     (let full = length observations + 1 > MAX_OBSERVATIONS;
          observations' = append_pruned observations ob full;
          logs' = append_pruned logs lo full in
      Ok (length observations', s\<lparr>twPair := (twPair s)((base, quote) \<mapsto> observations'),
                                  twLogs := (twLogs s)((base, quote) \<mapsto> logs')\<rparr>))"

definition observe ::
    "'z host_scheme \<Rightarrow> address \<Rightarrow> address \<Rightarrow> int \<Rightarrow> nat \<Rightarrow> oracle_state \<Rightarrow> nat twap_res" where
  "observe e base quote price timestamp s =
     bnd (twap_read_admin s) (\<lambda>admin.
     bnd (require_auth e admin) (\<lambda>_.
     if is_circuit_breaker_tripped s then Err CircuitBreakerTripped
     else if price \<le> 0 \<or> price > MAX_PRICE then Err InvalidPrice
     else if timestamp > now e then Err TimestampInFuture
     else
       let observations = read_observations base quote s in
       bnd (read_cumulative_logs base quote observations s) (\<lambda>logs.
       if observations = [] then
         store_observation base quote observations logs
           \<lparr>ob_time = timestamp, ob_price = price, ob_cumulative = 0\<rparr>
           \<lparr>lo_time = timestamp, lo_cumulative = 0\<rparr> s
       else
         let previous = last observations in
         if timestamp \<le> ob_time previous then Err TimestampNotMonotonic
         else if timestamp - ob_time previous < MIN_INTERVAL_SECONDS then Err ObservationTooSoon
         else
           bnd (i128_sub price (ob_price previous)) (\<lambda>diff.
           bnd (ok_or PriceOverflow (i128_checked_mul \<bar>diff\<bar> TW_BPS_DIVISOR)) (\<lambda>scaled.
           let deviation_bps = scaled sdiv ob_price previous in
           if deviation_bps > int (max_single_update_dev_bps s) then
             Ok (length observations, s\<lparr>twBreaker := Some True,
                twEvents := twEvents s @ [Event ''breaker tripped''
                  [IntArg (ob_price previous), IntArg price, IntArg deviation_bps]]\<rparr>)
           else
             let elapsed = timestamp - ob_time previous;
                 increment = u256_of_i128 (ob_price previous) * u256_of_u64 elapsed;
                 cumulative_price = ob_cumulative previous + increment in
             bnd (if logs = [] then Trap else Ok (last logs)) (\<lambda>previous_log.
             bnd (log2_q64 (ob_price previous)) (\<lambda>l.
             bnd (ok_or PriceOverflow (i128_checked_mul l (int elapsed))) (\<lambda>log_increment.
             bnd (ok_or PriceOverflow (i128_checked_add (lo_cumulative previous_log) log_increment))
               (\<lambda>cumulative_log_price.
             store_observation base quote observations logs
               \<lparr>ob_time = timestamp, ob_price = price, ob_cumulative = cumulative_price\<rparr>
               \<lparr>lo_time = timestamp, lo_cumulative = cumulative_log_price\<rparr> s)))))))))"

text \<open>The scan for the last observation at or before the window start.\<close>

fun scan_base :: "Observation list \<Rightarrow> nat \<Rightarrow> nat \<Rightarrow> nat \<Rightarrow> nat" where
  "scan_base [] target index base_index = base_index"
| "scan_base (observation # rest) target index base_index =
     (if ob_time observation > target then base_index else scan_base rest target (index + 1) index)"

definition twap :: "address \<Rightarrow> address \<Rightarrow> nat \<Rightarrow> oracle_state \<Rightarrow> (twap_error, int) outcome" where
  "twap base quote window_seconds s =
     (if window_seconds = 0 \<or> window_seconds > MAX_WINDOW_SECONDS then Err InvalidWindow
      else
        let observations = read_observations base quote s in
        if observations = [] then Err NoObservations
        else
          let latest = last observations in
          if ob_time latest < window_seconds then Err InsufficientHistory
          else
            let target = ob_time latest - window_seconds; first = hd observations in
            if target < ob_time first then Err InsufficientHistory
            else
              let base_obs = observations ! scan_base observations target 0 0;
                  cumulative_at_target =
                    (if ob_time base_obs = target then ob_cumulative base_obs
                     else ob_cumulative base_obs
                       + u256_of_i128 (ob_price base_obs) * u256_of_u64 (target - ob_time base_obs));
                  accumulated = ob_cumulative latest - cumulative_at_target in
              i128_of_u256 (accumulated div u256_of_u64 window_seconds))"

definition consult ::
    "'z host_scheme \<Rightarrow> address \<Rightarrow> address \<Rightarrow> nat \<Rightarrow> oracle_state \<Rightarrow> (twap_error, int) outcome" where
  "consult e base quote window_seconds s =
     (if is_circuit_breaker_tripped s then Err CircuitBreakerTripped
      else
        let observations = read_observations base quote s in
        if observations = [] then Err NoObservations
        else if u64_saturating_sub (now e) (ob_time (last observations)) > get_max_staleness base quote s
        then Err PriceStale
        else twap base quote window_seconds s)"

section \<open>Runs of the oracle\<close>

datatype twap_call =
    CInitialize address | CSetStaleness address address nat | CObserve address address int nat
  | CTrip | CReset | CSetDeviation nat

fun twap_exec :: "'z host_scheme \<Rightarrow> twap_call \<Rightarrow> oracle_state \<Rightarrow> (twap_error, oracle_state) outcome" where
  "twap_exec e (CInitialize a) s = bnd (twap_initialize e a s) (\<lambda>(_, s'). Ok s')"
| "twap_exec e (CSetStaleness b q m) s = bnd (set_max_staleness e b q m s) (\<lambda>(_, s'). Ok s')"
| "twap_exec e (CObserve b q p t) s = bnd (observe e b q p t s) (\<lambda>(_, s'). Ok s')"
| "twap_exec e CTrip s = bnd (trip_circuit_breaker e s) (\<lambda>(_, s'). Ok s')"
| "twap_exec e CReset s = bnd (reset_circuit_breaker e s) (\<lambda>(_, s'). Ok s')"
| "twap_exec e (CSetDeviation m) s = bnd (set_max_single_update_dev_bps e m s) (\<lambda>(_, s'). Ok s')"

inductive oracle_steps :: "oracle_state \<Rightarrow> oracle_state \<Rightarrow> bool" where
  start: "oracle_steps s s"
| call: "oracle_steps s t \<Longrightarrow> twap_exec (e :: host) c t = Ok u \<Longrightarrow> oracle_steps s u"

definition fresh_oracle :: oracle_state where
  "fresh_oracle = \<lparr>twAdmin = None, twPair = Map.empty, twStaleness = Map.empty, twBreaker = None,
     twMaxDeviation = None, twLogs = Map.empty, twEvents = []\<rparr>"

text \<open>The price in force at a second: that of the last observation at or before it.\<close>

fun price_at :: "Observation list \<Rightarrow> nat \<Rightarrow> int" where
  "price_at [] t = 0"
| "price_at [o1] t = ob_price o1"
| "price_at (o1 # o2 # os) t = (if ob_time o2 \<le> t then price_at (o2 # os) t else ob_price o1)"

text \<open>What two neighbours of a history satisfy, and what a history satisfies.\<close>

definition follows :: "Observation \<Rightarrow> Observation \<Rightarrow> bool" where
  "follows a b \<longleftrightarrow> ob_time a + MIN_INTERVAL_SECONDS \<le> ob_time b
     \<and> ob_cumulative b = ob_cumulative a + word_of_int (ob_price a * int (ob_time b - ob_time a))"

definition history_ok :: "Observation list \<Rightarrow> bool" where
  "history_ok os \<longleftrightarrow> length os \<le> MAX_OBSERVATIONS
     \<and> (\<forall>ob\<in>set os. 0 < ob_price ob \<and> ob_price ob \<le> MAX_PRICE) \<and> successively follows os"

definition oracle_inv :: "oracle_state \<Rightarrow> bool" where
  "oracle_inv s \<longleftrightarrow> (\<forall>base quote. history_ok (read_observations base quote s))"

section \<open>The wrapping accumulator integrates the price\<close>

lemma follows_le: "follows a b \<Longrightarrow> ob_time a \<le> ob_time b"
  by (simp add: follows_def MIN_INTERVAL_SECONDS_def)

lemma history_times:
  "successively follows (ob # os) \<Longrightarrow> ob' \<in> set (ob # os) \<Longrightarrow> ob_time ob \<le> ob_time ob'"
proof (induction os arbitrary: ob)
  case (Cons o2 os)
  then show ?case
    using follows_le [of ob o2] Cons.IH [of o2] by (cases "ob' = ob") (auto intro: order_trans)
qed simp

lemma cumulative_integral:
  "successively follows (ob # os) \<Longrightarrow>
     ob_cumulative (last (ob # os)) = ob_cumulative ob
       + word_of_int (\<Sum>t\<in>{ob_time ob..<ob_time (last (ob # os))}. price_at (ob # os) t)"
proof (induction os arbitrary: ob)
  case Nil
  then show ?case by simp
next
  case (Cons o2 os)
  let ?T = "ob_time (last (o2 # os))"
  have f: "follows ob o2" and rest: "successively follows (o2 # os)" using Cons.prems by simp_all
  have le: "ob_time ob \<le> ob_time o2" "ob_time o2 \<le> ?T"
    using follows_le [OF f] history_times [OF rest, of "last (o2 # os)"] by auto
  have "(\<Sum>t\<in>{ob_time ob..<?T}. price_at (ob # o2 # os) t)
      = (\<Sum>t\<in>{ob_time ob..<ob_time o2}. price_at (ob # o2 # os) t)
      + (\<Sum>t\<in>{ob_time o2..<?T}. price_at (ob # o2 # os) t)"
    by (rule sum.atLeastLessThan_concat [OF le, symmetric])
  also have "(\<Sum>t\<in>{ob_time ob..<ob_time o2}. price_at (ob # o2 # os) t)
      = ob_price ob * int (ob_time o2 - ob_time ob)"
    by simp
  also have "(\<Sum>t\<in>{ob_time o2..<?T}. price_at (ob # o2 # os) t)
      = (\<Sum>t\<in>{ob_time o2..<?T}. price_at (o2 # os) t)"
    by (rule sum.cong) auto
  finally show ?case using Cons.IH [OF rest] f by (simp add: follows_def)
qed

lemma price_at_drop:
  "successively follows os \<Longrightarrow> k < length os \<Longrightarrow> ob_time (os ! k) \<le> t \<Longrightarrow>
     price_at os t = price_at (drop k os) t"
proof (induction os arbitrary: k)
  case (Cons o1 os)
  show ?case
  proof (cases k)
    case (Suc j)
    then obtain o2 os' where os: "os = o2 # os'" using Cons.prems by (cases os) auto
    have s: "successively follows (o2 # os')" using Cons.prems os by simp
    have "os ! j \<in> set (o2 # os')" using Cons.prems Suc os by (metis Suc_less_eq length_Cons nth_mem)
    then have "ob_time o2 \<le> t" using history_times [OF s] Cons.prems Suc by (auto intro: order_trans)
    then show ?thesis using Cons.IH [of j] Cons.prems s Suc os by simp
  qed simp
qed simp

lemma price_at_first:
  "(os \<noteq> [] \<Longrightarrow> t < ob_time (hd os)) \<Longrightarrow> price_at (ob # os) t = ob_price ob"
  by (cases os) auto

lemma scan_base_from:
  assumes "pre \<noteq> []" "\<forall>ob\<in>set pre. ob_time ob \<le> target" "os = pre @ rest"
  shows "\<exists>k < length os. scan_base rest target (length pre) (length pre - 1) = k
    \<and> ob_time (os ! k) \<le> target \<and> (Suc k < length os \<longrightarrow> target < ob_time (os ! Suc k))"
  using assms
proof (induction rest arbitrary: pre)
  case Nil
  then show ?case by auto
next
  case (Cons r rest)
  show ?case
  proof (cases "ob_time r > target")
    case True
    have "(pre @ r # rest) ! (length pre - 1) \<in> set pre" using Cons.prems(1) by (simp add: nth_append)
    then show ?thesis using True Cons.prems by (auto simp: nth_append)
  next
    case False
    then show ?thesis using Cons.IH [of "pre @ [r]"] Cons.prems by auto
  qed
qed

lemma scan_base_finds:
  assumes "os \<noteq> []" "ob_time (hd os) \<le> target"
  obtains k where "scan_base os target 0 0 = k" "k < length os" "ob_time (os ! k) \<le> target"
    "Suc k < length os \<longrightarrow> target < ob_time (os ! Suc k)"
proof -
  obtain ob rest where os: "os = ob # rest" using assms(1) by (cases os) auto
  have "scan_base os target 0 0 = scan_base rest target (length [ob]) (length [ob] - 1)"
    using assms(2) by (simp add: os)
  then show thesis using scan_base_from [of "[ob]" target os rest] assms(2) that by (auto simp: os)
qed

lemma u256_of_i128_eq:
  assumes "0 \<le> p" "p \<le> MAX_PRICE"
  shows "u256_of_i128 p = word_of_int p"
proof -
  have "p < 2 ^ 128" using assms by (simp add: MAX_PRICE_def)
  then have "uint (word_of_int p :: 128 word) = p" using assms(1) by (simp add: uint_word_of_int)
  then show ?thesis by (simp add: u256_of_i128_def ucast_eq)
qed

lemma u256_of_u64_eq: "u256_of_u64 n = word_of_int (int n)"
  by (simp add: u256_of_u64_def)

lemma segment_integral:
  assumes "history_ok os" "os \<noteq> []" "ob_time (hd os) \<le> target" "target < ob_time (last os)"
  defines "b \<equiv> os ! scan_base os target 0 0"
  shows "ob_cumulative (last os) - (if ob_time b = target then ob_cumulative b
           else ob_cumulative b + u256_of_i128 (ob_price b) * u256_of_u64 (target - ob_time b))
    = word_of_int (\<Sum>t\<in>{target..<ob_time (last os)}. price_at os t)"
proof -
  let ?T = "ob_time (last os)"
  have succ: "successively follows os" using assms(1) by (simp add: history_ok_def)
  obtain k where k: "scan_base os target 0 0 = k" "k < length os" "ob_time (os ! k) \<le> target"
    "Suc k < length os \<longrightarrow> target < ob_time (os ! Suc k)"
    by (rule scan_base_finds [OF assms(2,3)])
  have b: "b = os ! k" by (simp add: b_def k(1))
  define rest where "rest = drop (Suc k) os"
  have dropk: "drop k os = b # rest" using k(2) by (simp add: b rest_def Cons_nth_drop_Suc)
  have "successively follows (take k os @ drop k os)" using succ by (simp only: append_take_drop_id)
  then have "successively follows (b # rest)" by (simp only: successively_append_iff dropk)
  from cumulative_integral [OF this]
  have cum: "ob_cumulative (last os) = ob_cumulative b
      + word_of_int (\<Sum>t\<in>{ob_time b..<?T}. price_at (b # rest) t)"
    using k(2) by (simp flip: dropk)
  have "(\<Sum>t\<in>{ob_time b..<?T}. price_at (b # rest) t)
      = (\<Sum>t\<in>{ob_time b..<target}. price_at (b # rest) t) + (\<Sum>t\<in>{target..<?T}. price_at (b # rest) t)"
    using k(3) assms(4) by (simp add: b sum.atLeastLessThan_concat)
  also have "(\<Sum>t\<in>{ob_time b..<target}. price_at (b # rest) t) = (\<Sum>t\<in>{ob_time b..<target}. ob_price b)"
  proof (rule sum.cong)
    fix t assume t: "t \<in> {ob_time b..<target}"
    show "price_at (b # rest) t = ob_price b"
    proof (rule price_at_first)
      assume "rest \<noteq> []"
      then have "Suc k < length os" "hd rest = os ! Suc k"
        by (simp_all add: rest_def hd_drop_conv_nth)
      then show "t < ob_time (hd rest)" using k(4) t by simp
    qed
  qed simp
  also have "(\<Sum>t\<in>{target..<?T}. price_at (b # rest) t) = (\<Sum>t\<in>{target..<?T}. price_at os t)"
    by (rule sum.cong) (use price_at_drop [OF succ k(2)] k(3) dropk in auto)
  finally have split: "(\<Sum>t\<in>{ob_time b..<?T}. price_at (b # rest) t)
      = ob_price b * int (target - ob_time b) + (\<Sum>t\<in>{target..<?T}. price_at os t)"
    by simp
  have "b \<in> set os" using k(2) by (simp add: b)
  then have "0 \<le> ob_price b" "ob_price b \<le> MAX_PRICE" using assms(1) by (auto simp: history_ok_def)
  then show ?thesis
    by (simp add: cum split u256_of_i128_eq u256_of_u64_eq)
qed

lemma price_at_bounds:
  assumes "history_ok os" "os \<noteq> []"
  shows "0 < price_at os t" "price_at os t \<le> MAX_PRICE"
proof -
  have "price_at os t \<in> ob_price ` set os"
    using assms(2) by (induction os t rule: price_at.induct) auto
  then show "0 < price_at os t" "price_at os t \<le> MAX_PRICE"
    using assms(1) by (auto simp: history_ok_def)
qed

lemma average_bounds:
  assumes "finite A" "A \<noteq> {}" "\<forall>t\<in>A. lo \<le> (f t :: int) \<and> f t \<le> hi"
  shows "lo \<le> sum f A div int (card A)" "sum f A div int (card A) \<le> hi"
proof -
  have c: "0 < int (card A)" using assms(1,2) by (simp add: card_gt_0_iff)
  have "lo * int (card A) \<le> sum f A" "sum f A \<le> hi * int (card A)"
    using sum_bounded_below [of A lo f] sum_bounded_above [of A f hi] assms(3)
    by (simp_all add: mult.commute)
  then show "lo \<le> sum f A div int (card A)" "sum f A div int (card A) \<le> hi"
    using c zdiv_mono1 [of "lo * int (card A)" "sum f A" "int (card A)"]
      zdiv_mono1 [of "sum f A" "hi * int (card A)" "int (card A)"] by simp_all
qed

lemma u256_quotient:
  assumes "0 \<le> x" "x < 2 ^ 256" "0 < n" "n < 2 ^ 64" "x div int n < 2 ^ 127"
  shows "i128_of_u256 (word_of_int x div u256_of_u64 n) = Ok (x div int n)"
proof -
  have "uint (word_of_int x :: u256) = x" using assms by (simp add: uint_word_of_int)
  moreover have "uint (word_of_int (int n) :: u256) = int n"
    using assms(4) by (simp only: uint_word_of_int) simp
  ultimately show ?thesis using assms(5) by (simp only: i128_of_u256_def uint_div_distrib u256_of_u64_eq if_True)
qed

lemma twap_value:
  assumes "history_ok os" "read_observations base quote s = os" "os \<noteq> []" "0 < w"
    "w \<le> MAX_WINDOW_SECONDS" "ob_time (hd os) + w \<le> ob_time (last os)"
  shows "twap base quote w s =
    Ok ((\<Sum>t\<in>{ob_time (last os) - w..<ob_time (last os)}. price_at os t) div int w)"
proof -
  let ?T = "ob_time (last os)"
  let ?S = "\<Sum>t\<in>{?T - w..<?T}. price_at os t"
  have w: "w \<le> ?T" using assms(6) by simp
  have b: "\<forall>t\<in>{?T - w..<?T}. 0 \<le> price_at os t \<and> price_at os t \<le> MAX_PRICE"
    using price_at_bounds [OF assms(1,3)] by (simp add: less_imp_le)
  have S: "0 \<le> ?S" by (rule sum_nonneg) (use b in auto)
  have "?S \<le> int (card {?T - w..<?T}) * MAX_PRICE"
    using b by (intro sum_bounded_above) auto
  also have "\<dots> \<le> int MAX_WINDOW_SECONDS * MAX_PRICE"
    using assms(5) w by (intro mult_right_mono) (auto simp: MAX_PRICE_def)
  finally have S256: "?S < 2 ^ 256" by (simp add: MAX_PRICE_def MAX_WINDOW_SECONDS_def)
  have avg: "0 \<le> ?S div int w" "?S div int w \<le> MAX_PRICE"
    using average_bounds [of "{?T - w..<?T}" 0 "price_at os" MAX_PRICE] b w assms(4) by auto
  have "w < 2 ^ 64" using assms(5) by (simp add: MAX_WINDOW_SECONDS_def)
  moreover have "?S div int w < 2 ^ 127" using avg(2) by (simp add: MAX_PRICE_def)
  ultimately have conv: "i128_of_u256 (word_of_int ?S div u256_of_u64 w) = Ok (?S div int w)"
    using S S256 assms(4) by (intro u256_quotient)
  have seg: "ob_time (hd os) \<le> ?T - w" "?T - w < ?T" using assms(4,6) by simp_all
  show ?thesis
    unfolding twap_def assms(2) Let_def segment_integral [OF assms(1,3) seg] conv
    using assms w by simp
qed

section \<open>What an observation does\<close>

lemma set_breaker_OkD:
  assumes "set_breaker e on s = Ok (u, s')"
  shows "\<exists>admin. twAdmin s = Some admin \<and> auth e admin" "s' = s\<lparr>twBreaker := Some on\<rparr>"
  using assms by (auto simp: set_breaker_def twap_read_admin_def outcome_simps)

lemma observe_guards:
  assumes "observe e base quote price ts s = Ok (n, s')"
  shows "\<exists>admin. twAdmin s = Some admin \<and> auth e admin" "\<not> is_circuit_breaker_tripped s"
    "0 < price" "price \<le> MAX_PRICE" "ts \<le> now e"
  using assms
  by (auto simp: observe_def twap_read_admin_def outcome_simps)

lemma store_observation_OkD:
  assumes "store_observation base quote os logs ob lo s = Ok (n, s')"
  shows "\<exists>logs'. s' = s\<lparr>twPair := (twPair s)((base, quote) \<mapsto> append_pruned os ob (length os + 1 > MAX_OBSERVATIONS)),
      twLogs := (twLogs s)((base, quote) \<mapsto> logs')\<rparr>"
    "n = length (append_pruned os ob (length os + 1 > MAX_OBSERVATIONS))"
  using assms by (auto simp: store_observation_def Let_def)

lemma observe_effect:
  assumes "observe e base quote price ts s = Ok (n, s')"
  defines "os \<equiv> read_observations base quote s"
  shows "(os \<noteq> [] \<and> ob_time (last os) + MIN_INTERVAL_SECONDS \<le> ts
      \<and> int (max_single_update_dev_bps s) < \<bar>price - ob_price (last os)\<bar> * TW_BPS_DIVISOR sdiv ob_price (last os)
      \<and> n = length os \<and> (\<exists>ev. s' = s\<lparr>twBreaker := Some True, twEvents := twEvents s @ [ev]\<rparr>))
    \<or> (\<exists>ob logs'. ob_time ob = ts \<and> ob_price ob = price
      \<and> (os \<noteq> [] \<longrightarrow> ob_time (last os) + MIN_INTERVAL_SECONDS \<le> ts
          \<and> \<bar>price - ob_price (last os)\<bar> * TW_BPS_DIVISOR sdiv ob_price (last os) \<le> int (max_single_update_dev_bps s)
          \<and> ob_cumulative ob = ob_cumulative (last os)
              + u256_of_i128 (ob_price (last os)) * u256_of_u64 (ts - ob_time (last os)))
      \<and> n = length (append_pruned os ob (length os + 1 > MAX_OBSERVATIONS))
      \<and> s' = s\<lparr>twPair := (twPair s)((base, quote) \<mapsto> append_pruned os ob (length os + 1 > MAX_OBSERVATIONS)),
          twLogs := (twLogs s)((base, quote) \<mapsto> logs')\<rparr>)"
proof -
  note run = assms(1) [unfolded observe_def twap_read_admin_def]
  show ?thesis
  proof (cases "os = []")
    case True
    with run obtain logs where "store_observation base quote os logs
         \<lparr>ob_time = ts, ob_price = price, ob_cumulative = 0\<rparr> \<lparr>lo_time = ts, lo_cumulative = 0\<rparr> s = Ok (n, s')"
      by (auto simp: outcome_simps os_def Let_def)
    from store_observation_OkD [OF this] True show ?thesis by fastforce
  next
    case False
    with run have t: "ob_time (last os) + MIN_INTERVAL_SECONDS \<le> ts"
      by (auto simp: outcome_simps Let_def simp flip: os_def)
    let ?dev = "\<bar>price - ob_price (last os)\<bar> * TW_BPS_DIVISOR sdiv ob_price (last os)"
    show ?thesis
    proof (cases "int (max_single_update_dev_bps s) < ?dev")
      case True
      with run False t show ?thesis
        by (auto simp: outcome_simps Let_def arith_defs simp flip: os_def split: if_splits)
    next
      case small: False
      with run False obtain logs lo where "store_observation base quote os logs
         \<lparr>ob_time = ts, ob_price = price, ob_cumulative = ob_cumulative (last os)
              + u256_of_i128 (ob_price (last os)) * u256_of_u64 (ts - ob_time (last os))\<rparr> lo s = Ok (n, s')"
        by (auto simp: outcome_simps Let_def arith_defs simp flip: os_def split: if_splits)
      from store_observation_OkD [OF this] False small t show ?thesis by fastforce
    qed
  qed
qed

lemma history_append:
  assumes "history_ok os" "0 < ob_price ob" "ob_price ob \<le> MAX_PRICE" "os \<noteq> [] \<Longrightarrow> follows (last os) ob"
  shows "history_ok (append_pruned os ob (length os + 1 > MAX_OBSERVATIONS))"
proof -
  have succ: "successively follows (os @ [ob])"
    using assms(1,4) by (auto simp: history_ok_def successively_append_iff)
  then have "successively follows (tl (os @ [ob]))"
    by (cases "os @ [ob]") (auto simp: successively_Cons)
  moreover have "set (tl (os @ [ob])) \<subseteq> insert ob (set os)"
    by (cases os) auto
  ultimately show ?thesis using assms(1-3) succ
    by (auto simp: history_ok_def append_pruned_def)
qed

lemma read_observations_upd [simp]:
  "read_observations b q (s\<lparr>twBreaker := x\<rparr>) = read_observations b q s"
  "read_observations b q (s\<lparr>twEvents := y\<rparr>) = read_observations b q s"
  "read_observations b q (s\<lparr>twAdmin := a\<rparr>) = read_observations b q s"
  "read_observations b q (s\<lparr>twStaleness := st\<rparr>) = read_observations b q s"
  "read_observations b q (s\<lparr>twMaxDeviation := d\<rparr>) = read_observations b q s"
  "read_observations b q (s\<lparr>twLogs := l\<rparr>) = read_observations b q s"
  "read_observations b q (s\<lparr>twPair := (twPair s)((b', q') \<mapsto> os)\<rparr>) =
     (if b = b' \<and> q = q' then os else read_observations b q s)"
  by (simp_all add: read_observations_def)

lemma observe_inv:
  assumes "oracle_inv s" "observe e base quote price ts s = Ok (n, s')"
  shows "oracle_inv s'"
proof -
  let ?os = "read_observations base quote s"
  have os: "history_ok ?os" using assms(1) by (simp add: oracle_inv_def)
  note g = observe_guards [OF assms(2)]
  from observe_effect [OF assms(2)] show ?thesis
  proof (elim disjE exE conjE)
    fix ev assume "s' = s\<lparr>twBreaker := Some True, twEvents := twEvents s @ [ev]\<rparr>"
    then show ?thesis using assms(1) by (simp add: oracle_inv_def)
  next
    fix ob logs'
    assume ob: "ob_time ob = ts" "ob_price ob = price"
      and f: "?os \<noteq> [] \<longrightarrow> ob_time (last ?os) + MIN_INTERVAL_SECONDS \<le> ts
          \<and> \<bar>price - ob_price (last ?os)\<bar> * TW_BPS_DIVISOR sdiv ob_price (last ?os) \<le> int (max_single_update_dev_bps s)
          \<and> ob_cumulative ob = ob_cumulative (last ?os)
              + u256_of_i128 (ob_price (last ?os)) * u256_of_u64 (ts - ob_time (last ?os))"
      and s': "s' = s\<lparr>twPair := (twPair s)((base, quote) \<mapsto>
          append_pruned ?os ob (length ?os + 1 > MAX_OBSERVATIONS)), twLogs := (twLogs s)((base, quote) \<mapsto> logs')\<rparr>"
    have "follows (last ?os) ob" if "?os \<noteq> []"
    proof -
      have "last ?os \<in> set ?os" using that by simp
      then have "0 \<le> ob_price (last ?os)" "ob_price (last ?os) \<le> MAX_PRICE"
        using os by (auto simp: history_ok_def)
      then show ?thesis using f that ob
        by (simp add: follows_def u256_of_i128_eq u256_of_u64_eq)
    qed
    then have "history_ok (append_pruned ?os ob (length ?os + 1 > MAX_OBSERVATIONS))"
      using history_append [OF os] g(3,4) ob by simp
    then show ?thesis using assms(1) by (simp add: oracle_inv_def s')
  qed
qed

lemma twap_exec_inv: "oracle_inv s \<Longrightarrow> twap_exec e c s = Ok s' \<Longrightarrow> oracle_inv s'"
  by (cases c) (auto simp: outcome_simps twap_initialize_def set_max_staleness_def
      trip_circuit_breaker_def reset_circuit_breaker_def set_max_single_update_dev_bps_def
      oracle_inv_def dest!: set_breaker_OkD(2) observe_inv [unfolded oracle_inv_def, rotated])

lemma oracle_steps_inv: "oracle_steps s t \<Longrightarrow> oracle_inv s \<Longrightarrow> oracle_inv t"
  by (induction rule: oracle_steps.induct) (auto intro: twap_exec_inv)

lemma fresh_oracle_inv: "oracle_inv fresh_oracle"
  by (simp add: oracle_inv_def read_observations_def fresh_oracle_def history_ok_def)

text \<open>C15: The oracle's answer is the true average: in every state reachable from deployment, the
  average over a window that the retained history covers is the sum, over the seconds of the window
  ending at the latest observation, of the price then in force, divided by the window's length and
  rounded down, exactly, although the accumulator wraps at 256 bits and old observations are pruned; it
  lies between the lowest and the highest price in force and never overflows. The other cases are
  the errors for them, and \<open>consult\<close> adds only the breaker and the staleness check.\<close>

theorem twap_is_average:
  assumes "oracle_steps fresh_oracle s" "read_observations base quote s = os"
  shows "(os \<noteq> [] \<longrightarrow> 0 < w \<longrightarrow> w \<le> MAX_WINDOW_SECONDS \<longrightarrow>
        ob_time (hd os) + w \<le> ob_time (last os) \<longrightarrow>
        (let window = {ob_time (last os) - w..<ob_time (last os)} in
         \<exists>avg. twap base quote w s = Ok avg
           \<and> avg = (\<Sum>t\<in>window. price_at os t) div int w
           \<and> (\<forall>lo hi. (\<forall>t\<in>window. lo \<le> price_at os t \<and> price_at os t \<le> hi) \<longrightarrow> lo \<le> avg \<and> avg \<le> hi)
           \<and> consult e base quote w s =
               (if is_circuit_breaker_tripped s then Err CircuitBreakerTripped
                else if now e - ob_time (last os) > get_max_staleness base quote s then Err PriceStale
                else Ok avg)))
    \<and> (w = 0 \<or> MAX_WINDOW_SECONDS < w \<longrightarrow> twap base quote w s = Err InvalidWindow)
    \<and> (0 < w \<longrightarrow> w \<le> MAX_WINDOW_SECONDS \<longrightarrow> os = [] \<longrightarrow> twap base quote w s = Err NoObservations)
    \<and> (0 < w \<longrightarrow> w \<le> MAX_WINDOW_SECONDS \<longrightarrow> os \<noteq> [] \<longrightarrow> ob_time (last os) < ob_time (hd os) + w \<longrightarrow>
        twap base quote w s = Err InsufficientHistory)"
proof -
  have h: "history_ok os"
    using oracle_steps_inv [OF assms(1) fresh_oracle_inv] assms(2) by (auto simp: oracle_inv_def)
  have "let window = {ob_time (last os) - w..<ob_time (last os)} in
         \<exists>avg. twap base quote w s = Ok avg
           \<and> avg = (\<Sum>t\<in>window. price_at os t) div int w
           \<and> (\<forall>lo hi. (\<forall>t\<in>window. lo \<le> price_at os t \<and> price_at os t \<le> hi) \<longrightarrow> lo \<le> avg \<and> avg \<le> hi)
           \<and> consult e base quote w s =
               (if is_circuit_breaker_tripped s then Err CircuitBreakerTripped
                else if now e - ob_time (last os) > get_max_staleness base quote s then Err PriceStale
                else Ok avg)"
    if w: "os \<noteq> []" "0 < w" "w \<le> MAX_WINDOW_SECONDS" "ob_time (hd os) + w \<le> ob_time (last os)"
  proof -
    let ?W = "{ob_time (last os) - w..<ob_time (last os)}"
    have W: "card ?W = w" "?W \<noteq> {}" using w by auto
    let ?avg = "(\<Sum>t\<in>?W. price_at os t) div int w"
    have bounds: "\<forall>lo hi. (\<forall>t\<in>?W. lo \<le> price_at os t \<and> price_at os t \<le> hi) \<longrightarrow> lo \<le> ?avg \<and> ?avg \<le> hi"
    proof (intro allI impI)
      fix lo hi assume "\<forall>t\<in>?W. lo \<le> price_at os t \<and> price_at os t \<le> hi"
      from average_bounds [OF finite_atLeastLessThan W(2) this]
      show "lo \<le> ?avg \<and> ?avg \<le> hi" unfolding W(1) by blast
    qed
    have ok: "twap base quote w s = Ok ?avg" by (rule twap_value [OF h assms(2) w])
    have "consult e base quote w s =
               (if is_circuit_breaker_tripped s then Err CircuitBreakerTripped
                else if now e - ob_time (last os) > get_max_staleness base quote s then Err PriceStale
                else Ok ?avg)"
      using w(1) by (simp add: consult_def assms(2) ok u64_saturating_sub_def)
    with bounds ok show ?thesis unfolding Let_def by blast
  qed
  then show ?thesis by (auto simp: twap_def assms(2) Let_def)
qed

definition oracle_env :: "nat \<Rightarrow> host" where
  "oracle_env t = \<lparr>now = t, seq = 0, self = 9, auth = (\<lambda>a. a = 1), sha256 = (\<lambda>b. b),
     ed25519 = (\<lambda>k m s. True)\<rparr>"

lemma log2_loop_numeral:
  "normalized * normalized < 2 ^ 128 \<Longrightarrow> normalized * normalized div 2 ^ 63 = q \<Longrightarrow>
     log2_loop (numeral k) normalized fraction =
       (if q \<ge> 2 ^ 64 then log2_loop (pred_numeral k) (q div 2) (fraction OR 2 ^ (63 - (31 - pred_numeral k)))
        else log2_loop (pred_numeral k) q fraction)"
  by (simp add: numeral_eq_Suc [of k])

lemma ilog2_numeral: "ilog2 (numeral k) = (if (numeral k :: nat) < 2 then 0 else Suc (ilog2 (numeral k div 2)))"
  by (simp only: ilog2.simps [of "numeral k"])

lemma ilog2_sample: "ilog2 128 = 7" "ilog2 136 = 7" "ilog2 (Suc 0) = 0"
  by (simp_all add: ilog2_numeral ilog2.simps [of "Suc 0"])

lemma log2_loop_sample: "log2_loop 32 (128 * 2 ^ 56) 0 = Ok 0"
  by (simp add: log2_loop_numeral)

lemma log2_loop_sample': "log2_loop 32 (136 * 2 ^ 56) 0 = Ok (375650042 * 2 ^ 32)"
  by (simp add: log2_loop_numeral)

lemma log2_sample: "log2_q64 128 = Ok (7 * 2 ^ 64)" "log2_q64 136 = Ok (7 * 2 ^ 64 + 375650042 * 2 ^ 32)"
  using log2_loop_sample log2_loop_sample'
  by (simp_all add: log2_q64_def ilog2_sample i128_checked_mul_def i128_checked_add_def i128_ok_def Q64_def)

text \<open>A history of three observations of the pair (2, 3), at 1000, 1100 and 1200 seconds.\<close>

definition oracle_after :: "Observation list \<Rightarrow> LogObservation list \<Rightarrow> oracle_state" where
  "oracle_after os logs = fresh_oracle\<lparr>twAdmin := Some 1, twPair := [(2, 3) \<mapsto> os], twLogs := [(2, 3) \<mapsto> logs]\<rparr>"

definition ob1 where "ob1 = \<lparr>ob_time = 1000, ob_price = 128, ob_cumulative = 0\<rparr>"
definition ob2 where "ob2 = \<lparr>ob_time = 1100, ob_price = 136, ob_cumulative = 12800\<rparr>"
definition ob3 where "ob3 = \<lparr>ob_time = 1200, ob_price = 128, ob_cumulative = 26400\<rparr>"
definition lo1 where "lo1 = \<lparr>lo_time = 1000, lo_cumulative = 0\<rparr>"
definition lo2 where "lo2 = \<lparr>lo_time = 1100, lo_cumulative = 700 * 2 ^ 64\<rparr>"
definition lo3 where "lo3 = \<lparr>lo_time = 1200, lo_cumulative = 1400 * 2 ^ 64 + 37565004200 * 2 ^ 32\<rparr>"

lemmas oracle_sample_defs = oracle_after_def fresh_oracle_def ob1_def ob2_def ob3_def lo1_def lo2_def
  lo3_def oracle_env_def

lemma oracle_sample_calls:
  "twap_exec (oracle_env 1000) (CObserve 2 3 128 1000) (fresh_oracle\<lparr>twAdmin := Some 1\<rparr>)
     = Ok (oracle_after [ob1] [lo1])"
  "twap_exec (oracle_env 1100) (CObserve 2 3 136 1100) (oracle_after [ob1] [lo1])
     = Ok (oracle_after [ob1, ob2] [lo1, lo2])"
  "twap_exec (oracle_env 1200) (CObserve 2 3 128 1200) (oracle_after [ob1, ob2] [lo1, lo2])
     = Ok (oracle_after [ob1, ob2, ob3] [lo1, lo2, lo3])"
  by (simp_all add: oracle_sample_defs observe_def twap_read_admin_def require_auth_def
      is_circuit_breaker_tripped_def read_observations_def read_cumulative_logs_def Let_def const_defs
      arith_defs i128_ok_def store_observation_def append_pruned_def log2_sample sdiv_nonneg
      max_single_update_dev_bps_def u256_of_i128_def u256_of_u64_def)

lemma oracle_sample_run: "oracle_steps fresh_oracle (oracle_after [ob1, ob2, ob3] [lo1, lo2, lo3])"
proof -
  have "twap_exec (oracle_env 0) (CInitialize 1) fresh_oracle = Ok (fresh_oracle\<lparr>twAdmin := Some 1\<rparr>)"
    by (simp add: twap_initialize_def require_auth_def oracle_sample_defs)
  from oracle_steps.call [OF oracle_steps.start this] oracle_sample_calls show ?thesis
    by (blast intro: oracle_steps.call)
qed

theorem twap_is_average_witness:
  "twap 2 3 150 (oracle_after [ob1, ob2, ob3] [lo1, lo2, lo3]) = Ok 133"
proof -
  let ?os = "[ob1, ob2, ob3]"
  let ?s = "oracle_after ?os [lo1, lo2, lo3]"
  have os: "read_observations 2 3 ?s = ?os" by (simp add: read_observations_def oracle_after_def)
  have "(\<Sum>t\<in>{1050..<1200}. price_at ?os t)
      = (\<Sum>t\<in>{1050..<1100}. price_at ?os t) + (\<Sum>t\<in>{1100..<1200}. price_at ?os t)"
    by (rule sum.atLeastLessThan_concat [symmetric]) simp_all
  also have "(\<Sum>t\<in>{1050..<1100}. price_at ?os t) = (\<Sum>t\<in>{1050..<1100::nat}. 128)"
    by (rule sum.cong) (auto simp: ob1_def ob2_def)
  also have "(\<Sum>t\<in>{1100..<1200}. price_at ?os t) = (\<Sum>t\<in>{1100..<1200::nat}. 136)"
    by (rule sum.cong) (auto simp: ob1_def ob2_def ob3_def)
  finally have "(\<Sum>t\<in>{1050..<1200}. price_at ?os t) div 150 = 133" by simp
  then show ?thesis
    using twap_is_average [OF oracle_sample_run os, of 150 "oracle_env 1200"]
    by (simp add: ob1_def ob3_def MAX_WINDOW_SECONDS_def Let_def)
qed

fun oracle_run :: "(host \<times> twap_call) list \<Rightarrow> oracle_state \<Rightarrow> (twap_error, oracle_state) outcome" where
  "oracle_run [] s = Ok s"
| "oracle_run ((e, c) # cs) s = bnd (twap_exec e c s) (oracle_run cs)"

lemma tripped_exec:
  assumes "twap_exec e c s = Ok t" "is_circuit_breaker_tripped s" "c \<noteq> CReset"
  shows "is_circuit_breaker_tripped t \<and> (\<forall>b q. read_observations b q t = read_observations b q s)"
proof (cases c)
  case (CObserve b q p ts)
  then show ?thesis using assms by (auto simp: outcome_simps dest: observe_guards(2))
next
  case CTrip
  then show ?thesis using assms
    by (auto simp: outcome_simps trip_circuit_breaker_def is_circuit_breaker_tripped_def dest: set_breaker_OkD(2))
qed (use assms in \<open>auto simp: outcome_simps twap_initialize_def set_max_staleness_def
    set_max_single_update_dev_bps_def is_circuit_breaker_tripped_def\<close>)

lemma tripped_run:
  "oracle_run cs s = Ok t \<Longrightarrow> is_circuit_breaker_tripped s \<Longrightarrow> \<forall>e. (e, CReset) \<notin> set cs \<Longrightarrow>
     is_circuit_breaker_tripped t \<and> (\<forall>b q. read_observations b q t = read_observations b q s)"
proof (induction cs arbitrary: s)
  case (Cons ec cs)
  obtain e c where ec: "ec = (e, c)" by (cases ec)
  from Cons.prems(1) obtain u where u: "twap_exec e c s = Ok u" "oracle_run cs u = Ok t"
    by (auto simp: ec outcome_simps)
  have "c \<noteq> CReset" using Cons.prems(3) by (auto simp: ec)
  from tripped_exec [OF u(1) Cons.prems(2) this] Cons.IH [OF u(2)] Cons.prems(3) show ?case by auto
qed simp

lemma tripped_refuses:
  assumes "is_circuit_breaker_tripped s'" "\<And>b q. read_observations b q s' = read_observations b q s"
  shows "\<forall>cs t. (\<forall>e'. (e', CReset) \<notin> set cs) \<longrightarrow> oracle_run cs s' = Ok t \<longrightarrow>
    (\<forall>b q e' w. read_observations b q t = read_observations b q s
      \<and> consult e' b q w t = Err CircuitBreakerTripped)"
  using tripped_run [OF _ assms(1)] assms(2) by (simp add: consult_def)

lemma append_pruned_effect:
  assumes "length os \<le> 64" "read_observations base quote s = os"
    "n = length (append_pruned os ob (length os + 1 > MAX_OBSERVATIONS))"
    "s' = s\<lparr>twPair := (twPair s)((base, quote) \<mapsto> append_pruned os ob (length os + 1 > MAX_OBSERVATIONS)),
       twLogs := (twLogs s)((base, quote) \<mapsto> logs')\<rparr>"
  shows "read_observations base quote s' = (if length os < 64 then os @ [ob] else tl os @ [ob])
    \<and> n = length (read_observations base quote s') \<and> n \<le> 64
    \<and> (\<forall>b q. (b, q) \<noteq> (base, quote) \<longrightarrow> read_observations b q s' = read_observations b q s)
    \<and> is_circuit_breaker_tripped s' = is_circuit_breaker_tripped s"
proof -
  have app: "append_pruned os ob (length os + 1 > MAX_OBSERVATIONS)
      = (if length os < 64 then os @ [ob] else tl os @ [ob])"
    by (cases os) (auto simp: append_pruned_def MAX_OBSERVATIONS_def)
  have new: "read_observations base quote s' = (if length os < 64 then os @ [ob] else tl os @ [ob])"
    using app by (simp add: assms(4))
  moreover have "n = length (read_observations base quote s')" by (simp only: assms(3) new app)
  moreover have "n \<le> 64" using assms(1) by (simp only: assms(3) app) simp
  ultimately show ?thesis by (auto simp: assms(4) is_circuit_breaker_tripped_def)
qed

text \<open>C31: An observation is appended or trips the breaker. Only the admin observes, only while the
  breaker is untripped, a price in range, not in the future and at least a minute after the last. If
  it moves the price by more than the configured share nothing is recorded and the breaker trips:
  until the admin resets it, whatever else is called, no pair's history changes and every \<open>consult\<close>
  is refused. Otherwise it becomes the newest entry of its pair (the oldest goes when 64 are
  exceeded) and no other pair changes.\<close>

theorem observation_or_breaker:
  assumes "oracle_steps fresh_oracle s" "observe e base quote price ts s = Ok (n, s')"
    "read_observations base quote s = os"
  shows "(\<exists>admin. twAdmin s = Some admin \<and> auth e admin) \<and> \<not> is_circuit_breaker_tripped s
    \<and> 0 < price \<and> price \<le> MAX_PRICE \<and> ts \<le> now e
    \<and> (os \<noteq> [] \<longrightarrow> ob_time (last os) + 60 \<le> ts)
    \<and> (if os \<noteq> [] \<and> int (max_single_update_dev_bps s)
             < \<bar>price - ob_price (last os)\<bar> * 10000 div ob_price (last os)
       then (\<forall>b q. read_observations b q s' = read_observations b q s)
          \<and> (\<forall>cs t. (\<forall>e'. (e', CReset) \<notin> set cs) \<longrightarrow> oracle_run cs s' = Ok t \<longrightarrow>
                (\<forall>b q e' w. read_observations b q t = read_observations b q s
                  \<and> consult e' b q w t = Err CircuitBreakerTripped))
       else (\<exists>ob. ob_time ob = ts \<and> ob_price ob = price
          \<and> read_observations base quote s' = (if length os < 64 then os @ [ob] else tl os @ [ob])
          \<and> n = length (read_observations base quote s') \<and> n \<le> 64
          \<and> (\<forall>b q. (b, q) \<noteq> (base, quote) \<longrightarrow> read_observations b q s' = read_observations b q s)
          \<and> is_circuit_breaker_tripped s' = is_circuit_breaker_tripped s))"
proof -
  have h: "history_ok os"
    using oracle_steps_inv [OF assms(1) fresh_oracle_inv] assms(3) by (auto simp: oracle_inv_def)
  have len: "length os \<le> 64" using h by (simp add: history_ok_def MAX_OBSERVATIONS_def)
  have dev: "\<bar>price - ob_price (last os)\<bar> * TW_BPS_DIVISOR sdiv ob_price (last os)
      = \<bar>price - ob_price (last os)\<bar> * 10000 div ob_price (last os)" if "os \<noteq> []"
  proof -
    have "last os \<in> set os" using that by simp
    then have "0 < ob_price (last os)" using h by (auto simp: history_ok_def)
    then show ?thesis by (simp add: TW_BPS_DIVISOR_def sdiv_nonneg)
  qed
  note g = observe_guards [OF assms(2)]
  from observe_effect [OF assms(2), unfolded assms(3)] show ?thesis
  proof (elim disjE exE conjE)
    fix ev
    assume *: "os \<noteq> []" "ob_time (last os) + MIN_INTERVAL_SECONDS \<le> ts"
      "int (max_single_update_dev_bps s) < \<bar>price - ob_price (last os)\<bar> * TW_BPS_DIVISOR sdiv ob_price (last os)"
      "s' = s\<lparr>twBreaker := Some True, twEvents := twEvents s @ [ev]\<rparr>"
    have tripped: "is_circuit_breaker_tripped s'" by (simp add: *(4) is_circuit_breaker_tripped_def)
    have same: "read_observations b q s' = read_observations b q s" for b q by (simp add: *(4))
    note tripped_refuses [of s' s, OF tripped same]
    then show ?thesis using g *(1,2) *(3) [unfolded dev [OF *(1)]] same
      by (simp add: MIN_INTERVAL_SECONDS_def)
  next
    fix ob logs'
    assume *: "ob_time ob = ts" "ob_price ob = price"
      "os \<noteq> [] \<longrightarrow> ob_time (last os) + MIN_INTERVAL_SECONDS \<le> ts
          \<and> \<bar>price - ob_price (last os)\<bar> * TW_BPS_DIVISOR sdiv ob_price (last os) \<le> int (max_single_update_dev_bps s)
          \<and> ob_cumulative ob = ob_cumulative (last os)
              + u256_of_i128 (ob_price (last os)) * u256_of_u64 (ts - ob_time (last os))"
      "n = length (append_pruned os ob (length os + 1 > MAX_OBSERVATIONS))"
      "s' = s\<lparr>twPair := (twPair s)((base, quote) \<mapsto> append_pruned os ob (length os + 1 > MAX_OBSERVATIONS)),
          twLogs := (twLogs s)((base, quote) \<mapsto> logs')\<rparr>"
    have "\<exists>ob. ob_time ob = ts \<and> ob_price ob = price
        \<and> read_observations base quote s' = (if length os < 64 then os @ [ob] else tl os @ [ob])
        \<and> n = length (read_observations base quote s') \<and> n \<le> 64
        \<and> (\<forall>b q. (b, q) \<noteq> (base, quote) \<longrightarrow> read_observations b q s' = read_observations b q s)
        \<and> is_circuit_breaker_tripped s' = is_circuit_breaker_tripped s"
      using *(1,2) append_pruned_effect [OF len assms(3) *(4,5)] by blast
    moreover have quiet: "\<not> (os \<noteq> [] \<and> int (max_single_update_dev_bps s)
        < \<bar>price - ob_price (last os)\<bar> * 10000 div ob_price (last os))"
      using *(3) dev by fastforce
    moreover have "os \<noteq> [] \<longrightarrow> ob_time (last os) + 60 \<le> ts"
      using *(3) by (simp add: MIN_INTERVAL_SECONDS_def)
    ultimately show ?thesis using g unfolding if_not_P [OF quiet] by (intro conjI)
  qed
qed

lemma oracle_sample_prefix: "oracle_steps fresh_oracle (oracle_after [ob1, ob2] [lo1, lo2])"
proof -
  have "twap_exec (oracle_env 0) (CInitialize 1) fresh_oracle = Ok (fresh_oracle\<lparr>twAdmin := Some 1\<rparr>)"
    by (simp add: twap_initialize_def require_auth_def oracle_sample_defs)
  from oracle_steps.call [OF oracle_steps.start this] oracle_sample_calls(1,2) show ?thesis
    by (blast intro: oracle_steps.call)
qed

theorem observation_or_breaker_witness:
  "\<exists>n s'. observe (oracle_env 1200) 2 3 200 1200 (oracle_after [ob1, ob2] [lo1, lo2]) = Ok (n, s')
     \<and> read_observations 2 3 s' = [ob1, ob2]
     \<and> consult (oracle_env 1300) 2 3 50 s' = Err CircuitBreakerTripped"
proof -
  let ?s = "oracle_after [ob1, ob2] [lo1, lo2]"
  have os: "read_observations 2 3 ?s = [ob1, ob2]" by (simp add: read_observations_def oracle_after_def)
  obtain n s' where run: "observe (oracle_env 1200) 2 3 200 1200 ?s = Ok (n, s')"
    by (simp add: oracle_sample_defs observe_def twap_read_admin_def require_auth_def
      is_circuit_breaker_tripped_def read_observations_def read_cumulative_logs_def Let_def const_defs
      arith_defs i128_ok_def sdiv_nonneg max_single_update_dev_bps_def)
  have "max_single_update_dev_bps ?s = 1000"
    by (simp add: max_single_update_dev_bps_def oracle_sample_defs const_defs)
  then have big: "[ob1, ob2] \<noteq> [] \<and> int (max_single_update_dev_bps ?s)
      < \<bar>200 - ob_price (last [ob1, ob2])\<bar> * 10000 div ob_price (last [ob1, ob2])"
    by (simp add: ob2_def)
  have "(\<forall>b q. read_observations b q s' = read_observations b q ?s)
      \<and> (\<forall>cs t. (\<forall>e'. (e', CReset) \<notin> set cs) \<longrightarrow> oracle_run cs s' = Ok t \<longrightarrow>
            (\<forall>b q (e' :: host) w. read_observations b q t = read_observations b q ?s
              \<and> consult e' b q w t = Err CircuitBreakerTripped))"
    using observation_or_breaker [OF oracle_sample_prefix run os] unfolding if_P [OF big] by blast
  then have "read_observations 2 3 s' = [ob1, ob2]"
    "consult (oracle_env 1300) 2 3 50 s' = Err CircuitBreakerTripped"
    using os oracle_run.simps(1) [of s'] by (auto dest!: spec [of _ "[]"])
  with run show ?thesis by blast
qed

section \<open>The logarithm\<close>

lemma ilog2_bounds: "0 < n \<Longrightarrow> 2 ^ ilog2 n \<le> n \<and> n < 2 ^ Suc (ilog2 n)"
proof (induction n rule: ilog2.induct)
  case (1 n)
  show ?case
  proof (cases "n < 2")
    case True
    with 1 show ?thesis by (simp add: ilog2.simps [of n])
  next
    case False
    then have i: "ilog2 n = Suc (ilog2 (n div 2))" by (simp add: ilog2.simps [of n])
    from 1(1) [OF False] False have "2 ^ ilog2 (n div 2) \<le> n div 2 \<and> n div 2 < 2 ^ Suc (ilog2 (n div 2))"
      by simp
    then show ?thesis unfolding i power_Suc by linarith
  qed
qed

lemma or_new_bit: "(F * 2 ^ Suc m) OR 2 ^ m = (2 * F + 1) * (2 ^ m :: nat)"
proof -
  have "F * 2 ^ Suc m = push_bit m (2 * F)" "(2::nat) ^ m = push_bit m 1"
    by (simp_all add: push_bit_eq_mult)
  then have "(F * 2 ^ Suc m) OR 2 ^ m = push_bit m (2 * F OR 1)" by (simp only: push_bit_or)
  also have "2 * F OR 1 = 2 * F + 1" by (simp add: or_Suc_0_eq)
  finally show ?thesis by (simp add: push_bit_eq_mult)
qed

text \<open>After \<open>j\<close> of the bits the fraction is \<open>F\<close> and the remaining factor \<open>n\<close>, both never overestimated.\<close>

definition log_invariant :: "nat \<Rightarrow> nat \<Rightarrow> nat \<Rightarrow> nat \<Rightarrow> bool" where
  "log_invariant n0 j F n \<longleftrightarrow> F < 2 ^ j \<and> 2 ^ 63 \<le> n \<and> n < 2 ^ 64
     \<and> 2 ^ F * n * (2 ^ 63) ^ (2 ^ j) \<le> n0 ^ (2 ^ j) * 2 ^ 63"

lemma log_square:
  fixes a b c :: nat
  assumes "a * n * b \<le> c * 2 ^ 63"
  shows "a\<^sup>2 * (n * n div 2 ^ 63) * b\<^sup>2 \<le> c\<^sup>2 * 2 ^ 63"
proof -
  have "(n * n div 2 ^ 63) * 2 ^ 63 \<le> n * n" by (rule div_times_less_eq_dividend)
  then have "a\<^sup>2 * b\<^sup>2 * ((n * n div 2 ^ 63) * 2 ^ 63) \<le> a\<^sup>2 * b\<^sup>2 * (n * n)" by (rule mult_le_mono2)
  also have "\<dots> = (a * n * b)\<^sup>2" by (simp add: power2_eq_square algebra_simps)
  also have "\<dots> \<le> (c * 2 ^ 63)\<^sup>2" using assms by (rule power_mono) simp
  also have "\<dots> = c\<^sup>2 * 2 ^ 63 * 2 ^ 63" by (simp add: power2_eq_square algebra_simps)
  finally show ?thesis by (simp add: mult.assoc mult.left_commute mult.commute)
qed

lemma log_step:
  assumes "log_invariant n0 j F n"
  defines "q \<equiv> n * n div 2 ^ 63"
  shows "n * n < 2 ^ 128"
    "2 ^ 64 \<le> q \<Longrightarrow> log_invariant n0 (Suc j) (2 * F + 1) (q div 2)"
    "q < 2 ^ 64 \<Longrightarrow> log_invariant n0 (Suc j) (2 * F) q"
proof -
  from assms(1) have n: "2 ^ 63 \<le> n" "n < 2 ^ 64" and F: "F < 2 ^ j"
    and le: "2 ^ F * n * (2 ^ 63) ^ (2 ^ j) \<le> n0 ^ (2 ^ j) * 2 ^ 63"
    by (simp_all only: log_invariant_def)
  have "n * n < 2 ^ 64 * 2 ^ 64" using n(2) by (intro mult_strict_mono) simp_all
  then show sq: "n * n < 2 ^ 128" by simp
  have "2 ^ 63 * 2 ^ 63 \<le> n * n" using n(1) by (intro mult_le_mono)
  then have q: "2 ^ 63 \<le> q" "q < 2 ^ 65" unfolding q_def using sq by (simp_all add: less_mult_imp_div_less)
  have two: "(2::nat) ^ Suc j = 2 ^ j * 2" by simp
  from log_square [OF le]
  have sqle: "2 ^ (2 * F) * q * (2 ^ 63) ^ (2 ^ Suc j) \<le> n0 ^ (2 ^ Suc j) * 2 ^ 63"
    unfolding two power_mult q_def by (simp only: power_mult [symmetric] mult.commute [of F 2])
  show "log_invariant n0 (Suc j) (2 * F) q" if "q < 2 ^ 64"
    using that q F sqle by (simp add: log_invariant_def)
  show "log_invariant n0 (Suc j) (2 * F + 1) (q div 2)" if "2 ^ 64 \<le> q"
  proof -
    have "2 ^ (2 * F + 1) * (q div 2) = 2 ^ (2 * F) * (2 * (q div 2))" by simp
    also have "\<dots> \<le> 2 ^ (2 * F) * q" by (intro mult_le_mono2) simp
    finally have "2 ^ (2 * F + 1) * (q div 2) * (2 ^ 63) ^ (2 ^ Suc j) \<le> 2 ^ (2 * F) * q * (2 ^ 63) ^ (2 ^ Suc j)"
      by (rule mult_le_mono1)
    from this sqle have "2 ^ (2 * F + 1) * (q div 2) * (2 ^ 63) ^ (2 ^ Suc j) \<le> n0 ^ (2 ^ Suc j) * 2 ^ 63"
      by (rule le_trans)
    moreover have "2 ^ 63 \<le> q div 2" "q div 2 < 2 ^ 64" using that q(2) by simp_all
    moreover have "2 * F + 1 < 2 ^ Suc j" using F by simp
    ultimately show ?thesis unfolding log_invariant_def by blast
  qed
qed

lemma log2_loop_invariant:
  "k \<le> 32 \<Longrightarrow> log_invariant n0 (32 - k) F n \<Longrightarrow>
     \<exists>F' n'. log2_loop k n (F * 2 ^ (32 + k)) = Ok (F' * 2 ^ 32) \<and> log_invariant n0 32 F' n'"
proof (induction k arbitrary: F n)
  case 0
  then show ?case by (intro exI [of _ F] exI [of _ n]) simp
next
  case (Suc k)
  let ?j = "32 - Suc k"
  let ?q = "n * n div 2 ^ 63"
  note st = log_step [OF Suc.prems(2)]
  have k: "k \<le> 32" and j: "Suc ?j = 32 - k" using Suc.prems(1) by simp_all
  have place: "63 - (31 - k) = 32 + k" using Suc.prems(1) by simp
  have bit: "(F * 2 ^ (32 + Suc k)) OR 2 ^ (32 + k) = (2 * F + 1) * 2 ^ (32 + k)"
    using or_new_bit [of F "32 + k"] by simp
  have zero: "F * 2 ^ (32 + Suc k) = (2 * F) * 2 ^ (32 + k)"
    unfolding add_Suc_right power_Suc by (simp only: mult.assoc mult.left_commute mult.commute)
  show ?case
  proof (cases "2 ^ 64 \<le> ?q")
    case True
    from Suc.IH [OF k st(2) [OF True, unfolded j]] st(1) True show ?thesis
      by (simp only: log2_loop.simps Let_def if_True place bit)
  next
    case False
    then have "?q < 2 ^ 64" by simp
    from Suc.IH [OF k st(3) [OF this, unfolded j]] st(1) False show ?thesis
      by (simp only: log2_loop.simps Let_def if_True if_False zero)
  qed
qed

lemma log_normalized:
  assumes "0 < u" "u < 2 ^ 127"
  defines "h \<equiv> ilog2 u"
  defines "n0 \<equiv> if h \<ge> 63 then u div 2 ^ (h - 63) else u * 2 ^ (63 - h) mod 2 ^ 128"
  shows "h \<le> 126" "2 ^ 63 \<le> n0" "n0 < 2 ^ 64" "n0 ^ e * 2 ^ (h * e) \<le> u ^ e * (2 ^ 63) ^ e"
proof -
  have b: "2 ^ h \<le> u" "u < 2 ^ Suc h" using ilog2_bounds [OF assms(1)] by (simp_all add: h_def)
  have "(2::nat) ^ h < 2 ^ 127" by (rule le_less_trans [OF b(1) assms(2)])
  then have "h < 127" by (rule power_less_imp_less_exp [rotated]) simp
  then show h: "h \<le> 126" by simp
  have "2 ^ 63 \<le> n0 \<and> n0 < 2 ^ 64 \<and> n0 * 2 ^ h \<le> u * 2 ^ 63"
  proof (cases "63 \<le> h")
    case True
    then have n0: "n0 = u div 2 ^ (h - 63)" by (simp add: n0_def)
    have split: "(2::nat) ^ h = 2 ^ 63 * 2 ^ (h - 63)" "(2::nat) ^ Suc h = 2 ^ 64 * 2 ^ (h - 63)"
      using True by (simp_all only: power_add [symmetric]) simp_all
    have "2 ^ 63 \<le> n0" using b(1) unfolding n0 split by (simp add: less_eq_div_iff_mult_less_eq)
    moreover have "n0 < 2 ^ 64" using b(2) unfolding n0 split by (rule less_mult_imp_div_less)
    moreover have "n0 * 2 ^ (h - 63) \<le> u" by (simp only: n0) (rule div_times_less_eq_dividend)
    then have "n0 * 2 ^ h \<le> u * 2 ^ 63" by (simp add: split)
    ultimately show ?thesis by blast
  next
    case False
    have "u * 2 ^ (63 - h) < 2 ^ Suc h * 2 ^ (63 - h)" using b(2) by (intro mult_strict_right_mono) simp_all
    also have "\<dots> = (2::nat) ^ 64" using False by (simp flip: power_add)
    finally have lt: "u * 2 ^ (63 - h) < 2 ^ 64" .
    then have "u * 2 ^ (63 - h) < 2 ^ 128" by simp
    then have n0: "n0 = u * 2 ^ (63 - h)" using False by (simp add: n0_def)
    have "2 ^ h * 2 ^ (63 - h) \<le> u * 2 ^ (63 - h)" using b(1) by simp
    then have "2 ^ 63 \<le> u * 2 ^ (63 - h)" using False by (simp flip: power_add)
    moreover have "u * 2 ^ (63 - h) * 2 ^ h = u * 2 ^ 63"
      using False by (simp add: mult.assoc flip: power_add)
    ultimately show ?thesis using lt unfolding n0 by (metis order_refl)
  qed
  then show "2 ^ 63 \<le> n0" "n0 < 2 ^ 64" "n0 ^ e * 2 ^ (h * e) \<le> u ^ e * (2 ^ 63) ^ e"
    using power_mono [of "n0 * 2 ^ h" "u * 2 ^ 63" e] by (simp_all add: power_mult_distrib power_mult)
qed

text \<open>The exponent that clears the denominators; kept folded so that nothing evaluates the powers.\<close>

definition log_scale :: nat where "log_scale = 2 ^ 32"

lemma log2_q64_value:
  assumes "0 < v" "v < 2 ^ 127"
  obtains F where "log2_q64 v = Ok (int (ilog2 (nat v)) * 2 ^ 64 + int F * 2 ^ 32)" "F < 2 ^ 32"
    "2 ^ (ilog2 (nat v) * log_scale + F) \<le> nat v ^ log_scale"
proof -
  define u where "u = nat v"
  define h where "h = ilog2 u"
  define n0 where "n0 = (if h \<ge> 63 then u div 2 ^ (h - 63) else u * 2 ^ (63 - h) mod 2 ^ 128)"
  have u: "0 < u" "u < 2 ^ 127" using assms by (simp_all add: u_def nat_less_iff)
  note nm = log_normalized [OF u, folded h_def, folded n0_def]
  have "log_invariant n0 (32 - 32) 0 n0" using nm(2,3) by (simp add: log_invariant_def)
  from log2_loop_invariant [OF order_refl this] obtain F n where
    loop: "log2_loop 32 n0 0 = Ok (F * 2 ^ 32)" and inv: "log_invariant n0 32 F n"
    by auto
  from inv have F: "F < 2 ^ 32" and n: "2 ^ 63 \<le> n"
    and le: "2 ^ F * n * (2 ^ 63) ^ log_scale \<le> n0 ^ log_scale * 2 ^ 63"
    by (simp_all only: log_invariant_def log_scale_def)
  have "int F * 2 ^ 32 < 2 ^ 64" using F by simp
  moreover have "int h * 2 ^ 64 \<le> 126 * 2 ^ 64" using nm(1) by simp
  ultimately have run: "log2_q64 v = Ok (int h * 2 ^ 64 + int F * 2 ^ 32)"
    using assms(1) loop
    unfolding log2_q64_def u_def [symmetric] Let_def h_def [symmetric] n0_def [symmetric]
    by (simp add: i128_checked_mul_def i128_checked_add_def i128_ok_def Q64_def)
  have "2 ^ F * (2 ^ 63) ^ log_scale * 2 ^ 63 \<le> 2 ^ F * n * (2 ^ 63) ^ log_scale"
    using mult_le_mono2 [OF n, of "2 ^ F * (2 ^ 63) ^ log_scale"]
    by (simp only: mult.assoc mult.commute mult.left_commute)
  from this le have "2 ^ F * (2 ^ 63) ^ log_scale * 2 ^ 63 \<le> n0 ^ log_scale * 2 ^ 63" by (rule le_trans)
  then have "2 ^ F * (2 ^ 63) ^ log_scale \<le> n0 ^ log_scale" by (simp only: mult_le_cancel2) simp
  then have "2 ^ F * (2 ^ 63) ^ log_scale * 2 ^ (h * log_scale) \<le> n0 ^ log_scale * 2 ^ (h * log_scale)"
    by (rule mult_le_mono1)
  from this nm(4) have "2 ^ F * (2 ^ 63) ^ log_scale * 2 ^ (h * log_scale) \<le> u ^ log_scale * (2 ^ 63) ^ log_scale"
    by (rule le_trans)
  then have "(2 ^ F * 2 ^ (h * log_scale)) * (2 ^ 63) ^ log_scale \<le> u ^ log_scale * (2 ^ 63) ^ log_scale"
    by (simp only: mult.assoc mult.commute mult.left_commute)
  then have "2 ^ F * 2 ^ (h * log_scale) \<le> u ^ log_scale" by (simp only: mult_le_cancel2) simp
  then have "2 ^ (h * log_scale + F) \<le> u ^ log_scale" by (simp only: power_add mult.commute)
  with run F show thesis by (intro that) (simp_all only: h_def u_def)
qed

text \<open>The fixed-point logarithm is total and never overestimates: for every positive \<open>i128\<close> it
  returns a multiple of \<open>2 ^ 32\<close> (a fraction of \<open>2 ^ 64\<close>) whose whole part is the position of the
  highest bit, and \<open>2\<close> to that value is at most the argument (stated without roots: with both sides
  raised to the power \<open>2 ^ 32\<close>); every other argument is \<open>InvalidPrice\<close>.\<close>

theorem log2_lower_bound:
  shows "(0 < v \<and> v < 2 ^ 127 \<longrightarrow>
      (\<exists>r g. log2_q64 v = Ok r \<and> r = int g * 2 ^ 32
        \<and> int (ilog2 (nat v)) * 2 ^ 64 \<le> r \<and> r < (int (ilog2 (nat v)) + 1) * 2 ^ 64
        \<and> 2 ^ ilog2 (nat v) \<le> nat v \<and> nat v < 2 ^ Suc (ilog2 (nat v))
        \<and> 2 ^ g \<le> nat v ^ log_scale))
    \<and> (v \<le> 0 \<longrightarrow> log2_q64 v = Err InvalidPrice)"
proof -
  have "\<exists>r g. log2_q64 v = Ok r \<and> r = int g * 2 ^ 32
        \<and> int (ilog2 (nat v)) * 2 ^ 64 \<le> r \<and> r < (int (ilog2 (nat v)) + 1) * 2 ^ 64
        \<and> 2 ^ ilog2 (nat v) \<le> nat v \<and> nat v < 2 ^ Suc (ilog2 (nat v))
        \<and> 2 ^ g \<le> nat v ^ log_scale" if "0 < v" "v < 2 ^ 127"
    using that
  proof (rule log2_q64_value)
    fix F
    assume *: "log2_q64 v = Ok (int (ilog2 (nat v)) * 2 ^ 64 + int F * 2 ^ 32)" "F < 2 ^ 32"
      "2 ^ (ilog2 (nat v) * log_scale + F) \<le> nat v ^ log_scale"
    have "int (ilog2 (nat v)) * 2 ^ 64 + int F * 2 ^ 32 = int (ilog2 (nat v) * log_scale + F) * 2 ^ 32"
      by (simp add: log_scale_def algebra_simps)
    moreover have "int (ilog2 (nat v)) * 2 ^ 64 \<le> int (ilog2 (nat v)) * 2 ^ 64 + int F * 2 ^ 32"
      "int (ilog2 (nat v)) * 2 ^ 64 + int F * 2 ^ 32 < (int (ilog2 (nat v)) + 1) * 2 ^ 64"
      using *(2) by simp_all
    moreover have "2 ^ ilog2 (nat v) \<le> nat v \<and> nat v < 2 ^ Suc (ilog2 (nat v))"
      using ilog2_bounds [of "nat v"] that(1) by simp
    ultimately show ?thesis using *(1,3) by blast
  qed
  then show ?thesis by (simp add: log2_q64_def)
qed

theorem log2_lower_bound_witness:
  "\<exists>r. log2_q64 136 = Ok r \<and> 7 * 2 ^ 64 \<le> r \<and> r < 8 * 2 ^ 64"
  using log2_lower_bound [of 136] by (auto simp: ilog2_sample)

end
