(* ===== verification/Payment_Proxy.thy ===== *)
theory Payment_Proxy
  imports Sample_World
begin

text \<open>
  The payment proxy (\<open>payment_proxy/src/lib.rs\<close>): a stable address that forwards calls to an
  upgradeable logic contract, caps what session keys spend through it, and settles
  meta-transactions. The logic contract is a parameter; so are the XDR encodings. The payload
  types \<open>Payment\<close> and \<open>SwapPayment\<close> have the wire shape of the router's.
\<close>

section \<open>Data\<close>

datatype proxy_error =
    PxAlreadyInitialized | PxNotInitialized | PxUnauthorized | SameLogicAddress | PxInvalidNonce
  | PxDeadlineExpired | PxInvalidAmount | InvalidFee | MathOverflow | PxInsufficientBalance
  | InsufficientAllowance | PxInvalidSignature | InvalidSessionAllowance | SessionExpired
  | SessionAllowanceExceeded | UnsupportedSessionCall

definition proxy_error_code :: "proxy_error \<Rightarrow> nat" where
  "proxy_error_code x = (case x of
     PxAlreadyInitialized \<Rightarrow> 1 | PxNotInitialized \<Rightarrow> 2 | PxUnauthorized \<Rightarrow> 3 | SameLogicAddress \<Rightarrow> 4
   | PxInvalidNonce \<Rightarrow> 5 | PxDeadlineExpired \<Rightarrow> 6 | PxInvalidAmount \<Rightarrow> 7 | InvalidFee \<Rightarrow> 8
   | MathOverflow \<Rightarrow> 9 | PxInsufficientBalance \<Rightarrow> 10 | InsufficientAllowance \<Rightarrow> 11
   | PxInvalidSignature \<Rightarrow> 12 | InvalidSessionAllowance \<Rightarrow> 13 | SessionExpired \<Rightarrow> 14
   | SessionAllowanceExceeded \<Rightarrow> 15 | UnsupportedSessionCall \<Rightarrow> 16)"

record DomainSeparator =
  contract_id :: address
  ds_network_id :: bytes
  ds_version :: string

record PaymentIntent =
  in_from :: address
  in_to :: address
  in_amount :: int
  in_nonce :: nat
  in_fee :: int
  in_deadline :: nat

record MetaTxCall =
  mc_signer_pubkey :: bytes
  mc_intent :: PaymentIntent
  mc_signature :: bytes

record SessionAllowance =
  remaining :: int
  valid_until :: nat

record MetaPayment =
  mp_nonce :: nat
  mp_deadline :: nat
  mp_sender :: address
  mp_recipient :: address
  mp_token :: address
  mp_amount :: int
  mp_fee :: int
  mp_fee_recipient :: address

text \<open>
  The dynamically typed values of a forwarded call. \<open>Vec<T>::try_from_val\<close> of the SDK accepts any
  vector and converts an element when the iteration reaches it, trapping if it has another type.
\<close>

datatype sval =
    VVoid | VAddress address | VI128 int | VU64 nat | VBytes bytes | VPayment Payment
  | VSwapPayment SwapPayment | VVec "sval list"

record 'w proxy_env = "'w token_host" +
  network_id :: bytes
  xdr_domain :: "DomainSeparator \<Rightarrow> bytes"
  xdr_intent :: "PaymentIntent \<Rightarrow> bytes"
  xdr_meta :: "MetaPayment \<Rightarrow> bytes"
  px_xdr_address :: "address \<Rightarrow> bytes"
  logic_call :: "address \<Rightarrow> string \<Rightarrow> sval list \<Rightarrow> 'w \<Rightarrow> (sval \<times> 'w) option"

record 'w proxy =
  pxAdmin :: "address option"
  pxLogic :: "address option"
  pxSession :: "address \<Rightarrow> SessionAllowance option"
  pxMetaNonce :: "address \<Rightarrow> nat option"
  pxNonce :: "address \<Rightarrow> nat option"
  pxWorld :: 'w
  pxEvents :: "event list"

type_synonym ('w, 'a) pres = "(proxy_error, 'a \<times> 'w proxy) outcome"

definition px_emit :: "string \<Rightarrow> evarg list \<Rightarrow> 'w proxy \<Rightarrow> 'w proxy" where
  [simp]: "px_emit topic args s = s\<lparr>pxEvents := pxEvents s @ [Event topic args]\<rparr>"

section \<open>Administration\<close>

definition proxy_initialize :: "'w proxy_env \<Rightarrow> address \<Rightarrow> address \<Rightarrow> 'w proxy \<Rightarrow> ('w, unit) pres" where
  "proxy_initialize e admin logic_contract s =
     (if pxAdmin s \<noteq> None then Err PxAlreadyInitialized
      else
        bnd (require_auth e admin) (\<lambda>_.
        Ok ((), px_emit ''px_init'' [AddrArg admin, AddrArg logic_contract]
          (s\<lparr>pxAdmin := Some admin, pxLogic := Some logic_contract\<rparr>))))"

definition assert_admin :: "'w proxy_env \<Rightarrow> address \<Rightarrow> 'w proxy \<Rightarrow> (proxy_error, unit) outcome" where
  "assert_admin e caller s =
     bnd (ok_or PxNotInitialized (pxAdmin s)) (\<lambda>stored.
     if stored \<noteq> caller then Err PxUnauthorized else require_auth e caller)"

definition upgrade_logic :: "'w proxy_env \<Rightarrow> address \<Rightarrow> address \<Rightarrow> 'w proxy \<Rightarrow> ('w, unit) pres" where
  "upgrade_logic e admin new_logic_contract s =
     bnd (assert_admin e admin s) (\<lambda>_.
     bnd (ok_or PxNotInitialized (pxLogic s)) (\<lambda>current.
     if current = new_logic_contract then Err SameLogicAddress
     else Ok ((), px_emit ''UpgradedLogic'' [AddrArg admin, AddrArg current, AddrArg new_logic_contract]
       (s\<lparr>pxLogic := Some new_logic_contract\<rparr>))))"

definition proxy_transfer_admin :: "'w proxy_env \<Rightarrow> address \<Rightarrow> address \<Rightarrow> 'w proxy \<Rightarrow> ('w, unit) pres" where
  "proxy_transfer_admin e admin new_admin s =
     bnd (assert_admin e admin s) (\<lambda>_.
     Ok ((), px_emit ''AdminTransfer'' [AddrArg admin, AddrArg new_admin] (s\<lparr>pxAdmin := Some new_admin\<rparr>)))"

section \<open>Session keys and forwarding\<close>

definition authorize_session_key ::
    "'w proxy_env \<Rightarrow> address \<Rightarrow> int \<Rightarrow> nat \<Rightarrow> 'w proxy \<Rightarrow> ('w, unit) pres" where
  "authorize_session_key e session_key spending_limit until s =
     bnd (require_auth e session_key) (\<lambda>_.
     if spending_limit \<le> 0 \<or> until \<le> now e then Err InvalidSessionAllowance
     else Ok ((), px_emit ''SessionKeyAuthorized'' [AddrArg session_key, IntArg spending_limit, NatArg until]
       (s\<lparr>pxSession := (pxSession s)(session_key \<mapsto> \<lparr>remaining = spending_limit, valid_until = until\<rparr>)\<rparr>)))"

definition get_session_allowance :: "address \<Rightarrow> 'w proxy \<Rightarrow> (proxy_error, SessionAllowance) outcome" where
  "get_session_allowance session_key s = ok_or PxNotInitialized (pxSession s session_key)"

definition charge_if_session ::
    "'w proxy_env \<Rightarrow> address \<Rightarrow> int \<Rightarrow> 'w proxy \<Rightarrow> (proxy_error, 'w proxy) outcome" where
  "charge_if_session e sender amount s =
     (case pxSession s sender of
        None \<Rightarrow> Ok s
      | Some allowance \<Rightarrow>
          if now e \<ge> valid_until allowance then Err SessionExpired
          else if amount \<le> 0 \<or> amount > remaining allowance then Err SessionAllowanceExceeded
          else
            bnd (i128_sub (remaining allowance) amount) (\<lambda>rest.
            Ok (s\<lparr>pxSession := (pxSession s)(sender \<mapsto> allowance\<lparr>remaining := rest\<rparr>)\<rparr>)))"

definition arg_at :: "sval list \<Rightarrow> nat \<Rightarrow> sval option" where
  "arg_at args i = (if i < length args then Some (args ! i) else None)"

definition address_arg :: "sval list \<Rightarrow> nat \<Rightarrow> (proxy_error, address) outcome" where
  "address_arg args i =
     (case arg_at args i of Some (VAddress a) \<Rightarrow> Ok a | _ \<Rightarrow> Err UnsupportedSessionCall)"

definition amount_arg :: "sval list \<Rightarrow> nat \<Rightarrow> (proxy_error, int) outcome" where
  "amount_arg args i = (case arg_at args i of Some (VI128 a) \<Rightarrow> Ok a | _ \<Rightarrow> Err UnsupportedSessionCall)"

definition vec_arg :: "sval list \<Rightarrow> (proxy_error, sval list) outcome" where
  "vec_arg args = (case arg_at args 0 of Some (VVec vs) \<Rightarrow> Ok vs | _ \<Rightarrow> Err UnsupportedSessionCall)"

definition swap_arg :: "sval list \<Rightarrow> (proxy_error, SwapPayment) outcome" where
  "swap_arg args = (case arg_at args 0 of Some (VSwapPayment p) \<Rightarrow> Ok p | _ \<Rightarrow> Err UnsupportedSessionCall)"

fun charge_payments ::
    "'w proxy_env \<Rightarrow> sval list \<Rightarrow> 'w proxy \<Rightarrow> (proxy_error, 'w proxy) outcome" where
  "charge_payments e [] s = Ok s"
| "charge_payments e (v # vs) s =
     (case v of
        VPayment p \<Rightarrow> bnd (charge_if_session e (p_sender p) (p_amount p) s) (charge_payments e vs)
      | _ \<Rightarrow> Trap)"

fun charge_swaps ::
    "'w proxy_env \<Rightarrow> sval list \<Rightarrow> 'w proxy \<Rightarrow> (proxy_error, 'w proxy) outcome" where
  "charge_swaps e [] s = Ok s"
| "charge_swaps e (v # vs) s =
     (case v of
        VSwapPayment p \<Rightarrow> bnd (charge_if_session e (sw_sender p) (sw_amount_in p) s) (charge_swaps e vs)
      | _ \<Rightarrow> Trap)"

definition charge_args ::
    "'w proxy_env \<Rightarrow> sval list \<Rightarrow> nat \<Rightarrow> nat \<Rightarrow> 'w proxy \<Rightarrow> (proxy_error, 'w proxy) outcome" where
  "charge_args e args i j s =
     bnd (address_arg args i) (\<lambda>sender. bnd (amount_arg args j) (\<lambda>amount.
     charge_if_session e sender amount s))"

definition charge_session_allowance ::
    "'w proxy_env \<Rightarrow> string \<Rightarrow> sval list \<Rightarrow> 'w proxy \<Rightarrow> (proxy_error, 'w proxy) outcome" where
  "charge_session_allowance e func args s =
     (if func = ''route_payment'' then charge_args e args 0 3 s
      else if func = ''route_payments'' then bnd (vec_arg args) (\<lambda>vs. charge_payments e vs s)
      else if func = ''route_payment_meta'' then charge_args e args 0 4 s
      else if func = ''route_payment_with_swap_raw'' then charge_args e args 0 5 s
      else if func = ''route_payment_with_swap'' then
        bnd (swap_arg args) (\<lambda>p. charge_if_session e (sw_sender p) (sw_amount_in p) s)
      else if func = ''route_payments_with_swap'' then bnd (vec_arg args) (\<lambda>vs. charge_swaps e vs s)
      else if func = ''withdraw_refund'' then charge_args e args 0 2 s
      else Ok s)"

definition forward ::
    "'w proxy_env \<Rightarrow> string \<Rightarrow> sval list \<Rightarrow> 'w proxy \<Rightarrow> ('w, sval) pres" where
  "forward e func args s =
     bnd (ok_or PxNotInitialized (pxLogic s)) (\<lambda>logic.
     bnd (charge_session_allowance e func args s) (\<lambda>s1.
     bnd (unwrap (logic_call e logic func args (pxWorld s1))) (\<lambda>(result, w).
     Ok (result, s1\<lparr>pxWorld := w\<rparr>))))"

section \<open>Typed payment intents\<close>

definition get_domain_separator :: "'w proxy_env \<Rightarrow> DomainSeparator" where
  "get_domain_separator e =
     \<lparr>contract_id = self e, ds_network_id = network_id e, ds_version = ''0.1.0''\<rparr>"

definition compute_typed_data_hash ::
    "'w proxy_env \<Rightarrow> DomainSeparator \<Rightarrow> PaymentIntent \<Rightarrow> bytes" where
  "compute_typed_data_hash e domain intent =
     (let domain_hash = sha256 e (xdr_domain e domain); intent_hash = sha256 e (xdr_intent e intent)
      in sha256 e ([0x19, 0x01] @ domain_hash @ intent_hash))"

definition get_nonce :: "address \<Rightarrow> 'w proxy \<Rightarrow> nat" where
  "get_nonce a s = unwrap_or 0 (pxNonce s a)"

definition verify_payment_intent ::
    "'w proxy_env \<Rightarrow> bytes \<Rightarrow> PaymentIntent \<Rightarrow> bytes \<Rightarrow> 'w proxy \<Rightarrow> (proxy_error, unit) outcome" where
  "verify_payment_intent e signer_pubkey intent signature s =
     (if now e > in_deadline intent then Err PxDeadlineExpired
      else if in_nonce intent \<noteq> get_nonce (in_from intent) s then Err PxInvalidNonce
      else
        let digest = compute_typed_data_hash e (get_domain_separator e) intent in
        ed25519_verify e signer_pubkey digest signature)"

definition execute_payment_intent ::
    "'w proxy_env \<Rightarrow> bytes \<Rightarrow> PaymentIntent \<Rightarrow> bytes \<Rightarrow> 'w proxy \<Rightarrow> ('w, unit) pres" where
  "execute_payment_intent e signer_pubkey intent signature s =
     bnd (verify_payment_intent e signer_pubkey intent signature s) (\<lambda>_.
     if \<not> u64_ok (in_nonce intent + 1) then Err PxInvalidNonce
     else Ok ((), px_emit ''PaymentIntentExecuted''
       [AddrArg (in_from intent), AddrArg (in_to intent), IntArg (in_amount intent),
        IntArg (in_fee intent), NatArg (in_nonce intent)]
       (s\<lparr>pxNonce := (pxNonce s)(in_from intent \<mapsto> in_nonce intent + 1)\<rparr>)))"

definition forward_with_meta ::
    "'w proxy_env \<Rightarrow> bytes \<Rightarrow> PaymentIntent \<Rightarrow> bytes \<Rightarrow> string \<Rightarrow> sval list \<Rightarrow> 'w proxy \<Rightarrow> ('w, sval) pres" where
  "forward_with_meta e signer_pubkey intent signature func args s =
     bnd (execute_payment_intent e signer_pubkey intent signature s) (\<lambda>(_, s1).
     forward e func args s1)"

definition execute_single_meta_tx :: "'w proxy_env \<Rightarrow> MetaTxCall \<Rightarrow> 'w proxy \<Rightarrow> ('w, unit) pres" where
  "execute_single_meta_tx e call s =
     execute_payment_intent e (mc_signer_pubkey call) (mc_intent call) (mc_signature call) s"

text \<open>An \<open>Err\<close> of a plain Rust call keeps what the call wrote; every error here precedes the writes.\<close>

fun batch_loop :: "'w proxy_env \<Rightarrow> MetaTxCall list \<Rightarrow> bool list \<Rightarrow> 'w proxy \<Rightarrow> ('w, bool list) pres" where
  "batch_loop e [] results s = Ok (results, s)"
| "batch_loop e (call # calls) results s =
     (case execute_single_meta_tx e call s of
        Ok (_, s1) \<Rightarrow> batch_loop e calls (results @ [True]) s1
      | Err err \<Rightarrow> batch_loop e calls (results @ [False])
          (px_emit ''meta_tx_failed'' [AddrArg (in_from (mc_intent call)), NatArg (proxy_error_code err)] s)
      | Trap \<Rightarrow> Trap)"

definition execute_batch_tolerant :: "'w proxy_env \<Rightarrow> MetaTxCall list \<Rightarrow> 'w proxy \<Rightarrow> ('w, bool list) pres" where
  "execute_batch_tolerant e calls s = batch_loop e calls [] s"

section \<open>Meta-payments\<close>

definition proxy_get_meta_nonce :: "address \<Rightarrow> 'w proxy \<Rightarrow> nat" where
  "proxy_get_meta_nonce user s = unwrap_or 0 (pxMetaNonce s user)"

definition proxy_build_meta_message :: "'w proxy_env \<Rightarrow> MetaPayment \<Rightarrow> bytes \<Rightarrow> bytes" where
  "proxy_build_meta_message e payload signer_pubkey =
     sha256 e (px_xdr_address e (self e) @ xdr_meta e payload @ signer_pubkey)"

definition execute_meta_payment ::
    "'w proxy_env \<Rightarrow> MetaPayment \<Rightarrow> bytes \<Rightarrow> bytes \<Rightarrow> 'w proxy \<Rightarrow> ('w, unit) pres" where
  "execute_meta_payment e payload signer_pubkey signature s =
     (if mp_deadline payload > 0 \<and> now e > mp_deadline payload then Err PxDeadlineExpired
      else if mp_amount payload \<le> 0 then Err PxInvalidAmount
      else if mp_fee payload < 0 then Err InvalidFee
      else
        bnd (ok_or MathOverflow (i128_checked_add (mp_amount payload) (mp_fee payload))) (\<lambda>total_needed.
        if mp_nonce payload \<noteq> proxy_get_meta_nonce (mp_sender payload) s then Err PxInvalidNonce
        else
          bnd (ed25519_verify e signer_pubkey (proxy_build_meta_message e payload signer_pubkey) signature) (\<lambda>_.
          bnd (balance_of e (mp_token payload) (mp_sender payload) (pxWorld s)) (\<lambda>user_balance.
          if user_balance < total_needed then Err PxInsufficientBalance
          else
            bnd (unwrap (tok_allowance e (mp_token payload) (mp_sender payload) (self e) (pxWorld s)))
              (\<lambda>user_allowance.
            if user_allowance < total_needed then Err InsufficientAllowance
            else
              bnd (u64_add (mp_nonce payload) 1) (\<lambda>next_nonce.
              let s1 = s\<lparr>pxMetaNonce := (pxMetaNonce s)(mp_sender payload \<mapsto> next_nonce)\<rparr> in
              bnd (if mp_fee payload > 0 then
                     must (tok_transfer_from e (mp_token payload) (self e) (mp_sender payload)
                       (mp_fee_recipient payload) (mp_fee payload) (pxWorld s1))
                   else Ok (pxWorld s1)) (\<lambda>w1.
              bnd (must (tok_transfer_from e (mp_token payload) (self e) (mp_sender payload)
                     (mp_recipient payload) (mp_amount payload) w1)) (\<lambda>w2.
              Ok ((), px_emit ''meta_payment''
                [AddrArg (mp_sender payload), AddrArg (mp_recipient payload),
                 AddrArg (mp_fee_recipient payload), IntArg (mp_amount payload), IntArg (mp_fee payload),
                 NatArg (mp_nonce payload)] (s1\<lparr>pxWorld := w2\<rparr>))))))))))"

section \<open>Calls and runs\<close>

datatype proxy_call =
    PInitialize address address | PUpgradeLogic address address | PTransferAdmin address address
  | PAuthorize address int nat | PForward string "sval list"
  | PIntent bytes PaymentIntent bytes | PForwardMeta bytes PaymentIntent bytes string "sval list"
  | PBatch "MetaTxCall list" | PMeta MetaPayment bytes bytes

abbreviation done_px :: "('w, 'a) pres \<Rightarrow> (proxy_error, 'w proxy) outcome" where
  "done_px r \<equiv> bnd r (\<lambda>(_, s). Ok s)"

fun proxy_exec :: "'w proxy_env \<Rightarrow> proxy_call \<Rightarrow> 'w proxy \<Rightarrow> (proxy_error, 'w proxy) outcome" where
  "proxy_exec e (PInitialize a l) s = done_px (proxy_initialize e a l s)"
| "proxy_exec e (PUpgradeLogic a l) s = done_px (upgrade_logic e a l s)"
| "proxy_exec e (PTransferAdmin a n) s = done_px (proxy_transfer_admin e a n s)"
| "proxy_exec e (PAuthorize k l v) s = done_px (authorize_session_key e k l v s)"
| "proxy_exec e (PForward f args) s = done_px (forward e f args s)"
| "proxy_exec e (PIntent k i sg) s = done_px (execute_payment_intent e k i sg s)"
| "proxy_exec e (PForwardMeta k i sg f args) s = done_px (forward_with_meta e k i sg f args s)"
| "proxy_exec e (PBatch cs) s = done_px (execute_batch_tolerant e cs s)"
| "proxy_exec e (PMeta p k sg) s = done_px (execute_meta_payment e p k sg s)"

fun proxy_run :: "('w proxy_env \<times> proxy_call) list \<Rightarrow> 'w proxy \<Rightarrow> (proxy_error, 'w proxy) outcome" where
  "proxy_run [] s = Ok s"
| "proxy_run ((e, c) # cs) s = bnd (proxy_exec e c s) (proxy_run cs)"

section \<open>What a forwarded call charges\<close>

text \<open>The (account, amount) pairs a forwarded call presents to the session accounting, in order.\<close>

definition arg_pair :: "sval list \<Rightarrow> nat \<Rightarrow> nat \<Rightarrow> (address \<times> int) list" where
  "arg_pair args i j =
     (case (arg_at args i, arg_at args j) of (Some (VAddress a), Some (VI128 x)) \<Rightarrow> [(a, x)] | _ \<Rightarrow> [])"

definition item_pair :: "sval \<Rightarrow> (address \<times> int) list" where
  "item_pair v = (case v of VPayment p \<Rightarrow> [(p_sender p, p_amount p)]
     | VSwapPayment p \<Rightarrow> [(sw_sender p, sw_amount_in p)] | _ \<Rightarrow> [])"

definition presented :: "string \<Rightarrow> sval list \<Rightarrow> (address \<times> int) list" where
  "presented func args =
     (if func = ''route_payment'' then arg_pair args 0 3
      else if func = ''route_payment_meta'' then arg_pair args 0 4
      else if func = ''route_payment_with_swap_raw'' then arg_pair args 0 5
      else if func = ''withdraw_refund'' then arg_pair args 0 2
      else if func \<in> {''route_payments'', ''route_payments_with_swap''} then
        (case arg_at args 0 of Some (VVec vs) \<Rightarrow> concat (map item_pair vs) | _ \<Rightarrow> [])
      else if func = ''route_payment_with_swap'' then
        (case arg_at args 0 of Some v \<Rightarrow> item_pair v | None \<Rightarrow> [])
      else [])"

definition spend_of :: "address \<Rightarrow> (address \<times> int) list \<Rightarrow> int" where
  "spend_of k items = sum_list (map snd (filter (\<lambda>(a, x). a = k) items))"

fun charge_items ::
    "'w proxy_env \<Rightarrow> (address \<times> int) list \<Rightarrow> 'w proxy \<Rightarrow> (proxy_error, 'w proxy) outcome" where
  "charge_items e [] s = Ok s"
| "charge_items e ((a, x) # items) s = bnd (charge_if_session e a x s) (charge_items e items)"

lemma charge_payments_items:
  "charge_payments e vs s = Ok t \<Longrightarrow> charge_items e (concat (map item_pair vs)) s = Ok t"
  by (induction vs arbitrary: s) (auto simp: item_pair_def outcome_simps split: sval.splits)

lemma charge_swaps_items:
  "charge_swaps e vs s = Ok t \<Longrightarrow> charge_items e (concat (map item_pair vs)) s = Ok t"
  by (induction vs arbitrary: s) (auto simp: item_pair_def outcome_simps split: sval.splits)

lemma charge_args_items: "charge_args e args i j s = Ok t \<Longrightarrow> charge_items e (arg_pair args i j) s = Ok t"
  by (auto simp: charge_args_def address_arg_def amount_arg_def arg_pair_def outcome_simps
      split: option.splits sval.splits)

lemma swap_arg_eq: "(swap_arg args = Ok p) = (arg_at args 0 = Some (VSwapPayment p))"
  by (auto simp: swap_arg_def split: option.splits sval.splits)

lemma charge_session_items:
  assumes "charge_session_allowance e func args s = Ok t"
  shows "charge_items e (presented func args) s = Ok t"
  using assms unfolding charge_session_allowance_def presented_def
  by (auto simp: vec_arg_def swap_arg_eq item_pair_def outcome_simps
      split: if_split_asm option.splits sval.splits
      dest: charge_args_items charge_payments_items charge_swaps_items)

lemma charge_if_session_OkD:
  assumes "charge_if_session e a x s = Ok t"
  shows "t = s\<lparr>pxSession := pxSession t\<rparr>"
    "pxSession s k = None \<Longrightarrow> pxSession t k = None"
    "pxSession s k = Some al \<Longrightarrow> k \<noteq> a \<Longrightarrow> pxSession t k = Some al"
    "pxSession s k = Some al \<Longrightarrow> k = a \<Longrightarrow> now e < valid_until al \<and> 0 < x \<and> x \<le> remaining al
       \<and> pxSession t k = Some (al\<lparr>remaining := remaining al - x\<rparr>)"
  using assms by (auto simp: charge_if_session_def outcome_simps arith_defs split: option.splits if_splits)

lemma charge_items_frame: "charge_items e items s = Ok t \<Longrightarrow> t = s\<lparr>pxSession := pxSession t\<rparr>"
proof (induction items arbitrary: s)
  case (Cons i items)
  obtain a x where i: "i = (a, x)" by (cases i)
  with Cons.prems obtain u where u: "charge_if_session e a x s = Ok u" "charge_items e items u = Ok t"
    by (auto simp: outcome_simps)
  show ?case using Cons.IH [OF u(2)] charge_if_session_OkD(1) [OF u(1)] by (cases s, cases u, cases t) simp
qed simp

lemma charge_items_drawn:
  assumes "charge_items e items s = Ok t" "pxSession s k = Some al" "0 \<le> remaining al"
  shows "0 \<le> spend_of k items" "spend_of k items \<le> remaining al"
    "pxSession t k = Some (al\<lparr>remaining := remaining al - spend_of k items\<rparr>)"
    "k \<in> fst ` set items \<Longrightarrow> now e < valid_until al"
proof -
  have "0 \<le> spend_of k items \<and> spend_of k items \<le> remaining al
      \<and> pxSession t k = Some (al\<lparr>remaining := remaining al - spend_of k items\<rparr>)
      \<and> (k \<in> fst ` set items \<longrightarrow> now e < valid_until al)"
    using assms
  proof (induction items arbitrary: s al)
    case (Cons i items)
    obtain a x where i: "i = (a, x)" by (cases i)
    with Cons.prems obtain u where u: "charge_if_session e a x s = Ok u" "charge_items e items u = Ok t"
      by (auto simp: outcome_simps)
    note d = charge_if_session_OkD [OF u(1)]
    show ?case
    proof (cases "k = a")
      case True
      from d(4) [OF Cons.prems(2) True] Cons.IH [OF u(2), of "al\<lparr>remaining := remaining al - x\<rparr>"]
      show ?thesis by (auto simp: i True spend_of_def algebra_simps)
    next
      case False
      from d(3) [OF Cons.prems(2) False] Cons.IH [OF u(2) _ Cons.prems(3)] False
      show ?thesis by (auto simp: i spend_of_def)
    qed
  qed (simp add: spend_of_def)
  then show "0 \<le> spend_of k items" "spend_of k items \<le> remaining al"
    "pxSession t k = Some (al\<lparr>remaining := remaining al - spend_of k items\<rparr>)"
    "k \<in> fst ` set items \<Longrightarrow> now e < valid_until al"
    by blast+
qed

lemma forward_OkD:
  assumes "forward e func args s = Ok (r, t)"
  obtains logic s1 w where "pxLogic s = Some logic" "charge_session_allowance e func args s = Ok s1"
    "logic_call e logic func args (pxWorld s1) = Some (r, w)" "t = s1\<lparr>pxWorld := w\<rparr>"
  using assms by (auto simp: forward_def outcome_simps)

lemma intent_OkD:
  assumes "execute_payment_intent e key i sg s = Ok (r, t)"
  shows "now e \<le> in_deadline i" "in_nonce i = get_nonce (in_from i) s" "u64_ok (in_nonce i + 1)"
    "ed25519 e key (compute_typed_data_hash e (get_domain_separator e) i) sg"
    "pxNonce t = (pxNonce s)(in_from i \<mapsto> in_nonce i + 1)"
    "pxAdmin t = pxAdmin s \<and> pxLogic t = pxLogic s \<and> pxSession t = pxSession s
       \<and> pxMetaNonce t = pxMetaNonce s \<and> pxWorld t = pxWorld s"
  using assms by (auto simp: execute_payment_intent_def verify_payment_intent_def Let_def outcome_simps)

lemma intent_Err_or_Ok:
  "execute_payment_intent e key i sg s = Err x \<Longrightarrow> x \<in> {PxDeadlineExpired, PxInvalidNonce}"
  by (auto simp: execute_payment_intent_def verify_payment_intent_def Let_def outcome_simps
      split: if_splits)

lemma batch_loop_frame:
  "batch_loop e cs rs s = Ok (r, t) \<Longrightarrow> pxAdmin t = pxAdmin s \<and> pxLogic t = pxLogic s
     \<and> pxSession t = pxSession s \<and> pxMetaNonce t = pxMetaNonce s \<and> pxWorld t = pxWorld s"
proof (induction cs arbitrary: rs s)
  case (Cons c cs)
  show ?case
  proof (cases "execute_single_meta_tx e c s")
    case (Ok q)
    obtain q1 s1 where q: "q = (q1, s1)" by (cases q)
    with Ok have "execute_payment_intent e (mc_signer_pubkey c) (mc_intent c) (mc_signature c) s = Ok (q1, s1)"
      by (simp add: execute_single_meta_tx_def)
    from intent_OkD(6) [OF this] Cons.IH [of "rs @ [True]" s1] Cons.prems Ok q show ?thesis by simp
  qed (use Cons in auto)
qed simp

lemma meta_OkD:
  assumes "execute_meta_payment e p key sg s = Ok (r, t)"
  obtains w1 b al where "mp_deadline p = 0 \<or> now e \<le> mp_deadline p" "0 < mp_amount p" "0 \<le> mp_fee p"
    "mp_nonce p = proxy_get_meta_nonce (mp_sender p) s"
    "ed25519 e key (proxy_build_meta_message e p key) sg"
    "tok_balance e (mp_token p) (mp_sender p) (pxWorld s) = Some b" "mp_amount p + mp_fee p \<le> b"
    "tok_allowance e (mp_token p) (mp_sender p) (self e) (pxWorld s) = Some al"
    "mp_amount p + mp_fee p \<le> al"
    "if mp_fee p = 0 then w1 = pxWorld s else
       tok_transfer_from e (mp_token p) (self e) (mp_sender p) (mp_fee_recipient p) (mp_fee p) (pxWorld s) = Done w1"
    "tok_transfer_from e (mp_token p) (self e) (mp_sender p) (mp_recipient p) (mp_amount p) w1
       = Done (pxWorld t)"
    "pxMetaNonce t = (pxMetaNonce s)(mp_sender p \<mapsto> mp_nonce p + 1)"
    "pxAdmin t = pxAdmin s \<and> pxLogic t = pxLogic s \<and> pxSession t = pxSession s \<and> pxNonce t = pxNonce s"
  using assms
  by (auto simp: execute_meta_payment_def Let_def outcome_simps arith_defs split: if_splits)

text \<open>What a call spends from a session key, and that calls other than the key's own grant draw it.\<close>

fun call_items :: "proxy_call \<Rightarrow> (address \<times> int) list" where
  "call_items (PForward f args) = presented f args"
| "call_items (PForwardMeta k i sg f args) = presented f args"
| "call_items c = []"

definition key_granted :: "address \<Rightarrow> proxy_call \<Rightarrow> bool" where
  "key_granted k c \<longleftrightarrow> (\<exists>l v. c = PAuthorize k l v)"

lemma forward_drawn:
  assumes "forward e f args s = Ok (r, t)" "pxSession s k = Some al" "0 \<le> remaining al"
  shows "0 \<le> spend_of k (presented f args)" "spend_of k (presented f args) \<le> remaining al"
    "pxSession t k = Some (al\<lparr>remaining := remaining al - spend_of k (presented f args)\<rparr>)"
    "k \<in> fst ` set (presented f args) \<Longrightarrow> now e < valid_until al"
  using assms(1) by (rule forward_OkD; use charge_items_drawn [OF charge_session_items assms(2,3)] in auto)+

lemma proxy_exec_drawn:
  assumes "proxy_exec e c s = Ok t" "pxSession s k = Some al" "0 \<le> remaining al" "\<not> key_granted k c"
  shows "0 \<le> spend_of k (call_items c) \<and> spend_of k (call_items c) \<le> remaining al
    \<and> pxSession t k = Some (al\<lparr>remaining := remaining al - spend_of k (call_items c)\<rparr>)
    \<and> (k \<in> fst ` set (call_items c) \<longrightarrow> now e < valid_until al)"
proof (cases c)
  case (PForward f args)
  with assms(1) obtain r where "forward e f args s = Ok (r, t)" by (auto simp: outcome_simps)
  from forward_drawn [OF this assms(2,3)] show ?thesis by (simp add: PForward)
next
  case (PForwardMeta key i sg f args)
  with assms(1) obtain q u r where u: "execute_payment_intent e key i sg s = Ok (q, u)"
    "forward e f args u = Ok (r, t)"
    by (auto simp: forward_with_meta_def outcome_simps)
  have "pxSession u k = Some al" using intent_OkD(6) [OF u(1)] assms(2) by simp
  from forward_drawn [OF u(2) this assms(3)] show ?thesis by (simp add: PForwardMeta)
next
  case (PMeta p key sg)
  with assms(1) obtain r where "execute_meta_payment e p key sg s = Ok (r, t)" by (auto simp: outcome_simps)
  then have "pxSession t = pxSession s" by (rule meta_OkD) simp
  then show ?thesis using assms(2,3) by (simp add: PMeta spend_of_def)
next
  case (PBatch cs)
  with assms(1) obtain r where "batch_loop e cs [] s = Ok (r, t)"
    by (auto simp: execute_batch_tolerant_def outcome_simps)
  from batch_loop_frame [OF this] have "pxSession t = pxSession s" by simp
  then show ?thesis using assms(2,3) by (simp add: PBatch spend_of_def)
next
  case (PIntent key i sg)
  with assms(1) obtain r where "execute_payment_intent e key i sg s = Ok (r, t)"
    by (auto simp: outcome_simps)
  from intent_OkD(6) [OF this] have "pxSession t = pxSession s" by simp
  then show ?thesis using assms(2,3) by (simp add: PIntent spend_of_def)
qed (use assms in \<open>auto simp: spend_of_def outcome_simps proxy_initialize_def upgrade_logic_def
    proxy_transfer_admin_def authorize_session_key_def key_granted_def split: if_splits\<close>)

definition run_items :: "('w proxy_env \<times> proxy_call) list \<Rightarrow> (address \<times> int) list" where
  "run_items cs = concat (map (\<lambda>(e, c). call_items c) cs)"

lemma spend_of_append: "spend_of k (xs @ ys) = spend_of k xs + spend_of k ys"
  by (simp add: spend_of_def)

lemma proxy_run_drawn:
  assumes "proxy_run cs s = Ok t" "pxSession s k = Some al" "0 \<le> remaining al"
    "\<forall>(e, c)\<in>set cs. \<not> key_granted k c"
  shows "0 \<le> spend_of k (run_items cs) \<and> spend_of k (run_items cs) \<le> remaining al
    \<and> pxSession t k = Some (al\<lparr>remaining := remaining al - spend_of k (run_items cs)\<rparr>)
    \<and> (\<forall>(e, c)\<in>set cs. k \<in> fst ` set (call_items c) \<longrightarrow> now e < valid_until al)"
  using assms
proof (induction cs arbitrary: s al)
  case Nil
  then show ?case by (simp add: run_items_def spend_of_def)
next
  case (Cons ec cs)
  obtain e c where ec: "ec = (e, c)" by (cases ec)
  with Cons.prems obtain u where u: "proxy_exec e c s = Ok u" "proxy_run cs u = Ok t"
    by (auto simp: outcome_simps)
  have "\<not> key_granted k c" using Cons.prems(4) ec by auto
  note d = proxy_exec_drawn [OF u(1) Cons.prems(2,3) this]
  let ?al = "al\<lparr>remaining := remaining al - spend_of k (call_items c)\<rparr>"
  have "0 \<le> remaining ?al" "pxSession u k = Some ?al" "\<forall>(e, c)\<in>set cs. \<not> key_granted k c"
    using d Cons.prems(4) by auto
  note ih = Cons.IH [OF u(2) this(2,1,3)]
  have "run_items (ec # cs) = call_items c @ run_items cs" by (simp add: run_items_def ec)
  then show ?case using d ih by (auto simp: ec spend_of_append algebra_simps)
qed

text \<open>A session key is a budget: only the key's own signature grants it, and whatever calls
  follow, until the key grants itself anew, the amounts forwarded in its name through the charged
  routes add up to at most the granted limit, all before the expiry, and exactly their sum is
  taken off. The cap covers only the routes it names, though: a forward of any other function,
  among them the split, multi-hop and quote routes, draws nothing from it.\<close>

theorem session_key_cap:
  assumes "authorize_session_key e k limit until s0 = Ok (u, s)" "proxy_run cs s = Ok t"
    "\<forall>(e', c)\<in>set cs. \<not> key_granted k c"
  shows "auth e k \<and> 0 < limit \<and> now e < until
    \<and> spend_of k (run_items cs) \<le> limit
    \<and> pxSession t k = Some \<lparr>remaining = limit - spend_of k (run_items cs), valid_until = until\<rparr>
    \<and> (\<forall>(e', c)\<in>set cs. k \<in> fst ` set (call_items c) \<longrightarrow> now e' < until)
    \<and> (\<forall>f\<in>{''route_split_payment_with_swap'', ''route_multihop_swap'', ''route_payment_with_quote''}.
         \<forall>e' args r v. forward e' f args t = Ok (r, v) \<longrightarrow> pxSession v = pxSession t)"
proof -
  have a: "auth e k" "0 < limit" "now e < until"
    and s: "pxSession s k = Some \<lparr>remaining = limit, valid_until = until\<rparr>"
    using assms(1) by (auto simp: authorize_session_key_def outcome_simps)
  have "pxSession v = pxSession t"
    if "f \<in> {''route_split_payment_with_swap'', ''route_multihop_swap'', ''route_payment_with_quote''}"
      "forward e' f args t = Ok (r, v)" for f e' args r v
    by (rule forward_OkD [OF that(2)]) (use that(1) in \<open>auto simp: charge_session_allowance_def\<close>)
  with a proxy_run_drawn [OF assms(2) s _ assms(3)] show ?thesis by auto
qed

fun control_call :: "proxy_call \<Rightarrow> bool" where
  "control_call (PInitialize a l) = True"
| "control_call (PUpgradeLogic a l) = True"
| "control_call (PTransferAdmin a n) = True"
| "control_call c = False"

lemma forward_control:
  "forward e f args s = Ok (r, t) \<Longrightarrow> pxLogic t = pxLogic s \<and> pxAdmin t = pxAdmin s
     \<and> pxNonce t = pxNonce s \<and> pxMetaNonce t = pxMetaNonce s"
proof (erule forward_OkD)
  fix s1 w assume "charge_session_allowance e f args s = Ok s1" "t = s1\<lparr>pxWorld := w\<rparr>"
  with charge_items_frame [OF charge_session_items, of e f args s s1] show ?thesis
    by (cases s, cases s1) simp
qed

lemma proxy_control_frame:
  assumes "proxy_exec e c s = Ok t" "\<not> control_call c"
  shows "pxLogic t = pxLogic s \<and> pxAdmin t = pxAdmin s"
proof (cases c)
  case (PForwardMeta key i sg f args)
  with assms(1) show ?thesis
    by (auto simp: forward_with_meta_def outcome_simps dest!: intent_OkD(6) forward_control)
qed (use assms in \<open>auto simp: outcome_simps execute_batch_tolerant_def authorize_session_key_def
  dest!: intent_OkD(6) forward_control batch_loop_frame elim!: meta_OkD\<close>)

text \<open>Who controls the proxy: a call changes the logic contract or the admin only if the proxy
  was not initialised yet and the new admin signed, or if the stored admin signed; so what a
  client's calls are forwarded to is always the admin's choice.\<close>

theorem proxy_controlled_by_admin:
  assumes "proxy_exec e c s = Ok t" "pxLogic t \<noteq> pxLogic s \<or> pxAdmin t \<noteq> pxAdmin s"
  shows "(\<exists>a l. c = PInitialize a l \<and> pxAdmin s = None \<and> auth e a \<and> pxAdmin t = Some a \<and> pxLogic t = Some l)
    \<or> (\<exists>a. pxAdmin s = Some a \<and> auth e a
        \<and> ((\<exists>l. c = PUpgradeLogic a l \<and> pxLogic s \<noteq> Some l \<and> pxLogic t = Some l \<and> pxAdmin t = pxAdmin s)
          \<or> (\<exists>n. c = PTransferAdmin a n \<and> pxAdmin t = Some n \<and> pxLogic t = pxLogic s)))"
proof (cases "control_call c")
  case True
  then show ?thesis using assms
    by (cases c) (auto simp: outcome_simps proxy_initialize_def upgrade_logic_def assert_admin_def
      proxy_transfer_admin_def split: if_splits)
next
  case False
  from proxy_control_frame [OF assms(1) False] assms(2) show ?thesis by simp
qed

section \<open>Nonces\<close>

lemma intent_nonces:
  assumes "execute_payment_intent e key i sg s = Ok (r, t)"
  shows "get_nonce a t = (if a = in_from i then get_nonce a s + 1 else get_nonce a s)"
  using intent_OkD(2,5) [OF assms] by (simp add: get_nonce_def)

lemma batch_loop_nonces:
  "batch_loop e cs rs s = Ok (r, t) \<Longrightarrow> get_nonce a s \<le> get_nonce a t"
proof (induction cs arbitrary: rs s)
  case (Cons c cs)
  show ?case
  proof (cases "execute_single_meta_tx e c s")
    case (Ok q)
    obtain q1 s1 where q: "q = (q1, s1)" by (cases q)
    with Ok have "execute_payment_intent e (mc_signer_pubkey c) (mc_intent c) (mc_signature c) s = Ok (q1, s1)"
      by (simp add: execute_single_meta_tx_def)
    from intent_nonces [OF this, of a] Cons.IH [of "rs @ [True]" s1] Cons.prems Ok q
    show ?thesis by (simp split: if_splits)
  next
    case (Err x)
    with Cons.prems Cons.IH [of "rs @ [False]"] show ?thesis by (force simp: get_nonce_def)
  qed (use Cons.prems in simp)
qed simp

lemma proxy_exec_nonces:
  assumes "proxy_exec e c s = Ok t"
  shows "get_nonce a s \<le> get_nonce a t" "proxy_get_meta_nonce a s \<le> proxy_get_meta_nonce a t"
proof -
  have "get_nonce a s \<le> get_nonce a t \<and> proxy_get_meta_nonce a s \<le> proxy_get_meta_nonce a t"
  proof (cases c)
    case (PForwardMeta key i sg f args)
    with assms obtain q u r where u: "execute_payment_intent e key i sg s = Ok (q, u)"
      "forward e f args u = Ok (r, t)"
      by (auto simp: forward_with_meta_def outcome_simps)
    from forward_control [OF u(2)] intent_nonces [OF u(1), of a] intent_OkD(6) [OF u(1)]
    show ?thesis by (simp add: get_nonce_def proxy_get_meta_nonce_def split: if_splits)
  next
    case (PIntent key i sg)
    with assms obtain q where u: "execute_payment_intent e key i sg s = Ok (q, t)"
      by (auto simp: outcome_simps)
    from intent_nonces [OF u, of a] intent_OkD(6) [OF u] show ?thesis
      by (simp add: proxy_get_meta_nonce_def split: if_splits)
  next
    case (PBatch cs)
    with assms obtain r where b: "batch_loop e cs [] s = Ok (r, t)"
      by (auto simp: execute_batch_tolerant_def outcome_simps)
    from batch_loop_nonces [OF b] batch_loop_frame [OF b] show ?thesis by (simp add: proxy_get_meta_nonce_def)
  next
    case (PMeta p key sg)
    with assms obtain r where "execute_meta_payment e p key sg s = Ok (r, t)" by (auto simp: outcome_simps)
    then show ?thesis by (rule meta_OkD) (simp add: get_nonce_def proxy_get_meta_nonce_def)
  qed (use assms in \<open>auto simp: outcome_simps get_nonce_def proxy_get_meta_nonce_def proxy_initialize_def
      upgrade_logic_def proxy_transfer_admin_def authorize_session_key_def split: if_splits
      dest!: forward_control\<close>)
  then show "get_nonce a s \<le> get_nonce a t" "proxy_get_meta_nonce a s \<le> proxy_get_meta_nonce a t" by simp_all
qed

lemma proxy_run_nonces:
  "proxy_run cs s = Ok t \<Longrightarrow> get_nonce a s \<le> get_nonce a t \<and> proxy_get_meta_nonce a s \<le> proxy_get_meta_nonce a t"
proof (induction cs arbitrary: s)
  case (Cons ec cs)
  obtain e c where "ec = (e, c)" by (cases ec)
  with Cons.prems obtain u where u: "proxy_exec e c s = Ok u" "proxy_run cs u = Ok t"
    by (auto simp: outcome_simps)
  from proxy_exec_nonces [OF u(1), of a] Cons.IH [OF u(2)] show ?case by simp
qed simp

text \<open>The intents of a batch that went through, in order.\<close>

definition executed :: "MetaTxCall list \<Rightarrow> bool list \<Rightarrow> MetaTxCall list" where
  "executed calls results = map fst (filter snd (zip calls results))"

definition nonces_of :: "address \<Rightarrow> MetaTxCall list \<Rightarrow> nat list" where
  "nonces_of a cs = map (in_nonce \<circ> mc_intent) (filter (\<lambda>c. in_from (mc_intent c) = a) cs)"

lemma nonces_of_Cons: "nonces_of a (c # cs) =
    (if in_from (mc_intent c) = a then in_nonce (mc_intent c) # nonces_of a cs else nonces_of a cs)"
  by (simp add: nonces_of_def)

lemma batch_loop_executed:
  assumes "batch_loop e cs rs s = Ok (r, t)"
  shows "\<exists>new. r = rs @ new \<and> length new = length cs
    \<and> (\<forall>a. nonces_of a (executed cs new) = [get_nonce a s..<get_nonce a t])
    \<and> (\<forall>c\<in>set (executed cs new). now e \<le> in_deadline (mc_intent c)
        \<and> ed25519 e (mc_signer_pubkey c)
            (compute_typed_data_hash e (get_domain_separator e) (mc_intent c)) (mc_signature c))"
  using assms
proof (induction cs arbitrary: rs s)
  case Nil
  then show ?case by (simp add: executed_def nonces_of_def)
next
  case (Cons c cs)
  show ?case
  proof (cases "execute_single_meta_tx e c s")
    case (Ok q)
    obtain q1 s1 where q: "q = (q1, s1)" by (cases q)
    with Ok have one: "execute_payment_intent e (mc_signer_pubkey c) (mc_intent c) (mc_signature c) s = Ok (q1, s1)"
      by (simp add: execute_single_meta_tx_def)
    have run: "batch_loop e cs (rs @ [True]) s1 = Ok (r, t)" using Cons.prems Ok q by simp
    from Cons.IH [OF run] obtain new where new: "r = (rs @ [True]) @ new" "length new = length cs"
      "\<forall>a. nonces_of a (executed cs new) = [get_nonce a s1..<get_nonce a t]"
      "\<forall>c\<in>set (executed cs new). now e \<le> in_deadline (mc_intent c)
        \<and> ed25519 e (mc_signer_pubkey c)
            (compute_typed_data_hash e (get_domain_separator e) (mc_intent c)) (mc_signature c)"
      by blast
    have le: "get_nonce a s1 \<le> get_nonce a t" for a by (rule batch_loop_nonces [OF run])
    have ex: "executed (c # cs) (True # new) = c # executed cs new" by (simp add: executed_def)
    have "nonces_of a (c # executed cs new) = [get_nonce a s..<get_nonce a t]" for a
      using new(3) intent_nonces [OF one, of a] intent_OkD(2) [OF one] le [of a]
      by (auto simp: upt_conv_Cons nonces_of_Cons)
    with new intent_OkD(1,4) [OF one] show ?thesis
      by (intro exI [of _ "True # new"]) (simp add: ex)
  next
    case (Err x)
    let ?s1 = "px_emit ''meta_tx_failed'' [AddrArg (in_from (mc_intent c)), NatArg (proxy_error_code x)] s"
    have run: "batch_loop e cs (rs @ [False]) ?s1 = Ok (r, t)" using Cons.prems Err by simp
    have "executed (c # cs) (False # new) = executed cs new" for new by (simp add: executed_def)
    moreover have "get_nonce a ?s1 = get_nonce a s" for a by (simp add: get_nonce_def)
    moreover from Cons.IH [OF run] obtain new where "r = (rs @ [False]) @ new" "length new = length cs"
      "\<forall>a. nonces_of a (executed cs new) = [get_nonce a ?s1..<get_nonce a t]"
      "\<forall>c\<in>set (executed cs new). now e \<le> in_deadline (mc_intent c)
        \<and> ed25519 e (mc_signer_pubkey c)
            (compute_typed_data_hash e (get_domain_separator e) (mc_intent c)) (mc_signature c)"
      by blast
    ultimately show ?thesis by (intro exI [of _ "False # new"]) (simp del: px_emit_def)
  qed (use Cons.prems in simp)
qed


text \<open>A meta-payment settles once and moves exactly what it says: the amount from the sender to
  the recipient and the fee to the fee recipient, on the sender's allowance to the proxy, before
  its deadline (zero means none), at the sender's current nonce, which it uses up, so it can never
  settle again; nothing else of the proxy changes. The signature may come from any key, though: the
  same payload settles in the same way for whatever key signs it.\<close>

theorem meta_payment_settles:
  assumes "allowance_token (tok_balance e) (tok_transfer e) (tok_transfer_from e)"
    "execute_meta_payment e p key sg s = Ok (u, t)"
  shows "(mp_deadline p = 0 \<or> now e \<le> mp_deadline p) \<and> 0 < mp_amount p \<and> 0 \<le> mp_fee p
    \<and> ed25519 e key (proxy_build_meta_message e p key) sg
    \<and> (\<forall>tok x. holding (tok_balance e) tok x (pxWorld t) = holding (tok_balance e) tok x (pxWorld s)
          + flow (mp_token p) (mp_sender p) (mp_fee_recipient p) (mp_fee p) tok x
          + flow (mp_token p) (mp_sender p) (mp_recipient p) (mp_amount p) tok x)
    \<and> mp_nonce p = proxy_get_meta_nonce (mp_sender p) s
    \<and> (\<forall>a. proxy_get_meta_nonce a t = proxy_get_meta_nonce a s + (if a = mp_sender p then 1 else 0))
    \<and> pxSession t = pxSession s \<and> pxNonce t = pxNonce s
    \<and> (\<forall>cs v e' key' sg'. proxy_run cs t = Ok v \<longrightarrow> \<not> (\<exists>r. execute_meta_payment e' p key' sg' v = Ok r))
    \<and> (\<forall>key' sg'. ed25519 e key' (proxy_build_meta_message e p key') sg' \<longrightarrow>
          execute_meta_payment e p key' sg' s = Ok (u, t))"
proof (rule meta_OkD [OF assms(2)])
  fix w1 b al
  assume *: "mp_deadline p = 0 \<or> now e \<le> mp_deadline p" "0 < mp_amount p" "0 \<le> mp_fee p"
    "mp_nonce p = proxy_get_meta_nonce (mp_sender p) s" "ed25519 e key (proxy_build_meta_message e p key) sg"
    and fee: "if mp_fee p = 0 then w1 = pxWorld s else
       tok_transfer_from e (mp_token p) (self e) (mp_sender p) (mp_fee_recipient p) (mp_fee p) (pxWorld s) = Done w1"
    and pay: "tok_transfer_from e (mp_token p) (self e) (mp_sender p) (mp_recipient p) (mp_amount p) w1
       = Done (pxWorld t)"
    and n: "pxMetaNonce t = (pxMetaNonce s)(mp_sender p \<mapsto> mp_nonce p + 1)"
    and f: "pxAdmin t = pxAdmin s \<and> pxLogic t = pxLogic s \<and> pxSession t = pxSession s \<and> pxNonce t = pxNonce s"
  have tok: "token_contract (tok_balance e) (\<lambda>tok. tok_transfer_from e tok (self e))"
    by (rule via_allowance [OF assms(1)])
  have "holding (tok_balance e) k x w1 = holding (tok_balance e) k x (pxWorld s)
      + flow (mp_token p) (mp_sender p) (mp_fee_recipient p) (mp_fee p) k x" for k x
    using token_contract.xfer_holding [OF tok] fee by (cases "mp_fee p = 0") auto
  then have moved: "holding (tok_balance e) k x (pxWorld t) = holding (tok_balance e) k x (pxWorld s)
      + flow (mp_token p) (mp_sender p) (mp_fee_recipient p) (mp_fee p) k x
      + flow (mp_token p) (mp_sender p) (mp_recipient p) (mp_amount p) k x" for k x
    using token_contract.xfer_holding [OF tok pay] by simp
  have nonces: "proxy_get_meta_nonce a t = proxy_get_meta_nonce a s + (if a = mp_sender p then 1 else 0)" for a
    using *(4) by (simp add: n proxy_get_meta_nonce_def)
  have once: "\<not> (\<exists>r. execute_meta_payment e' p key' sg' v = Ok r)" if "proxy_run cs t = Ok v" for cs v e' key' sg'
  proof
    assume "\<exists>r. execute_meta_payment e' p key' sg' v = Ok r"
    then have "mp_nonce p = proxy_get_meta_nonce (mp_sender p) v"
      by (auto simp: execute_meta_payment_def outcome_simps)
    with proxy_run_nonces [OF that, of "mp_sender p"] nonces [of "mp_sender p"] *(4) show False by simp
  qed
  have any_key: "execute_meta_payment e p key' sg' s = Ok (u, t)"
    if "ed25519 e key' (proxy_build_meta_message e p key') sg'" for key' sg'
  proof -
    have v: "ed25519_verify e key (proxy_build_meta_message e p key) sg = (Ok () :: (proxy_error, unit) outcome)"
      "ed25519_verify e key' (proxy_build_meta_message e p key') sg' = (Ok () :: (proxy_error, unit) outcome)"
      using that *(5) by (simp_all add: ed25519_verify_def)
    from assms(2) show ?thesis unfolding execute_meta_payment_def v .
  qed
  from * moved nonces f once any_key show ?thesis by blast
qed

section \<open>Witnesses\<close>

definition sample_proxy_env :: "nat \<Rightarrow> sworld proxy_env" where
  "sample_proxy_env t = \<lparr>
     now = t, seq = 7, self = 99, auth = (\<lambda>_. True),
     sha256 = (\<lambda>b. b), ed25519 = (\<lambda>pk m s. s = pk),
     tok_balance = (\<lambda>tok a w. Some (w tok a)), tok_allowance = (\<lambda>tok a sp w. Some (w tok a)),
     tok_transfer = s_transfer, tok_transfer_from = (\<lambda>tok sp src dst a w. s_transfer tok src dst a w),
     network_id = [1], xdr_domain = (\<lambda>d. u32_be (contract_id d)), xdr_intent = (\<lambda>i. u32_be (in_from i)),
     xdr_meta = (\<lambda>p. u32_be (mp_sender p)), px_xdr_address = u32_be,
     logic_call = (\<lambda>l f args w. Some (VVoid, w))\<rparr>"

definition sample_proxy :: "sworld proxy" where
  "sample_proxy = \<lparr>pxAdmin = Some 1, pxLogic = Some 50, pxSession = Map.empty,
     pxMetaNonce = Map.empty, pxNonce = Map.empty, pxWorld = sample_world, pxEvents = []\<rparr>"

lemma sample_proxy_token:
  "allowance_token (tok_balance (sample_proxy_env t)) (tok_transfer (sample_proxy_env t))
     (tok_transfer_from (sample_proxy_env t))"
  using sample_allowance_token [of t] by (simp add: sample_proxy_env_def sample_env_def)

text \<open>Account 4 grants itself 100 until time 60 and spends 30 and 20 through the proxy.\<close>

definition sample_spending :: "(sworld proxy_env \<times> proxy_call) list" where
  "sample_spending =
     [(sample_proxy_env 20, PForward ''route_payment'' [VAddress 4, VAddress 5, VAddress 6, VI128 30]),
      (sample_proxy_env 30, PForward ''route_payments'' [VVec [VPayment
         \<lparr>p_sender = 4, p_recipient = 5, p_token = 6, p_amount = 20\<rparr>]])]"

theorem session_key_cap_witness:
  "\<exists>s t. authorize_session_key (sample_proxy_env 10) 4 100 60 sample_proxy = Ok ((), s)
     \<and> proxy_run sample_spending s = Ok t
     \<and> pxSession t 4 = Some \<lparr>remaining = 50, valid_until = 60\<rparr>"
proof -
  obtain s where s: "authorize_session_key (sample_proxy_env 10) 4 100 60 sample_proxy = Ok ((), s)"
    by (simp add: authorize_session_key_def require_auth_def sample_proxy_env_def)
  then have "pxSession s 4 = Some \<lparr>remaining = 100, valid_until = 60\<rparr>" "pxLogic s = Some 50"
    by (auto simp: authorize_session_key_def require_auth_def sample_proxy_env_def sample_proxy_def)
  then obtain t where t: "proxy_run sample_spending s = Ok t"
    by (simp add: sample_spending_def forward_def charge_session_allowance_def charge_args_def
        address_arg_def amount_arg_def vec_arg_def arg_at_def charge_if_session_def arith_defs
        i128_ok_def sample_proxy_env_def)
  have "spend_of 4 (run_items sample_spending) = 50"
    by (simp add: sample_spending_def run_items_def presented_def arg_pair_def arg_at_def
        item_pair_def spend_of_def)
  with session_key_cap [OF s t] s t show ?thesis
    by (auto simp: sample_spending_def key_granted_def)
qed

theorem proxy_controlled_by_admin_witness:
  "\<exists>t. proxy_exec (sample_proxy_env 5) (PUpgradeLogic 1 51) sample_proxy = Ok t \<and> pxLogic t = Some 51"
proof -
  obtain t where t: "proxy_exec (sample_proxy_env 5) (PUpgradeLogic 1 51) sample_proxy = Ok t"
    and l: "pxLogic t = Some 51"
    by (simp add: upgrade_logic_def assert_admin_def sample_proxy_def sample_proxy_env_def require_auth_def)
  from l have "pxLogic t \<noteq> pxLogic sample_proxy \<or> pxAdmin t \<noteq> pxAdmin sample_proxy"
    by (simp add: sample_proxy_def)
  from proxy_controlled_by_admin [OF t this] t show ?thesis by auto
qed

definition sample_intent :: "nat \<Rightarrow> nat \<Rightarrow> MetaTxCall" where
  "sample_intent n deadline = \<lparr>mc_signer_pubkey = [1],
     mc_intent = \<lparr>in_from = 4, in_to = 5, in_amount = 10, in_nonce = n, in_fee = 0, in_deadline = deadline\<rparr>,
     mc_signature = [1]\<rparr>"


definition sample_meta :: MetaPayment where
  "sample_meta = \<lparr>mp_nonce = 0, mp_deadline = 50, mp_sender = 4, mp_recipient = 5, mp_token = 6,
     mp_amount = 100, mp_fee = 7, mp_fee_recipient = 8\<rparr>"

theorem meta_payment_settles_witness:
  "\<exists>t. execute_meta_payment (sample_proxy_env 20) sample_meta [3] [3] sample_proxy = Ok ((), t)
     \<and> pxWorld t 6 4 = 999893 \<and> pxWorld t 6 5 = 1000100 \<and> pxWorld t 6 8 = 1000007"
proof -
  obtain t where t: "execute_meta_payment (sample_proxy_env 20) sample_meta [3] [3] sample_proxy = Ok ((), t)"
    by (simp add: execute_meta_payment_def sample_meta_def sample_proxy_def sample_proxy_env_def
        proxy_get_meta_nonce_def ed25519_verify_def balance_of_def arith_defs i128_ok_def u64_ok_def Let_def
        s_transfer_def s_move_def sample_world_def flow_def)
  have "\<forall>tok x. holding (tok_balance (sample_proxy_env 20)) tok x (pxWorld t)
      = holding (tok_balance (sample_proxy_env 20)) tok x (pxWorld sample_proxy)
        + flow 6 4 8 7 tok x + flow 6 4 5 100 tok x"
    using meta_payment_settles [OF sample_proxy_token t] by (simp add: sample_meta_def)
  then have "pxWorld t 6 x = 1000000 + flow 6 4 8 7 6 x + flow 6 4 5 100 6 x" for x
    by (simp add: holding_def sample_proxy_env_def sample_proxy_def sample_world_def)
  with t show ?thesis by (simp add: flow_def)
qed

end
