(* ===== verification/Yield_Escrow.thy ===== *)
theory Yield_Escrow
  imports Host
begin

text \<open>
  \<open>yield_escrow/src/lib.rs\<close>: escrows whose principal is supplied to a portfolio of lending
  strategies. Storage keys are the fields of \<open>vault\<close>. The lending protocols are the five \<open>lp_\<close>
  operations of the environment (\<open>get_balance\<close> and \<open>yield_rate_bps\<close> are views); a call that fails
  traps. This theory has the model, the effect of every operation, and the invariant: the books (open
  escrows, principal per token, portfolio) stay right in every reachable state. \<open>Yield_Settlement\<close>
  and \<open>Yield_Portfolio\<close> hold the properties.
\<close>

section \<open>State and errors\<close>

datatype yield_error =
    YeAlreadyInitialized | YeNotInitialized | YeInvalidAmount | InvalidReleaseLedger
  | InvalidInterestSplit | EscrowExists | EscrowNotFound | EscrowNotActive | NotYetReleasable
  | StillLocked | ActiveEscrowsRemain | InvalidInterest | YeMathOverflow | InvalidYieldRate
  | InsufficientAccruedYield | TimestampRegression | InvalidStrategyCount | InvalidWeights
  | DuplicateStrategy | StrategyNotFound | MaxStrategiesExceeded | InvalidThreshold
  | YeSlippageExceeded | EmergencyModeActive | EmergencyModeNotActive | YeInsufficientLiquidity

definition BPS_DENOMINATOR :: int where [const_defs]: "BPS_DENOMINATOR = 10000"
definition INDEX_SCALE :: int where [const_defs]: "INDEX_SCALE = 1000000000000"
definition SECONDS_PER_YEAR :: int where [const_defs]: "SECONDS_PER_YEAR = 31536000"

record StrategyAllocation =
  sa_address :: address
  weight_bps :: nat

record YieldState =
  ys_index :: int
  ys_updated_at :: nat
  ys_rate_bps :: nat
  ys_total_principal :: int

record YEscrow =
  ye_payer :: address
  ye_beneficiary :: address
  ye_token :: address
  ye_principal :: int
  release_ledger :: nat
  beneficiary_interest_bps :: nat
  reward_debt :: int
  ye_released :: bool
  ye_cancelled :: bool

definition is_active :: "YEscrow \<Rightarrow> bool" where
  "is_active r \<longleftrightarrow> \<not> ye_released r \<and> \<not> ye_cancelled r"

record ReleaseOutcome =
  ro_principal :: int
  ro_interest :: int
  ro_to_beneficiary :: int
  ro_to_payer :: int

record 'w yield_env = "'w token_host" +
  lp_deposit :: "address \<Rightarrow> address \<Rightarrow> address \<Rightarrow> int \<Rightarrow> 'w \<Rightarrow> 'w option"
    \<comment> \<open>strategy, \<open>from\<close>, \<open>token\<close>, \<open>amount\<close>\<close>
  lp_withdraw :: "address \<Rightarrow> address \<Rightarrow> address \<Rightarrow> int \<Rightarrow> 'w \<Rightarrow> 'w option"
  lp_harvest :: "address \<Rightarrow> address \<Rightarrow> address \<Rightarrow> 'w \<Rightarrow> (int \<times> 'w) option"
  lp_rate :: "address \<Rightarrow> address \<Rightarrow> 'w \<Rightarrow> nat option"
  lp_balance :: "address \<Rightarrow> address \<Rightarrow> 'w \<Rightarrow> int option"

record 'w vault =
  yeInitialized :: bool \<comment> \<open>whether the key is set\<close>
  yeAdmin :: "address option"
  yeAdapter :: "address option"
  yeStrategies :: "StrategyAllocation list option"
  yeThreshold :: "nat option"
  yeLastRebalance :: "address \<Rightarrow> nat option"
  yeActive :: "nat option"
  yeEscrow :: "nat \<Rightarrow> YEscrow option"
  yeYield :: "address \<Rightarrow> YieldState option"
  yeTokens :: "address list option"
  yeEmergency :: "bool option"
  yeWorld :: 'w
  yeEvents :: "event list"

type_synonym ('w, 'a) yres = "(yield_error, 'a \<times> 'w vault) outcome"

definition ye_emit :: "string \<Rightarrow> evarg list \<Rightarrow> 'w vault \<Rightarrow> 'w vault" where
  [simp]: "ye_emit topic args s = s\<lparr>yeEvents := yeEvents s @ [Event topic args]\<rparr>"

abbreviation checked :: "'a option \<Rightarrow> (yield_error, 'a) outcome" where
  "checked v \<equiv> ok_or YeMathOverflow v"

section \<open>Guards and counters\<close>

definition require_initialized :: "'w vault \<Rightarrow> (yield_error, unit) outcome" where
  "require_initialized s = (if yeInitialized s then Ok () else Err YeNotInitialized)"

definition ye_require_admin :: "'w yield_env \<Rightarrow> 'w vault \<Rightarrow> (yield_error, address) outcome" where
  "ye_require_admin e s =
     bnd (ok_or YeNotInitialized (yeAdmin s)) (\<lambda>admin. bnd (require_auth e admin) (\<lambda>_. Ok admin))"

definition is_emergency_mode :: "'w vault \<Rightarrow> bool" where
  "is_emergency_mode s = unwrap_or False (yeEmergency s)"

definition active_escrows :: "'w vault \<Rightarrow> nat" where
  "active_escrows s = unwrap_or 0 (yeActive s)"

definition add_active :: "'w vault \<Rightarrow> (yield_error, 'w vault) outcome" where
  "add_active s = bnd (checked (u32_checked_add (active_escrows s) 1)) (\<lambda>n. Ok (s\<lparr>yeActive := Some n\<rparr>))"

definition sub_active :: "'w vault \<Rightarrow> (yield_error, 'w vault) outcome" where
  "sub_active s =
     (if active_escrows s = 0 then Err YeMathOverflow
      else Ok (s\<lparr>yeActive := Some (active_escrows s - 1)\<rparr>))"

definition get_strategies :: "'w vault \<Rightarrow> StrategyAllocation list" where
  "get_strategies s =
     (case yeStrategies s of
        Some strategies \<Rightarrow> strategies
      | None \<Rightarrow>
          (case yeAdapter s of
             Some adapter \<Rightarrow> [\<lparr>sa_address = adapter, weight_bps = nat BPS_DENOMINATOR\<rparr>]
           | None \<Rightarrow> []))"

fun validate_loop :: "StrategyAllocation list \<Rightarrow> nat \<Rightarrow> (yield_error, nat) outcome" where
  "validate_loop [] weight = Ok weight"
| "validate_loop (st # sts) weight =
     (if weight_bps st = 0 then Err InvalidWeights
      else
        bnd (checked (u32_checked_add weight (weight_bps st))) (\<lambda>weight'.
        if list_ex (\<lambda>st'. sa_address st = sa_address st') sts then Err DuplicateStrategy
        else validate_loop sts weight'))"

definition validate_strategies :: "StrategyAllocation list \<Rightarrow> (yield_error, unit) outcome" where
  "validate_strategies strategies =
     (if strategies = [] then Err InvalidStrategyCount
      else if length strategies > 4 then Err MaxStrategiesExceeded
      else
        bnd (validate_loop strategies 0) (\<lambda>total_weight.
        if total_weight \<noteq> nat BPS_DENOMINATOR then Err InvalidWeights else Ok ()))"

definition same_strategy_addresses ::
    "StrategyAllocation list \<Rightarrow> StrategyAllocation list \<Rightarrow> bool" where
  "same_strategy_addresses current new_strats \<longleftrightarrow>
     length current = length new_strats \<and>
     list_all (\<lambda>c. list_ex (\<lambda>n. sa_address n = sa_address c) new_strats) current"

section \<open>Administration and the portfolio\<close>

definition ye_initialize :: "'w yield_env \<Rightarrow> address \<Rightarrow> address \<Rightarrow> 'w vault \<Rightarrow> ('w, unit) yres" where
  "ye_initialize e admin adapter s =
     (if yeInitialized s then Err YeAlreadyInitialized
      else
        bnd (require_auth e admin) (\<lambda>_.
        Ok ((), ye_emit ''init'' [AddrArg admin, AddrArg adapter]
          (s\<lparr>yeInitialized := True, yeAdmin := Some admin, yeAdapter := Some adapter,
             yeStrategies := Some [\<lparr>sa_address = adapter, weight_bps = nat BPS_DENOMINATOR\<rparr>],
             yeActive := Some 0, yeEmergency := Some False, yeTokens := Some []\<rparr>))))"

definition set_adapter :: "'w yield_env \<Rightarrow> address \<Rightarrow> 'w vault \<Rightarrow> ('w, unit) yres" where
  "set_adapter e adapter s =
     bnd (ye_require_admin e s) (\<lambda>admin.
     if is_emergency_mode s then Err EmergencyModeActive
     else if active_escrows s \<noteq> 0 then Err ActiveEscrowsRemain
     else Ok ((), ye_emit ''adapter'' [AddrArg admin, AddrArg adapter]
       (s\<lparr>yeAdapter := Some adapter,
          yeStrategies := Some [\<lparr>sa_address = adapter, weight_bps = nat BPS_DENOMINATOR\<rparr>]\<rparr>)))"

text \<open>Storing a portfolio: its first strategy becomes the adapter.\<close>

definition store_strategies :: "StrategyAllocation list \<Rightarrow> 'w vault \<Rightarrow> 'w vault" where
  "store_strategies strategies s =
     (let s1 = s\<lparr>yeStrategies := Some strategies\<rparr> in
      case strategies of [] \<Rightarrow> s1 | first # _ \<Rightarrow> s1\<lparr>yeAdapter := Some (sa_address first)\<rparr>)"

definition set_strategies ::
    "'w yield_env \<Rightarrow> StrategyAllocation list \<Rightarrow> 'w vault \<Rightarrow> ('w, unit) yres" where
  "set_strategies e strategies s =
     bnd (ye_require_admin e s) (\<lambda>admin.
     if is_emergency_mode s then Err EmergencyModeActive
     else if active_escrows s \<noteq> 0 \<and> \<not> same_strategy_addresses (get_strategies s) strategies
     then Err ActiveEscrowsRemain
     else
       bnd (validate_strategies strategies) (\<lambda>_.
       Ok ((), ye_emit ''strats'' [AddrArg admin, NatArg (length strategies)]
         (store_strategies strategies s))))"

definition register_strategy ::
    "'w yield_env \<Rightarrow> address \<Rightarrow> nat \<Rightarrow> 'w vault \<Rightarrow> ('w, unit) yres" where
  "register_strategy e strategy bps s =
     bnd (ye_require_admin e s) (\<lambda>admin.
     if is_emergency_mode s then Err EmergencyModeActive
     else if bps = 0 \<or> bps > nat BPS_DENOMINATOR then Err InvalidWeights
     else
       let current = get_strategies s;
           entry = \<lparr>sa_address = strategy, weight_bps = bps\<rparr>;
           updated = map (\<lambda>st. if sa_address st = strategy then entry else st) current;
           found = list_ex (\<lambda>st. sa_address st = strategy) current in
       bnd (if found then Ok updated
            else if active_escrows s \<noteq> 0 then Err ActiveEscrowsRemain
            else if length updated \<ge> 4 then Err MaxStrategiesExceeded
            else Ok (updated @ [entry])) (\<lambda>new_strats.
       bnd (validate_strategies new_strats) (\<lambda>_.
       Ok ((), ye_emit ''reg_strat'' [AddrArg admin, AddrArg strategy]
         (store_strategies new_strats s)))))"

definition set_rebalance_threshold :: "'w yield_env \<Rightarrow> nat \<Rightarrow> 'w vault \<Rightarrow> ('w, unit) yres" where
  "set_rebalance_threshold e threshold_bps s =
     bnd (ye_require_admin e s) (\<lambda>admin.
     if is_emergency_mode s then Err EmergencyModeActive
     else if threshold_bps > nat BPS_DENOMINATOR then Err InvalidThreshold
     else Ok ((), ye_emit ''thresh'' [AddrArg admin, NatArg threshold_bps]
       (s\<lparr>yeThreshold := Some threshold_bps\<rparr>)))"

definition get_rebalance_threshold :: "'w vault \<Rightarrow> nat" where
  "get_rebalance_threshold s = unwrap_or 100 (yeThreshold s)"

section \<open>Balances and parts of an amount\<close>

fun read_balances ::
    "'w yield_env \<Rightarrow> address \<Rightarrow> 'w \<Rightarrow> StrategyAllocation list \<Rightarrow> int
       \<Rightarrow> (yield_error, int list \<times> int) outcome" where
  "read_balances e tok w [] sum_so_far = Ok ([], sum_so_far)"
| "read_balances e tok w (st # sts) sum_so_far =
     bnd (unwrap (lp_balance e (sa_address st) tok w)) (\<lambda>bal.
     bnd (checked (i128_checked_add sum_so_far bal)) (\<lambda>sum'.
     bnd (read_balances e tok w sts sum') (\<lambda>(balances, total_balance).
     Ok (bal # balances, total_balance))))"

text \<open>The parts \<open>amount * weight / divisor\<close> of an amount, and their sum.\<close>

fun scaled_parts ::
    "int \<Rightarrow> int \<Rightarrow> int list \<Rightarrow> int \<Rightarrow> (yield_error, int list \<times> int) outcome" where
  "scaled_parts amount divisor [] allocated = Ok ([], allocated)"
| "scaled_parts amount divisor (weight # weights) allocated =
     bnd (checked (i128_checked_mul amount weight)) (\<lambda>product.
     let part = product sdiv divisor in
     bnd (checked (i128_checked_add allocated part)) (\<lambda>allocated'.
     bnd (scaled_parts amount divisor weights allocated') (\<lambda>(parts, total_allocated).
     Ok (part # parts, total_allocated))))"

text \<open>The first \<open>remainder\<close> parts get one unit more.\<close>

definition dusted :: "nat \<Rightarrow> int \<Rightarrow> int \<Rightarrow> (yield_error, int) outcome" where
  "dusted i remainder part = (if int i < remainder then i128_add part 1 else Ok part)"

fun final_targets_from :: "nat \<Rightarrow> int \<Rightarrow> int list \<Rightarrow> (yield_error, int list) outcome" where
  "final_targets_from i remainder [] = Ok []"
| "final_targets_from i remainder (part # parts) =
     bnd (dusted i remainder part) (\<lambda>target.
     bnd (final_targets_from (Suc i) remainder parts) (\<lambda>targets. Ok (target # targets)))"

definition weights_of :: "StrategyAllocation list \<Rightarrow> int list" where
  "weights_of strategies = map (\<lambda>st. int (weight_bps st)) strategies"

section \<open>Rebalancing\<close>

fun drift_loop ::
    "int \<Rightarrow> int \<Rightarrow> (StrategyAllocation \<times> int) list \<Rightarrow> (yield_error, bool) outcome" where
  "drift_loop threshold_bps total_balance [] = Ok False"
| "drift_loop threshold_bps total_balance ((strat, bal) # rest) =
     bnd (checked (i128_checked_mul bal BPS_DENOMINATOR)) (\<lambda>product.
     let current_weight_bps = product sdiv total_balance; target_weight_bps = int (weight_bps strat) in
     bnd (if current_weight_bps \<ge> target_weight_bps then i128_sub current_weight_bps target_weight_bps
          else i128_sub target_weight_bps current_weight_bps) (\<lambda>drift.
     if drift \<ge> threshold_bps then Ok True else drift_loop threshold_bps total_balance rest))"

definition check_rebalance_needed ::
    "'w yield_env \<Rightarrow> address \<Rightarrow> 'w vault \<Rightarrow> (yield_error, bool) outcome" where
  "check_rebalance_needed e tok s =
     bnd (require_initialized s) (\<lambda>_.
     if is_emergency_mode s then Ok False
     else
       let strategies = get_strategies s in
       if length strategies \<le> 1 then Ok False
       else
         bnd (read_balances e tok (yeWorld s) strategies 0) (\<lambda>(balances, total_balance).
         if total_balance \<le> 0 then Ok False
         else drift_loop (int (get_rebalance_threshold s)) total_balance (zip strategies balances)))"

fun withdraw_excess ::
    "'w yield_env \<Rightarrow> address \<Rightarrow> (StrategyAllocation \<times> int \<times> int) list \<Rightarrow> 'w
       \<Rightarrow> (yield_error, 'w) outcome" where
  "withdraw_excess e tok [] w = Ok w"
| "withdraw_excess e tok ((strat, current, target) # rest) w =
     bnd (if current > target then
            bnd (i128_sub current target) (\<lambda>excess.
            unwrap (lp_withdraw e (sa_address strat) (self e) tok excess w))
          else Ok w) (withdraw_excess e tok rest)"

fun deposit_deficit ::
    "'w yield_env \<Rightarrow> address \<Rightarrow> (StrategyAllocation \<times> int \<times> int) list \<Rightarrow> 'w
       \<Rightarrow> (yield_error, 'w) outcome" where
  "deposit_deficit e tok [] w = Ok w"
| "deposit_deficit e tok ((strat, current, target) # rest) w =
     bnd (if current < target then
            bnd (i128_sub target current) (\<lambda>deficit.
            unwrap (lp_deposit e (sa_address strat) (self e) tok deficit w))
          else Ok w) (deposit_deficit e tok rest)"

definition rebalance :: "'w yield_env \<Rightarrow> address \<Rightarrow> 'w vault \<Rightarrow> ('w, unit) yres" where
  "rebalance e tok s =
     bnd (require_initialized s) (\<lambda>_.
     if is_emergency_mode s then Err EmergencyModeActive
     else
       let strategies = get_strategies s; num_strats = length strategies in
       if num_strats \<le> 1 then Ok ((), s)
       else
         bnd (read_balances e tok (yeWorld s) strategies 0) (\<lambda>(balances, total_balance).
         if total_balance \<le> 0 then Ok ((), s)
         else
           bnd (scaled_parts total_balance BPS_DENOMINATOR (weights_of strategies) 0)
             (\<lambda>(target_balances, allocated_target).
           bnd (i128_sub total_balance allocated_target) (\<lambda>remainder.
           bnd (final_targets_from 0 remainder target_balances) (\<lambda>final_targets.
           let moves = zip strategies (zip balances final_targets) in
           bnd (withdraw_excess e tok moves (yeWorld s)) (\<lambda>w1.
           bnd (deposit_deficit e tok moves w1) (\<lambda>w2.
           Ok ((), ye_emit ''rebal'' [AddrArg tok, IntArg total_balance, NatArg num_strats]
             (s\<lparr>yeWorld := w2, yeLastRebalance := (yeLastRebalance s)(tok \<mapsto> seq e)\<rparr>)))))))))"

section \<open>The yield index\<close>

fun weighted_rate_loop ::
    "'w yield_env \<Rightarrow> address \<Rightarrow> 'w \<Rightarrow> StrategyAllocation list \<Rightarrow> nat \<Rightarrow> (yield_error, nat) outcome" where
  "weighted_rate_loop e tok w [] acc = Ok acc"
| "weighted_rate_loop e tok w (st # sts) acc =
     bnd (unwrap (lp_rate e (sa_address st) tok w)) (\<lambda>rate.
     if rate > 100000 then Err InvalidYieldRate
     else
       let acc' = acc + rate * weight_bps st in
       if acc' < 2 ^ 128 then weighted_rate_loop e tok w sts acc' else Err YeMathOverflow)"

definition get_weighted_yield_rate ::
    "'w yield_env \<Rightarrow> address \<Rightarrow> 'w vault \<Rightarrow> (yield_error, nat) outcome" where
  "get_weighted_yield_rate e tok s =
     (let strategies = get_strategies s in
      if strategies = [] then
        bnd (ok_or YeNotInitialized (yeAdapter s)) (\<lambda>adapter. unwrap (lp_rate e adapter tok (yeWorld s)))
      else
        bnd (weighted_rate_loop e tok (yeWorld s) strategies 0) (\<lambda>total_weighted_rate.
        Ok (total_weighted_rate div nat BPS_DENOMINATOR mod 2 ^ 32)))"

definition update_yield_state :: "'w yield_env \<Rightarrow> address \<Rightarrow> 'w vault \<Rightarrow> ('w, YieldState) yres" where
  "update_yield_state e tok s =
     (let state = unwrap_or \<lparr>ys_index = 0, ys_updated_at = now e, ys_rate_bps = 0, ys_total_principal = 0\<rparr>
                    (yeYield s tok) in
      if now e < ys_updated_at state then Err TimestampRegression
      else
        let elapsed = int (now e - ys_updated_at state) in
        bnd (checked (Option.bind (i128_checked_mul INDEX_SCALE (int (ys_rate_bps state)))
               (\<lambda>v. i128_checked_mul v elapsed))) (\<lambda>product.
        let growth = product sdiv (SECONDS_PER_YEAR * BPS_DENOMINATOR) in
        bnd (checked (i128_checked_add (ys_index state) growth)) (\<lambda>index.
        bnd (get_weighted_yield_rate e tok s) (\<lambda>rate.
        if rate > 100000 then Err InvalidYieldRate
        else
          let state' = state\<lparr>ys_index := index, ys_updated_at := now e, ys_rate_bps := rate\<rparr> in
          Ok (state', s\<lparr>yeYield := (yeYield s)(tok \<mapsto> state')\<rparr>)))))"

definition position_yield :: "YEscrow \<Rightarrow> YieldState \<Rightarrow> (yield_error, int) outcome" where
  "position_yield r state =
     bnd (checked (i128_checked_sub (ys_index state) (reward_debt r))) (\<lambda>index_delta.
     checked (map_option (\<lambda>v. v sdiv INDEX_SCALE) (i128_checked_mul (ye_principal r) index_delta)))"

definition split_interest :: "int \<Rightarrow> int \<Rightarrow> nat \<Rightarrow> (yield_error, int \<times> int) outcome" where
  "split_interest prin interest beneficiary_bps =
     bnd (checked (i128_checked_mul interest (int beneficiary_bps))) (\<lambda>product.
     let beneficiary_interest = product sdiv BPS_DENOMINATOR in
     bnd (i128_add prin beneficiary_interest) (\<lambda>to_beneficiary.
     bnd (i128_sub interest beneficiary_interest) (\<lambda>to_payer.
     Ok (to_beneficiary, to_payer))))"

definition remove_active_principal ::
    "'w yield_env \<Rightarrow> address \<Rightarrow> int \<Rightarrow> bool \<Rightarrow> 'w vault \<Rightarrow> (yield_error, 'w vault) outcome" where
  "remove_active_principal e tok prin emergency s =
     bnd (ok_or YeNotInitialized (yeYield s tok)) (\<lambda>state.
     bnd (checked (i128_checked_sub (ys_total_principal state) prin)) (\<lambda>total_principal.
     bnd (if emergency then Ok 0
          else bnd (get_weighted_yield_rate e tok s) (\<lambda>rate.
            if rate > 100000 then Err InvalidYieldRate else Ok rate)) (\<lambda>rate.
     Ok (s\<lparr>yeYield := (yeYield s)(tok \<mapsto>
       state\<lparr>ys_total_principal := total_principal, ys_rate_bps := rate\<rparr>)\<rparr>))))"

section \<open>The escrow lifecycle\<close>

definition record_token :: "address \<Rightarrow> 'w vault \<Rightarrow> 'w vault" where
  "record_token tok s =
     (let tokens = unwrap_or [] (yeTokens s) in
      if tok \<in> set tokens then s else s\<lparr>yeTokens := Some (tokens @ [tok])\<rparr>)"

fun supply_loop ::
    "'w yield_env \<Rightarrow> address \<Rightarrow> nat \<Rightarrow> int \<Rightarrow> (StrategyAllocation \<times> int) list \<Rightarrow> 'w
       \<Rightarrow> (yield_error, 'w) outcome" where
  "supply_loop e tok i remainder [] w = Ok w"
| "supply_loop e tok i remainder ((strat, part) # rest) w =
     bnd (dusted i remainder part) (\<lambda>strat_amount.
     bnd (if strat_amount > 0 then unwrap (lp_deposit e (sa_address strat) (self e) tok strat_amount w)
          else Ok w) (supply_loop e tok (Suc i) remainder rest))"

definition create_escrow ::
    "'w yield_env \<Rightarrow> nat \<Rightarrow> address \<Rightarrow> address \<Rightarrow> address \<Rightarrow> int \<Rightarrow> nat \<Rightarrow> nat \<Rightarrow> 'w vault
       \<Rightarrow> ('w, unit) yres" where
  "create_escrow e eid payer beneficiary tok amount deadline bps s =
     bnd (require_initialized s) (\<lambda>_.
     if is_emergency_mode s then Err EmergencyModeActive
     else if amount \<le> 0 then Err YeInvalidAmount
     else if deadline \<le> seq e then Err InvalidReleaseLedger
     else if int bps > BPS_DENOMINATOR then Err InvalidInterestSplit
     else
       bnd (require_auth e payer) (\<lambda>_.
       if yeEscrow s eid \<noteq> None then Err EscrowExists
       else
         let strategies = get_strategies s in
         bnd (update_yield_state e tok s) (\<lambda>(yield_state, s1).
         let s2 = record_token tok s1 in
         bnd (transfer e tok payer (self e) amount (yeWorld s2)) (\<lambda>w1.
         bnd (scaled_parts amount BPS_DENOMINATOR (weights_of strategies) 0) (\<lambda>(amounts, allocated).
         bnd (i128_sub amount allocated) (\<lambda>remainder.
         bnd (supply_loop e tok 0 remainder (zip strategies amounts) w1) (\<lambda>w2.
         let s3 = s2\<lparr>yeWorld := w2\<rparr> in
         bnd (checked (i128_checked_add (ys_total_principal yield_state) amount)) (\<lambda>total_principal.
         bnd (get_weighted_yield_rate e tok s3) (\<lambda>rate.
         if rate > 100000 then Err InvalidYieldRate
         else
           let s4 = s3\<lparr>yeYield := (yeYield s3)(tok \<mapsto>
                 yield_state\<lparr>ys_total_principal := total_principal, ys_rate_bps := rate\<rparr>)\<rparr> in
           bnd (add_active s4) (\<lambda>s5.
           let r = \<lparr>ye_payer = payer, ye_beneficiary = beneficiary, ye_token = tok, ye_principal = amount,
                    release_ledger = deadline, beneficiary_interest_bps = bps,
                    reward_debt = ys_index yield_state, ye_released = False, ye_cancelled = False\<rparr> in
           Ok ((), ye_emit ''created'' [NatArg eid, AddrArg payer, AddrArg beneficiary, AddrArg tok,
               IntArg amount, NatArg deadline, NatArg bps]
             (s5\<lparr>yeEscrow := (yeEscrow s5)(eid \<mapsto> r)\<rparr>))))))))))))"

fun redeem_loop ::
    "'w yield_env \<Rightarrow> address \<Rightarrow> nat \<Rightarrow> int \<Rightarrow> (StrategyAllocation \<times> int) list \<Rightarrow> int \<Rightarrow> 'w
       \<Rightarrow> (yield_error, int \<times> 'w) outcome" where
  "redeem_loop e tok i remainder [] total_interest w = Ok (total_interest, w)"
| "redeem_loop e tok i remainder ((strat, part) # rest) total_interest w =
     bnd (dusted i remainder part) (\<lambda>amt.
     bnd (if amt > 0 then unwrap (lp_withdraw e (sa_address strat) (self e) tok amt w) else Ok w) (\<lambda>w1.
     bnd (unwrap (lp_harvest e (sa_address strat) (self e) tok w1)) (\<lambda>(harvested, w2).
     if harvested < 0 then Err InvalidInterest
     else
       bnd (checked (i128_checked_add total_interest harvested)) (\<lambda>total_interest'.
       redeem_loop e tok (Suc i) remainder rest total_interest' w2))))"

text \<open>The parts to withdraw: in proportion to the balances, or to the weights when there are none.\<close>

definition redeem_shares ::
    "YEscrow \<Rightarrow> StrategyAllocation list \<Rightarrow> int list \<Rightarrow> int \<Rightarrow> (yield_error, int list \<times> int) outcome" where
  "redeem_shares r strategies balances total_balance =
     (if total_balance > 0 then scaled_parts (ye_principal r) total_balance balances 0
      else scaled_parts (ye_principal r) BPS_DENOMINATOR (weights_of strategies) 0)"

definition redeem_position ::
    "'w yield_env \<Rightarrow> YEscrow \<Rightarrow> 'w vault \<Rightarrow> ('w, int \<times> int) yres" where
  "redeem_position e r s =
     (let strategies = get_strategies s in
      bnd (read_balances e (ye_token r) (yeWorld s) strategies 0) (\<lambda>(balances, total_balance).
      bnd (redeem_shares r strategies balances total_balance) (\<lambda>(to_withdraw, allocated).
      bnd (i128_sub (ye_principal r) allocated) (\<lambda>remainder.
      bnd (redeem_loop e (ye_token r) 0 remainder (zip strategies to_withdraw) 0 (yeWorld s))
        (\<lambda>(total_interest, w).
      Ok ((ye_principal r, total_interest), s\<lparr>yeWorld := w\<rparr>))))))"

definition open_escrow :: "nat \<Rightarrow> 'w vault \<Rightarrow> (yield_error, YEscrow) outcome" where
  "open_escrow eid s =
     bnd (ok_or EscrowNotFound (yeEscrow s eid)) (\<lambda>r. if is_active r then Ok r else Err EscrowNotActive)"

text \<open>The end of every settlement: the principal leaves the books, the closed record is stored.\<close>

definition close_escrow ::
    "'w yield_env \<Rightarrow> nat \<Rightarrow> YEscrow \<Rightarrow> int \<Rightarrow> bool \<Rightarrow> 'w vault \<Rightarrow> (yield_error, 'w vault) outcome" where
  "close_escrow e eid r prin emergency s =
     bnd (remove_active_principal e (ye_token r) prin emergency s) (\<lambda>s1.
     sub_active (s1\<lparr>yeEscrow := (yeEscrow s1)(eid \<mapsto> r)\<rparr>))"

definition pay_if_positive ::
    "'w yield_env \<Rightarrow> address \<Rightarrow> address \<Rightarrow> int \<Rightarrow> 'w \<Rightarrow> (yield_error, 'w) outcome" where
  "pay_if_positive e tok dst amount w =
     (if amount > 0 then transfer e tok (self e) dst amount w else Ok w)"

definition settle_normal ::
    "'w yield_env \<Rightarrow> YEscrow \<Rightarrow> 'w vault \<Rightarrow> ('w, int \<times> int) yres" where
  "settle_normal e r s =
     bnd (update_yield_state e (ye_token r) s) (\<lambda>(yield_state, s1).
     bnd (redeem_position e r s1) (\<lambda>((prin, harvested), s2).
     bnd (position_yield r yield_state) (\<lambda>interest.
     if harvested < interest then Err InsufficientAccruedYield else Ok ((prin, interest), s2))))"

definition release :: "'w yield_env \<Rightarrow> nat \<Rightarrow> 'w vault \<Rightarrow> ('w, ReleaseOutcome) yres" where
  "release e eid s =
     bnd (require_initialized s) (\<lambda>_.
     bnd (open_escrow eid s) (\<lambda>r.
     let is_emergency = is_emergency_mode s; closed = r\<lparr>ye_released := True\<rparr> in
     if \<not> is_emergency \<and> seq e < release_ledger r then Err NotYetReleasable
     else if is_emergency then
       bnd (balance_of e (ye_token r) (self e) (yeWorld s)) (\<lambda>vault_bal.
       let payout = min vault_bal (ye_principal r) in
       bnd (pay_if_positive e (ye_token r) (ye_beneficiary r) payout (yeWorld s)) (\<lambda>w1.
       bnd (close_escrow e eid closed (ye_principal r) True (s\<lparr>yeWorld := w1\<rparr>)) (\<lambda>s1.
       Ok (\<lparr>ro_principal = payout, ro_interest = 0, ro_to_beneficiary = payout, ro_to_payer = 0\<rparr>,
         ye_emit ''released'' [NatArg eid, IntArg payout, IntArg 0, IntArg payout, IntArg 0] s1))))
     else
       bnd (settle_normal e r s) (\<lambda>((prin, interest), s1).
       bnd (split_interest prin interest (beneficiary_interest_bps r)) (\<lambda>(to_beneficiary, to_payer).
       bnd (pay_if_positive e (ye_token r) (ye_beneficiary r) to_beneficiary (yeWorld s1)) (\<lambda>w1.
       bnd (pay_if_positive e (ye_token r) (ye_payer r) to_payer w1) (\<lambda>w2.
       bnd (close_escrow e eid closed prin (is_emergency_mode s1) (s1\<lparr>yeWorld := w2\<rparr>)) (\<lambda>s2.
       Ok (\<lparr>ro_principal = prin, ro_interest = interest, ro_to_beneficiary = to_beneficiary,
            ro_to_payer = to_payer\<rparr>,
         ye_emit ''released'' [NatArg eid, IntArg prin, IntArg interest, IntArg to_beneficiary,
           IntArg to_payer] s2))))))))"

definition cancel :: "'w yield_env \<Rightarrow> nat \<Rightarrow> 'w vault \<Rightarrow> ('w, ReleaseOutcome) yres" where
  "cancel e eid s =
     bnd (require_initialized s) (\<lambda>_.
     bnd (open_escrow eid s) (\<lambda>r.
     let is_emergency = is_emergency_mode s; closed = r\<lparr>ye_cancelled := True\<rparr> in
     if \<not> is_emergency \<and> seq e \<ge> release_ledger r then Err StillLocked
     else
       bnd (require_auth e (ye_payer r)) (\<lambda>_.
       if is_emergency then
         bnd (balance_of e (ye_token r) (self e) (yeWorld s)) (\<lambda>vault_bal.
         let refund = min vault_bal (ye_principal r) in
         bnd (pay_if_positive e (ye_token r) (ye_payer r) refund (yeWorld s)) (\<lambda>w1.
         bnd (close_escrow e eid closed (ye_principal r) True (s\<lparr>yeWorld := w1\<rparr>)) (\<lambda>s1.
         Ok (\<lparr>ro_principal = refund, ro_interest = 0, ro_to_beneficiary = 0, ro_to_payer = refund\<rparr>,
           ye_emit ''cancelled'' [NatArg eid, IntArg refund, IntArg 0, IntArg refund] s1))))
       else
         bnd (settle_normal e r s) (\<lambda>((prin, interest), s1).
         bnd (i128_add prin interest) (\<lambda>refund.
         bnd (pay_if_positive e (ye_token r) (ye_payer r) refund (yeWorld s1)) (\<lambda>w1.
         bnd (close_escrow e eid closed prin (is_emergency_mode s1) (s1\<lparr>yeWorld := w1\<rparr>)) (\<lambda>s2.
         Ok (\<lparr>ro_principal = prin, ro_interest = interest, ro_to_beneficiary = 0, ro_to_payer = refund\<rparr>,
           ye_emit ''cancelled'' [NatArg eid, IntArg prin, IntArg interest, IntArg refund] s2))))))))"

section \<open>The emergency circuit breaker\<close>

fun unwind_loop ::
    "'w yield_env \<Rightarrow> address \<Rightarrow> StrategyAllocation list \<Rightarrow> 'w \<Rightarrow> (yield_error, 'w) outcome" where
  "unwind_loop e tok [] w = Ok w"
| "unwind_loop e tok (strat # rest) w =
     bnd (unwrap (lp_balance e (sa_address strat) tok w)) (\<lambda>bal.
     bnd (if bal > 0 then unwrap (lp_withdraw e (sa_address strat) (self e) tok bal w) else Ok w) (\<lambda>w1.
     bnd (unwrap (lp_harvest e (sa_address strat) (self e) tok w1)) (\<lambda>(harvested, w2).
     unwind_loop e tok rest w2)))"

definition unwind_token_from_strategies ::
    "'w yield_env \<Rightarrow> address \<Rightarrow> StrategyAllocation list \<Rightarrow> 'w \<Rightarrow> (yield_error, int \<times> 'w) outcome" where
  "unwind_token_from_strategies e tok strategies w =
     bnd (balance_of e tok (self e) w) (\<lambda>before_bal.
     bnd (unwind_loop e tok strategies w) (\<lambda>w1.
     bnd (balance_of e tok (self e) w1) (\<lambda>after_bal.
     bnd (checked (i128_checked_sub after_bal before_bal)) (\<lambda>recovered.
     Ok (recovered, w1)))))"

fun unwind_all ::
    "'w yield_env \<Rightarrow> StrategyAllocation list \<Rightarrow> address list \<Rightarrow> int \<Rightarrow> 'w
       \<Rightarrow> (yield_error, int \<times> 'w) outcome" where
  "unwind_all e strategies [] total_recovered w = Ok (total_recovered, w)"
| "unwind_all e strategies (tok # toks) total_recovered w =
     bnd (unwind_token_from_strategies e tok strategies w) (\<lambda>(recovered, w1).
     bnd (checked (i128_checked_add total_recovered recovered)) (\<lambda>total_recovered'.
     unwind_all e strategies toks total_recovered' w1))"

text \<open>Unwound tokens stop accruing.\<close>

definition stop_yield :: "'w yield_env \<Rightarrow> address \<Rightarrow> 'w vault \<Rightarrow> 'w vault" where
  "stop_yield e tok s =
     (case yeYield s tok of
        None \<Rightarrow> s
      | Some state \<Rightarrow> s\<lparr>yeYield := (yeYield s)(tok \<mapsto>
          state\<lparr>ys_rate_bps := 0, ys_updated_at := now e\<rparr>)\<rparr>)"

definition emergency_unwind_strategy :: "'w yield_env \<Rightarrow> int \<Rightarrow> 'w vault \<Rightarrow> ('w, int) yres" where
  "emergency_unwind_strategy e min_recovered_amount s =
     bnd (require_initialized s) (\<lambda>_.
     bnd (ye_require_admin e s) (\<lambda>admin.
     if min_recovered_amount < 0 then Err YeInvalidAmount
     else if is_emergency_mode s then Err EmergencyModeActive
     else
       let tokens = unwrap_or [] (yeTokens s) in
       bnd (unwind_all e (get_strategies s) tokens 0 (yeWorld s)) (\<lambda>(total_recovered, w).
       if total_recovered < min_recovered_amount then Err YeSlippageExceeded
       else Ok (total_recovered,
         ye_emit ''unwind'' [AddrArg admin, IntArg total_recovered, IntArg min_recovered_amount]
           (fold (stop_yield e) tokens (s\<lparr>yeWorld := w, yeEmergency := Some True\<rparr>))))))"

definition emergency_unwind_token ::
    "'w yield_env \<Rightarrow> address \<Rightarrow> int \<Rightarrow> 'w vault \<Rightarrow> ('w, int) yres" where
  "emergency_unwind_token e tok min_recovered_amount s =
     bnd (require_initialized s) (\<lambda>_.
     bnd (ye_require_admin e s) (\<lambda>admin.
     if min_recovered_amount < 0 then Err YeInvalidAmount
     else if is_emergency_mode s then Err EmergencyModeActive
     else
       let s1 = record_token tok s in
       bnd (unwind_token_from_strategies e tok (get_strategies s1) (yeWorld s1)) (\<lambda>(recovered, w).
       if recovered < min_recovered_amount then Err YeSlippageExceeded
       else Ok (recovered,
         ye_emit ''unwind'' [AddrArg admin, IntArg recovered, IntArg min_recovered_amount]
           (stop_yield e tok (s1\<lparr>yeWorld := w, yeEmergency := Some True\<rparr>))))))"

definition emergency_withdraw_principal :: "'w yield_env \<Rightarrow> nat \<Rightarrow> 'w vault \<Rightarrow> ('w, int) yres" where
  "emergency_withdraw_principal e eid s =
     bnd (require_initialized s) (\<lambda>_.
     if \<not> is_emergency_mode s then Err EmergencyModeNotActive
     else
       bnd (open_escrow eid s) (\<lambda>r.
       bnd (require_auth e (ye_payer r)) (\<lambda>_.
       bnd (balance_of e (ye_token r) (self e) (yeWorld s)) (\<lambda>vault_bal.
       let payout = min vault_bal (ye_principal r) in
       if payout \<le> 0 then Err YeInsufficientLiquidity
       else
         bnd (transfer e (ye_token r) (self e) (ye_payer r) payout (yeWorld s)) (\<lambda>w1.
         bnd (close_escrow e eid (r\<lparr>ye_cancelled := True\<rparr>) (ye_principal r) True (s\<lparr>yeWorld := w1\<rparr>))
           (\<lambda>s1.
         Ok (payout, ye_emit ''em_wdr'' [NatArg eid, AddrArg (ye_payer r), IntArg payout] s1)))))))"

definition get_yield_state :: "'w yield_env \<Rightarrow> address \<Rightarrow> 'w vault \<Rightarrow> ('w, YieldState) yres" where
  "get_yield_state e tok s = bnd (require_initialized s) (\<lambda>_. update_yield_state e tok s)"

section \<open>Portfolios\<close>

definition portfolio_ok :: "StrategyAllocation list \<Rightarrow> bool" where
  "portfolio_ok sts \<longleftrightarrow> sts \<noteq> [] \<and> length sts \<le> 4 \<and> distinct (map sa_address sts)
     \<and> (\<forall>st\<in>set sts. 0 < weight_bps st) \<and> sum_list (map weight_bps sts) = 10000"

lemma validate_loop_eq:
  assumes "weight + sum_list (map weight_bps sts) < 2 ^ 32"
  shows "(validate_loop sts weight = Ok n) \<longleftrightarrow>
    (\<forall>st\<in>set sts. 0 < weight_bps st) \<and> distinct (map sa_address sts)
      \<and> n = weight + sum_list (map weight_bps sts)"
  using assms
proof (induction sts arbitrary: weight)
  case Nil
  show ?case by auto
next
  case (Cons st sts)
  then have "u32_checked_add weight (weight_bps st) = Some (weight + weight_bps st)"
    by (simp add: u32_checked_add_def u32_ok_def)
  moreover have "weight + weight_bps st + sum_list (map weight_bps sts) < 2 ^ 32"
    using Cons.prems by simp
  ultimately show ?case
    by (auto simp: Cons.IH list_ex_iff outcome_simps)
qed

lemma validate_loop_OkD:
  "validate_loop sts weight = Ok n \<Longrightarrow> n = weight + sum_list (map weight_bps sts)"
proof (induction sts arbitrary: weight)
  case (Cons st sts)
  then have "validate_loop sts (weight + weight_bps st) = Ok n"
    by (auto simp: outcome_simps u32_checked_add_def split: if_splits)
  from Cons.IH [OF this] show ?case by simp
qed simp

lemma validate_strategies_eq: "(validate_strategies sts = Ok ()) \<longleftrightarrow> portfolio_ok sts"
proof (cases "sum_list (map weight_bps sts) = 10000")
  case True
  then show ?thesis
    by (auto simp: validate_strategies_def portfolio_ok_def outcome_simps validate_loop_eq const_defs)
next
  case False
  then show ?thesis
    by (auto simp: validate_strategies_def portfolio_ok_def outcome_simps const_defs
        dest!: validate_loop_OkD)
qed

lemma portfolio_single: "portfolio_ok [\<lparr>sa_address = a, weight_bps = nat BPS_DENOMINATOR\<rparr>]"
  by (simp add: portfolio_ok_def const_defs)

lemma weights_sum: "portfolio_ok sts \<Longrightarrow> sum_list (weights_of sts) = 10000"
proof -
  have "sum_list (weights_of sts) = int (sum_list (map weight_bps sts))"
    by (induction sts) (simp_all add: weights_of_def)
  then show "portfolio_ok sts \<Longrightarrow> ?thesis" by (simp add: portfolio_ok_def)
qed

section \<open>Parts add up\<close>

lemma scaled_parts_OkD:
  "scaled_parts a d ws acc = Ok (ps, t) \<Longrightarrow>
     ps = map (\<lambda>w. (a * w) sdiv d) ws \<and> t = acc + sum_list ps"
proof (induction ws arbitrary: acc ps t)
  case (Cons w ws)
  then obtain ps' where "scaled_parts a d ws (acc + (a * w) sdiv d) = Ok (ps', t)" "ps = (a * w) sdiv d # ps'"
    by (auto simp: outcome_simps i128_checked_mul_def i128_checked_add_def Let_def split: if_splits)
  with Cons.IH [OF this(1)] show ?case by simp
qed simp

lemma floor_parts_sum:
  fixes a d :: int
  assumes "0 \<le> a" "0 < d" "\<forall>w\<in>set ws. 0 \<le> w"
  shows "d * sum_list (map (\<lambda>w. (a * w) sdiv d) ws) \<le> a * sum_list ws
    \<and> a * sum_list ws \<le> d * sum_list (map (\<lambda>w. (a * w) sdiv d) ws) + (d - 1) * int (length ws)"
  using assms(3)
proof (induction ws)
  case (Cons w ws)
  have q: "(a * w) sdiv d = a * w div d" using Cons.prems assms(1,2) by (simp add: sdiv_nonneg)
  have "d * (a * w div d) + a * w mod d = a * w" by simp
  moreover have "0 \<le> a * w mod d" "a * w mod d \<le> d - 1" using assms(2) by simp_all
  ultimately have "d * (a * w div d) \<le> a * w" "a * w \<le> d * (a * w div d) + (d - 1)" by linarith+
  then show ?case using Cons by (simp add: q distrib_left algebra_simps)
qed simp

lemma floor_parts_remainder:
  fixes a d :: int
  assumes "0 \<le> a" "0 < d" "\<forall>w\<in>set ws. 0 \<le> w" "sum_list ws = d"
  defines "rest \<equiv> a - sum_list (map (\<lambda>w. (a * w) sdiv d) ws)"
  shows "0 \<le> rest" "rest \<le> int (length ws)"
proof -
  let ?p = "sum_list (map (\<lambda>w. (a * w) sdiv d) ws)"
  have "d * ?p \<le> d * a" using floor_parts_sum [OF assms(1-3)] assms(4) by (simp add: mult.commute)
  then show "0 \<le> rest" using assms(2) by (simp add: rest_def)
  have "d * a \<le> d * ?p + (d - 1) * int (length ws)"
    using floor_parts_sum [OF assms(1-3)] assms(4) by (simp add: mult.commute)
  also have "\<dots> \<le> d * (?p + int (length ws))" by (simp add: algebra_simps)
  finally show "rest \<le> int (length ws)" using assms(2) by (simp add: rest_def)
qed

lemma final_targets_sum:
  "final_targets_from i r ps = Ok ts \<Longrightarrow>
     sum_list ts = sum_list ps + max 0 (min (r - int i) (int (length ps)))
     \<and> list_all2 (\<lambda>p t. p \<le> t \<and> t \<le> p + 1) ps ts"
proof (induction ps arbitrary: i ts)
  case Nil
  then show ?case by simp
next
  case (Cons p ps)
  then obtain t ts' where ts: "ts = t # ts'" "final_targets_from (Suc i) r ps = Ok ts'"
      "t = (if int i < r then p + 1 else p)"
    by (auto simp: outcome_simps dusted_def i128_add_def split: if_splits)
  then show ?case using Cons.IH [OF ts(2)] by (auto simp: max_def min_def)
qed

lemma final_targets_exact:
  assumes "scaled_parts a d ws 0 = Ok (ps, t)" "final_targets_from 0 (a - t) ps = Ok ts"
    and "0 \<le> a" "0 < d" "\<forall>w\<in>set ws. 0 \<le> w" "sum_list ws = d"
  shows "sum_list ts = a" "list_all2 (\<lambda>w t. a * w div d \<le> t \<and> t \<le> a * w div d + 1) ws ts"
proof -
  from scaled_parts_OkD [OF assms(1)] have ps: "ps = map (\<lambda>w. (a * w) sdiv d) ws" "t = sum_list ps"
    by auto
  note rest = floor_parts_remainder [OF assms(3-6)]
  from final_targets_sum [OF assms(2)] rest show "sum_list ts = a" by (simp add: ps)
  from final_targets_sum [OF assms(2)] have "list_all2 (\<lambda>p t. p \<le> t \<and> t \<le> p + 1) ps ts" by simp
  then have "list_all2 (\<lambda>w t. (a * w) sdiv d \<le> t \<and> t \<le> (a * w) sdiv d + 1) ws ts"
    by (simp add: ps list_all2_map1)
  then show "list_all2 (\<lambda>w t. a * w div d \<le> t \<and> t \<le> a * w div d + 1) ws ts"
    by (rule list.rel_mono_strong) (use assms(3-5) in \<open>auto simp: sdiv_nonneg\<close>)
qed

section \<open>Effects of the operations\<close>

definition total_of :: "'w vault \<Rightarrow> address \<Rightarrow> int" where
  "total_of s tok = (case yeYield s tok of None \<Rightarrow> 0 | Some st \<Rightarrow> ys_total_principal st)"

definition index_of :: "'w vault \<Rightarrow> address \<Rightarrow> int" where
  "index_of s tok = (case yeYield s tok of None \<Rightarrow> 0 | Some st \<Rightarrow> ys_index st)"

lemma update_yield_OkD:
  assumes "update_yield_state e tok s = Ok (st, s')"
  shows "s' = s\<lparr>yeYield := (yeYield s)(tok \<mapsto> st)\<rparr>" "ys_total_principal st = total_of s tok"
    "index_of s tok \<le> ys_index st" "ys_updated_at st = now e" "ys_rate_bps st \<le> 100000"
proof -
  let ?d = "\<lparr>ys_index = 0, ys_updated_at = now e, ys_rate_bps = 0, ys_total_principal = 0\<rparr>"
  let ?s = "unwrap_or ?d (yeYield s tok)"
  from assms obtain rate index where st: "st = ?s\<lparr>ys_index := index, ys_updated_at := now e, ys_rate_bps := rate\<rparr>"
      and s': "s' = s\<lparr>yeYield := (yeYield s)(tok \<mapsto> st)\<rparr>" and rate: "rate \<le> 100000"
      and index: "index = ys_index ?s + INDEX_SCALE * int (ys_rate_bps ?s) * int (now e - ys_updated_at ?s)
        sdiv (SECONDS_PER_YEAR * BPS_DENOMINATOR)"
    unfolding update_yield_state_def Let_def
    by (auto simp: outcome_simps i128_checked_mul_def i128_checked_add_def split: if_splits option.splits)
  have "0 \<le> INDEX_SCALE * int (ys_rate_bps ?s) * int (now e - ys_updated_at ?s)"
    by (simp add: const_defs)
  then have "ys_index ?s \<le> index"
    using sdiv_pos_le [of "INDEX_SCALE * int (ys_rate_bps ?s) * int (now e - ys_updated_at ?s)"
        "SECONDS_PER_YEAR * BPS_DENOMINATOR"] by (simp add: index const_defs)
  then show "index_of s tok \<le> ys_index st"
    by (auto simp: st index_of_def split: option.splits)
  show "ys_total_principal st = total_of s tok"
    by (simp add: st total_of_def split: option.splits)
  show "s' = s\<lparr>yeYield := (yeYield s)(tok \<mapsto> st)\<rparr>" by (rule s')
  show "ys_updated_at st = now e" "ys_rate_bps st \<le> 100000" using rate by (simp_all add: st)
qed

lemma record_token_eq:
  "record_token tok s = s\<lparr>yeTokens := (if tok \<in> set (unwrap_or [] (yeTokens s)) then yeTokens s
     else Some (unwrap_or [] (yeTokens s) @ [tok]))\<rparr>"
  by (simp add: record_token_def Let_def)

lemma record_token_tokens:
  "tok \<in> set (unwrap_or [] (yeTokens (record_token tok s)))"
  "set (unwrap_or [] (yeTokens s)) \<subseteq> set (unwrap_or [] (yeTokens (record_token tok s)))"
  by (auto simp: record_token_eq)

text \<open>Deposits, and withdrawals with a harvest, of given amounts in the order of the portfolio.\<close>

fun supply_all ::
    "'w yield_env \<Rightarrow> address \<Rightarrow> (StrategyAllocation \<times> int) list \<Rightarrow> 'w \<Rightarrow> 'w option" where
  "supply_all e tok [] w = Some w"
| "supply_all e tok ((strat, a) # rest) w =
     Option.bind (if a > 0 then lp_deposit e (sa_address strat) (self e) tok a w else Some w)
       (supply_all e tok rest)"

fun redeem_all ::
    "'w yield_env \<Rightarrow> address \<Rightarrow> (StrategyAllocation \<times> int) list \<Rightarrow> 'w \<Rightarrow> (int \<times> 'w) option" where
  "redeem_all e tok [] w = Some (0, w)"
| "redeem_all e tok ((strat, a) # rest) w =
     Option.bind (if a > 0 then lp_withdraw e (sa_address strat) (self e) tok a w else Some w) (\<lambda>w1.
     Option.bind (lp_harvest e (sa_address strat) (self e) tok w1) (\<lambda>(harvested, w2).
     if harvested < 0 then None
     else map_option (\<lambda>(h, w3). (harvested + h, w3)) (redeem_all e tok rest w2)))"

lemma unwrap_if: "(if c then unwrap m else Ok w) = unwrap (if c then m else Some w)"
  by simp

lemma supply_loop_OkD:
  "length sts = length ps \<Longrightarrow> supply_loop e tok i r (zip sts ps) w = Ok w' \<Longrightarrow>
     \<exists>ts. final_targets_from i r ps = Ok ts \<and> supply_all e tok (zip sts ts) w = Some w'"
proof (induction sts ps arbitrary: i w rule: list_induct2)
  case Nil
  then show ?case by simp
next
  case (Cons st sts p ps)
  from Cons.prems obtain a w1 where a: "dusted i r p = Ok a"
      and w1: "(if a > 0 then lp_deposit e (sa_address st) (self e) tok a w else Some w) = Some w1"
      and more: "supply_loop e tok (Suc i) r (zip sts ps) w1 = Ok w'"
    unfolding supply_loop.simps zip_Cons_Cons unwrap_if
    by (elim bnd_OkE) (auto simp: unwrap_eq)
  from Cons.IH [OF more] obtain ts where "final_targets_from (Suc i) r ps = Ok ts"
    "supply_all e tok (zip sts ts) w1 = Some w'" by auto
  with a w1 show ?case by (auto simp: outcome_simps)
qed

lemma redeem_loop_OkD:
  "length sts = length ps \<Longrightarrow> redeem_loop e tok i r (zip sts ps) acc w = Ok (h, w') \<Longrightarrow>
     \<exists>ts. final_targets_from i r ps = Ok ts \<and> redeem_all e tok (zip sts ts) w = Some (h - acc, w')"
proof (induction sts ps arbitrary: i w acc rule: list_induct2)
  case Nil
  then show ?case by simp
next
  case (Cons st sts p ps)
  from Cons.prems obtain a w1 h1 w2 where a: "dusted i r p = Ok a"
      and w1: "(if a > 0 then lp_withdraw e (sa_address st) (self e) tok a w else Some w) = Some w1"
      and h1: "lp_harvest e (sa_address st) (self e) tok w1 = Some (h1, w2)" "\<not> h1 < 0"
      and more: "redeem_loop e tok (Suc i) r (zip sts ps) (acc + h1) w2 = Ok (h, w')"
    unfolding redeem_loop.simps zip_Cons_Cons unwrap_if
    by (elim bnd_OkE) (auto simp: outcome_simps i128_checked_add_def split: if_split_asm)
  from Cons.IH [OF more] obtain ts where "final_targets_from (Suc i) r ps = Ok ts"
    "redeem_all e tok (zip sts ts) w2 = Some (h - (acc + h1), w')" by auto
  with a w1 h1 show ?case by (auto simp: outcome_simps)
qed

lemma redeem_all_nonneg: "redeem_all e tok xs w = Some (h, w') \<Longrightarrow> 0 \<le> h"
  by (induction e tok xs w arbitrary: h rule: redeem_all.induct)
    (auto simp: bind_eq_Some_conv split: if_splits prod.splits)

lemma read_balances_OkD:
  "read_balances e tok w sts acc = Ok (bs, t) \<Longrightarrow>
     length bs = length sts \<and> t = acc + sum_list bs
     \<and> list_all2 (\<lambda>st b. lp_balance e (sa_address st) tok w = Some b) sts bs"
proof (induction sts arbitrary: acc bs)
  case (Cons st sts)
  then obtain b bs' where "lp_balance e (sa_address st) tok w = Some b" "bs = b # bs'"
      "read_balances e tok w sts (acc + b) = Ok (bs', t)"
    by (auto simp: outcome_simps i128_checked_add_def split: if_splits)
  with Cons.IH [OF this(3)] show ?case by simp
qed simp

section \<open>The books\<close>

definition open_principal :: "address \<Rightarrow> YEscrow option \<Rightarrow> int" where
  "open_principal tok x = (case x of
     Some r \<Rightarrow> if is_active r \<and> ye_token r = tok then ye_principal r else 0 | None \<Rightarrow> 0)"

definition open_one :: "YEscrow option \<Rightarrow> int" where
  "open_one x = (case x of Some r \<Rightarrow> if is_active r then 1 else 0 | None \<Rightarrow> 0)"

definition record_ok :: "'w vault \<Rightarrow> YEscrow \<Rightarrow> bool" where
  "record_ok s r \<longleftrightarrow> 0 < ye_principal r \<and> beneficiary_interest_bps r \<le> 10000
     \<and> \<not> (ye_released r \<and> ye_cancelled r)
     \<and> reward_debt r \<le> index_of s (ye_token r) \<and> yeYield s (ye_token r) \<noteq> None
     \<and> ye_token r \<in> set (unwrap_or [] (yeTokens s))"

definition books_ok :: "'w vault \<Rightarrow> bool" where
  "books_ok s \<longleftrightarrow> finite (dom (yeEscrow s))
     \<and> int (active_escrows s) = map_sum open_one (yeEscrow s)
     \<and> (\<forall>tok. total_of s tok = map_sum (open_principal tok) (yeEscrow s))
     \<and> (\<forall>tok. i128_ok (map_sum (open_principal tok) (yeEscrow s)))
     \<and> (\<forall>i r. yeEscrow s i = Some r \<longrightarrow> record_ok s r)"

definition vault_inv :: "'w vault \<Rightarrow> bool" where
  "vault_inv s \<longleftrightarrow> books_ok s
     \<and> (yeInitialized s \<longrightarrow> portfolio_ok (get_strategies s))
     \<and> (\<not> yeInitialized s \<longrightarrow> yeEscrow s = Map.empty \<and> yeAdmin s = None)"

lemma books_okI_same:
  assumes "books_ok s" "yeEscrow s' = yeEscrow s" "yeActive s' = yeActive s"
    and "\<And>tok. total_of s' tok = total_of s tok" "\<And>tok. index_of s tok \<le> index_of s' tok"
    and "dom (yeYield s) \<subseteq> dom (yeYield s')"
    and "set (unwrap_or [] (yeTokens s)) \<subseteq> set (unwrap_or [] (yeTokens s'))"
  shows "books_ok s'"
  unfolding books_ok_def active_escrows_def assms(2-4)
proof (intro conjI allI impI)
  fix i r assume "yeEscrow s i = Some r"
  with assms(1) have "record_ok s r" by (simp add: books_ok_def)
  with assms(5-7) show "record_ok s' r"
    unfolding record_ok_def by (meson domIff order_trans subsetD)
qed (use assms(1) in \<open>auto simp: books_ok_def active_escrows_def\<close>)

lemma get_strategies_cong:
  "yeStrategies s' = yeStrategies s \<Longrightarrow> yeAdapter s' = yeAdapter s \<Longrightarrow> get_strategies s' = get_strategies s"
  by (simp add: get_strategies_def split: option.split)

lemma vault_inv_same:
  assumes "vault_inv s" "books_ok s'" "yeStrategies s' = yeStrategies s" "yeAdapter s' = yeAdapter s"
    and "yeInitialized s' = yeInitialized s" "yeAdmin s' = yeAdmin s"
    and "yeInitialized s \<or> yeEscrow s' = yeEscrow s"
  shows "vault_inv s'"
  using assms get_strategies_cong [OF assms(3,4)] by (auto simp: vault_inv_def)

lemma update_yield_books:
  assumes "update_yield_state e tok s = Ok (st, s')" "books_ok s"
  shows "books_ok s'"
proof -
  note u = update_yield_OkD [OF assms(1)]
  show ?thesis
    by (rule books_okI_same [OF assms(2)])
      (auto simp: u(1) total_of_def index_of_def u(2) [unfolded total_of_def] split: option.splits,
       use u(3) in \<open>auto simp: index_of_def split: option.splits\<close>)
qed

lemma stop_yield_books:
  assumes "books_ok s" shows "books_ok (stop_yield e tok s)"
  by (rule books_okI_same [OF assms])
    (auto simp: stop_yield_def total_of_def index_of_def split: option.splits)

lemma stop_yield_fields:
  "yeEscrow (stop_yield e tok s) = yeEscrow s" "yeActive (stop_yield e tok s) = yeActive s"
  "yeStrategies (stop_yield e tok s) = yeStrategies s" "yeAdapter (stop_yield e tok s) = yeAdapter s"
  "yeInitialized (stop_yield e tok s) = yeInitialized s" "yeAdmin (stop_yield e tok s) = yeAdmin s"
  "yeEmergency (stop_yield e tok s) = yeEmergency s" "yeTokens (stop_yield e tok s) = yeTokens s"
  "yeWorld (stop_yield e tok s) = yeWorld s"
  by (simp_all add: stop_yield_def split: option.splits)

lemma stop_yields:
  "books_ok s \<Longrightarrow> books_ok (fold (stop_yield e) toks s)"
  "yeEscrow (fold (stop_yield e) toks s) = yeEscrow s"
  "yeStrategies (fold (stop_yield e) toks s) = yeStrategies s"
  "yeAdapter (fold (stop_yield e) toks s) = yeAdapter s"
  "yeInitialized (fold (stop_yield e) toks s) = yeInitialized s"
  "yeAdmin (fold (stop_yield e) toks s) = yeAdmin s"
  "yeEmergency (fold (stop_yield e) toks s) = yeEmergency s"
  "yeWorld (fold (stop_yield e) toks s) = yeWorld s"
  by (induction toks arbitrary: s) (simp_all add: stop_yield_fields stop_yield_books)

lemma create_escrow_OkD:
  assumes "create_escrow e eid payer beneficiary tok amount deadline bps s = Ok (u, s')"
  obtains st rate s1 w1 amounts allocated where
    "yeInitialized s" "\<not> is_emergency_mode s" "0 < amount" "seq e < deadline" "int bps \<le> 10000"
    "auth e payer" "yeEscrow s eid = None" "update_yield_state e tok s = Ok (st, s1)"
    "tok_transfer e tok payer (self e) amount (yeWorld s) = Done w1"
    "scaled_parts amount BPS_DENOMINATOR (weights_of (get_strategies s)) 0 = Ok (amounts, allocated)"
    "supply_loop e tok 0 (amount - allocated) (zip (get_strategies s) amounts) w1 = Ok (yeWorld s')"
    "yeYield s' = (yeYield s)(tok \<mapsto> st\<lparr>ys_total_principal := ys_total_principal st + amount,
       ys_rate_bps := rate\<rparr>)"
    "i128_ok (ys_total_principal st + amount)" "yeActive s' = Some (Suc (active_escrows s))"
    "yeEscrow s' = (yeEscrow s)(eid \<mapsto> \<lparr>ye_payer = payer, ye_beneficiary = beneficiary,
       ye_token = tok, ye_principal = amount, release_ledger = deadline,
       beneficiary_interest_bps = bps, reward_debt = ys_index st, ye_released = False,
       ye_cancelled = False\<rparr>)"
    "yeTokens s' = yeTokens (record_token tok s)"
    "yeStrategies s' = yeStrategies s" "yeAdapter s' = yeAdapter s"
    "yeInitialized s' = yeInitialized s" "yeAdmin s' = yeAdmin s" "yeEmergency s' = yeEmergency s"
proof -
  from assms have g: "yeInitialized s" "\<not> is_emergency_mode s" "0 < amount" "seq e < deadline"
      "int bps \<le> 10000" "auth e payer" "yeEscrow s eid = None"
    unfolding create_escrow_def require_initialized_def
    by (auto simp: outcome_simps const_defs Let_def split: if_splits)
  with assms obtain st s1 where upd: "update_yield_state e tok s = Ok (st, s1)"
    unfolding create_escrow_def require_initialized_def
    by (auto simp: outcome_simps const_defs Let_def split: if_splits)
  note s1 = update_yield_OkD(1) [OF upd]
  obtain ts where tok: "record_token tok s1 = s1\<lparr>yeTokens := ts\<rparr>" "record_token tok s = s\<lparr>yeTokens := ts\<rparr>"
    unfolding record_token_eq s1 by simp
  from assms g upd obtain w1 amounts allocated w2 rate where
    st: "tok_transfer e tok payer (self e) amount (yeWorld s) = Done w1"
    "scaled_parts amount BPS_DENOMINATOR (weights_of (get_strategies s)) 0 = Ok (amounts, allocated)"
    "supply_loop e tok 0 (amount - allocated) (zip (get_strategies s) amounts) w1 = Ok w2"
    "i128_ok (ys_total_principal st + amount)"
    "s' = ye_emit ''created'' [NatArg eid, AddrArg payer, AddrArg beneficiary, AddrArg tok,
               IntArg amount, NatArg deadline, NatArg bps]
       (s1\<lparr>yeTokens := ts, yeWorld := w2,
         yeYield := (yeYield s1)(tok \<mapsto> st\<lparr>ys_total_principal := ys_total_principal st + amount,
                       ys_rate_bps := rate\<rparr>),
         yeActive := Some (Suc (active_escrows s)),
         yeEscrow := (yeEscrow s)(eid \<mapsto> \<lparr>ye_payer = payer, ye_beneficiary = beneficiary,
           ye_token = tok, ye_principal = amount, release_ledger = deadline,
           beneficiary_interest_bps = bps, reward_debt = ys_index st, ye_released = False,
           ye_cancelled = False\<rparr>)\<rparr>)"
    unfolding create_escrow_def require_initialized_def
    by (auto simp: outcome_simps const_defs Let_def s1 tok(1) [unfolded s1] i128_checked_add_def i128_sub_def
        add_active_def active_escrows_def u32_checked_add_def split: if_splits)
  show thesis
    by (rule that [OF g upd st(1,2)]) (use st(3,4) in \<open>simp_all add: st(5) s1 tok(2)\<close>)
qed

lemma create_escrow_books:
  assumes "create_escrow e eid payer beneficiary tok amount deadline bps s = Ok (u, s')" "books_ok s"
  shows "books_ok s'"
  using assms(1)
proof (rule create_escrow_OkD)
  fix st rate s1
  assume amount: "0 < amount" "int bps \<le> 10000" and new: "yeEscrow s eid = None"
    and upd: "update_yield_state e tok s = Ok (st, s1)"
    and yy: "yeYield s' = (yeYield s)(tok \<mapsto> st\<lparr>ys_total_principal := ys_total_principal st + amount,
       ys_rate_bps := rate\<rparr>)"
    and total: "i128_ok (ys_total_principal st + amount)"
    and active: "yeActive s' = Some (Suc (active_escrows s))"
    and es: "yeEscrow s' = (yeEscrow s)(eid \<mapsto> \<lparr>ye_payer = payer, ye_beneficiary = beneficiary,
       ye_token = tok, ye_principal = amount, release_ledger = deadline,
       beneficiary_interest_bps = bps, reward_debt = ys_index st, ye_released = False,
       ye_cancelled = False\<rparr>)"
    and toks: "yeTokens s' = yeTokens (record_token tok s)"
  note u = update_yield_OkD [OF upd]
  have fin: "finite (dom (yeEscrow s))" using assms(2) by (simp add: books_ok_def)
  note sums = map_sum_upd [OF fin, where k = eid]
  show ?thesis
    unfolding books_ok_def
  proof (intro conjI allI impI)
    show "finite (dom (yeEscrow s'))" using fin by (simp add: es)
    show "int (active_escrows s') = map_sum open_one (yeEscrow s')"
      using assms(2) new by (simp add: es sums open_one_def is_active_def active books_ok_def active_escrows_def [of s'])
    have sum: "total_of s' t = map_sum (open_principal t) (yeEscrow s')" for t
      using assms(2) new u(2) by (simp add: es sums open_principal_def is_active_def total_of_def [of s']
          yy books_ok_def) (simp add: total_of_def)
    then show "total_of s' t = map_sum (open_principal t) (yeEscrow s')" for t .
    have "total_of s t = map_sum (open_principal t) (yeEscrow s)" for t
      using assms(2) by (simp add: books_ok_def)
    then have "i128_ok (total_of s' t)" for t
      using assms(2) total by (cases "t = tok") (simp_all add: total_of_def yy books_ok_def)
    then show "i128_ok (map_sum (open_principal t) (yeEscrow s'))" for t by (simp add: sum)
    show "record_ok s' r" if r: "yeEscrow s' i = Some r" for i r
    proof (cases "i = eid")
      case True
      then show ?thesis using r amount record_token_tokens(1) [of tok s]
        by (auto simp: es record_ok_def toks yy index_of_def)
    next
      case False
      then have "record_ok s r" using r assms(2) by (simp add: es books_ok_def)
      then show ?thesis using record_token_tokens(2) [of s tok] u(3)
        by (auto simp: record_ok_def toks yy index_of_def)
    qed
  qed
qed

lemma close_escrow_OkD:
  assumes "close_escrow e eid r' prin emergency s = Ok s'"
  obtains st rate where "yeYield s (ye_token r') = Some st" "active_escrows s \<noteq> 0"
    "i128_ok (ys_total_principal st - prin)"
    "s' = s\<lparr>yeYield := (yeYield s)(ye_token r' \<mapsto>
            st\<lparr>ys_total_principal := ys_total_principal st - prin, ys_rate_bps := rate\<rparr>),
          yeEscrow := (yeEscrow s)(eid \<mapsto> r'), yeActive := Some (active_escrows s - 1)\<rparr>"
proof -
  have "\<exists>st rate. yeYield s (ye_token r') = Some st \<and> active_escrows s \<noteq> 0
    \<and> i128_ok (ys_total_principal st - prin) \<and> s' = s\<lparr>yeYield := (yeYield s)(ye_token r' \<mapsto>
            st\<lparr>ys_total_principal := ys_total_principal st - prin, ys_rate_bps := rate\<rparr>),
          yeEscrow := (yeEscrow s)(eid \<mapsto> r'), yeActive := Some (active_escrows s - 1)\<rparr>"
    using assms
    by (auto simp: close_escrow_def remove_active_principal_def sub_active_def outcome_simps
        i128_checked_sub_def active_escrows_def split: if_splits)
  then show thesis using that by blast
qed

lemma close_escrow_books:
  assumes "close_escrow e eid r' (ye_principal r) emergency s = Ok s'"
    and "books_ok s" "yeEscrow s eid = Some r" "is_active r"
    and "r' = r\<lparr>ye_released := True\<rparr> \<or> r' = r\<lparr>ye_cancelled := True\<rparr>"
  shows "books_ok s'"
  using assms(1)
proof (rule close_escrow_OkD)
  fix st rate
  assume st: "yeYield s (ye_token r') = Some st" and pos: "active_escrows s \<noteq> 0"
    and total: "i128_ok (ys_total_principal st - ye_principal r)"
    and s': "s' = s\<lparr>yeYield := (yeYield s)(ye_token r' \<mapsto>
            st\<lparr>ys_total_principal := ys_total_principal st - ye_principal r, ys_rate_bps := rate\<rparr>),
          yeEscrow := (yeEscrow s)(eid \<mapsto> r'), yeActive := Some (active_escrows s - 1)\<rparr>"
  have fin: "finite (dom (yeEscrow s))" using assms(2) by (simp add: books_ok_def)
  note sums = map_sum_upd [OF fin, where k = eid]
  have r': "\<not> is_active r'" "ye_token r' = ye_token r" using assms(5) by (auto simp: is_active_def)
  show ?thesis
    unfolding books_ok_def
  proof (intro conjI allI impI)
    show "finite (dom (yeEscrow s'))" using fin by (simp add: s')
    show "int (active_escrows s') = map_sum open_one (yeEscrow s')"
      using assms(2-4) r' pos
      by (simp add: s' sums open_one_def books_ok_def active_escrows_def [of "_ \<lparr>yeActive := _\<rparr>"])
    have old: "total_of s t = map_sum (open_principal t) (yeEscrow s)" for t
      using assms(2) by (simp add: books_ok_def)
    have sum: "total_of s' t = map_sum (open_principal t) (yeEscrow s')" for t
      using assms(3,4) r' st old [of t] by (auto simp: s' sums open_principal_def total_of_def)
    then show "total_of s' t = map_sum (open_principal t) (yeEscrow s')" for t .
    from old have "i128_ok (total_of s' t)" for t
      using assms(2) total by (cases "t = ye_token r'") (simp_all add: total_of_def s' books_ok_def)
    then show "i128_ok (map_sum (open_principal t) (yeEscrow s'))" for t by (simp add: sum)
    show "record_ok s' x" if x: "yeEscrow s' i = Some x" for i x
    proof -
      have "record_ok s (if i = eid then r else x)" using x assms(2,3) by (auto simp: s' books_ok_def)
      then show ?thesis using x assms(4,5) r' st
        by (auto simp: s' record_ok_def index_of_def is_active_def split: if_splits)
    qed
  qed
qed

section \<open>Settlements\<close>

text \<open>What the three settlements have in common.\<close>

definition closes :: "'w yield_env \<Rightarrow> nat \<Rightarrow> YEscrow \<Rightarrow> YEscrow \<Rightarrow> 'w vault \<Rightarrow> 'w vault \<Rightarrow> bool" where
  "closes e eid r r' s s' \<longleftrightarrow> yeInitialized s \<and> yeEscrow s eid = Some r \<and> is_active r
     \<and> (\<exists>t w emergency s'' evs.
          (t = s \<or> (\<exists>st. update_yield_state e (ye_token r) s = Ok (st, t)))
          \<and> close_escrow e eid r' (ye_principal r) emergency (t\<lparr>yeWorld := w\<rparr>) = Ok s''
          \<and> s' = s''\<lparr>yeEvents := evs\<rparr>)"

lemma closesI:
  assumes "yeInitialized s" "yeEscrow s eid = Some r" "is_active r"
    and "t = s \<or> (\<exists>st. update_yield_state e (ye_token r) s = Ok (st, t))"
    and "close_escrow e eid r' (ye_principal r) emergency (t\<lparr>yeWorld := w\<rparr>) = Ok s''"
    and "s' = s''\<lparr>yeEvents := evs\<rparr>"
  shows "closes e eid r r' s s'"
  unfolding closes_def using assms by blast

lemma closes_books:
  assumes "closes e eid r r' s s'" "books_ok s"
    and "r' = r\<lparr>ye_released := True\<rparr> \<or> r' = r\<lparr>ye_cancelled := True\<rparr>"
  shows "books_ok s'" "yeEscrow s' = (yeEscrow s)(eid \<mapsto> r')" "yeInitialized s' = yeInitialized s"
    "yeAdmin s' = yeAdmin s" "yeStrategies s' = yeStrategies s" "yeAdapter s' = yeAdapter s"
    "yeEmergency s' = yeEmergency s" "active_escrows s = Suc (active_escrows s')"
proof -
  from assms(1) obtain t w emergency s'' evs where r: "yeEscrow s eid = Some r" "is_active r"
      and t: "t = s \<or> (\<exists>st. update_yield_state e (ye_token r) s = Ok (st, t))"
      and close: "close_escrow e eid r' (ye_principal r) emergency (t\<lparr>yeWorld := w\<rparr>) = Ok s''"
      and s': "s' = s''\<lparr>yeEvents := evs\<rparr>"
    unfolding closes_def by blast
  have tf: "books_ok t" "yeEscrow t = yeEscrow s" "yeInitialized t = yeInitialized s"
    "yeAdmin t = yeAdmin s" "yeStrategies t = yeStrategies s" "yeAdapter t = yeAdapter s"
    "yeEmergency t = yeEmergency s" "yeActive t = yeActive s"
    using t assms(2) by (auto dest: update_yield_books update_yield_OkD(1))
  have "books_ok (t\<lparr>yeWorld := w\<rparr>)"
    by (rule books_okI_same [OF tf(1)]) (simp_all add: total_of_def index_of_def)
  then have "books_ok s''" using close_escrow_books [OF close _ _ r(2) assms(3)] r(1) by (simp add: tf)
  then show "books_ok s'" unfolding s'
    by (rule books_okI_same) (simp_all add: total_of_def index_of_def)
  from close obtain st rate where "active_escrows t \<noteq> 0" and s'': "s'' = t\<lparr>yeWorld := w,
      yeYield := (yeYield t)(ye_token r' \<mapsto>
        st\<lparr>ys_total_principal := ys_total_principal st - ye_principal r, ys_rate_bps := rate\<rparr>),
      yeEscrow := (yeEscrow t)(eid \<mapsto> r'), yeActive := Some (active_escrows t - 1)\<rparr>"
    by (elim close_escrow_OkD) (simp add: active_escrows_def)
  then show "yeEscrow s' = (yeEscrow s)(eid \<mapsto> r')" "yeInitialized s' = yeInitialized s"
    "yeAdmin s' = yeAdmin s" "yeStrategies s' = yeStrategies s" "yeAdapter s' = yeAdapter s"
    "yeEmergency s' = yeEmergency s" "active_escrows s = Suc (active_escrows s')"
    by (simp_all add: s' s'' tf active_escrows_def)
qed

lemma open_escrow_OkD: "open_escrow eid s = Ok r \<Longrightarrow> yeEscrow s eid = Some r \<and> is_active r"
  by (auto simp: open_escrow_def outcome_simps split: if_splits)

lemma redeem_position_steps:
  assumes "redeem_position e r s = Ok ((prin, h), s')"
  shows "\<exists>bs total ps t w.
     read_balances e (ye_token r) (yeWorld s) (get_strategies s) 0 = Ok (bs, total)
     \<and> redeem_shares r (get_strategies s) bs total = Ok (ps, t)
     \<and> redeem_loop e (ye_token r) 0 (ye_principal r - t) (zip (get_strategies s) ps) 0 (yeWorld s) = Ok (h, w)
     \<and> prin = ye_principal r \<and> s' = s\<lparr>yeWorld := w\<rparr>"
  using assms
  by (auto simp: redeem_position_def Let_def bnd_eq_Ok i128_sub_def if_eq_Ok simp del: if_split)

lemma redeem_position_OkD:
  assumes "redeem_position e r s = Ok ((prin, h), s')" "portfolio_ok (get_strategies s)"
    and "0 < ye_principal r"
    and "\<And>st b. st \<in> set (get_strategies s) \<Longrightarrow>
      lp_balance e (sa_address st) (ye_token r) (yeWorld s) = Some b \<Longrightarrow> 0 \<le> b"
  obtains ts w where "prin = ye_principal r" "s' = s\<lparr>yeWorld := w\<rparr>" "sum_list ts = ye_principal r"
    "\<forall>t\<in>set ts. 0 \<le> t" "length ts = length (get_strategies s)" "0 \<le> h"
    "redeem_all e (ye_token r) (zip (get_strategies s) ts) (yeWorld s) = Some (h, w)"
proof -
  let ?sts = "get_strategies s"
  from assms(1) obtain bs total ps t w where bs: "read_balances e (ye_token r) (yeWorld s) ?sts 0 = Ok (bs, total)"
      and ps: "redeem_shares r ?sts bs total = Ok (ps, t)"
      and loop: "redeem_loop e (ye_token r) 0 (ye_principal r - t) (zip ?sts ps) 0 (yeWorld s) = Ok (h, w)"
      and fin: "prin = ye_principal r" "s' = s\<lparr>yeWorld := w\<rparr>"
    using redeem_position_steps [OF assms(1)] by (elim exE conjE) (rule that)
  note b = read_balances_OkD [OF bs]
  have "\<forall>x\<in>set bs. 0 \<le> x"
  proof
    fix x assume "x \<in> set bs"
    then obtain k where "k < length bs" "x = bs ! k" by (auto simp: in_set_conv_nth)
    moreover from this(1) have "lp_balance e (sa_address (?sts ! k)) (ye_token r) (yeWorld s) = Some (bs ! k)"
      using b list_all2_nthD2 by fastforce
    ultimately show "0 \<le> x" using b assms(4) [of "?sts ! k"] by simp
  qed
  then obtain ws d where ws: "scaled_parts (ye_principal r) d ws 0 = Ok (ps, t)" "0 < d" "\<forall>w\<in>set ws. 0 \<le> w"
      "sum_list ws = d" "length ws = length ?sts"
  proof (cases "total > 0")
    case True
    show thesis
    proof (rule that)
      show "scaled_parts (ye_principal r) total bs 0 = Ok (ps, t)"
        using ps True by (simp only: redeem_shares_def if_True)
      show "0 < total" "\<forall>x\<in>set bs. 0 \<le> x" by fact+
      show "sum_list bs = total" "length bs = length ?sts" using b by linarith+
    qed
  next
    case False
    show thesis
    proof (rule that)
      show "scaled_parts (ye_principal r) BPS_DENOMINATOR (weights_of ?sts) 0 = Ok (ps, t)"
        using ps False by (simp only: redeem_shares_def if_False)
      show "sum_list (weights_of ?sts) = BPS_DENOMINATOR"
        using weights_sum [OF assms(2)] by (simp add: const_defs)
    qed (simp_all add: weights_of_def const_defs)
  qed
  have len: "length ?sts = length ps" using scaled_parts_OkD [OF ws(1)] ws(5) by simp
  from redeem_loop_OkD [OF len loop] obtain ts where ts: "final_targets_from 0 (ye_principal r - t) ps = Ok ts"
      "redeem_all e (ye_token r) (zip ?sts ts) (yeWorld s) = Some (h, w)" by auto
  note exact = final_targets_exact [OF ws(1) ts(1) less_imp_le [OF assms(3)] ws(2-4)]
  have "\<forall>t\<in>set ts. 0 \<le> t"
  proof
    fix x assume "x \<in> set ts"
    then obtain k where k: "k < length ts" "x = ts ! k" by (auto simp: in_set_conv_nth)
    with exact(2) have "ye_principal r * ws ! k div d \<le> x" "k < length ws"
      by (auto simp: list_all2_conv_all_nth)
    moreover from this(2) have "0 \<le> ye_principal r * ws ! k div d"
      using ws(2,3) assms(3) by (simp add: pos_imp_zdiv_nonneg_iff)
    ultimately show "0 \<le> x" by simp
  qed
  then show thesis
    using that [OF fin exact(1)] ts(2) redeem_all_nonneg [OF ts(2)] list_all2_lengthD [OF exact(2)] ws(5)
    by simp
qed

lemma settle_normal_OkD:
  assumes "settle_normal e r s = Ok ((prin, interest), s2)"
  obtains st s1 h where "update_yield_state e (ye_token r) s = Ok (st, s1)"
    "redeem_position e r s1 = Ok ((prin, h), s2)" "interest \<le> h"
    "interest = ye_principal r * (ys_index st - reward_debt r) sdiv INDEX_SCALE"
    "prin = ye_principal r" "\<exists>w. s2 = s1\<lparr>yeWorld := w\<rparr>"
proof -
  from assms obtain st s1 h where "update_yield_state e (ye_token r) s = Ok (st, s1)"
    "redeem_position e r s1 = Ok ((prin, h), s2)" "position_yield r st = Ok interest" "interest \<le> h"
    unfolding settle_normal_def by (auto simp: bnd_eq_Ok if_eq_Ok)
  moreover from this(3) have "interest = ye_principal r * (ys_index st - reward_debt r) sdiv INDEX_SCALE"
    by (auto simp: position_yield_def outcome_simps i128_checked_sub_def i128_checked_mul_def split: if_splits)
  moreover from redeem_position_steps [OF calculation(2)]
  have "prin = ye_principal r" "\<exists>w. s2 = s1\<lparr>yeWorld := w\<rparr>" by blast+
  ultimately show thesis using that by blast
qed

text \<open>Payments that may be zero.\<close>

definition paid :: "'w yield_env \<Rightarrow> address \<Rightarrow> address \<Rightarrow> int \<Rightarrow> 'w \<Rightarrow> 'w \<Rightarrow> bool" where
  "paid e tok dst a w w' \<longleftrightarrow>
     (if 0 < a then tok_transfer e tok (self e) dst a w = Done w' else w' = w)"

lemma pay_if_positive_eq: "(pay_if_positive e tok dst a w = Ok w') = paid e tok dst a w w'"
  by (auto simp: pay_if_positive_def paid_def outcome_simps)

lemma release_normal_OkD:
  assumes "release e eid s = Ok (out, s')" "\<not> is_emergency_mode s"
  obtains r st s1 h s2 w1 where "yeEscrow s eid = Some r" "is_active r" "release_ledger r \<le> seq e"
    "update_yield_state e (ye_token r) s = Ok (st, s1)"
    "redeem_position e r s1 = Ok ((ye_principal r, h), s2)" "ro_interest out \<le> h"
    "ro_interest out = ye_principal r * (ys_index st - reward_debt r) sdiv INDEX_SCALE"
    "ro_principal out = ye_principal r"
    "split_interest (ye_principal r) (ro_interest out) (beneficiary_interest_bps r)
       = Ok (ro_to_beneficiary out, ro_to_payer out)"
    "paid e (ye_token r) (ye_beneficiary r) (ro_to_beneficiary out) (yeWorld s2) w1"
    "paid e (ye_token r) (ye_payer r) (ro_to_payer out) w1 (yeWorld s')"
    "closes e eid r (r\<lparr>ye_released := True\<rparr>) s s'"
proof -
  from assms obtain r prin interest s2 tb tp w1 w2 s3 evs where
    g: "yeInitialized s" "yeEscrow s eid = Some r" "is_active r" "release_ledger r \<le> seq e" and
    n: "settle_normal e r s = Ok ((prin, interest), s2)" and
    p: "split_interest prin interest (beneficiary_interest_bps r) = Ok (tb, tp)"
      "paid e (ye_token r) (ye_beneficiary r) tb (yeWorld s2) w1" "paid e (ye_token r) (ye_payer r) tp w1 w2" and
    c: "close_escrow e eid (r\<lparr>ye_released := True\<rparr>) prin (is_emergency_mode s2) (s2\<lparr>yeWorld := w2\<rparr>) = Ok s3"
      "out = \<lparr>ro_principal = prin, ro_interest = interest, ro_to_beneficiary = tb, ro_to_payer = tp\<rparr>"
      "s' = s3\<lparr>yeEvents := evs\<rparr>"
    unfolding release_def require_initialized_def Let_def
    by (auto simp: bnd_eq_Ok if_eq_Ok pay_if_positive_eq dest!: open_escrow_OkD)
  from n show thesis
  proof (rule settle_normal_OkD)
    fix st s1 h
    assume u: "update_yield_state e (ye_token r) s = Ok (st, s1)"
      and rd: "redeem_position e r s1 = Ok ((prin, h), s2)" and le: "interest \<le> h"
      and i: "interest = ye_principal r * (ys_index st - reward_debt r) sdiv INDEX_SCALE"
      and pr: "prin = ye_principal r" and "\<exists>w. s2 = s1\<lparr>yeWorld := w\<rparr>"
    then have s2: "s2\<lparr>yeWorld := w2\<rparr> = s1\<lparr>yeWorld := w2\<rparr>" by auto
    have "closes e eid r (r\<lparr>ye_released := True\<rparr>) s s'"
      by (rule closesI [OF g(1-3) _ c(1) [unfolded s2 pr] c(3)]) (use u in blast)
    moreover have "yeWorld s' = w2" using c(1) by (auto simp: c(3) elim: close_escrow_OkD)
    ultimately show thesis using that [OF g(2-4) u] rd le i p by (simp add: c(2) pr)
  qed
qed

lemma emergency_close:
  assumes "yeInitialized s" "yeEscrow s eid = Some r" "is_active r"
    and "close_escrow e eid r' (ye_principal r) True (s\<lparr>yeWorld := w\<rparr>) = Ok s1"
    and "s' = s1\<lparr>yeEvents := evs\<rparr>"
  shows "closes e eid r r' s s' \<and> yeWorld s' = w"
proof
  show "closes e eid r r' s s'" by (rule closesI [OF assms(1-3) _ assms(4,5)]) simp
  show "yeWorld s' = w" using assms(4) by (rule close_escrow_OkD) (simp add: assms(5))
qed

lemma release_emergency_OkD:
  assumes "release e eid s = Ok (out, s')" "is_emergency_mode s"
  obtains r b where "yeEscrow s eid = Some r" "is_active r"
    "tok_balance e (ye_token r) (self e) (yeWorld s) = Some b"
    "out = \<lparr>ro_principal = min b (ye_principal r), ro_interest = 0,
       ro_to_beneficiary = min b (ye_principal r), ro_to_payer = 0\<rparr>"
    "paid e (ye_token r) (ye_beneficiary r) (min b (ye_principal r)) (yeWorld s) (yeWorld s')"
    "closes e eid r (r\<lparr>ye_released := True\<rparr>) s s'"
proof -
  from assms obtain r b w1 s1 evs where
    g: "yeInitialized s" "yeEscrow s eid = Some r" "is_active r" and
    b: "tok_balance e (ye_token r) (self e) (yeWorld s) = Some b" and
    w: "paid e (ye_token r) (ye_beneficiary r) (min b (ye_principal r)) (yeWorld s) w1" and
    c: "close_escrow e eid (r\<lparr>ye_released := True\<rparr>) (ye_principal r) True (s\<lparr>yeWorld := w1\<rparr>) = Ok s1"
      "s' = s1\<lparr>yeEvents := evs\<rparr>" and
    o: "out = \<lparr>ro_principal = min b (ye_principal r), ro_interest = 0,
       ro_to_beneficiary = min b (ye_principal r), ro_to_payer = 0\<rparr>"
    unfolding release_def require_initialized_def Let_def
    by (auto simp: bnd_eq_Ok if_eq_Ok pay_if_positive_eq balance_of_eq dest!: open_escrow_OkD)
  from emergency_close [OF g c] show thesis using that [OF g(2,3) b o] w by simp
qed

lemma cancel_emergency_OkD:
  assumes "cancel e eid s = Ok (out, s')" "is_emergency_mode s"
  obtains r b where "yeEscrow s eid = Some r" "is_active r" "auth e (ye_payer r)"
    "tok_balance e (ye_token r) (self e) (yeWorld s) = Some b"
    "out = \<lparr>ro_principal = min b (ye_principal r), ro_interest = 0, ro_to_beneficiary = 0,
       ro_to_payer = min b (ye_principal r)\<rparr>"
    "paid e (ye_token r) (ye_payer r) (min b (ye_principal r)) (yeWorld s) (yeWorld s')"
    "closes e eid r (r\<lparr>ye_cancelled := True\<rparr>) s s'"
proof -
  from assms obtain r b w1 s1 evs where
    g: "yeInitialized s" "yeEscrow s eid = Some r" "is_active r" and a: "auth e (ye_payer r)" and
    b: "tok_balance e (ye_token r) (self e) (yeWorld s) = Some b" and
    w: "paid e (ye_token r) (ye_payer r) (min b (ye_principal r)) (yeWorld s) w1" and
    c: "close_escrow e eid (r\<lparr>ye_cancelled := True\<rparr>) (ye_principal r) True (s\<lparr>yeWorld := w1\<rparr>) = Ok s1"
      "s' = s1\<lparr>yeEvents := evs\<rparr>" and
    o: "out = \<lparr>ro_principal = min b (ye_principal r), ro_interest = 0, ro_to_beneficiary = 0,
       ro_to_payer = min b (ye_principal r)\<rparr>"
    unfolding cancel_def require_initialized_def Let_def
    by (auto simp: bnd_eq_Ok if_eq_Ok pay_if_positive_eq balance_of_eq require_auth_eq
        dest!: open_escrow_OkD)
  from emergency_close [OF g c] show thesis using that [OF g(2,3) a b o] w by simp
qed

lemma cancel_normal_OkD:
  assumes "cancel e eid s = Ok (out, s')" "\<not> is_emergency_mode s"
  obtains r st s1 h s2 where "yeEscrow s eid = Some r" "is_active r" "seq e < release_ledger r"
    "auth e (ye_payer r)" "update_yield_state e (ye_token r) s = Ok (st, s1)"
    "redeem_position e r s1 = Ok ((ye_principal r, h), s2)" "ro_interest out \<le> h"
    "ro_interest out = ye_principal r * (ys_index st - reward_debt r) sdiv INDEX_SCALE"
    "ro_principal out = ye_principal r" "ro_to_beneficiary out = 0"
    "ro_to_payer out = ye_principal r + ro_interest out"
    "paid e (ye_token r) (ye_payer r) (ro_to_payer out) (yeWorld s2) (yeWorld s')"
    "closes e eid r (r\<lparr>ye_cancelled := True\<rparr>) s s'"
proof -
  from assms obtain r prin interest s2 refund w1 s3 evs where
    g: "yeInitialized s" "yeEscrow s eid = Some r" "is_active r" "seq e < release_ledger r"
      "auth e (ye_payer r)" and
    n: "settle_normal e r s = Ok ((prin, interest), s2)" and
    p: "i128_add prin interest = (Ok refund :: (yield_error, int) outcome)"
      "paid e (ye_token r) (ye_payer r) refund (yeWorld s2) w1" and
    c: "close_escrow e eid (r\<lparr>ye_cancelled := True\<rparr>) prin (is_emergency_mode s2) (s2\<lparr>yeWorld := w1\<rparr>) = Ok s3"
      "out = \<lparr>ro_principal = prin, ro_interest = interest, ro_to_beneficiary = 0, ro_to_payer = refund\<rparr>"
      "s' = s3\<lparr>yeEvents := evs\<rparr>"
    unfolding cancel_def require_initialized_def Let_def
    by (auto simp: bnd_eq_Ok if_eq_Ok pay_if_positive_eq require_auth_eq not_le dest!: open_escrow_OkD)
  have refund: "refund = prin + interest" using p(1) by (simp add: i128_add_def if_eq_Ok)
  from n show thesis
  proof (rule settle_normal_OkD)
    fix st s1 h
    assume u: "update_yield_state e (ye_token r) s = Ok (st, s1)"
      and rd: "redeem_position e r s1 = Ok ((prin, h), s2)" and le: "interest \<le> h"
      and i: "interest = ye_principal r * (ys_index st - reward_debt r) sdiv INDEX_SCALE"
      and pr: "prin = ye_principal r" and "\<exists>w. s2 = s1\<lparr>yeWorld := w\<rparr>"
    then have s2: "s2\<lparr>yeWorld := w1\<rparr> = s1\<lparr>yeWorld := w1\<rparr>" by auto
    have "closes e eid r (r\<lparr>ye_cancelled := True\<rparr>) s s'"
      by (rule closesI [OF g(1-3) _ c(1) [unfolded s2 pr] c(3)]) (use u in blast)
    moreover have "yeWorld s' = w1" using c(1) by (auto simp: c(3) elim: close_escrow_OkD)
    ultimately show thesis using that [OF g(2-5) u] rd le i p(2) by (simp add: c(2) pr refund)
  qed
qed

lemma emergency_withdraw_OkD:
  assumes "emergency_withdraw_principal e eid s = Ok (a, s')"
  obtains r b where "is_emergency_mode s" "yeEscrow s eid = Some r" "is_active r" "auth e (ye_payer r)"
    "tok_balance e (ye_token r) (self e) (yeWorld s) = Some b" "a = min b (ye_principal r)" "0 < a"
    "tok_transfer e (ye_token r) (self e) (ye_payer r) a (yeWorld s) = Done (yeWorld s')"
    "closes e eid r (r\<lparr>ye_cancelled := True\<rparr>) s s'"
proof -
  from assms obtain r b w1 s1 evs where
    g: "yeInitialized s" "yeEscrow s eid = Some r" "is_active r" and
    a: "is_emergency_mode s" "auth e (ye_payer r)" and
    b: "tok_balance e (ye_token r) (self e) (yeWorld s) = Some b" "a = min b (ye_principal r)" "0 < a" and
    w: "tok_transfer e (ye_token r) (self e) (ye_payer r) a (yeWorld s) = Done w1" and
    c: "close_escrow e eid (r\<lparr>ye_cancelled := True\<rparr>) (ye_principal r) True (s\<lparr>yeWorld := w1\<rparr>) = Ok s1"
      "s' = s1\<lparr>yeEvents := evs\<rparr>"
    unfolding emergency_withdraw_principal_def require_initialized_def Let_def
    by (auto simp: bnd_eq_Ok if_eq_Ok transfer_eq balance_of_eq require_auth_eq not_le dest!: open_escrow_OkD)
  from emergency_close [OF g c] show thesis using that [OF a(1) g(2,3) a(2) b] w by simp
qed

section \<open>Reachable states\<close>

datatype yield_call =
    YInitialize address address | YSetAdapter address | YSetStrategies "StrategyAllocation list"
  | YRegister address nat | YThreshold nat | YRebalance address
  | YCreate nat address address address int nat nat | YRelease nat | YCancel nat
  | YUnwindAll int | YUnwindToken address int | YWithdraw nat | YState address

abbreviation ye_done :: "('w, 'a) yres \<Rightarrow> (yield_error, 'w vault) outcome" where
  "ye_done m \<equiv> bnd m (\<lambda>(_, s). Ok s)"

fun yield_exec :: "'w yield_env \<Rightarrow> yield_call \<Rightarrow> 'w vault \<Rightarrow> (yield_error, 'w vault) outcome" where
  "yield_exec e (YInitialize admin adapter) s = ye_done (ye_initialize e admin adapter s)"
| "yield_exec e (YSetAdapter adapter) s = ye_done (set_adapter e adapter s)"
| "yield_exec e (YSetStrategies sts) s = ye_done (set_strategies e sts s)"
| "yield_exec e (YRegister strategy bps) s = ye_done (register_strategy e strategy bps s)"
| "yield_exec e (YThreshold bps) s = ye_done (set_rebalance_threshold e bps s)"
| "yield_exec e (YRebalance tok) s = ye_done (rebalance e tok s)"
| "yield_exec e (YCreate eid payer beneficiary tok amount deadline bps) s =
     ye_done (create_escrow e eid payer beneficiary tok amount deadline bps s)"
| "yield_exec e (YRelease eid) s = ye_done (release e eid s)"
| "yield_exec e (YCancel eid) s = ye_done (cancel e eid s)"
| "yield_exec e (YUnwindAll least) s = ye_done (emergency_unwind_strategy e least s)"
| "yield_exec e (YUnwindToken tok least) s = ye_done (emergency_unwind_token e tok least s)"
| "yield_exec e (YWithdraw eid) s = ye_done (emergency_withdraw_principal e eid s)"
| "yield_exec e (YState tok) s = ye_done (get_yield_state e tok s)"

text \<open>Calls in any environment, by anyone; between them the outside world does what it likes.\<close>

inductive vault_steps :: "'w vault \<Rightarrow> 'w vault \<Rightarrow> bool" where
  start: "vault_steps s s"
| called: "vault_steps s t \<Longrightarrow> yield_exec e c t = Ok u \<Longrightarrow> vault_steps s u"
| elsewhere: "vault_steps s t \<Longrightarrow> vault_steps s (t\<lparr>yeWorld := w\<rparr>)"

inductive_cases vault_stepsE: "vault_steps s t"

definition fresh_vault :: "'w \<Rightarrow> 'w vault" where
  "fresh_vault w = \<lparr>yeInitialized = False, yeAdmin = None, yeAdapter = None, yeStrategies = None,
     yeThreshold = None, yeLastRebalance = Map.empty, yeActive = None, yeEscrow = Map.empty,
     yeYield = Map.empty, yeTokens = None, yeEmergency = None, yeWorld = w, yeEvents = []\<rparr>"

text \<open>The effect of a call on the escrows: nothing, a new one, or one open escrow closed.\<close>

definition escrow_change :: "'w vault \<Rightarrow> 'w vault \<Rightarrow> bool" where
  "escrow_change s s' \<longleftrightarrow> yeEscrow s' = yeEscrow s
     \<or> (\<exists>eid r. yeEscrow s eid = None \<and> is_active r \<and> yeEscrow s' = (yeEscrow s)(eid \<mapsto> r))
     \<or> (\<exists>eid r r'. yeEscrow s eid = Some r \<and> is_active r
          \<and> (r' = r\<lparr>ye_released := True\<rparr> \<or> r' = r\<lparr>ye_cancelled := True\<rparr>)
          \<and> yeEscrow s' = (yeEscrow s)(eid \<mapsto> r'))"

definition steps_ok :: "'w vault \<Rightarrow> 'w vault \<Rightarrow> bool" where
  "steps_ok s s' \<longleftrightarrow> vault_inv s' \<and> escrow_change s s' \<and> (yeInitialized s \<longrightarrow> yeInitialized s')
     \<and> (is_emergency_mode s \<and> yeInitialized s \<longrightarrow> is_emergency_mode s'
          \<and> get_strategies s' = get_strategies s \<and> dom (yeEscrow s') = dom (yeEscrow s))"

lemma closes_steps_ok:
  assumes "closes e eid r r' s s'" "vault_inv s"
    and "r' = r\<lparr>ye_released := True\<rparr> \<or> r' = r\<lparr>ye_cancelled := True\<rparr>"
  shows "steps_ok s s'"
proof -
  have s: "yeInitialized s" "yeEscrow s eid = Some r" "is_active r" using assms(1) by (simp_all add: closes_def)
  have "books_ok s" using assms(2) by (simp add: vault_inv_def)
  note c = closes_books [OF assms(1) this assms(3)]
  have "vault_inv s'" using vault_inv_same [OF assms(2) c(1) c(5,6,3,4)] s(1) by simp
  moreover have "escrow_change s s'" using s assms(3) c(2) unfolding escrow_change_def by blast
  moreover have "dom (yeEscrow s') = dom (yeEscrow s)" using s(2) by (auto simp: c(2))
  ultimately show ?thesis
    using get_strategies_cong [OF c(5,6)] by (simp add: steps_ok_def c(3) is_emergency_mode_def c(7))
qed

lemma steps_ok_same:
  assumes "vault_inv s" "books_ok s'" "yeEscrow s' = yeEscrow s" "yeStrategies s' = yeStrategies s"
    and "yeAdapter s' = yeAdapter s" "yeInitialized s' = yeInitialized s" "yeAdmin s' = yeAdmin s"
    and "is_emergency_mode s \<longrightarrow> is_emergency_mode s'"
  shows "steps_ok s s'"
proof -
  have "vault_inv s'" by (rule vault_inv_same [OF assms(1,2,4-7)]) (simp add: assms(3))
  moreover have "escrow_change s s'" unfolding escrow_change_def by (rule disjI1) (rule assms(3))
  ultimately show ?thesis unfolding steps_ok_def assms(3,6) get_strategies_cong [OF assms(4,5)]
    using assms(8) by blast
qed

lemma books_ok_frame:
  assumes "books_ok s" "yeEscrow s' = yeEscrow s" "yeActive s' = yeActive s"
    and "yeYield s' = yeYield s" "yeTokens s' = yeTokens s"
  shows "books_ok s'"
  by (rule books_okI_same [OF assms(1-3)]) (simp_all add: assms(4,5) total_of_def index_of_def)

lemma portfolio_change_ok:
  assumes "vault_inv s" "portfolio_ok sts" "\<not> is_emergency_mode s"
    and "yeStrategies s' = Some sts" "yeEscrow s' = yeEscrow s" "yeActive s' = yeActive s"
    and "yeYield s' = yeYield s" "yeTokens s' = yeTokens s" "yeInitialized s' = yeInitialized s"
    and "yeAdmin s' = yeAdmin s"
  shows "steps_ok s s'"
proof -
  have "books_ok s" using assms(1) by (simp add: vault_inv_def)
  then have "books_ok s'" by (rule books_ok_frame) fact+
  moreover have "get_strategies s' = sts" by (simp add: get_strategies_def assms(4))
  ultimately show ?thesis using assms(1-3)
    by (simp add: steps_ok_def escrow_change_def vault_inv_def assms(5,9,10))
qed

lemma store_strategies_fields:
  "sts \<noteq> [] \<Longrightarrow> yeStrategies (store_strategies sts s) = Some sts"
  "yeEscrow (store_strategies sts s) = yeEscrow s" "yeActive (store_strategies sts s) = yeActive s"
  "yeYield (store_strategies sts s) = yeYield s" "yeTokens (store_strategies sts s) = yeTokens s"
  "yeInitialized (store_strategies sts s) = yeInitialized s"
  "yeAdmin (store_strategies sts s) = yeAdmin s"
  by (simp_all add: store_strategies_def Let_def split: list.splits)

lemma initialize_ok:
  assumes "ye_initialize e admin adapter s = Ok (u, s')" "vault_inv s"
  shows "steps_ok s s'"
proof -
  from assms(1) obtain evs where s': "s' = s\<lparr>yeInitialized := True, yeAdmin := Some admin,
      yeAdapter := Some adapter,
      yeStrategies := Some [\<lparr>sa_address = adapter, weight_bps = nat BPS_DENOMINATOR\<rparr>],
      yeActive := Some 0, yeEmergency := Some False, yeTokens := Some [], yeEvents := evs\<rparr>"
    and new: "\<not> yeInitialized s"
    by (auto simp: ye_initialize_def outcome_simps split: if_splits)
  have e: "yeEscrow s = Map.empty" "books_ok s" using assms(2) new by (simp_all add: vault_inv_def)
  then have "\<forall>tok. total_of s tok = 0" by (simp add: books_ok_def)
  with e have "books_ok s'" by (simp add: s' books_ok_def total_of_def active_escrows_def)
  then show ?thesis using new portfolio_single
    by (simp add: steps_ok_def vault_inv_def escrow_change_def s' e(1) get_strategies_def)
qed

lemma set_adapter_ok:
  assumes "set_adapter e adapter s = Ok (u, s')" "vault_inv s"
  shows "steps_ok s s'"
proof -
  from assms(1) obtain admin where "\<not> is_emergency_mode s" and s': "s' = ye_emit ''adapter''
      [AddrArg admin, AddrArg adapter] (s\<lparr>yeAdapter := Some adapter,
      yeStrategies := Some [\<lparr>sa_address = adapter, weight_bps = nat BPS_DENOMINATOR\<rparr>]\<rparr>)"
    unfolding set_adapter_def bnd_eq_Ok if_eq_Ok by blast
  then show ?thesis by (intro portfolio_change_ok [OF assms(2) portfolio_single]) simp_all
qed

lemma set_strategies_ok:
  assumes "set_strategies e sts s = Ok (u, s')" "vault_inv s"
  shows "steps_ok s s'"
proof -
  from assms(1) obtain admin where p: "\<not> is_emergency_mode s" "portfolio_ok sts" and
    s': "s' = ye_emit ''strats'' [AddrArg admin, NatArg (length sts)] (store_strategies sts s)"
    unfolding set_strategies_def bnd_eq_Ok if_eq_Ok by (auto simp: validate_strategies_eq)
  then show ?thesis
    by (intro portfolio_change_ok [OF assms(2) p(2)]) (simp_all add: store_strategies_fields portfolio_ok_def)
qed

lemma register_strategy_OkD:
  assumes "register_strategy e strategy bps s = Ok (u, s')"
  obtains new admin where "\<not> is_emergency_mode s" "portfolio_ok new"
    "new = map (\<lambda>st. if sa_address st = strategy then \<lparr>sa_address = strategy, weight_bps = bps\<rparr> else st)
       (get_strategies s) @ (if list_ex (\<lambda>st. sa_address st = strategy) (get_strategies s) then []
         else [\<lparr>sa_address = strategy, weight_bps = bps\<rparr>])"
    "s' = ye_emit ''reg_strat'' [AddrArg admin, AddrArg strategy] (store_strategies new s)"
  using assms unfolding register_strategy_def Let_def bnd_eq_Ok
  by (auto simp: validate_strategies_eq bnd_eq_Ok simp del: ye_emit_def split: if_splits)

lemma register_strategy_ok:
  assumes "register_strategy e strategy bps s = Ok (u, s')" "vault_inv s"
  shows "steps_ok s s'"
  using assms(1)
proof (rule register_strategy_OkD)
  fix new admin
  assume p: "\<not> is_emergency_mode s" "portfolio_ok new"
    and s': "s' = ye_emit ''reg_strat'' [AddrArg admin, AddrArg strategy] (store_strategies new s)"
  then show ?thesis
    by (intro portfolio_change_ok [OF assms(2) p(2)]) (simp_all add: store_strategies_fields portfolio_ok_def)
qed

lemma quiet_calls_ok:
  assumes "vault_inv s"
  shows "set_rebalance_threshold e bps s = Ok (u, s') \<Longrightarrow> steps_ok s s'"
    and "rebalance e tok s = Ok (u, s') \<Longrightarrow> steps_ok s s'"
    and "get_yield_state e tok s = Ok (st, s') \<Longrightarrow> steps_ok s s'"
proof -
  have b: "books_ok s" using assms by (simp add: vault_inv_def)
  { assume "set_rebalance_threshold e bps s = Ok (u, s')"
    then obtain evs where "s' = s\<lparr>yeThreshold := Some bps, yeEvents := evs\<rparr>"
      by (auto simp: set_rebalance_threshold_def bnd_eq_Ok if_eq_Ok)
    then show "steps_ok s s'"
      by (intro steps_ok_same [OF assms books_ok_frame [OF b]]) (simp_all add: is_emergency_mode_def) }
  { assume "rebalance e tok s = Ok (u, s')"
    then have "s' = s \<or> (\<exists>w l evs. s' = s\<lparr>yeWorld := w, yeLastRebalance := l, yeEvents := evs\<rparr>)"
      by (auto simp: rebalance_def Let_def outcome_simps split: if_splits)
    then show "steps_ok s s'"
      by (intro steps_ok_same [OF assms books_ok_frame [OF b]]) (auto simp: is_emergency_mode_def) }
  { assume g: "get_yield_state e tok s = Ok (st, s')"
    then have u: "update_yield_state e tok s = Ok (st, s')" by (auto simp: get_yield_state_def bnd_eq_Ok)
    show "steps_ok s s'"
      by (rule steps_ok_same [OF assms update_yield_books [OF u b]])
        (simp_all add: update_yield_OkD(1) [OF u] is_emergency_mode_def) }
qed

lemma create_ok:
  assumes "create_escrow e eid payer beneficiary tok amount deadline bps s = Ok (u, s')" "vault_inv s"
  shows "steps_ok s s'"
  using assms(1)
proof (rule create_escrow_OkD)
  have b: "books_ok s'" using create_escrow_books [OF assms(1)] assms(2) by (simp add: vault_inv_def)
  fix st
  assume g: "yeInitialized s" "\<not> is_emergency_mode s" "yeEscrow s eid = None"
    and es: "yeEscrow s' = (yeEscrow s)(eid \<mapsto> \<lparr>ye_payer = payer, ye_beneficiary = beneficiary,
       ye_token = tok, ye_principal = amount, release_ledger = deadline,
       beneficiary_interest_bps = bps, reward_debt = ys_index st, ye_released = False,
       ye_cancelled = False\<rparr>)"
    and f: "yeStrategies s' = yeStrategies s" "yeAdapter s' = yeAdapter s"
      "yeInitialized s' = yeInitialized s" "yeAdmin s' = yeAdmin s"
  have "vault_inv s'" by (rule vault_inv_same [OF assms(2) b f]) (simp add: g)
  moreover have "\<exists>r. is_active r \<and> yeEscrow s' = (yeEscrow s)(eid \<mapsto> r)"
    unfolding es by (rule exI, rule conjI [rotated], rule refl) (simp add: is_active_def)
  then have "escrow_change s s'" using g(3) unfolding escrow_change_def by blast
  ultimately show ?thesis using g f(3) by (simp add: steps_ok_def)
qed

lemma unwind_calls_ok:
  assumes "vault_inv s"
  shows "emergency_unwind_strategy e least s = Ok (a, s') \<Longrightarrow> steps_ok s s' \<and> is_emergency_mode s'"
    and "emergency_unwind_token e tok least s = Ok (a, s') \<Longrightarrow> steps_ok s s' \<and> is_emergency_mode s'"
proof -
  have b: "books_ok s" using assms by (simp add: vault_inv_def)
  { assume "emergency_unwind_strategy e least s = Ok (a, s')"
    then obtain w evs where s': "s' = fold (stop_yield e) (unwrap_or [] (yeTokens s))
        (s\<lparr>yeWorld := w, yeEmergency := Some True\<rparr>)\<lparr>yeEvents := evs\<rparr>"
      by (auto simp: emergency_unwind_strategy_def Let_def bnd_eq_Ok if_eq_Ok)
    have "books_ok s'" unfolding s'
      by (rule books_ok_frame [OF stop_yields(1) [OF books_ok_frame [OF b]]]) simp_all
    then have "steps_ok s s'"
      by (rule steps_ok_same [OF assms]) (simp_all add: s' stop_yields is_emergency_mode_def)
    then show "steps_ok s s' \<and> is_emergency_mode s'"
      by (simp add: s' stop_yields is_emergency_mode_def) }
  { assume "emergency_unwind_token e tok least s = Ok (a, s')"
    then obtain w evs where s': "s' = stop_yield e tok
        (record_token tok s\<lparr>yeWorld := w, yeEmergency := Some True\<rparr>)\<lparr>yeEvents := evs\<rparr>"
      by (auto simp: emergency_unwind_token_def Let_def bnd_eq_Ok if_eq_Ok)
    have "books_ok (record_token tok s\<lparr>yeWorld := w, yeEmergency := Some True\<rparr>)"
      by (rule books_okI_same [OF b]) (auto simp: record_token_eq total_of_def index_of_def)
    then have "books_ok s'" unfolding s' by (rule books_ok_frame [OF stop_yield_books]) simp_all
    then have "steps_ok s s'"
      by (rule steps_ok_same [OF assms])
        (simp_all add: s' stop_yield_fields record_token_eq is_emergency_mode_def)
    then show "steps_ok s s' \<and> is_emergency_mode s'"
      by (simp add: s' stop_yield_fields is_emergency_mode_def) }
qed

lemma settle_calls_ok:
  assumes "vault_inv s"
  shows "release e eid s = Ok (out, s') \<Longrightarrow> steps_ok s s'"
    and "cancel e eid s = Ok (out, s') \<Longrightarrow> steps_ok s s'"
    and "emergency_withdraw_principal e eid s = Ok (a, s') \<Longrightarrow> steps_ok s s'"
proof -
  assume r: "release e eid s = Ok (out, s')"
  show "steps_ok s s'"
  proof (cases "is_emergency_mode s")
    case True
    show ?thesis by (rule release_emergency_OkD [OF r True]) (auto intro: closes_steps_ok assms)
  next
    case False
    show ?thesis by (rule release_normal_OkD [OF r False]) (auto intro: closes_steps_ok assms)
  qed
next
  assume r: "cancel e eid s = Ok (out, s')"
  show "steps_ok s s'"
  proof (cases "is_emergency_mode s")
    case True
    show ?thesis by (rule cancel_emergency_OkD [OF r True]) (auto intro: closes_steps_ok assms)
  next
    case False
    show ?thesis by (rule cancel_normal_OkD [OF r False]) (auto intro: closes_steps_ok assms)
  qed
next
  assume "emergency_withdraw_principal e eid s = Ok (a, s')"
  then show "steps_ok s s'" by (rule emergency_withdraw_OkD) (auto intro: closes_steps_ok assms)
qed

lemma yield_exec_ok:
  assumes "yield_exec e c s = Ok s'" "vault_inv s"
  shows "steps_ok s s'"
  using assms
  by (cases c)
    (auto simp: bnd_eq_Ok intro: initialize_ok set_adapter_ok set_strategies_ok register_strategy_ok
      quiet_calls_ok create_ok settle_calls_ok dest: unwind_calls_ok)

lemma vault_inv_world [simp]: "vault_inv (s\<lparr>yeWorld := w\<rparr>) = vault_inv s"
proof -
  have "get_strategies (s\<lparr>yeWorld := w\<rparr>) = get_strategies s" by (rule get_strategies_cong) simp_all
  then show ?thesis
    by (simp add: vault_inv_def books_ok_def active_escrows_def total_of_def index_of_def record_ok_def)
qed

lemma fresh_vault_inv: "vault_inv (fresh_vault w)"
  by (simp add: vault_inv_def books_ok_def fresh_vault_def active_escrows_def total_of_def)

lemma vault_steps_inv: "vault_steps s t \<Longrightarrow> vault_inv s \<Longrightarrow> vault_inv t"
  by (induction rule: vault_steps.induct) (auto dest: yield_exec_ok simp: steps_ok_def)

text \<open>A closed escrow stays as it is, and every further settlement of it is refused.\<close>

lemma closed_stays:
  assumes "vault_steps s t" "vault_inv s" "yeInitialized s" "yeEscrow s eid = Some r" "\<not> is_active r"
  shows "yeInitialized t \<and> yeEscrow t eid = Some r"
  using assms
proof (induction rule: vault_steps.induct)
  case (called s t e c u)
  then have t: "yeInitialized t" "yeEscrow t eid = Some r" by auto
  have "steps_ok t u" using yield_exec_ok [OF called.hyps(2) vault_steps_inv] called by blast
  then have "yeInitialized u" "escrow_change t u" using t by (simp_all add: steps_ok_def)
  with t called.prems(4) show ?case by (auto simp: escrow_change_def)
qed auto

lemma closed_refused:
  assumes "yeInitialized t" "yeEscrow t eid = Some r" "\<not> is_active r"
  shows "release e eid t = Err EscrowNotActive" "cancel e eid t = Err EscrowNotActive"
    "is_emergency_mode t \<Longrightarrow> emergency_withdraw_principal e eid t = Err EscrowNotActive"
  using assms
  by (simp_all add: release_def cancel_def emergency_withdraw_principal_def require_initialized_def
      open_escrow_def)

end
