(* ===== verification/Yield_Settlement.thy ===== *)
theory Yield_Settlement
  imports Yield_Escrow
begin

text \<open>
  Properties of the yield escrow's life cycle (\<open>yield_escrow/src/lib.rs\<close>): the books balance in every
  reachable state, what \<open>release\<close> and \<open>cancel\<close> pay, and what the emergency mode allows.
\<close>

section \<open>The books\<close>

lemma map_sum_open_one:
  assumes "finite (dom m)"
  shows "map_sum open_one m = int (card {i. \<exists>r. m i = Some r \<and> is_active r})"
proof -
  have "map_sum open_one m = (\<Sum>i\<in>{i \<in> dom m. \<exists>r. m i = Some r \<and> is_active r}. 1)"
    unfolding map_sum_def
    by (rule sum.mono_neutral_cong_right [OF assms]) (auto simp: open_one_def split: option.splits)
  also have "\<dots> = int (card {i \<in> dom m. \<exists>r. m i = Some r \<and> is_active r})" by simp
  also have "{i \<in> dom m. \<exists>r. m i = Some r \<and> is_active r} = {i. \<exists>r. m i = Some r \<and> is_active r}" by auto
  finally show ?thesis .
qed

text \<open>C17: The books of the yield escrow are right in every reachable state, in normal and in emergency
  mode: the counter of active escrows is the number of open ones, the principal recorded for each token
  is the sum of the principals of its open escrows, every record has a positive principal, a valid
  interest share, at most one way of settlement and a token the emergency unwinding visits, and the
  portfolio of an initialised contract has one to four distinct strategies whose positive weights sum to
  10000 basis points.\<close>

theorem yield_books_balance:
  assumes "vault_steps (fresh_vault w) s"
  shows "active_escrows s = card {i. \<exists>r. yeEscrow s i = Some r \<and> is_active r}
    \<and> (\<forall>tok. total_of s tok = map_sum (open_principal tok) (yeEscrow s))
    \<and> (\<forall>i r. yeEscrow s i = Some r \<longrightarrow> 0 < ye_principal r \<and> beneficiary_interest_bps r \<le> 10000
         \<and> \<not> (ye_released r \<and> ye_cancelled r) \<and> ye_token r \<in> set (unwrap_or [] (yeTokens s)))
    \<and> (yeInitialized s \<longrightarrow> get_strategies s \<noteq> [] \<and> length (get_strategies s) \<le> 4
         \<and> distinct (map sa_address (get_strategies s))
         \<and> (\<forall>st\<in>set (get_strategies s). 0 < weight_bps st)
         \<and> sum_list (map weight_bps (get_strategies s)) = 10000)"
proof -
  have inv: "books_ok s" "yeInitialized s \<longrightarrow> portfolio_ok (get_strategies s)"
    using vault_steps_inv [OF assms fresh_vault_inv] by (simp_all add: vault_inv_def)
  then have "int (active_escrows s) = int (card {i. \<exists>r. yeEscrow s i = Some r \<and> is_active r})"
    using map_sum_open_one [of "yeEscrow s"] by (simp add: books_ok_def)
  with inv show ?thesis by (simp add: books_ok_def record_ok_def portfolio_ok_def)
qed

text \<open>The redemption of a position: parts of exactly its principal, one per strategy, and the harvest.\<close>

definition redeems :: "'w yield_env \<Rightarrow> 'w vault \<Rightarrow> YEscrow \<Rightarrow> int \<Rightarrow> 'w \<Rightarrow> bool" where
  "redeems e s r h w \<longleftrightarrow> (\<exists>parts. length parts = length (get_strategies s)
     \<and> sum_list parts = ye_principal r \<and> (\<forall>p\<in>set parts. 0 \<le> p)
     \<and> redeem_all e (ye_token r) (zip (get_strategies s) parts) (yeWorld s) = Some (h, w))"

text \<open>The interest of a position at this call: its principal times the growth of its token's index.\<close>

definition interest_due :: "'w yield_env \<Rightarrow> 'w vault \<Rightarrow> YEscrow \<Rightarrow> int \<Rightarrow> bool" where
  "interest_due e s r interest \<longleftrightarrow> (\<exists>st s1. update_yield_state e (ye_token r) s = Ok (st, s1)
     \<and> reward_debt r \<le> ys_index st
     \<and> interest = ye_principal r * (ys_index st - reward_debt r) div INDEX_SCALE)"

definition settled_for_good :: "nat \<Rightarrow> YEscrow \<Rightarrow> 'w vault \<Rightarrow> bool" where
  "settled_for_good eid r s' \<longleftrightarrow> (\<forall>t e. vault_steps s' t \<longrightarrow> yeEscrow t eid = Some r
     \<and> release e eid t = Err EscrowNotActive \<and> cancel e eid t = Err EscrowNotActive
     \<and> (is_emergency_mode t \<longrightarrow> emergency_withdraw_principal e eid t = Err EscrowNotActive))"

definition honest_balances :: "'w yield_env \<Rightarrow> 'w vault \<Rightarrow> bool" where
  "honest_balances e s \<longleftrightarrow> (\<forall>st\<in>set (get_strategies s). \<forall>tok b.
     lp_balance e (sa_address st) tok (yeWorld s) = Some b \<longrightarrow> 0 \<le> b)"

lemma closes_for_good:
  assumes "closes e eid r r' s s'" "vault_inv s"
    and "r' = r\<lparr>ye_released := True\<rparr> \<or> r' = r\<lparr>ye_cancelled := True\<rparr>"
  shows "settled_for_good eid r' s'"
proof -
  have i: "yeInitialized s" "books_ok s" using assms(1,2) by (simp_all add: closes_def vault_inv_def)
  note c = closes_books [OF assms(1) i(2) assms(3)]
  have inv: "vault_inv s'" using closes_steps_ok [OF assms] by (simp add: steps_ok_def)
  have r': "\<not> is_active r'" using assms(3) by (auto simp: is_active_def)
  show ?thesis
    unfolding settled_for_good_def
  proof (intro allI impI)
    fix t e assume "vault_steps s' t"
    then have "yeInitialized t" "yeEscrow t eid = Some r'"
      using closed_stays [OF _ inv _ _ r', of t eid] i(1) c(2,3) by simp_all
    then show "yeEscrow t eid = Some r' \<and> release e eid t = Err EscrowNotActive
       \<and> cancel e eid t = Err EscrowNotActive
       \<and> (is_emergency_mode t \<longrightarrow> emergency_withdraw_principal e eid t = Err EscrowNotActive)"
      using closed_refused r' by blast
  qed
qed

lemma settlement_amounts:
  assumes inv: "vault_inv s" and r: "yeEscrow s eid = Some r" "yeInitialized s"
    and u: "update_yield_state e (ye_token r) s = Ok (st, s1)"
    and rd: "redeem_position e r s1 = Ok ((ye_principal r, h), s2)"
    and i: "interest = ye_principal r * (ys_index st - reward_debt r) sdiv INDEX_SCALE"
    and honest: "honest_balances e s"
  shows "interest_due e s r interest" "0 \<le> interest" "redeems e s r h (yeWorld s2)"
proof -
  note s1 = update_yield_OkD [OF u]
  have ok: "record_ok s r" "portfolio_ok (get_strategies s)"
    using inv r by (auto simp: vault_inv_def books_ok_def)
  have debt: "reward_debt r \<le> ys_index st" using ok(1) s1(3) by (simp add: record_ok_def)
  then have nn: "0 \<le> ye_principal r * (ys_index st - reward_debt r)" using ok(1) by (simp add: record_ok_def)
  then have q: "interest = ye_principal r * (ys_index st - reward_debt r) div INDEX_SCALE"
    using i by (simp add: sdiv_nonneg const_defs)
  then show "interest_due e s r interest" using u debt unfolding interest_due_def by blast
  show "0 \<le> interest" using nn by (simp add: q pos_imp_zdiv_nonneg_iff const_defs)
  have gs: "get_strategies s1 = get_strategies s" by (rule get_strategies_cong) (simp_all add: s1(1))
  have w1: "yeWorld s1 = yeWorld s" by (simp add: s1(1))
  show "redeems e s r h (yeWorld s2)"
  proof (rule redeem_position_OkD [OF rd])
    show "portfolio_ok (get_strategies s1)" "0 < ye_principal r" using ok by (simp_all add: gs record_ok_def)
    show "0 \<le> b" if "st \<in> set (get_strategies s1)"
      "lp_balance e (sa_address st) (ye_token r) (yeWorld s1) = Some b" for st b
      using that honest by (auto simp: honest_balances_def gs w1)
  next
    fix ts w assume "s2 = s1\<lparr>yeWorld := w\<rparr>" "sum_list ts = ye_principal r" "\<forall>t\<in>set ts. 0 \<le> t"
      "length ts = length (get_strategies s1)"
      "redeem_all e (ye_token r) (zip (get_strategies s1) ts) (yeWorld s1) = Some (h, w)"
    then show ?thesis unfolding redeems_def gs w1 by (intro exI [of _ ts]) simp
  qed
qed

lemma split_interest_OkD:
  assumes "split_interest p i bps = Ok (b, q)" "0 \<le> i" "bps \<le> 10000"
  shows "b = p + i * int bps div 10000" "q = i - i * int bps div 10000" "0 \<le> q" "p \<le> b"
proof -
  have *: "b = p + i * int bps sdiv 10000" "q = i - i * int bps sdiv 10000"
    using assms(1) by (auto simp: split_interest_def Let_def outcome_simps i128_checked_mul_def
        i128_add_def i128_sub_def const_defs split: if_splits)
  have n: "0 \<le> i * int bps" using assms(2) by simp
  have "i * int bps \<le> i * 10000" using assms(2,3) by (intro mult_left_mono) auto
  then have "i * int bps div 10000 \<le> i" by (simp add: zdiv_mono1 [of _ "i * 10000" 10000, simplified])
  moreover have "0 \<le> i * int bps div 10000" using n by (simp add: pos_imp_zdiv_nonneg_iff)
  ultimately show "b = p + i * int bps div 10000" "q = i - i * int bps div 10000" "0 \<le> q" "p \<le> b"
    using * n by (simp_all add: sdiv_nonneg)
qed

lemma release_pays:
  assumes inv: "vault_inv s" and normal: "\<not> is_emergency_mode s" and honest: "honest_balances e s"
    and ok: "release e eid s = Ok (out, s')"
  shows "\<exists>r h w1 w2. yeEscrow s eid = Some r \<and> is_active r \<and> release_ledger r \<le> seq e
         \<and> redeems e s r h w1 \<and> interest_due e s r (ro_interest out)
         \<and> ro_principal out = ye_principal r \<and> 0 \<le> ro_interest out \<and> ro_interest out \<le> h
         \<and> ro_to_beneficiary out
             = ye_principal r + ro_interest out * int (beneficiary_interest_bps r) div 10000
         \<and> ro_to_beneficiary out + ro_to_payer out = ye_principal r + ro_interest out
         \<and> ye_principal r \<le> ro_to_beneficiary out \<and> 0 \<le> ro_to_payer out
         \<and> paid e (ye_token r) (ye_beneficiary r) (ro_to_beneficiary out) w1 w2
         \<and> paid e (ye_token r) (ye_payer r) (ro_to_payer out) w2 (yeWorld s')
         \<and> settled_for_good eid (r\<lparr>ye_released := True\<rparr>) s'"
  using ok normal
proof (rule release_normal_OkD)
  fix r st s1 h s2 w1
  assume r: "yeEscrow s eid = Some r" "is_active r" "release_ledger r \<le> seq e"
    and n: "update_yield_state e (ye_token r) s = Ok (st, s1)"
      "redeem_position e r s1 = Ok ((ye_principal r, h), s2)" "ro_interest out \<le> h"
      "ro_interest out = ye_principal r * (ys_index st - reward_debt r) sdiv INDEX_SCALE"
      "ro_principal out = ye_principal r"
    and sp: "split_interest (ye_principal r) (ro_interest out) (beneficiary_interest_bps r)
     = Ok (ro_to_beneficiary out, ro_to_payer out)"
    and p: "paid e (ye_token r) (ye_beneficiary r) (ro_to_beneficiary out) (yeWorld s2) w1"
      "paid e (ye_token r) (ye_payer r) (ro_to_payer out) w1 (yeWorld s')"
    and c: "closes e eid r (r\<lparr>ye_released := True\<rparr>) s s'"
  have init: "yeInitialized s" and bps: "beneficiary_interest_bps r \<le> 10000"
    using c inv r(1) by (auto simp: closes_def vault_inv_def books_ok_def record_ok_def)
  note a = settlement_amounts [OF inv r(1) init n(1,2,4) honest]
  note sp' = split_interest_OkD [OF sp a(2) bps]
  show ?thesis
    using r a n(3,5) sp' p closes_for_good [OF c inv] by (intro exI [of _ r]) auto
qed

lemma cancel_pays:
  assumes inv: "vault_inv s" and normal: "\<not> is_emergency_mode s" and honest: "honest_balances e s"
    and ok: "cancel e eid s = Ok (out, s')"
  shows "\<exists>r h w1. yeEscrow s eid = Some r \<and> is_active r \<and> seq e < release_ledger r \<and> auth e (ye_payer r)
         \<and> redeems e s r h w1 \<and> interest_due e s r (ro_interest out)
         \<and> ro_principal out = ye_principal r \<and> 0 \<le> ro_interest out \<and> ro_interest out \<le> h
         \<and> ro_to_beneficiary out = 0 \<and> ro_to_payer out = ye_principal r + ro_interest out
         \<and> paid e (ye_token r) (ye_payer r) (ro_to_payer out) w1 (yeWorld s')
         \<and> settled_for_good eid (r\<lparr>ye_cancelled := True\<rparr>) s'"
  using ok normal
proof (rule cancel_normal_OkD)
  fix r st s1 h s2
  assume r: "yeEscrow s eid = Some r" "is_active r" "seq e < release_ledger r" "auth e (ye_payer r)"
    and n: "update_yield_state e (ye_token r) s = Ok (st, s1)"
      "redeem_position e r s1 = Ok ((ye_principal r, h), s2)" "ro_interest out \<le> h"
      "ro_interest out = ye_principal r * (ys_index st - reward_debt r) sdiv INDEX_SCALE"
      "ro_principal out = ye_principal r" "ro_to_beneficiary out = 0"
      "ro_to_payer out = ye_principal r + ro_interest out"
    and p: "paid e (ye_token r) (ye_payer r) (ro_to_payer out) (yeWorld s2) (yeWorld s')"
    and c: "closes e eid r (r\<lparr>ye_cancelled := True\<rparr>) s s'"
  have init: "yeInitialized s" using c by (simp add: closes_def)
  note a = settlement_amounts [OF inv r(1) init n(1,2,4) honest]
  show ?thesis
    using r a n(3,5-7) p closes_for_good [OF c inv] by (intro exI [of _ r]) auto
qed

text \<open>C18: A settlement outside the emergency mode pays exactly and once. \<open>release\<close>, from the release ledger
  on, withdraws exactly the principal in parts from the strategies, pays the beneficiary the principal
  plus the floor of its share of the interest and the payer the rest of the interest; \<open>cancel\<close>, before
  it and with the payer's authorisation, pays the payer principal and interest. The interest is the
  principal times the growth of the token's yield index since the deposit, never negative and never more
  than what the strategies handed over in the harvest. The record is closed, and in every later state
  all three ways of settling it are refused.\<close>

theorem settlement_pays_exactly:
  assumes "vault_steps (fresh_vault w) s" "\<not> is_emergency_mode s" "honest_balances e s"
  shows "(release e eid s = Ok (out, s') \<longrightarrow>
      (\<exists>r h w1 w2. yeEscrow s eid = Some r \<and> is_active r \<and> release_ledger r \<le> seq e
         \<and> redeems e s r h w1 \<and> interest_due e s r (ro_interest out)
         \<and> ro_principal out = ye_principal r \<and> 0 \<le> ro_interest out \<and> ro_interest out \<le> h
         \<and> ro_to_beneficiary out
             = ye_principal r + ro_interest out * int (beneficiary_interest_bps r) div 10000
         \<and> ro_to_beneficiary out + ro_to_payer out = ye_principal r + ro_interest out
         \<and> ye_principal r \<le> ro_to_beneficiary out \<and> 0 \<le> ro_to_payer out
         \<and> paid e (ye_token r) (ye_beneficiary r) (ro_to_beneficiary out) w1 w2
         \<and> paid e (ye_token r) (ye_payer r) (ro_to_payer out) w2 (yeWorld s')
         \<and> settled_for_good eid (r\<lparr>ye_released := True\<rparr>) s'))
    \<and> (cancel e eid s = Ok (out, s') \<longrightarrow>
      (\<exists>r h w1. yeEscrow s eid = Some r \<and> is_active r \<and> seq e < release_ledger r \<and> auth e (ye_payer r)
         \<and> redeems e s r h w1 \<and> interest_due e s r (ro_interest out)
         \<and> ro_principal out = ye_principal r \<and> 0 \<le> ro_interest out \<and> ro_interest out \<le> h
         \<and> ro_to_beneficiary out = 0 \<and> ro_to_payer out = ye_principal r + ro_interest out
         \<and> paid e (ye_token r) (ye_payer r) (ro_to_payer out) w1 (yeWorld s')
         \<and> settled_for_good eid (r\<lparr>ye_cancelled := True\<rparr>) s'))"
proof -
  have inv: "vault_inv s" by (rule vault_steps_inv [OF assms(1) fresh_vault_inv])
  show ?thesis
    using release_pays [OF inv assms(2,3)] cancel_pays [OF inv assms(2,3)] by (intro conjI impI)
qed

section \<open>The emergency mode\<close>

lemma emergency_steps:
  assumes "vault_steps s t" "vault_inv s" "yeInitialized s" "is_emergency_mode s"
  shows "yeInitialized t \<and> is_emergency_mode t \<and> get_strategies t = get_strategies s
    \<and> dom (yeEscrow t) = dom (yeEscrow s)"
  using assms
proof (induction rule: vault_steps.induct)
  case (called s t e c u)
  have "steps_ok t u" using yield_exec_ok [OF called.hyps(2) vault_steps_inv] called by blast
  then show ?case using called.IH [OF called.prems] by (simp add: steps_ok_def)
next
  case (elsewhere s t w)
  have "get_strategies (t\<lparr>yeWorld := w\<rparr>) = get_strategies t" by (rule get_strategies_cong) simp_all
  with elsewhere show ?case by (simp add: is_emergency_mode_def)
qed simp

lemma open_principal_le:
  assumes "books_ok s" "yeEscrow s eid = Some r" "is_active r"
  shows "0 \<le> total_of s (ye_token r) - ye_principal r"
proof -
  let ?m = "yeEscrow s" and ?r = "r\<lparr>ye_released := True\<rparr>"
  have fin: "finite (dom ?m)" using assms(1) by (simp add: books_ok_def)
  have pos: "0 \<le> open_principal (ye_token r) (?m i)" for i
    using assms(1) by (auto simp: books_ok_def record_ok_def open_principal_def less_imp_le split: option.splits)
  have "0 \<le> open_principal (ye_token r) ((?m(eid \<mapsto> ?r)) i)" for i
    using pos [of i] by (simp add: open_principal_def is_active_def)
  then have "0 \<le> map_sum (open_principal (ye_token r)) (?m(eid \<mapsto> ?r))"
    unfolding map_sum_def by (intro sum_nonneg)
  also have "\<dots> = total_of s (ye_token r) - ye_principal r"
    using assms by (simp add: map_sum_upd [OF fin] open_principal_def is_active_def books_ok_def)
  finally show ?thesis .
qed

lemma close_escrow_succeeds:
  assumes "books_ok s" "yeEscrow s eid = Some r" "is_active r" "ye_token r' = ye_token r"
  shows "\<exists>s'. close_escrow e eid r' (ye_principal r) True (s\<lparr>yeWorld := w\<rparr>) = Ok s'"
proof -
  have ok: "record_ok s r" "i128_ok (total_of s (ye_token r))" using assms(1,2) by (simp_all add: books_ok_def)
  then obtain st where st: "yeYield s (ye_token r) = Some st" by (auto simp: record_ok_def)
  have fits: "i128_ok (ys_total_principal st - ye_principal r)"
    using open_principal_le [OF assms(1-3)] ok st
    by (auto simp: i128_ok_def total_of_def record_ok_def)
  have "finite {i. \<exists>r. yeEscrow s i = Some r \<and> is_active r}"
    by (rule finite_subset [of _ "dom (yeEscrow s)"]) (use assms(1) in \<open>auto simp: books_ok_def\<close>)
  then have "0 < card {i. \<exists>r. yeEscrow s i = Some r \<and> is_active r}"
    using assms(2,3) by (auto simp: card_gt_0_iff)
  then have "active_escrows s \<noteq> 0"
    using assms(1) map_sum_open_one [of "yeEscrow s"] by (simp add: books_ok_def)
  then show ?thesis using st fits
    by (simp add: close_escrow_def remove_active_principal_def sub_active_def i128_checked_sub_def
        assms(4) active_escrows_def)
qed

text \<open>C40: The emergency mode is final, and opens every escrow to everyone: once it is on, no call ever
  leaves it, no escrow is created and the portfolio stays as it is; and any open escrow can be released
  at once by any caller, whatever the ledger is and whoever signed. The release pays the beneficiary the
  principal or, if less, what the contract holds of the token, nothing to the payer, and closes the
  escrow for good even when the payout falls short of the principal or is zero.\<close>

theorem emergency_mode_is_final:
  assumes "vault_steps (fresh_vault w) s" "yeInitialized s" "is_emergency_mode s"
  shows "(vault_steps s t \<longrightarrow> is_emergency_mode t \<and> get_strategies t = get_strategies s
        \<and> dom (yeEscrow t) = dom (yeEscrow s))
    \<and> create_escrow e eid payer beneficiary tok amount deadline bps s = Err EmergencyModeActive
    \<and> (yeEscrow s eid = Some r \<longrightarrow> is_active r
        \<longrightarrow> tok_balance e (ye_token r) (self e) (yeWorld s) = Some held
        \<longrightarrow> paid e (ye_token r) (ye_beneficiary r) (min held (ye_principal r)) (yeWorld s) w'
        \<longrightarrow> (\<exists>out s'. release e eid s = Ok (out, s')
              \<and> ro_to_beneficiary out = min held (ye_principal r) \<and> ro_to_payer out = 0
              \<and> yeWorld s' = w' \<and> settled_for_good eid (r\<lparr>ye_released := True\<rparr>) s'))"
proof (intro conjI impI)
  note inv = vault_steps_inv [OF assms(1) fresh_vault_inv]
  show "is_emergency_mode t" "get_strategies t = get_strategies s" "dom (yeEscrow t) = dom (yeEscrow s)"
    if "vault_steps s t" using emergency_steps [OF that inv assms(2,3)] by simp_all
  show "create_escrow e eid payer beneficiary tok amount deadline bps s = Err EmergencyModeActive"
    using assms(2,3) by (simp add: create_escrow_def require_initialized_def)
  assume r: "yeEscrow s eid = Some r" "is_active r"
    and held: "tok_balance e (ye_token r) (self e) (yeWorld s) = Some held"
    and pay: "paid e (ye_token r) (ye_beneficiary r) (min held (ye_principal r)) (yeWorld s) w'"
  have "books_ok s" using inv by (simp add: vault_inv_def)
  from close_escrow_succeeds [OF this r, of "r\<lparr>ye_released := True\<rparr>" e w']
  obtain s1 where "close_escrow e eid (r\<lparr>ye_released := True\<rparr>) (ye_principal r) True (s\<lparr>yeWorld := w'\<rparr>) = Ok s1"
    by auto
  with r held pay have "\<exists>out s'. release e eid s = Ok (out, s')"
    by (simp add: release_def require_initialized_def open_escrow_def assms(2,3) balance_of_def Let_def
        pay_if_positive_eq [THEN iffD2])
  then obtain out s' where rel: "release e eid s = Ok (out, s')" by blast
  show "\<exists>out s'. release e eid s = Ok (out, s') \<and> ro_to_beneficiary out = min held (ye_principal r)
      \<and> ro_to_payer out = 0 \<and> yeWorld s' = w' \<and> settled_for_good eid (r\<lparr>ye_released := True\<rparr>) s'"
    using rel assms(3)
  proof (rule release_emergency_OkD)
    fix r' b
    assume r': "yeEscrow s eid = Some r'" "tok_balance e (ye_token r') (self e) (yeWorld s) = Some b"
      and out: "out = \<lparr>ro_principal = min b (ye_principal r'), ro_interest = 0,
       ro_to_beneficiary = min b (ye_principal r'), ro_to_payer = 0\<rparr>"
      and pay': "paid e (ye_token r') (ye_beneficiary r') (min b (ye_principal r')) (yeWorld s) (yeWorld s')"
      and c: "closes e eid r' (r'\<lparr>ye_released := True\<rparr>) s s'"
    have same: "r' = r" "b = held" using r'(1,2) r(1) held by simp_all
    have "yeWorld s' = w'" using pay pay' by (auto simp: paid_def same split: if_splits)
    then show ?thesis using rel out closes_for_good [OF c inv] by (simp add: same)
  qed
qed

section \<open>A run\<close>

text \<open>
  Contract 9, strategies 20 and 21, token 5; the world maps accounts to what they hold. A deposit moves
  the amount to the strategy, a withdrawal back, a harvest brings 5 new units.
\<close>

definition yield_sample_env :: "nat \<Rightarrow> nat \<Rightarrow> (address \<Rightarrow> int) yield_env" where
  "yield_sample_env time ledger = \<lparr>now = time, seq = ledger, self = 9, auth = (\<lambda>a. a = 1 \<or> a = 2),
     sha256 = (\<lambda>b. b), ed25519 = (\<lambda>k m s. True), tok_balance = (\<lambda>tok a w. Some (w a)),
     tok_allowance = (\<lambda>tok a sp w. Some 0),
     tok_transfer = (\<lambda>tok src dst a w. Done (w(src := w src - a, dst := w dst + a))),
     tok_transfer_from = (\<lambda>tok sp src dst a w. Failed),
     lp_deposit = (\<lambda>st src tok a w. Some (w(src := w src - a, st := w st + a))),
     lp_withdraw = (\<lambda>st dst tok a w. Some (w(st := w st - a, dst := w dst + a))),
     lp_harvest = (\<lambda>st dst tok w. Some (5, w(dst := w dst + 5))),
     lp_rate = (\<lambda>st tok w. Some 1000), lp_balance = (\<lambda>st tok w. Some (w st))\<rparr>"

lemma yield_sample_simps [simp]:
  "now (yield_sample_env t l) = t" "seq (yield_sample_env t l) = l" "self (yield_sample_env t l) = 9"
  "auth (yield_sample_env t l) a = (a = 1 \<or> a = 2)"
  "tok_balance (yield_sample_env t l) tok a w = Some (w a)"
  "tok_transfer (yield_sample_env t l) tok src dst b w = Done (w(src := w src - b, dst := w dst + b))"
  "lp_deposit (yield_sample_env t l) st src tok b w = Some (w(src := w src - b, st := w st + b))"
  "lp_withdraw (yield_sample_env t l) st dst tok b w = Some (w(st := w st - b, dst := w dst + b))"
  "lp_harvest (yield_sample_env t l) st dst tok w = Some (5, w(dst := w dst + 5))"
  "lp_rate (yield_sample_env t l) st tok w = Some 1000"
  "lp_balance (yield_sample_env t l) st tok w = Some (w st)"
  by (simp_all add: yield_sample_env_def)

definition sample_portfolio :: "StrategyAllocation list" where
  "sample_portfolio = [\<lparr>sa_address = 20, weight_bps = 6000\<rparr>, \<lparr>sa_address = 21, weight_bps = 4000\<rparr>]"

definition sample_position :: YEscrow where
  "sample_position = \<lparr>ye_payer = 2, ye_beneficiary = 3, ye_token = 5, ye_principal = 1001,
     release_ledger = 100, beneficiary_interest_bps = 5000, reward_debt = 0, ye_released = False,
     ye_cancelled = False\<rparr>"

definition vault_world :: "address \<Rightarrow> int" where "vault_world a = (if a = 2 then 2000 else 0)"

definition sample_vault :: "(address \<Rightarrow> int) vault" where
  "sample_vault = \<lparr>yeInitialized = True, yeAdmin = Some 1, yeAdapter = Some 20,
     yeStrategies = Some sample_portfolio, yeThreshold = None, yeLastRebalance = Map.empty,
     yeActive = Some 1, yeEscrow = [7 \<mapsto> sample_position],
     yeYield = [5 \<mapsto> \<lparr>ys_index = 0, ys_updated_at = 0, ys_rate_bps = 1000, ys_total_principal = 1001\<rparr>],
     yeTokens = Some [5], yeEmergency = Some False,
     yeWorld = vault_world(2 := 999, 9 := 0, 20 := 601, 21 := 400),
     yeEvents = [Event ''init'' [AddrArg 1, AddrArg 20], Event ''strats'' [AddrArg 1, NatArg 2],
       Event ''created'' [NatArg 7, AddrArg 2, AddrArg 3, AddrArg 5, IntArg 1001, NatArg 100, NatArg 5000]]\<rparr>"

definition opened_vault :: "(address \<Rightarrow> int) vault" where
  "opened_vault = \<lparr>yeInitialized = True, yeAdmin = Some 1, yeAdapter = Some 20,
     yeStrategies = Some sample_portfolio, yeThreshold = None, yeLastRebalance = Map.empty,
     yeActive = Some 0, yeEscrow = Map.empty, yeYield = Map.empty, yeTokens = Some [],
     yeEmergency = Some False, yeWorld = vault_world,
     yeEvents = [Event ''init'' [AddrArg 1, AddrArg 20], Event ''strats'' [AddrArg 1, NatArg 2]]\<rparr>"

lemmas vault_run_simps = require_initialized_def ye_require_admin_def is_emergency_mode_def
  active_escrows_def get_strategies_def require_auth_def Let_def const_defs arith_defs i128_ok_def u32_ok_def

lemma opened_vault_reached: "vault_steps (fresh_vault vault_world) opened_vault"
proof -
  let ?e = "yield_sample_env 0 10"
  obtain s where s: "yield_exec ?e (YInitialize 1 20) (fresh_vault vault_world) = Ok s"
    "yield_exec ?e (YSetStrategies sample_portfolio) s = Ok opened_vault"
    by (simp add: ye_initialize_def fresh_vault_def set_strategies_def vault_run_simps validate_strategies_def
        sample_portfolio_def store_strategies_def opened_vault_def)
  then show ?thesis by (blast intro: vault_steps.intros)
qed

lemma sample_parts:
  "scaled_parts 1001 10000 [6000, 4000] 0 = Ok ([600, 400], 1000)"
  by (simp add: arith_defs i128_ok_def Let_def sdiv_nonneg)

lemma sample_rate:
  "get_strategies s = sample_portfolio \<Longrightarrow>
     get_weighted_yield_rate (yield_sample_env t l) tok s = Ok 1000"
  by (simp add: get_weighted_yield_rate_def sample_portfolio_def Let_def const_defs)

lemma opened_vault_simps [simp]:
  "yeInitialized opened_vault" "get_strategies opened_vault = sample_portfolio"
  "\<not> is_emergency_mode opened_vault" "yeYield opened_vault = Map.empty"
  "yeEscrow opened_vault = Map.empty" "yeWorld opened_vault = vault_world"
  "yeTokens opened_vault = Some []" "yeActive opened_vault = Some 0"
  "yeStrategies opened_vault = Some sample_portfolio" "yeEmergency opened_vault = Some False"
  by (simp_all add: opened_vault_def get_strategies_def is_emergency_mode_def)

lemma sample_vault_created:
  "create_escrow (yield_sample_env 0 10) 7 2 3 5 1001 100 5000 opened_vault = Ok ((), sample_vault)"
proof -
  let ?e = "yield_sample_env 0 10"
  let ?st = "\<lparr>ys_index = 0, ys_updated_at = 0, ys_rate_bps = 1000, ys_total_principal = 0\<rparr>"
  have u: "update_yield_state ?e 5 opened_vault
      = Ok (?st, opened_vault\<lparr>yeYield := [5 \<mapsto> ?st]\<rparr>)"
    by (simp add: update_yield_state_def sample_rate Let_def arith_defs i128_ok_def const_defs)
  have w: "weights_of sample_portfolio = [6000, 4000]" by (simp add: weights_of_def sample_portfolio_def)
  have l: "supply_loop ?e 5 0 1 (zip sample_portfolio [600, 400]) (vault_world(2 := 999, 9 := 1001))
      = Ok (vault_world(2 := 999, 9 := 0, 20 := 601, 21 := 400))"
    by (simp add: sample_portfolio_def dusted_def i128_add_def i128_ok_def vault_world_def fun_eq_iff)
  have x: "tok_transfer ?e 5 2 9 1001 vault_world = Done (vault_world(2 := 999, 9 := 1001))"
    by (simp add: vault_world_def fun_eq_iff)
  show ?thesis
    unfolding create_escrow_def
    by (simp add: u w l x sample_parts require_initialized_def require_auth_def const_defs transfer_def
        record_token_def sample_rate get_strategies_def Let_def i128_sub_def i128_checked_add_def
        i128_ok_def add_active_def active_escrows_def u32_checked_add_def u32_ok_def
        del: scaled_parts.simps supply_loop.simps yield_sample_simps(6))
      (simp add: opened_vault_def sample_vault_def sample_position_def)
qed

lemma sample_vault_reached: "vault_steps (fresh_vault vault_world) sample_vault"
proof -
  have "yield_exec (yield_sample_env 0 10) (YCreate 7 2 3 5 1001 100 5000) opened_vault = Ok sample_vault"
    by (simp add: sample_vault_created)
  then show ?thesis by (rule vault_steps.called [OF opened_vault_reached])
qed

lemma sample_vault_simps [simp]:
  "yeInitialized sample_vault" "get_strategies sample_vault = sample_portfolio"
  "\<not> is_emergency_mode sample_vault" "yeEmergency sample_vault = Some False"
  "yeYield sample_vault
     = [5 \<mapsto> \<lparr>ys_index = 0, ys_updated_at = 0, ys_rate_bps = 1000, ys_total_principal = 1001\<rparr>]"
  "yeEscrow sample_vault = [7 \<mapsto> sample_position]" "yeActive sample_vault = Some 1"
  "yeStrategies sample_vault = Some sample_portfolio"
  "yeWorld sample_vault = vault_world(2 := 999, 9 := 0, 20 := 601, 21 := 400)"
  by (simp_all add: sample_vault_def get_strategies_def is_emergency_mode_def)

lemma sample_settled:
  defines "e \<equiv> yield_sample_env 3153600 100"
  shows "\<exists>s1. settle_normal e sample_position sample_vault = Ok ((1001, 10), s1)
    \<and> s1 = sample_vault\<lparr>yeYield := [5 \<mapsto> \<lparr>ys_index = 10000000000, ys_updated_at = 3153600,
               ys_rate_bps = 1000, ys_total_principal = 1001\<rparr>],
             yeWorld := vault_world(2 := 999, 9 := 1011, 20 := 0, 21 := 0)\<rparr>"
proof -
  let ?st = "\<lparr>ys_index = 10000000000, ys_updated_at = 3153600, ys_rate_bps = 1000,
    ys_total_principal = 1001\<rparr>"
  let ?w = "vault_world(2 := 999, 9 := 0, 20 := 601, 21 := 400)"
  have u: "update_yield_state e 5 sample_vault = Ok (?st, sample_vault\<lparr>yeYield := [5 \<mapsto> ?st]\<rparr>)"
    by (simp add: e_def update_yield_state_def sample_rate Let_def arith_defs i128_ok_def const_defs
        sdiv_nonneg)
  have b: "read_balances e 5 ?w sample_portfolio 0 = Ok ([601, 400], 1001)"
    by (simp add: e_def sample_portfolio_def arith_defs i128_ok_def)
  have p: "redeem_shares sample_position sample_portfolio [601, 400] 1001 = Ok ([601, 400], 1001)"
    by (simp add: redeem_shares_def sample_position_def arith_defs i128_ok_def Let_def sdiv_nonneg)
  have l: "redeem_loop e 5 0 0 (zip sample_portfolio [601, 400]) 0 ?w
      = Ok (10, vault_world(2 := 999, 9 := 1011, 20 := 0, 21 := 0))"
    by (simp add: e_def sample_portfolio_def dusted_def arith_defs i128_ok_def fun_eq_iff)
  have pos: "ye_token sample_position = 5" "ye_principal sample_position = 1001"
    "reward_debt sample_position = 0" by (simp_all add: sample_position_def)
  show ?thesis
    by (simp add: settle_normal_def redeem_position_def position_yield_def u b p l pos get_strategies_def
        Let_def arith_defs i128_ok_def const_defs sdiv_nonneg
        del: read_balances.simps redeem_loop.simps)
qed

lemma sample_released:
  "\<exists>s'. release (yield_sample_env 3153600 100) 7 sample_vault
     = Ok (\<lparr>ro_principal = 1001, ro_interest = 10, ro_to_beneficiary = 1006, ro_to_payer = 5\<rparr>, s')
     \<and> yeWorld s' 3 = 1006 \<and> yeWorld s' 2 = 1004"
proof -
  obtain s1 where n: "settle_normal (yield_sample_env 3153600 100) sample_position sample_vault
      = Ok ((1001, 10), s1)"
    and s1: "s1 = sample_vault\<lparr>yeYield := [5 \<mapsto> \<lparr>ys_index = 10000000000, ys_updated_at = 3153600,
               ys_rate_bps = 1000, ys_total_principal = 1001\<rparr>],
             yeWorld := vault_world(2 := 999, 9 := 1011, 20 := 0, 21 := 0)\<rparr>"
    using sample_settled by blast
  have o: "open_escrow 7 sample_vault = Ok sample_position"
    by (simp add: open_escrow_def is_active_def sample_position_def)
  have sp: "split_interest 1001 10 5000 = Ok (1006, 5)"
    by (simp add: split_interest_def Let_def arith_defs i128_ok_def const_defs sdiv_nonneg)
  have pos: "ye_token sample_position = 5" "release_ledger sample_position = 100"
    "ye_beneficiary sample_position = 3" "ye_payer sample_position = 2"
    "beneficiary_interest_bps sample_position = 5000" by (simp_all add: sample_position_def)
  show ?thesis
    by (simp add: release_def require_initialized_def o n sp pos Let_def pay_if_positive_def transfer_def
        close_escrow_def remove_active_principal_def sub_active_def s1 sample_rate get_strategies_def
        is_emergency_mode_def active_escrows_def arith_defs i128_ok_def)
      (simp add: vault_world_def)
qed

theorem yield_books_balance_witness:
  "total_of sample_vault 5 = 1001 \<and> map_sum (open_principal 5) (yeEscrow sample_vault) = 1001"
proof -
  have "total_of sample_vault 5 = map_sum (open_principal 5) (yeEscrow sample_vault)"
    using yield_books_balance [OF sample_vault_reached] by blast
  moreover have "total_of sample_vault 5 = 1001" by (simp add: total_of_def)
  ultimately show ?thesis by simp
qed

theorem settlement_pays_exactly_witness:
  "\<exists>out s'. release (yield_sample_env 3153600 100) 7 sample_vault = Ok (out, s')
     \<and> ro_to_beneficiary out = 1006 \<and> settled_for_good 7 (sample_position\<lparr>ye_released := True\<rparr>) s'"
proof -
  have honest: "honest_balances (yield_sample_env 3153600 100) sample_vault"
    by (simp add: honest_balances_def sample_portfolio_def)
  obtain out s' where "release (yield_sample_env 3153600 100) 7 sample_vault = Ok (out, s')"
    "ro_to_beneficiary out = 1006" using sample_released by fastforce
  moreover from this(1) have "settled_for_good 7 (sample_position\<lparr>ye_released := True\<rparr>) s'"
    using settlement_pays_exactly [OF sample_vault_reached _ honest, of 7 out s'] by auto
  ultimately show ?thesis by blast
qed

text \<open>The sample contract after its admin unwound the strategies: the vault holds 1011 units.\<close>

definition unwound_vault :: "(address \<Rightarrow> int) vault" where
  "unwound_vault = sample_vault\<lparr>yeEmergency := Some True,
     yeYield := [5 \<mapsto> \<lparr>ys_index = 0, ys_updated_at = 60, ys_rate_bps = 0, ys_total_principal = 1001\<rparr>],
     yeWorld := vault_world(2 := 999, 9 := 1011, 20 := 0, 21 := 0),
     yeEvents := yeEvents sample_vault @ [Event ''unwind'' [AddrArg 1, IntArg 1011, IntArg 1000]]\<rparr>"

lemma unwound_vault_reached: "vault_steps (fresh_vault vault_world) unwound_vault"
proof -
  let ?e = "yield_sample_env 60 20"
  have "unwind_token_from_strategies ?e 5 sample_portfolio (vault_world(2 := 999, 9 := 0, 20 := 601, 21 := 400))
      = Ok (1011, vault_world(2 := 999, 9 := 1011, 20 := 0, 21 := 0))"
    by (simp add: unwind_token_from_strategies_def balance_of_def sample_portfolio_def arith_defs i128_ok_def
        fun_eq_iff)
  moreover have "yeTokens sample_vault = Some [5]" "yeAdmin sample_vault = Some 1"
    by (simp_all add: sample_vault_def)
  ultimately have "yield_exec ?e (YUnwindAll 1000) sample_vault = Ok unwound_vault"
    by (simp add: emergency_unwind_strategy_def require_initialized_def ye_require_admin_def require_auth_def
        Let_def arith_defs i128_ok_def stop_yield_def unwound_vault_def is_emergency_mode_def)
  then show ?thesis by (rule vault_steps.called [OF sample_vault_reached])
qed

theorem emergency_mode_is_final_witness:
  "\<exists>out s'. release (yield_sample_env 61 21) 7 unwound_vault = Ok (out, s') \<and> 21 < release_ledger sample_position
     \<and> ro_to_beneficiary out = 1001 \<and> ro_to_payer out = 0"
proof -
  have e: "yeInitialized unwound_vault" "is_emergency_mode unwound_vault" "yeEscrow unwound_vault 7 = Some sample_position"
    by (simp_all add: unwound_vault_def is_emergency_mode_def)
  have p: "is_active sample_position" "ye_token sample_position = 5" "ye_principal sample_position = 1001"
    "21 < release_ledger sample_position" by (simp_all add: sample_position_def is_active_def)
  have held: "tok_balance (yield_sample_env 61 21) (ye_token sample_position) (self (yield_sample_env 61 21))
      (yeWorld unwound_vault) = Some 1011" by (simp add: unwound_vault_def)
  have "\<exists>w'. paid (yield_sample_env 61 21) (ye_token sample_position) (ye_beneficiary sample_position)
      (min 1011 (ye_principal sample_position)) (yeWorld unwound_vault) w'"
    by (simp add: paid_def p)
  then obtain w' where w': "paid (yield_sample_env 61 21) (ye_token sample_position)
      (ye_beneficiary sample_position) (min 1011 (ye_principal sample_position)) (yeWorld unwound_vault) w'" ..
  show ?thesis
    using emergency_mode_is_final [OF unwound_vault_reached e(1,2), of unwound_vault "yield_sample_env 61 21"
        7 0 0 0 0 0 0 sample_position 1011 w'] e(3) p held w' by (auto simp: p)
qed

end
