(* ===== verification/Yield_Portfolio.thy ===== *)
theory Yield_Portfolio
  imports Yield_Settlement
begin

text \<open>
  Properties of the yield escrow's portfolio (\<open>yield_escrow/src/lib.rs\<close>): deposits are split over the
  strategies by weight, a rebalancing brings every strategy to its target, and what the portfolio calls
  can change.
\<close>

section \<open>Moves between strategies\<close>

text \<open>Lending protocols whose balance moves by exactly the amount deposited or withdrawn.\<close>

definition exact_lending :: "'w yield_env \<Rightarrow> bool" where
  "exact_lending e \<longleftrightarrow>
     (\<forall>st who tok a w w'. lp_deposit e st who tok a w = Some w' \<longrightarrow>
        (\<forall>x. lp_balance e x tok w' = map_option (\<lambda>b. b + (if x = st then a else 0)) (lp_balance e x tok w)))
     \<and> (\<forall>st who tok a w w'. lp_withdraw e st who tok a w = Some w' \<longrightarrow>
        (\<forall>x. lp_balance e x tok w' = map_option (\<lambda>b. b - (if x = st then a else 0)) (lp_balance e x tok w)))"

definition change_at :: "address \<Rightarrow> (StrategyAllocation \<times> int \<times> int) list \<Rightarrow> (int \<Rightarrow> int) \<Rightarrow> int" where
  "change_at x moves f = sum_list (map (\<lambda>(st, current, target).
     if sa_address st = x then f (target - current) else 0) moves)"

lemma change_at_simps [simp]:
  "change_at x [] f = 0"
  "change_at x ((st, c, t) # moves) f
     = (if sa_address st = x then f (t - c) else 0) + change_at x moves f"
  by (simp_all add: change_at_def)

lemma withdraw_excess_balances:
  assumes "exact_lending e" "withdraw_excess e tok moves w = Ok w'"
  shows "lp_balance e x tok w' = map_option (\<lambda>b. b + change_at x moves (min 0)) (lp_balance e x tok w)"
  using assms(2)
proof (induction moves arbitrary: w)
  case Nil
  then show ?case by (simp add: option.map_id [unfolded id_def])
next
  case (Cons m moves)
  obtain st c t where m: "m = (st, c, t)" by (cases m) auto
  from Cons.prems obtain w1 where w1: "withdraw_excess e tok moves w1 = Ok w'"
    and step: "(if c > t then bnd (i128_sub c t) (\<lambda>excess.
       unwrap (lp_withdraw e (sa_address st) (self e) tok excess w)) else Ok w) = (Ok w1 :: (yield_error, _) outcome)"
    by (auto simp: m bnd_eq_Ok)
  have "lp_balance e x tok w1
      = map_option (\<lambda>b. b + (if sa_address st = x then min 0 (t - c) else 0)) (lp_balance e x tok w)"
  proof (cases "c > t")
    case True
    then have "lp_withdraw e (sa_address st) (self e) tok (c - t) w = Some w1"
      using step by (auto simp: i128_sub_def outcome_simps split: if_splits)
    then have "lp_balance e x tok w1
        = map_option (\<lambda>b. b - (if x = sa_address st then c - t else 0)) (lp_balance e x tok w)"
      using assms(1) unfolding exact_lending_def by blast
    with True show ?thesis by (cases "lp_balance e x tok w") auto
  next
    case False
    with step show ?thesis by (cases "lp_balance e x tok w") auto
  qed
  with Cons.IH [OF w1] show ?case by (cases "lp_balance e x tok w") (simp_all add: m)
qed

lemma deposit_deficit_balances:
  assumes "exact_lending e" "deposit_deficit e tok moves w = Ok w'"
  shows "lp_balance e x tok w' = map_option (\<lambda>b. b + change_at x moves (max 0)) (lp_balance e x tok w)"
  using assms(2)
proof (induction moves arbitrary: w)
  case Nil
  then show ?case by (simp add: option.map_id [unfolded id_def])
next
  case (Cons m moves)
  obtain st c t where m: "m = (st, c, t)" by (cases m) auto
  from Cons.prems obtain w1 where w1: "deposit_deficit e tok moves w1 = Ok w'"
    and step: "(if c < t then bnd (i128_sub t c) (\<lambda>deficit.
       unwrap (lp_deposit e (sa_address st) (self e) tok deficit w)) else Ok w) = (Ok w1 :: (yield_error, _) outcome)"
    by (auto simp: m bnd_eq_Ok)
  have "lp_balance e x tok w1
      = map_option (\<lambda>b. b + (if sa_address st = x then max 0 (t - c) else 0)) (lp_balance e x tok w)"
  proof (cases "c < t")
    case True
    then have "lp_deposit e (sa_address st) (self e) tok (t - c) w = Some w1"
      using step by (auto simp: i128_sub_def outcome_simps split: if_splits)
    then have "lp_balance e x tok w1
        = map_option (\<lambda>b. b + (if x = sa_address st then t - c else 0)) (lp_balance e x tok w)"
      using assms(1) unfolding exact_lending_def by blast
    with True show ?thesis by (cases "lp_balance e x tok w") auto
  next
    case False
    with step show ?thesis by (cases "lp_balance e x tok w") auto
  qed
  with Cons.IH [OF w1] show ?case by (cases "lp_balance e x tok w") (simp_all add: m)
qed

lemma change_at_sum: "change_at x moves (min 0) + change_at x moves (max 0) = change_at x moves id"
  by (induction moves) auto

lemma change_at_other: "x \<notin> (sa_address \<circ> fst) ` set moves \<Longrightarrow> change_at x moves f = 0"
  by (induction moves) auto

lemma change_at_one:
  assumes "distinct (map (sa_address \<circ> fst) moves)" "(st, c, t) \<in> set moves"
  shows "change_at (sa_address st) moves f = f (t - c)"
  using assms
proof (induction moves)
  case (Cons m moves)
  show ?case
  proof (cases "m = (st, c, t)")
    case True
    with Cons.prems(1) show ?thesis by (simp add: change_at_other)
  next
    case False
    then have "(st, c, t) \<in> set moves" using Cons.prems(2) by simp
    moreover from this Cons.prems(1) have "sa_address (fst m) \<noteq> sa_address st" by force
    ultimately show ?thesis using Cons by (cases m) simp
  qed
qed simp
lemma rebalance_OkD:
  assumes "rebalance e tok s = Ok (u, s')" "1 < length (get_strategies s)"
  obtains bs total_balance where
    "read_balances e tok (yeWorld s) (get_strategies s) 0 = Ok (bs, total_balance)"
    "total_balance \<le> 0 \<Longrightarrow> s' = s"
    "0 < total_balance \<Longrightarrow> \<exists>ps t ts w1.
       scaled_parts total_balance BPS_DENOMINATOR (weights_of (get_strategies s)) 0 = Ok (ps, t)
       \<and> final_targets_from 0 (total_balance - t) ps = Ok ts
       \<and> withdraw_excess e tok (zip (get_strategies s) (zip bs ts)) (yeWorld s) = Ok w1
       \<and> deposit_deficit e tok (zip (get_strategies s) (zip bs ts)) w1 = Ok (yeWorld s')
       \<and> yeLastRebalance s' tok = Some (seq e) \<and> yeEscrow s' = yeEscrow s \<and> yeYield s' = yeYield s"
proof -
  from assms obtain bs n where b: "read_balances e tok (yeWorld s) (get_strategies s) 0 = Ok (bs, n)"
    by (auto simp: rebalance_def Let_def bnd_eq_Ok split: if_splits)
  show thesis
  proof (cases "n \<le> 0")
    case True
    with assms b show thesis
      by (intro that [OF b]) (auto simp: rebalance_def Let_def bnd_eq_Ok split: if_splits)
  next
    case False
    with assms b show thesis
      by (intro that [OF b]) (auto simp: rebalance_def Let_def bnd_eq_Ok i128_sub_def split: if_splits)
  qed
qed

lemma moves_shape:
  assumes "length bs = length sts" "length ts = length sts"
  shows "map (sa_address \<circ> fst) (zip sts (zip bs ts)) = map sa_address sts"
    and "k < length sts \<Longrightarrow> (sts ! k, bs ! k, ts ! k) \<in> set (zip sts (zip bs ts))"
proof -
  have "map (sa_address \<circ> fst) (zip sts (zip bs ts)) = map sa_address (map fst (zip sts (zip bs ts)))" by simp
  then show "map (sa_address \<circ> fst) (zip sts (zip bs ts)) = map sa_address sts" using assms by simp
  show "(sts ! k, bs ! k, ts ! k) \<in> set (zip sts (zip bs ts))" if "k < length sts"
    using that assms by (auto simp: set_zip)
qed

lemma moves_reach_targets:
  assumes "exact_lending e" "distinct (map sa_address sts)" "length bs = length sts" "length ts = length sts"
    and "list_all2 (\<lambda>st b. lp_balance e (sa_address st) tok w = Some b) sts bs"
    and "withdraw_excess e tok (zip sts (zip bs ts)) w = Ok w1"
    and "deposit_deficit e tok (zip sts (zip bs ts)) w1 = Ok w2" and "k < length sts"
  shows "lp_balance e (sa_address (sts ! k)) tok w2 = Some (ts ! k)"
proof -
  let ?m = "zip sts (zip bs ts)"
  have "lp_balance e (sa_address (sts ! k)) tok w = Some (bs ! k)"
    using assms(5,8) by (auto dest: list_all2_nthD)
  moreover have "change_at (sa_address (sts ! k)) ?m id = ts ! k - bs ! k"
    using change_at_one [OF _ moves_shape(2) [OF assms(3,4,8)], of id] assms(2) moves_shape(1) [OF assms(3,4)]
    by simp
  ultimately show ?thesis
    using withdraw_excess_balances [OF assms(1,6)] deposit_deficit_balances [OF assms(1,7)]
      change_at_sum [of "sa_address (sts ! k)" ?m] by simp
qed


section \<open>Deposits\<close>

text \<open>A new escrow supplies exactly its amount: the payer has authorised the call, the contract
  receives the amount from the payer and deposits parts of it with the strategies in order; the parts
  sum to the amount, and each is the floor of the strategy's weight share or one unit more. The escrow is
  stored open under a fresh identifier with the terms of the call and the current yield index, and it
  takes part in the count and in the principal of its token.\<close>

theorem create_escrow_supplies_amount:
  assumes "vault_steps (fresh_vault w) s"
    and "create_escrow e eid payer beneficiary tok amount deadline bps s = Ok (u, s')"
  shows "auth e payer \<and> 0 < amount \<and> seq e < deadline \<and> bps \<le> 10000 \<and> yeEscrow s eid = None
    \<and> (\<exists>parts w1. tok_transfer e tok payer (self e) amount (yeWorld s) = Done w1
        \<and> supply_all e tok (zip (get_strategies s) parts) w1 = Some (yeWorld s')
        \<and> sum_list parts = amount
        \<and> list_all2 (\<lambda>st p. amount * int (weight_bps st) div 10000 \<le> p
             \<and> p \<le> amount * int (weight_bps st) div 10000 + 1) (get_strategies s) parts)
    \<and> yeEscrow s' = (yeEscrow s)(eid \<mapsto> \<lparr>ye_payer = payer, ye_beneficiary = beneficiary,
        ye_token = tok, ye_principal = amount, release_ledger = deadline, beneficiary_interest_bps = bps,
        reward_debt = index_of s' tok, ye_released = False, ye_cancelled = False\<rparr>)
    \<and> active_escrows s' = Suc (active_escrows s)
    \<and> (\<forall>t. total_of s' t = total_of s t + (if t = tok then amount else 0))"
  using assms(2)
proof (rule create_escrow_OkD)
  let ?sts = "get_strategies s"
  fix st rate s1 w1 amounts allocated
  assume g: "yeInitialized s" "0 < amount" "seq e < deadline" "int bps \<le> 10000" "auth e payer"
      "yeEscrow s eid = None" "update_yield_state e tok s = Ok (st, s1)"
    and x: "tok_transfer e tok payer (self e) amount (yeWorld s) = Done w1"
    and sc: "scaled_parts amount BPS_DENOMINATOR (weights_of ?sts) 0 = Ok (amounts, allocated)"
    and sup: "supply_loop e tok 0 (amount - allocated) (zip ?sts amounts) w1 = Ok (yeWorld s')"
    and yy: "yeYield s' = (yeYield s)(tok \<mapsto> st\<lparr>ys_total_principal := ys_total_principal st + amount,
       ys_rate_bps := rate\<rparr>)"
    and act: "yeActive s' = Some (Suc (active_escrows s))"
    and es: "yeEscrow s' = (yeEscrow s)(eid \<mapsto> \<lparr>ye_payer = payer, ye_beneficiary = beneficiary,
       ye_token = tok, ye_principal = amount, release_ledger = deadline,
       beneficiary_interest_bps = bps, reward_debt = ys_index st, ye_released = False,
       ye_cancelled = False\<rparr>)"
  have p: "portfolio_ok ?sts"
    using vault_steps_inv [OF assms(1) fresh_vault_inv] g(1) by (simp add: vault_inv_def)
  have "length ?sts = length amounts" using scaled_parts_OkD [OF sc] by (simp add: weights_of_def)
  from supply_loop_OkD [OF this sup] obtain ts where
    ts: "final_targets_from 0 (amount - allocated) amounts = Ok ts"
      "supply_all e tok (zip ?sts ts) w1 = Some (yeWorld s')" by auto
  have "sum_list ts = amount" "list_all2 (\<lambda>w t. amount * w div BPS_DENOMINATOR \<le> t
      \<and> t \<le> amount * w div BPS_DENOMINATOR + 1) (weights_of ?sts) ts"
    using final_targets_exact [OF sc ts(1) less_imp_le [OF g(2)]] weights_sum [OF p]
    by (simp_all add: const_defs weights_of_def)
  then have "\<exists>parts w1. tok_transfer e tok payer (self e) amount (yeWorld s) = Done w1
        \<and> supply_all e tok (zip ?sts parts) w1 = Some (yeWorld s') \<and> sum_list parts = amount
        \<and> list_all2 (\<lambda>st p. amount * int (weight_bps st) div 10000 \<le> p
             \<and> p \<le> amount * int (weight_bps st) div 10000 + 1) ?sts parts"
    using x ts(2) by (intro exI [of _ ts] exI [of _ w1]) (simp add: weights_of_def list_all2_map1 const_defs)
  moreover have "total_of s' t = total_of s t + (if t = tok then amount else 0)" for t
    using update_yield_OkD(2) [OF g(7)] by (simp add: total_of_def yy)
  ultimately show ?thesis using g es act by (simp add: index_of_def yy active_escrows_def)
qed

section \<open>Registering a strategy\<close>

lemma distinct_replace:
  assumes "distinct (map sa_address sts)" "st \<in> set sts" "sa_address st = a"
  shows "sum_list (map weight_bps (map (\<lambda>x. if sa_address x = a
       then \<lparr>sa_address = a, weight_bps = n\<rparr> else x) sts)) + weight_bps st
     = sum_list (map weight_bps sts) + n"
  using assms
proof (induction sts)
  case (Cons y ys)
  show ?case
  proof (cases "st = y")
    case True
    have same: "map (\<lambda>x. if sa_address x = a then \<lparr>sa_address = a, weight_bps = n\<rparr> else x) ys = ys"
      using Cons.prems True by (intro map_idI) (auto simp: image_iff)
    show ?thesis using True Cons.prems(3) by (simp add: same del: map_map)
  next
    case False
    then have "st \<in> set ys" "sa_address y \<noteq> a" using Cons.prems by force+
    then show ?thesis using Cons by (simp del: map_map)
  qed
qed simp

text \<open>\<open>register_strategy\<close> can change nothing: the portfolio's weights already sum to 10000 and must do so
  afterwards, so a new strategy is always refused and a known one can only be given the weight it has.
  Whatever it is called with, a call that succeeds leaves the portfolio as it was.\<close>

theorem register_strategy_changes_nothing:
  assumes "vault_steps (fresh_vault w) s" "yeInitialized s"
    and "register_strategy e strategy n s = Ok (u, s')"
  shows "get_strategies s' = get_strategies s
    \<and> \<lparr>sa_address = strategy, weight_bps = n\<rparr> \<in> set (get_strategies s)"
  using assms(3)
proof (rule register_strategy_OkD)
  let ?sts = "get_strategies s" and ?x = "\<lparr>sa_address = strategy, weight_bps = n\<rparr>"
  let ?f = "\<lambda>st. if sa_address st = strategy then ?x else st"
  fix new admin
  assume new: "new = map ?f ?sts @ (if list_ex (\<lambda>st. sa_address st = strategy) ?sts then [] else [?x])"
    and ok: "portfolio_ok new"
    and s': "s' = ye_emit ''reg_strat'' [AddrArg admin, AddrArg strategy] (store_strategies new s)"
  have p: "portfolio_ok ?sts"
    using vault_steps_inv [OF assms(1) fresh_vault_inv] assms(2) by (simp add: vault_inv_def)
  have "\<exists>st\<in>set ?sts. sa_address st = strategy"
  proof (rule ccontr)
    assume none: "\<not> (\<exists>st\<in>set ?sts. sa_address st = strategy)"
    then have "map ?f ?sts = ?sts" by (intro map_idI) auto
    with none have "new = ?sts @ [?x]" by (simp add: new list_ex_iff)
    with ok p show False by (simp add: portfolio_ok_def)
  qed
  then obtain st where st: "st \<in> set ?sts" "sa_address st = strategy" by blast
  then have new': "new = map ?f ?sts" by (auto simp: new list_ex_iff)
  have "weight_bps st = n"
    using distinct_replace [OF _ st, of n] p ok unfolding portfolio_ok_def new' by linarith
  then have x: "st = ?x" using st(2) by simp
  have "?f y = y" if "y \<in> set ?sts" for y
  proof (cases "sa_address y = strategy")
    case True
    then have "y = st" using p that st inj_onD [of sa_address "set ?sts" y st]
      by (simp add: portfolio_ok_def distinct_map)
    with x st(2) show ?thesis by simp
  qed simp
  then have "new = ?sts" unfolding new' by (intro map_idI)
  moreover have "get_strategies s' = new" using ok
    by (simp add: s' get_strategies_def store_strategies_fields portfolio_ok_def)
  ultimately show ?thesis using st(1) x by simp
qed

section \<open>Witnesses\<close>

lemma sample_exact_lending: "exact_lending (yield_sample_env t l\<lparr>lp_balance := (\<lambda>st tok w. if st = 9 then None else Some (w st)),
    lp_deposit := (\<lambda>st src tok a w. if src = 9 \<and> st \<noteq> 9 then Some (w(9 := w 9 - a, st := w st + a)) else None),
    lp_withdraw := (\<lambda>st dst tok a w. if dst = 9 \<and> st \<noteq> 9 then Some (w(st := w st - a, 9 := w 9 + a)) else None)\<rparr>)"
  by (auto simp: exact_lending_def split: if_splits)

text \<open>The sample strategies, moving money only between themselves and the contract.\<close>

definition exact_env :: "nat \<Rightarrow> nat \<Rightarrow> (address \<Rightarrow> int) yield_env" where
  "exact_env t l = yield_sample_env t l\<lparr>lp_balance := (\<lambda>st tok w. if st = 9 then None else Some (w st)),
    lp_deposit := (\<lambda>st src tok a w. if src = 9 \<and> st \<noteq> 9 then Some (w(9 := w 9 - a, st := w st + a)) else None),
    lp_withdraw := (\<lambda>st dst tok a w. if dst = 9 \<and> st \<noteq> 9 then Some (w(st := w st - a, 9 := w 9 + a)) else None)\<rparr>"

text \<open>The position of the sample run after the weights were changed to 3000 and 7000.\<close>

definition reweighted_vault :: "(address \<Rightarrow> int) vault" where
  "reweighted_vault = sample_vault\<lparr>yeStrategies := Some [\<lparr>sa_address = 20, weight_bps = 3000\<rparr>,
       \<lparr>sa_address = 21, weight_bps = 7000\<rparr>], yeAdapter := Some 20,
     yeEvents := yeEvents sample_vault @ [Event ''strats'' [AddrArg 1, NatArg 2]]\<rparr>"

lemma reweighted_vault_reached: "vault_steps (fresh_vault vault_world) reweighted_vault"
proof -
  have "yeAdmin sample_vault = Some 1" by (simp add: sample_vault_def)
  then have "yield_exec (yield_sample_env 1 11) (YSetStrategies [\<lparr>sa_address = 20, weight_bps = 3000\<rparr>,
       \<lparr>sa_address = 21, weight_bps = 7000\<rparr>]) sample_vault = Ok reweighted_vault"
    by (simp add: set_strategies_def ye_require_admin_def require_auth_def same_strategy_addresses_def
        sample_portfolio_def validate_strategies_def store_strategies_def reweighted_vault_def
        u32_checked_add_def u32_ok_def const_defs is_emergency_mode_def)
  then show ?thesis by (rule vault_steps.called [OF sample_vault_reached])
qed


theorem create_escrow_supplies_amount_witness:
  "\<exists>parts w1. supply_all (yield_sample_env 0 10) 5 (zip sample_portfolio parts) w1 = Some (yeWorld sample_vault)
     \<and> sum_list parts = 1001 \<and> active_escrows sample_vault = Suc (active_escrows opened_vault)"
  using create_escrow_supplies_amount [OF opened_vault_reached sample_vault_created]
  by (simp del: supply_all.simps) blast

theorem register_strategy_changes_nothing_witness:
  "\<exists>s'. register_strategy (yield_sample_env 1 11) 21 4000 sample_vault = Ok ((), s')
     \<and> get_strategies s' = sample_portfolio"
proof -
  have "yeAdmin sample_vault = Some 1" by (simp add: sample_vault_def)
  then have "\<exists>s'. register_strategy (yield_sample_env 1 11) 21 4000 sample_vault = Ok ((), s')"
    by (simp add: register_strategy_def ye_require_admin_def require_auth_def sample_portfolio_def
        validate_strategies_def u32_checked_add_def u32_ok_def const_defs Let_def)
  then show ?thesis
    using register_strategy_changes_nothing [OF sample_vault_reached, of "yield_sample_env 1 11" 21 4000 "()"]
    by auto
qed

end
