(* ===== verification/Zk_Payment.thy ===== *)
theory Zk_Payment
  imports Prelude Complex_Main
begin

text \<open>
  The zero-knowledge payment contract (\<open>zk_payment/src/lib.rs\<close>) and the circuit its proofs are about
  (\<open>zk_payment/circuit/src/main.rs\<close>). Field elements and curve points are type variables; the BLS12-381
  host functions are the environment, the field library of the circuit a type of class \<open>field\<close> with its
  canonical representative \<open>repr\<close>, and the SHA-256 round constants a parameter.
\<close>

section \<open>The contract\<close>

record ('g1, 'g2) VerificationKey =
  vk_alpha :: 'g1
  vk_beta :: 'g2
  vk_gamma :: 'g2
  vk_delta :: 'g2
  vk_ic :: "'g1 list"

record ('g1, 'g2) Proof =
  pr_a :: 'g1
  pr_b :: 'g2
  pr_c :: 'g1

datatype zk_error = ZkNotInitialized | MalformedVerifyingKey | InvalidProof | NullifierUsed

text \<open>Host calls fail (and trap) on points outside the group.\<close>

record ('f, 'g1, 'g2) bls =
  g1_mul :: "'g1 \<Rightarrow> 'f \<Rightarrow> 'g1 option"
  g1_add :: "'g1 \<Rightarrow> 'g1 \<Rightarrow> 'g1 option"
  g1_neg :: "'g1 \<Rightarrow> 'g1"
  pairing_check :: "'g1 list \<Rightarrow> 'g2 list \<Rightarrow> bool option"

record ('f, 'g1, 'g2) zk_state =
  zkKey :: "('g1, 'g2) VerificationKey option"
  zkNullifier :: "'f \<Rightarrow> unit option"
  zkPayment :: "'f \<Rightarrow> unit option"
  zkEvents :: "('f \<times> 'f) list" \<comment> \<open>\<open>PaymentVerified\<close>: commitment and nullifier\<close>

definition zk_constructor ::
    "('g1, 'g2) VerificationKey \<Rightarrow> ('f, 'g1, 'g2) zk_state
       \<Rightarrow> (zk_error, ('f, 'g1, 'g2) zk_state) outcome" where
  "zk_constructor verification_key s =
     (if length (vk_ic verification_key) \<noteq> 3 then Err MalformedVerifyingKey
      else Ok (s\<lparr>zkKey := Some verification_key\<rparr>))"

definition verify_proof ::
    "('f, 'g1, 'g2) bls \<Rightarrow> ('g1, 'g2) VerificationKey \<Rightarrow> ('g1, 'g2) Proof \<Rightarrow> 'f \<Rightarrow> 'f
       \<Rightarrow> (zk_error, bool) outcome" where
  "verify_proof b vk pf commitment nullifier =
     (if length (vk_ic vk) \<noteq> 3 then Err MalformedVerifyingKey
      else
        bnd (unwrap (g1_mul b (vk_ic vk ! 1) commitment)) (\<lambda>commitment_term.
        bnd (unwrap (g1_add b (vk_ic vk ! 0) commitment_term)) (\<lambda>vk_x.
        bnd (unwrap (g1_mul b (vk_ic vk ! 2) nullifier)) (\<lambda>nullifier_term.
        bnd (unwrap (g1_add b vk_x nullifier_term)) (\<lambda>vk_x.
        let lhs = [g1_neg b (pr_a pf), vk_alpha vk, vk_x, pr_c pf];
            rhs = [pr_b pf, vk_beta vk, vk_gamma vk, vk_delta vk] in
        unwrap (pairing_check b lhs rhs))))))"

definition zk_verify ::
    "('f, 'g1, 'g2) bls \<Rightarrow> ('g1, 'g2) Proof \<Rightarrow> 'f \<Rightarrow> 'f \<Rightarrow> ('f, 'g1, 'g2) zk_state
       \<Rightarrow> (zk_error, bool) outcome" where
  "zk_verify b pf commitment nullifier s =
     bnd (ok_or ZkNotInitialized (zkKey s)) (\<lambda>vk. verify_proof b vk pf commitment nullifier)"

definition submit ::
    "('f, 'g1, 'g2) bls \<Rightarrow> ('g1, 'g2) Proof \<Rightarrow> 'f \<Rightarrow> 'f \<Rightarrow> ('f, 'g1, 'g2) zk_state
       \<Rightarrow> (zk_error, ('f, 'g1, 'g2) zk_state) outcome" where
  "submit b pf commitment nullifier s =
     (if zkNullifier s nullifier \<noteq> None then Err NullifierUsed
      else
        bnd (ok_or ZkNotInitialized (zkKey s)) (\<lambda>vk.
        bnd (verify_proof b vk pf commitment nullifier) (\<lambda>valid.
        if \<not> valid then Err InvalidProof
        else Ok (s\<lparr>zkNullifier := (zkNullifier s)(nullifier \<mapsto> ()),
                   zkPayment := (zkPayment s)(commitment \<mapsto> ()),
                   zkEvents := zkEvents s @ [(commitment, nullifier)]\<rparr>))))"

definition payment_exists :: "'f \<Rightarrow> ('f, 'g1, 'g2) zk_state \<Rightarrow> bool" where
  "payment_exists commitment s \<longleftrightarrow> zkPayment s commitment \<noteq> None"

definition nullifier_used :: "'f \<Rightarrow> ('f, 'g1, 'g2) zk_state \<Rightarrow> bool" where
  "nullifier_used nullifier s \<longleftrightarrow> zkNullifier s nullifier \<noteq> None"

definition fresh_zk :: "('f, 'g1, 'g2) zk_state" where
  "fresh_zk = \<lparr>zkKey = None, zkNullifier = Map.empty, zkPayment = Map.empty, zkEvents = []\<rparr>"

text \<open>A deployed contract and the submissions it accepted; a refused call changes nothing.\<close>

inductive zk_run ::
    "('f, 'g1, 'g2) bls \<Rightarrow> ('g1, 'g2) VerificationKey \<Rightarrow> (('g1, 'g2) Proof \<times> 'f \<times> 'f) list
       \<Rightarrow> ('f, 'g1, 'g2) zk_state \<Rightarrow> bool" for b vk where
  deployed: "zk_constructor vk fresh_zk = Ok s \<Longrightarrow> zk_run b vk [] s"
| accepted: "zk_run b vk acc s \<Longrightarrow> submit b p c n s = Ok s' \<Longrightarrow> zk_run b vk (acc @ [(p, c, n)]) s'"

inductive_cases zk_runE: "zk_run b vk acc s"

section \<open>The circuit\<close>

definition ROUNDS :: nat where [const_defs]: "ROUNDS = 91"

definition permute_round :: "(nat \<Rightarrow> 'f::field) \<Rightarrow> nat \<Rightarrow> 'f \<Rightarrow> 'f" where
  "permute_round round_constant i value =
     (let x = value + round_constant i; x2 = x * x; x4 = x2 * x2 in x4 * x2 * x)"

definition permute :: "(nat \<Rightarrow> 'f::field) \<Rightarrow> 'f \<Rightarrow> 'f" where
  "permute round_constant value = fold (permute_round round_constant) [0..<ROUNDS] value"

definition COMMITMENT_DOMAIN :: nat where [const_defs]: "COMMITMENT_DOMAIN = 1"
definition NULLIFIER_DOMAIN :: nat where [const_defs]: "NULLIFIER_DOMAIN = 2"

definition hash_payment :: "(nat \<Rightarrow> 'f::field) \<Rightarrow> 'f \<Rightarrow> 'f \<Rightarrow> 'f \<Rightarrow> 'f" where
  "hash_payment rc amount recipient secret =
     (let state = permute rc (amount + of_nat COMMITMENT_DOMAIN);
          state = permute rc (state + recipient) in
      permute rc (state + secret))"

definition hash_nullifier :: "(nat \<Rightarrow> 'f::field) \<Rightarrow> 'f \<Rightarrow> 'f" where
  "hash_nullifier rc secret = permute rc (secret + of_nat NULLIFIER_DOMAIN)"

text \<open>The 255 bits of a field element, and the constraints over a full assignment.\<close>

definition to_bits_le :: "('f \<Rightarrow> nat) \<Rightarrow> 'f \<Rightarrow> bool list" where
  "to_bits_le repr v = map (\<lambda>i. bit (repr v) i) [0..<255]"

record 'f assignment =
  as_amount :: 'f
  as_recipient :: 'f
  as_secret :: 'f
  as_commitment :: 'f
  as_nullifier :: 'f
  as_inverse :: 'f

definition constraints_hold :: "('f::field \<Rightarrow> nat) \<Rightarrow> (nat \<Rightarrow> 'f) \<Rightarrow> 'f assignment \<Rightarrow> bool" where
  "constraints_hold repr rc a \<longleftrightarrow>
     list_all (\<lambda>b. b = False) (drop 64 (to_bits_le repr (as_amount a)))
     \<and> as_amount a * as_inverse a = 1
     \<and> (let commitment_state = permute rc (as_amount a + of_nat COMMITMENT_DOMAIN);
            commitment_state = permute rc (commitment_state + as_recipient a) in
        permute rc (commitment_state + as_secret a) = as_commitment a)
     \<and> permute rc (as_secret a + of_nat NULLIFIER_DOMAIN) = as_nullifier a"

text \<open>The public inputs for which the circuit has an assignment.\<close>

definition circuit_accepts :: "('f::field \<Rightarrow> nat) \<Rightarrow> (nat \<Rightarrow> 'f) \<Rightarrow> 'f \<Rightarrow> 'f \<Rightarrow> bool" where
  "circuit_accepts repr rc commitment nullifier \<longleftrightarrow>
     (\<exists>a. constraints_hold repr rc a \<and> as_commitment a = commitment \<and> as_nullifier a = nullifier)"

section \<open>Lemmas\<close>

lemma submit_OkD:
  assumes "submit b p c n s = Ok s'"
  obtains vk where "zkKey s = Some vk" "zkNullifier s n = None" "verify_proof b vk p c n = Ok True"
    "s' = s\<lparr>zkNullifier := (zkNullifier s)(n \<mapsto> ()), zkPayment := (zkPayment s)(c \<mapsto> ()),
        zkEvents := zkEvents s @ [(c, n)]\<rparr>"
  using assms unfolding submit_def
  by (cases "zkNullifier s n") (auto simp: bnd_eq_Ok ok_or_eq if_eq_Ok)

lemma map_upd_dom: "dom (\<lambda>x. if x = a then Some v else m x) = insert a (dom m)"
  by auto

lemma zk_run_state:
  assumes "zk_run b vk acc s"
  shows "zkKey s = Some vk \<and> length (vk_ic vk) = 3
    \<and> dom (zkNullifier s) = (snd \<circ> snd) ` set acc \<and> dom (zkPayment s) = (fst \<circ> snd) ` set acc
    \<and> zkEvents s = map snd acc \<and> distinct (map (snd \<circ> snd) acc)
    \<and> (\<forall>(p, c, n)\<in>set acc. verify_proof b vk p c n = Ok True)"
  using assms
proof (induction rule: zk_run.induct)
  case (deployed s)
  then show ?case by (auto simp: zk_constructor_def fresh_zk_def split: if_splits)
next
  case (accepted acc s p c n s')
  from accepted.hyps(2) show ?case
  proof (rule submit_OkD)
    fix vk' assume new: "zkNullifier s n = None" and v: "zkKey s = Some vk'" "verify_proof b vk' p c n = Ok True"
      and s': "s' = s\<lparr>zkNullifier := (zkNullifier s)(n \<mapsto> ()), zkPayment := (zkPayment s)(c \<mapsto> ()),
        zkEvents := zkEvents s @ [(c, n)]\<rparr>"
    from new have "n \<notin> dom (zkNullifier s)" by (simp add: domIff)
    then show ?thesis using accepted.IH v by (simp add: s' map_upd_dom)
  qed
qed

lemma permute_round_power: "permute_round rc i v = (v + rc i) ^ 7"
  by (simp add: permute_round_def Let_def numeral_eq_Suc mult.assoc)

lemma permute_inj:
  assumes "inj (\<lambda>x::'f::field. x ^ 7)"
  shows "inj (permute rc :: 'f \<Rightarrow> 'f)"
proof -
  have rounds: "inj (permute_round rc i :: 'f \<Rightarrow> 'f)" for i
    using assms unfolding inj_def permute_round_power by (meson add_right_cancel)
  have "inj (fold (permute_round rc) is :: 'f \<Rightarrow> 'f)" for "is"
  proof (induction "is")
    case (Cons i "is")
    then have "inj (fold (permute_round rc) is \<circ> permute_round rc i)" by (intro inj_compose rounds)
    then show ?case by (simp add: o_def)
  qed simp
  then show ?thesis unfolding permute_def by (simp add: inj_def)
qed

lemma bit_small: "(x::nat) < 2 ^ k \<Longrightarrow> k \<le> i \<Longrightarrow> \<not> bit x i"
proof -
  assume "x < 2 ^ k" "k \<le> i"
  then have "x < 2 ^ i" by (meson less_le_trans one_le_numeral power_increasing)
  then show "\<not> bit x i" by (simp add: bit_iff_odd)
qed

lemma high_bits_zero:
  assumes "(x::nat) < 2 ^ m" "k \<le> m"
  shows "list_all (\<lambda>b. b = False) (drop k (map (bit x) [0..<m])) \<longleftrightarrow> x < 2 ^ k"
proof
  assume "list_all (\<lambda>b. b = False) (drop k (map (bit x) [0..<m]))"
  then have low: "\<not> bit x i" if "k \<le> i" "i < m" for i
    using that by (simp add: drop_map list_all_iff)
  have "take_bit k x = x"
  proof (rule bit_eqI)
    fix i
    show "bit (take_bit k x) i = bit x i"
      using low [of i] bit_small [OF assms(1), of i]
      by (cases "i < k"; cases "i < m") (auto simp: bit_take_bit_iff)
  qed
  then show "x < 2 ^ k" by (simp add: take_bit_nat_eq_self_iff)
next
  assume "x < 2 ^ k"
  then show "list_all (\<lambda>b. b = False) (drop k (map (bit x) [0..<m]))"
    using bit_small by (simp add: drop_map list_all_iff)
qed

section \<open>Properties\<close>

text \<open>C20: A nullifier is spent once, and only with a proof the verifier accepts. In every state of a deployed
  contract the nullifiers marked as used, the recorded payments and the published events are exactly
  those of the accepted submissions, no nullifier occurs twice among them, and each came with a proof
  that passed the pairing check against the key fixed at deployment. A submission goes through exactly
  when its nullifier is unused and its proof is valid; a used nullifier is refused whatever the proof.\<close>

theorem nullifiers_are_spent_once:
  assumes "zk_run b vk acc s"
  shows "(\<forall>n. nullifier_used n s \<longleftrightarrow> n \<in> (snd \<circ> snd) ` set acc)
    \<and> (\<forall>c. payment_exists c s \<longleftrightarrow> c \<in> (fst \<circ> snd) ` set acc)
    \<and> zkEvents s = map snd acc \<and> distinct (map (snd \<circ> snd) acc)
    \<and> (\<forall>(p, c, n)\<in>set acc. verify_proof b vk p c n = Ok True)
    \<and> (nullifier_used n s \<longrightarrow> submit b p c n s = Err NullifierUsed)
    \<and> ((\<exists>s'. submit b p c n s = Ok s') \<longleftrightarrow> \<not> nullifier_used n s \<and> zk_verify b p c n s = Ok True)"
proof -
  note run = zk_run_state [OF assms]
  have "(\<exists>s'. submit b p c n s = Ok s') \<longleftrightarrow> \<not> nullifier_used n s \<and> zk_verify b p c n s = Ok True"
    using run by (cases "zkNullifier s n") (auto simp: submit_def nullifier_used_def zk_verify_def
        bnd_eq_Ok if_eq_Ok)
  moreover have "submit b p c n s = Err NullifierUsed" if "nullifier_used n s"
    using that by (simp add: submit_def nullifier_used_def)
  moreover have "nullifier_used x s \<longleftrightarrow> x \<in> dom (zkNullifier s)"
    "payment_exists y s \<longleftrightarrow> y \<in> dom (zkPayment s)" for x y
    by (simp_all add: nullifier_used_def payment_exists_def domIff)
  ultimately show ?thesis using run by simp
qed


text \<open>A secret pays once. When a valid proof means that the circuit accepts its public inputs (soundness
  of the proof system) and the seventh power is injective in the field, any two different submissions a
  contract accepted belong to payments with different secrets, each of a non-zero amount.\<close>

theorem secret_pays_once:
  assumes "zk_run b vk acc s" and "inj (\<lambda>x::'f::field. x ^ 7)"
    and "\<forall>p c n. verify_proof b vk p c n = Ok True \<longrightarrow> circuit_accepts repr rc c (n::'f)"
    and "i < length acc" "j < length acc" "i \<noteq> j"
  shows "\<exists>amount1 recipient1 secret1 amount2 recipient2 secret2. amount1 \<noteq> 0 \<and> amount2 \<noteq> 0
    \<and> snd (acc ! i) = (hash_payment rc amount1 recipient1 secret1, hash_nullifier rc secret1)
    \<and> snd (acc ! j) = (hash_payment rc amount2 recipient2 secret2, hash_nullifier rc secret2)
    \<and> secret1 \<noteq> secret2"
proof -
  note run = zk_run_state [OF assms(1)]
  have pay: "\<exists>amount recipient secret. amount \<noteq> 0
      \<and> snd (acc ! k) = (hash_payment rc amount recipient secret, hash_nullifier rc secret)"
    if k: "k < length acc" for k
  proof -
    obtain p c n where pcn: "acc ! k = (p, c, n)" by (cases "acc ! k") auto
    with k have "(p, c, n) \<in> set acc" by (metis nth_mem)
    with run have "verify_proof b vk p c n = Ok True" by auto
    with assms(3) have "circuit_accepts repr rc c n" by blast
    then obtain a where "constraints_hold repr rc a" "as_commitment a = c" "as_nullifier a = n"
      by (auto simp: circuit_accepts_def)
    then show ?thesis
      by (intro exI [of _ "as_amount a"] exI [of _ "as_recipient a"] exI [of _ "as_secret a"])
        (auto simp: pcn constraints_hold_def hash_payment_def hash_nullifier_def Let_def)
  qed
  obtain a1 r1 s1 a2 r2 s2 where p: "a1 \<noteq> 0" "a2 \<noteq> 0"
    "snd (acc ! i) = (hash_payment rc a1 r1 s1, hash_nullifier rc s1)"
    "snd (acc ! j) = (hash_payment rc a2 r2 s2, hash_nullifier rc s2)"
    using pay [OF assms(4)] pay [OF assms(5)] by blast
  have "(snd \<circ> snd) (acc ! i) \<noteq> (snd \<circ> snd) (acc ! j)"
    using run assms(4-6) nth_eq_iff_index_eq [of "map (snd \<circ> snd) acc" i j] by simp
  then have "s1 \<noteq> s2" using p(3,4) by auto
  with p show ?thesis by blast
qed

section \<open>Witnesses\<close>

text \<open>
  Real numbers as the field; points are pairs of scalars and the pairing check accepts two inputs. The
  constants make the permutation fix 0, 1 and -1 after its first round.
\<close>

definition sample_rc :: "nat \<Rightarrow> real" where "sample_rc r = (if r = 0 then -1 else 0)"

definition sample_repr :: "real \<Rightarrow> nat" where "sample_repr x = (if x = 1 then 1 else 0)"

definition sample_bls :: "(real, real \<times> real, nat) bls" where
  "sample_bls = \<lparr>g1_mul = (\<lambda>(x, y) f. Some (f * x, f * y)),
     g1_add = (\<lambda>(x, y) (x', y'). Some (x + x', y + y')), g1_neg = (\<lambda>(x, y). (- x, - y)),
     pairing_check = (\<lambda>lhs rhs. Some (lhs ! 2 \<in> {(0, 1), (-1, 0)}))\<rparr>"

definition sample_key :: "(real \<times> real, nat) VerificationKey" where
  "sample_key = \<lparr>vk_alpha = (0, 0), vk_beta = 0, vk_gamma = 0, vk_delta = 0,
     vk_ic = [(0, 0), (1, 0), (0, 1)]\<rparr>"

definition sample_proof :: "(real \<times> real, nat) Proof" where
  "sample_proof = \<lparr>pr_a = (0, 0), pr_b = 0, pr_c = (0, 0)\<rparr>"

definition sample_paid :: "(real, real \<times> real, nat) zk_state" where
  "sample_paid = \<lparr>zkKey = Some sample_key, zkNullifier = [1 \<mapsto> (), 0 \<mapsto> ()],
     zkPayment = [0 \<mapsto> (), -1 \<mapsto> ()], zkEvents = [(0, 1), (-1, 0)]\<rparr>"

lemma sample_verify:
  "verify_proof sample_bls sample_key p c n = Ok ((c, n) \<in> {(0, 1), (-1, 0)})"
  by (simp add: verify_proof_def sample_bls_def sample_key_def Let_def)

lemma sample_zk_run:
  "zk_run sample_bls sample_key [(sample_proof, 0, 1), (sample_proof, -1, 0)] sample_paid"
proof -
  let ?s0 = "fresh_zk\<lparr>zkKey := Some sample_key\<rparr>"
  let ?s1 = "?s0\<lparr>zkNullifier := [1 \<mapsto> ()], zkPayment := [0 \<mapsto> ()], zkEvents := [(0, 1)]\<rparr>"
  have "zk_constructor sample_key fresh_zk = Ok ?s0" by (simp add: zk_constructor_def sample_key_def)
  then have "zk_run sample_bls sample_key [] ?s0" by (rule zk_run.deployed)
  moreover have "submit sample_bls sample_proof 0 1 ?s0 = Ok ?s1"
    by (simp add: submit_def sample_verify fresh_zk_def)
  ultimately have "zk_run sample_bls sample_key ([] @ [(sample_proof, 0, 1)]) ?s1" by (rule zk_run.accepted)
  moreover have "submit sample_bls sample_proof (-1) 0 ?s1 = Ok sample_paid"
    by (simp add: submit_def sample_verify fresh_zk_def sample_paid_def)
  ultimately have "zk_run sample_bls sample_key (([] @ [(sample_proof, 0, 1)]) @ [(sample_proof, -1, 0)]) sample_paid"
    by (rule zk_run.accepted)
  then show ?thesis by simp
qed

lemma sample_permute:
  assumes "v - 1 \<in> {0, 1, -1}"
  shows "permute sample_rc v = v - 1"
proof -
  have fixed: "x ^ 7 = x" if "x \<in> {0, 1, -1 :: real}" for x using that by auto
  have "fold (permute_round sample_rc) xs x = x" if "x \<in> {0, 1, -1}" "\<forall>i\<in>set xs. 0 < i" for x xs
    using that(2) by (induction xs) (simp_all add: permute_round_power sample_rc_def fixed [OF that(1)])
  from this [OF assms, of "[1..<ROUNDS]"] have "fold (permute_round sample_rc) [1..<ROUNDS] (v - 1) = v - 1" by simp
  moreover have "[0..<ROUNDS] = 0 # [1..<ROUNDS]" by (simp add: upt_conv_Cons const_defs)
  moreover have "permute_round sample_rc 0 v = v - 1"
    using fixed [OF assms] by (simp add: permute_round_power sample_rc_def)
  ultimately show ?thesis by (simp add: permute_def)
qed

lemma sample_hashes:
  "hash_payment sample_rc 1 1 0 = 0" "hash_nullifier sample_rc 0 = 1"
  "hash_payment sample_rc 1 1 (-1) = -1" "hash_nullifier sample_rc (-1) = 0"
  by (simp_all add: hash_payment_def hash_nullifier_def Let_def sample_permute const_defs)

theorem nullifiers_are_spent_once_witness:
  "nullifier_used 1 sample_paid \<and> submit sample_bls sample_proof 0 1 sample_paid = Err NullifierUsed"
  using nullifiers_are_spent_once [OF sample_zk_run, of 1 sample_proof 0] by simp


theorem secret_pays_once_witness:
  "\<exists>recipient1 secret1 recipient2 secret2 amount1 amount2. secret1 \<noteq> secret2
     \<and> (0, 1) = (hash_payment sample_rc amount1 recipient1 secret1, hash_nullifier sample_rc secret1)
     \<and> (-1, 0) = (hash_payment sample_rc amount2 recipient2 secret2, hash_nullifier sample_rc secret2)"
proof -
  have seven: "inj (\<lambda>x::real. x ^ 7)" by (rule inj_on_inverseI [of _ "root 7"]) (simp add: odd_real_root_power_cancel)
  have valid: "constraints_hold sample_repr sample_rc \<lparr>as_amount = 1, as_recipient = 1, as_secret = k,
      as_commitment = hash_payment sample_rc 1 1 k, as_nullifier = hash_nullifier sample_rc k, as_inverse = 1\<rparr>" for k
    by (simp add: constraints_hold_def hash_payment_def hash_nullifier_def Let_def to_bits_le_def sample_repr_def
        list_all_iff drop_map bit_small [of 1 1])
  have "circuit_accepts sample_repr sample_rc (hash_payment sample_rc 1 1 k) (hash_nullifier sample_rc k)" for k
    unfolding circuit_accepts_def by (rule exI, intro conjI, rule valid [of k]) simp_all
  from this [of 0] this [of "-1"]
  have sound: "\<forall>p c n. verify_proof sample_bls sample_key p c n = Ok True
      \<longrightarrow> circuit_accepts sample_repr sample_rc c n"
    by (auto simp: sample_verify sample_hashes)
  from secret_pays_once [OF sample_zk_run seven sound, where i = 0 and j = 1] show ?thesis by simp blast
qed

end
