(* ===== verification/Wide_Words.thy ===== *)
theory Wide_Words
  imports Prelude
begin

text \<open>
  The 256-bit integers the price oracle computes with
  (\<open>payment_router/ethnum-patch/src\<close>, the repository's fork of the \<open>ethnum\<close> crate, patched into the
  workspace): the operations of the machine type \<open>u128\<close> the code uses, the pair of words \<open>U256\<close>, and
  the native addition, subtraction, multiplication, shift and bit-counting routines
  (\<open>intrinsics/native\<close>), each proved to compute the value it stands for. The release profile is
  modelled: overflow checks on (so \<open>+\<close>, \<open>-\<close>, \<open>*\<close>, \<open><<\<close>, \<open>>>\<close> of \<open>u128\<close> trap), debug assertions off.
\<close>

section \<open>The machine type\<close>

type_synonym u128 = "128 word"

definition u128_add :: "u128 \<Rightarrow> u128 \<Rightarrow> ('e, u128) outcome" where
  "u128_add a b = (if unat a + unat b < 2 ^ 128 then Ok (a + b) else Trap)"

definition u128_sub :: "u128 \<Rightarrow> u128 \<Rightarrow> ('e, u128) outcome" where
  "u128_sub a b = (if unat b \<le> unat a then Ok (a - b) else Trap)"

definition u128_mul :: "u128 \<Rightarrow> u128 \<Rightarrow> ('e, u128) outcome" where
  "u128_mul a b = (if unat a * unat b < 2 ^ 128 then Ok (a * b) else Trap)"

definition u128_div :: "u128 \<Rightarrow> u128 \<Rightarrow> ('e, u128) outcome" where
  "u128_div a b = (if b = 0 then Trap else Ok (a div b))"

definition u128_rem :: "u128 \<Rightarrow> u128 \<Rightarrow> ('e, u128) outcome" where
  "u128_rem a b = (if b = 0 then Trap else Ok (a mod b))"

definition u128_shl :: "u128 \<Rightarrow> nat \<Rightarrow> ('e, u128) outcome" where
  "u128_shl a n = (if n < 128 then Ok (push_bit n a) else Trap)"

definition u128_shr :: "u128 \<Rightarrow> nat \<Rightarrow> ('e, u128) outcome" where
  "u128_shr a n = (if n < 128 then Ok (drop_bit n a) else Trap)"

definition overflowing_add :: "u128 \<Rightarrow> u128 \<Rightarrow> u128 \<times> bool" where
  "overflowing_add a b = (a + b, 2 ^ 128 \<le> unat a + unat b)"

definition overflowing_sub :: "u128 \<Rightarrow> u128 \<Rightarrow> u128 \<times> bool" where
  "overflowing_sub a b = (a - b, unat a < unat b)"

definition overflowing_mul :: "u128 \<Rightarrow> u128 \<Rightarrow> u128 \<times> bool" where
  "overflowing_mul a b = (a * b, 2 ^ 128 \<le> unat a * unat b)"

definition u128_of_bool :: "bool \<Rightarrow> u128" where
  "u128_of_bool b = (if b then 1 else 0)"

fun bit_len :: "nat \<Rightarrow> nat" where
  "bit_len n = (if n = 0 then 0 else Suc (bit_len (n div 2)))"

declare bit_len.simps [simp del]

definition leading_zeros :: "u128 \<Rightarrow> nat" where
  "leading_zeros x = 128 - bit_len (unat x)"

subsection \<open>Values\<close>

lemma unat_u128_less: "unat (x :: u128) < 2 ^ 128"
  using unsigned_less [of x, where ?'a = nat] by simp

lemma u128_add_val:
  "unat a + unat b < 2 ^ 128 \<Longrightarrow> u128_add a b = Ok (a + b) \<and> unat (a + b) = unat a + unat b"
  by (simp add: u128_add_def unat_word_ariths)

lemma u128_sub_val:
  "unat b \<le> unat a \<Longrightarrow> u128_sub a b = Ok (a - b) \<and> unat (a - b) = unat a - unat b"
  by (simp add: u128_sub_def unat_sub word_le_nat_alt)

lemma u128_mul_val:
  "unat a * unat b < 2 ^ 128 \<Longrightarrow> u128_mul a b = Ok (a * b) \<and> unat (a * b) = unat a * unat b"
  by (simp add: u128_mul_def unat_word_ariths)

lemma u128_div_val:
  "b \<noteq> 0 \<Longrightarrow> u128_div a b = Ok (a div b) \<and> unat (a div b) = unat a div unat b"
  by (simp add: u128_div_def unat_div)

lemma u128_rem_val:
  "b \<noteq> 0 \<Longrightarrow> u128_rem a b = Ok (a mod b) \<and> unat (a mod b) = unat a mod unat b"
  by (simp add: u128_rem_def unat_mod)

lemma unat_shl: "unat (push_bit n (x :: u128)) = unat x * 2 ^ n mod 2 ^ 128"
proof -
  have "unat (push_bit n x) = take_bit 128 (push_bit n (unat x))" by (simp add: unsigned_push_bit_eq)
  then show ?thesis by (simp only: take_bit_eq_mod push_bit_eq_mult)
qed

lemma unat_shr: "unat (drop_bit n (x :: u128)) = unat x div 2 ^ n"
  using unat_drop_bit_eq [of n x] by (simp only: drop_bit_eq_div)

lemma u128_shl_val [simp]: "n < 128 \<Longrightarrow> u128_shl x n = Ok (push_bit n x)"
  by (simp add: u128_shl_def)

lemma u128_shr_val [simp]: "n < 128 \<Longrightarrow> u128_shr x n = Ok (drop_bit n x)"
  by (simp add: u128_shr_def)

lemma unat_add_wrap: "unat (a + b :: u128) = (unat a + unat b) mod 2 ^ 128"
  by (simp add: unat_word_ariths)

lemma unat_sub_wrap: "unat (a - b :: u128) = (2 ^ 128 + unat a - unat b) mod 2 ^ 128"
proof (cases "b \<le> a")
  case True
  then have "unat (a - b) = unat a - unat b" "unat b \<le> unat a"
    by (simp_all add: unat_sub word_le_nat_alt)
  moreover have "unat a - unat b < 2 ^ 128" by (rule le_less_trans [OF diff_le_self unat_u128_less])
  ultimately show ?thesis by (simp add: mod_if)
next
  case False
  then have "unat a < unat b" by (simp add: word_le_nat_alt)
  then show ?thesis using unat_sub_if' [of a b] False unat_u128_less [of b]
    by (simp add: word_le_nat_alt)
qed

lemma unat_mul_wrap: "unat (a * b :: u128) = (unat a * unat b) mod 2 ^ 128"
  by (simp add: unat_word_ariths)

lemma unat_of_bool [simp]: "unat (u128_of_bool b) = of_bool b"
  by (simp add: u128_of_bool_def)

lemma bit_len_0 [simp]: "bit_len 0 = 0"
  by (simp add: bit_len.simps)

lemma bit_len_pos: "0 < n \<Longrightarrow> bit_len n = Suc (bit_len (n div 2))"
  by (simp add: bit_len.simps [of n])

lemma bit_len_bounds: "0 < n \<Longrightarrow> 0 < bit_len n \<and> 2 ^ (bit_len n - 1) \<le> n \<and> n < 2 ^ bit_len n"
proof (induction n rule: bit_len.induct)
  case (1 n)
  show ?case
  proof (cases "n div 2 = 0")
    case True
    with 1 have "n = 1" by linarith
    then show ?thesis by (simp add: bit_len_pos)
  next
    case False
    then have IH: "0 < bit_len (n div 2)" "2 ^ (bit_len (n div 2) - 1) \<le> n div 2" "n div 2 < 2 ^ bit_len (n div 2)"
      using 1 by simp_all
    then obtain k where "bit_len (n div 2) = Suc k" by (cases "bit_len (n div 2)") simp_all
    with IH 1(2) show ?thesis by (simp add: bit_len_pos) linarith
  qed
qed

lemma bit_len_le: "n < 2 ^ k \<Longrightarrow> bit_len n \<le> k"
proof (cases "n = 0")
  case False
  assume "n < 2 ^ k"
  moreover have "2 ^ (bit_len n - 1) \<le> n" using bit_len_bounds [of n] False by blast
  ultimately have "(2::nat) ^ (bit_len n - 1) < 2 ^ k" by (rule le_less_trans [rotated])
  then have "bit_len n - 1 < k" by (rule power_less_imp_less_exp [rotated]) simp
  then show ?thesis by linarith
qed simp

text \<open>Shifting out the leading zeros of a non-zero word sets its top bit.\<close>

lemma leading_zeros_bounds:
  assumes "x \<noteq> 0"
  shows "leading_zeros x < 128" "2 ^ 127 \<le> unat x * 2 ^ leading_zeros x" "unat x * 2 ^ leading_zeros x < 2 ^ 128"
proof -
  have pos: "0 < unat x" using assms by (simp add: unat_gt_0)
  let ?n = "bit_len (unat x)"
  have b: "0 < ?n" "2 ^ (?n - 1) \<le> unat x" "unat x < 2 ^ ?n" "?n \<le> 128"
    using bit_len_bounds [OF pos] bit_len_le [OF unat_u128_less] by simp_all
  then show "leading_zeros x < 128" by (simp add: leading_zeros_def)
  have "(2::nat) ^ 127 = 2 ^ (?n - 1) * 2 ^ (128 - ?n)" "(2::nat) ^ 128 = 2 ^ ?n * 2 ^ (128 - ?n)"
    using b(1,4) by (simp_all only: power_add [symmetric]) simp_all
  then show "2 ^ 127 \<le> unat x * 2 ^ leading_zeros x" "unat x * 2 ^ leading_zeros x < 2 ^ 128"
    using b(2,3) by (simp_all only: leading_zeros_def mult_le_mono1 mult_less_mono1 zero_less_power zero_less_numeral)
qed

section \<open>256-bit words\<close>

datatype U256 = from_words (high: u128) (low: u128)

definition uval :: "U256 \<Rightarrow> nat" where
  "uval x = unat (high x) * 2 ^ 128 + unat (low x)"

definition U256_ZERO :: U256 where "U256_ZERO = from_words 0 0"
definition U256_ONE :: U256 where "U256_ONE = from_words 0 1"
definition U256_MAX :: U256 where "U256_MAX = from_words (- 1) (- 1)"

instantiation U256 :: linorder
begin

text \<open>\<open>Ord::cmp\<close> compares the pairs of words.\<close>

definition less_eq_U256 :: "U256 \<Rightarrow> U256 \<Rightarrow> bool" where
  "less_eq_U256 a b \<longleftrightarrow> high a < high b \<or> high a = high b \<and> low a \<le> low b"

definition less_U256 :: "U256 \<Rightarrow> U256 \<Rightarrow> bool" where
  "less_U256 a b \<longleftrightarrow> high a < high b \<or> high a = high b \<and> low a < low b"

instance
  by standard (auto simp: less_eq_U256_def less_U256_def intro: U256.expand)

end

lemma pair_mod: "l < m \<Longrightarrow> (h mod m) * m + l = (h * m + l) mod (m * m)" for h l m :: nat
  by (simp add: mod_mult2_eq)

lemma pair_less: "h < m \<Longrightarrow> l < m \<Longrightarrow> h * m + l < m * m" for h l m :: nat
proof -
  assume "h < m" "l < m"
  then have "h * m + l < Suc h * m" "Suc h * m \<le> m * m" by (simp, intro mult_le_mono1) simp
  then show ?thesis by (rule less_le_trans)
qed

lemma pair_inj: "l < m \<Longrightarrow> l' < m \<Longrightarrow> h * m + l = h' * m + l' \<Longrightarrow> h = h' \<and> l = l'"
  for h l m :: nat
  by (metis add.commute div_mult_self3 div_less mod_mult_self2 mod_less add_0 less_zeroE mult.commute
      add.right_neutral neq0_conv)

lemma pow_256: "(2 :: nat) ^ 256 = 2 ^ 128 * 2 ^ 128"
  by (simp only: power_add [symmetric]) simp

lemma uval_less: "uval x < 2 ^ 256"
  unfolding uval_def pow_256 by (intro pair_less unat_u128_less)

lemma uval_inj [simp]: "(uval a = uval b) = (a = b)"
proof
  assume "uval a = uval b"
  then have "unat (high a) = unat (high b) \<and> unat (low a) = unat (low b)"
    unfolding uval_def by (rule pair_inj [OF unat_u128_less unat_u128_less])
  then show "a = b" by (auto intro: U256.expand simp: word_unat_eq_iff)
qed simp

lemma pair_less_iff: "l < m \<Longrightarrow> l' < m \<Longrightarrow> (h * m + l < h' * m + l') = (h < h' \<or> h = h' \<and> l < l')"
  for h l m :: nat
proof -
  assume l: "l < m" "l' < m"
  { fix x y l l' :: nat assume "x < y" "l < m"
    then have "x * m + l < Suc x * m" "Suc x * m \<le> y * m" by (simp, intro mult_le_mono1) simp
    then have "x * m + l < y * m + l'" by linarith }
  with l show ?thesis by (metis nat_neq_iff add_less_cancel_left less_asym)
qed

lemma less_uval: "(a < b) = (uval a < uval b)"
  by (simp only: uval_def pair_less_iff unat_u128_less less_U256_def word_less_nat_alt word_unat_eq_iff)

lemma le_uval: "(a \<le> b) = (uval a \<le> uval b)"
  by (simp only: not_less [symmetric] less_uval)

text \<open>The pair of words of a number, read modulo \<open>2 ^ 256\<close>.\<close>

definition of_val :: "nat \<Rightarrow> U256" where
  "of_val n = from_words (word_of_nat (n div 2 ^ 128)) (word_of_nat n)"

lemma uval_of_val: "uval (of_val n) = n mod 2 ^ 256"
proof -
  have "uval (of_val n) = n div 2 ^ 128 mod 2 ^ 128 * 2 ^ 128 + n mod 2 ^ 128"
    by (simp add: uval_def of_val_def unsigned_of_nat take_bit_eq_mod)
  also have "\<dots> = n mod (2 ^ 128 * 2 ^ 128)" by (simp only: mod_mult2_eq add.commute mult.commute)
  finally show ?thesis by (simp only: pow_256)
qed

lemma of_val_uval [simp]: "of_val (uval x) = x"
proof -
  have "uval (of_val (uval x)) = uval x" using uval_less [of x] by (simp only: uval_of_val mod_less)
  then show ?thesis by (simp only: uval_inj)
qed

lemma eq_of_val: "uval x = n \<Longrightarrow> x = of_val n"
  using of_val_uval [of x] by simp

lemma unat_max: "unat (- 1 :: u128) = 2 ^ 128 - 1"
  using unat_sub_wrap [of 0 1] by simp

lemma uval_consts [simp]: "uval U256_ZERO = 0" "uval U256_ONE = 1" "uval U256_MAX = 2 ^ 256 - 1"
  by (simp_all add: uval_def U256_ZERO_def U256_ONE_def U256_MAX_def unat_max)

section \<open>Addition and subtraction\<close>

definition add3 :: "U256 \<Rightarrow> U256 \<Rightarrow> U256" where
  "add3 a b =
     (let (lo, carry) = overflowing_add (low a) (low b) in
      from_words (high a + u128_of_bool carry + high b) lo)"

definition uaddc :: "U256 \<Rightarrow> U256 \<Rightarrow> U256 \<times> bool" where
  "uaddc a b =
     (let (lo, carry_lo) = overflowing_add (low a) (low b);
          (hi, carry_c) = overflowing_add (high a) (u128_of_bool carry_lo);
          (hi', carry_hi) = overflowing_add hi (high b) in
      (from_words hi' lo, carry_c \<or> carry_hi))"

definition sub3 :: "U256 \<Rightarrow> U256 \<Rightarrow> U256" where
  "sub3 a b =
     (let (lo, carry) = overflowing_sub (low a) (low b) in
      from_words (high a - u128_of_bool carry - high b) lo)"

definition usubc :: "U256 \<Rightarrow> U256 \<Rightarrow> U256 \<times> bool" where
  "usubc a b =
     (let (lo, carry_lo) = overflowing_sub (low a) (low b);
          (hi, carry_c) = overflowing_sub (high a) (u128_of_bool carry_lo);
          (hi', carry_hi) = overflowing_sub hi (high b) in
      (from_words hi' lo, carry_c \<or> carry_hi))"

lemma mod_add_carry: "r < m \<Longrightarrow> r + (if f then m else 0) = s \<Longrightarrow> s mod m = r" for m r s :: nat
  by (auto split: if_splits)

lemma mod_sub_borrow: "r < m \<Longrightarrow> y < m \<Longrightarrow> r + y = x + (if f then m else 0) \<Longrightarrow> (m + x - y) mod m = r"
  for m r x y :: nat
proof -
  assume r: "r < m" "y < m" "r + y = x + (if f then m else 0)"
  then have "m + x - y = (if f then r else m + r)" by (auto split: if_splits)
  then show ?thesis using r(1) by simp
qed

lemma carry_word: "(x + y) mod m = x + y - (if m \<le> x + y then m else 0)" if "x < m" "y < m" for x y m :: nat
  using that by (simp add: mod_if)

lemma unat_add_carry: "unat (a + b :: u128) + (if 2 ^ 128 \<le> unat a + unat b then 2 ^ 128 else 0) = unat a + unat b"
  using carry_word [OF unat_u128_less [of a] unat_u128_less [of b]] by (simp add: unat_add_wrap)

lemma unat_sub_carry: "unat (a - b :: u128) + unat b = unat a + (if unat a < unat b then 2 ^ 128 else 0)"
  using unat_sub_if' [of a b] unat_u128_less [of b] by (simp add: word_le_nat_alt split: if_splits)

text \<open>A carry and a summand, a borrow and a subtrahend, taken one after the other.\<close>

lemma add_carry_twice:
  fixes x y :: u128 and c :: bool
  defines "h \<equiv> x + u128_of_bool c"
  shows "unat (h + y) + (if 2 ^ 128 \<le> unat x + of_bool c \<or> 2 ^ 128 \<le> unat h + unat y then 2 ^ 128 else 0)
    = unat x + unat y + of_bool c"
  using unat_add_carry [of x "u128_of_bool c"] unat_add_carry [of h y] unat_u128_less [of x]
    unat_u128_less [of y] unat_u128_less [of "h + y"]
  by (cases c) (auto simp: h_def split: if_splits)

lemma sub_borrow_twice:
  fixes x y :: u128 and c :: bool
  defines "h \<equiv> x - u128_of_bool c"
  shows "unat (h - y) + unat y + of_bool c
    = unat x + (if unat x < of_bool c \<or> unat h < unat y then 2 ^ 128 else 0)"
  using unat_sub_carry [of x "u128_of_bool c"] unat_sub_carry [of h y] unat_u128_less [of h]
    unat_u128_less [of y] unat_u128_less [of "h - y"]
  by (cases c) (auto simp: h_def split: if_splits)

lemma uaddc_val:
  "uval (fst (uaddc a b)) + (if snd (uaddc a b) then 2 ^ 256 else 0) = uval a + uval b"
  using unat_add_carry [of "low a" "low b"]
    add_carry_twice [of "high a" "2 ^ 128 \<le> unat (low a) + unat (low b)" "high b"]
  by (simp add: uaddc_def overflowing_add_def Let_def uval_def split: if_splits)

lemma usubc_val:
  "uval (fst (usubc a b)) + uval b = uval a + (if snd (usubc a b) then 2 ^ 256 else 0)"
  using unat_sub_carry [of "low a" "low b"]
    sub_borrow_twice [of "high a" "unat (low a) < unat (low b)" "high b"]
  by (simp add: usubc_def overflowing_sub_def Let_def uval_def split: if_splits)

lemma add3_uaddc: "add3 a b = fst (uaddc a b)"
  by (simp add: add3_def uaddc_def overflowing_add_def Let_def)

lemma sub3_usubc: "sub3 a b = fst (usubc a b)"
  by (simp add: sub3_def usubc_def overflowing_sub_def Let_def)

text \<open>Addition and subtraction wrap at \<open>2 ^ 256\<close>, and the flag says exactly when.\<close>

lemma uaddc_flag: "snd (uaddc a b) = (2 ^ 256 \<le> uval a + uval b)"
  using uaddc_val [of a b] uval_less [of "fst (uaddc a b)"] by (simp split: if_splits)

lemma usubc_flag: "snd (usubc a b) = (uval a < uval b)"
  using usubc_val [of a b] uval_less [of "fst (usubc a b)"] uval_less [of b] by (simp split: if_splits)

lemma add3_val: "uval (add3 a b) = (uval a + uval b) mod 2 ^ 256"
  unfolding add3_uaddc by (rule mod_add_carry [OF uval_less uaddc_val, symmetric])

lemma sub3_val: "uval (sub3 a b) = (2 ^ 256 + uval a - uval b) mod 2 ^ 256"
  unfolding sub3_usubc by (rule mod_sub_borrow [OF uval_less uval_less usubc_val, symmetric])

section \<open>Multiplication\<close>

definition LOWER_MASK :: u128 where "LOWER_MASK = drop_bit 64 (- 1)"

definition umulddi3 :: "u128 \<Rightarrow> u128 \<Rightarrow> ('e, U256) outcome" where
  "umulddi3 a b =
     bnd (u128_mul (a AND LOWER_MASK) (b AND LOWER_MASK)) (\<lambda>low0.
     let t0 = drop_bit 64 low0; low1 = low0 AND LOWER_MASK in
     bnd (u128_mul (drop_bit 64 a) (b AND LOWER_MASK)) (\<lambda>p1.
     bnd (u128_add t0 p1) (\<lambda>t1.
     bnd (u128_add low1 (push_bit 64 (t1 AND LOWER_MASK))) (\<lambda>low2.
     let high0 = drop_bit 64 t1; t2 = drop_bit 64 low2; low3 = low2 AND LOWER_MASK in
     bnd (u128_mul (drop_bit 64 b) (a AND LOWER_MASK)) (\<lambda>p2.
     bnd (u128_add t2 p2) (\<lambda>t3.
     bnd (u128_add low3 (push_bit 64 (t3 AND LOWER_MASK))) (\<lambda>low4.
     bnd (u128_add high0 (drop_bit 64 t3)) (\<lambda>high1.
     bnd (u128_mul (drop_bit 64 a) (drop_bit 64 b)) (\<lambda>p3.
     bnd (u128_add high1 p3) (\<lambda>high2.
     Ok (from_words high2 low4)))))))))))"

definition mul3 :: "U256 \<Rightarrow> U256 \<Rightarrow> ('e, U256) outcome" where
  "mul3 a b =
     bnd (umulddi3 (low a) (low b)) (\<lambda>r.
     let hi_lo = high a * low b; lo_hi = low a * high b in
     Ok (from_words (high r + (hi_lo + lo_hi)) (low r)))"

definition umulc :: "U256 \<Rightarrow> U256 \<Rightarrow> ('e, U256 \<times> bool) outcome" where
  "umulc a b =
     bnd (umulddi3 (low a) (low b)) (\<lambda>res.
     let (hi_lo, overflow_hi_lo) = overflowing_mul (high a) (low b);
         (lo_hi, overflow_lo_hi) = overflowing_mul (low a) (high b);
         (hi, overflow_hi) = overflowing_add hi_lo lo_hi;
         (high', overflow_high) = overflowing_add (high res) hi;
         overflow_hi_hi = high a \<noteq> 0 \<and> high b \<noteq> 0 in
     Ok (from_words high' (low res),
         overflow_hi_lo \<or> overflow_lo_hi \<or> overflow_hi \<or> overflow_high \<or> overflow_hi_hi))"

lemma unat_low64: "unat (x AND LOWER_MASK) = unat x mod 2 ^ 64"
proof -
  have "LOWER_MASK = mask 64" by (simp add: LOWER_MASK_def mask_eq_exp_minus_1)
  then have "x AND LOWER_MASK = take_bit 64 x" by (simp only: take_bit_eq_mask)
  then have "unat (x AND LOWER_MASK) = take_bit 64 (unat x)" by (simp only: unsigned_take_bit_eq)
  then show ?thesis by (simp only: take_bit_eq_mod)
qed

lemma unat_high64: "unat (drop_bit 64 x :: u128) < 2 ^ 64"
proof -
  have "unat x < 2 ^ 64 * 2 ^ 64" using unat_u128_less [of x] by simp
  then show ?thesis unfolding unat_shr by (rule less_mult_imp_div_less)
qed

lemma halves64: "unat x = unat (drop_bit 64 x) * 2 ^ 64 + unat (x AND LOWER_MASK)" for x :: u128
  by (simp only: unat_shr unat_low64 div_mult_mod_eq)

lemma unat_low64_less: "unat (x AND LOWER_MASK) < 2 ^ 64"
  by (simp only: unat_low64) simp

text \<open>Schoolbook multiplication of two two-digit numbers, and the bound on each digit product.\<close>

lemma digit_product: "x < m \<Longrightarrow> y < m \<Longrightarrow> z < m \<Longrightarrow> z + x * y < m * m" for m x y z :: nat
proof -
  assume "x < m" "y < m" "z < m"
  then have "x * y \<le> (m - 1) * (m - 1)" "z \<le> m - 1" by (simp_all add: mult_le_mono)
  moreover have "(m - 1) * (m - 1) + (m - 1) < m * m" using \<open>x < m\<close> by (cases m) simp_all
  ultimately show ?thesis by linarith
qed

lemma schoolbook:
  fixes m a0 a1 b0 b1 :: nat
  defines "t1 \<equiv> a0 * b0 div m + a1 * b0"
  defines "t3 \<equiv> t1 mod m + b1 * a0"
  shows "(t1 div m + t3 div m + a1 * b1) * (m * m) + (a0 * b0 mod m + t3 mod m * m) = (a1 * m + a0) * (b1 * m + b0)"
proof -
  have 1: "a0 * b0 = a0 * b0 div m * m + a0 * b0 mod m" by simp
  have 2: "t1 * m = t1 div m * (m * m) + t1 mod m * m" and 3: "t3 * m = t3 div m * (m * m) + t3 mod m * m"
    by (simp_all only: mult.assoc [symmetric] distrib_right [symmetric] div_mult_mod_eq)
  have "(a1 * m + a0) * (b1 * m + b0) = a1 * b1 * (m * m) + (a1 * b0 + b1 * a0) * m + a0 * b0"
    by (simp add: algebra_simps)
  also have "\<dots> = a1 * b1 * (m * m) + t1 * m + b1 * a0 * m + a0 * b0 mod m"
    by (subst 1) (simp add: t1_def algebra_simps)
  also have "\<dots> = a1 * b1 * (m * m) + t1 div m * (m * m) + t3 * m + a0 * b0 mod m"
    by (simp add: 2 t3_def distrib_right)
  also have "\<dots> = (t1 div m + t3 div m + a1 * b1) * (m * m) + (a0 * b0 mod m + t3 mod m * m)"
    by (simp add: 3 distrib_right)
  finally show ?thesis ..
qed

lemma pow_128: "(2 :: nat) ^ 128 = 2 ^ 64 * 2 ^ 64"
  by (simp only: power_add [symmetric]) simp

lemma digits_val:
  fixes x y :: u128
  assumes "unat x < 2 ^ 64"
  shows "u128_add x (push_bit 64 (y AND LOWER_MASK)) = Ok (x + push_bit 64 (y AND LOWER_MASK))"
    "unat (x + push_bit 64 (y AND LOWER_MASK)) = unat x + unat y mod 2 ^ 64 * 2 ^ 64"
proof -
  have "unat y mod 2 ^ 64 * 2 ^ 64 + unat x < 2 ^ 64 * 2 ^ 64" by (rule pair_less [OF _ assms]) simp
  then have l: "unat x + unat y mod 2 ^ 64 * 2 ^ 64 < 2 ^ 128" by (simp only: pow_128 add.commute)
  then have "unat (push_bit 64 (y AND LOWER_MASK)) = unat y mod 2 ^ 64 * 2 ^ 64"
    unfolding unat_shl unat_low64 by (intro mod_less) linarith
  with l show "u128_add x (push_bit 64 (y AND LOWER_MASK)) = Ok (x + push_bit 64 (y AND LOWER_MASK))"
    "unat (x + push_bit 64 (y AND LOWER_MASK)) = unat x + unat y mod 2 ^ 64 * 2 ^ 64"
    by (simp_all only: u128_add_val)
qed

lemma digits_parts:
  fixes x y :: u128
  assumes "unat x < 2 ^ 64"
  defines "s \<equiv> x + push_bit 64 (y AND LOWER_MASK)"
  shows "unat (drop_bit 64 s) = unat y mod 2 ^ 64" "unat (s AND LOWER_MASK) = unat x"
proof -
  have s: "unat s = unat y mod 2 ^ 64 * 2 ^ 64 + unat x"
    unfolding s_def using digits_val(2) [OF assms(1)] by (simp only: add.commute)
  show "unat (drop_bit 64 s) = unat y mod 2 ^ 64"
    unfolding unat_shr s by (subst div_mult_self3) (simp, simp only: div_less assms add_0_right)
  show "unat (s AND LOWER_MASK) = unat x"
    unfolding unat_low64 s by (simp only: mod_mult_self3 mod_less assms)
qed

lemma digit_mul_val:
  fixes x y :: u128
  assumes "unat x < 2 ^ 64" "unat y < 2 ^ 64"
  shows "u128_mul x y = Ok (x * y)" "unat (x * y) = unat x * unat y"
    "unat z < 2 ^ 64 \<Longrightarrow> u128_add z (x * y) = Ok (z + x * y) \<and> unat (z + x * y) = unat z + unat x * unat y"
proof -
  have "unat x * unat y < 2 ^ 128"
    using digit_product [OF assms, of 0] unfolding pow_128 by simp
  then show m: "u128_mul x y = Ok (x * y)" "unat (x * y) = unat x * unat y"
    by (simp_all only: u128_mul_val)
  assume "unat z < 2 ^ 64"
  then have "unat z + unat x * unat y < 2 ^ 128" unfolding pow_128 by (rule digit_product [OF assms])
  then show "u128_add z (x * y) = Ok (z + x * y) \<and> unat (z + x * y) = unat z + unat x * unat y"
    by (intro u128_add_val [of z "x * y", unfolded m])
qed

lemma umulddi3_val: "umulddi3 a b = Ok (of_val (unat a * unat b))"
proof -
  define a0 a1 b0 b1 where "a0 = a AND LOWER_MASK" and "a1 = drop_bit 64 a"
    and "b0 = b AND LOWER_MASK" and "b1 = drop_bit 64 b"
  have less: "unat a0 < 2 ^ 64" "unat a1 < 2 ^ 64" "unat b0 < 2 ^ 64" "unat b1 < 2 ^ 64"
    unfolding a0_def a1_def b0_def b1_def by (rule unat_low64_less unat_high64)+
  have ab: "unat a = unat a1 * 2 ^ 64 + unat a0" "unat b = unat b1 * 2 ^ 64 + unat b0"
    unfolding a0_def a1_def b0_def b1_def by (rule halves64)+
  define t0 l1 where "t0 = drop_bit 64 (a0 * b0)" and "l1 = (a0 * b0) AND LOWER_MASK"
  have t0: "unat t0 < 2 ^ 64" "unat t0 = unat a0 * unat b0 div 2 ^ 64"
    unfolding t0_def by (rule unat_high64, simp only: unat_shr digit_mul_val [OF less(1,3)])
  have l1: "unat l1 < 2 ^ 64" "unat l1 = unat a0 * unat b0 mod 2 ^ 64"
    unfolding l1_def by (rule unat_low64_less, simp only: unat_low64 digit_mul_val [OF less(1,3)])
  define t1 where "t1 = t0 + a1 * b0"
  define l2 where "l2 = l1 + push_bit 64 (t1 AND LOWER_MASK)"
  define t2 l3 where "t2 = drop_bit 64 l2" and "l3 = l2 AND LOWER_MASK"
  have t2: "unat t2 < 2 ^ 64" "unat t2 = unat t1 mod 2 ^ 64" "unat l3 < 2 ^ 64" "unat l3 = unat l1"
    unfolding t2_def l3_def l2_def
    by (rule unat_high64, rule digits_parts [OF l1(1)], rule unat_low64_less, rule digits_parts [OF l1(1)])
  define t3 where "t3 = t2 + b1 * a0"
  define l4 where "l4 = l3 + push_bit 64 (t3 AND LOWER_MASK)"
  define h1 where "h1 = drop_bit 64 t1 + drop_bit 64 t3"
  define h2 where "h2 = h1 + a1 * b1"
  note mul = digit_mul_val [OF less(1,3)] digit_mul_val [OF less(2,3)] digit_mul_val [OF less(4,1)]
    digit_mul_val [OF less(2,4)]
  note add1 = digit_mul_val(3) [OF less(2,3) t0(1), folded t1_def]
  note add2 = digits_val [OF l1(1), of t1, folded l2_def]
  note add3 = digit_mul_val(3) [OF less(4,1) t2(1), folded t3_def]
  note add4 = digits_val [OF t2(3), of t3, folded l4_def]
  have "unat (drop_bit 64 t1) + unat (drop_bit 64 t3) < 2 ^ 128"
    using unat_high64 [of t1] unat_high64 [of t3] by simp
  note add5 = u128_add_val [OF this, folded h1_def]
  have whole: "(unat h1 + unat a1 * unat b1) * 2 ^ 128 + unat l4 = unat a * unat b"
    using schoolbook [of "unat a0" "unat b0" "2 ^ 64" "unat a1" "unat b1"]
    by (simp only: add5 add1 add3 add4 t0(2) t2(2,4) l1(2) unat_shr ab pow_128)
  have "unat h1 + unat a1 * unat b1 < 2 ^ 128"
  proof (rule ccontr)
    assume "\<not> ?thesis"
    then have "2 ^ 128 * 2 ^ 128 \<le> (unat h1 + unat a1 * unat b1) * 2 ^ 128" by simp
    moreover have "unat a * unat b < 2 ^ 128 * 2 ^ 128"
      by (intro mult_strict_mono unat_u128_less) simp_all
    ultimately show False using whole by linarith
  qed
  then have "unat h1 + unat (a1 * b1) < 2 ^ 128" by (simp only: mul)
  note add6 = u128_add_val [OF this, folded h2_def]
  have "uval (from_words h2 l4) = unat a * unat b"
    using whole by (simp only: uval_def U256.sel add6 mul)
  note result = eq_of_val [OF this]
  show ?thesis
    unfolding umulddi3_def Let_def a0_def [symmetric] a1_def [symmetric] b0_def [symmetric] b1_def [symmetric]
    by (simp only: bnd_simps mul add1 add2 add3 add4 add5 add6 result t0_def [symmetric] l1_def [symmetric]
        t2_def [symmetric] l3_def [symmetric])
qed

text \<open>The product modulo \<open>2 ^ 256\<close>, and whether it is the product.\<close>

lemma cross_product:
  fixes m :: nat and a b :: U256
  defines "m \<equiv> 2 ^ 128"
  shows "uval a * uval b = unat (high a) * unat (high b) * (m * m)
    + (unat (high a) * unat (low b) + unat (low a) * unat (high b)) * m + unat (low a) * unat (low b)"
  unfolding uval_def m_def [symmetric] by (simp add: algebra_simps)

lemma drop_high_product:
  fixes m p x c h l :: nat
  assumes "p = h * m + l"
  shows "((h + c) * m + l) mod (m * m) = (x * (m * m) + c * m + p) mod (m * m)"
proof -
  have "x * (m * m) + c * m + p = ((h + c) * m + l) + x * (m * m)" using assms by (simp add: distrib_right)
  then show ?thesis by (simp only: mod_mult_self1)
qed

lemma mul3_val: "mul3 a b = Ok (of_val (uval a * uval b))"
proof -
  define p r where "p = unat (low a) * unat (low b)" and "r = of_val p"
  define h where "h = high r + (high a * low b + low a * high b)"
  have "p < 2 ^ 256" unfolding p_def pow_256 by (intro mult_strict_mono unat_u128_less) simp_all
  then have p: "p = unat (high r) * 2 ^ 128 + unat (low r)"
    using uval_of_val [of p] by (simp only: r_def uval_def mod_less)
  have h: "unat h = (unat (high r) + (unat (high a) * unat (low b) + unat (low a) * unat (high b))) mod 2 ^ 128"
    unfolding h_def unat_add_wrap unat_mul_wrap by (simp only: mod_add_eq mod_add_left_eq mod_add_right_eq)
  have "uval (from_words h (low r)) = uval a * uval b mod 2 ^ 256"
    unfolding cross_product p_def [symmetric] drop_high_product [OF p, symmetric] pow_256
    by (simp only: uval_def U256.sel h pair_mod unat_u128_less)
  then have "from_words h (low r) = of_val (uval a * uval b)"
    using uval_of_val [of "uval a * uval b"] by (simp only: uval_inj [symmetric])
  then show ?thesis
    unfolding mul3_def umulddi3_val p_def [symmetric] r_def [symmetric] bnd_simps Let_def h_def [symmetric]
    by simp
qed

lemma overflow_cross:
  fixes m a0 a1 b0 b1 h l :: nat
  assumes "a0 < m" "b0 < m" "l < m" "a0 * b0 = h * m + l"
  shows "(m * m \<le> (a1 * m + a0) * (b1 * m + b0)) =
    (m \<le> h + (a1 * b0 + a0 * b1) \<or> a1 \<noteq> 0 \<and> b1 \<noteq> 0)"
proof (cases "a1 = 0 \<or> b1 = 0")
  case True
  have "(a1 * m + a0) * (b1 * m + b0) = a1 * b1 * (m * m) + (a1 * b0 + a0 * b1) * m + a0 * b0"
    by (simp add: algebra_simps)
  also have "\<dots> = (h + (a1 * b0 + a0 * b1)) * m + l"
    using True assms(4) by (auto simp: algebra_simps)
  finally have e: "(a1 * m + a0) * (b1 * m + b0) = (h + (a1 * b0 + a0 * b1)) * m + l" .
  have "(m * m \<le> k * m + l) = (m \<le> k)" for k
    using pair_less [of k m l] assms(3) mult_le_mono1 [of m k m] by linarith
  with e True show ?thesis by auto
next
  case False
  then have "m * 1 \<le> m * a1" "m * 1 \<le> m * b1" by (intro mult_le_mono2, simp)+
  then have "m * m \<le> (a1 * m + a0) * (b1 * m + b0)"
    by (intro mult_le_mono) (simp_all add: mult.commute trans_le_add1)
  with False show ?thesis by auto
qed

lemma overflow_flags:
  "(m \<le> x \<or> m \<le> y \<or> m \<le> x mod m + y mod m \<or> m \<le> h + (x mod m + y mod m) mod m) = (m \<le> h + (x + y))"
  for m x y h :: nat
proof (cases "m \<le> x \<or> m \<le> y \<or> m \<le> x + y")
  case True
  then show ?thesis by (metis le_add2 le_trans mod_less not_le trans_le_add1 add_leD1 add.commute)
next
  case False
  then show ?thesis by simp
qed

lemma umulc_val: "umulc a b = Ok (of_val (uval a * uval b), 2 ^ 256 \<le> uval a * uval b)"
proof -
  define p r where "p = unat (low a) * unat (low b)" and "r = of_val p"
  define x y where "x = high a * low b" and "y = low a * high b"
  have "p < 2 ^ 256" unfolding p_def pow_256 by (intro mult_strict_mono unat_u128_less) simp_all
  then have p: "unat (low a) * unat (low b) = unat (high r) * 2 ^ 128 + unat (low r)"
    using uval_of_val [of p] by (simp only: r_def uval_def mod_less p_def)
  have m: "mul3 a b = Ok (from_words (high r + (x + y)) (low r))"
    by (simp only: mul3_def umulddi3_val bnd_simps Let_def x_def y_def p_def r_def)
  have r: "from_words (high r + (x + y)) (low r) = of_val (uval a * uval b)"
    using mul3_val [of a b, where ?'a = unit] unfolding m by (rule outcome.inject(1) [THEN iffD1])
  have "(2 ^ 128 \<le> unat (high a) * unat (low b) \<or> 2 ^ 128 \<le> unat (low a) * unat (high b)
      \<or> 2 ^ 128 \<le> unat x + unat y \<or> 2 ^ 128 \<le> unat (high r) + unat (x + y))
    = (2 ^ 128 \<le> unat (high r) + (unat (high a) * unat (low b) + unat (low a) * unat (high b)))"
    unfolding x_def y_def unat_mul_wrap unat_add_wrap by (rule overflow_flags)
  moreover note overflow_cross [OF unat_u128_less unat_u128_less unat_u128_less p]
  moreover have "high z \<noteq> 0 \<longleftrightarrow> unat (high z) \<noteq> 0" for z by (simp add: unat_eq_0)
  ultimately have "(2 ^ 128 \<le> unat (high a) * unat (low b) \<or> 2 ^ 128 \<le> unat (low a) * unat (high b)
      \<or> 2 ^ 128 \<le> unat x + unat y \<or> 2 ^ 128 \<le> unat (high r) + unat (x + y) \<or> high a \<noteq> 0 \<and> high b \<noteq> 0)
    = (2 ^ 256 \<le> uval a * uval b)"
    unfolding uval_def pow_256 by blast
  with r show ?thesis
    unfolding umulc_def umulddi3_val p_def [symmetric] r_def [symmetric]
    by (simp only: bnd_simps Let_def overflowing_mul_def overflowing_add_def x_def y_def prod.case)
qed

section \<open>Shifts, rotations and zero counts\<close>

definition shl3 :: "U256 \<Rightarrow> nat \<Rightarrow> U256" where
  "shl3 a b =
     (if b = 0 then from_words (high a) (low a)
      else if b < 128 then from_words (push_bit b (high a) OR drop_bit (128 - b) (low a)) (push_bit b (low a))
      else from_words (push_bit (b AND 0x7f) (low a)) 0)"

definition shr3 :: "U256 \<Rightarrow> nat \<Rightarrow> U256" where
  "shr3 a b =
     (if b = 0 then from_words (high a) (low a)
      else if b < 128 then from_words (drop_bit b (high a)) (drop_bit b (low a) OR push_bit (128 - b) (high a))
      else from_words 0 (drop_bit (b AND 0x7f) (high a)))"

definition u256_or :: "U256 \<Rightarrow> U256 \<Rightarrow> U256" where
  "u256_or a b = from_words (high a OR high b) (low a OR low b)"

definition u256_not :: "U256 \<Rightarrow> U256" where
  "u256_not a = from_words (NOT (high a)) (NOT (low a))"

definition rol3 :: "U256 \<Rightarrow> nat \<Rightarrow> ('e, U256) outcome" where
  "rol3 a b =
     (if b \<le> 256 then Ok (u256_or (shl3 a (b AND 0xff)) (shr3 a ((256 - b) AND 0xff))) else Trap)"

definition ror3 :: "U256 \<Rightarrow> nat \<Rightarrow> ('e, U256) outcome" where
  "ror3 a b =
     (if b \<le> 256 then Ok (u256_or (shr3 a (b AND 0xff)) (shl3 a ((256 - b) AND 0xff))) else Trap)"

definition ctlz :: "U256 \<Rightarrow> nat" where
  "ctlz a =
     (let f = (if high a = 0 then - 1 else 0 :: u128) in
      leading_zeros ((high a AND NOT f) OR (low a AND f)) + unat (f AND 128))"

definition trailing_zeros :: "u128 \<Rightarrow> nat" where
  "trailing_zeros x = (if x = 0 then 128 else length (takeWhile Not (map (bit x) [0..<128])))"

definition cttz :: "U256 \<Rightarrow> nat" where
  "cttz a =
     (let f = (if low a = 0 then - 1 else 0 :: u128) in
      trailing_zeros ((high a AND f) OR (low a AND NOT f)) + unat (f AND 128))"

lemma nat_or_disjoint: "b < 2 ^ n \<Longrightarrow> push_bit n a OR b = a * 2 ^ n + b" for a b :: nat
proof -
  assume "b < 2 ^ n"
  then have b: "take_bit n b = b" by (simp only: take_bit_nat_eq_self_iff)
  have "push_bit n a AND take_bit n b = 0" by (rule bit_eqI) (simp add: bit_simps)
  then have "push_bit n a + b = push_bit n a OR b" unfolding b by (rule disjunctive_add_eq_or)
  then show ?thesis by (simp only: push_bit_eq_mult)
qed

lemma unat_or_shl:
  assumes "n \<le> 128" "unat y < 2 ^ n"
  shows "unat (push_bit n x OR y :: u128) = unat x * 2 ^ n mod 2 ^ 128 + unat y"
proof -
  have p: "unat x * 2 ^ n mod 2 ^ 128 = unat x mod 2 ^ (128 - n) * 2 ^ n"
    using mult_mod_right [of "2 ^ n" "unat x" "2 ^ (128 - n)"] assms(1)
    by (simp only: power_add [symmetric] mult.commute le_add_diff_inverse)
  have "unat (push_bit n x OR y) = unat (push_bit n x) OR unat y" by (rule unsigned_or_eq)
  also have "\<dots> = push_bit n (unat x mod 2 ^ (128 - n)) OR unat y"
    unfolding unat_shl p by (simp only: push_bit_eq_mult)
  also have "\<dots> = unat x mod 2 ^ (128 - n) * 2 ^ n + unat y" by (rule nat_or_disjoint [OF assms(2)])
  finally show ?thesis by (simp only: p)
qed

lemma and_7f: "(b AND 0x7f :: nat) = b mod 128"
proof -
  have "b AND mask 7 = b mod 2 ^ 7" by (simp only: take_bit_eq_mask [symmetric] take_bit_eq_mod)
  then show ?thesis by (simp add: mask_eq_exp_minus_1)
qed

lemma and_ff: "(b AND 0xff :: nat) = b mod 256"
proof -
  have "b AND mask 8 = b mod 2 ^ 8" by (simp only: take_bit_eq_mask [symmetric] take_bit_eq_mod)
  then show ?thesis by (simp add: mask_eq_exp_minus_1)
qed

lemma pow_128_split: "n \<le> 128 \<Longrightarrow> (2 :: nat) ^ n * 2 ^ (128 - n) = 2 ^ 128"
  by (simp only: power_add [symmetric] le_add_diff_inverse)

lemma shr_less: "n \<le> 128 \<Longrightarrow> unat (drop_bit (128 - n) x :: u128) < 2 ^ n"
  unfolding unat_shr by (rule less_mult_imp_div_less) (simp only: pow_128_split unat_u128_less)

lemma pow2_split: "k \<le> n \<Longrightarrow> (2 :: nat) ^ n = 2 ^ k * 2 ^ (n - k)"
  by (simp only: power_add [symmetric] le_add_diff_inverse)

lemma div_scaled: "0 < k \<Longrightarrow> x * k div (k * c) = x div c" for x k c :: nat
  by (simp add: mult.commute [of x k])

text \<open>Multiplying and dividing a two-digit number by \<open>k\<close> with \<open>k * c = m\<close>, digit by digit.\<close>

lemma two_digit_mult:
  fixes m k c h l :: nat
  assumes "m = k * c" "0 < k"
  shows "(h * k + l div c) mod m * m + l * k mod m = (h * m + l) * k mod (m * m)"
proof (cases "m = 0")
  case False
  have "l * k = l div c * m + l * k mod m"
    using div_mult_mod_eq [of "l * k" m] div_scaled [OF assms(2), of l c] by (simp only: assms(1))
  then have "(h * m + l) * k = (h * k + l div c) * m + l * k mod m"
    by (simp only: distrib_right add.assoc mult.assoc mult.commute [of m k])
  then show ?thesis using False by (simp only: pair_mod mod_less_divisor)
qed (use assms in simp)

lemma two_digit_div:
  fixes m k c h l :: nat
  assumes "m = k * c" "0 < k" "0 < c"
  shows "h div k * m + (h * c mod m + l div k) = (h * m + l) div k"
proof -
  have "h * m + l = h * c * k + l" by (simp only: assms(1) mult.assoc mult.commute [of k])
  then have "(h * m + l) div k = (h * c * k + l) div k" by (simp only:)
  also have "\<dots> = h * c + l div k" using assms(2) by simp
  also have "h * c = h div k * m + h * c mod m"
    using div_mult_mod_eq [of "h * c" m] div_scaled [OF assms(3), of h k] by (simp only: assms(1) mult.commute [of k])
  finally show ?thesis by (simp only: add.assoc)
qed

lemma shl3_val:
  assumes "b < 256"
  shows "uval (shl3 a b) = uval a * 2 ^ b mod 2 ^ 256"
proof (cases "b < 128")
  case True
  have l: "unat (drop_bit (128 - b) (low a)) < 2 ^ b" by (rule shr_less) (use True in simp)
  have "unat (push_bit b (high a) OR drop_bit (128 - b) (low a))
      = (unat (high a) * 2 ^ b + unat (low a) div 2 ^ (128 - b)) mod 2 ^ 128" (is "unat ?hi = ?v")
  proof -
    have "unat ?hi = unat (high a) * 2 ^ b mod 2 ^ 128 + unat (low a) div 2 ^ (128 - b)"
      using unat_or_shl [OF _ l, of "high a"] True by (simp only: unat_shr less_imp_le)
    moreover have "unat ?hi mod 2 ^ 128 = unat ?hi" by (rule mod_less [OF unat_u128_less])
    ultimately show ?thesis by (metis mod_add_left_eq)
  qed
  then have "uval (shl3 a b) = ?v * 2 ^ 128 + unat (low a) * 2 ^ b mod 2 ^ 128"
    if "b \<noteq> 0" using True that by (simp only: shl3_def if_True if_False uval_def U256.sel unat_shl)
  then show ?thesis
    using two_digit_mult [OF pow2_split [of b 128]] True uval_less [of a]
    by (cases "b = 0") (simp_all only: shl3_def uval_def pow_256, simp_all)
next
  case False
  then have b: "b AND 0x7f = b - 128" using assms unfolding and_7f by (simp add: mod_if)
  have shifted: "(h * m + l) * (m * k) = l * k * m + h * k * (m * m)" for h m l k :: nat
    by (simp add: algebra_simps)
  have p: "(2 :: nat) ^ b = 2 ^ 128 * 2 ^ (b - 128)" using pow2_split [of 128 b] False by simp
  have "uval a * 2 ^ b = unat (low a) * 2 ^ (b - 128) * 2 ^ 128 + unat (high a) * 2 ^ (b - 128) * (2 ^ 128 * 2 ^ 128)"
    unfolding uval_def p by (rule shifted)
  then have "uval a * 2 ^ b mod (2 ^ 128 * 2 ^ 128) = unat (low a) * 2 ^ (b - 128) mod 2 ^ 128 * 2 ^ 128"
    using pair_mod [of 0 "2 ^ 128" "unat (low a) * 2 ^ (b - 128)"] by (simp only: mod_mult_self1 add_0_right) simp
  moreover have "uval (shl3 a b) = unat (low a) * 2 ^ (b - 128) mod 2 ^ 128 * 2 ^ 128"
    using False by (auto simp: shl3_def uval_def b unat_shl simp del: push_bit_eq_mult)
  ultimately show ?thesis by (simp only: pow_256)
qed

lemma shr3_val:
  assumes "b < 256"
  shows "uval (shr3 a b) = uval a div 2 ^ b"
proof (cases "b < 128")
  case True
  have p: "(2 :: nat) ^ 128 = 2 ^ (128 - b) * 2 ^ b"
    using pow2_split [of b 128] True by (simp only: less_imp_le mult.commute)
  have "unat (drop_bit b (low a)) < 2 ^ (128 - b)"
    unfolding unat_shr by (rule less_mult_imp_div_less) (simp only: p [symmetric] unat_u128_less)
  then have "unat (push_bit (128 - b) (high a) OR drop_bit b (low a))
      = unat (high a) * 2 ^ (128 - b) mod 2 ^ 128 + unat (low a) div 2 ^ b"
    using unat_or_shl [of "128 - b"] by (simp only: unat_shr diff_le_self)
  then have "uval (shr3 a b) = unat (high a) div 2 ^ b * 2 ^ 128
      + (unat (high a) * 2 ^ (128 - b) mod 2 ^ 128 + unat (low a) div 2 ^ b)" if "b \<noteq> 0"
    using True that by (simp only: shr3_def if_True if_False uval_def U256.sel unat_shr or.commute)
  moreover have "\<dots> = uval a div 2 ^ b" unfolding uval_def
    by (rule two_digit_div) (simp_all only: p mult.commute zero_less_power zero_less_numeral)
  ultimately show ?thesis by (cases "b = 0") (simp_all add: shr3_def)
next
  case False
  then have b: "b AND 0x7f = b - 128" using assms unfolding and_7f by (simp add: mod_if)
  have "uval a div 2 ^ b = uval a div 2 ^ 128 div 2 ^ (b - 128)"
    using pow2_split [of 128 b] False by (simp only: not_less div_mult2_eq)
  also have "uval a div 2 ^ 128 = unat (high a)"
    unfolding uval_def by (subst div_mult_self3) (simp, simp only: div_less unat_u128_less add_0_right)
  finally show ?thesis using False by (auto simp: shr3_def uval_def b unat_shr simp del: drop_bit_eq_div)
qed

lemma bit_len_unique:
  assumes "2 ^ k \<le> n" "n < 2 ^ Suc k"
  shows "bit_len n = Suc k"
proof -
  have "0 < n" using assms(1) by (rule less_le_trans [rotated]) simp
  note b = bit_len_bounds [OF this]
  then have "(2::nat) ^ (bit_len n - 1) < 2 ^ Suc k" "(2::nat) ^ k < 2 ^ bit_len n"
    using assms by linarith+
  then have "bit_len n - 1 < Suc k" "k < bit_len n"
    using power_less_imp_less_exp [of "2 :: nat"] by (metis one_less_numeral_iff semiring_norm(76))+
  then show ?thesis by linarith
qed

lemma bit_len_uval:
  "bit_len (uval a) = (if high a = 0 then bit_len (unat (low a)) else 128 + bit_len (unat (high a)))"
proof (cases "high a = 0")
  case False
  then obtain k where k: "bit_len (unat (high a)) = Suc k" "2 ^ k \<le> unat (high a)" "unat (high a) < 2 ^ Suc k"
    using bit_len_bounds [of "unat (high a)"] by (cases "bit_len (unat (high a))") (auto simp: unat_gt_0)
  have "2 ^ (128 + k) \<le> unat (high a) * 2 ^ 128"
    unfolding power_add mult.commute [of "2 ^ 128"] by (rule mult_le_mono1 [OF k(2)])
  then have "2 ^ (128 + k) \<le> uval a" unfolding uval_def by (rule trans_le_add1)
  moreover have "uval a < 2 ^ Suc (128 + k)"
  proof -
    have "uval a < Suc (unat (high a)) * 2 ^ 128" unfolding uval_def using unat_u128_less [of "low a"] by simp
    also have "\<dots> \<le> 2 ^ Suc k * 2 ^ 128" using k(3) by (intro mult_le_mono1) simp
    finally show ?thesis by (simp only: power_add [symmetric] add.commute add_Suc)
  qed
  ultimately have "bit_len (uval a) = Suc (128 + k)" by (rule bit_len_unique)
  with False k(1) show ?thesis by simp
qed (simp add: uval_def)

lemma ctlz_val: "ctlz a = 256 - bit_len (uval a)"
  using bit_len_le [OF unat_u128_less [of "low a"]] by (simp add: ctlz_def Let_def leading_zeros_def bit_len_uval)

text \<open>A rotation by \<open>b\<close> up to 256 moves the top \<open>b mod 256\<close> bits below the others.\<close>

definition rotated :: "nat \<Rightarrow> nat \<Rightarrow> nat" where
  "rotated n x = x * 2 ^ n mod 2 ^ 256 + x div 2 ^ (256 - n)"

lemma uval_or_disjoint:
  assumes "n < 256" "n \<noteq> 0"
  shows "uval (u256_or (shl3 a n) (shr3 a (256 - n))) = rotated n (uval a)"
proof -
  have or: "uval (u256_or x y) = push_bit 128 (unat (high x) OR unat (high y)) OR (unat (low x) OR unat (low y))" for x y
  proof -
    have "unat (low x OR low y) < 2 ^ 128" by (rule unat_u128_less)
    from nat_or_disjoint [OF this, of "unat (high x OR high y)"] show ?thesis
      by (simp only: uval_def u256_or_def U256.sel unsigned_or_eq)
  qed
  have val: "uval x = push_bit 128 (unat (high x)) OR unat (low x)" for x
    using nat_or_disjoint [OF unat_u128_less [of "low x"], of "unat (high x)"] by (simp only: uval_def)
  have "uval (u256_or x y) = uval x OR uval y" for x y
    unfolding or val [of x] val [of y] push_bit_or by (simp only: or.assoc or.left_commute)
  then have "uval (u256_or (shl3 a n) (shr3 a (256 - n))) = uval (shl3 a n) OR uval a div 2 ^ (256 - n)"
    using shr3_val [of "256 - n" a] assms(2) by simp
  also have "uval (shl3 a n) = push_bit n (uval a mod 2 ^ (256 - n))"
    using shl3_val [OF assms(1), of a] mult_mod_right [of "2 ^ n" "uval a" "2 ^ (256 - n)"] assms(1)
    by (simp only: push_bit_eq_mult power_add [symmetric] mult.commute le_add_diff_inverse less_imp_le)
  also have "\<dots> OR uval a div 2 ^ (256 - n) = uval a mod 2 ^ (256 - n) * 2 ^ n + uval a div 2 ^ (256 - n)"
  proof (rule nat_or_disjoint)
    have "uval a < 2 ^ n * 2 ^ (256 - n)"
      using uval_less [of a] pow2_split [of n 256] assms by simp
    then show "uval a div 2 ^ (256 - n) < 2 ^ n" by (rule less_mult_imp_div_less)
  qed
  also have "uval a mod 2 ^ (256 - n) * 2 ^ n = uval a * 2 ^ n mod 2 ^ 256"
    using mult_mod_right [of "2 ^ n" "uval a" "2 ^ (256 - n)"] assms(1)
    by (simp only: power_add [symmetric] mult.commute le_add_diff_inverse less_imp_le)
  finally show ?thesis by (simp only: rotated_def)
qed

lemma u256_or_self: "u256_or a a = a"
  by (simp add: u256_or_def)

lemma u256_or_commute: "u256_or a b = u256_or b a"
  by (simp add: u256_or_def or.commute)

lemma rol3_val:
  assumes "n \<le> 256"
  shows "rol3 a n = Ok (of_val (rotated (n mod 256) (uval a)))"
proof (cases "n = 0 \<or> n = 256")
  case True
  have "rotated 0 (uval a) = uval a" using uval_less [of a] by (simp add: rotated_def)
  with True show ?thesis by (auto simp: rol3_def and_ff u256_or_self shl3_def shr3_def)
next
  case False
  with assms have n: "n < 256" "n \<noteq> 0" "n mod 256 = n" "(256 - n) mod 256 = 256 - n" by simp_all
  show ?thesis using eq_of_val [OF uval_or_disjoint [OF n(1,2), of a]]
    by (simp add: rol3_def and_ff n(3,4) assms)
qed

lemma ror3_val:
  assumes "n \<le> 256"
  shows "ror3 a n = Ok (of_val (rotated ((256 - n) mod 256) (uval a)))"
proof (cases "n = 0 \<or> n = 256")
  case True
  have "rotated 0 (uval a) = uval a" using uval_less [of a] by (simp add: rotated_def)
  with True show ?thesis by (auto simp: ror3_def and_ff u256_or_self shl3_def shr3_def)
next
  case False
  with assms have n: "256 - n < 256" "256 - n \<noteq> 0" "n mod 256 = n" "(256 - n) mod 256 = 256 - n" by simp_all
  have "u256_or (shl3 a (256 - n)) (shr3 a n) = of_val (rotated (256 - n) (uval a))"
    using eq_of_val [OF uval_or_disjoint [OF n(1,2), of a]] assms by simp
  then show ?thesis by (simp add: ror3_def and_ff n(3,4) assms u256_or_commute [of "shr3 a n"])
qed

end
