(* ===== verification/Wide_Division.thy ===== *)
theory Wide_Division
  imports Wide_Words
begin

text \<open>
  256-bit division (\<open>ethnum-patch/src/intrinsics/native/divmod.rs\<close>): the 256-by-128-bit step with its
  two estimated quotient digits, Knuth's algorithm D for a divisor above \<open>2 ^ 128\<close>, the dispatch
  between them, and the signed division on top. Each routine is proved to return quotient and
  remainder, which includes that none of its checked operations overflows, that every shift amount is
  in range and that the correction loops end after at most two rounds.
\<close>

section \<open>The routines\<close>

definition B :: u128 where "B = push_bit 64 1"

text \<open>The correction loop, at digit estimate \<open>q\<close> with partial remainder \<open>rhat\<close>.\<close>

function digit_loop :: "u128 \<Rightarrow> u128 \<Rightarrow> u128 \<Rightarrow> u128 \<Rightarrow> u128 \<Rightarrow> ('e, u128) outcome" where
  "digit_loop vn1 vn0 d q rhat =
     bnd (if q \<ge> B then Ok True
          else
            bnd (u128_mul q vn0) (\<lambda>l.
            bnd (u128_mul B rhat) (\<lambda>s.
            bnd (u128_add s d) (\<lambda>r. Ok (l > r))))) (\<lambda>again.
     if \<not> again then Ok q
     else
       bnd (u128_sub q 1) (\<lambda>q'.
       bnd (u128_add rhat vn1) (\<lambda>rhat'.
       if rhat' \<ge> B then Ok q' else digit_loop vn1 vn0 d q' rhat')))"
  by pat_completeness auto

termination
  by (relation "measure (\<lambda>(vn1, vn0, d, q, rhat). unat q)")
    (auto simp: u128_sub_def unat_sub word_le_nat_alt split: if_splits)

declare digit_loop.simps [simp del]

text \<open>Shifting divisor and dividend until the divisor's top bit is set.\<close>

definition normalized_operands :: "u128 \<Rightarrow> u128 \<Rightarrow> u128 \<Rightarrow> ('e, u128 \<times> u128 \<times> u128) outcome" where
  "normalized_operands u1 u0 v0 =
     (let s = leading_zeros v0 in
      if s > 0 then
        bnd (u128_shl v0 s) (\<lambda>v.
        bnd (u128_shl u1 s) (\<lambda>hi.
        bnd (u128_shr u0 (128 - s)) (\<lambda>lo.
        bnd (u128_shl u0 s) (\<lambda>un10. Ok (v, hi OR lo, un10)))))
      else Ok (v0, u1, u0))"

definition udiv256_by_128_to_128 :: "u128 \<Rightarrow> u128 \<Rightarrow> u128 \<Rightarrow> ('e, u128 \<times> u128) outcome" where
  "udiv256_by_128_to_128 u1 u0 v0 =
     (let s = leading_zeros v0 in
      bnd (normalized_operands u1 u0 v0) (\<lambda>(v, un128, un10).
      let vn1 = drop_bit 64 v; vn0 = v AND LOWER_MASK;
          un1 = drop_bit 64 un10; un0 = un10 AND LOWER_MASK in
      bnd (u128_div un128 vn1) (\<lambda>q1.
      bnd (u128_mul q1 vn1) (\<lambda>p1.
      bnd (u128_sub un128 p1) (\<lambda>rhat1.
      bnd (digit_loop vn1 vn0 un1 q1 rhat1) (\<lambda>q1'.
      let un21 = un128 * B + un1 - q1' * v in
      bnd (u128_div un21 vn1) (\<lambda>q0.
      bnd (u128_mul q0 vn1) (\<lambda>p0.
      bnd (u128_sub un21 p0) (\<lambda>rhat0.
      bnd (digit_loop vn1 vn0 un0 q0 rhat0) (\<lambda>q0'.
      bnd (u128_shr (un21 * B + un0 - q0' * v) s) (\<lambda>r.
      bnd (u128_mul q1' B) (\<lambda>t.
      bnd (u128_add t q0') (\<lambda>q. Ok (q, r))))))))))))))"

section \<open>Quotient digits\<close>

text \<open>
  A digit estimate \<open>q\<close> of \<open>u * m + d\<close> by \<open>v1 * m + v0\<close> with \<open>q * v1 + r = u\<close> is too large exactly when
  \<open>q * v0\<close> exceeds \<open>r * m + d\<close>.
\<close>

lemma estimate_too_large:
  fixes u d m v1 v0 q r :: nat
  assumes "q * v1 + r = u" "0 < v1 * m + v0"
  shows "((u * m + d) div (v1 * m + v0) < q) = (r * m + d < q * v0)"
proof -
  have "q * (v1 * m + v0) + (r * m + d) = (u * m + d) + q * v0"
    using assms(1) [symmetric] by (simp add: algebra_simps)
  moreover have "((u * m + d) div (v1 * m + v0) < q) = (u * m + d < q * (v1 * m + v0))"
    using assms(2) by (simp add: div_less_iff_less_mult)
  ultimately show ?thesis by linarith
qed

text \<open>With a normalised divisor the first estimate is at most two too large (Knuth, theorem B).\<close>

lemma estimate_close:
  fixes u d m v1 v0 :: nat
  assumes "v0 < m" "m \<le> 2 * v1" "u < v1 * m + v0" "0 < m"
  shows "u div v1 \<le> m + 1" "u div v1 \<le> (u * m + d) div (v1 * m + v0) + 2"
proof -
  let ?q = "u div v1" and ?v = "v1 * m + v0"
  have v1: "0 < v1" using assms(2,4) by simp
  have qu: "?q * v1 \<le> u" by (rule div_times_less_eq_dividend)
  show m: "?q \<le> m + 1"
  proof (rule ccontr)
    assume "\<not> ?thesis"
    then have "(m + 2) * v1 \<le> ?q * v1" by (intro mult_le_mono1) simp
    moreover have "(m + 2) * v1 = v1 * m + 2 * v1" by simp
    ultimately show False using qu assms(1-3) by linarith
  qed
  show "?q \<le> (u * m + d) div ?v + 2"
  proof (rule ccontr)
    define q v where "q = (u * m + d) div ?v" and "v = ?v"
    assume "\<not> ?thesis"
    then have "(q + 3) * v \<le> ?q * v" by (intro mult_le_mono1) (simp add: q_def)
    moreover have "(q + 3) * v = (q + 1) * v + 2 * v" by (simp add: distrib_right)
    moreover have "u * m + d < (q + 1) * v"
      unfolding q_def v_def using v1 assms(4) dividend_less_div_times [of ?v "u * m + d"] by simp
    moreover have "?q * v \<le> u * m + ?q * v0"
      using mult_le_mono1 [OF qu, of m] by (simp add: v_def algebra_simps)
    moreover have "?q * v0 \<le> (m + 1) * (m - 1)" using m assms(1) by (intro mult_le_mono) simp_all
    moreover have "(m + 1) * (m - 1) < m * m" using assms(4) by (cases m) simp_all
    moreover have "m * m \<le> 2 * v1 * m" by (rule mult_le_mono1 [OF assms(2)])
    moreover have "2 * v1 * m \<le> 2 * v" by (simp add: v_def)
    ultimately show False by linarith
  qed
qed

text \<open>The loop ends with the exact digit.\<close>

lemma unat_B: "unat B = 2 ^ 64"
  unfolding B_def unat_shl by simp

lemma digit_loop_val:
  fixes vn1 vn0 d q rhat :: u128
  assumes v: "0 < unat vn1" "unat vn0 < 2 ^ 64" "unat d < 2 ^ 64"
    and u: "u < unat vn1 * 2 ^ 64 + unat vn0"
  shows "unat q * unat vn1 + unat rhat = u \<Longrightarrow> unat rhat < 2 ^ 64 \<Longrightarrow> unat vn1 < 2 ^ 64 \<Longrightarrow>
    (u * 2 ^ 64 + unat d) div (unat vn1 * 2 ^ 64 + unat vn0) \<le> unat q \<Longrightarrow> unat q \<le> 2 ^ 64 + 1 \<Longrightarrow>
    (digit_loop vn1 vn0 d q rhat :: ('e, u128) outcome) = Ok (word_of_nat ((u * 2 ^ 64 + unat d) div (unat vn1 * 2 ^ 64 + unat vn0)))"
proof (induction "unat q" arbitrary: q rhat rule: less_induct)
  case less
  define v qd where "v = unat vn1 * 2 ^ 64 + unat vn0"
    and "qd = (u * 2 ^ 64 + unat d) div (unat vn1 * 2 ^ 64 + unat vn0)"
  have v0: "0 < v" using v(1) by (simp add: v_def)
  have qd: "qd < 2 ^ 64"
  proof -
    have "u * 2 ^ 64 + unat d < Suc u * 2 ^ 64" using v(3) by simp
    also have "\<dots> \<le> v * 2 ^ 64" by (rule mult_le_mono1) (use u in \<open>simp add: v_def\<close>)
    finally show ?thesis
      unfolding qd_def v_def [symmetric] by (simp only: less_mult_imp_div_less mult.commute)
  qed
  have large: "(qd < unat q) = (unat rhat * 2 ^ 64 + unat d < unat q * unat vn0)"
    unfolding qd_def by (rule estimate_too_large [OF less.prems(1)]) (use v0 in \<open>simp add: v_def\<close>)
  define again where "again = (B \<le> q \<or> unat rhat * 2 ^ 64 + unat d < unat q * unat vn0)"
  have again: "again = (qd < unat q)"
    using qd large by (auto simp: again_def word_le_nat_alt unat_B)
  have test: "(if B \<le> q then Ok True
      else bnd (u128_mul q vn0) (\<lambda>l. bnd (u128_mul B rhat) (\<lambda>s. bnd (u128_add s d) (\<lambda>r. Ok (l > r)))))
    = Ok again"
  proof (cases "B \<le> q")
    case False
    then have q: "unat q < 2 ^ 64" by (simp add: word_le_nat_alt unat_B)
    have "unat B * unat rhat < 2 ^ 64 * 2 ^ 64" unfolding unat_B using less.prems(2) by simp
    then have 1: "unat B * unat rhat < 2 ^ 128" by (simp only: pow_128)
    have "unat rhat * 2 ^ 64 + unat d < 2 ^ 64 * 2 ^ 64" by (rule pair_less [OF less.prems(2) v(3)])
    then have 2: "unat (B * rhat) + unat d < 2 ^ 128"
      using u128_mul_val [OF 1, THEN conjunct2] by (simp only: unat_B pow_128 mult.commute)
    show ?thesis
      using False u128_mul_val [OF 1, THEN conjunct2] u128_add_val [OF 2, THEN conjunct2]
      by (simp add: digit_mul_val [OF q v(2)] u128_mul_val [OF 1] u128_add_val [OF 2] again_def
          word_less_nat_alt unat_B mult.commute)
  qed (simp add: again_def)
  have "(digit_loop vn1 vn0 d q rhat :: ('e, u128) outcome) = Ok (word_of_nat qd)"
  proof (cases again)
    case False
    then have "qd = unat q" using again less.prems(4) unfolding qd_def [symmetric] by simp
    then show ?thesis using False by (simp add: digit_loop.simps [of _ _ _ q] test)
  next
    case True
    then have q: "qd < unat q" by (simp only: again)
    then have q': "unat (1 :: u128) \<le> unat q" by simp
    note sub = u128_sub_val [OF q']
    have "unat rhat + unat vn1 < 2 ^ 128" using less.prems(2,3) by simp
    note add = u128_add_val [OF this]
    have sum: "unat (q - 1) * unat vn1 + unat (rhat + vn1) = u"
    proof -
      have "(k - 1) * n + (r + n) = k * n + r" if "1 \<le> k" for k n r :: nat
        using that by (cases k) simp_all
      then show ?thesis using less.prems(1) q' by (simp only: sub add unsigned_1)
    qed
    have le: "qd \<le> unat (q - 1)" using q by (simp add: sub)
    show ?thesis
    proof (cases "B \<le> rhat + vn1")
      case True
      then have r: "2 ^ 64 \<le> unat (rhat + vn1)" by (simp add: word_le_nat_alt unat_B)
      have "\<not> qd < unat (q - 1)"
      proof -
        have "unat (q - 1) * unat vn0 \<le> 2 ^ 64 * 2 ^ 64"
          using less.prems(5) v(2) by (intro mult_le_mono) (simp_all add: sub)
        also have "\<dots> \<le> unat (rhat + vn1) * 2 ^ 64 + unat d" using mult_le_mono1 [OF r] by (rule trans_le_add1)
        finally show ?thesis
          unfolding qd_def using estimate_too_large [OF sum, of "2 ^ 64" "unat vn0" "unat d"] v0
          by (simp only: v_def not_less)
      qed
      with le have "qd = unat (q - 1)" by simp
      then have "q - 1 = word_of_nat qd" by simp
      then show ?thesis
        using True \<open>again\<close>
        by (simp add: digit_loop.simps [of _ _ _ q] test sub add)
    next
      case False
      then have "unat (rhat + vn1) < 2 ^ 64" by (simp add: word_le_nat_alt unat_B not_le)
      moreover have "unat (q - 1) < unat q" using q' by (simp add: sub)
      moreover have "unat (q - 1) \<le> 2 ^ 64 + 1" using less.prems(5) by (simp add: sub)
      ultimately have "(digit_loop vn1 vn0 d (q - 1) (rhat + vn1) :: ('e, u128) outcome) = Ok (word_of_nat qd)"
        using less.hyps [OF _ sum] le less.prems(3) unfolding qd_def by blast
      then show ?thesis
        using False \<open>again\<close>
        by (simp add: digit_loop.simps [of _ _ _ q] test sub add)
    qed
  qed
  then show ?case by (simp only: qd_def)
qed

lemma estimate_above:
  fixes u d m v1 v0 :: nat
  assumes "d < m" "0 < v1"
  shows "(u * m + d) div (v1 * m + v0) \<le> u div v1"
proof -
  have "(u * m + d) div (v1 * m + v0) \<le> (u * m + d) div (m * v1)"
    by (rule div_le_mono2) (use assms in \<open>simp_all add: mult.commute\<close>)
  also have "\<dots> = u div v1" using assms by (simp add: div_mult2_eq)
  finally show ?thesis .
qed

text \<open>A quotient digit: estimate it by the top half of the divisor, then correct it.\<close>

lemma quotient_digit_val:
  fixes un v d :: u128
  defines "vn1 \<equiv> drop_bit 64 v" and "vn0 \<equiv> v AND LOWER_MASK"
  assumes "un < v" "2 ^ 127 \<le> unat v" "unat d < 2 ^ 64"
  shows "bnd (u128_div un vn1) (\<lambda>q. bnd (u128_mul q vn1) (\<lambda>p. bnd (u128_sub un p) (\<lambda>r.
    bnd (digit_loop vn1 vn0 d q r) F))) = F (word_of_nat ((unat un * 2 ^ 64 + unat d) div unat v))"
proof -
  have v: "unat v = unat vn1 * 2 ^ 64 + unat vn0" "unat vn1 < 2 ^ 64" "unat vn0 < 2 ^ 64"
    unfolding vn1_def vn0_def by (rule halves64 unat_high64 unat_low64_less)+
  have top: "2 ^ 63 \<le> unat vn1"
  proof -
    have "2 ^ 127 div 2 ^ 64 \<le> unat v div 2 ^ 64" by (rule div_le_mono [OF assms(4)])
    then show ?thesis unfolding vn1_def unat_shr by simp
  qed
  then have nz: "vn1 \<noteq> 0" "0 < unat vn1" by (auto simp: unat_gt_0)
  note q = u128_div_val [OF nz(1), of un]
  have u: "unat un < unat vn1 * 2 ^ 64 + unat vn0" using assms(3) by (simp only: word_less_nat_alt v(1))
  have prod: "unat (un div vn1) * unat vn1 \<le> unat un" by (simp only: q div_times_less_eq_dividend)
  then have "unat (un div vn1) * unat vn1 < 2 ^ 128" using unat_u128_less [of un] by (rule le_less_trans)
  note p = u128_mul_val [OF this]
  from prod have "unat (un div vn1 * vn1) \<le> unat un" by (simp only: p)
  note r = u128_sub_val [OF this]
  have rest: "unat (un - un div vn1 * vn1) = unat un mod unat vn1"
    by (simp only: minus_div_mult_eq_mod unat_mod)
  have loop: "digit_loop vn1 vn0 d (un div vn1) (un - un div vn1 * vn1)
    = Ok (word_of_nat ((unat un * 2 ^ 64 + unat d) div (unat vn1 * 2 ^ 64 + unat vn0)))"
  proof (rule digit_loop_val [OF nz(2) v(3) assms(5) u])
    show "unat (un div vn1) * unat vn1 + unat (un - un div vn1 * vn1) = unat un"
      by (simp only: rest q div_mult_mod_eq)
    show "unat (un - un div vn1 * vn1) < 2 ^ 64"
      unfolding rest using nz(2) v(2) by (rule less_trans [OF mod_less_divisor])
    show "(unat un * 2 ^ 64 + unat d) div (unat vn1 * 2 ^ 64 + unat vn0) \<le> unat (un div vn1)"
      by (simp only: q estimate_above [OF assms(5) nz(2)])
    have "2 ^ 64 \<le> 2 * unat vn1" using top by simp
    from estimate_close(1) [OF v(3) this u] show "unat (un div vn1) \<le> 2 ^ 64 + 1" by (simp only: q) simp
  qed (rule v(2))
  show ?thesis
    by (simp only: loop q [THEN conjunct1] p [THEN conjunct1] r [THEN conjunct1] bnd_simps v(1))
qed

lemma normalize_val:
  assumes "u1 < v0"
  obtains v un128 un10 where
    "(normalized_operands u1 u0 v0 :: ('e, u128 \<times> u128 \<times> u128) outcome) = Ok (v, un128, un10)"
    "unat v = unat v0 * 2 ^ leading_zeros v0" "2 ^ 127 \<le> unat v" "un128 < v"
    "unat un128 * 2 ^ 128 + unat un10 = (unat u1 * 2 ^ 128 + unat u0) * 2 ^ leading_zeros v0"
proof -
  define s where "s = leading_zeros v0"
  have "v0 \<noteq> 0" using assms by auto
  note lz = leading_zeros_bounds [OF this, folded s_def]
  have u1: "unat u1 * 2 ^ s < unat v0 * 2 ^ s" using assms by (simp add: word_less_nat_alt)
  define v un128 un10 where "v = push_bit s v0"
    and "un128 = (if s = 0 then u1 else push_bit s u1 OR drop_bit (128 - s) u0)" and "un10 = push_bit s u0"
  have v: "unat v = unat v0 * 2 ^ s" unfolding v_def unat_shl by (rule mod_less [OF lz(3)])
  have "unat un128 = unat u1 * 2 ^ s + unat u0 div 2 ^ (128 - s)"
  proof (cases "s = 0")
    case True
    then show ?thesis using unat_u128_less [of u0] by (simp add: un128_def)
  next
    case False
    have "unat un128 = unat u1 * 2 ^ s mod 2 ^ 128 + unat (drop_bit (128 - s) u0)"
      using False lz(1) unat_or_shl [OF _ shr_less] by (simp only: un128_def if_False less_imp_le)
    moreover have "unat u1 * 2 ^ s mod 2 ^ 128 = unat u1 * 2 ^ s" by (rule mod_less [OF less_trans [OF u1 lz(3)]])
    ultimately show ?thesis by (simp only: unat_shr)
  qed
  moreover have "unat u0 * 2 ^ s = unat u0 div 2 ^ (128 - s) * 2 ^ 128 + unat un10"
    using div_mult_mod_eq [of "unat u0 * 2 ^ s" "2 ^ 128"] div_scaled [of "2 ^ s" "unat u0" "2 ^ (128 - s)"] lz(1)
    unfolding un10_def unat_shl by (simp only: pow_128_split less_imp_le zero_less_power zero_less_numeral)
  ultimately have un: "unat un128 * 2 ^ 128 + unat un10 = (unat u1 * 2 ^ 128 + unat u0) * 2 ^ s"
    by (simp only: distrib_right add.assoc mult.assoc mult.commute [of "2 ^ 128" "2 ^ s"])
  have "unat un128 * 2 ^ 128 < unat v * 2 ^ 128"
  proof -
    have "unat u1 * 2 ^ 128 + unat u0 < (unat u1 + 1) * 2 ^ 128" using unat_u128_less [of u0] by simp
    also have "\<dots> \<le> unat v0 * 2 ^ 128" using assms by (intro mult_le_mono1) (simp add: word_less_nat_alt)
    finally have "(unat u1 * 2 ^ 128 + unat u0) * 2 ^ s < unat v0 * 2 ^ 128 * 2 ^ s" by (rule mult_less_mono1) simp
    also have "\<dots> = unat v * 2 ^ 128" by (simp only: v mult.assoc mult.commute [of "2 ^ 128"])
    finally show ?thesis unfolding un [symmetric] by (rule le_less_trans [OF le_add1])
  qed
  then have less: "un128 < v" by (simp add: word_less_nat_alt)
  have "(normalized_operands u1 u0 v0 :: ('e, u128 \<times> u128 \<times> u128) outcome) = Ok (v, un128, un10)"
    using lz(1) by (simp add: normalized_operands_def Let_def s_def [symmetric] v_def un128_def un10_def
        u128_shl_def u128_shr_def del: push_bit_eq_mult drop_bit_eq_div)
  moreover have "2 ^ 127 \<le> unat v" unfolding v by (rule lz(2))
  ultimately show ?thesis using that [OF _ v [unfolded s_def] _ less un [unfolded s_def]] by blast
qed

text \<open>Long division by a fixed divisor, one digit at a time.\<close>

lemma long_division:
  fixes u a b m v :: nat
  defines "r \<equiv> (u * m + a) mod v"
  shows "(u * (m * m) + (a * m + b)) div v = (u * m + a) div v * m + (r * m + b) div v"
    "(u * (m * m) + (a * m + b)) mod v = (r * m + b) mod v"
proof -
  have "u * (m * m) + (a * m + b) = (u * m + a) * m + b" by (simp add: distrib_right)
  also have "(u * m + a) * m = (u * m + a) div v * m * v + r * m"
    using div_mult_mod_eq [of "u * m + a" v, symmetric] unfolding r_def
    by (metis distrib_right mult.assoc mult.commute)
  finally have e: "u * (m * m) + (a * m + b) = (r * m + b) + (u * m + a) div v * m * v" by simp
  show "(u * (m * m) + (a * m + b)) mod v = (r * m + b) mod v" unfolding e by (rule mod_mult_self1)
  show "(u * (m * m) + (a * m + b)) div v = (u * m + a) div v * m + (r * m + b) div v"
    unfolding e by (cases "v = 0") simp_all
qed

lemma digit_less: "u < v \<Longrightarrow> d < m \<Longrightarrow> (u * m + d) div v < m" for u v d m :: nat
proof (rule less_mult_imp_div_less)
  assume "u < v" "d < m"
  then have "u * m + d < (u + 1) * m" "(u + 1) * m \<le> v * m" by (simp, intro mult_le_mono1) simp
  then show "u * m + d < m * v" by (simp add: mult.commute)
qed

text \<open>The next partial dividend is computed modulo \<open>2 ^ 128\<close>, and fits.\<close>

lemma partial_dividend:
  fixes un v d :: u128
  defines "N \<equiv> unat un * 2 ^ 64 + unat d"
  assumes "0 < unat v"
  shows "unat (un * B + d - word_of_nat (N div unat v) * v) = N mod unat v"
proof -
  have "un * B + d = word_of_nat N" by (simp add: N_def B_def)
  then have "un * B + d - word_of_nat (N div unat v) * v = word_of_nat N - word_of_nat (N div unat v * unat v)"
    by simp
  also have "\<dots> = word_of_nat (N - N div unat v * unat v)"
    by (simp only: of_nat_diff div_times_less_eq_dividend)
  also have "N - N div unat v * unat v = N mod unat v" by (simp only: minus_div_mult_eq_mod)
  finally have "un * B + d - word_of_nat (N div unat v) * v = word_of_nat (N mod unat v)" .
  moreover have "N mod unat v < 2 ^ 128" using mod_less_divisor [OF assms(2)] unat_u128_less [of v] by (rule less_trans)
  ultimately show ?thesis by (simp add: unsigned_of_nat take_bit_eq_mod)
qed

lemma udiv256_val:
  fixes u1 u0 v :: u128
  assumes "u1 < v"
  defines "n \<equiv> unat u1 * 2 ^ 128 + unat u0"
  shows "(udiv256_by_128_to_128 u1 u0 v :: ('e, u128 \<times> u128) outcome)
    = Ok (word_of_nat (n div unat v), word_of_nat (n mod unat v))"
proof -
  define s where "s = leading_zeros v"
  obtain w x y where norm:
      "(normalized_operands u1 u0 v :: ('e, u128 \<times> u128 \<times> u128) outcome) = Ok (w, x, y)"
    and w: "unat w = unat v * 2 ^ s" "2 ^ 127 \<le> unat w" "x < w"
    and xy: "unat x * 2 ^ 128 + unat y = n * 2 ^ s"
    unfolding s_def n_def by (rule normalize_val [OF assms(1)])
  have "v \<noteq> 0" using assms(1) by auto
  then have s: "s < 128" unfolding s_def by (rule leading_zeros_bounds)
  have w0: "0 < unat w" using w(2) by simp
  define d1 d0 where "d1 = drop_bit 64 y" and "d0 = y AND LOWER_MASK"
  have d: "unat d1 < 2 ^ 64" "unat d0 < 2 ^ 64" "unat y = unat d1 * 2 ^ 64 + unat d0"
    unfolding d1_def d0_def by (rule unat_high64 unat_low64_less halves64)+
  define q1 where "q1 = (unat x * 2 ^ 64 + unat d1) div unat w"
  define z where "z = x * B + d1 - word_of_nat q1 * w"
  have z: "unat z = (unat x * 2 ^ 64 + unat d1) mod unat w"
    unfolding z_def q1_def by (rule partial_dividend [OF w0])
  then have "z < w" using w0 by (simp add: word_less_nat_alt)
  define q0 where "q0 = (unat z * 2 ^ 64 + unat d0) div unat w"
  define r where "r = z * B + d0 - word_of_nat q0 * w"
  have r: "unat r = (unat z * 2 ^ 64 + unat d0) mod unat w"
    unfolding r_def q0_def by (rule partial_dividend [OF w0])
  have whole: "unat x * (2 ^ 64 * 2 ^ 64) + (unat d1 * 2 ^ 64 + unat d0) = n * 2 ^ s"
    using xy by (simp only: d(3) pow_128)
  have scaled: "n * 2 ^ s div unat w = n div unat v" "n * 2 ^ s mod unat w = n mod unat v * 2 ^ s"
    unfolding w(1) by (simp_all add: mult_mod_left)
  have quot: "n div unat v = q1 * 2 ^ 64 + q0"
    using long_division(1) [of "unat x" "2 ^ 64" "unat d1" "unat d0" "unat w"]
    unfolding whole scaled q1_def q0_def z .
  have rest: "n mod unat v * 2 ^ s = unat r"
    using long_division(2) [of "unat x" "2 ^ 64" "unat d1" "unat d0" "unat w"]
    unfolding whole scaled r z .
  have q: "q1 < 2 ^ 64" "q0 < 2 ^ 64"
    unfolding q1_def q0_def using w(3) \<open>z < w\<close> d
    by (simp_all only: digit_less word_less_nat_alt)
  then have u: "unat (word_of_nat q1 :: u128) = q1" "unat (word_of_nat q0 :: u128) = q0"
    by (simp_all add: unsigned_of_nat take_bit_eq_mod)
  have "q1 * 2 ^ 64 + q0 < 2 ^ 128" unfolding pow_128 by (rule pair_less [OF q])
  then have fits: "q1 * 2 ^ 64 < 2 ^ 128" "q1 * 2 ^ 64 + q0 < 2 ^ 128" by simp_all
  have m: "(u128_mul (word_of_nat q1) B :: ('e, u128) outcome) = Ok (word_of_nat q1 * B)"
    "unat (word_of_nat q1 * B) = q1 * 2 ^ 64"
    using fits(1) by (simp_all only: u128_mul_val u unat_B)
  have a: "(u128_add (word_of_nat q1 * B) (word_of_nat q0) :: ('e, u128) outcome)
      = Ok (word_of_nat q1 * B + word_of_nat q0)"
    using fits(2) by (simp only: u128_add_val u m)
  have sum: "word_of_nat q1 * B + word_of_nat q0 = word_of_nat (n div unat v)"
    by (simp add: quot B_def)
  have "n mod unat v = unat (drop_bit s r)" unfolding unat_shr rest [symmetric] by simp
  then have rem: "drop_bit s r = word_of_nat (n mod unat v)" by (simp del: drop_bit_eq_div)
  show ?thesis
    unfolding udiv256_by_128_to_128_def Let_def s_def [symmetric] norm bnd_simps prod.case
      d1_def [symmetric] d0_def [symmetric] quotient_digit_val [OF w(3,2) d(1)] q1_def [symmetric]
      z_def [symmetric] quotient_digit_val [OF \<open>z < w\<close> w(2) d(2)] q0_def [symmetric] r_def [symmetric]
      u128_shr_val [OF s] m a sum rem ..
qed

section \<open>Algorithm D\<close>

text \<open>Three words, least significant first (\<open>[u128; 3]\<close>).\<close>

type_synonym u384 = "u128 \<times> u128 \<times> u128"

fun val3 :: "u384 \<Rightarrow> nat" where
  "val3 (u0, u1, u2) = (unat u2 * 2 ^ 128 + unat u1) * 2 ^ 128 + unat u0"

definition full_shl :: "U256 \<Rightarrow> nat \<Rightarrow> ('e, u384) outcome" where
  "full_shl a shift =
     bnd (u128_shl (low a) shift) (\<lambda>u_lo.
     let u_hi = shr3 a (128 - shift) in
     Ok (u_lo, low u_hi, high u_hi))"

definition full_shr :: "u384 \<Rightarrow> nat \<Rightarrow> ('e, U256) outcome" where
  "full_shr u shift =
     (case u of (u0, u1, u2) \<Rightarrow>
        bnd (u128_shr u0 shift) (\<lambda>lo.
        bnd (u128_shr u1 shift) (\<lambda>hi.
        if shift > 0 then
          let sh = 128 - shift in
          bnd (u128_shl u1 sh) (\<lambda>c1.
          bnd (u128_shl u2 sh) (\<lambda>c2. Ok (from_words (hi OR c2) (lo OR c1))))
        else Ok (from_words hi lo))))"

definition split_u128_to_u128 :: "u128 \<Rightarrow> u128 \<times> u128" where
  "split_u128_to_u128 a = (a AND LOWER_MASK, drop_bit 64 a)"

definition fullmul_u128 :: "u128 \<Rightarrow> u128 \<Rightarrow> ('e, u128 \<times> u128) outcome" where
  "fullmul_u128 a b =
     (let (a0, a1) = split_u128_to_u128 a; (b0, b1) = split_u128_to_u128 b in
      bnd (u128_mul a0 b0) (\<lambda>t0.
      let (w3, k0) = split_u128_to_u128 t0 in
      bnd (u128_mul a1 b0) (\<lambda>p1.
      bnd (u128_add p1 k0) (\<lambda>t1.
      let (w1, w2) = split_u128_to_u128 t1 in
      bnd (u128_mul a0 b1) (\<lambda>p2.
      bnd (u128_add p2 w1) (\<lambda>t2.
      let k = drop_bit 64 t2 in
      bnd (u128_mul a1 b1) (\<lambda>p3.
      bnd (u128_add p3 w2) (\<lambda>h.
      bnd (u128_add h k) (\<lambda>w_hi.
      bnd (u128_add (push_bit 64 t2) w3) (\<lambda>w_lo.
      Ok (w_lo, w_hi)))))))))))"

definition fullmul_u256_u128 :: "U256 \<Rightarrow> u128 \<Rightarrow> ('e, u384) outcome" where
  "fullmul_u256_u128 a b =
     (if b \<noteq> 0 then
        bnd (fullmul_u128 (low a) b) (\<lambda>(lo, carry).
        bnd (fullmul_u128 (high a) b) (\<lambda>(lo', carry').
        let (acc1, c) = overflowing_add carry lo' in
        bnd (u128_add carry' (u128_of_bool c)) (\<lambda>acc2. Ok (lo, acc1, acc2))))
      else Ok (0, 0, 0))"

definition add_carry :: "u128 \<Rightarrow> u128 \<Rightarrow> bool \<Rightarrow> u128 \<times> bool" where
  "add_carry a b c =
     (let (res1, overflow1) = overflowing_add b (u128_of_bool c);
          (res2, overflow2) = overflowing_add a res1 in (res2, overflow1 \<or> overflow2))"

definition sub_carry :: "u128 \<Rightarrow> u128 \<Rightarrow> bool \<Rightarrow> u128 \<times> bool" where
  "sub_carry a b c =
     (let (res1, overflow1) = overflowing_add b (u128_of_bool c);
          (res2, overflow2) = overflowing_sub a res1 in (res2, overflow1 \<or> overflow2))"

function qhat_loop :: "u128 \<Rightarrow> u128 \<Rightarrow> u128 \<Rightarrow> u128 \<Rightarrow> u128 \<Rightarrow> ('e, u128) outcome" where
  "qhat_loop v_n_1 v_n_2 u0 q_hat r_hat =
     bnd (fullmul_u128 q_hat v_n_2) (\<lambda>(lo, hi).
     if \<not> (hi > r_hat \<or> hi = r_hat \<and> lo > u0) then Ok q_hat
     else
       bnd (u128_sub q_hat 1) (\<lambda>q_hat'.
       let (r_hat', overflow) = overflowing_add r_hat v_n_1 in
       if overflow then Ok q_hat' else qhat_loop v_n_1 v_n_2 u0 q_hat' r_hat'))"
  by pat_completeness auto

termination
  by (relation "measure (\<lambda>(v_n_1, v_n_2, u0, q, r_hat). unat q)")
    (auto simp: u128_sub_def unat_sub word_le_nat_alt split: if_splits)

declare qhat_loop.simps [simp del]

text \<open>The two places the source marks as unreachable are traps here.\<close>

definition div_mod_knuth :: "U256 \<Rightarrow> U256 \<Rightarrow> ('e, U256 \<times> U256) outcome" where
  "div_mod_knuth u v0 =
     (if high u = 0 then Trap
      else
        let shift = leading_zeros (high v0); v = shl3 v0 shift in
        bnd (full_shl u shift) (\<lambda>(u0, u1, u2).
        let v_n_1 = high v; v_n_2 = low v in
        if drop_bit 127 v_n_1 \<noteq> 1 then Trap
        else
          bnd (if u2 < v_n_1 then
                 bnd (udiv256_by_128_to_128 u2 u1 v_n_1) (\<lambda>(q_hat, r_hat).
                 qhat_loop v_n_1 v_n_2 u0 q_hat r_hat)
               else Ok (- 1)) (\<lambda>q_hat.
          bnd (fullmul_u256_u128 v q_hat) (\<lambda>(p0, p1, p2).
          let (w0, c0) = sub_carry u0 p0 False; (w1, c1) = sub_carry u1 p1 c0;
              (w2, c2) = sub_carry u2 p2 c1 in
          bnd (if c2 then
                 bnd (u128_sub q_hat 1) (\<lambda>q_hat'.
                 let (x0, d0) = add_carry w0 (low v) False; (x1, d1) = add_carry w1 (high v) d0 in
                 Ok (q_hat', x0, x1, w2 + u128_of_bool d1))
               else Ok (q_hat, w0, w1, w2)) (\<lambda>(q_hat', w).
          bnd (full_shr w shift) (\<lambda>remainder. Ok (from_words 0 q_hat', remainder)))))))"

subsection \<open>Three-word arithmetic\<close>

lemma u128_add_commute: "u128_add a b = u128_add b a"
  by (simp add: u128_add_def add.commute)

lemma word_pair_eqI: "unat (l :: u128) = n mod 2 ^ 128 \<Longrightarrow> unat (h :: u128) = n div 2 ^ 128 mod 2 ^ 128
    \<Longrightarrow> (l, h) = (word_of_nat n, word_of_nat (n div 2 ^ 128))"
  by (simp add: word_unat_eq_iff unsigned_of_nat take_bit_eq_mod)

lemma fullmul_u128_val:
  "fullmul_u128 a b = Ok (word_of_nat (unat a * unat b), word_of_nat (unat a * unat b div 2 ^ 128))"
proof -
  define a0 a1 b0 b1 where "a0 = a AND LOWER_MASK" and "a1 = drop_bit 64 a"
    and "b0 = b AND LOWER_MASK" and "b1 = drop_bit 64 b"
  have less: "unat a0 < 2 ^ 64" "unat a1 < 2 ^ 64" "unat b0 < 2 ^ 64" "unat b1 < 2 ^ 64"
    unfolding a0_def a1_def b0_def b1_def by (rule unat_low64_less unat_high64)+
  have ab: "unat a = unat a1 * 2 ^ 64 + unat a0" "unat b = unat b1 * 2 ^ 64 + unat b0"
    unfolding a0_def a1_def b0_def b1_def by (rule halves64)+
  define w3 k0 where "w3 = (a0 * b0) AND LOWER_MASK" and "k0 = drop_bit 64 (a0 * b0)"
  have w3: "unat w3 < 2 ^ 64" "unat w3 = unat a0 * unat b0 mod 2 ^ 64"
    unfolding w3_def by (rule unat_low64_less, simp only: unat_low64 digit_mul_val [OF less(1,3)])
  have k0: "unat k0 < 2 ^ 64" "unat k0 = unat a0 * unat b0 div 2 ^ 64"
    unfolding k0_def by (rule unat_high64, simp only: unat_shr digit_mul_val [OF less(1,3)])
  define t1 where "t1 = k0 + a1 * b0"
  define w1 w2 where "w1 = t1 AND LOWER_MASK" and "w2 = drop_bit 64 t1"
  have w1: "unat w1 < 2 ^ 64" "unat w1 = unat t1 mod 2 ^ 64"
    unfolding w1_def by (rule unat_low64_less, rule unat_low64)
  define t2 where "t2 = w1 + a0 * b1"
  define lo where "lo = w3 + push_bit 64 (t2 AND LOWER_MASK)"
  note mul = digit_mul_val(1,2) [OF less(1,3)] digit_mul_val(1,2) [OF less(2,3)] digit_mul_val(1,2) [OF less(1,4)]
    digit_mul_val(1,2) [OF less(2,4)]
  note add1 = digit_mul_val(3) [OF less(2,3) k0(1), folded t1_def]
  note add2 = digit_mul_val(3) [OF less(1,4) w1(1), folded t2_def]
  note low = digits_val [OF w3(1), of t2, folded lo_def]
  have whole: "(unat w2 + unat t2 div 2 ^ 64 + unat a1 * unat b1) * 2 ^ 128 + unat lo = unat a * unat b"
    using schoolbook [of "unat a0" "unat b0" "2 ^ 64" "unat a1" "unat b1"]
    by (simp only: add1 add2 low k0(2) w1(2) w3(2) w2_def unat_shr ab pow_128 mult.commute [of "unat b1"])
  have top: "unat w2 + unat t2 div 2 ^ 64 + unat a1 * unat b1 < 2 ^ 128"
  proof (rule ccontr)
    assume "\<not> ?thesis"
    then have "2 ^ 128 * 2 ^ 128 \<le> (unat w2 + unat t2 div 2 ^ 64 + unat a1 * unat b1) * 2 ^ 128" by simp
    moreover have "unat a * unat b < 2 ^ 128 * 2 ^ 128"
      by (intro mult_strict_mono unat_u128_less) simp_all
    ultimately show False using whole by linarith
  qed
  then have "unat w2 + unat (a1 * b1) < 2 ^ 128" by (simp only: mul)
  note add3 = u128_add_val [OF this]
  have "unat (w2 + a1 * b1) + unat (drop_bit 64 t2) < 2 ^ 128" using top by (simp only: add3 mul unat_shr add.commute add.left_commute)
  note add4 = u128_add_val [OF this]
  have shift: "push_bit 64 t2 = push_bit 64 (t2 AND LOWER_MASK)"
  proof -
    have "unat (push_bit 64 t2) = unat (push_bit 64 (t2 AND LOWER_MASK))"
      unfolding unat_shl unat_low64 pow_128 by (simp add: mult_mod_right mult.commute)
    then show ?thesis by (simp only: word_unat_eq_iff)
  qed
  have "(lo, w2 + a1 * b1 + drop_bit 64 t2) = (word_of_nat (unat a * unat b), word_of_nat (unat a * unat b div 2 ^ 128))"
  proof (rule word_pair_eqI)
    have "unat (w2 + a1 * b1 + drop_bit 64 t2) = unat w2 + unat t2 div 2 ^ 64 + unat a1 * unat b1"
      unfolding add4 [THEN conjunct2] add3 [THEN conjunct2] mul unat_shr by simp
    with whole have e: "unat a * unat b = unat (w2 + a1 * b1 + drop_bit 64 t2) * 2 ^ 128 + unat lo"
      by (simp only:)
    show "unat lo = unat a * unat b mod 2 ^ 128"
      unfolding e by (simp only: mod_mult_self3 mod_less unat_u128_less)
    show "unat (w2 + a1 * b1 + drop_bit 64 t2) = unat a * unat b div 2 ^ 128 mod 2 ^ 128"
      unfolding e by (subst div_mult_self3) (simp, simp only: div_less unat_u128_less add_0_right mod_less)
  qed
  then show ?thesis
    unfolding fullmul_u128_def split_u128_to_u128_def a0_def [symmetric] a1_def [symmetric] b0_def [symmetric]
      b1_def [symmetric]
    by (simp only: Let_def prod.case mul bnd_simps w3_def [symmetric] k0_def [symmetric] u128_add_commute [of "_ * _"]
        add1 w1_def [symmetric] w2_def [symmetric] add2 add3 add4 shift u128_add_commute [of "push_bit _ _"] low)
qed

lemma fullmul_wide_val:
  obtains r where "(fullmul_u256_u128 a b :: ('e, u384) outcome) = Ok r" "val3 r = uval a * unat b"
proof (cases "b = 0")
  case True
  then show ?thesis using that [of "(0, 0, 0)"] by (simp add: fullmul_u256_u128_def)
next
  case False
  define p q where "p = unat (low a) * unat b" and "q = unat (high a) * unat b"
  define l c l' c' where "l = (word_of_nat p :: u128)" and "c = (word_of_nat (p div 2 ^ 128) :: u128)"
    and "l' = (word_of_nat q :: u128)" and "c' = (word_of_nat (q div 2 ^ 128) :: u128)"
  have pq: "p = unat c * 2 ^ 128 + unat l" "q = unat c' * 2 ^ 128 + unat l'" "unat c' < 2 ^ 128 - 1"
  proof -
    have word: "x = unat (word_of_nat (x div 2 ^ 128) :: u128) * 2 ^ 128 + unat (word_of_nat x :: u128)"
      if "x < 2 ^ 128 * 2 ^ 128" for x
      using less_mult_imp_div_less [OF that] by (simp add: unsigned_of_nat take_bit_eq_mod div_mult_mod_eq)
    have "p < 2 ^ 128 * 2 ^ 128" "q < 2 ^ 128 * 2 ^ 128"
      unfolding p_def q_def by (intro mult_strict_mono unat_u128_less; simp)+
    note less = this
    show e: "p = unat c * 2 ^ 128 + unat l" "q = unat c' * 2 ^ 128 + unat l'"
      unfolding l_def c_def l'_def c'_def by (rule word [OF less(1)], rule word [OF less(2)])
    have "q \<le> (2 ^ 128 - 1) * (2 ^ 128 - 1)"
      unfolding q_def using unat_u128_less [of "high a"] unat_u128_less [of b] by (intro mult_le_mono) simp_all
    with e(2) show "unat c' < 2 ^ 128 - 1" by simp
  qed
  define ov where "ov = (2 ^ 128 \<le> unat c + unat l')"
  have "unat c' + unat (u128_of_bool ov) < 2 ^ 128" using pq(3) by (cases ov) simp_all
  note top = u128_add_val [OF this]
  have "fullmul_u256_u128 a b = Ok (l, c + l', c' + u128_of_bool ov)"
    using False by (simp only: fullmul_u256_u128_def fullmul_u128_val p_def [symmetric] q_def [symmetric]
        l_def [symmetric] c_def [symmetric] l'_def [symmetric] c'_def [symmetric] bnd_simps prod.case
        overflowing_add_def Let_def ov_def [symmetric] top not_False_eq_True if_True)
  moreover have "val3 (l, c + l', c' + u128_of_bool ov) = uval a * unat b"
  proof -
    have "uval a * unat b = q * 2 ^ 128 + p" by (simp add: uval_def p_def q_def distrib_right)
    then show ?thesis
      using unat_add_carry [of c l'] unfolding val3.simps top [THEN conjunct2] pq
      by (cases ov) (simp_all add: ov_def)
  qed
  ultimately show ?thesis by (rule that)
qed

lemma full_shl_val:
  assumes "n < 128"
  obtains u where "(full_shl a n :: ('e, u384) outcome) = Ok u" "val3 u = uval a * 2 ^ n"
proof -
  let ?u = "(push_bit n (low a), low (shr3 a (128 - n)), high (shr3 a (128 - n)))"
  have "128 - n < 256" by simp
  then have hi: "uval (shr3 a (128 - n)) = uval a div 2 ^ (128 - n)" by (rule shr3_val)
  have "uval a * 2 ^ n div 2 ^ 128 = uval a div 2 ^ (128 - n)"
    using div_scaled [of "2 ^ n" "uval a" "2 ^ (128 - n)"] assms
    by (simp only: pow_128_split less_imp_le zero_less_power zero_less_numeral)
  moreover have "uval a * 2 ^ n mod 2 ^ 128 = unat (low a) * 2 ^ n mod 2 ^ 128"
    by (metis mod_mult_left_eq mod_mult_self3 uval_def)
  ultimately have "val3 ?u = uval a * 2 ^ n"
    using div_mult_mod_eq [of "uval a * 2 ^ n" "2 ^ 128"] hi
    by (simp only: val3.simps uval_def [symmetric] unat_shl)
  moreover have "full_shl a n = Ok ?u" using assms by (simp add: full_shl_def Let_def)
  ultimately show ?thesis using that by blast
qed

lemma full_shr_val:
  assumes "n < 128" "unat u2 < 2 ^ n"
  shows "full_shr (u0, u1, u2) n = Ok (of_val (val3 (u0, u1, u2) div 2 ^ n))"
proof (cases "n = 0")
  case True
  have "of_val (unat u1 * 2 ^ 128 + unat u0) = from_words u1 u0"
    using of_val_uval [of "from_words u1 u0"] by (simp add: uval_def)
  with True assms show ?thesis by (simp add: full_shr_def)
next
  case False
  have le: "128 - n \<le> 128" by simp
  have p: "(2 :: nat) ^ 128 = 2 ^ n * 2 ^ (128 - n)" using pow_128_split [of n] assms(1) by simp
  have small: "unat (drop_bit n x) < 2 ^ (128 - n)" for x :: u128
    unfolding unat_shr by (rule less_mult_imp_div_less) (simp only: p [symmetric] mult.commute unat_u128_less)
  have word: "unat (drop_bit n x OR push_bit (128 - n) y) = unat y * 2 ^ (128 - n) mod 2 ^ 128 + unat x div 2 ^ n"
    for x y :: u128
    using unat_or_shl [OF le small, of y x] by (simp only: unat_shr or.commute)
  let ?r = "from_words (drop_bit n u1 OR push_bit (128 - n) u2) (drop_bit n u0 OR push_bit (128 - n) u1)"
  define x where "x = unat u2 * 2 ^ 128 + unat u1"
  have "x div 2 ^ n = unat u2 div 2 ^ n * 2 ^ 128 + (unat u2 * 2 ^ (128 - n) mod 2 ^ 128 + unat u1 div 2 ^ n)"
    unfolding x_def by (rule two_digit_div [OF p, symmetric]) simp_all
  then have high: "x div 2 ^ n = unat u2 * 2 ^ (128 - n) mod 2 ^ 128 + unat u1 div 2 ^ n"
    by (simp only: div_less assms(2) mult_0 add_0)
  have low: "x * 2 ^ (128 - n) mod 2 ^ 128 = unat u1 * 2 ^ (128 - n) mod 2 ^ 128"
    unfolding x_def by (metis mod_mult_left_eq mod_mult_self3)
  have "val3 (u0, u1, u2) div 2 ^ n = x div 2 ^ n * 2 ^ 128 + (x * 2 ^ (128 - n) mod 2 ^ 128 + unat u0 div 2 ^ n)"
    unfolding val3.simps x_def [symmetric] by (rule two_digit_div [OF p, symmetric]) simp_all
  then have "uval ?r = val3 (u0, u1, u2) div 2 ^ n"
    by (simp only: uval_def U256.sel word high low)
  moreover have "full_shr (u0, u1, u2) n = Ok ?r"
    using False assms(1) by (simp add: full_shr_def Let_def del: push_bit_eq_mult drop_bit_eq_div)
  ultimately show ?thesis using eq_of_val [of ?r] by simp
qed

lemma sub_carry_val:
  "unat (fst (sub_carry a b c)) + unat b + of_bool c = unat a + (if snd (sub_carry a b c) then 2 ^ 128 else 0)"
  using unat_add_carry [of b "u128_of_bool c"] unat_sub_carry [of a "b + u128_of_bool c"]
    unat_u128_less [of b] unat_u128_less [of "a - (b + u128_of_bool c)"]
  by (cases c) (auto simp: sub_carry_def overflowing_add_def overflowing_sub_def split: if_splits)

text \<open>Subtracting three words of a number that is not larger leaves no borrow.\<close>

lemma sub3_words:
  fixes u0 u1 u2 p0 p1 p2 :: u128
  assumes "sub_carry u0 p0 False = (w0, c0)" "sub_carry u1 p1 c0 = (w1, c1)" "sub_carry u2 p2 c1 = (w2, c2)"
    and "val3 (p0, p1, p2) \<le> val3 (u0, u1, u2)"
  shows "\<not> c2" "val3 (w0, w1, w2) = val3 (u0, u1, u2) - val3 (p0, p1, p2)"
proof -
  have c: "unat w0 + unat p0 = unat u0 + of_bool c0 * 2 ^ 128"
    "unat w1 + unat p1 + of_bool c0 = unat u1 + of_bool c1 * 2 ^ 128"
    "unat w2 + unat p2 + of_bool c1 = unat u2 + of_bool c2 * 2 ^ 128"
    using sub_carry_val [of u0 p0 False] sub_carry_val [of u1 p1 c0] sub_carry_val [of u2 p2 c1] assms(1-3)
    by (simp_all split: if_splits)
  have e: "val3 (w0, w1, w2) + val3 (p0, p1, p2) = val3 (u0, u1, u2) + of_bool c2 * (2 ^ 128 * 2 ^ 128 * 2 ^ 128)"
  proof -
    have "((w2' * m + w1') * m + w0') + ((p2' * m + p1') * m + p0') = ((u2' * m + u1') * m + u0') + b2 * (m * m * m)"
      if "w0' + p0' = u0' + b0 * m" "w1' + p1' + b0 = u1' + b1 * m" "w2' + p2' + b1 = u2' + b2 * m"
      for w0' w1' w2' p0' p1' p2' u0' u1' u2' b0 b1 b2 m :: nat
    proof -
      have "((w2' * m + w1') * m + w0') + ((p2' * m + p1') * m + p0') + b1 * (m * m) + b0 * m
          = (w2' + p2' + b1) * (m * m) + (w1' + p1' + b0) * m + (w0' + p0')" by (simp add: algebra_simps)
      also have "\<dots> = (u2' + b2 * m) * (m * m) + (u1' + b1 * m) * m + (u0' + b0 * m)" by (simp only: that)
      finally show ?thesis by (simp add: algebra_simps)
    qed
    from this [OF c] show ?thesis by (simp only: val3.simps)
  qed
  have "unat w2 * 2 ^ 128 + unat w1 < 2 ^ 128 * 2 ^ 128" by (rule pair_less [OF unat_u128_less unat_u128_less])
  then have "val3 (w0, w1, w2) < 2 ^ 128 * 2 ^ 128 * 2 ^ 128"
  proof -
    assume "unat w2 * 2 ^ 128 + unat w1 < 2 ^ 128 * 2 ^ 128"
    then have "(unat w2 * 2 ^ 128 + unat w1) * 2 ^ 128 + unat w0 < (unat w2 * 2 ^ 128 + unat w1 + 1) * 2 ^ 128"
      "(unat w2 * 2 ^ 128 + unat w1 + 1) * 2 ^ 128 \<le> 2 ^ 128 * 2 ^ 128 * 2 ^ 128"
      using unat_u128_less [of w0] by (simp, intro mult_le_mono1) linarith
    then show ?thesis unfolding val3.simps by (rule less_le_trans)
  qed
  with e assms(4) show "\<not> c2" by (cases c2) simp_all
  with e show "val3 (w0, w1, w2) = val3 (u0, u1, u2) - val3 (p0, p1, p2)" by simp
qed

lemma product_exceeds:
  "(hi > r \<or> hi = r \<and> lo > u0) = (unat r * 2 ^ 128 + unat u0 < unat a * unat b)"
  if "lo = word_of_nat (unat a * unat b)" "hi = word_of_nat (unat a * unat b div 2 ^ 128)"
  for hi r lo u0 a b :: u128
proof -
  define p where "p = unat a * unat b"
  have "p < 2 ^ 128 * 2 ^ 128" unfolding p_def by (intro mult_strict_mono unat_u128_less) simp_all
  then have "p div 2 ^ 128 < 2 ^ 128" by (rule less_mult_imp_div_less)
  then have w: "unat lo = p mod 2 ^ 128" "unat hi = p div 2 ^ 128"
    unfolding that p_def [symmetric] by (simp_all add: unsigned_of_nat take_bit_eq_mod)
  have p: "p = unat hi * 2 ^ 128 + unat lo" by (simp only: w div_mult_mod_eq)
  show ?thesis
    unfolding p_def [symmetric] p pair_less_iff [OF unat_u128_less unat_u128_less]
    by (auto simp: word_less_nat_alt word_unat_eq_iff)
qed

subsection \<open>The quotient\<close>

text \<open>\<open>qd\<close> is the quotient digit of \<open>u * 2 ^ 128 + u0\<close> by \<open>v_n_1 * 2 ^ 128 + v_n_2\<close>.\<close>

lemma qhat_loop_val:
  fixes v_n_1 v_n_2 u0 q_hat r_hat :: u128 and u :: nat
  defines "qd \<equiv> (u * 2 ^ 128 + unat u0) div (unat v_n_1 * 2 ^ 128 + unat v_n_2)"
  assumes v: "0 < unat v_n_1"
  shows "unat q_hat * unat v_n_1 + unat r_hat = u \<Longrightarrow> qd \<le> unat q_hat \<Longrightarrow>
    (qhat_loop v_n_1 v_n_2 u0 q_hat r_hat :: ('e, u128) outcome) = Ok (word_of_nat qd)"
proof (induction "unat q_hat" arbitrary: q_hat r_hat rule: less_induct)
  case less
  have v0: "0 < unat v_n_1 * 2 ^ 128 + unat v_n_2" using v by simp
  define p again where "p = unat q_hat * unat v_n_2"
    and "again = (word_of_nat (p div 2 ^ 128) > r_hat \<or> word_of_nat (p div 2 ^ 128) = r_hat \<and> word_of_nat p > u0)"
  have "again = (unat r_hat * 2 ^ 128 + unat u0 < unat q_hat * unat v_n_2)"
    unfolding again_def p_def by (rule product_exceeds [OF refl refl])
  also have "\<dots> = (qd < unat q_hat)"
    unfolding qd_def by (rule estimate_too_large [OF less.prems(1) v0, symmetric])
  finally have again: "again = (qd < unat q_hat)" .
  have test: "qhat_loop v_n_1 v_n_2 u0 q_hat r_hat =
    (if \<not> again then Ok q_hat
     else bnd (u128_sub q_hat 1) (\<lambda>q_hat'.
       let (r_hat', overflow) = overflowing_add r_hat v_n_1 in
       if overflow then Ok q_hat' else qhat_loop v_n_1 v_n_2 u0 q_hat' r_hat'))"
    by (subst qhat_loop.simps) (simp only: fullmul_u128_val bnd_simps prod.case p_def [symmetric] again_def)
  show ?case
  proof (cases again)
    case False
    then have "qd = unat q_hat" using again less.prems(2) by simp
    then show ?thesis using False by (simp add: test)
  next
    case True
    then have q: "qd < unat q_hat" "unat (1 :: u128) \<le> unat q_hat" using again by simp_all
    note sub = u128_sub_val [OF q(2)]
    have sum: "unat (q_hat - 1) * unat v_n_1 + (unat r_hat + unat v_n_1) = u"
    proof -
      have "(k - 1) * n + (r + n) = k * n + r" if "1 \<le> k" for k n r :: nat
        using that by (cases k) simp_all
      then show ?thesis using less.prems(1) q(2) by (simp only: sub unsigned_1)
    qed
    have le: "qd \<le> unat (q_hat - 1)" using q by (simp add: sub)
    show ?thesis
    proof (cases "2 ^ 128 \<le> unat r_hat + unat v_n_1")
      case overflow: True
      have "unat (q_hat - 1) * unat v_n_2 \<le> 2 ^ 128 * 2 ^ 128"
        by (intro mult_le_mono less_imp_le unat_u128_less)
      also have "\<dots> \<le> (unat r_hat + unat v_n_1) * 2 ^ 128 + unat u0"
        using mult_le_mono1 [OF overflow] by (rule trans_le_add1)
      finally have "\<not> qd < unat (q_hat - 1)"
        unfolding qd_def using estimate_too_large [OF sum v0, of "unat u0"] by (simp only: not_less)
      with le have "qd = unat (q_hat - 1)" by simp
      then have "q_hat - 1 = word_of_nat qd" by simp
      then show ?thesis using True overflow by (simp add: test sub [THEN conjunct1] overflowing_add_def)
    next
      case False
      then have r: "unat (r_hat + v_n_1) = unat r_hat + unat v_n_1" by (simp add: unat_add_wrap)
      have "unat (q_hat - 1) < unat q_hat" using q(2) by (simp add: sub)
      from less.hyps [OF this _ le] sum
      have "(qhat_loop v_n_1 v_n_2 u0 (q_hat - 1) (r_hat + v_n_1) :: ('e, u128) outcome) = Ok (word_of_nat qd)"
        by (simp only: r)
      then show ?thesis using True False by (simp add: test sub overflowing_add_def)
    qed
  qed
qed

lemma shl3_fits:
  assumes "high a \<noteq> 0"
  defines "s \<equiv> leading_zeros (high a)"
  shows "s < 128" "uval (shl3 a s) = uval a * 2 ^ s" "2 ^ 127 \<le> unat (high (shl3 a s))"
proof -
  note lz = leading_zeros_bounds [OF assms(1), folded s_def]
  show "s < 128" by (rule lz(1))
  have "unat (high a) * 2 ^ s < 2 ^ (128 - s) * 2 ^ s"
    using lz(3) pow_128_split [of s] lz(1) by (simp only: mult.commute less_imp_le)
  then have "unat (high a) < 2 ^ (128 - s)" by simp
  then have "uval a < 2 ^ (128 - s) * 2 ^ 128"
    using pair_less_iff [OF unat_u128_less [of "low a"], of 0 "unat (high a)" "2 ^ (128 - s)"]
    by (simp add: uval_def)
  then have "uval a * 2 ^ s < 2 ^ (128 - s) * 2 ^ 128 * 2 ^ s" by (rule mult_less_mono1) simp
  also have "\<dots> = 2 ^ s * 2 ^ (128 - s) * 2 ^ 128" by (simp only: mult.commute mult.left_commute)
  also have "\<dots> = 2 ^ 256" using lz(1) by (simp only: pow_128_split less_imp_le pow_256)
  finally show v: "uval (shl3 a s) = uval a * 2 ^ s"
    using shl3_val [of s a] lz(1) by simp
  have "unat (high (shl3 a s)) * 2 ^ 128 + unat (low (shl3 a s)) = unat (high a) * 2 ^ s * 2 ^ 128 + unat (low a) * 2 ^ s"
    using v by (simp only: uval_def distrib_right mult.assoc mult.commute [of "2 ^ 128"])
  then have "2 ^ 127 * 2 ^ 128 \<le> unat (high (shl3 a s)) * 2 ^ 128 + unat (low (shl3 a s))"
    using mult_le_mono1 [OF lz(2), of "2 ^ 128"] by linarith
  then show "2 ^ 127 \<le> unat (high (shl3 a s))"
    using unat_u128_less [of "low (shl3 a s)"] by simp
qed

lemma top_bit: "2 ^ 127 \<le> unat x \<Longrightarrow> drop_bit 127 x = 1" for x :: u128
proof -
  assume a: "2 ^ 127 \<le> unat x"
  have "unat x < 2 * 2 ^ 127" using unat_u128_less [of x] by simp
  then have "unat x div 2 ^ 127 = 1" using a by (intro div_nat_eqI) simp_all
  then have "unat (drop_bit 127 x) = unat (1 :: u128)" by (simp only: unat_shr unsigned_1)
  then show ?thesis by (simp only: word_unat_eq_iff)
qed

lemma div_mod_knuth_val:
  assumes "high v \<noteq> 0" "uval v \<le> uval u"
  shows "(div_mod_knuth u v :: ('e, U256 \<times> U256) outcome)
    = Ok (of_val (uval u div uval v), of_val (uval u mod uval v))"
proof -
  define s w where "s = leading_zeros (high v)" and "w = shl3 v s"
  note fits = shl3_fits [OF assms(1), folded s_def, folded w_def]
  have "v \<le> u" using assms(2) by (simp only: le_uval)
  then have hu: "high u \<noteq> 0" using assms(1) by (auto simp: less_eq_U256_def)
  obtain u0 u1 u2 where shl: "(full_shl u s :: ('e, u384) outcome) = Ok (u0, u1, u2)"
    and u: "val3 (u0, u1, u2) = uval u * 2 ^ s"
    using full_shl_val [OF fits(1), of u] by (metis prod_cases3)
  have u2: "unat u2 < 2 ^ s"
  proof -
    have "unat u2 * (2 ^ 128 * 2 ^ 128) \<le> uval u * 2 ^ s"
      using u by (simp only: val3.simps distrib_right mult.assoc add.assoc le_add1)
    also have "\<dots> < 2 ^ 128 * 2 ^ 128 * 2 ^ s"
      using uval_less [of u] by (simp only: pow_256 mult_less_mono1 zero_less_power zero_less_numeral)
    finally show ?thesis by (simp add: mult.commute)
  qed
  have "(2 :: nat) ^ s \<le> 2 ^ 127" using fits(1) by (intro power_increasing) simp_all
  with u2 fits(3) have "unat u2 < unat (high w)" by linarith
  then have top: "u2 < high w" by (simp only: word_less_nat_alt)
  define x where "x = unat u2 * 2 ^ 128 + unat u1"
  have hw: "0 < unat (high w)" using fits(3) by simp
  define qd where "qd = (x * 2 ^ 128 + unat u0) div (unat (high w) * 2 ^ 128 + unat (low w))"
  have qd: "qd = uval u div uval v"
  proof -
    have "qd = uval u * 2 ^ s div uval w" using u by (simp only: qd_def x_def val3.simps uval_def)
    then show ?thesis by (simp only: fits(2)) simp
  qed
  have word: "unat (word_of_nat n :: u128) = n" if "n < 2 ^ 128" for n
    using that by (simp add: unsigned_of_nat take_bit_eq_mod)
  have small: "x div unat (high w) < 2 ^ 128" "x mod unat (high w) < 2 ^ 128"
    using top less_trans [OF mod_less_divisor [OF hw] unat_u128_less]
    by (simp_all only: x_def digit_less word_less_nat_alt unat_u128_less)
  have loop: "(qhat_loop (high w) (low w) u0 (word_of_nat (x div unat (high w))) (word_of_nat (x mod unat (high w)))
      :: ('e, u128) outcome) = Ok (word_of_nat qd)"
    unfolding qd_def
  proof (rule qhat_loop_val [OF hw])
    show "unat (word_of_nat (x div unat (high w)) :: u128) * unat (high w) + unat (word_of_nat (x mod unat (high w)) :: u128) = x"
      by (simp only: word small div_mult_mod_eq)
    show "(x * 2 ^ 128 + unat u0) div (unat (high w) * 2 ^ 128 + unat (low w)) \<le> unat (word_of_nat (x div unat (high w)) :: u128)"
      by (simp only: word small estimate_above [OF unat_u128_less hw])
  qed
  have "qd \<le> x div unat (high w)" unfolding qd_def by (rule estimate_above [OF unat_u128_less hw])
  then have qd128: "qd < 2 ^ 128" using small(1) by (rule le_less_trans)
  obtain p0 p1 p2 where mul: "(fullmul_u256_u128 w (word_of_nat qd) :: ('e, u384) outcome) = Ok (p0, p1, p2)"
    and p: "val3 (p0, p1, p2) = uval w * qd"
    using fullmul_wide_val [of w "word_of_nat qd"] by (metis prod_cases3 word qd128)
  have le: "val3 (p0, p1, p2) \<le> val3 (u0, u1, u2)"
  proof -
    have "uval w * qd = uval u div uval v * uval v * 2 ^ s"
      unfolding fits(2) qd by (simp only: mult.commute mult.left_commute)
    then show ?thesis unfolding p u by (simp only: mult_le_mono1 div_times_less_eq_dividend)
  qed
  obtain w0 c0 w1 c1 w2 c2 where sub: "sub_carry u0 p0 False = (w0, c0)" "sub_carry u1 p1 c0 = (w1, c1)"
    "sub_carry u2 p2 c1 = (w2, c2)" by (metis surj_pair)
  note diff = sub3_words [OF sub le]
  have rest: "val3 (w0, w1, w2) = uval u mod uval v * 2 ^ s"
    unfolding diff(2) u p fits(2) qd by (metis left_diff_distrib' minus_div_mult_eq_mod mult.assoc mult.commute)
  have w2: "unat w2 < 2 ^ s"
  proof -
    have "unat w2 * (2 ^ 128 * 2 ^ 128) \<le> uval u mod uval v * 2 ^ s"
      using rest by (simp only: val3.simps distrib_right mult.assoc add.assoc le_add1)
    also have "\<dots> < 2 ^ 128 * 2 ^ 128 * 2 ^ s"
      using le_less_trans [OF mod_less_eq_dividend uval_less, of u "uval v"]
      by (simp only: pow_256 mult_less_mono1 zero_less_power zero_less_numeral)
    finally show ?thesis by (simp add: mult.commute)
  qed
  have q: "from_words 0 (word_of_nat qd) = of_val (uval u div uval v)"
    unfolding qd [symmetric] by (rule eq_of_val) (simp only: uval_def U256.sel word [OF qd128] unsigned_0 mult_0 add_0)
  have r: "val3 (w0, w1, w2) div 2 ^ s = uval u mod uval v" unfolding rest by simp
  show ?thesis
    unfolding div_mod_knuth_def Let_def s_def [symmetric] w_def [symmetric]
    using hu top top_bit [OF fits(3)] diff(1)
    by (simp only: if_True if_False shl bnd_simps prod.case udiv256_val [OF top] x_def [symmetric] loop mul sub
        full_shr_val [OF fits(1) w2] r q not_True_eq_False simp_thms)
qed

section \<open>Dispatch\<close>

definition udivmod4 :: "U256 \<Rightarrow> U256 \<Rightarrow> ('e, U256 \<times> U256) outcome" where
  "udivmod4 a b =
     (if high a OR high b = 0 then
        bnd (u128_div (low a) (low b)) (\<lambda>q.
        bnd (u128_rem (low a) (low b)) (\<lambda>r. Ok (from_words 0 q, from_words 0 r)))
      else if b > a then Ok (U256_ZERO, a)
      else if high b = 0 then
        (if high a < low b then
           bnd (udiv256_by_128_to_128 (high a) (low a) (low b)) (\<lambda>(q, r).
           Ok (from_words 0 q, from_words 0 r))
         else
           bnd (u128_div (high a) (low b)) (\<lambda>hi.
           bnd (u128_rem (high a) (low b)) (\<lambda>rest.
           bnd (udiv256_by_128_to_128 rest (low a) (low b)) (\<lambda>(q, r).
           Ok (from_words hi q, from_words 0 r)))))
      else div_mod_knuth a b)"

text \<open>\<open>udiv3\<close> and \<open>urem3\<close>, and the operators \<open>/\<close> and \<open>%\<close> (\<open>macros/ops.rs\<close>), which test for zero first.\<close>

definition udiv3 :: "U256 \<Rightarrow> U256 \<Rightarrow> ('e, U256) outcome" where
  "udiv3 a b = bnd (udivmod4 a b) (\<lambda>(q, r). Ok q)"

definition urem3 :: "U256 \<Rightarrow> U256 \<Rightarrow> ('e, U256) outcome" where
  "urem3 a b = bnd (udivmod4 a b) (\<lambda>(q, r). Ok r)"

definition u256_div :: "U256 \<Rightarrow> U256 \<Rightarrow> ('e, U256) outcome" where
  "u256_div a b = (if b = U256_ZERO then Trap else udiv3 a b)"

definition u256_rem :: "U256 \<Rightarrow> U256 \<Rightarrow> ('e, U256) outcome" where
  "u256_rem a b = (if b = U256_ZERO then Trap else urem3 a b)"

lemma unat_word_small: "n < 2 ^ 128 \<Longrightarrow> unat (word_of_nat n :: u128) = n"
  by (simp add: unsigned_of_nat take_bit_eq_mod)

lemma from_small: "n < 2 ^ 128 \<Longrightarrow> from_words 0 (word_of_nat n) = of_val n"
  by (rule eq_of_val) (simp only: uval_def U256.sel unat_word_small unsigned_0 mult_0 add_0)

lemma eq_zero_uval: "(b = U256_ZERO) = (uval b = 0)"
  using uval_inj [of b U256_ZERO] by simp

lemma high_0_uval: "high a = 0 \<Longrightarrow> uval a = unat (low a)"
  by (simp add: uval_def)

text \<open>The four cases of the dispatch.\<close>

lemma udivmod4_words:
  assumes "high a = 0" "high b = 0" "low b \<noteq> 0"
  shows "udivmod4 a b = Ok (of_val (uval a div uval b), of_val (uval a mod uval b))"
proof -
  have "from_words 0 (low a div low b) = of_val (uval a div uval b)"
    "from_words 0 (low a mod low b) = of_val (uval a mod uval b)"
    using assms by (auto intro!: eq_of_val simp: uval_def unat_div unat_mod)
  then show ?thesis using assms by (simp add: udivmod4_def u128_div_def u128_rem_def)
qed

lemma udivmod4_narrow:
  assumes "high a < low b" "high b = 0"
  shows "bnd (udiv256_by_128_to_128 (high a) (low a) (low b)) (\<lambda>(q, r). Ok (from_words 0 q, from_words 0 r))
    = Ok (of_val (uval a div uval b), of_val (uval a mod uval b))"
proof -
  define n where "n = unat (high a) * 2 ^ 128 + unat (low a)"
  have b: "uval b = unat (low b)" "uval a = n" using assms(2) by (simp_all add: n_def uval_def)
  have "n div unat (low b) < 2 ^ 128"
    unfolding n_def using assms(1) by (intro digit_less unat_u128_less) (simp only: word_less_nat_alt)
  moreover have "0 < unat (low b)" using assms(1) by (simp add: word_less_nat_alt)
  then have "n mod unat (low b) < 2 ^ 128" by (rule less_trans [OF mod_less_divisor unat_u128_less])
  ultimately show ?thesis
    by (simp only: udiv256_val [OF assms(1)] n_def [symmetric] b bnd_simps prod.case from_small)
qed

lemma udivmod4_wide:
  assumes "low b \<noteq> 0" "high b = 0"
  shows "bnd (u128_div (high a) (low b)) (\<lambda>hi.
      bnd (u128_rem (high a) (low b)) (\<lambda>rest.
      bnd (udiv256_by_128_to_128 rest (low a) (low b)) (\<lambda>(q, r). Ok (from_words hi q, from_words 0 r))))
    = Ok (of_val (uval a div uval b), of_val (uval a mod uval b))"
proof -
  define v h l where "v = unat (low b)" and "h = unat (high a)" and "l = unat (low a)"
  have v: "uval b = v" "uval a = h * 2 ^ 128 + l" "0 < v"
    using assms by (simp_all add: v_def h_def l_def uval_def unat_gt_0)
  have hv: "unat (high a mod low b) = h mod v" "unat (high a div low b) = h div v"
    by (simp_all only: unat_mod unat_div h_def v_def)
  have less: "high a mod low b < low b" using v(3) by (simp add: word_less_nat_alt hv v_def)
  define n where "n = unat (high a mod low b) * 2 ^ 128 + unat (low a)"
  have n: "n = h mod v * 2 ^ 128 + l" by (simp only: n_def hv l_def)
  have "h * 2 ^ 128 + l = n + h div v * 2 ^ 128 * v"
    using div_mult_mod_eq [of h v] n
    by (metis add.assoc add.commute distrib_right mult.assoc mult.commute)
  then have a: "(h * 2 ^ 128 + l) div v = h div v * 2 ^ 128 + n div v" "(h * 2 ^ 128 + l) mod v = n mod v"
    using v(3) by simp_all
  have small: "n div v < 2 ^ 128" "n mod v < 2 ^ 128"
  proof -
    show "n div v < 2 ^ 128"
      unfolding n l_def using v(3) by (intro digit_less unat_u128_less mod_less_divisor)
    show "n mod v < 2 ^ 128"
      using mod_less_divisor [OF v(3), of n] unat_u128_less [of "low b"] unfolding v_def by (rule less_trans)
  qed
  have "from_words (high a div low b) (word_of_nat (n div v)) = of_val ((h * 2 ^ 128 + l) div v)"
    by (rule eq_of_val) (simp only: uval_def U256.sel hv unat_word_small small a)
  with small show ?thesis
    using assms(1)
    by (simp only: u128_div_def u128_rem_def if_False bnd_simps udiv256_val [OF less] n_def [symmetric] prod.case
        v_def [symmetric] v from_small a)
qed

theorem udivmod4_val:
  "udivmod4 a b = (if uval b = 0 then Trap else Ok (of_val (uval a div uval b), of_val (uval a mod uval b)))"
proof (cases "uval b = 0")
  case True
  then have b: "b = U256_ZERO" by (simp only: eq_zero_uval)
  have "udivmod4 a b = Trap"
    by (auto simp: b udivmod4_def U256_ZERO_def u128_div_def less_U256_def)
  with True show ?thesis by simp
next
  case False
  have lb: "low b \<noteq> 0" if "high b = 0" using that False by (auto simp: uval_def)
  have "udivmod4 a b = Ok (of_val (uval a div uval b), of_val (uval a mod uval b))"
  proof (cases "high a = 0 \<and> high b = 0")
    case True
    then show ?thesis using udivmod4_words lb by blast
  next
    case words: False
    then have o: "high a OR high b \<noteq> 0" by (auto simp: or_eq_0_iff)
    show ?thesis
    proof (cases "b > a")
      case True
      then have less: "uval a < uval b" by (simp only: less_uval)
      have "of_val (uval a mod uval b) = a" "of_val (uval a div uval b) = U256_ZERO"
        using less of_val_uval [of U256_ZERO] by simp_all
      then show ?thesis using True o by (simp add: udivmod4_def)
    next
      case larger: False
      then have "uval b \<le> uval a" by (simp only: less_uval not_less)
      then show ?thesis
        using o larger words lb
        by (simp add: udivmod4_def udivmod4_narrow udivmod4_wide div_mod_knuth_val)
    qed
  qed
  with False show ?thesis by simp
qed

section \<open>Properties\<close>

text \<open>C22: 256-bit division is exact. For every pair of operands the operators \<open>/\<close> and \<open>%\<close> trap when the
  divisor is zero, and otherwise return the quotient and the remainder of the numbers the word pairs
  stand for: no operation on the way overflows, no shift is out of range, no unreachable mark is
  reached, whichever of the four division paths is taken.\<close>

theorem division_is_exact:
  "(u256_div a b = (if uval b = 0 then Trap else Ok (of_val (uval a div uval b)))) \<and>
   (u256_rem a b = (if uval b = 0 then Trap else Ok (of_val (uval a mod uval b))))"
  by (simp add: u256_div_def u256_rem_def udiv3_def urem3_def udivmod4_val eq_zero_uval)

lemma digit_loop_close:
  fixes un v d :: u128
  defines "v1 \<equiv> drop_bit 64 v" and "v0 \<equiv> v AND LOWER_MASK"
  assumes "un < v" "2 ^ 127 \<le> unat v" "unat d < 2 ^ 64"
  shows "\<exists>q. (digit_loop v1 v0 d (un div v1) (un mod v1) :: ('e, u128) outcome) = Ok q
      \<and> unat q = (unat un * 2 ^ 64 + unat d) div unat v \<and> unat (un div v1) \<le> unat q + 2"
proof -
  have v: "unat v = unat v1 * 2 ^ 64 + unat v0" "unat v0 < 2 ^ 64" "unat v1 < 2 ^ 64"
    unfolding v1_def v0_def by (rule halves64 unat_low64_less unat_high64)+
  have "2 ^ 127 div 2 ^ 64 \<le> unat v div 2 ^ 64" by (rule div_le_mono [OF assms(4)])
  then have top: "2 ^ 64 \<le> 2 * unat v1" unfolding v1_def unat_shr by simp
  then have nz: "0 < unat v1" by simp
  have u: "unat un < unat v1 * 2 ^ 64 + unat v0" using assms(3) by (simp only: word_less_nat_alt v(1) [symmetric])
  have pos: "0 < (2 :: nat) ^ 64" by simp
  note close = estimate_close(1) [OF v(2) top u pos] estimate_close(2) [OF v(2) top u pos, of "unat d"]
  let ?q = "(unat un * 2 ^ 64 + unat d) div unat v"
  have "?q < 2 ^ 64" using assms(3,5) by (intro digit_less) (simp_all only: word_less_nat_alt)
  then have q: "unat (word_of_nat ?q :: u128) = ?q" by (intro unat_word_small) simp
  have "(digit_loop v1 v0 d (un div v1) (un mod v1) :: ('e, u128) outcome) = Ok (word_of_nat ?q)"
    unfolding v(1)
  proof (rule digit_loop_val [OF nz v(2) assms(5) u])
    show "unat (un mod v1) < 2 ^ 64"
      unfolding unat_mod using mod_less_divisor [OF nz] v(3) by (rule less_trans)
    show "(unat un * 2 ^ 64 + unat d) div (unat v1 * 2 ^ 64 + unat v0) \<le> unat (un div v1)"
      unfolding unat_div by (rule estimate_above [OF assms(5) nz])
    show "unat (un div v1) \<le> 2 ^ 64 + 1" using close(1) unfolding unat_div by simp
  qed (simp_all only: unat_div unat_mod div_mult_mod_eq v(3))
  moreover have "unat (un div v1) \<le> unat (word_of_nat ?q :: u128) + 2"
    unfolding q unat_div unfolding v(1) by (rule close(2))
  ultimately show ?thesis using q by blast
qed

lemma qhat_loop_close:
  fixes u2 u1 u0 v1 v0 :: u128
  defines "x \<equiv> unat u2 * 2 ^ 128 + unat u1"
  assumes "u2 < v1" "2 ^ 127 \<le> unat v1"
  shows "\<exists>q. (qhat_loop v1 v0 u0 (word_of_nat (x div unat v1)) (word_of_nat (x mod unat v1))
        :: ('e, u128) outcome) = Ok q
      \<and> unat q = (x * 2 ^ 128 + unat u0) div (unat v1 * 2 ^ 128 + unat v0)
      \<and> unat (word_of_nat (x div unat v1) :: u128) \<le> unat q + 2"
proof -
  have nz: "0 < unat v1" "2 ^ 128 \<le> 2 * unat v1" using assms(3) by simp_all
  have small: "x div unat v1 < 2 ^ 128" "x mod unat v1 < 2 ^ 128"
    using assms(2) less_trans [OF mod_less_divisor [OF nz(1)] unat_u128_less]
    by (simp_all only: x_def digit_less word_less_nat_alt unat_u128_less)
  have "x < unat v1 * 2 ^ 128 + unat v0"
    unfolding x_def pair_less_iff [OF unat_u128_less unat_u128_less] using assms(2) by (simp add: word_less_nat_alt)
  from estimate_close(2) [OF unat_u128_less nz(2) this, of "unat u0"]
  have close: "x div unat v1 \<le> (x * 2 ^ 128 + unat u0) div (unat v1 * 2 ^ 128 + unat v0) + 2" by simp
  let ?q = "(x * 2 ^ 128 + unat u0) div (unat v1 * 2 ^ 128 + unat v0)"
  note above = estimate_above [OF unat_u128_less nz(1), of x u0 "unat v0"]
  have q: "unat (word_of_nat ?q :: u128) = ?q" by (rule unat_word_small [OF le_less_trans [OF above small(1)]])
  have "(qhat_loop v1 v0 u0 (word_of_nat (x div unat v1)) (word_of_nat (x mod unat v1))
      :: ('e, u128) outcome) = Ok (word_of_nat ?q)"
  proof (rule qhat_loop_val [OF nz(1)])
    show "unat (word_of_nat (x div unat v1) :: u128) * unat v1 + unat (word_of_nat (x mod unat v1) :: u128) = x"
      by (simp only: unat_word_small small div_mult_mod_eq)
    show "?q \<le> unat (word_of_nat (x div unat v1) :: u128)" using above by (simp only: unat_word_small small)
  qed
  moreover have "unat (word_of_nat (x div unat v1) :: u128) \<le> unat (word_of_nat ?q :: u128) + 2"
    using close by (simp only: q unat_word_small small)
  ultimately show ?thesis using q by blast
qed

text \<open>C24: The correction loops end after at most two rounds. Each round lowers the digit estimate by one;
  with a normalised divisor the digit loop of the 256-by-128-bit step and the loop of algorithm D both
  return a digit, the exact one, and it is at most two below the estimate they start from.\<close>

theorem corrections_end_after_two_rounds:
  fixes un v d u2 u1 u0 v1 v0 :: u128
  assumes "un < v" "2 ^ 127 \<le> unat v" "unat d < 2 ^ 64"
    and "u2 < v1" "2 ^ 127 \<le> unat v1" "x = unat u2 * 2 ^ 128 + unat u1"
  shows "(\<exists>q. (digit_loop (drop_bit 64 v) (v AND LOWER_MASK) d (un div drop_bit 64 v) (un mod drop_bit 64 v)
        :: ('e, u128) outcome) = Ok q
      \<and> unat q = (unat un * 2 ^ 64 + unat d) div unat v \<and> unat (un div drop_bit 64 v) \<le> unat q + 2) \<and>
    (\<exists>q. (qhat_loop v1 v0 u0 (word_of_nat (x div unat v1)) (word_of_nat (x mod unat v1))
        :: ('e, u128) outcome) = Ok q
      \<and> unat q = (x * 2 ^ 128 + unat u0) div (unat v1 * 2 ^ 128 + unat v0)
      \<and> unat (word_of_nat (x div unat v1) :: u128) \<le> unat q + 2)"
  unfolding assms(6)
  by (rule conjI, rule digit_loop_close [OF assms(1-3)], rule qhat_loop_close [OF assms(4,5)])

lemma corrections_end_after_two_rounds_witness:
  "\<exists>q. (qhat_loop (- 1) 4 6 (word_of_nat ((3 * 2 ^ 128 + 9) div unat (- 1 :: u128)))
      (word_of_nat ((3 * 2 ^ 128 + 9) mod unat (- 1 :: u128))) :: (unit, u128) outcome) = Ok q
    \<and> unat q = ((3 * 2 ^ 128 + 9) * 2 ^ 128 + 6) div (unat (- 1 :: u128) * 2 ^ 128 + 4)"
proof -
  have p: "(7 :: u128) < - 1" "2 ^ 127 \<le> unat (- 1 :: u128)" "unat (5 :: u128) < 2 ^ 64" "(3 :: u128) < - 1"
    "3 * 2 ^ 128 + 9 = unat (3 :: u128) * 2 ^ 128 + unat (9 :: u128)"
    by (simp_all add: unat_max word_less_nat_alt)
  have "unat (6 :: u128) = 6" "unat (4 :: u128) = 4" by simp_all
  with corrections_end_after_two_rounds [OF p(1,2,3,4,2,5), of 4 6] show ?thesis by auto
qed

end
