(* ===== verification/Wide_Api.thy ===== *)
theory Wide_Api
  imports Wide_Division
begin

text \<open>
  The arithmetic interface of the 256-bit unsigned integer (\<open>ethnum-patch/src/uint/api.rs\<close>, the operators
  of \<open>macros/ops.rs\<close>, \<open>uint.rs\<close>): overflowing, checked, saturating and wrapping operations, powers by
  repeated squaring, and the next power of two, each proved against arithmetic of natural numbers.
\<close>

section \<open>Addition, subtraction, multiplication\<close>

text \<open>The operators \<open>+\<close>, \<open>-\<close>, \<open>*\<close>, \<open><<\<close>, \<open>>>\<close> of the release build call the wrapping intrinsics.\<close>

definition overflowing_add256 :: "U256 \<Rightarrow> U256 \<Rightarrow> U256 \<times> bool" where
  "overflowing_add256 a b = uaddc a b"

definition overflowing_sub256 :: "U256 \<Rightarrow> U256 \<Rightarrow> U256 \<times> bool" where
  "overflowing_sub256 a b = usubc a b"

definition overflowing_mul256 :: "U256 \<Rightarrow> U256 \<Rightarrow> ('e, U256 \<times> bool) outcome" where
  "overflowing_mul256 a b = umulc a b"

definition overflowing_neg256 :: "U256 \<Rightarrow> U256 \<times> bool" where
  "overflowing_neg256 a = (add3 (u256_not a) U256_ONE, a \<noteq> U256_ZERO)"

definition wrapping_shl256 :: "U256 \<Rightarrow> nat \<Rightarrow> U256" where
  "wrapping_shl256 a n = shl3 a (n AND 0xff)"

definition wrapping_shr256 :: "U256 \<Rightarrow> nat \<Rightarrow> U256" where
  "wrapping_shr256 a n = shr3 a (n AND 0xff)"

definition overflowing_shl256 :: "U256 \<Rightarrow> nat \<Rightarrow> U256 \<times> bool" where
  "overflowing_shl256 a n = (wrapping_shl256 a n, n > 255)"

definition overflowing_shr256 :: "U256 \<Rightarrow> nat \<Rightarrow> U256 \<times> bool" where
  "overflowing_shr256 a n = (wrapping_shr256 a n, n > 255)"

definition checked_add256 :: "U256 \<Rightarrow> U256 \<Rightarrow> U256 option" where
  "checked_add256 a b = (let (r, b) = overflowing_add256 a b in if b then None else Some r)"

definition checked_sub256 :: "U256 \<Rightarrow> U256 \<Rightarrow> U256 option" where
  "checked_sub256 a b = (let (r, b) = overflowing_sub256 a b in if b then None else Some r)"

definition checked_mul256 :: "U256 \<Rightarrow> U256 \<Rightarrow> ('e, U256 option) outcome" where
  "checked_mul256 a b =
     bnd (overflowing_mul256 a b) (\<lambda>(r, b). Ok (if b then None else Some r))"

definition checked_div256 :: "U256 \<Rightarrow> U256 \<Rightarrow> ('e, U256 option) outcome" where
  "checked_div256 a b = (if b = U256_ZERO then Ok None else bnd (u256_div a b) (\<lambda>q. Ok (Some q)))"

definition checked_rem256 :: "U256 \<Rightarrow> U256 \<Rightarrow> ('e, U256 option) outcome" where
  "checked_rem256 a b = (if b = U256_ZERO then Ok None else bnd (u256_rem a b) (\<lambda>r. Ok (Some r)))"

definition checked_neg256 :: "U256 \<Rightarrow> U256 option" where
  "checked_neg256 a = (let (r, b) = overflowing_neg256 a in if b then None else Some r)"

definition checked_shl256 :: "U256 \<Rightarrow> nat \<Rightarrow> U256 option" where
  "checked_shl256 a n = (let (r, b) = overflowing_shl256 a n in if b then None else Some r)"

definition checked_shr256 :: "U256 \<Rightarrow> nat \<Rightarrow> U256 option" where
  "checked_shr256 a n = (let (r, b) = overflowing_shr256 a n in if b then None else Some r)"

definition saturating_add256 :: "U256 \<Rightarrow> U256 \<Rightarrow> U256" where
  "saturating_add256 a b = unwrap_or U256_MAX (checked_add256 a b)"

definition saturating_sub256 :: "U256 \<Rightarrow> U256 \<Rightarrow> U256" where
  "saturating_sub256 a b = unwrap_or U256_ZERO (checked_sub256 a b)"

definition saturating_mul256 :: "U256 \<Rightarrow> U256 \<Rightarrow> ('e, U256) outcome" where
  "saturating_mul256 a b = bnd (checked_mul256 a b) (\<lambda>v. Ok (unwrap_or U256_MAX v))"

definition abs_diff256 :: "U256 \<Rightarrow> U256 \<Rightarrow> U256" where
  "abs_diff256 a b = (if a < b then sub3 b a else sub3 a b)"

text \<open>Reaching one of the source's unreachable marks is modelled as a trap.\<close>

definition div_rem256 :: "U256 \<Rightarrow> U256 \<Rightarrow> ('e, U256 \<times> U256) outcome" where
  "div_rem256 a b =
     (if b = U256_ZERO then Trap
      else
        bnd (udivmod4 a b) (\<lambda>(q, r).
        if b \<le> r then Trap else if a < r then Trap else if a < q then Trap else Ok (q, r)))"

definition checked_div_rem256 :: "U256 \<Rightarrow> U256 \<Rightarrow> ('e, (U256 \<times> U256) option) outcome" where
  "checked_div_rem256 a b =
     (if b = U256_ZERO then Ok None else bnd (div_rem256 a b) (\<lambda>qr. Ok (Some qr)))"

text \<open>The value in range, if there is one.\<close>

definition exact :: "nat \<Rightarrow> U256 option" where
  "exact n = (if n < 2 ^ 256 then Some (of_val n) else None)"

lemma uaddc_of_val: "uaddc a b = (of_val (uval a + uval b), 2 ^ 256 \<le> uval a + uval b)"
proof -
  have "uval (fst (uaddc a b)) = uval (of_val (uval a + uval b))"
    unfolding add3_uaddc [symmetric] add3_val uval_of_val ..
  then show ?thesis by (simp only: uval_inj uaddc_flag [symmetric] prod.collapse prod_eq_iff fst_conv snd_conv)
qed

lemma usubc_of_val: "usubc a b = (of_val (2 ^ 256 + uval a - uval b), uval a < uval b)"
proof -
  have "uval (fst (usubc a b)) = uval (of_val (2 ^ 256 + uval a - uval b))"
    unfolding sub3_usubc [symmetric] sub3_val uval_of_val ..
  then show ?thesis by (simp only: uval_inj usubc_flag [symmetric] prod.collapse prod_eq_iff fst_conv snd_conv)
qed

lemma of_val_mod: "of_val (n mod 2 ^ 256) = of_val n"
proof -
  have "uval (of_val (n mod 2 ^ 256)) = uval (of_val n)" by (simp only: uval_of_val mod_mod_trivial)
  then show ?thesis by (simp only: uval_inj)
qed

lemma of_val_add_max: "k \<le> n \<Longrightarrow> of_val (2 ^ 256 + n - k) = of_val (n - k)"
proof -
  assume "k \<le> n"
  then have "2 ^ 256 + n - k = n - k + 2 ^ 256" by simp
  then have "(2 ^ 256 + n - k) mod 2 ^ 256 = (n - k) mod 2 ^ 256" by (simp only: mod_add_self2)
  then show ?thesis by (metis of_val_mod)
qed

lemma checked_add_val: "checked_add256 a b = exact (uval a + uval b)"
  by (simp add: checked_add256_def overflowing_add256_def uaddc_of_val exact_def not_le)

lemma checked_sub_val: "checked_sub256 a b = (if uval b \<le> uval a then Some (of_val (uval a - uval b)) else None)"
proof (cases "uval b \<le> uval a")
  case True
  then show ?thesis
    unfolding checked_sub256_def overflowing_sub256_def usubc_of_val Let_def prod.case of_val_add_max [OF True]
    by simp
qed (simp add: checked_sub256_def overflowing_sub256_def usubc_of_val)

lemma checked_mul_val: "checked_mul256 a b = Ok (exact (uval a * uval b))"
  by (simp add: checked_mul256_def overflowing_mul256_def umulc_val exact_def not_le)

lemma div_rem_val:
  "div_rem256 a b = (if uval b = 0 then Trap else Ok (of_val (uval a div uval b), of_val (uval a mod uval b)))"
proof (cases "uval b = 0")
  case False
  then have "uval a mod uval b < uval b" by simp
  moreover have "uval a div uval b \<le> uval a" "uval a mod uval b \<le> uval a" by simp_all
  moreover have "uval (of_val n) = n" if "n \<le> uval a" for n
    using le_less_trans [OF that uval_less] by (simp only: uval_of_val mod_less)
  ultimately show ?thesis using False
    by (simp add: div_rem256_def udivmod4_val eq_zero_uval le_uval less_uval not_le not_less)
qed (simp add: div_rem256_def eq_zero_uval)

section \<open>The next power of two\<close>

definition one_less_than_next_power_of_two :: "U256 \<Rightarrow> U256" where
  "one_less_than_next_power_of_two a =
     (if a \<le> U256_ONE then U256_ZERO else shr3 U256_MAX (ctlz (sub3 a U256_ONE)))"

definition next_power_of_two :: "U256 \<Rightarrow> U256" where
  "next_power_of_two a = add3 (one_less_than_next_power_of_two a) U256_ONE"

definition checked_next_power_of_two :: "U256 \<Rightarrow> U256 option" where
  "checked_next_power_of_two a = checked_add256 (one_less_than_next_power_of_two a) U256_ONE"

lemma max_shr: "n \<le> 256 \<Longrightarrow> (2 ^ 256 - 1) div 2 ^ (256 - n) = 2 ^ n - (1 :: nat)"
proof -
  assume n: "n \<le> 256"
  have split: "(m * k - 1) div k = m - 1" if "0 < m" "0 < k" for m k :: nat
  proof -
    have "m * k - 1 = (m - 1) * k + (k - 1)" using that by (cases m) simp_all
    moreover have "((m - 1) * k + (k - 1)) div k = m - 1 + (k - 1) div k" using that by (intro div_mult_self3) simp
    moreover have "(k - 1) div k = 0" using that by (intro div_less) simp
    ultimately show ?thesis by (simp only: add_0_right)
  qed
  have "(2 :: nat) ^ 256 = 2 ^ n * 2 ^ (256 - n)" using n by (simp only: power_add [symmetric] le_add_diff_inverse)
  then show ?thesis using split [of "2 ^ n" "2 ^ (256 - n)"] by simp
qed

lemma one_less_val: "uval (one_less_than_next_power_of_two a) = 2 ^ bit_len (uval a - 1) - 1"
proof (cases "uval a \<le> 1")
  case False
  define p where "p = uval a - 1"
  have p: "0 < p" "p < 2 ^ 256" using False uval_less [of a] unfolding p_def by linarith+
  have "uval (sub3 a U256_ONE) = p"
    using checked_sub_val [of a U256_ONE] False uval_less [of a]
    unfolding sub3_val p_def by (simp add: mod_if)
  moreover have b: "bit_len p \<le> 256" "0 < bit_len p" using bit_len_le [OF p(2)] bit_len_bounds [OF p(1)] by simp_all
  ultimately show ?thesis
    using False shr3_val [of "256 - bit_len p" U256_MAX] max_shr [OF b(1)]
    by (simp add: one_less_than_next_power_of_two_def le_uval ctlz_val p_def)
qed (simp add: one_less_than_next_power_of_two_def le_uval)

section \<open>Powers\<close>

text \<open>
  The squaring loops: the exponent halves until it is one, and the last bit is multiplied in
  separately. \<open>pow_loop\<close> is the loop of \<open>wrapping_pow\<close> and \<open>pow\<close>, whose operators wrap.
\<close>

fun checked_pow_loop :: "U256 \<Rightarrow> U256 \<Rightarrow> nat \<Rightarrow> ('e, U256 option) outcome" where
  "checked_pow_loop base acc expn =
     (if expn > 1 then
        bnd (if expn mod 2 = 1 then checked_mul256 acc base else Ok (Some acc)) (\<lambda>v.
        case v of None \<Rightarrow> Ok None
        | Some acc' \<Rightarrow>
            bnd (checked_mul256 base base) (\<lambda>w.
            case w of None \<Rightarrow> Ok None
            | Some base' \<Rightarrow> checked_pow_loop base' acc' (expn div 2)))
      else if expn = 1 then checked_mul256 acc base
      else Ok (Some acc))"

fun pow_loop :: "U256 \<Rightarrow> U256 \<Rightarrow> nat \<Rightarrow> ('e, U256) outcome" where
  "pow_loop base acc expn =
     (if expn > 1 then
        bnd (if expn mod 2 = 1 then mul3 acc base else Ok acc) (\<lambda>acc'.
        bnd (mul3 base base) (\<lambda>base'. pow_loop base' acc' (expn div 2)))
      else if expn = 1 then mul3 acc base
      else Ok acc)"

fun overflowing_pow_loop :: "U256 \<Rightarrow> U256 \<Rightarrow> nat \<Rightarrow> bool \<Rightarrow> ('e, U256 \<times> bool) outcome" where
  "overflowing_pow_loop base acc expn overflown =
     (if expn > 1 then
        bnd (if expn mod 2 = 1 then
               bnd (overflowing_mul256 acc base) (\<lambda>(r0, r1). Ok (r0, overflown \<or> r1))
             else Ok (acc, overflown)) (\<lambda>(acc', overflown').
        bnd (overflowing_mul256 base base) (\<lambda>(r0, r1).
        overflowing_pow_loop r0 acc' (expn div 2) (overflown' \<or> r1)))
      else if expn = 1 then
        bnd (overflowing_mul256 acc base) (\<lambda>(r0, r1). Ok (r0, overflown \<or> r1))
      else Ok (acc, overflown))"

declare checked_pow_loop.simps [simp del] pow_loop.simps [simp del] overflowing_pow_loop.simps [simp del]

definition checked_pow256 :: "U256 \<Rightarrow> nat \<Rightarrow> ('e, U256 option) outcome" where
  "checked_pow256 a n = checked_pow_loop a U256_ONE n"

definition wrapping_pow256 :: "U256 \<Rightarrow> nat \<Rightarrow> ('e, U256) outcome" where
  "wrapping_pow256 a n = pow_loop a U256_ONE n"

definition overflowing_pow256 :: "U256 \<Rightarrow> nat \<Rightarrow> ('e, U256 \<times> bool) outcome" where
  "overflowing_pow256 a n = overflowing_pow_loop a U256_ONE n False"

definition saturating_pow256 :: "U256 \<Rightarrow> nat \<Rightarrow> ('e, U256) outcome" where
  "saturating_pow256 a n = bnd (checked_pow256 a n) (\<lambda>v. Ok (unwrap_or U256_MAX v))"

lemma power_halves: "x ^ n = (if n mod 2 = 1 then x else 1) * (x * x) ^ (n div 2)"
  for x :: "'a :: comm_monoid_mult" and n :: nat
proof -
  have "x ^ n = x ^ (n div 2 * 2 + n mod 2)" by simp
  also have "\<dots> = (x * x) ^ (n div 2) * x ^ (n mod 2)"
    by (simp only: power_add power_mult power2_eq_square mult.commute [of "n div 2"])
  finally show ?thesis by (cases "n mod 2 = 1") (simp_all add: mult.commute)
qed

lemma uval_of_val_small: "n < 2 ^ 256 \<Longrightarrow> uval (of_val n) = n"
  by (simp only: uval_of_val mod_less)

text \<open>Once an intermediate product is out of range, so is the power.\<close>

lemma power_exceeds:
  fixes a b n m :: nat
  assumes "1 \<le> a \<or> b = 0"
  shows "n mod 2 = 1 \<Longrightarrow> m \<le> a * b \<Longrightarrow> 0 < m \<Longrightarrow> m \<le> a * b ^ n"
    "1 < n \<Longrightarrow> m \<le> b * b \<Longrightarrow> 0 < m \<Longrightarrow> m \<le> a * b ^ n"
proof -
  assume n: "n mod 2 = 1" and m: "m \<le> a * b" "0 < m"
  then have b: "1 \<le> b" by (cases b) simp_all
  have "1 \<le> n" using n by (cases n) simp_all
  then have "b ^ 1 \<le> b ^ n" using b by (intro power_increasing) simp_all
  then have "a * b \<le> a * b ^ n" by simp
  with m show "m \<le> a * b ^ n" by linarith
next
  assume n: "1 < n" and m: "m \<le> b * b" "0 < m"
  then have b: "1 \<le> b" by (cases b) simp_all
  have "b ^ 2 \<le> b ^ n" using n b by (intro power_increasing) simp_all
  moreover have "1 * b ^ n \<le> a * b ^ n" using assms b by (intro mult_le_mono1) auto
  ultimately show "m \<le> a * b ^ n" using m unfolding power2_eq_square by linarith
qed

lemma checked_pow_loop_val:
  "1 \<le> uval acc \<or> uval base = 0 \<Longrightarrow>
    (checked_pow_loop base acc expn :: ('e, U256 option) outcome) = Ok (exact (uval acc * uval base ^ expn))"
proof (induction expn arbitrary: base acc rule: less_induct)
  case (less expn)
  define a b m where "a = uval acc" and "b = uval base" and "m = (2 :: nat) ^ 256"
  have m: "0 < m" by (simp add: m_def)
  note exceeds = power_exceeds [OF less.prems [folded a_def b_def], where m = m, OF _ _ m]
  show ?case
  proof (cases "expn > 1")
    case False
    then consider "expn = 0" | "expn = 1" by linarith
    then show ?thesis
    proof cases
      case 1
      then show ?thesis using uval_less [of acc] by (simp add: checked_pow_loop.simps exact_def)
    next
      case 2
      then show ?thesis by (simp add: checked_pow_loop.simps checked_mul_val)
    qed
  next
    case True
    define a' where "a' = (if expn mod 2 = 1 then a * b else a)"
    have halves: "a * b ^ expn = a' * (b * b) ^ (expn div 2)"
      unfolding a'_def using power_halves [of b expn] by (simp add: mult.assoc)
    have step: "(if expn mod 2 = 1 then checked_mul256 acc base else Ok (Some acc)) = Ok (exact a')"
      using uval_less [of acc] by (simp add: checked_mul_val a'_def a_def b_def exact_def)
    have square: "checked_mul256 base base = Ok (exact (b * b))" by (simp add: checked_mul_val b_def)
    show ?thesis
    proof (cases "a' < m \<and> b * b < m")
      case in_range: True
      then have v: "exact a' = Some (of_val a')" "exact (b * b) = Some (of_val (b * b))"
        "uval (of_val a') = a'" "uval (of_val (b * b)) = b * b"
        by (simp_all add: exact_def m_def uval_of_val)
      have "1 \<le> uval (of_val a') \<or> uval (of_val (b * b)) = 0"
        using less.prems unfolding v(3,4) by (auto simp: a'_def a_def b_def)
      from less.IH [OF _ this, of "expn div 2"] True
      have "(checked_pow_loop (of_val (b * b)) (of_val a') (expn div 2) :: ('e, U256 option) outcome)
          = Ok (exact (a * b ^ expn))" by (simp add: v(3,4) halves)
      then show ?thesis
        by (subst checked_pow_loop.simps)
          (simp only: True if_True step square bnd_simps v option.case a_def [symmetric] b_def [symmetric])
    next
      case out_of_range: False
      have "m \<le> a * b ^ expn"
      proof (cases "m \<le> b * b")
        case False
        then have "m \<le> a'" using out_of_range by simp
        moreover have "a < m" unfolding a_def m_def by (rule uval_less)
        ultimately show ?thesis using exceeds(1) by (auto simp: a'_def split: if_splits)
      qed (rule exceeds(2) [OF True])
      then have "exact (a * b ^ expn) = None" by (simp add: exact_def m_def)
      moreover have "exact a' = None \<or> exact (b * b) = None"
        using out_of_range by (auto simp: exact_def m_def)
      ultimately show ?thesis
        by (subst checked_pow_loop.simps)
          (simp only: True if_True step square bnd_simps a_def [symmetric] b_def [symmetric],
            auto split: option.split)
    qed
  qed
qed

lemma mod_mult_power: "(x mod m) * (y mod m) ^ k mod m = x * y ^ k mod m"
  for x y m :: "'a :: euclidean_semiring_cancel" and k :: nat
proof -
  have "(x mod m) * (y mod m) ^ k mod m = x mod m * ((y mod m) ^ k mod m) mod m" by (simp only: mod_mult_right_eq)
  also have "(y mod m) ^ k mod m = y ^ k mod m" by (rule power_mod)
  finally show ?thesis by (simp only: mod_mult_eq)
qed

lemma pow_loop_val: "(pow_loop base acc expn :: ('e, U256) outcome) = Ok (of_val (uval acc * uval base ^ expn))"
proof (induction expn arbitrary: base acc rule: less_induct)
  case (less expn)
  show ?case
  proof (cases "expn > 1")
    case False
    then consider "expn = 0" | "expn = 1" by linarith
    then show ?thesis by cases (simp_all add: pow_loop.simps mul3_val)
  next
    case True
    define a where "a = (if expn mod 2 = 1 then of_val (uval acc * uval base) else acc)"
    define b where "b = of_val (uval base * uval base)"
    have step: "(if expn mod 2 = 1 then mul3 acc base else Ok acc) = Ok a" "mul3 base base = Ok b"
      by (simp_all add: mul3_val a_def b_def)
    have "uval a = (if expn mod 2 = 1 then uval acc * uval base else uval acc) mod 2 ^ 256"
      using mod_less [OF uval_less [of acc]] by (simp only: a_def uval_of_val split: if_split) simp
    moreover have "uval b = uval base * uval base mod 2 ^ 256" by (simp only: b_def uval_of_val)
    ultimately have "uval a * uval b ^ (expn div 2) mod 2 ^ 256
        = (if expn mod 2 = 1 then uval acc * uval base else uval acc) * (uval base * uval base) ^ (expn div 2) mod 2 ^ 256"
      by (simp only: mod_mult_power)
    also have "\<dots> = uval acc * uval base ^ expn mod 2 ^ 256"
      using power_halves [of "uval base" expn] by (simp add: mult.assoc)
    finally have "of_val (uval a * uval b ^ (expn div 2)) = of_val (uval acc * uval base ^ expn)"
      by (metis of_val_mod)
    moreover have "(pow_loop b a (expn div 2) :: ('e, U256) outcome) = Ok (of_val (uval a * uval b ^ (expn div 2)))"
      by (rule less.IH) (use True in simp)
    ultimately show ?thesis
      by (subst pow_loop.simps) (simp only: True if_True step bnd_simps)
  qed
qed

lemma overflowing_pow_loop_val:
  "overflown \<or> 1 \<le> uval acc \<or> uval base = 0 \<Longrightarrow>
    (overflowing_pow_loop base acc expn overflown :: ('e, U256 \<times> bool) outcome)
    = Ok (of_val (uval acc * uval base ^ expn), overflown \<or> 2 ^ 256 \<le> uval acc * uval base ^ expn)"
proof (induction expn arbitrary: base acc overflown rule: less_induct)
  case (less expn)
  show ?case
  proof (cases "expn > 1")
    case False
    then consider "expn = 0" | "expn = 1" by linarith
    then show ?thesis
    proof cases
      case 1
      then show ?thesis using uval_less [of acc] by (simp add: overflowing_pow_loop.simps not_le)
    next
      case 2
      then show ?thesis by (simp add: overflowing_pow_loop.simps overflowing_mul256_def umulc_val)
    qed
  next
    case True
    define x y m where "x = uval acc" and "y = uval base" and "m = (2 :: nat) ^ 256"
    define x' where "x' = (if expn mod 2 = 1 then x * y else x)"
    have xm: "x < m" unfolding x_def m_def by (rule uval_less)
    have halves: "x * y ^ expn = x' * (y * y) ^ (expn div 2)"
      unfolding x'_def using power_halves [of y expn] by (simp add: mult.assoc)
    define a b where "a = of_val x'" and "b = of_val (y * y)"
    have step: "(if expn mod 2 = 1
        then bnd (overflowing_mul256 acc base) (\<lambda>(r0, r1). Ok (r0, overflown \<or> r1)) else Ok (acc, overflown))
      = Ok (a, overflown \<or> m \<le> x')"
      using xm by (simp add: overflowing_mul256_def umulc_val a_def x'_def x_def y_def m_def)
    have square: "overflowing_mul256 base base = Ok (b, m \<le> y * y)"
      by (simp only: overflowing_mul256_def umulc_val b_def y_def m_def)
    define f where "f = ((overflown \<or> m \<le> x') \<or> m \<le> y * y)"
    have vals: "uval a = x' mod m" "uval b = y * y mod m" by (simp_all only: a_def b_def uval_of_val m_def)
    have pre: "1 \<le> x \<or> y = 0" if "\<not> overflown" using less.prems that by (simp add: x_def y_def)
    have "f \<or> 1 \<le> uval a \<or> uval b = 0"
      using pre by (cases f) (auto simp: vals f_def x'_def)
    from less.IH [OF _ this, of "expn div 2"] True
    have rec: "(overflowing_pow_loop b a (expn div 2) f :: ('e, U256 \<times> bool) outcome)
      = Ok (of_val (uval a * uval b ^ (expn div 2)), f \<or> 2 ^ 256 \<le> uval a * uval b ^ (expn div 2))" by simp
    have "of_val (uval a * uval b ^ (expn div 2)) = of_val (x * y ^ expn)"
      using mod_mult_power [of x' m "y * y" "expn div 2"] unfolding vals halves m_def by (metis of_val_mod)
    moreover have "(f \<or> 2 ^ 256 \<le> uval a * uval b ^ (expn div 2)) = (overflown \<or> 2 ^ 256 \<le> x * y ^ expn)"
    proof (cases f)
      case False
      then have "uval a = x'" "uval b = y * y" by (simp_all add: vals f_def)
      then show ?thesis using False unfolding halves by (simp add: f_def)
    next
      case True
      have "m \<le> x * y ^ expn" if "\<not> overflown"
      proof (cases "m \<le> y * y")
        case False
        then have "m \<le> x'" using \<open>f\<close> that by (simp add: f_def)
        then show ?thesis
          using power_exceeds(1) [OF pre [OF that], of expn m] xm by (auto simp: x'_def split: if_splits)
      qed (rule power_exceeds(2) [OF pre [OF that] \<open>expn > 1\<close>], simp_all add: m_def)
      then show ?thesis using True by (auto simp: m_def)
    qed
    ultimately show ?thesis
      unfolding x_def [symmetric] y_def [symmetric]
      by (subst overflowing_pow_loop.simps)
        (simp only: \<open>expn > 1\<close> if_True step square bnd_simps prod.case f_def [symmetric] rec)
  qed
qed

section \<open>Properties\<close>

text \<open>C26: Checked arithmetic returns the exact result or nothing. The checked operations return the
  result over the natural numbers when it fits into 256 bits and \<open>None\<close> otherwise (a negative
  difference, a product or power that is too large, a zero divisor); the saturating ones return the
  nearest number in range. Powers are computed by repeated squaring, which never gives up on a power
  that fits.\<close>

theorem checked_arithmetic_is_exact:
  "checked_add256 a b = exact (uval a + uval b) \<and>
   checked_sub256 a b = (if uval b \<le> uval a then exact (uval a - uval b) else None) \<and>
   checked_mul256 a b = Ok (exact (uval a * uval b)) \<and>
   checked_div256 a b = Ok (if uval b = 0 then None else exact (uval a div uval b)) \<and>
   checked_rem256 a b = Ok (if uval b = 0 then None else exact (uval a mod uval b)) \<and>
   checked_pow256 a n = Ok (exact (uval a ^ n)) \<and>
   uval (saturating_add256 a b) = min (uval a + uval b) (2 ^ 256 - 1) \<and>
   uval (saturating_sub256 a b) = uval a - uval b \<and>
   saturating_mul256 a b = Ok (of_val (min (uval a * uval b) (2 ^ 256 - 1))) \<and>
   saturating_pow256 a n = Ok (of_val (min (uval a ^ n) (2 ^ 256 - 1)))"
proof -
  have sat: "unwrap_or U256_MAX (exact k) = of_val (min k (2 ^ 256 - 1))" for k
    using of_val_uval [of U256_MAX] by (simp add: exact_def min_def)
  have one: "1 \<le> uval U256_ONE \<or> uval a = 0" by simp
  have pow: "checked_pow256 a n = Ok (exact (uval a ^ n))"
    unfolding checked_pow256_def checked_pow_loop_val [OF one] by simp
  have less: "uval a - uval b < 2 ^ 256" "uval a div uval b < 2 ^ 256" "uval a mod uval b < 2 ^ 256"
    by (rule le_less_trans [OF _ uval_less [of a]], simp)+
  show ?thesis
    unfolding saturating_add256_def saturating_sub256_def saturating_mul256_def saturating_pow256_def pow
      checked_add_val checked_sub_val checked_mul_val bnd_simps sat
    using less uval_less [of a] by (simp add: checked_div256_def checked_rem256_def eq_zero_uval division_is_exact exact_def
        uval_of_val)
qed

text \<open>Overflowing and wrapping powers. \<open>wrapping_pow\<close> is the power modulo \<open>2 ^ 256\<close>; \<open>overflowing_pow\<close> returns
  it with a flag that is set exactly when the true power does not fit, although the squaring loop
  continues with wrapped intermediate values after the first overflow.\<close>

theorem overflowing_power_flag:
  "wrapping_pow256 a n = Ok (of_val (uval a ^ n)) \<and>
   overflowing_pow256 a n = Ok (of_val (uval a ^ n), 2 ^ 256 \<le> uval a ^ n)"
proof -
  have one: "False \<or> 1 \<le> uval U256_ONE \<or> uval a = 0" by simp
  show ?thesis
    unfolding wrapping_pow256_def overflowing_pow256_def pow_loop_val overflowing_pow_loop_val [OF one] by simp
qed

text \<open>The next power of two, and \<open>None\<close> when it does not fit into 256 bits.\<close>

theorem next_power_of_two_val:
  "checked_next_power_of_two a = exact (2 ^ bit_len (uval a - 1)) \<and>
   next_power_of_two a = of_val (2 ^ bit_len (uval a - 1)) \<and>
   uval a \<le> 2 ^ bit_len (uval a - 1) \<and> (1 < uval a \<longrightarrow> 2 ^ bit_len (uval a - 1) < 2 * uval a)"
proof -
  have v: "uval (one_less_than_next_power_of_two a) + uval U256_ONE = 2 ^ bit_len (uval a - 1)"
    unfolding one_less_val by simp
  have "next_power_of_two a = of_val (uval (one_less_than_next_power_of_two a) + uval U256_ONE)"
    unfolding next_power_of_two_def add3_uaddc uaddc_of_val by simp
  moreover have "uval a \<le> 2 ^ bit_len (uval a - 1)"
  proof (cases "uval a \<le> 1")
    case False
    then have "uval a - 1 < 2 ^ bit_len (uval a - 1)" using bit_len_bounds [of "uval a - 1"] by simp
    then show ?thesis by linarith
  qed simp
  moreover have "2 ^ bit_len (uval a - 1) < 2 * uval a" if "1 < uval a"
  proof -
    have b: "0 < bit_len (uval a - 1)" "2 ^ (bit_len (uval a - 1) - 1) \<le> uval a - 1"
      using bit_len_bounds [of "uval a - 1"] that by simp_all
    then have "(2 :: nat) ^ bit_len (uval a - 1) = 2 * 2 ^ (bit_len (uval a - 1) - 1)"
      by (cases "bit_len (uval a - 1)") simp_all
    with b(2) that show ?thesis by linarith
  qed
  ultimately show ?thesis unfolding checked_next_power_of_two_def checked_add_val v by blast
qed

end
