(* ===== verification/Twap_Words.thy ===== *)
theory Twap_Words
  imports Twap_Oracle Wide_Api
begin

text \<open>
  The price oracle on its word arithmetic: \<open>Twap_Oracle\<close> computes with \<open>256 word\<close>, the contract with
  pairs of 128-bit words handed to the integer library (\<open>U256::as_ethnum\<close>, \<open>from_ethnum\<close>,
  \<open>twap_oracle/src/lib.rs\<close>). Here the library's routines are shown to be the arithmetic of \<open>256 word\<close>,
  so that the average the contract computes word by word is the one of the model.
\<close>

text \<open>The pair of words of a 256-bit number, and back.\<close>

definition as_ethnum :: "u256 \<Rightarrow> U256" where
  "as_ethnum x = from_words (word_of_nat (unat x div 2 ^ 128)) (word_of_nat (unat x))"

definition from_ethnum :: "U256 \<Rightarrow> u256" where
  "from_ethnum x = word_of_nat (unat (high x) * 2 ^ 128 + unat (low x))"

text \<open>\<open>From<u64>\<close> and \<open>From<u128>\<close> at \<open>i128::cast_unsigned\<close>, and \<open>TryFrom<U256> for i128\<close> (\<open>uint/convert.rs\<close>).\<close>

definition words_of_u64 :: "nat \<Rightarrow> U256" where
  "words_of_u64 n = from_words 0 (word_of_nat n)"

definition words_of_i128 :: "int \<Rightarrow> U256" where
  "words_of_i128 p = from_words 0 (word_of_int p)"

definition i128_of_words :: "U256 \<Rightarrow> (twap_error, int) outcome" where
  "i128_of_words x =
     (if x \<le> words_of_i128 (2 ^ 127 - 1) then Ok (sint (low x)) else Err PriceOverflow)"

text \<open>
  The last steps of \<open>twap\<close> on words: the cumulative price at the target time from the base
  observation, the wrapping difference to the latest one, the division by the window.
\<close>

definition average_by_words :: "U256 \<Rightarrow> int \<Rightarrow> nat \<Rightarrow> U256 \<Rightarrow> nat \<Rightarrow> (twap_error, int) outcome" where
  "average_by_words base_cumulative base_price elapsed latest_cumulative window_seconds =
     bnd (if elapsed = 0 then Ok base_cumulative
          else
            bnd (mul3 (words_of_i128 base_price) (words_of_u64 elapsed)) (\<lambda>increment.
            Ok (add3 base_cumulative increment))) (\<lambda>cumulative_at_target.
     let accumulated = sub3 latest_cumulative cumulative_at_target in
     bnd (u256_div accumulated (words_of_u64 window_seconds)) (\<lambda>avg. i128_of_words avg))"

lemma unat_u256_less: "unat (x :: u256) < 2 ^ 256"
  using unsigned_less [of x, where ?'a = nat] by simp

lemma unat_word256: "unat (word_of_nat n :: u256) = n mod 2 ^ 256"
  by (simp add: unsigned_of_nat take_bit_eq_mod)

lemma as_ethnum_of_val: "as_ethnum x = of_val (unat x)"
  by (simp add: as_ethnum_def of_val_def)

lemma uval_as_ethnum: "uval (as_ethnum x) = unat x"
  by (simp only: as_ethnum_of_val uval_of_val mod_less unat_u256_less)

lemma as_ethnum_eqI: "uval y = unat x \<Longrightarrow> y = as_ethnum x"
  by (simp only: as_ethnum_of_val eq_of_val)

lemma from_as_ethnum [simp]: "from_ethnum (as_ethnum x) = x" "as_ethnum (from_ethnum y) = y"
proof -
  have "from_ethnum (as_ethnum x) = word_of_nat (uval (as_ethnum x))" by (simp only: from_ethnum_def uval_def)
  then show "from_ethnum (as_ethnum x) = x" by (simp add: uval_as_ethnum)
  have "unat (from_ethnum y) = uval y"
    using uval_less [of y] by (simp only: from_ethnum_def uval_def [symmetric] unat_word256 mod_less)
  then show "as_ethnum (from_ethnum y) = y" by (intro as_ethnum_eqI [symmetric]) simp
qed

text \<open>Word by word addition, subtraction, multiplication and division are those of \<open>256 word\<close>.\<close>

lemma words_add: "add3 (as_ethnum x) (as_ethnum y) = as_ethnum (x + y)"
  by (rule as_ethnum_eqI) (simp only: add3_val uval_as_ethnum, simp add: unat_word_ariths)

lemma words_sub: "sub3 (as_ethnum x) (as_ethnum y) = as_ethnum (x - y)"
proof (rule as_ethnum_eqI)
  have "unat (x - y) = (2 ^ 256 + unat x - unat y) mod 2 ^ 256"
  proof (rule mod_sub_borrow [OF unat_u256_less unat_u256_less, symmetric])
    show "unat (x - y) + unat y = unat x + (if unat x < unat y then 2 ^ 256 else 0)"
      using unat_sub_if' [of x y] unat_u256_less [of y] by (simp add: word_le_nat_alt split: if_splits)
  qed
  then show "uval (sub3 (as_ethnum x) (as_ethnum y)) = unat (x - y)" by (simp only: sub3_val uval_as_ethnum)
qed

lemma words_mul: "mul3 (as_ethnum x) (as_ethnum y) = Ok (as_ethnum (x * y))"
proof -
  have "of_val (unat x * unat y) = as_ethnum (x * y)"
    by (rule as_ethnum_eqI) (simp only: uval_of_val, simp add: unat_word_ariths)
  then show ?thesis by (simp only: mul3_val uval_as_ethnum)
qed

lemma words_div: "y \<noteq> 0 \<Longrightarrow> u256_div (as_ethnum x) (as_ethnum y) = Ok (as_ethnum (x div y))"
proof -
  assume "y \<noteq> 0"
  then have "unat y \<noteq> 0" by (simp add: unat_eq_0)
  then have "u256_div (as_ethnum x) (as_ethnum y) = Ok (of_val (unat x div unat y))"
    by (simp only: division_is_exact uval_as_ethnum if_False)
  then show ?thesis by (simp only: as_ethnum_of_val unat_div)
qed

lemma words_le: "(as_ethnum x \<le> as_ethnum y) = (x \<le> y)"
  by (simp only: le_uval uval_as_ethnum word_le_nat_alt)

lemma words_of_u64_eq: "n < 2 ^ 64 \<Longrightarrow> words_of_u64 n = as_ethnum (u256_of_u64 n)"
  unfolding words_of_u64_def u256_of_u64_def
  by (rule as_ethnum_eqI) (simp add: uval_def unat_word_small unat_word256)

lemma words_of_i128_eq: "0 \<le> p \<Longrightarrow> p < 2 ^ 127 \<Longrightarrow> words_of_i128 p = as_ethnum (u256_of_i128 p)"
  unfolding words_of_i128_def u256_of_i128_def
  using unat_u128_less [of "word_of_int p"]
  by (intro as_ethnum_eqI) (simp add: uval_def unsigned_ucast_eq take_bit_eq_mod)

lemma i128_of_words_eq: "i128_of_words (as_ethnum x) = i128_of_u256 x"
proof -
  have m: "words_of_i128 (2 ^ 127 - 1) = as_ethnum (2 ^ 127 - 1)"
    unfolding words_of_i128_def by (rule as_ethnum_eqI) (simp add: uval_def)
  have c: "(as_ethnum x \<le> words_of_i128 (2 ^ 127 - 1)) = (uint x < 2 ^ 127)"
    unfolding m words_le by (simp add: word_le_def) arith
  have "sint (low (as_ethnum x)) = uint x" if "uint x < 2 ^ 127"
  proof -
    have "low (as_ethnum x) = word_of_int (uint x)" by (simp add: as_ethnum_def)
    then have "sint (low (as_ethnum x)) = signed_take_bit 127 (uint x)" by (simp only: signed_of_int) simp
    moreover have "signed_take_bit 127 (uint x) = uint x"
      by (rule signed_take_bit_int_eq_self) (use that in \<open>simp_all add: order_trans [OF _ uint_ge_0]\<close>)
    ultimately show ?thesis by simp
  qed
  with c show ?thesis by (simp add: i128_of_words_def i128_of_u256_def)
qed

text \<open>C23: The oracle's average is computed correctly by the word arithmetic it runs on. For prices, times
  and windows of their types, chaining the library's multiplication, addition, subtraction and
  division on pairs of 128-bit words gives the very result of the model's formula over \<open>256 word\<close>,
  errors included: no step traps, and the price that does not fit \<open>i128\<close> is refused in both.\<close>

theorem average_by_words_refines:
  assumes "0 \<le> p" "p < 2 ^ 127" "elapsed < 2 ^ 64" "0 < window" "window < 2 ^ 64"
  shows "average_by_words (as_ethnum base) p elapsed (as_ethnum latest) window
    = i128_of_u256 ((latest - (if elapsed = 0 then base else base + u256_of_i128 p * u256_of_u64 elapsed))
        div u256_of_u64 window)"
proof -
  have "unat (u256_of_u64 window) = window" using assms(5) by (simp add: u256_of_u64_def unat_word256)
  then have w: "u256_of_u64 window \<noteq> 0" using assms(4) by auto
  show ?thesis
    unfolding average_by_words_def words_of_i128_eq [OF assms(1,2)] words_of_u64_eq [OF assms(3)]
      words_of_u64_eq [OF assms(5)]
    by (simp add: words_mul words_add words_sub words_div [OF w] i128_of_words_eq)
qed

text \<open>A price of 7 for 10 seconds on top of a cumulative price just below the wrap, over 20 seconds.\<close>

lemma average_by_words_refines_witness:
  "average_by_words (as_ethnum (- 30)) 7 10 (as_ethnum 100) 20 = Ok 3"
proof -
  have "((100 :: u256) - (- 30 + u256_of_i128 7 * u256_of_u64 10)) div u256_of_u64 20 = 3"
    by (simp add: u256_of_i128_def u256_of_u64_def)
  then show ?thesis
    using average_by_words_refines [of 7 10 20 "- 30" 100] by (simp add: i128_of_u256_def)
qed

end
