(* ===== verification/Wide_Signed.thy ===== *)
theory Wide_Signed
  imports Wide_Api
begin

text \<open>
  The 256-bit signed integer (\<open>ethnum-patch/src/int\<close>): a pair of words read in two's complement, as the
  \<open>cast!\<close> of the source reinterprets \<open>I256\<close> as \<open>U256\<close> and back. Comparison, arithmetic shift, signed
  division, the overflow tests of addition, subtraction and multiplication, and the checked,
  saturating and Euclidean operations over them, proved against the integers.
\<close>

type_synonym I256 = U256

definition ival :: "I256 \<Rightarrow> int" where
  "ival x = sint (high x) * 2 ^ 128 + uint (low x)"

definition of_ival :: "int \<Rightarrow> I256" where
  "of_ival z = of_val (nat (z mod 2 ^ 256))"

definition I256_MIN :: I256 where "I256_MIN = from_words (push_bit 127 1) 0"
definition I256_MAX :: I256 where "I256_MAX = from_words (push_bit 127 1 - 1) (- 1)"
definition I256_MINUS_ONE :: I256 where "I256_MINUS_ONE = from_words (- 1) (- 1)"

text \<open>\<open>Ord::cmp\<close>: the high words as signed numbers, then the low words as unsigned ones.\<close>

definition i256_less :: "I256 \<Rightarrow> I256 \<Rightarrow> bool" where
  "i256_less a b \<longleftrightarrow> sint (high a) < sint (high b) \<or> high a = high b \<and> low a < low b"

definition is_negative :: "I256 \<Rightarrow> bool" where
  "is_negative a \<longleftrightarrow> sint (high a) < 0"

definition u256_xor :: "U256 \<Rightarrow> U256 \<Rightarrow> U256" where
  "u256_xor a b = from_words (high a XOR high b) (low a XOR low b)"

definition sar3 :: "I256 \<Rightarrow> nat \<Rightarrow> I256" where
  "sar3 a b =
     (if b = 0 then from_words (high a) (low a)
      else if b < 128 then
        from_words (signed_drop_bit b (high a)) (drop_bit b (low a) OR push_bit (128 - b) (high a))
      else from_words (signed_drop_bit 127 (high a)) (signed_drop_bit (b AND 0x7f) (high a)))"

definition idivmod4 :: "I256 \<Rightarrow> I256 \<Rightarrow> ('e, I256 \<times> I256) outcome" where
  "idivmod4 a b =
     (let s_a = sar3 a 255; s_b = sar3 b 255;
          a' = sub3 (u256_xor a s_a) s_a; b' = sub3 (u256_xor b s_b) s_b;
          s_q = u256_xor s_b s_a in
      bnd (udivmod4 a' b') (\<lambda>(q, r).
      Ok (sub3 (u256_xor q s_q) s_q, sub3 (u256_xor r s_a) s_a)))"

text \<open>\<open>idiv3\<close>, \<open>irem3\<close>, and the operators over them.\<close>

definition idiv3 :: "I256 \<Rightarrow> I256 \<Rightarrow> ('e, I256) outcome" where
  "idiv3 a b = bnd (idivmod4 a b) (\<lambda>(q, r). Ok q)"

definition irem3 :: "I256 \<Rightarrow> I256 \<Rightarrow> ('e, I256) outcome" where
  "irem3 a b = bnd (idivmod4 a b) (\<lambda>(q, r). Ok r)"

definition i256_div :: "I256 \<Rightarrow> I256 \<Rightarrow> ('e, I256) outcome" where
  "i256_div a b = (if b = U256_ZERO then Trap else idiv3 a b)"

definition i256_rem :: "I256 \<Rightarrow> I256 \<Rightarrow> ('e, I256) outcome" where
  "i256_rem a b = (if b = U256_ZERO then Trap else irem3 a b)"

definition i256_neg :: "I256 \<Rightarrow> I256" where
  "i256_neg a = add3 (u256_not a) U256_ONE"

definition iaddc :: "I256 \<Rightarrow> I256 \<Rightarrow> I256 \<times> bool" where
  "iaddc a b =
     (let s = add3 a b in
      (s, \<not> i256_less b U256_ZERO \<and> i256_less s a \<or> i256_less b U256_ZERO \<and> \<not> i256_less s a))"

definition isubc :: "I256 \<Rightarrow> I256 \<Rightarrow> I256 \<times> bool" where
  "isubc a b =
     (let s = sub3 a b in
      (s, \<not> i256_less b U256_ZERO \<and> i256_less a s \<or> i256_less b U256_ZERO \<and> \<not> i256_less a s))"

definition imulc :: "I256 \<Rightarrow> I256 \<Rightarrow> ('e, I256 \<times> bool) outcome" where
  "imulc a b =
     bnd (mul3 a b) (\<lambda>res.
     if a = I256_MIN then Ok (res, b \<noteq> U256_ZERO \<and> b \<noteq> U256_ONE)
     else if b = I256_MIN then Ok (res, a \<noteq> U256_ZERO \<and> a \<noteq> U256_ONE)
     else
       let sa = sar3 a 255; abs_a = sub3 (u256_xor a sa) sa;
           sb = sar3 b 255; abs_b = sub3 (u256_xor b sb) sb; two = from_words 0 2 in
       if i256_less abs_a two \<or> i256_less abs_b two then Ok (res, False)
       else if sa = sb then
         bnd (i256_div I256_MAX abs_b) (\<lambda>q. Ok (res, i256_less q abs_a))
       else
         bnd (i256_div I256_MIN (i256_neg abs_b)) (\<lambda>q. Ok (res, i256_less q abs_a)))"

section \<open>Two's complement values\<close>

lemma uint_u128_range: "0 \<le> uint x" "uint x < 2 ^ 128" for x :: u128
  using unsigned_less [of x, where ?'a = int] by simp_all

lemma sint_range: "- (2 ^ 127) \<le> sint x" "sint x < 2 ^ 127" for x :: u128
  using sint_greater_eq [of x] sint_less [of x] by simp_all

lemma uint_sint: "uint x = sint x mod 2 ^ 128" for x :: u128
proof -
  have "uint x = uint (word_of_int (sint x) :: u128)" by simp
  also have "\<dots> = sint x mod 2 ^ 128" by (simp only: uint_word_of_int) simp
  finally show ?thesis .
qed

lemma mod_range_unique:
  fixes a b h :: int
  assumes "a mod (2 * h) = b mod (2 * h)" "- h \<le> a" "a < h" "- h \<le> b" "b < h"
  shows "a = b"
proof -
  have "(a + h) mod (2 * h) = (b + h) mod (2 * h)" using assms(1) by (metis mod_add_left_eq)
  moreover have "(a + h) mod (2 * h) = a + h" "(b + h) mod (2 * h) = b + h"
    using assms by (intro mod_pos_pos_trivial; linarith)+
  ultimately show ?thesis by simp
qed

lemma ival_range: "- (2 ^ 255) \<le> ival x" "ival x < 2 ^ 255"
proof -
  have p: "(2 :: int) ^ 255 = 2 ^ 127 * 2 ^ 128" by (simp only: power_add [symmetric]) simp
  have l: "0 \<le> uint (low x)" "uint (low x) < 2 ^ 128"
    by (rule uint_u128_range)+
  have "- (2 ^ 127) * 2 ^ 128 \<le> sint (high x) * 2 ^ 128"
    using sint_range(1) by (rule mult_right_mono) simp
  then show "- (2 ^ 255) \<le> ival x" using l(1) unfolding ival_def p by linarith
  have "(sint (high x) + 1) * 2 ^ 128 \<le> 2 ^ 127 * 2 ^ 128"
    using sint_range(2) [of "high x"] by (intro mult_right_mono) simp_all
  then show "ival x < 2 ^ 255" using l(2) unfolding ival_def p by (simp only: distrib_right)
qed

lemma pow_256_int: "(2 :: int) ^ 256 = 2 ^ 128 * 2 ^ 128"
  by (simp only: power_add [symmetric]) simp

lemma uval_ival: "int (uval x) = ival x mod 2 ^ 256"
proof -
  have "ival x mod (2 ^ 128 * 2 ^ 128) = sint (high x) mod 2 ^ 128 * 2 ^ 128 + uint (low x)"
  proof -
    have l: "0 \<le> uint (low x)" "uint (low x) < 2 ^ 128"
      by (rule uint_u128_range)+
    have "(h * m + l) mod (m * m) = h mod m * m + l" if "0 \<le> l" "l < m" for h l m :: int
      using that by (simp add: zmod_zmult2_eq mult.commute)
    from this [OF l] show ?thesis unfolding ival_def .
  qed
  moreover have "int (uval x) = uint (high x) * 2 ^ 128 + uint (low x)" by (simp add: uval_def)
  ultimately show ?thesis by (simp only: pow_256_int uint_sint [of "high x"])
qed

lemma ival_eqI:
  assumes "int (uval x) mod 2 ^ 256 = z mod 2 ^ 256" "- (2 ^ 255) \<le> z" "z < 2 ^ 255"
  shows "ival x = z"
proof (rule mod_range_unique)
  have p: "(2 :: int) ^ 256 = 2 * 2 ^ 255" by (simp only: power_Suc [symmetric]) simp
  show "ival x mod (2 * 2 ^ 255) = z mod (2 * 2 ^ 255)"
    using assms(1) unfolding uval_ival p by (simp only: mod_mod_trivial)
qed (use ival_range assms(2,3) in blast)+

lemma ival_inj [simp]: "(ival a = ival b) = (a = b)"
proof
  assume "ival a = ival b"
  then have "int (uval a) = int (uval b)" by (simp only: uval_ival)
  then show "a = b" by simp
qed simp

lemma uval_of_ival: "int (uval (of_ival z)) = z mod 2 ^ 256"
proof -
  have "nat (z mod 2 ^ 256) < 2 ^ 256" by (simp add: nat_less_iff)
  then have "uval (of_ival z) = nat (z mod 2 ^ 256)" unfolding of_ival_def by (rule uval_of_val_small)
  then show ?thesis by simp
qed

lemma ival_of_ival: "- (2 ^ 255) \<le> z \<Longrightarrow> z < 2 ^ 255 \<Longrightarrow> ival (of_ival z) = z"
  by (rule ival_eqI) (simp only: uval_of_ival mod_mod_trivial)

text \<open>A pair of words is the one of every integer with the same residue.\<close>

lemma eq_of_ival: "int (uval x) mod 2 ^ 256 = z mod 2 ^ 256 \<Longrightarrow> x = of_ival z"
proof -
  assume "int (uval x) mod 2 ^ 256 = z mod 2 ^ 256"
  then have "int (uval x) = int (uval (of_ival z))"
    using uval_ival [of x] by (simp only: uval_of_ival mod_mod_trivial)
  then show ?thesis by simp
qed

lemma of_ival_ival [simp]: "of_ival (ival x) = x"
  by (rule eq_of_ival [symmetric]) (simp only: uval_ival mod_mod_trivial)

lemma is_negative_ival: "is_negative a = (ival a < 0)"
proof -
  have l: "0 \<le> uint (low a)" "uint (low a) < 2 ^ 128"
    by (rule uint_u128_range)+
  have "(h * m + l < 0) = (h < 0)" if "0 \<le> l" "l < m" for h l m :: int
  proof
    assume "h < 0"
    then have "(h + 1) * m \<le> 0 * m" using that by (intro mult_right_mono) simp_all
    then show "h * m + l < 0" using that by (simp add: distrib_right)
  next
    assume "h * m + l < 0"
    then show "h < 0" using that by (smt (verit) mult_nonneg_nonneg)
  qed
  from this [OF l] show ?thesis by (simp only: is_negative_def ival_def)
qed

lemma int_pair_less:
  "0 \<le> l \<Longrightarrow> l < m \<Longrightarrow> 0 \<le> l' \<Longrightarrow> l' < m \<Longrightarrow> (h * m + l < h' * m + l') = (h < h' \<or> h = h' \<and> l < l')"
  for h h' l l' m :: int
proof -
  assume l: "0 \<le> l" "l < m" "0 \<le> l'" "l' < m"
  have less: "x * m + i < y * m + j" if "x < y" "i < m" "0 \<le> j" for x y i j
  proof -
    have "(x + 1) * m \<le> y * m" using that(1) l by (intro mult_right_mono) simp_all
    with that(2,3) show ?thesis by (simp add: distrib_right)
  qed
  show ?thesis
  proof (cases h h' rule: linorder_cases)
    case less
    then show ?thesis using \<open>\<And>x y i j. x < y \<Longrightarrow> i < m \<Longrightarrow> 0 \<le> j \<Longrightarrow> x * m + i < y * m + j\<close> l by simp
  next
    case greater
    then have "h' * m + l' < h * m + l" using less l by simp
    then show ?thesis using greater by simp
  qed simp
qed

lemma i256_less_ival: "i256_less a b = (ival a < ival b)"
proof -
  have l: "0 \<le> uint (low x)" "uint (low x) < 2 ^ 128" for x :: U256
    by (rule uint_u128_range)+
  show ?thesis
    unfolding i256_less_def ival_def int_pair_less [OF l l]
    by (simp only: word_less_def) (metis signed_word_eqI)
qed

section \<open>Shift, sign and negation\<close>

lemma two_digit_div_int:
  fixes m k c h l :: int
  assumes "m = k * c" "0 < k" "0 < c"
  shows "h div k * m + (h * c mod m + l div k) = (h * m + l) div k"
proof -
  have "h * m + l = h * c * k + l" by (simp only: assms(1) mult.assoc mult.commute [of k])
  then have "(h * m + l) div k = (h * c * k + l) div k" by (simp only:)
  also have "\<dots> = h * c + l div k" using assms(2) by simp
  also have "h * c = h div k * m + h * c mod m"
  proof -
    have "h * c div (k * c) = h div k" using assms(3) by simp
    then show ?thesis using div_mult_mod_eq [of "h * c" m] by (simp only: assms(1))
  qed
  finally show ?thesis by (simp only: add.assoc)
qed

lemma uint_shr_or_shl:
  fixes x y :: u128
  assumes "n < 128"
  shows "uint (drop_bit n x OR push_bit (128 - n) y) = sint y * 2 ^ (128 - n) mod 2 ^ 128 + uint x div 2 ^ n"
proof -
  have p: "(2 :: nat) ^ 128 = 2 ^ n * 2 ^ (128 - n)" using pow_128_split [of n] assms by simp
  have "unat (drop_bit n x) < 2 ^ (128 - n)"
    unfolding unat_shr by (rule less_mult_imp_div_less) (simp only: p [symmetric] mult.commute unat_u128_less)
  then have "unat (drop_bit n x OR push_bit (128 - n) y) = unat y * 2 ^ (128 - n) mod 2 ^ 128 + unat x div 2 ^ n"
    using unat_or_shl [of "128 - n" "drop_bit n x" y] by (simp only: unat_shr or.commute diff_le_self)
  then have "uint (drop_bit n x OR push_bit (128 - n) y) = uint y * 2 ^ (128 - n) mod 2 ^ 128 + uint x div 2 ^ n"
    by (simp only: uint_nat of_nat_add of_nat_mult of_nat_power of_nat_numeral of_nat_mod of_nat_div)
  then show ?thesis by (simp only: uint_sint [of y] mod_mult_left_eq)
qed

lemma pow2_split_int: "k \<le> n \<Longrightarrow> (2 :: int) ^ n = 2 ^ k * 2 ^ (n - k)"
  by (simp only: power_add [symmetric] le_add_diff_inverse)

lemma sint_shift: "sint (signed_drop_bit n x) = sint x div 2 ^ n" for x :: u128
  by (simp only: sint_signed_drop_bit_eq drop_bit_eq_div)

lemma mod_negative: "- m \<le> q \<Longrightarrow> q < 0 \<Longrightarrow> q mod m = q + m" for q m :: int
  by (metis add.commute add_0 add_le_cancel_left add.right_neutral less_add_same_cancel1 mod_add_self2
      mod_pos_pos_trivial neg_le_iff_le minus_le_iff le_add_same_cancel2 diff_ge_0_iff_ge
      add.inverse_inverse diff_minus_eq_add add_less_same_cancel2)

text \<open>The arithmetic shift divides, rounding down.\<close>

lemma sar3_val:
  assumes "b < 256"
  shows "ival (sar3 a b) = ival a div 2 ^ b"
proof (cases "b < 128")
  case True
  have "ival (sar3 a b) = sint (high a) div 2 ^ b * 2 ^ 128 + (sint (high a) * 2 ^ (128 - b) mod 2 ^ 128 + uint (low a) div 2 ^ b)"
    if "b \<noteq> 0"
    using True that
    by (simp only: sar3_def if_True if_False ival_def U256.sel uint_shr_or_shl sint_shift)
  moreover have "\<dots> = ival a div 2 ^ b" unfolding ival_def
    by (rule two_digit_div_int) (use pow2_split_int [of b 128] True in simp_all)
  ultimately show ?thesis by (cases "b = 0") (simp_all add: sar3_def)
next
  case False
  then have b: "b AND 0x7f = b - 128" using assms unfolding and_7f by (simp add: mod_if)
  define h where "h = sint (high a)"
  have h: "- (2 ^ 127) \<le> h" "h < 2 ^ 127" unfolding h_def by (rule sint_range)+
  have "ival a div 2 ^ b = ival a div 2 ^ 128 div 2 ^ (b - 128)"
    using pow2_split_int [of 128 b] False by (simp only: not_less zdiv_zmult2_eq zero_le_power zero_le_numeral)
  also have "ival a div 2 ^ 128 = h"
    using uint_u128_range [of "low a"] by (simp add: ival_def h_def)
  finally have v: "ival a div 2 ^ b = h div 2 ^ (b - 128)" .
  define q where "q = h div 2 ^ (b - 128)"
  have q: "- (2 ^ 127) \<le> q" "q < 2 ^ 127" "q < 0 \<longleftrightarrow> h < 0"
  proof -
    have p: "1 \<le> (2 :: int) ^ (b - 128)" by simp
    show "q < 0 \<longleftrightarrow> h < 0" unfolding q_def by (simp add: div_neg_pos_less0 pos_imp_zdiv_neg_iff)
    then show "q < 2 ^ 127"
    proof (cases "h < 0")
      case False
      then have "q \<le> h" unfolding q_def using zdiv_mono2 [OF _ _ p, of h] by simp
      with h show ?thesis by linarith
    qed simp
    show "- (2 ^ 127) \<le> q"
    proof (cases "h < 0")
      case True
      have "h div 1 \<le> h div 2 ^ (b - 128)" using True p by (intro zdiv_mono2_neg) simp_all
      with h show ?thesis by (simp add: q_def)
    qed (use \<open>q < 0 \<longleftrightarrow> h < 0\<close> in simp)
  qed
  have sign: "h div 2 ^ 127 = (if q < 0 then - 1 else 0)"
  proof (cases "h < 0")
    case True
    then have "h div 2 ^ 127 = - 1" using h(1) by (intro int_div_pos_eq [of _ _ _ "h + 2 ^ 127"]) simp_all
    with True q(3) show ?thesis by simp
  qed (use h q(3) in \<open>simp add: div_pos_pos_trivial\<close>)
  have "ival (sar3 a b) = h div 2 ^ 127 * 2 ^ 128 + q mod 2 ^ 128"
    using False
    by (simp add: sar3_def ival_def b sint_shift h_def q_def uint_sint)
  also have "\<dots> = q"
  proof (cases "q < 0")
    case True
    then have "q mod 2 ^ 128 = q + 2 ^ 128" using q(1) by (intro mod_negative) simp_all
    then show ?thesis unfolding sign if_P [OF True] by simp
  next
    case False
    then have "q mod 2 ^ 128 = q" using q(2) by (intro mod_pos_pos_trivial) simp_all
    then show ?thesis unfolding sign if_not_P [OF False] by simp
  qed
  finally show ?thesis by (simp only: v q_def)
qed

text \<open>\<open>a >> 255\<close> is the sign: all ones for a negative number, zero otherwise.\<close>

lemma uint_minus_one: "uint (- 1 :: u128) = 2 ^ 128 - 1"
  by (simp only: uint_nat unat_max) simp

lemma ival_consts [simp]: "ival U256_ZERO = 0" "ival U256_ONE = 1" "ival I256_MINUS_ONE = - 1"
  by (simp_all add: ival_def U256_ZERO_def U256_ONE_def I256_MINUS_ONE_def uint_minus_one)

lemma sign_word: "sar3 a 255 = (if ival a < 0 then I256_MINUS_ONE else U256_ZERO)"
proof -
  have "ival a div 2 ^ 255 = (if ival a < 0 then - 1 else 0)"
  proof (cases "ival a < 0")
    case True
    then show ?thesis
      using ival_range(1) [of a] by (simp only: if_True) (intro int_div_pos_eq [of _ _ _ "ival a + 2 ^ 255"], simp_all)
  qed (use ival_range(2) [of a] in \<open>simp add: div_pos_pos_trivial\<close>)
  then have "ival (sar3 a 255) = ival (if ival a < 0 then I256_MINUS_ONE else U256_ZERO)"
    by (subst sar3_val) simp_all
  then show ?thesis by (simp only: ival_inj)
qed

lemma unat_not: "unat (NOT x) = 2 ^ 128 - 1 - unat x" for x :: u128
proof -
  have n: "NOT x = - 1 - x" by (simp add: not_eq_complement)
  have "unat x \<le> unat (- 1 :: u128)" using unat_u128_less [of x] unfolding unat_max by simp
  then show ?thesis unfolding n by (simp add: unat_sub word_le_nat_alt unat_max)
qed

lemma uval_not: "uval (u256_not x) = 2 ^ 256 - 1 - uval x"
  using unat_u128_less [of "high x"] unat_u128_less [of "low x"]
  by (simp add: u256_not_def uval_def unat_not diff_mult_distrib)

lemma xor_words: "u256_xor x U256_ZERO = x" "u256_xor x I256_MINUS_ONE = u256_not x"
  by (simp_all add: u256_xor_def u256_not_def U256_ZERO_def I256_MINUS_ONE_def)

lemma uval_minus_one: "uval I256_MINUS_ONE = 2 ^ 256 - 1"
  by (simp add: I256_MINUS_ONE_def uval_def unat_max)

lemma int_uval_diff: "int ((2 ^ 256 + uval x - uval y) mod 2 ^ 256) = (ival x - ival y) mod 2 ^ 256"
proof -
  have "int ((2 ^ 256 + uval x - uval y) mod 2 ^ 256) = (int (2 ^ 256 + uval x - uval y)) mod 2 ^ 256"
    by (simp only: of_nat_mod of_nat_power of_nat_numeral)
  also have "int (2 ^ 256 + uval x - uval y) = 2 ^ 256 + int (uval x) - int (uval y)"
    using uval_less [of y] by (simp add: of_nat_diff)
  also have "\<dots> mod 2 ^ 256 = (int (uval x) - int (uval y)) mod 2 ^ 256"
    by (metis add_diff_eq mod_add_self1)
  finally show ?thesis unfolding uval_ival by (simp only: mod_diff_eq)
qed

text \<open>Wrapping operations keep the residue of the integer result.\<close>

lemma sub3_ival: "sub3 a b = of_ival (ival a - ival b)"
  by (rule eq_of_ival) (simp only: sub3_val int_uval_diff mod_mod_trivial)

lemma add3_ival: "add3 a b = of_ival (ival a + ival b)"
proof (rule eq_of_ival)
  have "int (uval (add3 a b)) = (int (uval a) + int (uval b)) mod 2 ^ 256"
    by (simp only: add3_val of_nat_mod of_nat_add of_nat_power of_nat_numeral)
  then show "int (uval (add3 a b)) mod 2 ^ 256 = (ival a + ival b) mod 2 ^ 256"
    unfolding uval_ival by (simp only: mod_add_eq mod_mod_trivial)
qed

lemma of_val_mult_ival: "of_val (uval a * uval b) = of_ival (ival a * ival b)"
proof (rule eq_of_ival)
  have "int (uval (of_val (uval a * uval b))) = (int (uval a) * int (uval b)) mod 2 ^ 256"
    by (simp only: uval_of_val of_nat_mod of_nat_mult of_nat_power of_nat_numeral)
  then show "int (uval (of_val (uval a * uval b))) mod 2 ^ 256 = (ival a * ival b) mod 2 ^ 256"
    unfolding uval_ival by (simp only: mod_mult_eq mod_mod_trivial)
qed

lemma mul3_ival: "mul3 a b = Ok (of_ival (ival a * ival b))"
  unfolding mul3_val of_val_mult_ival ..

lemma not_ival: "u256_not x = of_ival (- 1 - ival x)"
proof -
  have "(m + (m - 1) - u) mod m = m - 1 - u" if "u < m" for m u :: nat
  proof -
    have "m + (m - 1) - u = (m - 1 - u) + m" "m - 1 - u < m" using that by linarith+
    then show ?thesis by (simp only: mod_add_self2 mod_less)
  qed
  from this [OF uval_less [of x]] have "uval (u256_not x) = uval (sub3 I256_MINUS_ONE x)"
    by (simp only: uval_not sub3_val uval_minus_one)
  then show ?thesis by (simp only: uval_inj sub3_ival ival_consts)
qed

lemma ival_of_ival_mod: "ival (of_ival z) mod 2 ^ 256 = z mod 2 ^ 256"
  by (simp only: uval_ival [symmetric] uval_of_ival)

lemma of_ival_diff: "of_ival (ival (of_ival z) - w) = of_ival (z - w)"
proof -
  have "(ival (of_ival z) - w) mod 2 ^ 256 = (z - w) mod 2 ^ 256"
    by (rule mod_diff_cong [OF ival_of_ival_mod refl])
  then show ?thesis unfolding of_ival_def [of "z - w"] of_ival_def [of "_ - w"] by (simp only:)
qed

lemma cond_neg:
  "sub3 (u256_xor x (if neg then I256_MINUS_ONE else U256_ZERO)) (if neg then I256_MINUS_ONE else U256_ZERO)
    = of_ival (if neg then - ival x else ival x)"
  using of_ival_diff [of "- 1 - ival x" "- 1"] by (cases neg) (simp_all add: xor_words not_ival sub3_ival)

text \<open>The magnitude of a number, as every signed routine computes it.\<close>

lemma magnitude: "sub3 (u256_xor a (sar3 a 255)) (sar3 a 255) = of_ival \<bar>ival a\<bar>"
  unfolding sign_word cond_neg [of a "ival a < 0"] abs_if by (cases "ival a < 0") simp_all

lemma abs_ival: "\<bar>ival a\<bar> \<le> 2 ^ 255"
  using ival_range [of a] by (simp only: abs_le_iff) linarith

lemma uval_magnitude: "uval (of_ival \<bar>ival a\<bar>) = nat \<bar>ival a\<bar>"
proof -
  have "\<bar>ival a\<bar> < 2 ^ 256" by (rule le_less_trans [OF abs_ival]) simp
  then have "int (uval (of_ival \<bar>ival a\<bar>)) = \<bar>ival a\<bar>"
    unfolding uval_of_ival by (intro mod_pos_pos_trivial) simp_all
  then show ?thesis by simp
qed

lemma of_ival_uminus: "of_ival (- ival (of_ival z)) = of_ival (- z)"
proof -
  have "(- (ival (of_ival z) mod 2 ^ 256)) mod 2 ^ 256 = (- (z mod 2 ^ 256)) mod 2 ^ 256"
    by (simp only: ival_of_ival_mod)
  then have "(- ival (of_ival z)) mod 2 ^ 256 = (- z) mod 2 ^ 256" by (simp only: mod_minus_eq)
  then show ?thesis unfolding of_ival_def [of "- z"] of_ival_def [of "- ival _"] by (simp only:)
qed

lemma of_val_of_ival: "of_val n = of_ival (int n)"
  by (rule eq_of_ival) (simp only: uval_of_val of_nat_mod of_nat_power of_nat_numeral mod_mod_trivial)

lemma apply_sign:
  "sub3 (u256_xor (of_ival z) (if neg then I256_MINUS_ONE else U256_ZERO)) (if neg then I256_MINUS_ONE else U256_ZERO)
    = of_ival (if neg then - z else z)"
  unfolding cond_neg by (simp add: of_ival_uminus)

lemma sign_product:
  "u256_xor (sar3 b 255) (sar3 a 255) = (if (ival a < 0) \<noteq> (ival b < 0) then I256_MINUS_ONE else U256_ZERO)"
  by (simp add: sign_word u256_xor_def U256_ZERO_def I256_MINUS_ONE_def)

text \<open>Signed division truncates, and the remainder has the sign of the dividend.\<close>

lemma idivmod4_val:
  "idivmod4 a b =
    (if b = U256_ZERO then Trap else Ok (of_ival (ival a sdiv ival b), of_ival (ival a smod ival b)))"
proof -
  define x y where "x = ival a" and "y = ival b"
  have z: "(b = U256_ZERO) = (nat \<bar>y\<bar> = 0)"
    using ival_inj [of b U256_ZERO] unfolding y_def by simp
  have d: "int (nat \<bar>x\<bar> div nat \<bar>y\<bar>) = \<bar>x\<bar> div \<bar>y\<bar>" "int (nat \<bar>x\<bar> mod nat \<bar>y\<bar>) = \<bar>x\<bar> mod \<bar>y\<bar>"
    by (simp_all add: zdiv_int zmod_int)
  have s: "(if (x < 0) \<noteq> (y < 0) then - (\<bar>x\<bar> div \<bar>y\<bar>) else \<bar>x\<bar> div \<bar>y\<bar>) = x sdiv y"
    by (auto simp: signed_divide_int_def sgn_if)
  have r: "(if x < 0 then - (\<bar>x\<bar> mod \<bar>y\<bar>) else \<bar>x\<bar> mod \<bar>y\<bar>) = x smod y"
    by (auto simp: signed_modulo_int_def sgn_if)
  show ?thesis
    unfolding idivmod4_def Let_def magnitude sign_product
    unfolding sign_word [of a] udivmod4_val uval_magnitude of_val_of_ival
    unfolding x_def [symmetric] y_def [symmetric] d z
    by (simp only: if_distrib [of "\<lambda>m. bnd m _"] bnd_simps prod.case apply_sign s r)
qed

section \<open>Overflow\<close>

definition in_range :: "int \<Rightarrow> bool" where
  "in_range z \<longleftrightarrow> - (2 ^ 255) \<le> z \<and> z < 2 ^ 255"

lemma ival_in_range [simp]: "in_range (ival a)"
  unfolding in_range_def using ival_range by blast

lemma ival_of_in_range: "in_range z \<Longrightarrow> ival (of_ival z) = z"
  unfolding in_range_def by (blast intro: ival_of_ival)

text \<open>A sum of two numbers in range, wrapped.\<close>

lemma ival_wrapped:
  assumes "- (2 ^ 256) \<le> z" "z < 2 ^ 256"
  shows "ival (of_ival z) = (if z < - (2 ^ 255) then z + 2 ^ 256 else if z < 2 ^ 255 then z else z - 2 ^ 256)"
proof (rule ival_eqI)
  have "(z + 2 ^ 256) mod 2 ^ 256 = z mod 2 ^ 256" "(z - 2 ^ 256) mod 2 ^ 256 = z mod 2 ^ 256"
    by (simp_all only: mod_add_self2 minus_mod_self2)
  then show "int (uval (of_ival z)) mod 2 ^ 256 =
      (if z < - (2 ^ 255) then z + 2 ^ 256 else if z < 2 ^ 255 then z else z - 2 ^ 256) mod 2 ^ 256"
    unfolding uval_of_ival mod_mod_trivial by (simp only: refl split: if_split) simp
qed (use assms in \<open>simp_all split: if_split\<close>)

lemma iaddc_val: "iaddc a b = (of_ival (ival a + ival b), \<not> in_range (ival a + ival b))"
proof -
  note r = ival_range [of a] ival_range [of b]
  have "ival (of_ival (ival a + ival b)) = (if ival a + ival b < - (2 ^ 255) then ival a + ival b + 2 ^ 256
      else if ival a + ival b < 2 ^ 255 then ival a + ival b else ival a + ival b - 2 ^ 256)"
    by (rule ival_wrapped) (use r in simp_all)
  then show ?thesis using r
    by (simp add: iaddc_def Let_def add3_ival i256_less_ival in_range_def split: if_splits)
qed

lemma isubc_val: "isubc a b = (of_ival (ival a - ival b), \<not> in_range (ival a - ival b))"
proof -
  note r = ival_range [of a] ival_range [of b]
  have "ival (of_ival (ival a - ival b)) = (if ival a - ival b < - (2 ^ 255) then ival a - ival b + 2 ^ 256
      else if ival a - ival b < 2 ^ 255 then ival a - ival b else ival a - ival b - 2 ^ 256)"
    by (rule ival_wrapped) (use r in simp_all)
  then show ?thesis using r
    by (simp add: isubc_def Let_def sub3_ival i256_less_ival in_range_def split: if_splits)
qed

text \<open>
  The overflow test of the product divides the bound by one magnitude and compares with the other; the
  smallest number, whose magnitude does not fit, is treated apart.
\<close>

lemma abs_sdiv_le: "\<bar>x sdiv y\<bar> \<le> \<bar>x\<bar> div \<bar>y\<bar>" for x y :: int
proof -
  have "0 \<le> \<bar>x\<bar> div \<bar>y\<bar>" by (cases "y = 0") (simp_all add: pos_imp_zdiv_nonneg_iff)
  then have "\<bar>x sdiv y\<bar> = \<bar>sgn x\<bar> * \<bar>sgn y\<bar> * (\<bar>x\<bar> div \<bar>y\<bar>)"
    unfolding signed_divide_int_def by (simp only: abs_mult abs_of_nonneg)
  with \<open>0 \<le> \<bar>x\<bar> div \<bar>y\<bar>\<close> show ?thesis by (simp add: abs_sgn_eq)
qed

lemma sdiv_small: "in_range x \<Longrightarrow> 2 \<le> \<bar>y\<bar> \<Longrightarrow> in_range (x sdiv y)"
proof -
  assume x: "in_range x" and y: "2 \<le> \<bar>y\<bar>"
  note abs_sdiv_le [of x y]
  also have "\<bar>x\<bar> div \<bar>y\<bar> \<le> \<bar>x\<bar> div 2" by (rule zdiv_mono2 [OF _ _ y]) simp_all
  also have "\<bar>x\<bar> div 2 \<le> 2 ^ 255 div 2" by (rule zdiv_mono1) (use x in \<open>auto simp: in_range_def\<close>)
  finally show ?thesis unfolding in_range_def by (simp add: abs_le_iff)
qed

lemma i256_div_val: "i256_div a b = (if b = U256_ZERO then Trap else Ok (of_ival (ival a sdiv ival b)))"
  by (simp add: i256_div_def idiv3_def idivmod4_val)

lemma i256_rem_val: "i256_rem a b = (if b = U256_ZERO then Trap else Ok (of_ival (ival a smod ival b)))"
  by (simp add: i256_rem_def irem3_def idivmod4_val)

lemma i256_neg_val: "i256_neg a = of_ival (- ival a)"
  unfolding i256_neg_def add3_ival not_ival using of_ival_diff [of "- 1 - ival a" "- 1"] by simp

lemma ival_min_max [simp]: "ival I256_MIN = - (2 ^ 255)" "ival I256_MAX = 2 ^ 255 - 1"
  by (simp_all add: ival_def I256_MIN_def I256_MAX_def uint_minus_one)

lemma eq_min: "(a = I256_MIN) = (ival a = - (2 ^ 255))"
  using ival_inj [of a I256_MIN] by simp

lemma eq_zero: "(a = U256_ZERO) = (ival a = 0)" and eq_one: "(a = U256_ONE) = (ival a = 1)"
  and eq_minus_one: "(a = I256_MINUS_ONE) = (ival a = - 1)"
  using ival_inj [of a U256_ZERO] ival_inj [of a U256_ONE] ival_inj [of a I256_MINUS_ONE] by simp_all

lemma product_with_min: "in_range (- (2 ^ 255) * y) = (y = 0 \<or> y = 1)"
  unfolding in_range_def by auto

lemma quotient_exceeded: "0 < y \<Longrightarrow> (m div y < x) = (m < x * y)" for m x y :: int
proof -
  assume y: "0 < y"
  have m: "m = m div y * y + m mod y" "0 \<le> m mod y" "m mod y < y" using y by simp_all
  show ?thesis
  proof
    assume "m div y < x"
    then have "(m div y + 1) * y \<le> x * y" using y by (intro mult_right_mono) simp_all
    then show "m < x * y" using m by (simp only: distrib_right)
  next
    assume "m < x * y"
    then have "m div y * y < x * y" using m by linarith
    then show "m div y < x" using y by simp
  qed
qed

text \<open>The quotients the overflow test compares with.\<close>

lemma limit_quotients:
  assumes "2 \<le> y" "y < 2 ^ 255"
  shows "i256_div I256_MAX (of_ival y) = Ok (of_ival ((2 ^ 255 - 1) div y))"
    "i256_div I256_MIN (i256_neg (of_ival y)) = Ok (of_ival (2 ^ 255 div y))"
    "ival (of_ival ((2 ^ 255 - 1) div y)) = (2 ^ 255 - 1) div y"
    "ival (of_ival (2 ^ 255 div y)) = 2 ^ 255 div y"
proof -
  have y: "ival (of_ival y) = y" "ival (of_ival (- y)) = - y" using assms by (intro ival_of_ival; linarith)+
  have nz: "of_ival y \<noteq> U256_ZERO" "i256_neg (of_ival y) \<noteq> U256_ZERO"
    unfolding eq_zero i256_neg_val y using assms by simp_all
  have q: "(2 ^ 255 - 1) sdiv y = (2 ^ 255 - 1) div y" "- (2 ^ 255) sdiv - y = 2 ^ 255 div y"
    using assms(1) by (simp_all add: signed_divide_int_def)
  show "i256_div I256_MAX (of_ival y) = Ok (of_ival ((2 ^ 255 - 1) div y))"
    "i256_div I256_MIN (i256_neg (of_ival y)) = Ok (of_ival (2 ^ 255 div y))"
    unfolding i256_div_val using nz by (simp_all only: if_False i256_neg_val y ival_min_max q)
  have "in_range (- (2 ^ 255) sdiv - y)" "in_range ((2 ^ 255 - 1) sdiv y)"
    using assms by (intro sdiv_small; simp add: in_range_def)+
  then show "ival (of_ival ((2 ^ 255 - 1) div y)) = (2 ^ 255 - 1) div y"
    "ival (of_ival (2 ^ 255 div y)) = 2 ^ 255 div y" unfolding q by (simp_all only: ival_of_in_range)
qed

lemma in_range_magnitude:
  "0 \<le> p \<Longrightarrow> in_range p = (p \<le> 2 ^ 255 - 1)" "0 \<le> p \<Longrightarrow> in_range (- p) = (p \<le> 2 ^ 255)"
  unfolding in_range_def by auto

lemma imulc_val: "imulc a b = Ok (of_ival (ival a * ival b), \<not> in_range (ival a * ival b))"
proof -
  define x y where "x = ival a" and "y = ival b"
  have m: "mul3 a b = Ok (of_ival (x * y))" unfolding mul3_val of_val_mult_ival x_def y_def ..
  show ?thesis
  proof (cases "a = I256_MIN \<or> b = I256_MIN")
    case True
    have "in_range (- (2 ^ 255) * y) = (y = 0 \<or> y = 1)" "in_range (x * - (2 ^ 255)) = (x = 0 \<or> x = 1)"
      using product_with_min [of x] product_with_min [of y] by (simp_all add: mult.commute)
    with True show ?thesis
      unfolding imulc_def m bnd_simps eq_zero eq_one eq_min x_def [symmetric] y_def [symmetric] by auto
  next
    case False
    have r: "in_range x" "in_range y" unfolding x_def y_def by simp_all
    then have small: "\<bar>x\<bar> < 2 ^ 255" "\<bar>y\<bar> < 2 ^ 255"
      using False unfolding eq_min x_def [symmetric] y_def [symmetric] in_range_def by auto
    then have v: "ival (of_ival \<bar>x\<bar>) = \<bar>x\<bar>" "ival (of_ival \<bar>y\<bar>) = \<bar>y\<bar>"
      by (intro ival_of_ival; linarith)+
    have two: "ival (from_words 0 2) = 2" by (simp add: ival_def)
    show ?thesis
    proof (cases "\<bar>x\<bar> < 2 \<or> \<bar>y\<bar> < 2")
      case True
      have "\<bar>x * y\<bar> < 2 ^ 255"
      proof (cases "\<bar>x\<bar> < 2")
        case True
        then have "\<bar>x\<bar> * \<bar>y\<bar> \<le> 1 * \<bar>y\<bar>" by (intro mult_right_mono) simp_all
        with small(2) show ?thesis by (simp add: abs_mult)
      next
        case False
        with True have "\<bar>x\<bar> * \<bar>y\<bar> \<le> \<bar>x\<bar> * 1" by (intro mult_left_mono) simp_all
        with small(1) show ?thesis by (simp add: abs_mult)
      qed
      then have "in_range (x * y)" unfolding in_range_def by linarith
      with True False show ?thesis
        unfolding imulc_def m bnd_simps Let_def magnitude i256_less_ival two x_def [symmetric] y_def [symmetric] v
        by simp
    next
      case large: False
      then have q: "2 \<le> \<bar>y\<bar>" by simp
      have same: "(sar3 a 255 = sar3 b 255) = ((x < 0) = (y < 0))"
        by (simp add: sign_word x_def y_def U256_ZERO_def I256_MINUS_ONE_def)
      have p: "0 \<le> \<bar>x\<bar> * \<bar>y\<bar>" "0 < \<bar>y\<bar>" using q by simp_all
      have pos: "((2 ^ 255 - 1) div \<bar>y\<bar> < \<bar>x\<bar>) = (\<not> in_range (x * y))" if "(x < 0) = (y < 0)"
      proof -
        have "x * y = \<bar>x\<bar> * \<bar>y\<bar>" using that by (auto simp: abs_if)
        then show ?thesis by (simp only: quotient_exceeded [OF p(2)] in_range_magnitude [OF p(1)] not_le)
      qed
      have neg: "(2 ^ 255 div \<bar>y\<bar> < \<bar>x\<bar>) = (\<not> in_range (x * y))" if "(x < 0) \<noteq> (y < 0)"
      proof -
        have "x * y = - (\<bar>x\<bar> * \<bar>y\<bar>)" using that by (auto simp: abs_if)
        then show ?thesis by (simp only: quotient_exceeded [OF p(2)] in_range_magnitude [OF p(1)] not_le)
      qed
      show ?thesis
        using False large pos neg
        unfolding imulc_def m bnd_simps Let_def magnitude i256_less_ival two x_def [symmetric] y_def [symmetric] v
          limit_quotients [OF q small(2)] same
        by simp
    qed
  qed
qed

end
