(* ===== verification/Wide_Signed_Api.thy ===== *)
theory Wide_Signed_Api
  imports Wide_Signed
begin

text \<open>
  The arithmetic interface of the 256-bit signed integer (\<open>ethnum-patch/src/int/api.rs\<close>, \<open>int.rs\<close>):
  overflowing, checked, saturating and wrapping operations, mixed signed and unsigned addition,
  truncating and Euclidean division (the two implementations of the latter), and powers.
\<close>

section \<open>Overflowing and checked operations\<close>

definition none_if :: "'a \<times> bool \<Rightarrow> 'a option" where
  "none_if r = (if snd r then None else Some (fst r))"

definition overflowing_add_unsigned :: "I256 \<Rightarrow> U256 \<Rightarrow> I256 \<times> bool" where
  "overflowing_add_unsigned a b =
     (let (res, overflowed) = iaddc a b in (res, overflowed \<noteq> i256_less b U256_ZERO))"

definition overflowing_sub_unsigned :: "I256 \<Rightarrow> U256 \<Rightarrow> I256 \<times> bool" where
  "overflowing_sub_unsigned a b =
     (let (res, overflowed) = isubc a b in (res, overflowed \<noteq> i256_less b U256_ZERO))"

definition overflowing_add_signed :: "U256 \<Rightarrow> I256 \<Rightarrow> U256 \<times> bool" where
  "overflowing_add_signed a b =
     (let (res, overflowed) = overflowing_add256 a b in (res, overflowed \<noteq> i256_less b U256_ZERO))"

definition checked_add_i256 :: "I256 \<Rightarrow> I256 \<Rightarrow> I256 option" where
  "checked_add_i256 a b = none_if (iaddc a b)"

definition checked_sub_i256 :: "I256 \<Rightarrow> I256 \<Rightarrow> I256 option" where
  "checked_sub_i256 a b = none_if (isubc a b)"

definition checked_mul_i256 :: "I256 \<Rightarrow> I256 \<Rightarrow> ('e, I256 option) outcome" where
  "checked_mul_i256 a b = bnd (imulc a b) (\<lambda>r. Ok (none_if r))"

definition checked_add_unsigned :: "I256 \<Rightarrow> U256 \<Rightarrow> I256 option" where
  "checked_add_unsigned a b = none_if (overflowing_add_unsigned a b)"

definition checked_sub_unsigned :: "I256 \<Rightarrow> U256 \<Rightarrow> I256 option" where
  "checked_sub_unsigned a b = none_if (overflowing_sub_unsigned a b)"

definition checked_add_signed :: "U256 \<Rightarrow> I256 \<Rightarrow> U256 option" where
  "checked_add_signed a b = none_if (overflowing_add_signed a b)"

definition overflowing_neg_i256 :: "I256 \<Rightarrow> I256 \<times> bool" where
  "overflowing_neg_i256 a = (if a = I256_MIN then (I256_MIN, True) else (i256_neg a, False))"

definition checked_neg_i256 :: "I256 \<Rightarrow> I256 option" where
  "checked_neg_i256 a = none_if (overflowing_neg_i256 a)"

definition wrapping_neg_i256 :: "I256 \<Rightarrow> I256" where
  "wrapping_neg_i256 a = sub3 U256_ZERO a"

definition wrapping_abs_i256 :: "I256 \<Rightarrow> I256" where
  "wrapping_abs_i256 a = (if is_negative a then wrapping_neg_i256 a else a)"

definition unsigned_abs :: "I256 \<Rightarrow> U256" where
  "unsigned_abs a = wrapping_abs_i256 a"

definition overflowing_abs_i256 :: "I256 \<Rightarrow> I256 \<times> bool" where
  "overflowing_abs_i256 a = (wrapping_abs_i256 a, a = I256_MIN)"

definition checked_abs_i256 :: "I256 \<Rightarrow> I256 option" where
  "checked_abs_i256 a = (if is_negative a then checked_neg_i256 a else Some a)"

definition abs_i256 :: "I256 \<Rightarrow> I256" where
  "abs_i256 a = (if is_negative a then i256_neg a else a)"

definition abs_diff_i256 :: "I256 \<Rightarrow> I256 \<Rightarrow> U256" where
  "abs_diff_i256 a b = (if i256_less a b then sub3 b a else sub3 a b)"

text \<open>\<open>hi.signum() | (lo != 0) as i128\<close>, and the number with that low word.\<close>

definition signum128 :: "I256 \<Rightarrow> u128" where
  "signum128 a =
     (if sint (high a) < 0 then - 1 else if high a = 0 then 0 else 1) OR u128_of_bool (low a \<noteq> 0)"

definition i256_new :: "u128 \<Rightarrow> I256" where
  "i256_new v = from_words (signed_drop_bit 127 v) v"

definition signum_i256 :: "I256 \<Rightarrow> I256" where
  "signum_i256 a = i256_new (signum128 a)"

definition is_positive :: "I256 \<Rightarrow> bool" where
  "is_positive a \<longleftrightarrow> 0 < sint (signum128 a)"

section \<open>Saturating operations\<close>

definition saturating_add_i256 :: "I256 \<Rightarrow> I256 \<Rightarrow> I256" where
  "saturating_add_i256 a b =
     (case checked_add_i256 a b of Some x \<Rightarrow> x
      | None \<Rightarrow> if i256_less U256_ZERO b then I256_MAX else I256_MIN)"

definition saturating_sub_i256 :: "I256 \<Rightarrow> I256 \<Rightarrow> I256" where
  "saturating_sub_i256 a b =
     (case checked_sub_i256 a b of Some x \<Rightarrow> x
      | None \<Rightarrow> if i256_less U256_ZERO b then I256_MIN else I256_MAX)"

definition saturating_add_unsigned :: "I256 \<Rightarrow> U256 \<Rightarrow> I256" where
  "saturating_add_unsigned a b = unwrap_or I256_MAX (checked_add_unsigned a b)"

definition saturating_sub_unsigned :: "I256 \<Rightarrow> U256 \<Rightarrow> I256" where
  "saturating_sub_unsigned a b = unwrap_or I256_MIN (checked_sub_unsigned a b)"

definition saturating_add_signed :: "U256 \<Rightarrow> I256 \<Rightarrow> U256" where
  "saturating_add_signed a b =
     (let (res, overflow) = overflowing_add256 a b in
      if overflow = i256_less b U256_ZERO then res
      else if overflow then U256_MAX
      else U256_ZERO)"

definition saturating_neg_i256 :: "I256 \<Rightarrow> I256" where
  "saturating_neg_i256 a = saturating_sub_i256 U256_ZERO a"

definition saturating_abs_i256 :: "I256 \<Rightarrow> I256" where
  "saturating_abs_i256 a = (if is_negative a then saturating_neg_i256 a else a)"

definition saturating_mul_i256 :: "I256 \<Rightarrow> I256 \<Rightarrow> ('e, I256) outcome" where
  "saturating_mul_i256 a b =
     bnd (checked_mul_i256 a b) (\<lambda>v. Ok
       (case v of Some x \<Rightarrow> x
        | None \<Rightarrow>
            if i256_less a U256_ZERO = i256_less b U256_ZERO then I256_MAX else I256_MIN))"

section \<open>Division\<close>

definition overflowing_div_i256 :: "I256 \<Rightarrow> I256 \<Rightarrow> ('e, I256 \<times> bool) outcome" where
  "overflowing_div_i256 a b =
     (if a = I256_MIN \<and> b = I256_MINUS_ONE then Ok (a, True)
      else bnd (i256_div a b) (\<lambda>q. Ok (q, False)))"

definition overflowing_rem_i256 :: "I256 \<Rightarrow> I256 \<Rightarrow> ('e, I256 \<times> bool) outcome" where
  "overflowing_rem_i256 a b =
     (if a = I256_MIN \<and> b = I256_MINUS_ONE then Ok (U256_ZERO, True)
      else bnd (i256_rem a b) (\<lambda>r. Ok (r, False)))"

definition wrapping_div_i256 :: "I256 \<Rightarrow> I256 \<Rightarrow> ('e, I256) outcome" where
  "wrapping_div_i256 a b = bnd (overflowing_div_i256 a b) (\<lambda>(q, _). Ok q)"

definition wrapping_rem_i256 :: "I256 \<Rightarrow> I256 \<Rightarrow> ('e, I256) outcome" where
  "wrapping_rem_i256 a b = bnd (overflowing_rem_i256 a b) (\<lambda>(r, _). Ok r)"

definition checked_div_i256 :: "I256 \<Rightarrow> I256 \<Rightarrow> ('e, I256 option) outcome" where
  "checked_div_i256 a b =
     (if b = U256_ZERO \<or> a = I256_MIN \<and> b = I256_MINUS_ONE then Ok None
      else bnd (idiv3 a b) (\<lambda>q. Ok (Some q)))"

definition checked_rem_i256 :: "I256 \<Rightarrow> I256 \<Rightarrow> ('e, I256 option) outcome" where
  "checked_rem_i256 a b =
     (if b = U256_ZERO \<or> a = I256_MIN \<and> b = I256_MINUS_ONE then Ok None
      else bnd (irem3 a b) (\<lambda>r. Ok (Some r)))"

definition saturating_div_i256 :: "I256 \<Rightarrow> I256 \<Rightarrow> ('e, I256) outcome" where
  "saturating_div_i256 a b =
     bnd (overflowing_div_i256 a b) (\<lambda>(result, overflow). Ok (if overflow then I256_MAX else result))"

text \<open>Euclidean division of \<open>int/api.rs\<close>, from the truncating operators.\<close>

definition div_euclid_i256 :: "I256 \<Rightarrow> I256 \<Rightarrow> ('e, I256) outcome" where
  "div_euclid_i256 a b =
     bnd (i256_div a b) (\<lambda>q.
     bnd (i256_rem a b) (\<lambda>r. Ok
       (if i256_less r U256_ZERO then
          if i256_less U256_ZERO b then sub3 q U256_ONE else add3 q U256_ONE
        else q)))"

definition rem_euclid_i256 :: "I256 \<Rightarrow> I256 \<Rightarrow> ('e, I256) outcome" where
  "rem_euclid_i256 a b =
     bnd (i256_rem a b) (\<lambda>r. Ok
       (if i256_less r U256_ZERO then
          if i256_less b U256_ZERO then sub3 r b else add3 r b
        else r))"

definition overflowing_div_euclid_i256 :: "I256 \<Rightarrow> I256 \<Rightarrow> ('e, I256 \<times> bool) outcome" where
  "overflowing_div_euclid_i256 a b =
     (if a = I256_MIN \<and> b = I256_MINUS_ONE then Ok (a, True)
      else bnd (div_euclid_i256 a b) (\<lambda>q. Ok (q, False)))"

definition overflowing_rem_euclid_i256 :: "I256 \<Rightarrow> I256 \<Rightarrow> ('e, I256 \<times> bool) outcome" where
  "overflowing_rem_euclid_i256 a b =
     (if a = I256_MIN \<and> b = I256_MINUS_ONE then Ok (U256_ZERO, True)
      else bnd (rem_euclid_i256 a b) (\<lambda>r. Ok (r, False)))"

definition wrapping_div_euclid_i256 :: "I256 \<Rightarrow> I256 \<Rightarrow> ('e, I256) outcome" where
  "wrapping_div_euclid_i256 a b = bnd (overflowing_div_euclid_i256 a b) (\<lambda>(q, _). Ok q)"

definition wrapping_rem_euclid_i256 :: "I256 \<Rightarrow> I256 \<Rightarrow> ('e, I256) outcome" where
  "wrapping_rem_euclid_i256 a b = bnd (overflowing_rem_euclid_i256 a b) (\<lambda>(r, _). Ok r)"

definition checked_div_euclid_i256 :: "I256 \<Rightarrow> I256 \<Rightarrow> ('e, I256 option) outcome" where
  "checked_div_euclid_i256 a b =
     (if b = U256_ZERO \<or> a = I256_MIN \<and> b = I256_MINUS_ONE then Ok None
      else bnd (div_euclid_i256 a b) (\<lambda>q. Ok (Some q)))"

definition checked_rem_euclid_i256 :: "I256 \<Rightarrow> I256 \<Rightarrow> ('e, I256 option) outcome" where
  "checked_rem_euclid_i256 a b =
     (if b = U256_ZERO \<or> a = I256_MIN \<and> b = I256_MINUS_ONE then Ok None
      else bnd (rem_euclid_i256 a b) (\<lambda>r. Ok (Some r)))"

text \<open>
  Division with remainder of \<open>int.rs\<close>. The Euclidean one divides the magnitudes as unsigned numbers and
  corrects the signs afterwards; reaching its unreachable mark is modelled as a trap.
\<close>

definition wrapping_div_rem :: "I256 \<Rightarrow> I256 \<Rightarrow> ('e, I256 \<times> I256) outcome" where
  "wrapping_div_rem a b = (if b = U256_ZERO then Trap else idivmod4 a b)"

definition div_rem_i256 :: "I256 \<Rightarrow> I256 \<Rightarrow> ('e, I256 \<times> I256) outcome" where
  "div_rem_i256 a b = (if a = I256_MIN \<and> b = I256_MINUS_ONE then Trap else wrapping_div_rem a b)"

definition wrapping_div_rem_euclid :: "I256 \<Rightarrow> I256 \<Rightarrow> ('e, I256 \<times> I256) outcome" where
  "wrapping_div_rem_euclid a b =
     (let dividend_sign = is_negative a; quotient_sign = (dividend_sign \<noteq> is_negative b);
          abs_dividend = unsigned_abs a; abs_divisor = unsigned_abs b in
      bnd (div_rem256 abs_dividend abs_divisor) (\<lambda>(quotient, r).
      let adjust_remainder = (dividend_sign \<and> r \<noteq> U256_ZERO);
          remainder = (if adjust_remainder then sub3 abs_divisor r else r) in
      if is_negative remainder \<or> abs_divisor \<le> remainder then Trap
      else Ok
        (if adjust_remainder then
           if quotient_sign then u256_not quotient else add3 quotient U256_ONE
         else if quotient_sign then wrapping_neg_i256 quotient
         else quotient, remainder)))"

definition div_rem_euclid_i256 :: "I256 \<Rightarrow> I256 \<Rightarrow> ('e, I256 \<times> I256) outcome" where
  "div_rem_euclid_i256 a b =
     (if a = I256_MIN \<and> b = I256_MINUS_ONE then Trap else wrapping_div_rem_euclid a b)"

definition checked_div_rem_i256 :: "I256 \<Rightarrow> I256 \<Rightarrow> ('e, (I256 \<times> I256) option) outcome" where
  "checked_div_rem_i256 a b =
     (if b = U256_ZERO \<or> a = I256_MIN \<and> b = I256_MINUS_ONE then Ok None
      else bnd (idivmod4 a b) (\<lambda>qr. Ok (Some qr)))"

definition checked_div_rem_euclid_i256 :: "I256 \<Rightarrow> I256 \<Rightarrow> ('e, (I256 \<times> I256) option) outcome" where
  "checked_div_rem_euclid_i256 a b =
     (if b = U256_ZERO \<or> a = I256_MIN \<and> b = I256_MINUS_ONE then Ok None
      else bnd (wrapping_div_rem_euclid a b) (\<lambda>qr. Ok (Some qr)))"

definition overflowing_div_rem :: "I256 \<Rightarrow> I256 \<Rightarrow> ('e, I256 \<times> I256 \<times> bool) outcome" where
  "overflowing_div_rem a b =
     (if a = I256_MIN \<and> b = I256_MINUS_ONE then Ok (a, U256_ZERO, True)
      else bnd (wrapping_div_rem a b) (\<lambda>(q, r). Ok (q, r, False)))"

definition overflowing_div_rem_euclid :: "I256 \<Rightarrow> I256 \<Rightarrow> ('e, I256 \<times> I256 \<times> bool) outcome" where
  "overflowing_div_rem_euclid a b =
     (if a = I256_MIN \<and> b = I256_MINUS_ONE then Ok (a, U256_ZERO, True)
      else bnd (wrapping_div_rem_euclid a b) (\<lambda>(q, r). Ok (q, r, False)))"

definition saturating_div_rem :: "I256 \<Rightarrow> I256 \<Rightarrow> ('e, I256 \<times> I256) outcome" where
  "saturating_div_rem a b =
     bnd (overflowing_div_rem a b) (\<lambda>(q, r, overflow). Ok (if overflow then I256_MAX else q, r))"

definition saturating_div_rem_euclid :: "I256 \<Rightarrow> I256 \<Rightarrow> ('e, I256 \<times> I256) outcome" where
  "saturating_div_rem_euclid a b =
     bnd (overflowing_div_rem_euclid a b) (\<lambda>(q, r, overflow). Ok (if overflow then I256_MAX else q, r))"

section \<open>Values\<close>

text \<open>The number in range, if the result is one.\<close>

definition fits :: "int \<Rightarrow> I256 option" where
  "fits z = (if in_range z then Some (of_ival z) else None)"

definition ufits :: "int \<Rightarrow> U256 option" where
  "ufits z = (if 0 \<le> z \<and> z < 2 ^ 256 then Some (of_ival z) else None)"

lemma none_if_fits [simp]: "none_if (of_ival z, \<not> in_range z) = fits z"
  by (simp add: none_if_def fits_def)

lemma of_ival_add_modulus: "of_ival (z + 2 ^ 256) = of_ival z"
  unfolding of_ival_def by (simp only: mod_add_self2)

lemma uval_signed: "int (uval b) = (if ival b < 0 then ival b + 2 ^ 256 else ival b)"
proof (cases "ival b < 0")
  case True
  then have "ival b mod 2 ^ 256 = ival b + 2 ^ 256"
    using ival_range(1) [of b] by (intro mod_negative) simp_all
  with True show ?thesis by (simp only: uval_ival if_True)
next
  case False
  then have "ival b mod 2 ^ 256 = ival b"
    using ival_range(2) [of b] by (intro mod_pos_pos_trivial) simp_all
  with False show ?thesis by (simp only: uval_ival if_False)
qed

lemma of_ival_uval: "of_ival (z + int (uval b)) = of_ival (z + ival b)" "of_ival (z - int (uval b)) = of_ival (z - ival b)"
  using of_ival_add_modulus [of "z + ival b"] of_ival_add_modulus [of "z - (ival b + 2 ^ 256)"]
  by (simp_all add: uval_signed algebra_simps)

lemma overflowing_unsigned_val:
  "overflowing_add_unsigned a b = (of_ival (ival a + int (uval b)), \<not> in_range (ival a + int (uval b)))"
  "overflowing_sub_unsigned a b = (of_ival (ival a - int (uval b)), \<not> in_range (ival a - int (uval b)))"
proof -
  note r = ival_range [of a] ival_range [of b]
  have "(\<not> in_range (ival a + ival b)) \<noteq> (ival b < 0) \<longleftrightarrow> \<not> in_range (ival a + int (uval b))"
    "(\<not> in_range (ival a - ival b)) \<noteq> (ival b < 0) \<longleftrightarrow> \<not> in_range (ival a - int (uval b))"
    using r unfolding in_range_def uval_signed by (auto split: if_splits)
  then show "overflowing_add_unsigned a b = (of_ival (ival a + int (uval b)), \<not> in_range (ival a + int (uval b)))"
    "overflowing_sub_unsigned a b = (of_ival (ival a - int (uval b)), \<not> in_range (ival a - int (uval b)))"
    unfolding overflowing_add_unsigned_def overflowing_sub_unsigned_def iaddc_val isubc_val i256_less_ival of_ival_uval
    by simp_all
qed

lemma overflowing_add_signed_val:
  "overflowing_add_signed a b
    = (of_ival (int (uval a) + ival b), \<not> (0 \<le> int (uval a) + ival b \<and> int (uval a) + ival b < 2 ^ 256))"
proof -
  define u where "u = int (uval a)"
  have u: "0 \<le> u" "u < 2 ^ 256" using uval_less [of a] unfolding u_def by simp_all
  have "(2 ^ 256 \<le> uval a + uval b) = (2 ^ 256 \<le> u + int (uval b))"
    using of_nat_le_iff [of "2 ^ 256" "uval a + uval b", where ?'a = int] by (simp add: u_def)
  then have "(2 ^ 256 \<le> uval a + uval b) \<noteq> (ival b < 0) \<longleftrightarrow> \<not> (0 \<le> u + ival b \<and> u + ival b < 2 ^ 256)"
    using u ival_range [of b] unfolding uval_signed by (auto split: if_splits)
  moreover have "of_val (uval a + uval b) = of_ival (u + ival b)"
    unfolding of_val_of_ival u_def of_ival_uval [symmetric] by simp
  ultimately show ?thesis
    unfolding overflowing_add_signed_def overflowing_add256_def uaddc_of_val i256_less_ival u_def by simp
qed

lemma wrapping_neg_val: "wrapping_neg_i256 a = of_ival (- ival a)"
  by (simp add: wrapping_neg_i256_def sub3_ival)

lemma unsigned_abs_val: "unsigned_abs a = of_ival \<bar>ival a\<bar>" "uval (unsigned_abs a) = nat \<bar>ival a\<bar>"
proof -
  show "unsigned_abs a = of_ival \<bar>ival a\<bar>"
    by (simp add: unsigned_abs_def wrapping_abs_i256_def is_negative_ival wrapping_neg_val abs_if)
  then show "uval (unsigned_abs a) = nat \<bar>ival a\<bar>" by (simp only: uval_magnitude)
qed

lemma eq_min_minus_one: "(a = I256_MIN \<and> b = I256_MINUS_ONE) = (ival a = - (2 ^ 255) \<and> ival b = - 1)"
  by (simp only: eq_min eq_minus_one)

text \<open>The only quotient out of range is the one of the smallest number by minus one.\<close>

lemma sdiv_in_range: "in_range x \<Longrightarrow> in_range (x sdiv y) = (\<not> (x = - (2 ^ 255) \<and> y = - 1))"
proof -
  assume x: "in_range x"
  consider "2 \<le> \<bar>y\<bar>" | "y = 0" | "y = 1" | "y = - 1" by linarith
  then show ?thesis
  proof cases
    case 1
    then show ?thesis using sdiv_small [OF x] by auto
  next
    case 4
    have "x sdiv - 1 = - x" by (simp add: signed_divide_int_def sgn_if abs_if)
    then show ?thesis using x 4 unfolding in_range_def by auto
  qed (use x in \<open>auto simp: signed_divide_int_def in_range_def sgn_if abs_if\<close>)
qed

lemma checked_div_i256_val:
  "checked_div_i256 a b = Ok (if ival b = 0 then None else fits (ival a sdiv ival b))"
  unfolding checked_div_i256_def idiv3_def idivmod4_val eq_min_minus_one eq_zero fits_def
    sdiv_in_range [OF ival_in_range]
  by simp

section \<open>Euclidean division\<close>

definition euclid_quotient :: "int \<Rightarrow> int \<Rightarrow> int" where
  "euclid_quotient x y = sgn y * (x div \<bar>y\<bar>)"

lemma negative_dividend:
  fixes x m :: int
  assumes "x < 0" "0 < m"
  shows "x div m = (if - x mod m = 0 then - (- x div m) else - (- x div m) - 1)"
    "x mod m = (if - x mod m = 0 then 0 else m - (- x mod m))"
  using zdiv_zminus1_eq_if [of m "- x"] zmod_zminus1_eq_if [of "- x" m] assms by simp_all

text \<open>How the truncated quotient and remainder are corrected.\<close>

lemma truncated_to_euclid:
  assumes "y \<noteq> 0"
  shows "x smod y < 0 \<Longrightarrow> euclid_quotient x y = (if 0 < y then x sdiv y - 1 else x sdiv y + 1)"
    "x smod y < 0 \<Longrightarrow> x mod \<bar>y\<bar> = (if y < 0 then x smod y - y else x smod y + y)"
    "\<not> x smod y < 0 \<Longrightarrow> euclid_quotient x y = x sdiv y \<and> x mod \<bar>y\<bar> = x smod y"
proof -
  have m: "0 < \<bar>y\<bar>" using assms by simp
  then have r: "0 \<le> - x mod \<bar>y\<bar>" "0 \<le> x mod \<bar>y\<bar>" by simp_all
  note d = negative_dividend [OF _ m]
  { assume s: "x smod y < 0"
    then have x: "x < 0" "- x mod \<bar>y\<bar> \<noteq> 0"
      using r by (auto simp: signed_modulo_int_def sgn_if split: if_splits)
    then have v: "x div \<bar>y\<bar> = - (- x div \<bar>y\<bar>) - 1" "x mod \<bar>y\<bar> = \<bar>y\<bar> - (- x mod \<bar>y\<bar>)"
      using d [OF x(1)] by simp_all
    show "euclid_quotient x y = (if 0 < y then x sdiv y - 1 else x sdiv y + 1)"
      unfolding euclid_quotient_def v using x assms by (simp add: signed_divide_int_def sgn_if)
    show "x mod \<bar>y\<bar> = (if y < 0 then x smod y - y else x smod y + y)"
      unfolding v using x assms by (simp add: signed_modulo_int_def sgn_if) }
  assume s: "\<not> x smod y < 0"
  show "euclid_quotient x y = x sdiv y \<and> x mod \<bar>y\<bar> = x smod y"
  proof (cases "x < 0")
    case True
    then have z: "- x mod \<bar>y\<bar> = 0" using s r by (simp add: signed_modulo_int_def)
    then have "x div \<bar>y\<bar> = - (- x div \<bar>y\<bar>)" "x mod \<bar>y\<bar> = 0" using d [OF True] by simp_all
    with True z assms show ?thesis
      by (simp add: euclid_quotient_def signed_divide_int_def signed_modulo_int_def sgn_if)
  qed (use assms in \<open>simp add: euclid_quotient_def signed_divide_int_def signed_modulo_int_def sgn_if\<close>)
qed

lemma smod_in_range:
  assumes "y \<noteq> 0" "in_range y"
  shows "in_range (x smod y)" "in_range (x mod \<bar>y\<bar>)"
proof -
  have m: "0 < \<bar>y\<bar>" "\<bar>y\<bar> \<le> 2 ^ 255" using assms unfolding in_range_def by auto
  have r: "0 \<le> z mod \<bar>y\<bar>" "z mod \<bar>y\<bar> < 2 ^ 255" for z
    using m(1) less_le_trans [OF pos_mod_bound [OF m(1), of z] m(2)] by simp_all
  then show "in_range (x mod \<bar>y\<bar>)" unfolding in_range_def by (simp add: order_trans [OF _ r(1)])
  have "\<bar>x smod y\<bar> \<le> \<bar>x\<bar> mod \<bar>y\<bar>" using r(1) [of "\<bar>x\<bar>"] by (simp add: signed_modulo_int_def sgn_if)
  with r(2) [of "\<bar>x\<bar>"] show "in_range (x smod y)" unfolding in_range_def by linarith
qed

lemma euclid_api_val:
  "div_euclid_i256 a b = (if b = U256_ZERO then Trap else Ok (of_ival (euclid_quotient (ival a) (ival b))))"
  "rem_euclid_i256 a b = (if b = U256_ZERO then Trap else Ok (of_ival (ival a mod \<bar>ival b\<bar>)))"
proof -
  define x y where "x = ival a" and "y = ival b"
  have "div_euclid_i256 a b = Ok (of_ival (euclid_quotient x y)) \<and> rem_euclid_i256 a b = Ok (of_ival (x mod \<bar>y\<bar>))"
    if "b \<noteq> U256_ZERO"
  proof -
    have y: "y \<noteq> 0" "in_range y" using that unfolding y_def eq_zero by simp_all
    note e = truncated_to_euclid [OF y(1), of x]
    have m: "ival (of_ival (x smod y)) = x smod y" by (rule ival_of_in_range [OF smod_in_range(1) [OF y]])
    have plus: "of_ival (ival (of_ival z) + w) = of_ival (z + w)" for z w
      using of_ival_diff [of z "- w"] by simp
    show ?thesis
      using that e
      unfolding div_euclid_i256_def rem_euclid_i256_def i256_div_val i256_rem_val i256_less_ival
        sub3_ival add3_ival x_def [symmetric] y_def [symmetric]
      by (simp add: m of_ival_diff plus y_def [symmetric])
  qed
  then show "div_euclid_i256 a b = (if b = U256_ZERO then Trap else Ok (of_ival (euclid_quotient (ival a) (ival b))))"
    "rem_euclid_i256 a b = (if b = U256_ZERO then Trap else Ok (of_ival (ival a mod \<bar>ival b\<bar>)))"
    by (auto simp: x_def y_def div_euclid_i256_def rem_euclid_i256_def i256_div_val i256_rem_val)
qed

lemma wrapping_div_rem_euclid_val:
  "wrapping_div_rem_euclid a b =
    (if b = U256_ZERO then Trap
     else Ok (of_ival (euclid_quotient (ival a) (ival b)), of_ival (ival a mod \<bar>ival b\<bar>)))"
proof (cases "b = U256_ZERO")
  case True
  then have "uval (unsigned_abs b) = 0" by (simp only: unsigned_abs_val(2) ival_consts abs_zero nat_0)
  with True show ?thesis unfolding wrapping_div_rem_euclid_def Let_def div_rem_val by simp
next
  case False
  define x y q r where "x = ival a" and "y = ival b" and "q = \<bar>x\<bar> div \<bar>y\<bar>" and "r = \<bar>x\<bar> mod \<bar>y\<bar>"
  have y: "y \<noteq> 0" "in_range y" "0 < \<bar>y\<bar>" using False unfolding y_def eq_zero by simp_all
  have dr: "div_rem256 (unsigned_abs a) (unsigned_abs b) = Ok (of_ival q, of_ival r)"
    using y(1) unfolding div_rem_val unsigned_abs_val(2) of_val_of_ival x_def [symmetric] y_def [symmetric] q_def r_def
    by (simp add: zdiv_int zmod_int)
  have r: "in_range r" unfolding r_def by (rule smod_in_range [OF y(1,2)])
  have m: "(if x < 0 \<and> r \<noteq> 0 then \<bar>y\<bar> - r else r) = x mod \<bar>y\<bar>"
    using negative_dividend [OF _ y(3), of x] unfolding r_def by auto
  have k: "(if x < 0 \<and> r \<noteq> 0 then if (x < 0) \<noteq> (y < 0) then - 1 - q else q + 1
      else if (x < 0) \<noteq> (y < 0) then - q else q) = euclid_quotient x y"
    using negative_dividend [OF _ y(3), of x] y(1) unfolding r_def q_def euclid_quotient_def by (auto simp: sgn_if)
  have rem: "(if x < 0 \<and> r \<noteq> 0 then sub3 (unsigned_abs b) (of_ival r) else of_ival r) = of_ival (x mod \<bar>y\<bar>)"
  proof -
    have "sub3 (of_ival \<bar>y\<bar>) (of_ival r) = of_ival (\<bar>y\<bar> - r)"
      unfolding sub3_ival ival_of_in_range [OF r] by (rule of_ival_diff)
    then show ?thesis unfolding unsigned_abs_val y_def [symmetric] m [symmetric] by simp
  qed
  have quot: "(if x < 0 \<and> r \<noteq> 0 then
        if (x < 0) \<noteq> (y < 0) then u256_not (of_ival q) else add3 (of_ival q) U256_ONE
      else if (x < 0) \<noteq> (y < 0) then wrapping_neg_i256 (of_ival q) else of_ival q)
    = of_ival (euclid_quotient x y)"
  proof -
    have "u256_not (of_ival q) = of_ival (- 1 - q)"
    proof -
      have "- 1 - z = - z - 1" for z :: int by simp
      then show ?thesis unfolding not_ival
        by (metis of_ival_uminus [of q] of_ival_diff [of "- ival (of_ival q)" 1] of_ival_diff [of "- q" 1])
    qed
    moreover have "add3 (of_ival q) U256_ONE = of_ival (q + 1)"
      unfolding add3_ival using of_ival_diff [of q "- 1"] by simp
    ultimately show ?thesis unfolding k [symmetric] wrapping_neg_val of_ival_uminus by simp
  qed
  have p: "0 \<le> x mod \<bar>y\<bar>" "x mod \<bar>y\<bar> < \<bar>y\<bar>" using y(3) by simp_all
  have i: "ival (of_ival (x mod \<bar>y\<bar>)) = x mod \<bar>y\<bar>" by (rule ival_of_in_range [OF smod_in_range(2) [OF y(1,2)]])
  have u: "\<not> unsigned_abs b \<le> of_ival (x mod \<bar>y\<bar>)"
  proof -
    have "int (uval (of_ival (x mod \<bar>y\<bar>))) = x mod \<bar>y\<bar>" unfolding uval_signed i using p by simp
    then show ?thesis unfolding le_uval unsigned_abs_val(2) y_def [symmetric] using p(2) by linarith
  qed
  have z: "(of_ival r = U256_ZERO) = (r = 0)" unfolding eq_zero ival_of_in_range [OF r] ..
  have n: "\<not> is_negative (of_ival (x mod \<bar>y\<bar>))" unfolding is_negative_ival i using p(1) by simp
  show ?thesis
    using False u n
    unfolding wrapping_div_rem_euclid_def Let_def dr bnd_simps prod.case is_negative_ival [of a] is_negative_ival [of b]
      x_def [symmetric] y_def [symmetric] z rem quot
    by simp
qed

section \<open>Distance and sign\<close>

lemma abs_diff_val: "uval (abs_diff_i256 a b) = nat \<bar>ival a - ival b\<bar>"
proof -
  have d: "abs_diff_i256 a b = of_ival \<bar>ival a - ival b\<bar>"
    by (simp add: abs_diff_i256_def i256_less_ival sub3_ival abs_if)
  have "\<bar>ival a - ival b\<bar> < 2 ^ 256" using ival_range [of a] ival_range [of b] by simp
  then have "int (uval (of_ival \<bar>ival a - ival b\<bar>)) = \<bar>ival a - ival b\<bar>"
    unfolding uval_of_ival by (intro mod_pos_pos_trivial) simp_all
  then show ?thesis unfolding d by simp
qed

lemma sign_of_words: "sgn (ival a) = (if sint (high a) < 0 then - 1 else if high a = 0 then of_bool (low a \<noteq> 0) else 1)"
proof -
  have l: "0 \<le> uint (low a)" "uint (low a) < 2 ^ 128" by (rule uint_u128_range)+
  have z: "(uint (low a) = 0) = (low a = 0)" "(sint (high a) = 0) = (high a = 0)"
    using signed_word_eqI [of "high a" 0] by (auto simp: uint_0_iff)
  have "(h * m + i < 0) = (h < 0)" "(h * m + i = 0) = (h = 0 \<and> i = 0)" if "0 \<le> i" "i < m" for h i m :: int
    using int_pair_less [of i m 0 h 0] int_pair_less [of 0 m i 0 h] that by auto
  note zero = this [OF l]
  have s: "sgn k = (if k < 0 then - 1 else if k = 0 then 0 else 1)" for k :: int by (simp add: sgn_if)
  show ?thesis unfolding s ival_def zero z by simp
qed

lemma signum128_val: "signum128 a = word_of_int (sgn (ival a))"
  by (auto simp: signum128_def u128_of_bool_def sign_of_words)

section \<open>Properties\<close>

definition clamp_i256 :: "int \<Rightarrow> int" where
  "clamp_i256 z = max (- (2 ^ 255)) (min (2 ^ 255 - 1) z)"

lemma clamp_above: "\<not> in_range z \<Longrightarrow> 0 \<le> z \<Longrightarrow> of_ival (clamp_i256 z) = I256_MAX"
  and clamp_below: "\<not> in_range z \<Longrightarrow> z < 0 \<Longrightarrow> of_ival (clamp_i256 z) = I256_MIN"
  and clamp_in_range: "in_range z \<Longrightarrow> clamp_i256 z = z"
  using of_ival_ival [of I256_MAX] of_ival_ival [of I256_MIN]
  by (auto simp: clamp_i256_def in_range_def min_def max_def simp del: of_ival_ival)

lemma saturating_fits:
  "\<not> in_range z \<longrightarrow> d = (if 0 \<le> z then I256_MAX else I256_MIN) \<Longrightarrow>
    (case fits z of Some x \<Rightarrow> x | None \<Rightarrow> d) = of_ival (clamp_i256 z)"
  by (cases "in_range z") (auto simp: fits_def clamp_in_range clamp_above clamp_below not_le)

lemma checked_i256_val:
  "checked_add_i256 a b = fits (ival a + ival b)"
  "checked_sub_i256 a b = fits (ival a - ival b)"
  "checked_mul_i256 a b = Ok (fits (ival a * ival b))"
  "checked_add_unsigned a b = fits (ival a + int (uval b))"
  "checked_sub_unsigned a b = fits (ival a - int (uval b))"
  "checked_add_signed a b = ufits (int (uval a) + ival b)"
  by (simp_all add: checked_add_i256_def checked_sub_i256_def checked_mul_i256_def checked_add_unsigned_def
      checked_sub_unsigned_def checked_add_signed_def iaddc_val isubc_val imulc_val overflowing_unsigned_val
      overflowing_add_signed_val)
    (simp add: none_if_def ufits_def)

lemma checked_neg_val: "checked_neg_i256 a = fits (- ival a)"
proof (cases "a = I256_MIN")
  case False
  then have "in_range (- ival a)" using ival_range [of a] unfolding eq_min in_range_def by simp
  with False show ?thesis
    by (simp add: checked_neg_i256_def overflowing_neg_i256_def none_if_def i256_neg_val fits_def)
qed (simp add: checked_neg_i256_def overflowing_neg_i256_def none_if_def fits_def in_range_def)

lemma checked_abs_val: "checked_abs_i256 a = fits \<bar>ival a\<bar>"
  by (simp add: checked_abs_i256_def is_negative_ival checked_neg_val abs_if fits_def)

lemma saturating_add_val: "saturating_add_i256 a b = of_ival (clamp_i256 (ival a + ival b))"
  unfolding saturating_add_i256_def checked_i256_val i256_less_ival ival_consts
  by (rule saturating_fits) (use ival_range [of a] ival_range [of b] in \<open>auto simp: in_range_def\<close>)

lemma saturating_sub_val: "saturating_sub_i256 a b = of_ival (clamp_i256 (ival a - ival b))"
  unfolding saturating_sub_i256_def checked_i256_val i256_less_ival ival_consts
  by (rule saturating_fits) (use ival_range [of a] ival_range [of b] in \<open>auto simp: in_range_def\<close>)

lemma saturating_mul_val: "saturating_mul_i256 a b = Ok (of_ival (clamp_i256 (ival a * ival b)))"
proof -
  have "\<not> in_range (ival a * ival b) \<longrightarrow>
    (if (ival a < 0) = (ival b < 0) then I256_MAX else I256_MIN) = (if 0 \<le> ival a * ival b then I256_MAX else I256_MIN)"
    by (cases "ival a * ival b = 0") (auto simp: zero_le_mult_iff in_range_def)
  from saturating_fits [OF this] show ?thesis
    unfolding saturating_mul_i256_def checked_i256_val i256_less_ival ival_consts bnd_simps by simp
qed

text \<open>C25: Signed arithmetic is exact in two's complement. The checked operations return the result over
  the integers when it lies in \<open>[-2^255, 2^255)\<close> and \<open>None\<close> otherwise, with truncating division, the
  overflowing quotient of the smallest number by minus one and the zero divisor included; a mixed
  addition treats the unsigned operand as the number it is, although the code first reinterprets it as
  a signed one; the saturating operations return the nearest number in range.\<close>

theorem signed_arithmetic_is_exact:
  "checked_add_i256 a b = fits (ival a + ival b) \<and>
   checked_sub_i256 a b = fits (ival a - ival b) \<and>
   checked_mul_i256 a b = Ok (fits (ival a * ival b)) \<and>
   checked_div_i256 a b = Ok (if ival b = 0 then None else fits (ival a sdiv ival b)) \<and>
   checked_neg_i256 a = fits (- ival a) \<and>
   checked_abs_i256 a = fits \<bar>ival a\<bar> \<and>
   checked_add_unsigned a u = fits (ival a + int (uval u)) \<and>
   checked_sub_unsigned a u = fits (ival a - int (uval u)) \<and>
   checked_add_signed u a = ufits (int (uval u) + ival a) \<and>
   saturating_add_i256 a b = of_ival (clamp_i256 (ival a + ival b)) \<and>
   saturating_sub_i256 a b = of_ival (clamp_i256 (ival a - ival b)) \<and>
   saturating_mul_i256 a b = Ok (of_ival (clamp_i256 (ival a * ival b)))"
  by (simp only: checked_i256_val checked_div_i256_val checked_neg_val checked_abs_val saturating_add_val
      saturating_sub_val saturating_mul_val simp_thms)

text \<open>The two implementations of Euclidean division agree and are correct. \<open>wrapping_div_rem_euclid\<close>
  divides the magnitudes as unsigned numbers and corrects both results; \<open>div_euclid\<close> and \<open>rem_euclid\<close>
  correct the truncating operators. For every pair of operands both trap on a zero divisor and
  otherwise return the same quotient and remainder, with \<open>a = q b + r\<close> and \<open>0 \<le> r < |b|\<close>: the mark of
  the source that tells the compiler a remainder outside that range cannot happen is never reached,
  even where its comment about overflow does not hold.\<close>

theorem euclidean_divisions_agree:
  "if b = U256_ZERO then
     wrapping_div_rem_euclid a b = Trap \<and> div_euclid_i256 a b = Trap \<and> rem_euclid_i256 a b = Trap
   else \<exists>q r.
     wrapping_div_rem_euclid a b = Ok (of_ival q, r) \<and>
     div_euclid_i256 a b = Ok (of_ival q) \<and> rem_euclid_i256 a b = Ok r \<and>
     ival a = q * ival b + ival r \<and> 0 \<le> ival r \<and> ival r < \<bar>ival b\<bar>"
proof (cases "b = U256_ZERO")
  case False
  define x y where "x = ival a" and "y = ival b"
  have y: "y \<noteq> 0" "in_range y" using False unfolding y_def eq_zero by simp_all
  have "sgn y * (x div \<bar>y\<bar>) * y = x div \<bar>y\<bar> * \<bar>y\<bar>" by (simp add: sgn_if)
  then have "x = euclid_quotient x y * y + x mod \<bar>y\<bar>" by (simp only: euclid_quotient_def div_mult_mod_eq)
  moreover have "ival (of_ival (x mod \<bar>y\<bar>)) = x mod \<bar>y\<bar>" by (rule ival_of_in_range [OF smod_in_range(2) [OF y]])
  ultimately have "ival a = euclid_quotient x y * ival b + ival (of_ival (x mod \<bar>y\<bar>))
      \<and> 0 \<le> ival (of_ival (x mod \<bar>y\<bar>)) \<and> ival (of_ival (x mod \<bar>y\<bar>)) < \<bar>ival b\<bar>"
    using y(1) unfolding x_def y_def by simp
  then show ?thesis
    using False unfolding wrapping_div_rem_euclid_val euclid_api_val x_def y_def
    by (simp only: if_False simp_thms) blast
qed (simp add: wrapping_div_rem_euclid_val euclid_api_val)

end
