(* ===== verification/Wide_Text.thy ===== *)
theory Wide_Text
  imports Wide_Signed_Api
begin

text \<open>
  The 256-bit integers as text (\<open>ethnum-patch/src/parse.rs\<close>, \<open>fmt.rs\<close> and the macros that instantiate them
  for \<open>U256\<close> and \<open>I256\<close>): parsing in any radix, with its short cut for inputs that cannot overflow, the
  decimal writer that takes four digits at a time from a table, the radix writers, and the parser of
  constants. The trait the parser is generic in is a record of operations; its laws are a locale,
  interpreted for both integer types.
\<close>

datatype ParseIntError = Empty | InvalidDigit | PosOverflow | NegOverflow

section \<open>Digits\<close>

definition ascii :: "string \<Rightarrow> bytes" where
  "ascii cs = map (\<lambda>c. word_of_nat (of_char c)) cs"

text \<open>\<open>char::to_digit\<close> at a byte.\<close>

definition to_digit :: "byte \<Rightarrow> nat \<Rightarrow> nat option" where
  "to_digit c radix =
     (let n = unat c;
          d = (if 48 \<le> n \<and> n \<le> 57 then n - 48
               else if 97 \<le> n \<and> n \<le> 122 then n - 87
               else if 65 \<le> n \<and> n \<le> 90 then n - 55 else 36) in
      if d < radix \<and> d < 36 then Some d else None)"

section \<open>Parsing\<close>

text \<open>\<open>FromStrRadixHelper\<close>, with the operators of \<open>Add\<close>, \<open>Sub\<close> and \<open>Mul\<close>, the order and the size.\<close>

record 'a radix_type =
  type_min :: 'a
  greater :: "'a \<Rightarrow> 'a \<Rightarrow> bool"
  from_u32 :: "nat \<Rightarrow> 'a"
  add_op :: "'a \<Rightarrow> 'a \<Rightarrow> 'a"
  sub_op :: "'a \<Rightarrow> 'a \<Rightarrow> 'a"
  mul_op :: "'a \<Rightarrow> 'a \<Rightarrow> (ParseIntError, 'a) outcome"
  checked_mul_op :: "'a \<Rightarrow> nat \<Rightarrow> (ParseIntError, 'a option) outcome"
  checked_add_op :: "'a \<Rightarrow> nat \<Rightarrow> 'a option"
  checked_sub_op :: "'a \<Rightarrow> nat \<Rightarrow> 'a option"
  size_of :: nat

definition u256_new :: "nat \<Rightarrow> U256" where
  "u256_new v = from_words 0 (word_of_nat v)"

lemma uval_new [simp]: "v < 2 ^ 128 \<Longrightarrow> uval (u256_new v) = v"
  by (simp add: u256_new_def uval_def unsigned_of_nat take_bit_nat_eq_self)

definition u256_radix :: "U256 radix_type" where
  "u256_radix = \<lparr>type_min = U256_ZERO, greater = (\<lambda>a b. b < a), from_u32 = u256_new, add_op = add3,
     sub_op = sub3, mul_op = mul3, checked_mul_op = (\<lambda>a n. checked_mul256 a (u256_new n)),
     checked_add_op = (\<lambda>a n. checked_add256 a (u256_new n)),
     checked_sub_op = (\<lambda>a n. checked_sub256 a (u256_new n)), size_of = 32\<rparr>"

definition i256_radix :: "I256 radix_type" where
  "i256_radix = \<lparr>type_min = I256_MIN, greater = (\<lambda>a b. i256_less b a), from_u32 = u256_new, add_op = add3,
     sub_op = sub3, mul_op = mul3, checked_mul_op = (\<lambda>a n. checked_mul_i256 a (u256_new n)),
     checked_add_op = (\<lambda>a n. checked_add_i256 a (u256_new n)),
     checked_sub_op = (\<lambda>a n. checked_sub_i256 a (u256_new n)), size_of = 32\<rparr>"

definition can_not_overflow :: "'a radix_type \<Rightarrow> nat \<Rightarrow> bool \<Rightarrow> bytes \<Rightarrow> bool" where
  "can_not_overflow T radix is_signed_ty digits \<longleftrightarrow>
     radix \<le> 16 \<and> length digits \<le> size_of T * 2 - (if is_signed_ty then 1 else 0)"

fun unchecked_loop ::
    "'a radix_type \<Rightarrow> ('a \<Rightarrow> 'a \<Rightarrow> 'a) \<Rightarrow> nat \<Rightarrow> bytes \<Rightarrow> 'a \<Rightarrow> (ParseIntError, 'a) outcome" where
  "unchecked_loop T additive_op radix [] result = Ok result"
| "unchecked_loop T additive_op radix (c # cs) result =
     bnd (mul_op T result (from_u32 T radix)) (\<lambda>scaled.
     bnd (ok_or InvalidDigit (to_digit c radix)) (\<lambda>x.
     unchecked_loop T additive_op radix cs (additive_op scaled (from_u32 T x))))"

fun checked_loop ::
    "'a radix_type \<Rightarrow> ('a \<Rightarrow> nat \<Rightarrow> 'a option) \<Rightarrow> ParseIntError \<Rightarrow> nat \<Rightarrow> bytes \<Rightarrow> 'a
       \<Rightarrow> (ParseIntError, 'a) outcome" where
  "checked_loop T additive_op overflow_err radix [] result = Ok result"
| "checked_loop T additive_op overflow_err radix (c # cs) result =
     bnd (checked_mul_op T result radix) (\<lambda>product.
     bnd (ok_or InvalidDigit (to_digit c radix)) (\<lambda>x.
     bnd (ok_or overflow_err product) (\<lambda>scaled.
     bnd (ok_or overflow_err (additive_op scaled x)) (\<lambda>result'.
     checked_loop T additive_op overflow_err radix cs result'))))"

definition split_sign :: "bool \<Rightarrow> bytes \<Rightarrow> (ParseIntError, bool \<times> bytes) outcome" where
  "split_sign is_signed_ty src =
     (let c = unat (hd src) in
      if c \<in> {43, 45} \<and> tl src = [] then Err InvalidDigit
      else if c = 43 then Ok (True, tl src)
      else if c = 45 \<and> is_signed_ty then Ok (False, tl src)
      else Ok (True, src))"

definition strip_prefix :: "bytes \<Rightarrow> bytes \<Rightarrow> bytes option" where
  "strip_prefix pre bs = (if take (length pre) bs = pre then Some (drop (length pre) bs) else None)"

definition from_str_radix :: "'a radix_type \<Rightarrow> bytes \<Rightarrow> nat \<Rightarrow> bytes option \<Rightarrow> (ParseIntError, 'a) outcome" where
  "from_str_radix T src radix pre =
     (if \<not> (2 \<le> radix \<and> radix \<le> 36) then Trap
      else if src = [] then Err Empty
      else
        let is_signed_ty = greater T (from_u32 T 0) (type_min T) in
        bnd (split_sign is_signed_ty src) (\<lambda>(is_positive, prefixed_digits).
        bnd (case pre of Some p \<Rightarrow> ok_or InvalidDigit (strip_prefix p prefixed_digits)
             | None \<Rightarrow> Ok prefixed_digits) (\<lambda>digits.
        if digits = [] then Err InvalidDigit
        else if can_not_overflow T radix is_signed_ty digits then
          unchecked_loop T (if is_positive then add_op T else sub_op T) radix digits (from_u32 T 0)
        else if is_positive then
          checked_loop T (checked_add_op T) PosOverflow radix digits (from_u32 T 0)
        else checked_loop T (checked_sub_op T) NegOverflow radix digits (from_u32 T 0))))"

definition or_else :: "('e, 'a) outcome \<Rightarrow> ('e, 'a) outcome \<Rightarrow> ('e, 'a) outcome" where
  "or_else m n = (case m of Err _ \<Rightarrow> n | _ \<Rightarrow> m)"

definition from_str_prefixed :: "'a radix_type \<Rightarrow> bytes \<Rightarrow> (ParseIntError, 'a) outcome" where
  "from_str_prefixed T src =
     or_else (or_else (or_else (from_str_radix T src 2 (Some (ascii ''0b'')))
       (from_str_radix T src 8 (Some (ascii ''0o''))))
       (from_str_radix T src 16 (Some (ascii ''0x'')))) (from_str_radix T src 10 None)"

definition from_str_hex :: "'a radix_type \<Rightarrow> bytes \<Rightarrow> (ParseIntError, 'a) outcome" where
  "from_str_hex T src = from_str_radix T src 16 (Some (ascii ''0x''))"

definition from_str :: "'a radix_type \<Rightarrow> bytes \<Rightarrow> (ParseIntError, 'a) outcome" where
  "from_str T src = from_str_radix T src 10 None"

section \<open>Writing\<close>

text \<open>\<open>Formatter::pad_integral\<close> of a formatter without a width: the sign, the prefix, the digits.\<close>

definition pad_integral :: "bool \<Rightarrow> bytes \<Rightarrow> bytes \<Rightarrow> bytes" where
  "pad_integral is_nonnegative pre buf = (if is_nonnegative then [] else ascii ''-'') @ pre @ buf"

datatype GenericRadix = Binary | Octal | LowerHex | UpperHex

definition BASE :: "GenericRadix \<Rightarrow> nat" where
  "BASE r = (case r of Binary \<Rightarrow> 2 | Octal \<Rightarrow> 8 | LowerHex \<Rightarrow> 16 | UpperHex \<Rightarrow> 16)"

definition PREFIX :: "GenericRadix \<Rightarrow> bytes" where
  "PREFIX r = ascii (case r of Binary \<Rightarrow> ''0b'' | Octal \<Rightarrow> ''0o'' | LowerHex \<Rightarrow> ''0x'' | UpperHex \<Rightarrow> ''0x'')"

definition digit :: "GenericRadix \<Rightarrow> nat \<Rightarrow> ('e, byte) outcome" where
  "digit r x =
     (if BASE r \<le> x then Trap
      else if x \<le> 9 then Ok (48 + word_of_nat x)
      else Ok ((case r of UpperHex \<Rightarrow> 65 | _ \<Rightarrow> 97) + word_of_nat (x - 10)))"

definition as_u8 :: "U256 \<Rightarrow> nat" where
  "as_u8 x = unat (low x) mod 256"

text \<open>The buffer of 256 bytes is filled from its end; the loop stops at its start at the latest.\<close>

fun fmt_radix_loop :: "nat \<Rightarrow> GenericRadix \<Rightarrow> U256 \<Rightarrow> bytes \<Rightarrow> ('e, bytes) outcome" where
  "fmt_radix_loop 0 r x buf = Ok buf"
| "fmt_radix_loop (Suc slots) r x buf =
     bnd (u256_rem x (u256_new (BASE r))) (\<lambda>n.
     bnd (u256_div x (u256_new (BASE r))) (\<lambda>x'.
     bnd (digit r (as_u8 n)) (\<lambda>d.
     if x' = U256_ZERO then Ok (d # buf) else fmt_radix_loop slots r x' (d # buf))))"

definition fmt_radix :: "GenericRadix \<Rightarrow> U256 \<Rightarrow> bool \<Rightarrow> bool \<Rightarrow> ('e, bytes) outcome" where
  "fmt_radix r x is_nonnegative alternate =
     bnd (fmt_radix_loop 256 r x []) (\<lambda>buf.
     Ok (pad_integral is_nonnegative (if alternate then PREFIX r else []) buf))"

text \<open>Two digits from the table, and a write below what the buffer of 79 bytes already holds.\<close>

definition DEC_DIGITS_LUT :: bytes where
  "DEC_DIGITS_LUT = ascii
     (''0001020304050607080910111213141516171819'' @
      ''2021222324252627282930313233343536373839'' @
      ''4041424344454647484950515253545556575859'' @
      ''6061626364656667686970717273747576777879'' @
      ''8081828384858687888990919293949596979899'')"

definition lut :: "int \<Rightarrow> ('e, bytes) outcome" where
  "lut d = (if 0 \<le> d \<and> d + 2 \<le> int (length DEC_DIGITS_LUT) then Ok (bslice (nat d) (nat d + 2) DEC_DIGITS_LUT) else Trap)"

definition put :: "bytes \<Rightarrow> bytes \<Rightarrow> ('e, bytes) outcome" where
  "put bs buf = (if length bs + length buf \<le> 79 then Ok (bs @ buf) else Trap)"

definition as_isize :: "U256 \<Rightarrow> int" where
  "as_isize x = signed_take_bit 63 (uint (low x))"

lemma uval_quotient: "uval (of_val (uval n div k)) = uval n div k" "uval (of_val (uval n mod k)) = uval n mod k"
proof -
  have "uval n div k < 2 ^ 256" "uval n mod k < 2 ^ 256"
    using uval_less [of n] div_le_dividend [of "uval n" k] mod_less_eq_dividend [of "uval n" k] by linarith+
  then show "uval (of_val (uval n div k)) = uval n div k" "uval (of_val (uval n mod k)) = uval n mod k"
    by (simp_all only: uval_of_val_small)
qed

function decimal_loop :: "U256 \<Rightarrow> bytes \<Rightarrow> ('e, U256 \<times> bytes) outcome" where
  "decimal_loop n buf =
     (if u256_new 10000 \<le> n then
        bnd (div_rem256 n (u256_new 10000)) (\<lambda>(q, r).
        let remainder = as_isize r in
        bnd (lut (push_bit 1 (remainder sdiv 100))) (\<lambda>c1.
        bnd (lut (push_bit 1 (remainder smod 100))) (\<lambda>c2.
        bnd (put (c1 @ c2) buf) (\<lambda>buf'. decimal_loop q buf'))))
      else Ok (n, buf))"
  by pat_completeness auto

termination
  by (relation "measure (\<lambda>(n, buf). uval n)") (auto simp: div_rem_val le_uval uval_quotient)

declare decimal_loop.simps [simp del]

definition last_digits :: "int \<Rightarrow> bytes \<Rightarrow> ('e, bytes) outcome" where
  "last_digits n0 buf0 =
     bnd (if 100 \<le> n0 then
            bnd (lut (push_bit 1 (n0 smod 100))) (\<lambda>c.
            bnd (put c buf0) (\<lambda>buf. Ok (n0 sdiv 100, buf)))
          else Ok (n0, buf0)) (\<lambda>(n, buf).
     if n < 10 then put [word_of_int n + 48] buf
     else bnd (lut (push_bit 1 n)) (\<lambda>c. put c buf))"

definition fmt_u256 :: "U256 \<Rightarrow> bool \<Rightarrow> ('e, bytes) outcome" where
  "fmt_u256 n is_nonnegative =
     bnd (decimal_loop n []) (\<lambda>(n', buf).
     bnd (last_digits (as_isize n') buf) (\<lambda>buf'.
     Ok (pad_integral is_nonnegative [] buf')))"

text \<open>\<open>Display\<close> of the two types, and the radix formats of the signed one.\<close>

definition display_u256 :: "U256 \<Rightarrow> ('e, bytes) outcome" where
  "display_u256 x = fmt_u256 x True"

definition display_i256 :: "I256 \<Rightarrow> ('e, bytes) outcome" where
  "display_i256 x =
     (let is_nonnegative = (\<not> i256_less x U256_ZERO);
          n = (if is_nonnegative then x else add3 (u256_not x) U256_ONE) in
      fmt_u256 n is_nonnegative)"

definition fmt_base_i256 :: "GenericRadix \<Rightarrow> bool \<Rightarrow> bool \<Rightarrow> I256 \<Rightarrow> ('e, bytes) outcome" where
  "fmt_base_i256 r sign_minus alternate x =
     (let (mag, is_nonnegative) =
        (if i256_less x U256_ZERO \<and> sign_minus then (wrapping_neg_i256 x, False) else (x, True)) in
      fmt_radix r mag is_nonnegative alternate)"

section \<open>The parser's interface\<close>

text \<open>The value of a string of digits, and of the number it denotes.\<close>

fun digits_value :: "nat \<Rightarrow> bytes \<Rightarrow> nat \<Rightarrow> nat option" where
  "digits_value radix [] acc = Some acc"
| "digits_value radix (c # cs) acc =
     (case to_digit c radix of None \<Rightarrow> None | Some d \<Rightarrow> digits_value radix cs (acc * radix + d))"

lemma to_digit_less: "to_digit c radix = Some d \<Longrightarrow> d < radix \<and> d < 36"
  by (auto simp: to_digit_def Let_def split: if_splits)

lemma digits_value_grows: "digits_value radix cs acc = Some n \<Longrightarrow> 0 < radix \<Longrightarrow> acc \<le> n"
proof (induction cs arbitrary: acc)
  case (Cons c cs)
  then obtain d where "digits_value radix cs (acc * radix + d) = Some n"
    by (auto split: option.splits)
  then have "acc * radix + d \<le> n" using Cons by blast
  moreover have "acc * 1 \<le> acc * radix" using Cons.prems by (intro mult_le_mono2) simp
  ultimately show ?case by linarith
qed simp

lemma digits_value_bound: "digits_value radix cs acc = Some n \<Longrightarrow> n < (acc + 1) * radix ^ length cs"
proof (induction cs arbitrary: acc)
  case (Cons c cs)
  then obtain d where d: "to_digit c radix = Some d" and rest: "digits_value radix cs (acc * radix + d) = Some n"
    by (auto split: option.splits)
  have "acc * radix + d + 1 \<le> (acc + 1) * radix" using to_digit_less [OF d] by simp
  then have "(acc * radix + d + 1) * radix ^ length cs \<le> (acc + 1) * radix * radix ^ length cs"
    by (rule mult_le_mono1)
  with Cons.IH [OF rest] show ?case by (simp only: length_Cons power_Suc mult.assoc)
qed simp

lemma digits_value_append:
  "digits_value radix (xs @ [c]) acc =
     (case digits_value radix xs acc of None \<Rightarrow> None
      | Some m \<Rightarrow> map_option (\<lambda>d. m * radix + d) (to_digit c radix))"
  by (induction xs arbitrary: acc) (auto split: option.splits)

definition in_bounds :: "int \<Rightarrow> int \<Rightarrow> int \<Rightarrow> bool" where
  "in_bounds lo hi z \<longleftrightarrow> lo \<le> z \<and> z \<le> hi"

definition signed_value :: "bool \<Rightarrow> nat \<Rightarrow> int" where
  "signed_value pos n = (if pos then int n else - int n)"

locale radix_number =
  fixes T :: "'a radix_type" and repr :: "int \<Rightarrow> 'a" and val :: "'a \<Rightarrow> int" and lo hi :: int
  assumes val_repr: "lo \<le> z \<Longrightarrow> z \<le> hi \<Longrightarrow> val (repr z) = z"
    and zero: "from_u32 T 0 = repr 0"
    and add_law: "n \<le> 36 \<Longrightarrow> add_op T x (from_u32 T n) = repr (val x + int n)"
    and sub_law: "n \<le> 36 \<Longrightarrow> sub_op T x (from_u32 T n) = repr (val x - int n)"
    and mul_law: "n \<le> 36 \<Longrightarrow> mul_op T x (from_u32 T n) = Ok (repr (val x * int n))"
    and checked_mul_law: "n \<le> 36 \<Longrightarrow> checked_mul_op T x n =
      Ok (if lo \<le> val x * int n \<and> val x * int n \<le> hi then Some (repr (val x * int n)) else None)"
    and checked_add_law: "n \<le> 36 \<Longrightarrow> checked_add_op T x n =
      (if lo \<le> val x + int n \<and> val x + int n \<le> hi then Some (repr (val x + int n)) else None)"
    and checked_sub_law: "n \<le> 36 \<Longrightarrow> checked_sub_op T x n =
      (if lo \<le> val x - int n \<and> val x - int n \<le> hi then Some (repr (val x - int n)) else None)"
    and signed_law: "greater T (from_u32 T 0) (type_min T) = (lo < 0)"
    and lo_le: "lo \<le> 0" and hi_ge: "16 ^ (size_of T * 2 - (if lo < 0 then 1 else 0)) \<le> hi + 1"
    and lo_wide: "lo < 0 \<Longrightarrow> 16 ^ (size_of T * 2 - 1) \<le> - lo + 1"
begin

lemma hi_nonneg: "0 \<le> hi"
proof -
  have "(0 :: int) < 16 ^ (size_of T * 2 - (if lo < 0 then 1 else 0))" by simp
  then show ?thesis using hi_ge by linarith
qed

lemma in_bounds_shrink: "in_bounds lo hi (s * int n) \<Longrightarrow> m \<le> n \<Longrightarrow> s = 1 \<or> s = - 1 \<Longrightarrow> in_bounds lo hi (s * int m)"
  using lo_le hi_nonneg by (auto simp: in_bounds_def)

lemma val_in_bounds [simp]: "in_bounds lo hi z \<Longrightarrow> val (repr z) = z"
  by (simp add: in_bounds_def val_repr)

lemma checked_run:
  assumes radix: "2 \<le> radix" "radix \<le> 36" and s: "s = 1 \<or> s = - 1"
    and op_law: "\<And>x n. n \<le> 36 \<Longrightarrow>
      f x n = (if in_bounds lo hi (val x + s * int n) then Some (repr (val x + s * int n)) else None)"
  shows "val result = s * int acc \<Longrightarrow> digits_value radix cs acc = Some n \<Longrightarrow>
    checked_loop T f err radix cs result =
      (if cs = [] then Ok result else if in_bounds lo hi (s * int n) then Ok (repr (s * int n)) else Err err)"
proof (induction cs arbitrary: acc result)
  case (Cons c cs)
  from Cons.prems obtain d where d: "to_digit c radix = Some d"
    and rest: "digits_value radix cs (acc * radix + d) = Some n" by (auto split: option.splits)
  define acc' where "acc' = acc * radix + d"
  note rest = rest [folded acc'_def]
  have grows: "acc' \<le> n" by (rule digits_value_grows [OF rest]) (use radix in linarith)
  have d36: "d \<le> 36" using to_digit_less [OF d] by simp
  have mul: "checked_mul_op T result radix =
      Ok (if in_bounds lo hi (s * int (acc * radix)) then Some (repr (s * int (acc * radix))) else None)"
    using radix by (simp add: checked_mul_law in_bounds_def Cons.prems ac_simps)
  have sum: "s * int (acc * radix) + s * int d = s * int acc'" by (simp add: acc'_def algebra_simps)
  show ?case
  proof (cases "in_bounds lo hi (s * int acc')")
    case True
    then have z: "in_bounds lo hi (s * int (acc * radix))" by (rule in_bounds_shrink) (use s in \<open>simp_all add: acc'_def\<close>)
    have "checked_loop T f err radix (c # cs) result = checked_loop T f err radix cs (repr (s * int acc'))"
      using z d d36 True by (simp add: mul op_law sum del: of_nat_mult)
    also have "\<dots> = (if cs = [] then Ok (repr (s * int acc')) else
        if in_bounds lo hi (s * int n) then Ok (repr (s * int n)) else Err err)"
      by (rule Cons.IH [OF _ rest]) (use True in simp)
    finally show ?thesis using rest True by (auto split: if_splits)
  next
    case False
    then have "checked_loop T f err radix (c # cs) result = Err err"
      using d d36 by (simp add: mul op_law sum del: of_nat_mult)
    moreover have "\<not> in_bounds lo hi (s * int n)" using False in_bounds_shrink [OF _ grows s] by blast
    ultimately show ?thesis by simp
  qed
qed simp

lemma checked_bad:
  assumes "radix \<le> 36"
  shows "digits_value radix cs acc = None \<Longrightarrow>
    \<exists>e. checked_loop T f err radix cs result = Err e \<and> e \<in> {InvalidDigit, err}"
proof (induction cs arbitrary: acc result)
  case (Cons c cs)
  then show ?case
    using assms by (cases "to_digit c radix"; cases "f (repr (val result * int radix)) (the (to_digit c radix))")
      (auto simp: checked_mul_law)
qed simp

lemma unchecked_run:
  assumes radix: "2 \<le> radix" "radix \<le> 36" and s: "s = 1 \<or> s = - 1"
    and op_law: "\<And>x n. n \<le> 36 \<Longrightarrow> f x (from_u32 T n) = repr (val x + s * int n)"
  shows "val result = s * int acc \<Longrightarrow> digits_value radix cs acc = Some n \<Longrightarrow> in_bounds lo hi (s * int n) \<Longrightarrow>
    unchecked_loop T f radix cs result = (if cs = [] then Ok result else Ok (repr (s * int n)))"
proof (induction cs arbitrary: acc result)
  case (Cons c cs)
  from Cons.prems obtain d where d: "to_digit c radix = Some d"
    and rest: "digits_value radix cs (acc * radix + d) = Some n" by (auto split: option.splits)
  define acc' where "acc' = acc * radix + d"
  note rest = rest [folded acc'_def]
  have grows: "acc' \<le> n" by (rule digits_value_grows [OF rest]) (use radix in linarith)
  have z: "in_bounds lo hi (s * int acc')" by (rule in_bounds_shrink [OF Cons.prems(3) grows s])
  then have z': "in_bounds lo hi (s * int (acc * radix))"
    by (rule in_bounds_shrink) (use s in \<open>simp_all add: acc'_def\<close>)
  have d36: "d \<le> 36" using to_digit_less [OF d] by simp
  have sum: "s * int (acc * radix) + s * int d = s * int acc'" by (simp add: acc'_def algebra_simps)
  have mul: "mul_op T result (from_u32 T radix) = Ok (repr (s * int (acc * radix)))"
    using radix by (simp add: mul_law Cons.prems ac_simps)
  have "unchecked_loop T f radix (c # cs) result = unchecked_loop T f radix cs (repr (s * int acc'))"
    using z' d d36 by (simp add: mul op_law sum del: of_nat_mult)
  also have "\<dots> = (if cs = [] then Ok (repr (s * int acc')) else Ok (repr (s * int n)))"
    by (rule Cons.IH [OF _ rest Cons.prems(3)]) (use z in simp)
  finally show ?case using rest by (auto split: if_splits)
qed simp

lemma unchecked_bad:
  assumes "radix \<le> 36"
  shows "digits_value radix cs acc = None \<Longrightarrow> unchecked_loop T f radix cs result = Err InvalidDigit"
  by (induction cs arbitrary: acc result) (use assms in \<open>auto simp: mul_law split: option.splits\<close>)

lemma short_digits_fit:
  assumes "can_not_overflow T radix (lo < 0) ds" "digits_value radix ds 0 = Some n" "2 \<le> radix" "pos \<or> lo < 0"
  shows "in_bounds lo hi (signed_value pos n)"
proof -
  define k where "k = size_of T * 2 - (if lo < 0 then 1 else 0)"
  have "n < radix ^ length ds" using digits_value_bound [OF assms(2)] by simp
  also have "\<dots> \<le> 16 ^ length ds" using assms(1) by (intro power_mono) (simp_all add: can_not_overflow_def)
  also have "(16 :: nat) ^ length ds \<le> 16 ^ k"
    using assms(1) by (intro power_increasing) (simp_all add: can_not_overflow_def k_def)
  finally have "int n < int (16 ^ k)" by (simp only: of_nat_less_iff)
  then have less: "int n < 16 ^ k" by (simp only: of_nat_power of_nat_numeral)
  have "int n \<le> hi" using less hi_ge [folded k_def] by linarith
  moreover have "int n \<le> - lo" if "lo < 0" using less [unfolded k_def] lo_wide [OF that] that by (simp only: if_True)
  ultimately show ?thesis using assms(4) lo_le hi_nonneg by (auto simp: in_bounds_def signed_value_def)
qed

lemma from_str_radix_unfold:
  assumes "2 \<le> radix" "radix \<le> 36" "src \<noteq> []" "split_sign (lo < 0) src = Ok (pos, (case pre of None \<Rightarrow> ds | Some p \<Rightarrow> p @ ds))"
    "ds \<noteq> []"
  shows "from_str_radix T src radix pre =
    (if can_not_overflow T radix (lo < 0) ds then
       unchecked_loop T (if pos then add_op T else sub_op T) radix ds (repr 0)
     else if pos then checked_loop T (checked_add_op T) PosOverflow radix ds (repr 0)
     else checked_loop T (checked_sub_op T) NegOverflow radix ds (repr 0))"
  using assms(1-3,5) unfolding from_str_radix_def signed_law Let_def assms(4)
  by (auto simp: zero strip_prefix_def split: option.splits)

lemma sign_signed: "split_sign sg src = Ok (pos, body) \<Longrightarrow> pos \<or> sg"
  by (auto simp: split_sign_def Let_def split: if_splits)

lemma from_str_radix_value:
  assumes "2 \<le> radix" "radix \<le> 36" "src \<noteq> []" "split_sign (lo < 0) src = Ok (pos, (case pre of None \<Rightarrow> ds | Some p \<Rightarrow> p @ ds))"
    "ds \<noteq> []" "digits_value radix ds 0 = Some n"
  shows "from_str_radix T src radix pre =
    (if in_bounds lo hi (signed_value pos n) then Ok (repr (signed_value pos n))
     else Err (if pos then PosOverflow else NegOverflow))"
proof -
  define s :: int where "s = (if pos then 1 else - 1)"
  have s: "s = 1 \<or> s = - 1" and sv: "signed_value pos n = s * int n" by (simp_all add: s_def signed_value_def)
  have v0: "val (repr 0) = s * int 0" using lo_le hi_nonneg by (simp add: val_repr)
  note unfold = from_str_radix_unfold [OF assms(1-5)]
  show ?thesis
  proof (cases "can_not_overflow T radix (lo < 0) ds")
    case True
    have fits: "in_bounds lo hi (s * int n)"
      using short_digits_fit [OF True assms(6,1) sign_signed [OF assms(4)]] by (simp only: sv)
    have "unchecked_loop T (if pos then add_op T else sub_op T) radix ds (repr 0) = Ok (repr (s * int n))"
      using unchecked_run [OF assms(1,2) s _ v0 assms(6) fits, of "if pos then add_op T else sub_op T"] assms(5)
      by (simp add: s_def add_law sub_law)
    then show ?thesis using True fits by (simp add: unfold sv)
  next
    case False
    have "checked_loop T (if pos then checked_add_op T else checked_sub_op T)
        (if pos then PosOverflow else NegOverflow) radix ds (repr 0) =
      (if in_bounds lo hi (s * int n) then Ok (repr (s * int n)) else Err (if pos then PosOverflow else NegOverflow))"
      using checked_run [OF assms(1,2) s _ v0 assms(6), of "if pos then checked_add_op T else checked_sub_op T"] assms(5)
      by (simp add: s_def checked_add_law checked_sub_law in_bounds_def)
    then show ?thesis using False by (simp add: unfold sv split: if_splits)
  qed
qed

lemma from_str_radix_bad_digit:
  assumes "2 \<le> radix" "radix \<le> 36" "src \<noteq> []" "split_sign (lo < 0) src = Ok (pos, (case pre of None \<Rightarrow> ds | Some p \<Rightarrow> p @ ds))"
    "ds \<noteq> []" "digits_value radix ds 0 = None"
  shows "\<exists>e. from_str_radix T src radix pre = Err e"
  using unchecked_bad [OF assms(2,6)] checked_bad [OF assms(2,6)]
  unfolding from_str_radix_unfold [OF assms(1-5)] by fastforce

end

lemma exact_of_ival: "exact n = (if int n < 2 ^ 256 then Some (of_ival (int n)) else None)"
  by (simp add: exact_def of_val_of_ival)

lemma new_of_ival: "n < 2 ^ 128 \<Longrightarrow> u256_new n = of_ival (int n)"
  unfolding of_val_of_ival [symmetric] by (rule eq_of_val) simp

lemma new_zero: "u256_new 0 = U256_ZERO" "of_ival 0 = U256_ZERO"
  using of_ival_ival [of U256_ZERO] by (simp_all add: new_of_ival)

lemma ival_new: "n \<le> 36 \<Longrightarrow> ival (u256_new n) = int n"
  by (simp add: new_of_ival ival_of_ival)

lemma add3_of_ival: "add3 a b = of_ival (int (uval a) + int (uval b))"
  by (rule eq_of_ival) (simp only: add3_val of_nat_mod of_nat_add of_nat_power of_nat_numeral mod_mod_trivial)

lemma sub3_of_ival: "sub3 a b = of_ival (int (uval a) - int (uval b))"
  by (rule eq_of_ival) (simp only: sub3_val int_uval_diff mod_mod_trivial uval_ival mod_diff_eq)

lemma mul3_of_ival: "mul3 a b = Ok (of_ival (int (uval a) * int (uval b)))"
  unfolding mul3_val of_val_of_ival of_nat_mult ..

text \<open>The laws hold for both integer types, at their own ranges.\<close>

interpretation u256_text: radix_number u256_radix of_ival "\<lambda>x. int (uval x)" 0 "2 ^ 256 - 1"
proof
  show "int (uval (of_ival z)) = z" if "0 \<le> z" "z \<le> 2 ^ 256 - 1" for z
    using that by (simp add: uval_of_ival)
  show "checked_sub_op u256_radix x n =
      (if 0 \<le> int (uval x) - int n \<and> int (uval x) - int n \<le> 2 ^ 256 - 1 then Some (of_ival (int (uval x) - int n)) else None)"
    if "n \<le> 36" for x n
    using that uval_less [of x] by (auto simp: u256_radix_def checked_sub_val of_val_of_ival of_nat_diff)
qed (auto simp: u256_radix_def new_zero add3_of_ival sub3_of_ival mul3_of_ival checked_add_val checked_mul_val
    exact_of_ival)

interpretation i256_text: radix_number i256_radix of_ival ival "- (2 ^ 255)" "2 ^ 255 - 1"
proof
  show "ival (of_ival z) = z" if "- (2 ^ 255) \<le> z" "z \<le> 2 ^ 255 - 1" for z
    using that by (simp add: ival_of_ival)
qed (auto simp: i256_radix_def add3_ival sub3_ival mul3_ival checked_i256_val fits_def in_range_def
    i256_less_ival ival_new new_zero)

section \<open>Writers and their reference\<close>

definition digit_char :: "GenericRadix \<Rightarrow> nat \<Rightarrow> byte" where
  "digit_char r d = (if d \<le> 9 then 48 else if r = UpperHex then 55 else 87) + word_of_nat d"

text \<open>The positional notation of a number, most significant digit first and without leading zeros.\<close>

fun digits_of :: "GenericRadix \<Rightarrow> nat \<Rightarrow> nat \<Rightarrow> bytes" where
  "digits_of r b n =
     (if n < b \<or> b < 2 then [digit_char r n] else digits_of r b (n div b) @ [digit_char r (n mod b)])"

declare digits_of.simps [simp del]

lemma digits_of_small: "n < b \<Longrightarrow> digits_of r b n = [digit_char r n]"
  by (simp add: digits_of.simps)

lemma digits_of_big: "2 \<le> b \<Longrightarrow> b \<le> n \<Longrightarrow> digits_of r b n = digits_of r b (n div b) @ [digit_char r (n mod b)]"
  by (simp add: digits_of.simps [of r b n])

lemma digits_of_nonempty [simp]: "digits_of r b n \<noteq> []"
  by (simp add: digits_of.simps [of r b n])

lemma digits_of_length: "2 \<le> b \<Longrightarrow> n < b ^ k \<Longrightarrow> 0 < k \<Longrightarrow> length (digits_of r b n) \<le> k"
proof (induction k arbitrary: n)
  case (Suc k)
  show ?case
  proof (cases "n < b")
    case False
    then have "k \<noteq> 0" using Suc.prems by (cases k) auto
    moreover have "n div b < b ^ k" using Suc.prems by (simp add: less_mult_imp_div_less mult.commute)
    ultimately show ?thesis using Suc False by (simp add: digits_of_big)
  qed (simp add: digits_of_small)
qed simp

lemma unat_byte_add: "m + d < 256 \<Longrightarrow> unat (word_of_nat m + word_of_nat d :: byte) = m + d"
  by (simp add: unat_word_ariths unsigned_of_nat take_bit_nat_eq_self mod_add_eq)

lemma unat_digit_char:
  "d < 16 \<Longrightarrow> unat (digit_char r d) = (if d \<le> 9 then 48 + d else if r = UpperHex then 55 + d else 87 + d)"
  using unat_byte_add [of 48 d] unat_byte_add [of 55 d] unat_byte_add [of 87 d] by (simp add: digit_char_def)

lemma to_digit_char: "d < b \<Longrightarrow> b \<le> 16 \<Longrightarrow> to_digit (digit_char r d) b = Some d"
  by (auto simp: to_digit_def unat_digit_char Let_def)

lemma digits_of_value: "2 \<le> b \<Longrightarrow> b \<le> 16 \<Longrightarrow> digits_value b (digits_of r b n) 0 = Some n"
proof (induction n rule: less_induct)
  case (less n)
  show ?case
  proof (cases "n < b")
    case False
    then have "n div b < n" using less.prems by simp
    then show ?thesis
      using less False by (simp add: digits_of_big digits_value_append to_digit_char)
  qed (use less.prems in \<open>simp add: digits_of_small to_digit_char\<close>)
qed

lemma digit_val: "d < BASE r \<Longrightarrow> digit r d = Ok (digit_char r d)"
proof -
  assume d: "d < BASE r"
  have "word_of_nat (d - 10) = (word_of_nat d - 10 :: byte)" if "\<not> d \<le> 9"
    using that by (simp add: of_nat_diff)
  then show ?thesis
    using d by (cases r) (auto simp: digit_def digit_char_def BASE_def)
qed

lemma BASE_range: "2 \<le> BASE r" "BASE r \<le> 16"
  by (cases r; simp add: BASE_def)+

lemma low_of_val: "n < 2 ^ 128 \<Longrightarrow> unat (low (of_val n)) = n"
  by (simp add: of_val_def unsigned_of_nat take_bit_nat_eq_self)

lemma u256_div_rem_val:
  "u256_div a b = (if uval b = 0 then Trap else Ok (of_val (uval a div uval b)))"
  "u256_rem a b = (if uval b = 0 then Trap else Ok (of_val (uval a mod uval b)))"
  by (simp_all add: u256_div_def u256_rem_def udiv3_def urem3_def udivmod4_val eq_zero_uval)

lemma fmt_radix_loop_val:
  "uval x < BASE r ^ slots \<Longrightarrow> 0 < slots \<Longrightarrow>
    (fmt_radix_loop slots r x buf :: ('e, bytes) outcome) = Ok (digits_of r (BASE r) (uval x) @ buf)"
proof (induction slots arbitrary: x buf)
  case (Suc slots)
  define b where "b = BASE r"
  have b: "2 \<le> b" "b \<le> 16" using BASE_range [of r] by (simp_all add: b_def)
  have m: "uval x mod b < b" using b by simp
  have u: "as_u8 (of_val (uval x mod b)) = uval x mod b" 
  proof -
    have "uval x mod b < 256" using m b(2) by linarith
    moreover from this have "uval x mod b < 2 ^ 128" by (rule less_trans) simp
    ultimately show ?thesis by (simp only: as_u8_def low_of_val mod_less)
  qed
  have z: "(of_val (uval x div b) = U256_ZERO) = (uval x < b)"
    using b unfolding uval_inj [symmetric] uval_quotient by (simp add: div_eq_0_iff)
  have step: "(fmt_radix_loop (Suc slots) r x buf :: ('e, bytes) outcome) =
      (if uval x < b then Ok (digit_char r (uval x mod b) # buf)
       else fmt_radix_loop slots r (of_val (uval x div b)) (digit_char r (uval x mod b) # buf))"
    using b m by (simp add: u256_div_rem_val b_def [symmetric] u z digit_val)
  show ?case
  proof (cases "uval x < b")
    case True
    then show ?thesis unfolding step by (simp add: digits_of_small b_def [symmetric])
  next
    case False
    then have "slots \<noteq> 0" using Suc.prems by (cases slots) (auto simp: b_def)
    moreover have "uval x div b < b ^ slots" using Suc.prems by (simp add: b_def less_mult_imp_div_less mult.commute)
    ultimately have "(fmt_radix_loop slots r (of_val (uval x div b)) (digit_char r (uval x mod b) # buf) :: ('e, bytes) outcome)
        = Ok (digits_of r b (uval x div b) @ digit_char r (uval x mod b) # buf)"
      using Suc.IH [of "of_val (uval x div b)"] by (simp add: uval_quotient b_def)
    then show ?thesis using False b unfolding step by (simp add: digits_of_big b_def [symmetric])
  qed
qed simp

lemma fmt_radix_val:
  "fmt_radix r x is_nonnegative alternate =
    Ok (pad_integral is_nonnegative (if alternate then PREFIX r else []) (digits_of r (BASE r) (uval x)))"
proof -
  have "(2 :: nat) ^ 256 \<le> BASE r ^ 256" by (rule power_mono [OF BASE_range(1)]) simp
  then have "uval x < BASE r ^ 256" using uval_less [of x] by (rule less_le_trans [rotated])
  then show ?thesis by (simp add: fmt_radix_def fmt_radix_loop_val)
qed

text \<open>The decimal writer: each pair of characters is read from the table.\<close>

definition pair :: "nat \<Rightarrow> bytes" where
  "pair k = [digit_char Binary (k div 10), digit_char Binary (k mod 10)]"

lemma table_chars:
  "map (\<lambda>c. of_char c :: nat)
     (''0001020304050607080910111213141516171819'' @ ''2021222324252627282930313233343536373839'' @
      ''4041424344454647484950515253545556575859'' @ ''6061626364656667686970717273747576777879'' @
      ''8081828384858687888990919293949596979899'')
   = concat (map (\<lambda>k. [48 + k div 10, 48 + k mod 10]) [0..<100])"
  by (simp add: upt_rec)

lemma table_pairs: "DEC_DIGITS_LUT = concat (map pair [0..<100])"
proof -
  have "DEC_DIGITS_LUT = map word_of_nat (concat (map (\<lambda>k. [48 + k div 10, 48 + k mod 10]) [0..<100]))"
    unfolding DEC_DIGITS_LUT_def ascii_def table_chars [symmetric] by (simp only: map_map o_def)
  also have "\<dots> = concat (map pair [0..<100])"
    unfolding map_concat map_map by (intro arg_cong [of _ _ concat] map_cong) (auto simp: pair_def digit_char_def)
  finally show ?thesis .
qed

lemma slice_of_pairs:
  "(\<And>x. length (f x) = 2) \<Longrightarrow> k < length xs \<Longrightarrow> bslice (2 * k) (2 * k + 2) (concat (map f xs)) = f (xs ! k)"
proof (induction k arbitrary: xs)
  case (Suc k)
  then show ?case by (cases xs) (auto simp: bslice_def)
qed (auto simp: bslice_def neq_Nil_conv)

lemma lut_val [simp]: "k < 100 \<Longrightarrow> lut (int k * 2) = Ok (pair k)"
proof -
  assume k: "k < 100"
  have "length (concat (map pair xs)) = 2 * length xs" for xs by (induction xs) (simp_all add: pair_def)
  then have "length DEC_DIGITS_LUT = 200" unfolding table_pairs by simp
  moreover have "bslice (2 * k) (2 * k + 2) DEC_DIGITS_LUT = pair k"
    unfolding table_pairs using slice_of_pairs [of pair k "[0..<100]"] k by (simp add: pair_def)
  moreover have "nat (int k * 2) = 2 * k" by simp
  ultimately show ?thesis using k by (simp add: lut_def mult.commute)
qed

lemma sdiv_nat: "int a sdiv int b = int (a div b)" "int a smod int b = int (a mod b)"
  by (simp_all add: signed_divide_int_def signed_modulo_int_def sgn_if of_nat_div of_nat_mod)

lemma as_isize_val: "n < 2 ^ 63 \<Longrightarrow> as_isize (of_val n) = int n"
proof -
  assume n: "n < 2 ^ 63"
  then have "unat (low (of_val n)) = n" by (intro low_of_val) simp
  then have "uint (low (of_val n)) = int n" by (simp only: uint_nat)
  then show ?thesis using n by (simp add: as_isize_def signed_take_bit_int_eq_self)
qed

lemma digits_of_pairs:
  assumes "100 \<le> n"
  shows "digits_of Binary 10 n = digits_of Binary 10 (n div 100) @ pair (n mod 100)"
proof -
  have "10 \<le> n" "10 \<le> n div 10" "n div 10 div 10 = n div 100" "n div 10 mod 10 = n mod 100 div 10" "n mod 100 mod 10 = n mod 10"
    using assms by (simp_all add: div_mult2_eq [symmetric] mod_mult2_eq [of n 10 10, simplified] mod_mod_cancel)
  then show ?thesis by (simp add: digits_of_big [of 10 n] digits_of_big [of 10 "n div 10"] pair_def)
qed

lemma length_pair [simp]: "length (pair k) = 2"
  by (simp add: pair_def)

lemma put_val: "length bs + length buf \<le> 79 \<Longrightarrow> put bs buf = Ok (bs @ buf)"
  by (simp add: put_def)

lemma decimal_loop_val:
  "length (digits_of Binary 10 (uval n)) + length buf \<le> 79 \<Longrightarrow>
    \<exists>n' ds. (decimal_loop n buf :: ('e, U256 \<times> bytes) outcome) = Ok (n', ds @ buf) \<and> uval n' < 10000 \<and>
      digits_of Binary 10 (uval n) = digits_of Binary 10 (uval n') @ ds"
proof (induction "uval n" arbitrary: n buf rule: less_induct)
  case less
  show ?case
  proof (cases "10000 \<le> uval n")
    case False
    then show ?thesis by (simp add: decimal_loop.simps [of n] le_uval)
  next
    case True
    define q r where "q = uval n div 10000" and "r = uval n mod 10000"
    have r: "r < 10000" and q: "q < uval n" using True by (simp_all add: q_def r_def)
    have parts: "uval n div 100 div 100 = q" "uval n div 100 mod 100 = r div 100" "uval n mod 100 = r mod 100"
      using mod_mult2_eq [of "uval n" 100 100]
      by (simp_all add: q_def r_def div_mult2_eq [symmetric] mod_mod_cancel)
    have ds: "digits_of Binary 10 (uval n) = digits_of Binary 10 q @ pair (r div 100) @ pair (r mod 100)"
      using True digits_of_pairs [of "uval n"] digits_of_pairs [of "uval n div 100"] by (simp add: parts)
    have room: "length (digits_of Binary 10 q) + length (pair (r div 100) @ pair (r mod 100) @ buf) \<le> 79"
      using less.prems by (simp add: ds)
    have isize: "as_isize (of_val r) = int r" by (rule as_isize_val) (use r in simp)
    have step: "(decimal_loop n buf :: ('e, U256 \<times> bytes) outcome) =
        decimal_loop (of_val q) (pair (r div 100) @ pair (r mod 100) @ buf)"
      unfolding decimal_loop.simps [of n buf] using True r room isize
      by (simp add: le_uval div_rem_val q_def [symmetric] r_def [symmetric] sdiv_nat [of _ 100, simplified] put_val)
    have u: "uval (of_val q) = q" unfolding q_def by (rule uval_quotient)
    obtain n' ds' where "(decimal_loop (of_val q) (pair (r div 100) @ pair (r mod 100) @ buf) :: ('e, U256 \<times> bytes) outcome)
        = Ok (n', ds' @ pair (r div 100) @ pair (r mod 100) @ buf)" "uval n' < 10000"
        "digits_of Binary 10 q = digits_of Binary 10 (uval n') @ ds'"
      using less.hyps [of "of_val q" "pair (r div 100) @ pair (r mod 100) @ buf"] q room unfolding u by auto
    then show ?thesis unfolding step ds by (intro exI conjI) auto
  qed
qed

lemma last_digits_val:
  assumes "n < 10000" "length (digits_of Binary 10 n) + length buf \<le> 79"
  shows "(last_digits (int n) buf :: ('e, bytes) outcome) = Ok (digits_of Binary 10 n @ buf)"
proof -
  have small: "(if int m < 10 then put [word_of_int (int m) + 48] b else bnd (lut (push_bit 1 (int m))) (\<lambda>c. put c b)
        :: ('e, bytes) outcome) = Ok (digits_of Binary 10 m @ b)" if "m < 100" "length (digits_of Binary 10 m) + length b \<le> 79" for m b
  proof (cases "m < 10")
    case True
    then show ?thesis using that by (simp add: digits_of_small put_val digit_char_def add.commute)
  next
    case False
    then have "digits_of Binary 10 m = pair m"
      using that(1) by (simp add: digits_of_big digits_of_small pair_def)
    then show ?thesis using False that by (simp add: put_val)
  qed
  show ?thesis
  proof (cases "100 \<le> n")
    case True
    note ds = digits_of_pairs [OF True]
    then show ?thesis
      using assms True small [of "n div 100" "pair (n mod 100) @ buf"]
      by (simp add: last_digits_def sdiv_nat [of _ 100, simplified] put_val ds)
  next
    case False
    then show ?thesis using small [of n buf] assms(2) by (simp add: last_digits_def)
  qed
qed

lemma fmt_u256_val: "(fmt_u256 x nonneg :: ('e, bytes) outcome) = Ok (pad_integral nonneg [] (digits_of Binary 10 (uval x)))"
proof -
  have "uval x < 10 ^ 78" by (rule less_trans [OF uval_less]) simp
  then have room: "length (digits_of Binary 10 (uval x)) + length ([] :: bytes) \<le> 79"
    using digits_of_length [of 10 "uval x" 78 Binary] by simp
  obtain n ds where d: "(decimal_loop x [] :: ('e, U256 \<times> bytes) outcome) = Ok (n, ds @ [])" "uval n < 10000"
      "digits_of Binary 10 (uval x) = digits_of Binary 10 (uval n) @ ds"
    using decimal_loop_val [OF room] by blast
  have "as_isize n = int (uval n)" using as_isize_val [of "uval n"] d(2) by simp
  moreover have "(last_digits (int (uval n)) ds :: ('e, bytes) outcome) = Ok (digits_of Binary 10 (uval n) @ ds)"
    using last_digits_val [OF d(2), of ds] room d(3) by simp
  ultimately show ?thesis using d by (simp add: fmt_u256_def)
qed

section \<open>Properties\<close>

lemma ascii_signs [simp]: "ascii ''-'' = [45]" "length (PREFIX r) = 2" "PREFIX r \<noteq> []" "hd (PREFIX r) = 48"
  by (cases r; simp add: ascii_def PREFIX_def)+

text \<open>What the parser makes of the sign and the prefix the writers put in front of the digits.\<close>

lemma first_digit: "digits_value b ds 0 = Some n \<Longrightarrow> ds \<noteq> [] \<Longrightarrow> unat (hd ds) \<notin> {43, 45}"
  by (cases ds) (auto simp: to_digit_def Let_def split: option.splits if_splits)

lemma split_sign_digits:
  assumes "ds \<noteq> []" "unat (hd (pre @ ds)) \<notin> {43, 45}"
  shows "split_sign sg (pad_integral True pre ds) = Ok (True, pre @ ds)"
    "split_sign True (pad_integral False pre ds) = Ok (False, pre @ ds)"
  using assms by (auto simp: split_sign_def pad_integral_def Let_def)

lemma pad_integral_nonempty: "ds \<noteq> [] \<Longrightarrow> pad_integral nonneg pre ds \<noteq> []"
  by (simp add: pad_integral_def)

lemma read_u256:
  assumes "2 \<le> b" "b \<le> 16" "\<And>p. pre = Some p \<Longrightarrow> p \<noteq> [] \<and> hd p = 48"
  shows "from_str_radix u256_radix (pad_integral True (case pre of None \<Rightarrow> [] | Some p \<Rightarrow> p) (digits_of r b (uval x))) b pre
    = Ok x"
proof -
  define ds where "ds = digits_of r b (uval x)"
  have ds: "ds \<noteq> []" "digits_value b ds 0 = Some (uval x)" unfolding ds_def by (simp_all add: digits_of_value assms(1,2))
  have "unat (hd ((case pre of None \<Rightarrow> [] | Some p \<Rightarrow> p) @ ds)) \<notin> {43, 45}"
    using first_digit [OF ds(2,1)] assms(3) by (auto split: option.splits)
  note sign = split_sign_digits(1) [OF ds(1) this]
  have fits: "in_bounds 0 (2 ^ 256 - 1) (signed_value True (uval x))"
    using uval_less [of x] by (simp add: in_bounds_def signed_value_def)
  have "of_ival (signed_value True (uval x)) = x" by (simp add: signed_value_def of_val_of_ival [symmetric])
  then show ?thesis
    using u256_text.from_str_radix_value [of b _ True ds pre, OF assms(1) _ pad_integral_nonempty [OF ds(1)] _ ds]
      sign fits assms(2) unfolding ds_def [symmetric] by (auto split: option.splits)
qed

lemma read_i256:
  assumes "2 \<le> b" "b \<le> 16" "\<And>p. pre = Some p \<Longrightarrow> p \<noteq> [] \<and> hd p = 48"
  shows "from_str_radix i256_radix
      (pad_integral (0 \<le> ival x) (case pre of None \<Rightarrow> [] | Some p \<Rightarrow> p) (digits_of r b (nat \<bar>ival x\<bar>))) b pre = Ok x"
proof -
  define ds where "ds = digits_of r b (nat \<bar>ival x\<bar>)"
  have ds: "ds \<noteq> []" "digits_value b ds 0 = Some (nat \<bar>ival x\<bar>)"
    unfolding ds_def by (simp_all add: digits_of_value assms(1,2))
  have "unat (hd ((case pre of None \<Rightarrow> [] | Some p \<Rightarrow> p) @ ds)) \<notin> {43, 45}"
    using first_digit [OF ds(2,1)] assms(3) by (auto split: option.splits)
  note sign = split_sign_digits [OF ds(1) this]
  have value_of: "signed_value (0 \<le> ival x) (nat \<bar>ival x\<bar>) = ival x" by (simp add: signed_value_def)
  have fits: "in_bounds (- (2 ^ 255)) (2 ^ 255 - 1) (ival x)"
    using ival_range [of x] by (simp add: in_bounds_def)
  show ?thesis
    using i256_text.from_str_radix_value [of b _ "0 \<le> ival x" ds pre, OF assms(1) _ pad_integral_nonempty [OF ds(1)] _ ds]
      sign fits assms(2) unfolding ds_def [symmetric] value_of by (cases "0 \<le> ival x") (auto split: option.splits)
qed

lemma uval_negated: "ival x < 0 \<Longrightarrow> uval (of_ival (- ival x)) = nat \<bar>ival x\<bar>"
proof -
  assume x: "ival x < 0"
  then have "- ival x < 2 ^ 256" "0 \<le> - ival x" using ival_range [of x] by simp_all
  then have "int (uval (of_ival (- ival x))) = - ival x" unfolding uval_of_ival by simp
  then show ?thesis using x by linarith
qed

lemma uval_nonneg: "0 \<le> ival x \<Longrightarrow> uval x = nat \<bar>ival x\<bar>"
  using uval_ival [of x] ival_range [of x] by simp

lemma display_i256_val:
  "display_i256 x = Ok (pad_integral (0 \<le> ival x) [] (digits_of Binary 10 (nat \<bar>ival x\<bar>)))"
proof (cases "0 \<le> ival x")
  case False
  have "add3 (u256_not x) U256_ONE = of_ival (- ival x)"
    using i256_neg_val [of x] by (simp add: i256_neg_def)
  then show ?thesis using False uval_negated [of x] by (simp add: display_i256_def i256_less_ival fmt_u256_val)
qed (simp add: display_i256_def i256_less_ival fmt_u256_val uval_nonneg)

lemma fmt_base_i256_val:
  "fmt_base_i256 r True alternate x =
    Ok (pad_integral (0 \<le> ival x) (if alternate then PREFIX r else []) (digits_of r (BASE r) (nat \<bar>ival x\<bar>)))"
  by (cases "0 \<le> ival x")
    (simp_all add: fmt_base_i256_def i256_less_ival fmt_radix_val uval_nonneg wrapping_neg_val uval_negated)

text \<open>C30: text is read back as the number it was written from. \<open>Display\<close> of either 256-bit type writes the
  number's positional notation in base ten (the loop over four digits at a time stays inside its buffer of
  79 characters and its table), with a minus sign for a negative \<open>I256\<close>, and \<open>FromStr\<close> of that text
  returns the number; the binary, octal and hexadecimal forms with their prefix (and the sign the \<open>-\<close> flag
  asks for) are read back by \<open>from_str_radix\<close> with the same radix and prefix.\<close>

theorem text_round_trip:
  "display_u256 x = Ok (digits_of Binary 10 (uval x)) \<and>
   display_i256 y = Ok ((if ival y < 0 then ascii ''-'' else []) @ digits_of Binary 10 (nat \<bar>ival y\<bar>)) \<and>
   bnd (display_u256 x) (from_str u256_radix) = Ok x \<and>
   bnd (display_i256 y) (from_str i256_radix) = Ok y \<and>
   bnd (fmt_radix r x True True) (\<lambda>s. from_str_radix u256_radix s (BASE r) (Some (PREFIX r))) = Ok x \<and>
   bnd (fmt_base_i256 r True True y) (\<lambda>s. from_str_radix i256_radix s (BASE r) (Some (PREFIX r))) = Ok y"
proof (intro conjI)
  have u: "display_u256 x = Ok (pad_integral True [] (digits_of Binary 10 (uval x)))" for x
    by (simp add: display_u256_def fmt_u256_val)
  show "display_u256 x = Ok (digits_of Binary 10 (uval x))" by (simp add: u pad_integral_def)
  show "display_i256 y = Ok ((if ival y < 0 then ascii ''-'' else []) @ digits_of Binary 10 (nat \<bar>ival y\<bar>))"
    by (simp add: display_i256_val pad_integral_def)
  show "bnd (display_u256 x) (from_str u256_radix) = Ok x"
    using read_u256 [of 10 None Binary x] by (simp add: display_u256_def fmt_u256_val from_str_def)
  show "bnd (display_i256 y) (from_str i256_radix) = Ok y"
    using read_i256 [of 10 None y Binary] by (simp add: display_i256_val from_str_def)
  show "bnd (fmt_radix r x True True) (\<lambda>s. from_str_radix u256_radix s (BASE r) (Some (PREFIX r))) = Ok x"
    using read_u256 [of "BASE r" "Some (PREFIX r)" r x] BASE_range [of r] by (simp add: fmt_radix_val)
  show "bnd (fmt_base_i256 r True True y) (\<lambda>s. from_str_radix i256_radix s (BASE r) (Some (PREFIX r))) = Ok y"
    using read_i256 [of "BASE r" "Some (PREFIX r)" y r] BASE_range [of r] by (simp add: fmt_base_i256_val)
qed

end
