(* ===== verification/Wide_Literals.thy ===== *)
theory Wide_Literals
  imports Wide_Text
begin

text \<open>
  Literals of the 256-bit integers (\<open>const_from_str_prefixed\<close> in \<open>ethnum-patch/src/parse.rs\<close>,
  \<open>uint/parse.rs\<close> and \<open>int/parse.rs\<close>): a second parser, evaluated at compile time, with an addition and
  a multiplication of its own.
\<close>

section \<open>Constants\<close>

text \<open>The parser of literals (\<open>uint!\<close>, \<open>int!\<close>) with its own addition and multiplication; \<open>assert!\<close> traps.\<close>

definition check :: "bool \<Rightarrow> ('e, unit) outcome" where
  "check overflow = (if overflow then Trap else Ok ())"

definition const_add :: "U256 \<Rightarrow> u128 \<Rightarrow> ('e, U256) outcome" where
  "const_add a b =
     (let (lo, carry) = overflowing_add (low a) b;
          (hi, overflow) = overflowing_add (high a) (u128_of_bool carry) in
      bnd (check overflow) (\<lambda>_. Ok (from_words hi lo)))"

definition const_mul :: "U256 \<Rightarrow> u128 \<Rightarrow> ('e, U256) outcome" where
  "const_mul a r =
     bnd (u128_shr (low a) 64) (\<lambda>lh.
     bnd (u128_mul (low a AND (2 ^ 64 - 1)) r) (\<lambda>ll.
     bnd (u128_mul lh r) (\<lambda>lh.
     let (hi, overflow) = overflowing_mul (high a) r in
     bnd (check overflow) (\<lambda>_.
     bnd (u128_shl lh 64) (\<lambda>shifted.
     let (lo, overflow) = overflowing_add ll shifted in
     bnd (check overflow) (\<lambda>_.
     bnd (u128_shr lh 64) (\<lambda>carried.
     let (hi, overflow) = overflowing_add hi carried in
     bnd (check overflow) (\<lambda>_. Ok (from_words hi lo)))))))))"

definition is_ascii_whitespace :: "byte \<Rightarrow> bool" where
  "is_ascii_whitespace c \<longleftrightarrow> unat c \<in> {9, 10, 12, 13, 32}"

definition const_digit :: "byte \<Rightarrow> nat \<Rightarrow> nat option" where
  "const_digit c radix =
     (let n = unat c in
      if 48 \<le> n \<and> n \<le> 49 then Some (n - 48)
      else if 50 \<le> n \<and> n \<le> 55 \<and> radix \<in> {8, 10, 16} then Some (n - 48)
      else if 56 \<le> n \<and> n \<le> 57 \<and> radix \<in> {10, 16} then Some (n - 48)
      else if 97 \<le> n \<and> n \<le> 102 \<and> radix = 16 then Some (n - 97 + 10)
      else if 65 \<le> n \<and> n \<le> 70 \<and> radix = 16 then Some (n - 65 + 10)
      else None)"

fun const_loop :: "nat \<Rightarrow> bytes \<Rightarrow> U256 \<Rightarrow> ('e, U256) outcome" where
  "const_loop radix [] value = Ok value"
| "const_loop radix (c # cs) value =
     (if unat c = 95 \<or> is_ascii_whitespace c then const_loop radix cs value
      else case const_digit c radix of
        None \<Rightarrow> Trap
      | Some next \<Rightarrow>
          bnd (const_mul value (word_of_nat radix)) (\<lambda>scaled.
          bnd (const_add scaled (word_of_nat next)) (const_loop radix cs)))"

definition const_from_str_prefixed :: "bytes \<Rightarrow> nat \<Rightarrow> ('e, U256) outcome" where
  "const_from_str_prefixed bs start =
     (if \<not> start < length bs then Trap
      else
        let (radix, i) =
          (if 2 < length bs - start then
             (if take 2 (drop start bs) = ascii ''0b'' then (2, start + 2)
              else if take 2 (drop start bs) = ascii ''0o'' then (8, start + 2)
              else if take 2 (drop start bs) = ascii ''0x'' then (16, start + 2)
              else (10, start))
           else (10, start)) in
        const_loop radix (drop i bs) U256_ZERO)"

definition const_u256 :: "bytes \<Rightarrow> ('e, U256) outcome" where
  "const_u256 src =
     (if src = [] then Trap else const_from_str_prefixed src (if unat (hd src) = 43 then 1 else 0))"

definition const_i256 :: "bytes \<Rightarrow> ('e, I256) outcome" where
  "const_i256 src =
     (if src = [] then Trap
      else
        let (negate, start) =
          (if unat (hd src) = 43 then (False, 1) else if unat (hd src) = 45 then (True, 1) else (False, 0)) in
        bnd (const_from_str_prefixed src start) (\<lambda>u.
        let int =
          (if negate then
             let (lo, carry) = overflowing_add (NOT (low u)) 1 in
             from_words (NOT (high u) + u128_of_bool carry) lo
           else from_words (high u) (low u)) in
        if \<not> negate \<and> signum128 int = - 1 \<or> negate \<and> signum128 int = 1 then Trap else Ok int))"

text \<open>The product loses a carry between the two halves of the low word: it reports an overflow there.\<close>

definition mul_carries :: "nat \<Rightarrow> nat \<Rightarrow> bool" where
  "mul_carries n r \<longleftrightarrow> 2 ^ 128 \<le> n mod 2 ^ 64 * r + n mod 2 ^ 128 div 2 ^ 64 * r mod 2 ^ 64 * 2 ^ 64"

lemma uval_split: "uval a mod 2 ^ 128 = unat (low a)" "uval a div 2 ^ 128 = unat (high a)"
proof -
  have "0 < (2 :: nat) ^ 128" by simp
  then show "uval a mod 2 ^ 128 = unat (low a)" "uval a div 2 ^ 128 = unat (high a)"
    unfolding uval_def using unat_u128_less [of "low a"] by (simp_all only: mod_mult_self3 mod_less div_mult_self3 div_less add_0_right less_imp_neq [symmetric] not_False_eq_True)
qed

lemma scaled_split:
  fixes h l1 l0 r m :: nat
  shows "(h * r + l1 * r div m) * (m * m) + (l0 * r + l1 * r mod m * m) = (h * (m * m) + (l1 * m + l0)) * r"
proof -
  have "l1 * r = l1 * r div m * m + l1 * r mod m" by simp
  then have "l1 * r div m * (m * m) + l1 * r mod m * m = l1 * r * m" by (metis add_mult_distrib mult.assoc)
  then show ?thesis by (simp add: algebra_simps)
qed

lemma const_mul_val:
  assumes "r \<le> 16"
  shows "(const_mul a (word_of_nat r) :: ('e, U256) outcome) =
    (if 2 ^ 256 \<le> uval a * r \<or> mul_carries (uval a) r then Trap else Ok (of_val (uval a * r)))"
proof -
  define l0 l1 h :: nat where "l0 = unat (low a AND LOWER_MASK)" and "l1 = unat (drop_bit 64 (low a))"
    and "h = unat (high a)"
  have mask: "(2 ^ 64 - 1 :: u128) = LOWER_MASK" by (simp add: LOWER_MASK_def mask_eq_exp_minus_1)
  have l: "l0 < 2 ^ 64" "l1 < 2 ^ 64" "unat (low a) = l1 * 2 ^ 64 + l0"
    unfolding l0_def l1_def by (rule unat_low64_less unat_high64 halves64)+
  have r: "unat (word_of_nat r :: u128) = r" using assms by (simp add: unsigned_of_nat take_bit_nat_eq_self)
  have small: "x * r < 2 ^ 128" if "x < 2 ^ 64" for x
  proof -
    have "x * r \<le> 2 ^ 64 * 16" using that assms by (intro mult_le_mono) simp_all
    also have "\<dots> < (2 :: nat) ^ 128" by simp
    finally show ?thesis .
  qed
  define sh where "sh = push_bit 64 (drop_bit 64 (low a) * word_of_nat r)"
  define ll where "ll = (low a AND LOWER_MASK) * word_of_nat r"
  define ca where "ca = drop_bit 64 (drop_bit 64 (low a) * word_of_nat r :: u128)"
  have m0: "(u128_mul (low a AND LOWER_MASK) (word_of_nat r) :: ('e, u128) outcome) = Ok ll" "unat ll = l0 * r"
    using u128_mul_val [of "low a AND LOWER_MASK" "word_of_nat r", where ?'a = 'e] small [OF l(1)] unfolding ll_def l0_def r by simp_all
  have m1: "(u128_mul (drop_bit 64 (low a)) (word_of_nat r) :: ('e, u128) outcome) = Ok (drop_bit 64 (low a) * word_of_nat r)"
    "unat (drop_bit 64 (low a) * word_of_nat r) = l1 * r"
    using u128_mul_val [of "drop_bit 64 (low a)" "word_of_nat r", where ?'a = 'e] small [OF l(2)] unfolding l1_def r by simp_all
  have sh: "unat sh = l1 * r mod 2 ^ 64 * 2 ^ 64"
    unfolding sh_def unat_shl m1(2) pow_128 by (simp only: mult_mod_left)
  have ca: "unat ca = l1 * r div 2 ^ 64" unfolding ca_def unat_shr m1(2) ..
  define hr where "hr = high a * word_of_nat r"
  have step: "(const_mul a (word_of_nat r) :: ('e, U256) outcome) =
      (if 2 ^ 128 \<le> h * r \<or> 2 ^ 128 \<le> unat ll + unat sh \<or> 2 ^ 128 \<le> unat hr + unat ca then Trap
       else Ok (from_words (hr + ca) (ll + sh)))"
    unfolding const_mul_def mask m0(1)
    by (simp add: m1 overflowing_mul_def overflowing_add_def check_def r h_def [symmetric]
        hr_def [symmetric] sh_def [symmetric] ca_def [symmetric])
  define hi lo where "hi = h * r + l1 * r div 2 ^ 64" and "lo = l0 * r + l1 * r mod 2 ^ 64 * 2 ^ 64"
  have lo: "unat ll + unat sh = lo" by (simp only: lo_def m0 sh)
  have halves: "uval a mod 2 ^ 64 = l0" "uval a mod 2 ^ 128 div 2 ^ 64 = l1"
  proof -
    have "uval a mod 2 ^ 128 mod 2 ^ 64 = uval a mod 2 ^ 64" by (simp add: mod_mod_cancel)
    then show "uval a mod 2 ^ 64 = l0" using l(1) unfolding uval_split l(3) by (simp only: mod_mult_self3 mod_less)
    show "uval a mod 2 ^ 128 div 2 ^ 64 = l1" using l(1) unfolding uval_split l(3) by simp
  qed
  have carries: "mul_carries (uval a) r = (2 ^ 128 \<le> lo)"
    unfolding mul_carries_def halves lo_def by (rule refl)
  have val: "uval a * r = hi * 2 ^ 128 + lo"
    unfolding hi_def lo_def pow_128 scaled_split by (simp only: uval_def l(3) h_def pow_128 [symmetric])
  show ?thesis
  proof (cases "2 ^ 128 \<le> lo")
    case True
    then show ?thesis unfolding step lo carries by simp
  next
    case False
    have over: "(2 ^ 256 \<le> uval a * r) = (2 ^ 128 \<le> hi)"
      unfolding val pow_256 using False pair_less [of hi "2 ^ 128" lo] mult_le_mono1 [of "2 ^ 128" hi "2 ^ 128"]
      by (meson not_le trans_le_add1 order_trans)
    show ?thesis
    proof (cases "2 ^ 128 \<le> h * r")
      case True
      then have "2 ^ 128 \<le> hi" unfolding hi_def by (rule trans_le_add1)
      then show ?thesis unfolding step over using True by simp
    next
      case small: False
      then have hr: "unat hr = h * r" unfolding hr_def unat_mul_wrap r h_def by (simp only: not_le mod_less)
      have "unat hr + unat ca = hi" by (simp only: hr ca hi_def)
      then have "uval (from_words (hr + ca) (ll + sh)) = uval a * r" if "\<not> 2 ^ 128 \<le> hi"
        using that False unfolding uval_def [of "from_words _ _"] val
        by (simp only: U256.sel unat_add_wrap lo not_le mod_less)
      note r = this [THEN eq_of_val]
      show ?thesis unfolding step over carries lo hr ca hi_def [symmetric] using small False r by simp
    qed
  qed
qed

lemma const_add_val:
  assumes "d < 2 ^ 128"
  shows "(const_add a (word_of_nat d) :: ('e, U256) outcome) = (if 2 ^ 256 \<le> uval a + d then Trap else Ok (of_val (uval a + d)))"
proof -
  have d: "unat (word_of_nat d :: u128) = d"
    using assms by (simp add: unsigned_of_nat take_bit_nat_eq_self)
  define b where "b = from_words 0 (word_of_nat d)"
  have b: "uval b = d" "high b = 0" "low b = word_of_nat d" by (simp_all add: b_def uval_def d)
  have "\<not> 2 ^ 128 \<le> unat (high a + u128_of_bool x)" for x by (simp only: not_le unat_u128_less)
  then have "(const_add a (word_of_nat d) :: ('e, U256) outcome) = (if snd (uaddc a b) then Trap else Ok (fst (uaddc a b)))"
    by (simp add: const_add_def uaddc_def b Let_def overflowing_add_def check_def)
  then show ?thesis by (simp add: uaddc_of_val b)
qed

lemma const_digit_reads: "radix \<in> {2, 8, 10, 16} \<Longrightarrow> const_digit c radix = to_digit c radix"
proof -
  assume r: "radix \<in> {2, 8, 10, 16}"
  define n where "n = unat c"
  consider "n < 48" | "48 \<le> n" "n \<le> 49" | "50 \<le> n" "n \<le> 55" | "56 \<le> n" "n \<le> 57" | "58 \<le> n" "n \<le> 64"
    | "65 \<le> n" "n \<le> 70" | "71 \<le> n" "n \<le> 96" | "97 \<le> n" "n \<le> 102" | "103 \<le> n" by linarith
  then show ?thesis
    using r unfolding const_digit_def to_digit_def Let_def n_def [symmetric] by cases auto
qed

lemma digit_not_skipped: "to_digit c radix = Some d \<Longrightarrow> unat c \<noteq> 95 \<and> \<not> is_ascii_whitespace c"
  by (auto simp: to_digit_def is_ascii_whitespace_def Let_def split: if_splits)

lemma const_loop_digit:
  assumes "radix \<in> {2, 8, 10, 16}" "to_digit c radix = Some d" "n < 2 ^ 256"
  shows "const_loop radix (c # cs) (of_val n) =
    (if 2 ^ 256 \<le> n * radix + d \<or> mul_carries n radix then Trap else const_loop radix cs (of_val (n * radix + d)))"
proof -
  have r: "radix \<le> 16" and d: "d < 2 ^ 128" using assms(1) to_digit_less [OF assms(2)] by auto
  have n: "uval (of_val n) = n" by (rule uval_of_val_small [OF assms(3)])
  have "uval (of_val (n * radix)) = n * radix" if "\<not> 2 ^ 256 \<le> n * radix"
    using that by (intro uval_of_val_small) simp
  then show ?thesis
    using digit_not_skipped [OF assms(2)] assms(1,2) const_digit_reads [of radix c]
    by (simp add: const_mul_val [OF r] const_add_val [OF d] n)
qed

declare const_loop.simps(2) [simp del]

text \<open>The carry is lost in base ten only: a power of two leaves room for it.\<close>

lemma no_carry_power_of_two:
  assumes "radix = 2 ^ k" "k \<le> 4"
  shows "\<not> mul_carries n radix"
proof -
  define l1 where "l1 = n mod 2 ^ 128 div 2 ^ 64"
  have m: "(2 :: nat) ^ 64 = 2 ^ (64 - k) * 2 ^ k" using assms(2) by (simp only: power_add [symmetric]) simp
  have "l1 mod 2 ^ (64 - k) < 2 ^ (64 - k)" by simp
  then have below: "l1 mod 2 ^ (64 - k) \<le> 2 ^ (64 - k) - 1" by linarith
  have "l1 * radix mod 2 ^ 64 = l1 mod 2 ^ (64 - k) * 2 ^ k" unfolding m assms(1) by (simp only: mult_mod_left)
  also have "\<dots> \<le> (2 ^ (64 - k) - 1) * 2 ^ k"  by (intro mult_le_mono1 below)
  also have "\<dots> = 2 ^ 64 - 2 ^ k" unfolding m by (simp only: diff_mult_distrib mult_1)
  finally have hi: "l1 * radix mod 2 ^ 64 * 2 ^ 64 \<le> (2 ^ 64 - 2 ^ k) * 2 ^ 64" by (rule mult_le_mono1)
  have lo: "n mod 2 ^ 64 * radix < 2 ^ 64 * 2 ^ k" unfolding assms(1) by simp
  have "(2 :: nat) ^ k \<le> 2 ^ 64" using assms(2) by (intro power_increasing) simp_all
  then have "(2 ^ 64 - 2 ^ k) * 2 ^ 64 + 2 ^ 64 * 2 ^ k = (2 :: nat) ^ 128"
    unfolding pow_128 diff_mult_distrib by (simp only: mult.commute [of "2 ^ 64" "2 ^ k"] le_add_diff_inverse2 mult_le_mono1)
  then show ?thesis using hi lo unfolding mul_carries_def l1_def by linarith
qed

lemma const_loop_exact:
  assumes "radix \<in> {2, 8, 16}"
  shows "acc < 2 ^ 256 \<Longrightarrow> digits_value radix ds acc = Some n \<Longrightarrow>
    (const_loop radix ds (of_val acc) :: ('e, U256) outcome) = (if 2 ^ 256 \<le> n then Trap else Ok (of_val n))"
proof (induction ds arbitrary: acc)
  case (Cons c cs)
  from Cons.prems obtain d where d: "to_digit c radix = Some d"
    and rest: "digits_value radix cs (acc * radix + d) = Some n" by (auto split: option.splits)
  have radix: "radix \<in> {2, 8, 10, 16}" "0 < radix" using assms by auto
  have "radix = 2 ^ 1 \<or> radix = 2 ^ 3 \<or> radix = 2 ^ 4" using assms by auto
  then have "\<not> mul_carries acc radix" by (elim disjE) (erule no_carry_power_of_two, simp)+
  moreover have "acc * radix + d \<le> n" by (rule digits_value_grows [OF rest radix(2)])
  ultimately show ?case
    using Cons.IH [OF _ rest] by (auto simp: const_loop_digit [OF radix(1) d Cons.prems(1)])
qed simp

text \<open>Evaluating the decimal parser on numerals: a step fails when the product carries or the value does not fit.\<close>

fun decimal_value :: "nat list \<Rightarrow> nat \<Rightarrow> nat option" where
  "decimal_value [] acc = Some acc"
| "decimal_value (d # ds) acc =
     (if 2 ^ 256 \<le> acc * 10 + d \<or> mul_carries acc 10 then None else decimal_value ds (acc * 10 + d))"

lemma const_loop_decimal:
  "acc < 2 ^ 256 \<Longrightarrow> list_all (\<lambda>d. d < 10) ds \<Longrightarrow>
    const_loop 10 (map (digit_char Binary) ds) (of_val acc) =
      (case decimal_value ds acc of None \<Rightarrow> Trap | Some n \<Rightarrow> Ok (of_val n))"
  by (induction ds arbitrary: acc) (simp_all add: const_loop_digit to_digit_char)

lemma decimal_digits_value:
  "list_all (\<lambda>d. d < 10) ds \<Longrightarrow>
    digits_value 10 (map (digit_char Binary) ds) acc = Some (fold (\<lambda>d n. n * 10 + d) ds acc)"
  by (induction ds arbitrary: acc) (simp_all add: to_digit_char)

definition carried_literal :: "nat list" where
  "carried_literal = [3,4,0,2,8,2,3,6,6,9,2,0,9,3,8,4,6,3,4,6,3,3,7,4,6,0,7,4,3,1,7,6,8,2,1,1,4,7,0]"

lemma carried_literal_text: "ascii ''340282366920938463463374607431768211470'' = map (digit_char Binary) carried_literal"
  by (simp add: ascii_def carried_literal_def digit_char_def)

lemma carried_literal_carries: "decimal_value carried_literal 0 = None"
  by (simp add: carried_literal_def mul_carries_def)

lemma carried_literal_digits: "list_all (\<lambda>d. d < 10) carried_literal" "fold (\<lambda>d n. n * 10 + d) carried_literal 0 = 2 ^ 128 + 14"
  by (simp_all add: carried_literal_def)

text \<open>the parser of literals refuses a number that is in range. The decimal literal of \<open>2 ^ 128 + 14\<close>
  panics as an overflow in \<open>uint!\<close> and \<open>const_from_str_prefixed\<close>, because the multiplication of that parser
  reports the carry from the low word as one, while \<open>FromStr\<close> reads the same text as that number.\<close>

theorem literal_in_range_is_rejected:
  "const_u256 (ascii ''340282366920938463463374607431768211470'') = Trap \<and>
   from_str u256_radix (ascii ''340282366920938463463374607431768211470'') = Ok (of_val (2 ^ 128 + 14))"
proof
  define s where "s = ascii ''340282366920938463463374607431768211470''"
  note spelled = s_def [unfolded carried_literal_text]
  have len: "length s = 39" by (simp add: spelled carried_literal_def)
  have start: "take 2 s = [51, 52]" "s \<noteq> []" "hd s = 51"
    by (simp_all add: spelled carried_literal_def digit_char_def)
  have zero: "U256_ZERO = of_val 0" by (rule eq_of_val) simp
  have "const_loop 10 s U256_ZERO = Trap"
    unfolding spelled zero
    by (subst const_loop_decimal) (simp_all only: carried_literal_digits carried_literal_carries option.case, simp)
  then show "const_u256 (ascii ''340282366920938463463374607431768211470'') = Trap"
    unfolding s_def [symmetric] by (simp add: const_u256_def const_from_str_prefixed_def len start ascii_def)
  have sign: "split_sign ((0 :: int) < 0) s = Ok (True, (case None of None \<Rightarrow> s | Some p \<Rightarrow> p @ s))"
    by (simp add: split_sign_def start)
  have reads: "digits_value 10 s 0 = Some (2 ^ 128 + 14)"
    unfolding spelled by (simp only: decimal_digits_value carried_literal_digits)
  show "from_str u256_radix (ascii ''340282366920938463463374607431768211470'') = Ok (of_val (2 ^ 128 + 14))"
    unfolding s_def [symmetric] from_str_def of_val_of_ival
    using u256_text.from_str_radix_value [OF _ _ start(2) sign start(2) reads]
    by (simp add: in_bounds_def signed_value_def)
qed

end
