(* ===== verification/Proxy_Router.thy ===== *)
theory Proxy_Router
  imports Payment_Proxy Router_Payments
begin

text \<open>
  The payment proxy in front of the router: the logic contract that \<open>forward\<close> calls is the router's
  own model, so that what a session key is charged in the proxy can be compared with what leaves its
  account in the router. The router's ledger, with the tokens behind it, is the proxy's outside world.
\<close>

section \<open>The router as a logic contract\<close>

text \<open>\<open>Vec<Payment>\<close> from the dynamically typed argument.\<close>

fun payments_of :: "sval list \<Rightarrow> Payment list option" where
  "payments_of [] = Some []"
| "payments_of (v # vs) =
     (case v of VPayment p \<Rightarrow> map_option (Cons p) (payments_of vs) | _ \<Rightarrow> None)"

definition unit_reply :: "('w, unit) res \<Rightarrow> (sval \<times> 'w ledger) option" where
  "unit_reply r = (case r of Ok (_, s) \<Rightarrow> Some (VVoid, s) | _ \<Rightarrow> None)"

text \<open>
  The direct payment entry points of the router, called by name as the SDK does; the caller sees any
  failure as a failed call.
\<close>

definition router_entry :: "'w renv \<Rightarrow> string \<Rightarrow> sval list \<Rightarrow> 'w ledger \<Rightarrow> (sval \<times> 'w ledger) option" where
  "router_entry e func args s =
     (if func = ''route_payment'' then
        (case args of [VAddress sender, VAddress recipient, VAddress tok, VI128 amount] \<Rightarrow>
           unit_reply (route_payment e sender recipient tok amount s) | _ \<Rightarrow> None)
      else if func = ''route_payments'' then
        (case args of [VVec vs] \<Rightarrow>
           (case payments_of vs of Some ps \<Rightarrow> unit_reply (route_payments e ps s) | None \<Rightarrow> None) | _ \<Rightarrow> None)
      else if func = ''withdraw_refund'' then
        (case args of [VAddress user, VAddress tok, VI128 amount] \<Rightarrow>
           unit_reply (withdraw_refund e user tok amount s) | _ \<Rightarrow> None)
      else None)"

text \<open>The proxy environment whose logic contract at \<open>router\<close> is the router in its own environment.\<close>

definition serves :: "address \<Rightarrow> 'w renv \<Rightarrow> 'w ledger proxy_env \<Rightarrow> bool" where
  "serves router re pe \<longleftrightarrow> logic_call pe router = router_entry re \<and> self re = router"

section \<open>What a payment takes from an account\<close>

text \<open>What \<open>x\<close> lost over the tokens of \<open>T\<close>.\<close>

definition lost :: "(address \<Rightarrow> address \<Rightarrow> 'w \<Rightarrow> int option) \<Rightarrow> address set \<Rightarrow> address \<Rightarrow> 'w ledger \<Rightarrow> 'w ledger \<Rightarrow> int" where
  "lost bal T x s s' = (\<Sum>t\<in>T. holding bal t x (world s) - holding bal t x (world s'))"

lemma lost_trans: "lost bal T x s s' + lost bal T x s' s'' = lost bal T x s s''"
  by (simp add: lost_def sum.distrib [symmetric])

lemma lost_same [simp]: "world s' = world s \<Longrightarrow> lost bal T x s s' = 0"
  by (simp add: lost_def)

lemma flow_loss:
  assumes "finite T" "0 \<le> a"
  shows "(\<Sum>t\<in>T. - flow tok src dst a t x) \<le> (if x = src then a else 0)"
proof -
  have "(\<Sum>t\<in>T. - flow tok src dst a t x) = (\<Sum>t\<in>T. if t = tok then (if x = src then a else 0) - (if x = dst then a else 0) else 0)"
    by (rule sum.cong) (simp_all add: flow_def)
  also have "\<dots> \<le> (if x = src then a else 0)" using assms by (simp add: sum.delta)
  finally show ?thesis .
qed

lemma settled_loss:
  assumes "settled bal tok sender recipient router tr fee rest s s'" "finite T" "0 \<le> fee" "0 \<le> rest"
  shows "lost bal T x s s' \<le> (if x = sender then fee + rest else 0)"
proof -
  obtain target where h: "\<forall>t x. holding bal t x (world s') = holding bal t x (world s)
      + flow tok sender tr fee t x + flow tok sender target rest t x"
    using assms(1) unfolding settled_def by blast
  have "lost bal T x s s' = (\<Sum>t\<in>T. - flow tok sender tr fee t x) + (\<Sum>t\<in>T. - flow tok sender target rest t x)"
    unfolding lost_def sum.distrib [symmetric] by (rule sum.cong) (simp_all add: h)
  then show ?thesis
    using flow_loss [OF assms(2,3), of tok sender tr x] flow_loss [OF assms(2,4), of tok sender target x]
    by (simp split: if_splits)
qed

lemma payment_loss:
  assumes "token_contract (tok_balance e) (tok_transfer e)" "finite T"
    and "process_single_payment e a b tok k tr bps cap s = Ok s'" "0 \<le> k" "0 \<le> bps" "0 \<le> cap"
  shows "lost (tok_balance e) T x s s' \<le> spend_of x [(a, k)]"
proof -
  obtain fee rest where f: "0 \<le> fee" "0 \<le> rest" "fee + rest = k"
    "settled (tok_balance e) tok a b (self e) tr fee rest s s'"
    using process_single_payment_settled [OF assms(1,3-6)] by blast
  show ?thesis using settled_loss [OF f(4) assms(2) f(1,2), of x] f(3)
    by (cases "x = a") (simp_all add: spend_of_def)
qed

lemma payments_loss:
  assumes "token_contract (tok_balance e) (tok_transfer e)" "finite T" "0 \<le> bps" "0 \<le> cap"
  shows "process_payments e tr bps cap ps s = Ok s' \<Longrightarrow> \<forall>p\<in>set ps. 0 \<le> p_amount p \<Longrightarrow>
    lost (tok_balance e) T x s s' \<le> spend_of x (map (\<lambda>p. (p_sender p, p_amount p)) ps)
    \<and> load_fee_config s' = load_fee_config s"
proof (induction ps arbitrary: s)
  case (Cons p ps)
  then obtain u where u: "process_single_payment e (p_sender p) (p_recipient p) (p_token p) (p_amount p) tr bps cap s = Ok u"
    "process_payments e tr bps cap ps u = Ok s'" by (auto simp: outcome_simps)
  have "lost (tok_balance e) T x s u \<le> spend_of x [(p_sender p, p_amount p)]"
    by (rule payment_loss [OF assms(1,2) u(1) _ assms(3,4)]) (use Cons.prems in simp)
  with Cons.IH [OF u(2)] Cons.prems(2) lost_trans [of "tok_balance e" T x s u s'] process_frame_fields(1) [OF u(1)]
  show ?case by (auto simp: spend_of_def)
qed (simp add: spend_of_def)

lemma refund_shape:
  assumes "withdraw_refund e u tok k s = Ok ((), s')"
  shows "\<exists>w. tok_transfer e tok (self e) u k (world s) = Done w \<and> world s' = w \<and> 0 < k
    \<and> load_fee_config s' = load_fee_config s"
proof -
  obtain w b where "tok_transfer e tok (self e) u k (world s) = Done w" "0 < k"
    "s' = emit ''withdrawn'' [AddrArg u, AddrArg tok, IntArg k] (s\<lparr>pRefundBalance := b, world := w\<rparr>)"
    using assms by (auto simp: withdraw_refund_def bnd_eq_Ok transfer_eq Let_def split: if_splits)
  then show ?thesis by (simp add: load_fee_config_def)
qed

text \<open>Every call of the router takes from an account at most what the call presents to the proxy.\<close>

lemma router_entry_loss:
  assumes "router_entry e func args s = Some (r, s')"
    and "token_contract (tok_balance e) (tok_transfer e)" "finite T" "x \<noteq> self e"
    and "load_fee_config s = Ok (tr, bps, cap)" "0 \<le> bps" "0 \<le> cap"
  shows "lost (tok_balance e) T x s s' \<le> spend_of x (presented func args)
    \<and> load_fee_config s' = load_fee_config s"
proof -
  have reply: "\<And>q. unit_reply q = Some (r, s') \<Longrightarrow> q = Ok ((), s')"
    by (auto simp: unit_reply_def split: outcome.splits)
  consider (pay) a b tok k where "func = ''route_payment''" "args = [VAddress a, VAddress b, VAddress tok, VI128 k]"
      "route_payment e a b tok k s = Ok ((), s')"
    | (batch) vs ps where "func = ''route_payments''" "args = [VVec vs]" "payments_of vs = Some ps"
      "route_payments e ps s = Ok ((), s')"
    | (refund) u tok k where "func = ''withdraw_refund''" "args = [VAddress u, VAddress tok, VI128 k]"
      "withdraw_refund e u tok k s = Ok ((), s')"
    using assms(1) unfolding router_entry_def
    by (auto split: if_splits list.splits sval.splits option.splits dest!: reply)
  then show ?thesis
  proof cases
    case pay
    then obtain c v where v: "process_single_payment e a b tok k tr bps cap s = Ok v"
      "s' = touch c (heartbeat_after e s) (Some False) v" "0 < k"
      using assms(5) unfolding route_payment_normal by (auto simp: admissible_def)
    have "lost (tok_balance e) T x s s' = lost (tok_balance e) T x s v" by (simp add: lost_def v(2))
    moreover have "presented func args = [(a, k)]" by (simp add: pay presented_def arg_pair_def arg_at_def)
    ultimately show ?thesis
      using payment_loss [OF assms(2,3) v(1) _ assms(6,7), of x] v(3) process_frame_fields(1) [OF v(1)]
      by (simp add: v(2))
  next
    case batch
    then obtain c v where v: "process_payments e tr bps cap ps s = Ok v"
      "s' = touch c (heartbeat_after e s) (Some False) v" "\<forall>p\<in>set ps. 0 \<le> p_amount p"
      using assms(5) unfolding route_payments_normal by (auto simp: admissible_def less_imp_le)
    have items: "payments_of vs = Some ps \<Longrightarrow> concat (map item_pair vs) = map (\<lambda>p. (p_sender p, p_amount p)) ps"
      for ps by (induction vs arbitrary: ps) (auto simp: item_pair_def split: sval.splits)
    have "lost (tok_balance e) T x s s' = lost (tok_balance e) T x s v" by (simp add: lost_def v(2))
    moreover have "presented func args = map (\<lambda>p. (p_sender p, p_amount p)) ps"
      using items [OF batch(3)] by (simp add: batch presented_def arg_at_def)
    ultimately show ?thesis
      using payments_loss [OF assms(2,3,6,7) v(1,3), of x] by (simp add: v(2))
  next
    case refund
    from refund_shape [OF refund(3)]
    obtain w where w: "tok_transfer e tok (self e) u k (world s) = Done w" "world s' = w" "0 < k"
      "load_fee_config s' = load_fee_config s"
      by blast
    have "lost (tok_balance e) T x s s' = (\<Sum>t\<in>T. - flow tok (self e) u k t x)"
      unfolding lost_def by (rule sum.cong) (simp_all add: w(2) token_contract.xfer_holding [OF assms(2) w(1)])
    also have "\<dots> \<le> 0" using flow_loss [OF assms(3), of k tok "self e" u x] w(3) assms(4) by simp
    also have "0 \<le> spend_of x (presented func args)"
      using w(3) by (simp add: refund presented_def arg_pair_def arg_at_def spend_of_def)
    finally show ?thesis using w(4) by simp
  qed
qed

section \<open>Runs of the proxy\<close>

text \<open>Calls that reach the tokens through the router only.\<close>

fun direct_call :: "proxy_call \<Rightarrow> bool" where
  "direct_call (PForward f args) = True"
| "direct_call (PForwardMeta key i sg f args) = True"
| "direct_call (PIntent key i sg) = True"
| "direct_call (PBatch cs) = True"
| "direct_call (PAuthorize key l v) = True"
| "direct_call c = False"

lemma forward_loss:
  assumes "forward pe f args s = Ok (r, t)" "pxLogic s = Some router" "serves router re pe"
    and "token_contract (tok_balance re) (tok_transfer re)" "finite T" "x \<noteq> router"
    and "load_fee_config (pxWorld s) = Ok (tr, bps, cap)" "0 \<le> bps" "0 \<le> cap"
  shows "lost (tok_balance re) T x (pxWorld s) (pxWorld t) \<le> spend_of x (presented f args)
    \<and> load_fee_config (pxWorld t) = load_fee_config (pxWorld s) \<and> pxLogic t = pxLogic s"
  using assms(1)
proof (rule forward_OkD)
  fix logic s1 w
  assume l: "pxLogic s = Some logic" and c: "charge_session_allowance pe f args s = Ok s1"
    and call: "logic_call pe logic f args (pxWorld s1) = Some (r, w)" and t: "t = s1\<lparr>pxWorld := w\<rparr>"
  note frame = charge_items_frame [OF charge_session_items [OF c]]
  have s1: "pxWorld s1 = pxWorld s" "pxLogic s1 = pxLogic s" by (subst frame, simp)+
  have re: "router_entry re f args (pxWorld s) = Some (r, w)" "self re = router"
    using call l assms(2,3) s1(1) by (simp_all add: serves_def)
  from router_entry_loss [OF re(1) assms(4,5) _ assms(7-9), of x] assms(6) re(2)
  show ?thesis by (simp add: t s1)
qed

lemma proxy_exec_loss:
  assumes "proxy_exec pe c s = Ok t" "direct_call c" "pxLogic s = Some router" "serves router re pe"
    and "token_contract (tok_balance re) (tok_transfer re)" "finite T" "x \<noteq> router"
    and "load_fee_config (pxWorld s) = Ok (tr, bps, cap)" "0 \<le> bps" "0 \<le> cap"
  shows "lost (tok_balance re) T x (pxWorld s) (pxWorld t) \<le> spend_of x (call_items c)
    \<and> load_fee_config (pxWorld t) = load_fee_config (pxWorld s) \<and> pxLogic t = pxLogic s"
proof (cases c)
  case (PForward f args)
  with assms(1) obtain r where "forward pe f args s = Ok (r, t)" by (auto simp: outcome_simps)
  from forward_loss [OF this assms(3-10)] show ?thesis by (simp add: PForward)
next
  case (PForwardMeta key i sg f args)
  with assms(1) obtain q u r where u: "execute_payment_intent pe key i sg s = Ok (q, u)"
    "forward pe f args u = Ok (r, t)"
    by (auto simp: forward_with_meta_def outcome_simps)
  have "pxWorld u = pxWorld s" "pxLogic u = pxLogic s" using intent_OkD(6) [OF u(1)] by simp_all
  with forward_loss [OF u(2) _ assms(4-7), of tr bps cap] assms(3,8-10) show ?thesis by (simp add: PForwardMeta)
next
  case (PIntent key i sg)
  with assms(1) obtain r where "execute_payment_intent pe key i sg s = Ok (r, t)" by (auto simp: outcome_simps)
  from intent_OkD(6) [OF this] show ?thesis by (simp add: PIntent spend_of_def)
next
  case (PBatch cs)
  with assms(1) obtain r where "batch_loop pe cs [] s = Ok (r, t)"
    by (auto simp: execute_batch_tolerant_def outcome_simps)
  from batch_loop_frame [OF this] show ?thesis by (simp add: PBatch spend_of_def)
qed (use assms(1,2) in \<open>auto simp: spend_of_def authorize_session_key_def outcome_simps split: if_splits\<close>)

lemma proxy_run_loss:
  assumes "proxy_run cs s = Ok t" "pxLogic s = Some router" "finite T" "x \<noteq> router"
    and "load_fee_config (pxWorld s) = Ok (tr, bps, cap)" "0 \<le> bps" "0 \<le> cap"
    and "\<forall>(pe, c)\<in>set cs. direct_call c
      \<and> (\<exists>re. serves router re pe \<and> tok_balance re = bal \<and> token_contract bal (tok_transfer re))"
  shows "lost bal T x (pxWorld s) (pxWorld t) \<le> spend_of x (run_items cs)"
  using assms(1,2,5,8)
proof (induction cs arbitrary: s)
  case (Cons ec cs)
  obtain pe c where ec: "ec = (pe, c)" by (cases ec)
  with Cons.prems obtain u where u: "proxy_exec pe c s = Ok u" "proxy_run cs u = Ok t"
    by (auto simp: outcome_simps)
  obtain re where re: "direct_call c" "serves router re pe" "tok_balance re = bal"
    "token_contract (tok_balance re) (tok_transfer re)"
    using Cons.prems(4) ec by auto
  note l = proxy_exec_loss [OF u(1) re(1) Cons.prems(2) re(2,4) assms(3,4) Cons.prems(3) assms(6,7)]
  have "lost bal T x (pxWorld u) (pxWorld t) \<le> spend_of x (run_items cs)"
    by (rule Cons.IH [OF u(2)]) (use l Cons.prems in auto)
  moreover have "run_items (ec # cs) = call_items c @ run_items cs" by (simp add: run_items_def ec)
  ultimately show ?case
    using l lost_trans [of bal T x "pxWorld s" "pxWorld u" "pxWorld t"] by (simp add: re(3) spend_of_append)
qed (simp add: run_items_def spend_of_def)

section \<open>Properties\<close>

text \<open>C27: A session key cannot move more than its limit, end to end. When the proxy's logic contract is
  the router, then after the key's owner has granted it \<open>limit\<close>, and whatever calls anybody makes
  through the proxy to the router's direct payment entry points, the balances of the key's account
  over any set of tokens have together fallen by at most what the proxy charged the key, hence by at
  most \<open>limit\<close>, fees included: the proxy charges the amount before the router takes its fee out of it,
  and payments of other accounts and refunds never touch the key's account.\<close>

theorem session_key_moves_at_most_its_limit:
  assumes "authorize_session_key e k limit until s0 = Ok (u, s)" "proxy_run cs s = Ok t"
    and "pxLogic s = Some router" "k \<noteq> router" "finite T"
    and "load_fee_config (pxWorld s) = Ok (tr, bps, cap)" "0 \<le> bps" "0 \<le> cap"
    and "\<forall>(pe, c)\<in>set cs. direct_call c \<and> \<not> key_granted k c
      \<and> (\<exists>re. serves router re pe \<and> tok_balance re = bal \<and> token_contract bal (tok_transfer re))"
  shows "(\<Sum>tok\<in>T. holding bal tok k (world (pxWorld s)) - holding bal tok k (world (pxWorld t)))
      \<le> limit - remaining (the (pxSession t k))
    \<and> pxSession t k \<noteq> None \<and> 0 \<le> remaining (the (pxSession t k))"
proof -
  have l: "0 < limit" "pxSession s k = Some \<lparr>remaining = limit, valid_until = until\<rparr>"
    using assms(1) by (auto simp: authorize_session_key_def outcome_simps)
  have "\<forall>(pe, c)\<in>set cs. \<not> key_granted k c" using assms(9) by auto
  from proxy_run_drawn [OF assms(2) l(2) _ this] l(1)
  have d: "pxSession t k = Some \<lparr>remaining = limit - spend_of k (run_items cs), valid_until = until\<rparr>"
    "spend_of k (run_items cs) \<le> limit" by simp_all
  have "lost bal T k (pxWorld s) (pxWorld t) \<le> spend_of k (run_items cs)"
    by (rule proxy_run_loss [OF assms(2,3,5,4,6-8)]) (use assms(9) in fastforce)
  with d show ?thesis by (simp add: lost_def)
qed

text \<open>Account 5 grants itself 1500 of payments until time 2000 and pays 1000 through the proxy.\<close>

definition sample_front_env :: "nat \<Rightarrow> sworld ledger proxy_env" where
  "sample_front_env t = \<lparr>
     now = t, seq = 7, self = 98, auth = (\<lambda>_. True),
     sha256 = (\<lambda>b. b), ed25519 = (\<lambda>pk m s. s = pk),
     tok_balance = (\<lambda>tok a s. Some (world s tok a)), tok_allowance = (\<lambda>tok a sp s. Some (world s tok a)),
     tok_transfer = (\<lambda>tok src dst a s. Failed), tok_transfer_from = (\<lambda>tok sp src dst a s. Failed),
     network_id = [1], xdr_domain = (\<lambda>d. u32_be (contract_id d)), xdr_intent = (\<lambda>i. u32_be (in_from i)),
     xdr_meta = (\<lambda>p. u32_be (mp_sender p)), px_xdr_address = u32_be,
     logic_call = (\<lambda>l. if l = 99 then router_entry (sample_env t) else (\<lambda>f args s. None))\<rparr>"

definition sample_front :: "sworld ledger proxy" where
  "sample_front = \<lparr>pxAdmin = Some 1, pxLogic = Some 99, pxSession = Map.empty,
     pxMetaNonce = Map.empty, pxNonce = Map.empty, pxWorld = sample_ledger, pxEvents = []\<rparr>"

definition sample_front_run :: "(sworld ledger proxy_env \<times> proxy_call) list" where
  "sample_front_run =
     [(sample_front_env 1000, PForward ''route_payment'' [VAddress 5, VAddress 6, VAddress 50, VI128 1000])]"

theorem session_key_moves_at_most_its_limit_witness:
  "\<exists>s t. authorize_session_key (sample_front_env 900) 5 1500 2000 sample_front = Ok ((), s)
     \<and> proxy_run sample_front_run s = Ok t
     \<and> (\<Sum>tok\<in>{50}. holding (tok_balance (sample_env 0)) tok 5 (world (pxWorld s))
          - holding (tok_balance (sample_env 0)) tok 5 (world (pxWorld t))) \<le> 1000"
proof -
  obtain L where L: "route_payment (sample_env 1000) 5 6 50 1000 sample_ledger = Ok ((), L)"
    using sample_payment_runs by blast
  obtain s where s: "authorize_session_key (sample_front_env 900) 5 1500 2000 sample_front = Ok ((), s)"
    by (simp add: authorize_session_key_def require_auth_def sample_front_env_def)
  then have sv: "pxSession s 5 = Some \<lparr>remaining = 1500, valid_until = 2000\<rparr>" "pxLogic s = Some 99"
    "pxWorld s = sample_ledger"
    by (auto simp: authorize_session_key_def require_auth_def sample_front_env_def sample_front_def)
  have "router_entry (sample_env 1000) ''route_payment'' [VAddress 5, VAddress 6, VAddress 50, VI128 1000]
      sample_ledger = Some (VVoid, L)"
    by (simp add: router_entry_def unit_reply_def L)
  then obtain t where t: "proxy_run sample_front_run s = Ok t"
    and r: "pxSession t 5 = Some \<lparr>remaining = 500, valid_until = 2000\<rparr>"
    by (simp add: sample_front_run_def forward_def charge_session_allowance_def charge_args_def
        address_arg_def amount_arg_def arg_at_def charge_if_session_def arith_defs i128_ok_def
        sample_front_env_def sv)
  have fee: "load_fee_config (pxWorld s) = Ok (2, 100, 500)" by (simp add: sv)
  have env: "\<forall>(pe, c)\<in>set sample_front_run. direct_call c \<and> \<not> key_granted 5 c
      \<and> (\<exists>re. serves 99 re pe \<and> tok_balance re = tok_balance (sample_env 0)
          \<and> token_contract (tok_balance (sample_env 0)) (tok_transfer re))"
    using sample_token [of 0]
    by (auto simp: sample_front_run_def key_granted_def serves_def sample_front_env_def sample_env_def
        intro!: exI [of _ "sample_env 1000"])
  from session_key_moves_at_most_its_limit [OF s t sv(2) _ _ fee _ _ env, of "{50}"] r s t
  show ?thesis by auto
qed

end
