(* ===== verification/Router_Steps.thy ===== *)
theory Router_Steps
  imports Router_Timelock Router_Hops Router_Signed Router_Treasury
begin

text \<open>
  What the money paths of \<open>payment_router\<close> leave alone. A small calculus of steps (a locale over any
  reflexive and transitive relation of states) is interpreted for the relation that keeps the control
  state, the shape of the spending records, the refund credits and the lock; its rules walk through the
  code of every payment, swap, refund and pruning path.
\<close>

section \<open>A calculus of steps\<close>

locale step_relation =
  fixes R :: "'s \<Rightarrow> 's \<Rightarrow> bool"
  assumes R_refl: "R s s" and R_trans: "R s t \<Longrightarrow> R t u \<Longrightarrow> R s u"
begin

definition moves :: "'s \<Rightarrow> ('e, 's) outcome \<Rightarrow> bool" where
  "moves s m \<longleftrightarrow> (\<forall>s'. m = Ok s' \<longrightarrow> R s s')"

definition returns :: "'s \<Rightarrow> ('e, 'a \<times> 's) outcome \<Rightarrow> bool" where
  "returns s m \<longleftrightarrow> (\<forall>x s'. m = Ok (x, s') \<longrightarrow> R s s')"

lemma movesD: "moves s m \<Longrightarrow> m = Ok s' \<Longrightarrow> R s s'"
  by (simp add: moves_def)

lemma returnsD: "returns s m \<Longrightarrow> m = Ok (x, s') \<Longrightarrow> R s s'"
  by (simp add: returns_def)

lemma moves_Ok: "R s s' \<Longrightarrow> moves s (Ok s')"
  by (simp add: moves_def)

lemma returns_Ok: "R s s' \<Longrightarrow> returns s (Ok (x, s'))"
  by (simp add: returns_def)

lemma moves_fail: "moves s (Err x)" "moves s Trap"
  by (simp_all add: moves_def)

lemma returns_fail: "returns s (Err x)" "returns s Trap"
  by (simp_all add: returns_def)

lemma moves_if: "(c \<Longrightarrow> moves s m) \<Longrightarrow> (\<not> c \<Longrightarrow> moves s n) \<Longrightarrow> moves s (if c then m else n)"
  by simp

lemma returns_if: "(c \<Longrightarrow> returns s m) \<Longrightarrow> (\<not> c \<Longrightarrow> returns s n) \<Longrightarrow> returns s (if c then m else n)"
  by simp

text \<open>A step that delivers a state is followed from that state; any other one leaves the state alone.\<close>

lemma moves_state: "moves s m \<Longrightarrow> (\<And>s1. m = Ok s1 \<Longrightarrow> moves s1 (f s1)) \<Longrightarrow> moves s (bnd m f)"
  by (auto simp: moves_def bnd_eq_Ok intro: R_trans)

lemma moves_result: "returns s m \<Longrightarrow> (\<And>x s1. m = Ok (x, s1) \<Longrightarrow> moves s1 (f x s1)) \<Longrightarrow>
    moves s (bnd m (\<lambda>(x, s1). f x s1))"
  by (fastforce simp: moves_def returns_def bnd_eq_Ok intro: R_trans)

lemma moves_value: "(\<And>x. m = Ok x \<Longrightarrow> moves s (f x)) \<Longrightarrow> moves s (bnd m f)"
  by (auto simp: moves_def bnd_eq_Ok)

lemma returns_state: "moves s m \<Longrightarrow> (\<And>s1. m = Ok s1 \<Longrightarrow> returns s1 (f s1)) \<Longrightarrow> returns s (bnd m f)"
  by (fastforce simp: moves_def returns_def bnd_eq_Ok intro: R_trans)

lemma returns_result: "returns s m \<Longrightarrow> (\<And>x s1. m = Ok (x, s1) \<Longrightarrow> returns s1 (f x s1)) \<Longrightarrow>
    returns s (bnd m (\<lambda>(x, s1). f x s1))"
  by (fastforce simp: returns_def bnd_eq_Ok intro: R_trans)

lemma returns_value: "(\<And>x. m = Ok x \<Longrightarrow> returns s (f x)) \<Longrightarrow> returns s (bnd m f)"
  by (auto simp: returns_def bnd_eq_Ok)

lemma moves_from: "R s s1 \<Longrightarrow> moves s1 m \<Longrightarrow> moves s m"
  by (auto simp: moves_def intro: R_trans)

lemma returns_from: "R s s1 \<Longrightarrow> returns s1 m \<Longrightarrow> returns s m"
  by (fastforce simp: returns_def intro: R_trans)

lemma returns_pair: "(\<And>a b. p = (a, b) \<Longrightarrow> returns s (f a b)) \<Longrightarrow> returns s (case p of (a, b) \<Rightarrow> f a b)"
  by (cases p) simp

lemma returns_pair_app:
  "(\<And>a b. p = (a, b) \<Longrightarrow> returns s (f a b c)) \<Longrightarrow> returns s ((case p of (a, b) \<Rightarrow> f a b) c)"
  by (cases p) simp

lemma moves_pair: "(\<And>a b. p = (a, b) \<Longrightarrow> moves s (f a b)) \<Longrightarrow> moves s (case p of (a, b) \<Rightarrow> f a b)"
  by (cases p) simp

end

section \<open>The money paths keep the control_state state\<close>

text \<open>What is left of a ledger without the fields the money paths write.\<close>

definition control_state :: "'w ledger \<Rightarrow> 'w ledger" where
  "control_state s = s\<lparr>iLastHeartbeat := None, xReentrancyGuard := None, pUserRecord := Map.empty,
     pUserSpending := Map.empty, pUserVolume := Map.empty, pRefundBalance := Map.empty,
     pMetaNonce := Map.empty, pUsedQuote := Map.empty, pRateLimitCounter := Map.empty,
     world := undefined, events := []\<rparr>"

definition refunds_ok :: "'w ledger \<Rightarrow> bool" where
  "refunds_ok s \<longleftrightarrow> (\<forall>k v. pRefundBalance s k = Some v \<longrightarrow> 0 < v \<and> i128_ok v)"

definition pays :: "'w ledger \<Rightarrow> 'w ledger \<Rightarrow> bool" where
  "pays s s' \<longleftrightarrow> control_state s' = control_state s \<and> (records_typed s \<longrightarrow> records_typed s') \<and> (refunds_ok s \<longrightarrow> refunds_ok s')
     \<and> (iBackupAdmin s = None \<longrightarrow> iLastHeartbeat s' = iLastHeartbeat s)
     \<and> (iLastHeartbeat s \<noteq> None \<longrightarrow> iLastHeartbeat s' \<noteq> None)
     \<and> unwrap_or False (xReentrancyGuard s') = unwrap_or False (xReentrancyGuard s)"

lemma controlD:
  assumes "control_state s' = control_state s"
  shows "iAdmin s' = iAdmin s" "iRole s' = iRole s" "pUserRole s' = pUserRole s" "iTimelockNonce s' = iTimelockNonce s"
    "pTimelockEntry s' = pTimelockEntry s" "iBackupAdmin s' = iBackupAdmin s" "iDmsTimeout s' = iDmsTimeout s"
    "iMultisigSigners s' = iMultisigSigners s" "xMultisigThreshold s' = xMultisigThreshold s"
    "pUpgradeApproval s' = pUpgradeApproval s" "pMultisigConfigApproval s' = pMultisigConfigApproval s"
    "wasm_hash s' = wasm_hash s" "iArchiveEpoch s' = iArchiveEpoch s" "pArchiveRoot s' = pArchiveRoot s"
    "pArchiveMeta s' = pArchiveMeta s" "pYieldPrincipal s' = pYieldPrincipal s" "pPairSlippage s' = pPairSlippage s"
    "pGovernanceProposal s' = pGovernanceProposal s" "iRateLimitConfig s' = iRateLimitConfig s"
    "iKycThreshold s' = iKycThreshold s" "iGovernanceQuorum s' = iGovernanceQuorum s"
  using assms by (cases s; cases s'; simp add: control_state_def)+

interpretation pays: step_relation pays
proof
  show "pays s s" for s :: "'w ledger" by (simp add: pays_def)
  show "pays s u" if "pays s t" "pays t u" for s t u :: "'w ledger"
    using that controlD(6) [of t s] by (auto simp: pays_def)
qed

text \<open>Writes that touch neither the control_state state nor a record or a refund credit.\<close>

lemma pays_update:
  "control_state s' = control_state s \<Longrightarrow> pUserRecord s' = pUserRecord s \<Longrightarrow> pUserSpending s' = pUserSpending s \<Longrightarrow>
   pUserVolume s' = pUserVolume s \<Longrightarrow> pRefundBalance s' = pRefundBalance s \<Longrightarrow> iLastHeartbeat s' = iLastHeartbeat s \<Longrightarrow>
   xReentrancyGuard s' = xReentrancyGuard s \<Longrightarrow> pays s s'"
  by (simp add: pays_def records_typed_def refunds_ok_def)

lemma pays_writes [simp]:
  "pays s (s\<lparr>world := w\<rparr>)" "pays s (s\<lparr>events := ev\<rparr>)"
  "pays s (s\<lparr>pMetaNonce := mn\<rparr>)" "pays s (s\<lparr>pUsedQuote := uq\<rparr>)" "pays s (s\<lparr>pRateLimitCounter := rc\<rparr>)"
  "pays s (s\<lparr>world := w, events := ev\<rparr>)"
  by (rule pays_update; simp add: control_state_def)+

lemma pays_bump [simp]: "pays s (bump_heartbeat e s)"
  by (auto simp: bump_heartbeat_def pays_def control_state_def records_typed_def refunds_ok_def)

lemma loaded_flags: "records_typed s \<Longrightarrow> load_user_record s a t0 = (t, acc, vol, flags, lf) \<Longrightarrow> length flags = 32"
  by (auto simp: load_user_record_def records_typed_def Let_def split: option.splits prod.splits
      dest!: unpack_user_record_ok(4))

lemma put_pays: "length flags = 32 \<or> \<not> records_typed s \<Longrightarrow> pays s (put_user_record a t acc vol flags s)"
  by (auto simp: pays_def records_typed_put) (simp_all add: put_user_record_def control_state_def refunds_ok_def)

lemma drop_pays: "pays s (drop_legacy a s)"
  by (auto simp: pays_def records_typed_drop) (simp_all add: drop_legacy_def control_state_def refunds_ok_def)

lemma accrue_pays: "pays.returns s (accrue_user_record e a k s)"
proof -
  obtain t acc vol flags lf where ld: "load_user_record s a (now e) = (t, acc, vol, flags, lf)"
    by (cases "load_user_record s a (now e)") auto
  have put: "pays s (put_user_record a t' acc' vol' flags s)" for t' acc' vol'
    by (rule put_pays) (use loaded_flags [OF _ ld] in blast)
  then have "pays s (drop_legacy a (put_user_record a t' acc' vol' flags s))" for t' acc' vol'
    by (rule pays.R_trans [OF _ drop_pays])
  with put show ?thesis
    unfolding accrue_user_record_def ld Let_def prod.case
    by (intro pays.returns_value) (auto simp: pays.returns_def split: option.splits)
qed

lemma credit_pays: "0 < k \<Longrightarrow> pays.moves s (credit_refund_balance u t k s)"
proof -
  assume "0 < k"
  moreover have "0 \<le> get_refund_balance s u t" if "refunds_ok s"
    using that by (cases "pRefundBalance s (u, t)") (auto simp: get_refund_balance_def refunds_ok_def intro: less_imp_le)
  ultimately show ?thesis
    by (auto simp: pays.moves_def credit_refund_balance_def outcome_simps pays_def control_state_def refunds_ok_def
        records_typed_def i128_add_def split: if_splits)
qed

lemma check_rate_pays: "pays.moves s (check_rate_limit e a s)"
  unfolding pays.moves_def using check_rate_shape pays_writes(5) by (metis (no_types))

lemma pay_fee_pays: "pays.moves s (pay_fee send t k s)"
  by (auto simp: pays.moves_def pay_fee_def intro: pays.R_refl split: call.splits if_splits)

lemma pay_remainder_pays: "pays.moves s (pay_remainder send r a b t k s)"
proof (cases "0 < k")
  case True
  note credit = pays.movesD [OF credit_pays [OF True]]
  show ?thesis
    by (auto simp: pays.moves_def pay_remainder_def Let_def intro: pays.R_refl pays.R_trans [OF pays_writes(1) credit]
        pays.R_trans [OF pays_writes(1) pays.R_trans [OF pays_writes(1) credit]] split: call.splits if_splits)
qed (simp add: pay_remainder_def pays.moves_Ok pays.R_refl)

lemma pay_out_pays: "pays.moves s (pay_out e t a b p fee k s)"
  unfolding pay_out_def
proof (rule pays.moves_state)
  show "pays.moves s (if 0 < fee then bnd (transfer e t (self e) p fee (world s)) (\<lambda>w. Ok (s\<lparr>world := w\<rparr>)) else Ok s)"
    by (auto simp: pays.moves_def bnd_eq_Ok intro: pays.R_refl)
  fix s1
  show "pays.moves s1 (if 0 < k then (case tok_transfer e t (self e) b k (world s1) of
       Done w \<Rightarrow> Ok (s1\<lparr>world := w\<rparr>)
     | BadReturn w \<Rightarrow> credit_refund_balance a t k (s1\<lparr>world := w\<rparr>)
     | Failed \<Rightarrow> credit_refund_balance a t k s1) else Ok s1)"
    by (auto intro: pays.moves_Ok pays.R_refl credit_pays pays.moves_from [OF pays_writes(1) credit_pays] split: call.split)
qed

lemma guard_frame [simp]:
  "control_state (s\<lparr>xReentrancyGuard := g\<rparr>) = control_state s" "records_typed (s\<lparr>xReentrancyGuard := g\<rparr>) = records_typed s"
  "refunds_ok (s\<lparr>xReentrancyGuard := g\<rparr>) = refunds_ok s"
  by (simp_all add: control_state_def records_typed_def refunds_ok_def)

text \<open>The lock a route takes is free again when it returns.\<close>

lemma with_guard_pays:
  assumes "\<And>s. pays.returns s (body s)"
  shows "pays.returns s (with_guard body s)"
proof -
  have "pays s (s1\<lparr>xReentrancyGuard := Some False\<rparr>)"
    if "\<not> unwrap_or False (xReentrancyGuard s)" "pays (s\<lparr>xReentrancyGuard := Some True\<rparr>) s1" for s1
    using that by (simp add: pays_def)
  then show ?thesis
    using pays.returnsD [OF assms, of "s\<lparr>xReentrancyGuard := Some True\<rparr>"] unfolding pays.returns_def with_guard_def
    by (auto simp: bnd_eq_Ok split: if_split_asm)
qed

lemma pays_then [simp]:
  "pays s s' \<Longrightarrow> pays s (s'\<lparr>world := w\<rparr>)" "pays s s' \<Longrightarrow> pays s (s'\<lparr>events := ev\<rparr>)"
  "pays s s' \<Longrightarrow> pays s (s'\<lparr>pMetaNonce := mn\<rparr>)" "pays s s' \<Longrightarrow> pays s (s'\<lparr>pUsedQuote := uq\<rparr>)"
  "pays s s' \<Longrightarrow> pays s (bump_heartbeat e s')" "pays s s"
  by (erule pays.R_trans, simp)+ (rule pays.R_refl)

text \<open>The rules that walk through a money path, the building blocks first.\<close>

lemmas pays_blocks = credit_pays check_rate_pays pay_fee_pays pay_remainder_pays pay_out_pays

lemmas pays_rules = pays.returns_fail pays.moves_fail pays.returns_Ok pays.moves_Ok pays.returns_if pays.moves_if
  pays.returns_pair pays.moves_pair

lemmas pays_walk = pays_rules
  pays_blocks [THEN pays.moves_from [rotated], THEN pays.returns_state]
  pays_blocks [THEN pays.moves_from [rotated], THEN pays.moves_state]
  accrue_pays [THEN pays.returns_from [rotated], THEN pays.returns_result]
  accrue_pays [THEN pays.returns_from [rotated], THEN pays.moves_result]
  pays.returns_value pays.moves_value

lemma process_single_payment_pays: "pays.moves s (process_single_payment e a b t k p bps cap s)"
  unfolding process_single_payment_def Let_def by (rule pays_walk | simp)+

lemma process_no_auth_pays: "pays.moves s (process_single_payment_no_auth e a b t k p bps cap s)"
  unfolding process_single_payment_no_auth_def Let_def by (rule pays_walk | simp)+

lemma process_payments_pays: "pays.moves s (process_payments e p bps cap ps s)"
  by (induction ps arbitrary: s)
    (auto intro: pays.moves_Ok pays.moves_state process_single_payment_pays)

lemma validate_payments_pays: "pays.moves s (validate_payments e seen ps s)"
proof (induction ps arbitrary: s seen)
  case (Cons p ps)
  show ?case unfolding validate_payments.simps Let_def by (rule pays_walk Cons.IH | simp)+
qed (simp add: pays.moves_Ok)

lemmas pays_steps =
  process_single_payment_pays process_no_auth_pays process_payments_pays validate_payments_pays

lemmas pays_routes = pays_rules
  pays_steps [THEN pays.moves_from [rotated], THEN pays.returns_state] pays_walk

lemma route_payment_pays: "pays.returns s (route_payment e a b t k s)"
  unfolding route_payment_def Let_def by (rule with_guard_pays) (rule pays_routes | simp)+

lemma route_payments_pays: "pays.returns s (route_payments e ps s)"
  unfolding route_payments_def Let_def by (rule with_guard_pays) (rule pays_routes | simp)+

lemma route_payment_meta_pays: "pays.returns s (route_payment_meta e a pk b t k n d sg s)"
  unfolding route_payment_meta_def Let_def by (rule with_guard_pays) (rule pays_routes | simp)+

lemma check_quote_pays: "pays.moves s (check_quote e a b q mk sg s)"
  unfolding check_quote_def Let_def by (rule pays_walk check_rate_pays | simp)+

lemma settle_quote_pays: "pays.returns s (settle_quote e a b q s)"
  unfolding settle_quote_def Let_def by (rule pays_walk | simp)+

lemma route_payment_with_quote_pays: "pays.returns s (route_payment_with_quote e a b q mk sg s)"
  unfolding route_payment_with_quote_def
  by (rule with_guard_pays) (rule pays.returns_state [OF check_quote_pays settle_quote_pays])

lemma check_swap_pays: "pays.moves s (check_swap e p s)"
  unfolding check_swap_def Let_def by (rule pays_walk | simp)+

lemma run_swap_pays: "pays.returns s (run_swap e p pt bps cap s)"
  unfolding run_swap_def Let_def by (rule pays_walk pays.returns_pair_app | simp)+

lemma swap_payment_pays: "pays.returns s (process_single_swap_payment e p pt bps cap s)"
  unfolding process_single_swap_payment_def by (rule pays.returns_state [OF check_swap_pays run_swap_pays])

lemma swap_each_pays: "pays.returns s (swap_each e pt bps cap ps acc s)"
proof (induction ps arbitrary: acc s)
  case (Cons p ps)
  show ?case unfolding swap_each.simps
    by (rule pays.returns_result [OF swap_payment_pays], rule pays.returns_value, rule Cons.IH)
qed (simp add: pays.returns_Ok)

lemma split_loop_pays: "pays.returns s (split_loop e sell buy k sps al out s)"
proof (induction sps arbitrary: al out s)
  case (Cons sp sps)
  show ?case unfolding split_loop.simps Let_def
    by (rule pays_walk Cons.IH [THEN pays.returns_from [rotated]] | simp)+
qed (simp add: pays.returns_Ok)

lemma swap_hop_pays: "pays.returns s (swap_hop e a dex tin tout flr k s)"
  unfolding swap_hop_def Let_def by (rule pays_walk | simp)+

lemma hop_loop_pays: "pays.returns s (hop_loop e a dex path floors k s)"
  by (induction e a dex path floors k s rule: hop_loop.induct)
    (auto intro: pays.returns_Ok pays.returns_result swap_hop_pays)

lemma process_split_pays: "pays.returns s (process_split_payment_with_swap e a b sell buy k sps pt bps cap s)"
  unfolding process_split_payment_with_swap_def Let_def
  by (rule pays_walk(1-8) split_loop_pays [THEN pays.returns_from [rotated], THEN pays.returns_result] pays_walk | simp)+

lemma swap_routes_pay:
  "pays.returns s (route_payment_with_swap e p s)" "pays.returns s (route_payments_with_swap e ps s)"
  "pays.returns s (route_split_payment_with_swap e a b sell buy k sps s)"
  unfolding route_payment_with_swap_def route_payments_with_swap_def route_split_payment_with_swap_def
  by (rule with_guard_pays, (rule swap_payment_pays swap_each_pays process_split_pays pays_walk)+)+

lemma route_multihop_pays: "pays.returns s (route_multihop_swap e a b dex k path floors s)"
  unfolding route_multihop_swap_def Let_def
  by (rule with_guard_pays)
    (rule pays_walk(1-8) hop_loop_pays [THEN pays.returns_from [rotated], THEN pays.returns_result] pays_walk | simp)+

lemma raw_swap_pays: "pays.returns s (route_payment_with_swap_raw e a b dex tin tout k path mo s)"
  unfolding route_payment_with_swap_raw_def Let_def by (rule pays_routes | simp)+

lemma withdraw_refund_pays: "pays.returns s (withdraw_refund e a t k s)"
  by (auto simp: pays.returns_def withdraw_refund_def outcome_simps Let_def pays_def control_state_def refunds_ok_def records_typed_def
      i128_sub_def split: if_splits)

lemma claim_all_refunds_pays: "pays.returns s (claim_all_refunds e a t s)"
  using pays.returnsD [OF withdraw_refund_pays]
  by (auto simp: pays.returns_def claim_all_refunds_def outcome_simps Let_def split: if_splits)

lemma prune_leaf_pays: "pays s (snd (prune_leaf l s))"
  by (cases "record_type l") (auto simp: prune_leaf_def pays_def control_state_def refunds_ok_def records_typed_def)

lemma prune_loop_pays: "pays.returns s (prune_loop ls n s)"
proof (induction ls arbitrary: n s)
  case (Cons l ls)
  show ?case
    using pays.returns_from [OF prune_leaf_pays [of s l] Cons.IH]
    by (cases "prune_leaf l s") (auto simp: Let_def intro!: pays.returns_value)
qed (simp add: pays.returns_Ok)

lemma prune_archived_entries_pays: "pays.returns s (prune_archived_entries e ep ls s)"
  unfolding prune_archived_entries_def
  by (rule pays.returns_result [OF prune_loop_pays] pays_walk | simp)+

lemma migrate_user_record_pays: "pays s (snd (migrate_user_record e a s))"
proof -
  have put: "pays s (put_user_record a t acc v zero_flags s)" for t acc v
    by (rule put_pays) simp
  show ?thesis
    using drop_pays [of s a] pays.R_trans [OF put drop_pays]
    by (auto simp: migrate_user_record_def Let_def split: prod.splits)
qed

end
