(* ===== verification/Router_Contract.thy ===== *)
theory Router_Contract
  imports Router_Steps
begin

text \<open>
  The whole \<open>payment_router\<close>: every entry point that changes state as a call, the states a deployed
  contract can reach through any sequence of calls by anybody, in any environment, the invariant of all
  of them, and what no call but the governed ones can change. (After its first upgrade a contract runs
  other code than this; calls back into the router during a call are not among the steps.)
\<close>

section \<open>Entry points\<close>

text \<open>The calls are grouped as the components are. (\<open>set_fee_config_legacy\<close> and \<open>set_paused\<close> are the same
  functions as \<open>set_fee_config\<close> and \<open>set_pause\<close>, \<open>add_supported_token\<close> does nothing, and the others only
  read.)\<close>

definition state_of :: "('w, 'a) res \<Rightarrow> (error, 'w ledger) outcome" where
  "state_of m = bnd m (\<lambda>(_, s). Ok s)"

lemma state_of_Ok [simp]: "state_of m = Ok s \<longleftrightarrow> (\<exists>x. m = Ok (x, s))"
  by (auto simp: state_of_def bnd_eq_Ok)

text \<open>Roles and the circuit breaker.\<close>

datatype role_call =
    DoGrantRole address address Role | DoRevokeRole address address Role | DoAssignRole address Role
    | DoEmergencyFreeze | DoUnfreeze | DoSetPause bool | DoSetPauseLevel PauseLevel

primrec role_exec :: "'w renv \<Rightarrow> role_call \<Rightarrow> 'w ledger \<Rightarrow> (error, 'w ledger) outcome" where
  "role_exec e (DoGrantRole a b c) s = state_of (grant_role e a b c s)"
| "role_exec e (DoRevokeRole a b c) s = state_of (revoke_role e a b c s)"
| "role_exec e (DoAssignRole a b) s = state_of (assign_role e a b s)"
| "role_exec e DoEmergencyFreeze s = state_of (emergency_freeze e s)"
| "role_exec e DoUnfreeze s = state_of (unfreeze e s)"
| "role_exec e (DoSetPause a) s = state_of (set_pause e a s)"
| "role_exec e (DoSetPauseLevel a) s = state_of (set_pause_level e a s)"

text \<open>Initialisation, handover and configuration.\<close>

datatype setup_call =
    DoInitialize address address int int int | DoSetAdmin address | DoTransferAdmin address
    | DoSetPlatformTreasury address | DoSetFeeConfig int int | DoSetFeeBps int | DoSetGovernance address
    | DoSetMinLimit int | DoBlacklistAddress address | DoUnblacklistAddress address
    | DoSetYieldProtocol address | DoSetKycConfig address int | DoConfigureGovernance address int
    | DoProposeFeeChange address int int nat

primrec setup_exec :: "'w renv \<Rightarrow> setup_call \<Rightarrow> 'w ledger \<Rightarrow> (error, 'w ledger) outcome" where
  "setup_exec e (DoInitialize a b c d f) s = state_of (initialize e a b c d f s)"
| "setup_exec e (DoSetAdmin a) s = state_of (set_admin e a s)"
| "setup_exec e (DoTransferAdmin a) s = state_of (transfer_admin e a s)"
| "setup_exec e (DoSetPlatformTreasury a) s = state_of (set_platform_treasury e a s)"
| "setup_exec e (DoSetFeeConfig a b) s = state_of (set_fee_config e a b s)"
| "setup_exec e (DoSetFeeBps a) s = state_of (set_fee_bps e a s)"
| "setup_exec e (DoSetGovernance a) s = state_of (set_governance e a s)"
| "setup_exec e (DoSetMinLimit a) s = state_of (set_min_limit e a s)"
| "setup_exec e (DoBlacklistAddress a) s = state_of (blacklist_address e a s)"
| "setup_exec e (DoUnblacklistAddress a) s = state_of (unblacklist_address e a s)"
| "setup_exec e (DoSetYieldProtocol a) s = state_of (set_yield_protocol e a s)"
| "setup_exec e (DoSetKycConfig a b) s = state_of (set_kyc_config e a b s)"
| "setup_exec e (DoConfigureGovernance a b) s = state_of (configure_governance e a b s)"
| "setup_exec e (DoProposeFeeChange a b c d) s = state_of (propose_fee_change e a b c d s)"

text \<open>The dead man's switch.\<close>

datatype switch_call =
    DoSetBackupAdminInternal address nat | DoRemoveBackupAdmin | DoPing | DoClaimAdmin address
    | DoSetHeartbeatOperator address | DoRemoveHeartbeatOperator | DoRenewHeartbeat address

primrec switch_exec :: "'w renv \<Rightarrow> switch_call \<Rightarrow> 'w ledger \<Rightarrow> (error, 'w ledger) outcome" where
  "switch_exec e (DoSetBackupAdminInternal a b) s = state_of (set_backup_admin_internal e a b s)"
| "switch_exec e DoRemoveBackupAdmin s = state_of (remove_backup_admin e s)"
| "switch_exec e DoPing s = state_of (ping e s)"
| "switch_exec e (DoClaimAdmin a) s = state_of (claim_admin e a s)"
| "switch_exec e (DoSetHeartbeatOperator a) s = state_of (set_heartbeat_operator e a s)"
| "switch_exec e DoRemoveHeartbeatOperator s = state_of (remove_heartbeat_operator e s)"
| "switch_exec e (DoRenewHeartbeat a) s = state_of (renew_heartbeat e a s)"

text \<open>Rate limits, exchanges, slippage and prices.\<close>

datatype limit_call =
    DoSetRateLimit nat | DoSetRateLimitWhitelist address | DoRemoveRateLimitWhitelist address
    | DoRegisterDex address | DoDeregisterDex address | DoSetMaxSlippageBps int
    | DoSetPairMaxSlippageBps address address int | DoSetPriceOracle address | DoSetStalenessThreshold nat
    | DoSetFallbackPrice address address int nat | DoGetPrice address address

primrec limit_exec :: "'w renv \<Rightarrow> limit_call \<Rightarrow> 'w ledger \<Rightarrow> (error, 'w ledger) outcome" where
  "limit_exec e (DoSetRateLimit a) s = state_of (set_rate_limit e a s)"
| "limit_exec e (DoSetRateLimitWhitelist a) s = state_of (set_rate_limit_whitelist e a s)"
| "limit_exec e (DoRemoveRateLimitWhitelist a) s = state_of (remove_rate_limit_whitelist e a s)"
| "limit_exec e (DoRegisterDex a) s = state_of (register_dex e a s)"
| "limit_exec e (DoDeregisterDex a) s = state_of (deregister_dex e a s)"
| "limit_exec e (DoSetMaxSlippageBps a) s = state_of (set_max_slippage_bps e a s)"
| "limit_exec e (DoSetPairMaxSlippageBps a b c) s = state_of (set_pair_max_slippage_bps e a b c s)"
| "limit_exec e (DoSetPriceOracle a) s = state_of (set_price_oracle e a s)"
| "limit_exec e (DoSetStalenessThreshold a) s = state_of (set_staleness_threshold e a s)"
| "limit_exec e (DoSetFallbackPrice a b c d) s = state_of (set_fallback_price e a b c d s)"
| "limit_exec e (DoGetPrice a b) s = state_of (get_price e a b s)"

text \<open>Timelock, signer group and upgrades.\<close>

datatype governed_call =
    DoQueueAction ActionType | DoExecuteAction nat | DoExecuteBatchActions "nat list" | DoCancelAction nat
    | DoSetMultisigConfig "address list" nat | DoApproveMultisigConfig "address list" nat address
    | DoApproveUpgrade address bytes | DoRevokeUpgradeApproval address bytes | DoCancelUpgrade bytes
    | DoUpgrade bytes

primrec governed_exec :: "'w renv \<Rightarrow> governed_call \<Rightarrow> 'w ledger \<Rightarrow> (error, 'w ledger) outcome" where
  "governed_exec e (DoQueueAction a) s = state_of (queue_action e a s)"
| "governed_exec e (DoExecuteAction a) s = state_of (execute_action e a s)"
| "governed_exec e (DoExecuteBatchActions a) s = state_of (execute_batch_actions e a s)"
| "governed_exec e (DoCancelAction a) s = state_of (cancel_action e a s)"
| "governed_exec e (DoSetMultisigConfig a b) s = state_of (set_multisig_config e a b s)"
| "governed_exec e (DoApproveMultisigConfig a b c) s = state_of (approve_multisig_config e a b c s)"
| "governed_exec e (DoApproveUpgrade a b) s = state_of (approve_upgrade e a b s)"
| "governed_exec e (DoRevokeUpgradeApproval a b) s = state_of (revoke_upgrade_approval e a b s)"
| "governed_exec e (DoCancelUpgrade a) s = state_of (cancel_upgrade e a s)"
| "governed_exec e (DoUpgrade a) s = state_of (upgrade e a s)"

text \<open>The treasury and the archive.\<close>

datatype treasury_call =
    DoDepositToYield address int | DoWithdrawFromYield address int | DoHarvestYield address
    | DoRecoverTokens address int | DoEmergencyWithdraw address int
    | DoCommitArchiveRoot bytes "ArchiveLeaf list" string | DoPruneArchivedEntries nat "ArchiveLeaf list"

primrec treasury_exec :: "'w renv \<Rightarrow> treasury_call \<Rightarrow> 'w ledger \<Rightarrow> (error, 'w ledger) outcome" where
  "treasury_exec e (DoDepositToYield a b) s = state_of (deposit_to_yield e a b s)"
| "treasury_exec e (DoWithdrawFromYield a b) s = state_of (withdraw_from_yield e a b s)"
| "treasury_exec e (DoHarvestYield a) s = state_of (harvest_yield e a s)"
| "treasury_exec e (DoRecoverTokens a b) s = state_of (recover_tokens e a b s)"
| "treasury_exec e (DoEmergencyWithdraw a b) s = state_of (emergency_withdraw e a b s)"
| "treasury_exec e (DoCommitArchiveRoot a b c) s = state_of (commit_archive_root e a b c s)"
| "treasury_exec e (DoPruneArchivedEntries a b) s = state_of (prune_archived_entries e a b s)"

text \<open>Payments, swaps and refunds.\<close>

datatype money_call =
    DoRoutePayment address address address int | DoRoutePayments "Payment list"
    | DoRoutePaymentMeta address bytes address address int nat nat bytes
    | DoRoutePaymentWithQuote address address Quote bytes bytes | DoRoutePaymentWithSwap SwapPayment
    | DoRoutePaymentsWithSwap "SwapPayment list"
    | DoRouteSplitPaymentWithSwap address address address address int "SplitRoute list"
    | DoRouteMultihopSwap address address address int "address list" "int list"
    | DoRoutePaymentWithSwapRaw address address address address address int "address list" int
    | DoWithdrawRefund address address int | DoClaimAllRefunds address address
    | DoMigrateUserRecord address

primrec money_exec :: "'w renv \<Rightarrow> money_call \<Rightarrow> 'w ledger \<Rightarrow> (error, 'w ledger) outcome" where
  "money_exec e (DoRoutePayment a b c d) s = state_of (route_payment e a b c d s)"
| "money_exec e (DoRoutePayments a) s = state_of (route_payments e a s)"
| "money_exec e (DoRoutePaymentMeta a b c d f g h i) s = state_of (route_payment_meta e a b c d f g h i s)"
| "money_exec e (DoRoutePaymentWithQuote a b c d f) s = state_of (route_payment_with_quote e a b c d f s)"
| "money_exec e (DoRoutePaymentWithSwap a) s = state_of (route_payment_with_swap e a s)"
| "money_exec e (DoRoutePaymentsWithSwap a) s = state_of (route_payments_with_swap e a s)"
| "money_exec e (DoRouteSplitPaymentWithSwap a b c d f g) s = state_of (route_split_payment_with_swap e a b c d f g s)"
| "money_exec e (DoRouteMultihopSwap a b c d f g) s = state_of (route_multihop_swap e a b c d f g s)"
| "money_exec e (DoRoutePaymentWithSwapRaw a b c d f g h i) s = state_of (route_payment_with_swap_raw e a b c d f g h i s)"
| "money_exec e (DoWithdrawRefund a b c) s = state_of (withdraw_refund e a b c s)"
| "money_exec e (DoClaimAllRefunds a b) s = state_of (claim_all_refunds e a b s)"
| "money_exec e (DoMigrateUserRecord a) s = Ok (snd (migrate_user_record e a s))"

text \<open>Any entry point.\<close>

datatype router_call =
    RoleCall role_call | SetupCall setup_call | SwitchCall switch_call | LimitCall limit_call | GovernedCall governed_call | TreasuryCall treasury_call | MoneyCall money_call

primrec router_exec :: "'w renv \<Rightarrow> router_call \<Rightarrow> 'w ledger \<Rightarrow> (error, 'w ledger) outcome" where
  "router_exec e (RoleCall c) s = role_exec e c s"
| "router_exec e (SetupCall c) s = setup_exec e c s"
| "router_exec e (SwitchCall c) s = switch_exec e c s"
| "router_exec e (LimitCall c) s = limit_exec e c s"
| "router_exec e (GovernedCall c) s = governed_exec e c s"
| "router_exec e (TreasuryCall c) s = treasury_exec e c s"
| "router_exec e (MoneyCall c) s = money_exec e c s"

section \<open>Reachable states\<close>

text \<open>
  The calls made so far, each with the environment (ledger time, authorisations, foreign contracts) it
  ran in. A failed call is rolled back and leaves no trace; between calls anything may happen to the
  world outside.
\<close>

inductive router_run :: "('w renv \<times> router_call) list \<Rightarrow> 'w ledger \<Rightarrow> bool" where
  deployed: "router_run [] (fresh_ledger w)"
| elsewhere: "router_run calls s \<Longrightarrow> router_run calls (s\<lparr>world := w\<rparr>)"
| called: "router_run calls s \<Longrightarrow> router_exec e c s = Ok s' \<Longrightarrow> router_run (calls @ [(e, c)]) s'"

definition limits_ok :: "'w ledger \<Rightarrow> bool" where
  "limits_ok s \<longleftrightarrow> (\<forall>n. iRateLimitConfig s = Some n \<longrightarrow> n \<le> MAX_RATE_LIMIT)
     \<and> (\<forall>t. iKycThreshold s = Some t \<longrightarrow> 0 \<le> t)
     \<and> (\<forall>q. iGovernanceQuorum s = Some q \<longrightarrow> 0 < q)
     \<and> (\<forall>k b. pPairSlippage s k = Some b \<longrightarrow> 0 \<le> b \<and> b \<le> MAX_PAIR_SLIPPAGE_BPS)
     \<and> (\<forall>n p. pGovernanceProposal s n = Some p \<longrightarrow> 0 \<le> fp_fee_bps p \<and> fp_fee_bps p \<le> 10000 \<and> 0 \<le> fp_fee_cap p)"

definition queue_ok :: "'w ledger \<Rightarrow> bool" where
  "queue_ok s \<longleftrightarrow> nonces_ok s \<and> (iAdmin s = None \<longrightarrow> pTimelockEntry s = Map.empty)"

definition router_inv :: "'w ledger \<Rightarrow> bool" where
  "router_inv s \<longleftrightarrow> roles_ok s \<and> multisig_ok s \<and> queue_ok s \<and> dms_ok s \<and> principals_ok s \<and> archive_ok s
     \<and> limits_ok s \<and> records_typed s \<and> refunds_ok s \<and> \<not> unwrap_or False (xReentrancyGuard s)"

text \<open>The signer group, its approvals and the installed code.\<close>

definition governed :: "'w ledger \<Rightarrow> bytes option \<times> (bytes \<Rightarrow> address list option) \<times> address list option \<times> nat option" where
  "governed s = (wasm_hash s, pUpgradeApproval s, iMultisigSigners s, xMultisigThreshold s)"

lemma fresh_inv: "router_inv (fresh_ledger w)"
  by (auto simp: router_inv_def roles_ok_def multisig_ok_def load_upgrade_approvals_def config_approvals_def queue_ok_def
      nonces_ok_def dms_ok_def principals_ok_def archive_ok_def get_archive_epoch_def limits_ok_def records_typed_def
      refunds_ok_def fresh_ledger_def)

lemma pays_inv: "pays s s' \<Longrightarrow> router_inv s \<Longrightarrow> router_inv s' \<and> governed s' = governed s"
proof -
  assume p: "pays s s'" and i: "router_inv s"
  note c = controlD [of s' s, OF p [unfolded pays_def, THEN conjunct1]]
  have "roles_ok s'" "multisig_ok s'" "queue_ok s'" "principals_ok s'" "archive_ok s'" "limits_ok s'"
    using i by (simp_all add: router_inv_def roles_ok_def multisig_ok_def load_upgrade_approvals_def config_approvals_def
        queue_ok_def nonces_ok_def principals_ok_def archive_ok_def get_archive_epoch_def limits_ok_def c)
  moreover have "dms_ok s'" using i p by (auto simp: router_inv_def dms_ok_def pays_def c)
  ultimately show ?thesis using i p by (simp add: router_inv_def pays_def governed_def c)
qed

text \<open>Writes to fields no part of the invariant reads.\<close>

lemmas inv_parts = roles_ok_def multisig_ok_def load_upgrade_approvals_def config_approvals_def queue_ok_def nonces_ok_def
  dms_ok_def principals_ok_def archive_ok_def get_archive_epoch_def limits_ok_def records_typed_def refunds_ok_def

lemma inv_writes [simp]:
  "router_inv (s\<lparr>events := v1\<rparr>) = router_inv s" "router_inv (s\<lparr>world := v2\<rparr>) = router_inv s"
  "router_inv (s\<lparr>iFrozen := v3\<rparr>) = router_inv s" "router_inv (s\<lparr>iPauseLevel := v4\<rparr>) = router_inv s"
  "router_inv (s\<lparr>iPaused := v5\<rparr>) = router_inv s" "router_inv (s\<lparr>iPlatformTreasury := v6\<rparr>) = router_inv s"
  "router_inv (s\<lparr>iFeeBps := v7\<rparr>) = router_inv s" "router_inv (s\<lparr>iFeeCap := v8\<rparr>) = router_inv s"
  "router_inv (s\<lparr>iGovernance := v9\<rparr>) = router_inv s" "router_inv (s\<lparr>iMinLimit := v10\<rparr>) = router_inv s"
  "router_inv (s\<lparr>pBlacklist := v11\<rparr>) = router_inv s" "router_inv (s\<lparr>iYieldProtocol := v12\<rparr>) = router_inv s"
  "router_inv (s\<lparr>iKycOracle := v13\<rparr>) = router_inv s" "router_inv (s\<lparr>iGovernanceToken := v14\<rparr>) = router_inv s"
  "router_inv (s\<lparr>iHeartbeatOperator := v15\<rparr>) = router_inv s" "router_inv (s\<lparr>pRateLimitWhitelist := v16\<rparr>) = router_inv s"
  "router_inv (s\<lparr>pRegisteredDex := v17\<rparr>) = router_inv s" "router_inv (s\<lparr>iMaxSlippageBps := v18\<rparr>) = router_inv s"
  "router_inv (s\<lparr>iOracleAddress := v19\<rparr>) = router_inv s" "router_inv (s\<lparr>iStalenessThreshold := v20\<rparr>) = router_inv s"
  "router_inv (s\<lparr>pFallbackPrice := v21\<rparr>) = router_inv s" "router_inv (s\<lparr>wasm_hash := v22\<rparr>) = router_inv s"
  "router_inv (s\<lparr>iMaxAmount := v23\<rparr>) = router_inv s" "router_inv (s\<lparr>iGovernanceNonce := v24\<rparr>) = router_inv s"
  by (simp_all add: router_inv_def inv_parts)

lemma governed_writes [simp]:
  "governed (s\<lparr>iAdmin := v1\<rparr>) = governed s" "governed (s\<lparr>iRole := v2\<rparr>) = governed s"
  "governed (s\<lparr>iGovernance := v3\<rparr>) = governed s" "governed (s\<lparr>iPlatformTreasury := v4\<rparr>) = governed s"
  "governed (s\<lparr>iFeeBps := v5\<rparr>) = governed s" "governed (s\<lparr>iFeeCap := v6\<rparr>) = governed s"
  "governed (s\<lparr>iMinLimit := v7\<rparr>) = governed s" "governed (s\<lparr>iPaused := v8\<rparr>) = governed s"
  "governed (s\<lparr>iMaxAmount := v9\<rparr>) = governed s" "governed (s\<lparr>iTimelockNonce := v10\<rparr>) = governed s"
  "governed (s\<lparr>iFrozen := v11\<rparr>) = governed s" "governed (s\<lparr>iKycOracle := v12\<rparr>) = governed s"
  "governed (s\<lparr>iKycThreshold := v13\<rparr>) = governed s" "governed (s\<lparr>iBackupAdmin := v14\<rparr>) = governed s"
  "governed (s\<lparr>iLastHeartbeat := v15\<rparr>) = governed s" "governed (s\<lparr>iDmsTimeout := v16\<rparr>) = governed s"
  "governed (s\<lparr>iRateLimitConfig := v17\<rparr>) = governed s" "governed (s\<lparr>iOracleAddress := v18\<rparr>) = governed s"
  "governed (s\<lparr>iStalenessThreshold := v19\<rparr>) = governed s" "governed (s\<lparr>iGovernanceToken := v20\<rparr>) = governed s"
  "governed (s\<lparr>iGovernanceQuorum := v21\<rparr>) = governed s" "governed (s\<lparr>iGovernanceNonce := v22\<rparr>) = governed s"
  "governed (s\<lparr>iArchiveEpoch := v23\<rparr>) = governed s" "governed (s\<lparr>iYieldProtocol := v24\<rparr>) = governed s"
  "governed (s\<lparr>iMaxSlippageBps := v25\<rparr>) = governed s" "governed (s\<lparr>iMultisigThreshold := v26\<rparr>) = governed s"
  "governed (s\<lparr>iPauseLevel := v27\<rparr>) = governed s" "governed (s\<lparr>iHeartbeatOperator := v28\<rparr>) = governed s"
  "governed (s\<lparr>xReentrancyGuard := v29\<rparr>) = governed s" "governed (s\<lparr>pUserRecord := v30\<rparr>) = governed s"
  "governed (s\<lparr>pUserSpending := v31\<rparr>) = governed s" "governed (s\<lparr>pUserVolume := v32\<rparr>) = governed s"
  "governed (s\<lparr>pBlacklist := v33\<rparr>) = governed s" "governed (s\<lparr>pRefundBalance := v34\<rparr>) = governed s"
  "governed (s\<lparr>pTimelockEntry := v35\<rparr>) = governed s" "governed (s\<lparr>pUserRole := v36\<rparr>) = governed s"
  "governed (s\<lparr>pMetaNonce := v37\<rparr>) = governed s" "governed (s\<lparr>pUsedQuote := v38\<rparr>) = governed s"
  "governed (s\<lparr>pRateLimitCounter := v39\<rparr>) = governed s" "governed (s\<lparr>pRateLimitWhitelist := v40\<rparr>) = governed s"
  "governed (s\<lparr>pFallbackPrice := v41\<rparr>) = governed s" "governed (s\<lparr>pGovernanceProposal := v42\<rparr>) = governed s"
  "governed (s\<lparr>pArchiveRoot := v43\<rparr>) = governed s" "governed (s\<lparr>pArchiveMeta := v44\<rparr>) = governed s"
  "governed (s\<lparr>pYieldPrincipal := v45\<rparr>) = governed s" "governed (s\<lparr>pRegisteredDex := v46\<rparr>) = governed s"
  "governed (s\<lparr>pPairSlippage := v47\<rparr>) = governed s" "governed (s\<lparr>pMultisigConfigApproval := v48\<rparr>) = governed s"
  "governed (s\<lparr>world := v49\<rparr>) = governed s" "governed (s\<lparr>events := v50\<rparr>) = governed s"
  by (simp_all add: governed_def)

lemma governed_steps [simp]:
  "governed (set_role_internal r a s) = governed s" "governed (remove_role_internal r a s) = governed s"
  "governed (bump_heartbeat e s) = governed s"
  by (simp_all add: set_role_internal_def remove_role_internal_def bump_heartbeat_def Let_def split: option.split)

lemma set_role_inv: "router_inv s \<Longrightarrow> router_inv (set_role_internal r a s)"
  using set_role_roles_ok [of s r a]
  by (auto simp: router_inv_def inv_parts(2-) set_role_internal_def Let_def split: option.splits)

lemma remove_role_inv: "router_inv s \<Longrightarrow> router_inv (remove_role_internal r a s)"
  using remove_role_roles_ok [of s r a]
  by (auto simp: router_inv_def inv_parts(2-) remove_role_internal_def Let_def split: option.splits)

lemma admin_inv: "router_inv s \<Longrightarrow> router_inv (s\<lparr>iAdmin := Some a\<rparr>)"
  by (simp add: router_inv_def inv_parts)

lemma role_calls_keep: "router_inv s \<Longrightarrow> role_exec e c s = Ok s' \<Longrightarrow> router_inv s' \<and> governed s' = governed s"
  by (cases c) (auto simp: grant_role_def revoke_role_def assign_role_def emergency_freeze_def unfreeze_def set_pause_def
      set_pause_level_def apply_role_grant_def apply_role_revoke_def set_pause_level_internal_def outcome_simps Let_def
      set_role_inv remove_role_inv split: if_splits)

lemma initialize_inv:
  "router_inv s \<Longrightarrow> iAdmin s = None \<Longrightarrow>
   router_inv (s\<lparr>iAdmin := Some a, iPlatformTreasury := p, iFeeBps := f, iFeeCap := c, iMaxAmount := m,
     iPaused := pa, iFrozen := fr, iMaxSlippageBps := sl, iTimelockNonce := Some n\<rparr>)"
  by (simp add: router_inv_def inv_parts)

lemma proposal_inv:
  "router_inv s \<Longrightarrow> 0 \<le> fp_fee_bps p \<Longrightarrow> fp_fee_bps p \<le> 10000 \<Longrightarrow> 0 \<le> fp_fee_cap p \<Longrightarrow>
   router_inv (s\<lparr>iGovernanceNonce := n, pGovernanceProposal := (pGovernanceProposal s)(k \<mapsto> p)\<rparr>)"
  by (simp add: router_inv_def inv_parts)

lemma limit_writes_inv:
  "router_inv s \<Longrightarrow> 0 \<le> t \<Longrightarrow> router_inv (s\<lparr>iKycOracle := ko, iKycThreshold := Some t\<rparr>)"
  "router_inv s \<Longrightarrow> 0 < q \<Longrightarrow> router_inv (s\<lparr>iGovernanceToken := gt, iGovernanceQuorum := Some q\<rparr>)"
  "router_inv s \<Longrightarrow> r \<le> MAX_RATE_LIMIT \<Longrightarrow> router_inv (s\<lparr>iRateLimitConfig := Some r\<rparr>)"
  "router_inv s \<Longrightarrow> 0 \<le> b \<Longrightarrow> b \<le> MAX_PAIR_SLIPPAGE_BPS \<Longrightarrow>
     router_inv (s\<lparr>pPairSlippage := (pPairSlippage s)(k \<mapsto> b)\<rparr>)"
  by (simp_all add: router_inv_def inv_parts)

lemma setup_calls_keep: "router_inv s \<Longrightarrow> setup_exec e c s = Ok s' \<Longrightarrow> router_inv s' \<and> governed s' = governed s"
  by (cases c) (auto simp: initialize_def set_admin_def transfer_admin_def set_platform_treasury_def set_fee_config_def
      set_fee_bps_def set_governance_def set_min_limit_def blacklist_address_def unblacklist_address_def
      set_yield_protocol_def set_kyc_config_def configure_governance_def propose_fee_change_def outcome_simps Let_def
      initialize_inv proposal_inv limit_writes_inv admin_inv set_role_inv remove_role_inv split: if_splits)

lemma bump_inv: "router_inv s \<Longrightarrow> router_inv (bump_heartbeat e s)"
  using pays_inv [OF pays_bump] by blast

lemma switch_writes_inv:
  "router_inv s \<Longrightarrow> MIN_DMS_TIMEOUT \<le> t \<Longrightarrow>
     router_inv (s\<lparr>iBackupAdmin := Some b, iDmsTimeout := Some t, iLastHeartbeat := Some h\<rparr>)"
  "router_inv s \<Longrightarrow> router_inv (s\<lparr>iBackupAdmin := None, iLastHeartbeat := None\<rparr>)"
  "router_inv s \<Longrightarrow> router_inv (s\<lparr>iAdmin := Some a, iBackupAdmin := None, iLastHeartbeat := None, iDmsTimeout := None\<rparr>)"
  "router_inv s \<Longrightarrow> iLastHeartbeat s = Some h' \<Longrightarrow> router_inv (s\<lparr>iLastHeartbeat := Some h\<rparr>)"
  by (simp_all add: router_inv_def inv_parts)

lemma switch_calls_keep: "router_inv s \<Longrightarrow> switch_exec e c s = Ok s' \<Longrightarrow> router_inv s' \<and> governed s' = governed s"
  by (cases c) (auto simp: set_backup_admin_internal_def apply_set_backup_admin_def remove_backup_admin_def ping_def
      claim_admin_def set_heartbeat_operator_def remove_heartbeat_operator_def renew_heartbeat_def outcome_simps Let_def
      bump_inv switch_writes_inv split: if_splits)

lemma limit_calls_keep: "router_inv s \<Longrightarrow> limit_exec e c s = Ok s' \<Longrightarrow> router_inv s' \<and> governed s' = governed s"
  by (cases c) (auto simp: set_rate_limit_def set_rate_limit_whitelist_def remove_rate_limit_whitelist_def register_dex_def
      deregister_dex_def set_max_slippage_bps_def set_pair_max_slippage_bps_def set_price_oracle_def
      set_staleness_threshold_def set_fallback_price_def get_price_def fallback_or_err_def outcome_simps Let_def
      limit_writes_inv split: if_splits option.splits)

lemma paid_inv: "router_inv s \<Longrightarrow> pays.returns s m \<Longrightarrow> m = Ok (x, s') \<Longrightarrow> router_inv s' \<and> governed s' = governed s"
  by (rule pays_inv [OF pays.returnsD])

lemma emergency_withdraw_pays: "pays.returns s (emergency_withdraw e t k s)"
  unfolding emergency_withdraw_def Let_def by (rule with_guard_pays) (rule pays_walk | simp)+

lemma yield_write_inv:
  "router_inv s \<Longrightarrow> (\<And>p. v = Some p \<Longrightarrow> 0 < p \<and> i128_ok p) \<Longrightarrow>
   router_inv (s\<lparr>world := w, pYieldPrincipal := (pYieldPrincipal s)(t := v)\<rparr>)"
  by (simp add: router_inv_def inv_parts)

lemma archive_write_inv:
  "router_inv s \<Longrightarrow> n = Suc (unwrap_or 0 (iArchiveEpoch s)) \<Longrightarrow>
   router_inv (s\<lparr>iArchiveEpoch := Some n, pArchiveRoot := (pArchiveRoot s)(n \<mapsto> r), pArchiveMeta := (pArchiveMeta s)(n \<mapsto> m)\<rparr>)"
  by (auto simp: router_inv_def inv_parts)

lemma treasury_calls_keep:
  assumes i: "router_inv s" and x: "treasury_exec e c s = Ok s'"
  shows "router_inv s' \<and> governed s' = governed s"
proof (cases c)
  case (DoDepositToYield t k)
  then show ?thesis using x i yield_position_nonneg [of s t]
    by (auto simp: deposit_to_yield_def outcome_simps get_yield_position_def i128_add_def router_inv_def [of s]
        intro!: yield_write_inv split: if_splits)
next
  case (DoWithdrawFromYield t k)
  have "v = None \<or> 0 < the v \<and> i128_ok (the v) \<Longrightarrow>
      router_inv (s\<lparr>world := w, pYieldPrincipal := (pYieldPrincipal s)(t := v)\<rparr>)" for v w
    by (rule yield_write_inv [OF i]) auto
  then show ?thesis using x DoWithdrawFromYield
    by (cases "k = unwrap_or 0 (pYieldPrincipal s t)")
      (auto simp: withdraw_from_yield_def outcome_simps Let_def i128_sub_def)
next
  case (DoCommitArchiveRoot a b d)
  then show ?thesis using x archive_write_inv [OF i]
    by (auto simp: commit_archive_root_def emit_archive_committed_def outcome_simps u64_add_def Let_def split: if_splits)
next
  case (DoEmergencyWithdraw t k)
  then show ?thesis using x by (auto dest: paid_inv [OF i emergency_withdraw_pays])
next
  case (DoPruneArchivedEntries n ls)
  then show ?thesis using x by (auto dest: paid_inv [OF i prune_archived_entries_pays])
qed (use x i in \<open>auto simp: harvest_yield_def recover_tokens_def outcome_simps split: if_splits\<close>)

lemma money_calls_keep:
  assumes "router_inv s" "money_exec e c s = Ok s'"
  shows "router_inv s' \<and> governed s' = governed s"
proof -
  note paid = paid_inv [OF assms(1)]
  show ?thesis using assms(2) pays_inv [OF migrate_user_record_pays assms(1)]
    by (cases c) (auto dest: paid [OF route_payment_pays] paid [OF route_payments_pays] paid [OF route_payment_meta_pays]
      paid [OF route_payment_with_quote_pays] paid [OF swap_routes_pay(1)] paid [OF swap_routes_pay(2)]
      paid [OF swap_routes_pay(3)] paid [OF route_multihop_pays] paid [OF raw_swap_pays] paid [OF withdraw_refund_pays]
      paid [OF claim_all_refunds_pays])
qed

section \<open>The governed calls\<close>

text \<open>The part of a ledger the multisig operations do not write.\<close>

definition nonsig :: "'w ledger \<Rightarrow> 'w ledger" where
  "nonsig s = s\<lparr>wasm_hash := None, pUpgradeApproval := Map.empty, pMultisigConfigApproval := Map.empty,
     iMultisigSigners := None, xMultisigThreshold := None, events := []\<rparr>"

lemma inv_nonsig: "router_inv s \<longleftrightarrow> multisig_ok s \<and> router_inv (nonsig s)"
  by (auto simp: router_inv_def inv_parts nonsig_def)

lemma multisig_step_inv: "router_inv s \<Longrightarrow> multisig_ok s' \<Longrightarrow> nonsig s' = nonsig s \<Longrightarrow> router_inv s'"
  by (metis inv_nonsig)

lemma nonsig_steps:
  "set_multisig_config e xs n s = Ok (u, s') \<Longrightarrow> nonsig s' = nonsig s"
  "approve_multisig_config e xs n a s = Ok (k, s') \<Longrightarrow> nonsig s' = nonsig s"
  "approve_upgrade e a h s = Ok (u, s') \<Longrightarrow> nonsig s' = nonsig s"
  "revoke_upgrade_approval e a h s = Ok (u, s') \<Longrightarrow> nonsig s' = nonsig s"
  "cancel_upgrade e h s = Ok (u, s') \<Longrightarrow> nonsig s' = nonsig s"
  "upgrade e h s = Ok (u, s') \<Longrightarrow> nonsig s' = nonsig s"
  "store_multisig_config e xs n s = Ok s' \<Longrightarrow> nonsig s' = nonsig s"
  "apply_upgrade e h s = Ok s' \<Longrightarrow> nonsig s' = nonsig s"
  by (auto simp: set_multisig_config_def store_multisig_config_def approve_multisig_config_def approve_upgrade_def
      revoke_upgrade_approval_def cancel_upgrade_def upgrade_def apply_upgrade_def outcome_simps Let_def nonsig_def
      split: if_splits)

lemma entry_writes_inv:
  "router_inv s \<Longrightarrow> router_inv (drop_entry n s)"
  "router_inv s \<Longrightarrow> iAdmin s \<noteq> None \<Longrightarrow> n = Suc (unwrap_or 0 (iTimelockNonce s)) \<Longrightarrow>
     router_inv (s\<lparr>iTimelockNonce := Some n, pTimelockEntry := (pTimelockEntry s)(n \<mapsto> entry)\<rparr>)"
  by (auto simp: router_inv_def inv_parts drop_entry_def le_Suc_eq)

lemma apply_action_inv:
  assumes i: "router_inv s" and v: "validate_queued_action act t = Ok ()" and x: "apply_action e act s = Ok s'"
  shows "router_inv s'"
proof (cases act)
  case (Upgrade h)
  then have a: "apply_upgrade e h s = Ok s'" using x by (simp add: apply_action_def)
  show ?thesis using multisig_step_inv [OF i apply_upgrade_ok [OF _ a] nonsig_steps(8) [OF a]] i by (simp add: router_inv_def)
next
  case (SetMultisigConfig xs n)
  then have a: "store_multisig_config e xs n s = Ok s'" using x by (simp add: apply_action_def)
  show ?thesis using multisig_step_inv [OF i store_multisig_config_ok [OF _ a] nonsig_steps(7) [OF a]] i
    by (simp add: router_inv_def)
next
  case (SetPairMaxSlippageBps a b k)
  then show ?thesis using x v limit_writes_inv(4) [OF i]
    by (auto simp: apply_action_def validate_queued_action_def split: if_splits)
qed (use x i in \<open>auto simp: apply_action_def apply_set_backup_admin_def outcome_simps admin_inv set_role_inv switch_writes_inv
    split: if_splits\<close>)

lemma batch_entries_valid:
  "batch_entries e ns s = Ok es \<Longrightarrow> en \<in> set es \<Longrightarrow> validate_queued_action (te_action en) s = Ok ()"
  by (induction e ns s arbitrary: es rule: batch_entries.induct) (auto simp: bnd_eq_Ok split: if_split_asm)

lemma batch_apply_inv:
  assumes "\<And>n en. (n, en) \<in> set xs \<Longrightarrow> validate_queued_action (te_action en) t = Ok ()"
    and "router_inv s" "batch_apply e a xs s = Ok s'"
  shows "router_inv s'"
  using assms
proof (induction xs arbitrary: s)
  case (Cons x xs)
  obtain n en where x: "x = (n, en)" by force
  obtain s1 where a: "apply_action e (te_action en) (drop_entry n s) = Ok s1"
    and b: "batch_apply e a xs (emit ''action_executed'' [AddrArg a, NatArg n] s1) = Ok s'"
    using Cons.prems(3) by (auto simp: x bnd_eq_Ok)
  have "validate_queued_action (te_action en) t = Ok ()" by (rule Cons.prems(1) [of n]) (simp add: x)
  then have "router_inv s1" using apply_action_inv [OF entry_writes_inv(1) [OF Cons.prems(2)] _ a] by blast
  then show ?case by (intro Cons.IH [OF _ _ b]) (auto intro: Cons.prems(1))
qed simp

lemma execute_action_inv: "router_inv s \<Longrightarrow> execute_action e n s = Ok ((), s') \<Longrightarrow> router_inv s'"
  using execute_action_steps [of e n s s'] apply_action_inv [OF entry_writes_inv(1)] by fastforce

lemma execute_batch_inv:
  assumes "router_inv s" "execute_batch_actions e ns s = Ok ((), s')"
  shows "router_inv s'"
proof (cases "s' = s")
  case False
  then obtain a es s1 where b: "batch_entries e ns s = Ok es" "batch_apply e a (zip ns es) s = Ok s1"
    and s': "s' = emit ''batch_actions_executed'' [AddrArg a, NatsArg ns] s1"
    using assms(2) by (auto simp: execute_batch_actions_def bnd_eq_Ok split: if_split_asm)
  have "validate_queued_action (te_action en) s = Ok ()" if "(n, en) \<in> set (zip ns es)" for n en
    using batch_entries_valid [OF b(1)] that by (auto dest: set_zip_rightD)
  then have "router_inv s1" using assms(1) b(2) by (rule batch_apply_inv)
  then show ?thesis by (simp add: s')
qed (use assms(1) in simp)

lemma governed_calls_inv:
  assumes i: "router_inv s" and x: "governed_exec e c s = Ok s'"
  shows "router_inv s'"
proof -
  note step = multisig_step_inv [OF i]
  have m: "multisig_ok s" using i by (simp add: router_inv_def)
  show ?thesis using x
  proof (cases c)
    case (DoQueueAction a)
    then show ?thesis using x i entry_writes_inv(2) [OF i] by (auto simp: queue_action_eq)
  next
    case (DoCancelAction n)
    then show ?thesis using x i by (auto simp: cancel_action_def outcome_simps entry_writes_inv(1) split: if_splits)
  qed (use x in \<open>auto intro: step dest: execute_action_inv [OF i] execute_batch_inv [OF i] multisig_steps_ok [OF m]
      nonsig_steps\<close>)
qed

lemma router_exec_inv: "router_inv s \<Longrightarrow> router_exec e c s = Ok s' \<Longrightarrow> router_inv s'"
  by (cases c) (auto dest: role_calls_keep setup_calls_keep switch_calls_keep limit_calls_keep treasury_calls_keep
      money_calls_keep governed_calls_inv)

text \<open>Nothing but the governed calls touches the code, the signer group or an approval.\<close>

lemma ungoverned_calls_keep:
  "router_inv s \<Longrightarrow> router_exec e c s = Ok s' \<Longrightarrow> (\<forall>g. c \<noteq> GovernedCall g) \<Longrightarrow> governed s' = governed s"
  by (cases c) (auto dest: role_calls_keep setup_calls_keep switch_calls_keep limit_calls_keep treasury_calls_keep
      money_calls_keep)

lemma run_inv: "router_run calls s \<Longrightarrow> router_inv s"
  by (induction rule: router_run.induct) (auto intro: fresh_inv router_exec_inv)

section \<open>Approvals on the record\<close>

text \<open>
  Read off the calls alone: signer \<open>a\<close> has approved code \<open>h\<close>, under its own authorisation, and has
  neither revoked that since nor seen the proposal cancelled or carried out by \<open>upgrade\<close>.
\<close>

fun standing_step :: "address \<Rightarrow> bytes \<Rightarrow> bool \<Rightarrow> 'w renv \<times> router_call \<Rightarrow> bool" where
  "standing_step a h b (e, GovernedCall (DoApproveUpgrade a' h')) = (b \<or> a' = a \<and> h' = h \<and> auth e a)"
| "standing_step a h b (e, GovernedCall (DoRevokeUpgradeApproval a' h')) = (b \<and> \<not> (a' = a \<and> h' = h))"
| "standing_step a h b (e, GovernedCall (DoCancelUpgrade h')) = (b \<and> h' \<noteq> h)"
| "standing_step a h b (e, GovernedCall (DoUpgrade h')) = (b \<and> h' \<noteq> h)"
| "standing_step a h b (e, c) = b"

definition standing :: "('w renv \<times> router_call) list \<Rightarrow> address \<Rightarrow> bytes \<Rightarrow> bool" where
  "standing calls a h = foldl (standing_step a h) False calls"

lemma standing_snoc [simp]: "standing (calls @ [x]) a h = standing_step a h (standing calls a h) x"
  by (simp add: standing_def)

lemma standing_ungoverned: "(\<forall>g. c \<noteq> GovernedCall g) \<Longrightarrow> standing_step a h b (e, c) = b"
  by (cases c) auto

lemma governedD:
  "governed s' = governed s \<Longrightarrow> load_upgrade_approvals s' h = load_upgrade_approvals s h"
  "governed s' = governed s \<Longrightarrow> wasm_hash s' = wasm_hash s"
  by (simp_all add: governed_def load_upgrade_approvals_def)

lemma apply_action_code:
  assumes "apply_action e act s = Ok s'"
  shows "set (load_upgrade_approvals s' k) \<subseteq> set (load_upgrade_approvals s k)"
    and "wasm_hash s' = wasm_hash s \<or> (\<exists>h. act = Upgrade h \<and> wasm_hash s' = Some h)"
  using assms
  by (cases act; auto simp: apply_action_def apply_set_backup_admin_def apply_upgrade_def store_multisig_config_def
      set_role_internal_def load_upgrade_approvals_def outcome_simps Let_def split: if_splits option.splits)+

lemma drop_entry_code [simp]:
  "load_upgrade_approvals (drop_entry n s) = load_upgrade_approvals s" "wasm_hash (drop_entry n s) = wasm_hash s"
  by (simp_all add: drop_entry_def load_upgrade_approvals_def fun_eq_iff)

lemma batch_apply_code:
  assumes "\<And>n en h. (n, en) \<in> set xs \<Longrightarrow> te_action en = Upgrade h \<Longrightarrow> Q h" and "batch_apply e a xs s = Ok s'"
  shows "set (load_upgrade_approvals s' k) \<subseteq> set (load_upgrade_approvals s k)
    \<and> (wasm_hash s' = wasm_hash s \<or> (\<exists>h. wasm_hash s' = Some h \<and> Q h))"
  using assms
proof (induction xs arbitrary: s)
  case (Cons x xs)
  obtain n en where x: "x = (n, en)" by force
  obtain s1 where a: "apply_action e (te_action en) (drop_entry n s) = Ok s1"
    and b: "batch_apply e a xs (emit ''action_executed'' [AddrArg a, NatArg n] s1) = Ok s'"
    using Cons.prems(2) by (auto simp: x bnd_eq_Ok)
  have "set (load_upgrade_approvals s' k) \<subseteq> set (load_upgrade_approvals s1 k)
      \<and> (wasm_hash s' = wasm_hash s1 \<or> (\<exists>h. wasm_hash s' = Some h \<and> Q h))"
    using Cons.IH [OF _ b] Cons.prems(1) by (fastforce simp: load_upgrade_approvals_def)
  moreover have "Q h" if "te_action en = Upgrade h" for h
    using that by (intro Cons.prems(1) [of n en]) (simp_all add: x)
  ultimately show ?case using apply_action_code [OF a] by fastforce
qed simp

text \<open>What the governed calls do to approvals and code.\<close>

definition quorum_for :: "'w ledger \<Rightarrow> bytes \<Rightarrow> bool" where
  "quorum_for s h \<longleftrightarrow> (\<exists>n. require_upgrade_authorized s h = Ok n)"

lemma validate_quorum: "validate_queued_action (Upgrade h) s = Ok () \<Longrightarrow> quorum_for s h"
  by (auto simp: validate_queued_action_def quorum_for_def bnd_eq_Ok)

lemma execute_action_code:
  assumes "execute_action e n s = Ok ((), s')"
  shows "set (load_upgrade_approvals s' k) \<subseteq> set (load_upgrade_approvals s k)
    \<and> (wasm_hash s' = wasm_hash s \<or> (\<exists>h. wasm_hash s' = Some h \<and> quorum_for s h))"
proof -
  obtain en :: TimelockEntry and a s1 where v: "validate_queued_action (te_action en) s = Ok ()"
    and x: "apply_action e (te_action en) (drop_entry n s) = Ok s1"
    and s': "s' = emit ''action_executed'' [AddrArg a, NatArg n] s1"
    using execute_action_steps [OF assms] by blast
  from apply_action_code [OF x] v show ?thesis
    by (auto simp: s' load_upgrade_approvals_def [of "_\<lparr>events := _\<rparr>"] load_upgrade_approvals_def [symmetric]
        intro: validate_quorum)
qed

lemma execute_batch_code:
  assumes "execute_batch_actions e ns s = Ok ((), s')"
  shows "set (load_upgrade_approvals s' k) \<subseteq> set (load_upgrade_approvals s k)
    \<and> (wasm_hash s' = wasm_hash s \<or> (\<exists>h. wasm_hash s' = Some h \<and> quorum_for s h))"
proof (cases "s' = s")
  case False
  then obtain a es s1 where b: "batch_entries e ns s = Ok es" "batch_apply e a (zip ns es) s = Ok s1"
    and s': "s' = emit ''batch_actions_executed'' [AddrArg a, NatsArg ns] s1"
    using assms by (auto simp: execute_batch_actions_def bnd_eq_Ok split: if_split_asm)
  have "quorum_for s h" if "(m, en) \<in> set (zip ns es)" "te_action en = Upgrade h" for m en h
    using batch_entries_valid [OF b(1), of en] that by (auto dest: set_zip_rightD intro: validate_quorum)
  from batch_apply_code [OF this b(2)] show ?thesis
    by (simp add: s' load_upgrade_approvals_def)
qed simp

lemma upgrade_call_code: "upgrade e h s = Ok ((), s') \<Longrightarrow> wasm_hash s' = Some h \<and> quorum_for s h"
  by (auto simp: upgrade_eq quorum_for_def)

lemma governed_code:
  assumes "governed_exec e c s = Ok s'" "wasm_hash s' \<noteq> wasm_hash s"
  shows "\<exists>h. wasm_hash s' = Some h \<and> quorum_for s h"
proof (cases c)
  case (DoExecuteAction n)
  then show ?thesis using assms execute_action_code [of e n s s'] by auto
next
  case (DoExecuteBatchActions ns)
  then show ?thesis using assms execute_batch_code [of e ns s s'] by auto
next
  case (DoUpgrade h)
  then show ?thesis using assms upgrade_call_code [of e h s s'] by auto
qed (use assms in \<open>auto simp: queue_action_eq cancel_action_def set_multisig_config_def store_multisig_config_def
    approve_multisig_config_def approve_upgrade_def revoke_upgrade_approval_def cancel_upgrade_def drop_entry_def
    outcome_simps Let_def split: if_splits\<close>)

text \<open>Whoever is in a stored list of approvals stands by it on the record.\<close>

lemma governed_standing:
  assumes m: "distinct (load_upgrade_approvals s h)" and old: "a \<in> set (load_upgrade_approvals s h) \<Longrightarrow> b"
    and x: "governed_exec e c s = Ok s'" and a: "a \<in> set (load_upgrade_approvals s' h)"
  shows "standing_step a h b (e, GovernedCall c)"
proof (cases c)
  case (DoExecuteAction n)
  then show ?thesis using x a old execute_action_code [of e n s s' h] by auto
next
  case (DoExecuteBatchActions ns)
  then show ?thesis using x a old execute_batch_code [of e ns s s' h] by auto
next
  case (DoApproveUpgrade a' h')
  then show ?thesis using x a old
    by (auto simp: approve_upgrade_def load_upgrade_approvals_def outcome_simps Let_def split: if_splits)
next
  case (DoRevokeUpgradeApproval a' h')
  then show ?thesis using x a old m
    by (auto simp: revoke_upgrade_approval_def load_upgrade_approvals_def outcome_simps Let_def
        dest: notin_set_remove1 split: if_splits)
qed (use x a old in \<open>auto simp: queue_action_eq cancel_action_def set_multisig_config_def store_multisig_config_def
    approve_multisig_config_def cancel_upgrade_def upgrade_eq drop_entry_def load_upgrade_approvals_def
    outcome_simps Let_def split: if_splits\<close>)

lemma run_standing: "router_run calls s \<Longrightarrow> a \<in> set (load_upgrade_approvals s h) \<Longrightarrow> standing calls a h"
proof (induction arbitrary: a h rule: router_run.induct)
  case (called calls s e c s')
  have i: "router_inv s" using called.hyps(1) by (rule run_inv)
  show ?case
  proof (cases "\<exists>g. c = GovernedCall g")
    case True
    then obtain g where c: "c = GovernedCall g" by blast
    have d: "distinct (load_upgrade_approvals s h)" using i by (simp add: router_inv_def multisig_ok_def)
    have x: "governed_exec e g s = Ok s'" using called.hyps(2) by (simp add: c)
    show ?thesis unfolding c standing_snoc by (rule governed_standing [OF d called.IH x called.prems])
  next
    case False
    then have "governed s' = governed s" by (intro ungoverned_calls_keep [OF i called.hyps(2)]) simp
    then have "a \<in> set (load_upgrade_approvals s h)" using called.prems governedD(1) [of s' s] by simp
    then show ?thesis using called.IH False by (simp add: standing_ungoverned)
  qed
qed (simp_all add: fresh_ledger_def load_upgrade_approvals_def)

lemma quorum_members:
  assumes "router_inv s" "quorum_for s h"
  shows "\<exists>signers threshold. iMultisigSigners s = Some signers \<and> xMultisigThreshold s = Some threshold \<and> 1 \<le> threshold
    \<and> threshold \<le> card (set (load_upgrade_approvals s h) \<inter> set signers)"
proof -
  have m: "multisig_ok s" using assms(1) by (simp add: router_inv_def)
  obtain xs n where g: "iMultisigSigners s = Some xs" "xMultisigThreshold s = Some n"
    and "n \<le> length (load_effective_approvals s xs h)"
    using assms(2) by (auto simp: quorum_for_def require_upgrade_authorized_eq)
  then show ?thesis using m by (auto simp: effective_approvals_card [OF m] multisig_ok_def)
qed

lemma exec_code:
  assumes "router_inv s" "router_exec e c s = Ok s'" "wasm_hash s' \<noteq> wasm_hash s"
  shows "\<exists>h. wasm_hash s' = Some h \<and> quorum_for s h"
proof (cases "\<exists>g. c = GovernedCall g")
  case True
  then show ?thesis using assms(2,3) by (auto dest: governed_code)
next
  case False
  then have "governed s' = governed s" by (intro ungoverned_calls_keep [OF assms(1,2)]) simp
  then show ?thesis using assms(3) governedD(2) [of s' s] by simp
qed

section \<open>Properties\<close>

text \<open>A list of calls, played in order.\<close>

fun play :: "('w renv \<times> router_call) list \<Rightarrow> 'w ledger \<Rightarrow> (error, 'w ledger) outcome" where
  "play [] s = Ok s"
| "play ((e, c) # xs) s = bnd (router_exec e c s) (play xs)"

lemma play_run: "router_run calls s \<Longrightarrow> play xs s = Ok s' \<Longrightarrow> router_run (calls @ xs) s'"
proof (induction xs arbitrary: calls s)
  case (Cons x xs)
  obtain e c where x: "x = (e, c)" by force
  obtain s1 where "router_exec e c s = Ok s1" "play xs s1 = Ok s'"
    using Cons.prems(2) by (auto simp: x bnd_eq_Ok)
  then show ?case using Cons.IH [OF router_run.called [OF Cons.prems(1)]] by (simp add: x)
qed simp

definition sample_calls :: "(sworld renv \<times> router_call) list" where
  "sample_calls = [(sample_env 5, SetupCall (DoInitialize 1 2 100 500 MAX_AMOUNT)),
     (sample_env 5, GovernedCall (DoSetMultisigConfig [3, 4] 2)),
     (sample_env 6, GovernedCall (DoApproveUpgrade 3 [7])), (sample_env 7, GovernedCall (DoApproveUpgrade 4 [7]))]"

definition sample_started :: "sworld ledger" where
  "sample_started = (case initialize (sample_env 5) 1 2 100 500 MAX_AMOUNT (fresh_ledger sample_world) of Ok (_, s) \<Rightarrow> s)"

lemma set_role_group [simp]:
  "iMultisigSigners (set_role_internal r a s) = iMultisigSigners s"
  "iMultisigThreshold (set_role_internal r a s) = iMultisigThreshold s"
  "pUpgradeApproval (set_role_internal r a s) = pUpgradeApproval s" "wasm_hash (set_role_internal r a s) = wasm_hash s"
  by (simp_all add: set_role_internal_def Let_def split: option.split)

lemma sample_started:
  "initialize (sample_env 5) 1 2 100 500 MAX_AMOUNT (fresh_ledger sample_world) = Ok ((), sample_started)"
  "iAdmin sample_started = Some 1" "iMultisigSigners sample_started = None" "iMultisigThreshold sample_started = None"
  "pUpgradeApproval sample_started = Map.empty" "wasm_hash sample_started = None"
  by (simp_all add: sample_started_def initialize_def fresh_ledger_def require_auth_def Let_def)

definition sample_grouped :: "sworld ledger" where
  "sample_grouped = sample_started\<lparr>iMultisigSigners := Some [3, 4], xMultisigThreshold := Some 2,
     events := events sample_started @ [Event ''multisig_config_set'' [AddrArg 1, NatArg 2]]\<rparr>"

lemma sample_xdr: "u32_be 3 = [0, 0, 0, 3]" "u32_be 4 = [0, 0, 0, 4]"
  by code_simp+

lemma sample_signers: "sorted_multisig_signers (sample_env t) [3, 4] = [3, 4]"
  by (simp add: sorted_multisig_signers_def sample_xdr)

lemma sample_grouped: "set_multisig_config (sample_env 5) [3, 4] 2 sample_started = Ok ((), sample_grouped)"
  by (simp add: set_multisig_config_def store_multisig_config_def admin_auth_def require_admin_def require_auth_def
      validate_multisig_config_def Let_def sample_started sample_signers sample_grouped_def)

definition sample_approved :: "address list \<Rightarrow> sworld ledger \<Rightarrow> sworld ledger" where
  "sample_approved xs s = s\<lparr>pUpgradeApproval := [[7] \<mapsto> xs],
     events := events s @ [Event ''upgrade_approved'' [AddrArg (last xs), BytesArg [7], NatArg (length xs), NatArg 2]]\<rparr>"

lemma sample_approvals:
  "approve_upgrade (sample_env 6) 3 [7] sample_grouped = Ok ((), sample_approved [3] sample_grouped)"
  "approve_upgrade (sample_env 7) 4 [7] (sample_approved [3] sample_grouped) =
     Ok ((), sample_approved [3, 4] (sample_approved [3] sample_grouped))"
  by (simp_all add: approve_upgrade_def load_multisig_config_def require_auth_def Let_def sample_grouped_def
      sample_approved_def sample_started)

lemma sample_run: "router_run sample_calls (sample_approved [3, 4] (sample_approved [3] sample_grouped))"
proof -
  have "play sample_calls (fresh_ledger sample_world) = Ok (sample_approved [3, 4] (sample_approved [3] sample_grouped))"
    by (simp add: sample_calls_def state_of_def sample_started(1) sample_grouped sample_approvals del: One_nat_def)
  from play_run [OF router_run.deployed this] show ?thesis by simp
qed

text \<open>C6: The invariant of the whole contract. In every state a deployed router can reach, whoever calls
  whatever entry points in whatever order, at whatever times and with whatever tokens and other
  contracts around it: a role is held by at most one address and the two role tables agree; the signer
  group is a set of distinct addresses with a threshold between 1 (2 for a group of two or more) and
  its size, and no approval counts twice; queued actions carry nonces already issued, and nothing is
  queued before there is an admin; the dead man's switch is armed exactly when a heartbeat is stored,
  with at least the minimal timeout; yield principals and refund credits are positive and fit their
  type; the archive is the unbroken sequence of its epochs; the limits are in their ranges; every
  packed user record has its length; and the reentrancy lock is free.\<close>

theorem reachable_states_typed: "router_run calls s \<Longrightarrow> router_inv s"
  by (rule run_inv)

theorem reachable_states_typed_witness:
  "router_inv (sample_approved [3, 4] (sample_approved [3] sample_grouped))"
  by (rule reachable_states_typed [OF sample_run])


lemma sample_upgrade:
  "upgrade (sample_env 8) [7] (sample_approved [3, 4] (sample_approved [3] sample_grouped)) = Ok ((), s') \<Longrightarrow>
   wasm_hash s' = Some [7]"
  by (auto simp: upgrade_eq)


end
