(* ===== verification/Wide_Powers.thy ===== *)
theory Wide_Powers
  imports Wide_Signed_Api
begin

text \<open>
  Powers of signed 256-bit integers (\<open>int/api.rs\<close> of the crate \<open>ethnum\<close>): the squaring loops behind
  \<open>checked_pow\<close>, \<open>wrapping_pow\<close>, \<open>overflowing_pow\<close> and \<open>saturating_pow\<close>, proved equal to powers of
  integers. The lower end of the range is one further from zero than the upper end, so that a loop which
  gives up on an intermediate square must not give up on a power that is the smallest number.
\<close>

section \<open>The loops\<close>

text \<open>The exponent halves until it is one; the last bit is multiplied in separately.\<close>

fun checked_pow_loop_i256 :: "I256 \<Rightarrow> I256 \<Rightarrow> nat \<Rightarrow> ('e, I256 option) outcome" where
  "checked_pow_loop_i256 base acc expn =
     (if expn > 1 then
        bnd (if expn mod 2 = 1 then checked_mul_i256 acc base else Ok (Some acc)) (\<lambda>v.
        case v of None \<Rightarrow> Ok None
        | Some acc' \<Rightarrow>
            bnd (checked_mul_i256 base base) (\<lambda>w.
            case w of None \<Rightarrow> Ok None
            | Some base' \<Rightarrow> checked_pow_loop_i256 base' acc' (expn div 2)))
      else checked_mul_i256 acc base)"

fun wrapping_pow_loop_i256 :: "I256 \<Rightarrow> I256 \<Rightarrow> nat \<Rightarrow> ('e, I256) outcome" where
  "wrapping_pow_loop_i256 base acc expn =
     (if expn > 1 then
        bnd (if expn mod 2 = 1 then mul3 acc base else Ok acc) (\<lambda>acc'.
        bnd (mul3 base base) (\<lambda>base'. wrapping_pow_loop_i256 base' acc' (expn div 2)))
      else mul3 acc base)"

fun overflowing_pow_loop_i256 :: "I256 \<Rightarrow> I256 \<Rightarrow> nat \<Rightarrow> bool \<Rightarrow> ('e, I256 \<times> bool) outcome" where
  "overflowing_pow_loop_i256 base acc expn overflown =
     (if expn > 1 then
        bnd (if expn mod 2 = 1 then
               bnd (imulc acc base) (\<lambda>(r0, r1). Ok (r0, overflown \<or> r1))
             else Ok (acc, overflown)) (\<lambda>(acc', overflown').
        bnd (imulc base base) (\<lambda>(r0, r1).
        overflowing_pow_loop_i256 r0 acc' (expn div 2) (overflown' \<or> r1)))
      else bnd (imulc acc base) (\<lambda>(r0, r1). Ok (r0, r1 \<or> overflown)))"

declare checked_pow_loop_i256.simps [simp del] wrapping_pow_loop_i256.simps [simp del]
  overflowing_pow_loop_i256.simps [simp del]

definition checked_pow_i256 :: "I256 \<Rightarrow> nat \<Rightarrow> ('e, I256 option) outcome" where
  "checked_pow_i256 a n = (if n = 0 then Ok (Some U256_ONE) else checked_pow_loop_i256 a U256_ONE n)"

definition wrapping_pow_i256 :: "I256 \<Rightarrow> nat \<Rightarrow> ('e, I256) outcome" where
  "wrapping_pow_i256 a n = (if n = 0 then Ok U256_ONE else wrapping_pow_loop_i256 a U256_ONE n)"

definition overflowing_pow_i256 :: "I256 \<Rightarrow> nat \<Rightarrow> ('e, I256 \<times> bool) outcome" where
  "overflowing_pow_i256 a n =
     (if n = 0 then Ok (U256_ONE, False) else overflowing_pow_loop_i256 a U256_ONE n False)"

definition saturating_pow_i256 :: "I256 \<Rightarrow> nat \<Rightarrow> ('e, I256) outcome" where
  "saturating_pow_i256 a n =
     bnd (checked_pow_i256 a n) (\<lambda>v. Ok
       (case v of Some x \<Rightarrow> x
        | None \<Rightarrow> if i256_less a U256_ZERO \<and> n mod 2 = 1 then I256_MIN else I256_MAX))"

section \<open>Out of range is out of range for good\<close>

lemma square_not_limit: "b * b \<noteq> (2 :: int) ^ 255"
proof -
  have "\<bar>b\<bar> \<le> 240615969168004511545033772477625056927 \<or> 240615969168004511545033772477625056927 + 1 \<le> \<bar>b\<bar>" by linarith
  then have "\<bar>b\<bar> * \<bar>b\<bar> \<le> 240615969168004511545033772477625056927 * 240615969168004511545033772477625056927 \<or> (240615969168004511545033772477625056927 + 1) * (240615969168004511545033772477625056927 + 1) \<le> \<bar>b\<bar> * \<bar>b\<bar>"
    by (meson abs_ge_zero mult_mono order_trans zero_le_numeral add_nonneg_nonneg zero_le_one)
  then show ?thesis by auto
qed

text \<open>Once an intermediate product is out of range, so is the power.\<close>

lemma odd_product_exceeds:
  fixes a b :: int
  assumes "n mod 2 = 1" "\<not> in_range (a * b)"
  shows "\<not> in_range (a * b ^ n)"
proof -
  define k where "k = (b * b) ^ (n div 2)"
  have "b \<noteq> 0" using assms(2) by (auto simp: in_range_def)
  then have "0 < b * b" by (auto simp: zero_less_mult_iff)
  then have k: "1 \<le> k" unfolding k_def by (metis int_one_le_iff_zero_less zero_less_power)
  have p: "a * b ^ n = a * b * k" using power_halves [of b n] assms(1) by (simp add: k_def mult.assoc)
  show ?thesis
  proof (cases "0 \<le> a * b")
    case True
    then have "a * b * 1 \<le> a * b * k" using k by (intro mult_left_mono) auto
    then show ?thesis using True assms(2) unfolding p in_range_def by linarith
  next
    case False
    then have "a * b * k \<le> a * b * 1" using k by (intro mult_left_mono_neg) auto
    then show ?thesis using False assms(2) unfolding p in_range_def by linarith
  qed
qed

lemma square_exceeds:
  fixes a b :: int
  assumes "a \<noteq> 0 \<or> b = 0" "1 < n" "\<not> in_range (b * b)"
  shows "\<not> in_range (a * b ^ n)"
proof -
  have b: "b \<noteq> 0" using assms(3) by (auto simp: in_range_def)
  have "2 ^ 255 < b * b"
    using assms(3) square_not_limit [of b] zero_le_square [of b] unfolding in_range_def by linarith
  also have "\<dots> = \<bar>b\<bar> ^ 2" by (simp add: power2_eq_square)
  also have "\<dots> \<le> \<bar>b\<bar> ^ n" using b assms(2) by (intro power_increasing) auto
  also have "\<dots> = 1 * \<bar>b\<bar> ^ n" by simp
  also have "\<dots> \<le> \<bar>a\<bar> * \<bar>b\<bar> ^ n" using b assms(1) by (intro mult_right_mono) auto
  also have "\<dots> = \<bar>a * b ^ n\<bar>" by (simp add: abs_mult power_abs)
  finally show ?thesis unfolding in_range_def by linarith
qed

section \<open>The loops compute powers\<close>

lemma checked_mul_i256_val: "checked_mul_i256 a b = Ok (fits (ival a * ival b))"
  by (simp add: checked_mul_i256_def imulc_val)

lemma of_ival_cong: "x mod 2 ^ 256 = y mod 2 ^ 256 \<Longrightarrow> of_ival x = of_ival y"
  by (simp only: of_ival_def)

lemma of_ival_mult_power: "of_ival (ival (of_ival x) * ival (of_ival y) ^ k) = of_ival (x * y ^ k)"
proof (rule of_ival_cong)
  have "(ival (of_ival x) mod 2 ^ 256) * (ival (of_ival y) mod 2 ^ 256) ^ k mod 2 ^ 256
      = (x mod 2 ^ 256) * (y mod 2 ^ 256) ^ k mod 2 ^ 256" by (simp only: ival_of_ival_mod)
  then show "ival (of_ival x) * ival (of_ival y) ^ k mod 2 ^ 256 = x * y ^ k mod 2 ^ 256"
    by (simp only: mod_mult_power)
qed

text \<open>One round of a loop: what is multiplied into the accumulator, and the square of the base.\<close>

lemma round_halves:
  fixes a b :: int
  shows "a * b ^ n = (if n mod 2 = 1 then a * b else a) * (b * b) ^ (n div 2)"
  using power_halves [of b n] by (simp add: mult.assoc)

lemma fits_of_ival: "fits z = Some x \<Longrightarrow> ival x = z"
  by (auto simp: fits_def ival_of_in_range split: if_splits)

lemma round_exceeds:
  fixes a b :: int
  assumes "a \<noteq> 0 \<or> b = 0" "1 < n" "in_range a"
    and "\<not> in_range (if n mod 2 = 1 then a * b else a) \<or> \<not> in_range (b * b)"
  shows "\<not> in_range (a * b ^ n)"
  using assms odd_product_exceeds [of n a b] square_exceeds [of a b n] by (auto split: if_splits)

lemma checked_pow_loop_i256_val:
  "ival acc \<noteq> 0 \<or> ival base = 0 \<Longrightarrow> 0 < expn \<Longrightarrow>
    (checked_pow_loop_i256 base acc expn :: ('e, I256 option) outcome) = Ok (fits (ival acc * ival base ^ expn))"
proof (induction expn arbitrary: base acc rule: less_induct)
  case (less expn)
  show ?case
  proof (cases "expn > 1")
    case False
    then have "expn = 1" using less.prems(2) by simp
    then show ?thesis by (simp add: checked_pow_loop_i256.simps checked_mul_i256_val)
  next
    case True
    define a b where "a = ival acc" and "b = ival base"
    define a' where "a' = (if expn mod 2 = 1 then a * b else a)"
    have step: "(if expn mod 2 = 1 then checked_mul_i256 acc base else Ok (Some acc)) = Ok (fits a')"
      by (simp add: checked_mul_i256_val a'_def a_def b_def fits_def)
    have h: "a' * (b * b) ^ (expn div 2) = a * b ^ expn" unfolding a'_def by (rule round_halves [symmetric])
    have square: "checked_mul_i256 base base = Ok (fits (b * b))" by (simp add: checked_mul_i256_val b_def)
    note unfold = checked_pow_loop_i256.simps [of base acc expn] True if_True step square bnd_simps
    show ?thesis
    proof (cases "in_range a' \<and> in_range (b * b)")
      case in_range: True
      then have v: "fits a' = Some (of_ival a')" "fits (b * b) = Some (of_ival (b * b))"
        "ival (of_ival a') = a'" "ival (of_ival (b * b)) = b * b"
        by (simp_all add: fits_def ival_of_in_range)
      have "ival (of_ival a') \<noteq> 0 \<or> ival (of_ival (b * b)) = 0"
        using less.prems(1) unfolding v(3,4) by (auto simp: a'_def a_def b_def)
      from less.IH [OF _ this, of "expn div 2"] True
      have "(checked_pow_loop_i256 (of_ival (b * b)) (of_ival a') (expn div 2) :: ('e, I256 option) outcome)
          = Ok (fits (a * b ^ expn))" by (simp add: v(3,4) h)
      then show ?thesis by (simp only: unfold v v(2) [unfolded b_def] option.case a_def b_def)
    next
      case False
      have "\<not> in_range (a * b ^ expn)"
        using less.prems(1) True False by (intro round_exceeds) (auto simp: a_def b_def a'_def)
      moreover have "fits a' = None \<or> fits (b * b) = None" using False by (auto simp: fits_def)
      ultimately show ?thesis by (simp only: unfold) (auto simp: fits_def a_def b_def split: option.split)
    qed
  qed
qed

lemma wrapping_pow_loop_i256_val:
  "0 < expn \<Longrightarrow>
    (wrapping_pow_loop_i256 base acc expn :: ('e, I256) outcome) = Ok (of_ival (ival acc * ival base ^ expn))"
proof (induction expn arbitrary: base acc rule: less_induct)
  case (less expn)
  show ?case
  proof (cases "expn > 1")
    case False
    then have "expn = 1" using less.prems by simp
    then show ?thesis by (simp add: wrapping_pow_loop_i256.simps mul3_ival)
  next
    case True
    define a b where "a = ival acc" and "b = ival base"
    define a' where "a' = (if expn mod 2 = 1 then a * b else a)"
    have step: "(if expn mod 2 = 1 then mul3 acc base else Ok acc) = Ok (of_ival a')"
      by (simp add: mul3_ival a'_def a_def b_def)
    have square: "mul3 base base = Ok (of_ival (b * b))" by (simp add: mul3_ival b_def)
    have "(wrapping_pow_loop_i256 (of_ival (b * b)) (of_ival a') (expn div 2) :: ('e, I256) outcome)
        = Ok (of_ival (ival (of_ival a') * ival (of_ival (b * b)) ^ (expn div 2)))"
      by (rule less.IH) (use True in auto)
    then show ?thesis
      by (simp only: wrapping_pow_loop_i256.simps [of base acc expn] True if_True step square bnd_simps
          of_ival_mult_power round_halves [of "ival acc" "ival base" expn] a'_def a_def b_def)
  qed
qed

lemma overflowing_pow_loop_i256_val:
  "overflown \<or> ival acc \<noteq> 0 \<or> ival base = 0 \<Longrightarrow> 0 < expn \<Longrightarrow>
    (overflowing_pow_loop_i256 base acc expn overflown :: ('e, I256 \<times> bool) outcome)
    = Ok (of_ival (ival acc * ival base ^ expn), overflown \<or> \<not> in_range (ival acc * ival base ^ expn))"
proof (induction expn arbitrary: base acc overflown rule: less_induct)
  case (less expn)
  show ?case
  proof (cases "expn > 1")
    case False
    then have "expn = 1" using less.prems(2) by simp
    then show ?thesis by (simp add: overflowing_pow_loop_i256.simps imulc_val disj_commute)
  next
    case True
    define a b where "a = ival acc" and "b = ival base"
    define a' where "a' = (if expn mod 2 = 1 then a * b else a)"
    define f where "f = ((overflown \<or> \<not> in_range a') \<or> \<not> in_range (b * b))"
    have step: "(if expn mod 2 = 1 then bnd (imulc acc base) (\<lambda>(r0, r1). Ok (r0, overflown \<or> r1))
        else Ok (acc, overflown)) = Ok (of_ival a', overflown \<or> \<not> in_range a')"
      by (simp add: imulc_val a'_def a_def b_def)
    have square: "imulc base base = Ok (of_ival (b * b), \<not> in_range (b * b))" by (simp add: imulc_val b_def)
    have exact: "ival (of_ival a') = a'" "ival (of_ival (b * b)) = b * b" if "\<not> f"
      using that by (simp_all add: f_def ival_of_in_range)
    have pre: "a \<noteq> 0 \<or> b = 0" if "\<not> overflown" using less.prems(1) that by (simp add: a_def b_def)
    have "f \<or> ival (of_ival a') \<noteq> 0 \<or> ival (of_ival (b * b)) = 0"
      using pre exact by (cases f) (auto simp: f_def a'_def)
    from less.IH [OF _ this, of "expn div 2"] True
    have rec: "(overflowing_pow_loop_i256 (of_ival (b * b)) (of_ival a') (expn div 2) f :: ('e, I256 \<times> bool) outcome)
      = Ok (of_ival (a' * (b * b) ^ (expn div 2)),
          f \<or> \<not> in_range (ival (of_ival a') * ival (of_ival (b * b)) ^ (expn div 2)))"
      by (simp add: of_ival_mult_power)
    have h: "a' * (b * b) ^ (expn div 2) = a * b ^ expn" unfolding a'_def by (rule round_halves [symmetric])
    have "(f \<or> \<not> in_range (ival (of_ival a') * ival (of_ival (b * b)) ^ (expn div 2)))
        = (overflown \<or> \<not> in_range (a * b ^ expn))"
    proof (cases f)
      case False
      then show ?thesis unfolding exact(1) [OF False] exact(2) [OF False] h by (simp add: f_def)
    next
      case f: True
      have "\<not> in_range (a * b ^ expn)" if "\<not> overflown"
        using round_exceeds [OF pre [OF that] True] f that by (auto simp: f_def a'_def a_def)
      then show ?thesis using f by auto
    qed
    with rec show ?thesis
      by (simp only: overflowing_pow_loop_i256.simps [of base acc expn overflown] True if_True step square bnd_simps
          prod.case f_def h [unfolded a_def b_def] a_def b_def)
  qed
qed

section \<open>Properties\<close>

text \<open>C28: Signed powers are exact. \<open>checked_pow\<close> is the power of the integer when that is between \<open>- 2 ^ 255\<close>
  and \<open>2 ^ 255 - 1\<close> and \<open>None\<close> otherwise: no square it computes on the way is out of range while the power
  is not, not even for powers that are exactly \<open>- 2 ^ 255\<close>, because \<open>2 ^ 255\<close> is not a square.
  \<open>wrapping_pow\<close> is the power modulo \<open>2 ^ 256\<close>; \<open>overflowing_pow\<close> returns that with a flag that is set exactly
  when the true power is out of range, although the loop goes on with wrapped values; \<open>saturating_pow\<close> is
  the number in range nearest to the power, its sign included.\<close>

theorem signed_powers_are_exact:
  "checked_pow_i256 a n = Ok (fits (ival a ^ n)) \<and>
   wrapping_pow_i256 a n = Ok (of_ival (ival a ^ n)) \<and>
   overflowing_pow_i256 a n = Ok (of_ival (ival a ^ n), \<not> in_range (ival a ^ n)) \<and>
   saturating_pow_i256 a n = Ok (of_ival (clamp_i256 (ival a ^ n)))"
proof -
  have one: "of_ival 1 = U256_ONE" "in_range 1" using of_ival_ival [of U256_ONE] by (simp_all add: in_range_def)
  have start: "ival U256_ONE \<noteq> 0 \<or> ival a = 0" "False \<or> ival U256_ONE \<noteq> 0 \<or> ival a = 0" by simp_all
  have c: "checked_pow_i256 a n = Ok (fits (ival a ^ n))"
    by (cases "n = 0") (simp_all add: checked_pow_i256_def checked_pow_loop_i256_val start(1) fits_def one)
  have sign: "ival a ^ n < 0 \<longleftrightarrow> ival a < 0 \<and> n mod 2 = 1"
    by (auto simp: power_less_zero_eq odd_iff_mod_2_eq_one)
  define z where "z = ival a ^ n"
  have "(case fits z of Some x \<Rightarrow> x | None \<Rightarrow> if z < 0 then I256_MIN else I256_MAX) = of_ival (clamp_i256 z)"
    by (rule saturating_fits) auto
  then have "saturating_pow_i256 a n = Ok (of_ival (clamp_i256 (ival a ^ n)))"
    by (simp only: saturating_pow_i256_def c bnd_simps i256_less_ival ival_consts sign [symmetric] z_def)
  moreover have "wrapping_pow_i256 a n = Ok (of_ival (ival a ^ n))"
    by (cases "n = 0") (simp_all add: wrapping_pow_i256_def wrapping_pow_loop_i256_val one)
  moreover have "overflowing_pow_i256 a n = Ok (of_ival (ival a ^ n), \<not> in_range (ival a ^ n))"
    by (cases "n = 0") (simp_all add: overflowing_pow_i256_def overflowing_pow_loop_i256_val start(2) one)
  ultimately show ?thesis using c by blast
qed

end
