(* ===== verification/Wide_Conversions.thy ===== *)
theory Wide_Conversions
  imports Wide_Signed_Api
begin

text \<open>
  What goes into and comes out of the 256-bit integers of the crate \<open>ethnum\<close>: conversions from and to the
  primitive integer types and between the two types (\<open>uint/convert.rs\<close>, \<open>int/convert.rs\<close>, the \<open>as_\<close> casts of
  \<open>uint.rs\<close> and \<open>int.rs\<close>), byte strings in both orders, byte and bit reversal and bit counts (\<open>uint/api.rs\<close>,
  \<open>int/api.rs\<close>, whose copies act on the same two words). Memory is laid out as on the little-endian targets the
  contracts are built for: the low word first.
\<close>

section \<open>Primitive integers\<close>

text \<open>The primitive types, by signedness and width (\<open>u8\<close> to \<open>u128\<close>, \<open>i8\<close> to \<open>i128\<close>, \<open>usize\<close>, \<open>isize\<close>), their
  values as integers, and the language's truncating cast into them.\<close>

datatype prim = Unsigned nat | Signed nat

fun prim_width :: "prim \<Rightarrow> nat" where
  "prim_width (Unsigned n) = n"
| "prim_width (Signed n) = n"

fun prim_min :: "prim \<Rightarrow> int" where
  "prim_min (Unsigned n) = 0"
| "prim_min (Signed n) = - (2 ^ (n - 1))"

fun prim_max :: "prim \<Rightarrow> int" where
  "prim_max (Unsigned n) = 2 ^ n - 1"
| "prim_max (Signed n) = 2 ^ (n - 1) - 1"

definition prim_ok :: "prim \<Rightarrow> int \<Rightarrow> bool" where
  "prim_ok p v \<longleftrightarrow> prim_min p \<le> v \<and> v \<le> prim_max p"

definition prim_type :: "prim \<Rightarrow> bool" where
  "prim_type p \<longleftrightarrow> 0 < prim_width p \<and> prim_width p \<le> 128"

text \<open>\<open>x as t\<close>: the value of the type congruent to \<open>x\<close>.\<close>

definition cast :: "prim \<Rightarrow> int \<Rightarrow> int" where
  "cast p x = (x - prim_min p) mod 2 ^ prim_width p + prim_min p"

section \<open>Conversions\<close>

datatype conversion_error = TryFromIntError

text \<open>\<open>AsU256\<close> and \<open>AsI256\<close> for a primitive type, which widen by the sign.\<close>

definition prim_as_u256 :: "int \<Rightarrow> U256" where
  "prim_as_u256 v = (let hi = (if v \<ge> 0 then 0 else NOT 0) in from_words hi (word_of_int v))"

definition prim_as_i256 :: "int \<Rightarrow> I256" where
  "prim_as_i256 v = (let hi = (if v \<ge> 0 then 0 else NOT 0) in from_words hi (word_of_int v))"

definition u256_from_prim :: "int \<Rightarrow> U256" where
  "u256_from_prim v = from_words 0 (word_of_int v)"

definition i256_from_prim :: "int \<Rightarrow> I256" where
  "i256_from_prim v = prim_as_i256 v"

definition u256_try_from_prim :: "int \<Rightarrow> (conversion_error, U256) outcome" where
  "u256_try_from_prim v = (if v < 0 then Err TryFromIntError else Ok (from_words 0 (word_of_int v)))"

definition u256_as_prim :: "prim \<Rightarrow> U256 \<Rightarrow> int" where
  "u256_as_prim p x = cast p (uint (low x))"

definition i256_as_prim :: "prim \<Rightarrow> I256 \<Rightarrow> int" where
  "i256_as_prim p x = cast p (sint (low x))"

definition prim_try_from_u256 :: "prim \<Rightarrow> U256 \<Rightarrow> (conversion_error, int) outcome" where
  "prim_try_from_u256 p x =
     (if x \<le> prim_as_u256 (prim_max p) then Ok (cast p (uint (low x))) else Err TryFromIntError)"

definition prim_try_from_i256 :: "prim \<Rightarrow> I256 \<Rightarrow> (conversion_error, int) outcome" where
  "prim_try_from_i256 p x =
     (if \<not> i256_less x (prim_as_i256 (prim_min p)) \<and> \<not> i256_less (prim_as_i256 (prim_max p)) x
      then Ok (cast p (sint (low x))) else Err TryFromIntError)"

definition i256_try_from_u256 :: "U256 \<Rightarrow> (conversion_error, I256) outcome" where
  "i256_try_from_u256 x = (if I256_MAX < x then Err TryFromIntError else Ok x)"

definition u256_try_from_i256 :: "I256 \<Rightarrow> (conversion_error, U256) outcome" where
  "u256_try_from_i256 x = (if i256_less x U256_ZERO then Err TryFromIntError else Ok x)"

lemma pow_two_le_128: "n \<le> 128 \<Longrightarrow> (2 :: int) ^ n \<le> 2 ^ 128"
  by (rule power_increasing) simp_all

lemma prim_range:
  assumes "prim_type p"
  shows "- (2 ^ 127) \<le> prim_min p" "prim_min p \<le> 0" "0 \<le> prim_max p" "prim_max p < 2 ^ 128"
    "prim_max p - prim_min p = 2 ^ prim_width p - 1"
proof -
  obtain n where n: "0 < n" "n \<le> 128" "p = Unsigned n \<or> p = Signed n"
    using assms by (cases p) (auto simp: prim_type_def)
  have "(2 :: int) ^ (n - 1) \<le> 2 ^ 127" "(2 :: int) ^ n \<le> 2 ^ 128" "(2 :: int) ^ n = 2 * 2 ^ (n - 1)"
    using n by (simp_all only: power_increasing pow_two_le_128 power_Suc [symmetric]) simp_all
  moreover have "(1 :: int) \<le> 2 ^ n" "(1 :: int) \<le> 2 ^ (n - 1)" by simp_all
  ultimately show "- (2 ^ 127) \<le> prim_min p" "prim_min p \<le> 0" "0 \<le> prim_max p" "prim_max p < 2 ^ 128"
    "prim_max p - prim_min p = 2 ^ prim_width p - 1" using n(3) by auto
qed

lemma cast_id: "prim_type p \<Longrightarrow> prim_ok p v \<Longrightarrow> cast p v = v"
  using prim_range(5) [of p] by (simp add: cast_def prim_ok_def mod_pos_pos_trivial)

lemma cast_cong:
  assumes "prim_type p" "x mod 2 ^ 128 = y mod 2 ^ 128"
  shows "cast p x = cast p y"
proof -
  have "(2 :: int) ^ prim_width p dvd 2 ^ 128" using assms(1) by (intro le_imp_power_dvd) (simp add: prim_type_def)
  then have "z mod 2 ^ prim_width p = z mod 2 ^ 128 mod 2 ^ prim_width p" for z :: int by (rule mod_mod_cancel [symmetric])
  then have "x mod 2 ^ prim_width p = y mod 2 ^ prim_width p" using assms(2) by metis
  then show ?thesis unfolding cast_def by (metis mod_diff_left_eq)
qed

lemma low_congruent: "uint (low x) mod 2 ^ 128 = int (uval x) mod 2 ^ 128" "sint (low x) mod 2 ^ 128 = ival x mod 2 ^ 128"
proof -
  have "int (uval x) = int (unat (high x)) * 2 ^ 128 + uint (low x)" by (simp add: uval_def)
  then show "uint (low x) mod 2 ^ 128 = int (uval x) mod 2 ^ 128" by (simp only: mod_mult_self3)
  show "sint (low x) mod 2 ^ 128 = ival x mod 2 ^ 128" by (simp only: ival_def mod_mult_self3 uint_sint mod_mod_trivial)
qed

lemma as_prim_val:
  assumes "prim_type p"
  shows "u256_as_prim p x = cast p (int (uval x))" "i256_as_prim p x = cast p (ival x)"
  unfolding u256_as_prim_def i256_as_prim_def by (rule cast_cong [OF assms], rule low_congruent)+

lemma ival_prim: "- (2 ^ 127) \<le> v \<Longrightarrow> v < 2 ^ 128 \<Longrightarrow> ival (prim_as_i256 v) = v"
proof (cases "v \<ge> 0")
  case True
  assume "v < 2 ^ 128"
  then have "uint (word_of_int v :: u128) = v" using True by (simp add: uint_word_of_int mod_pos_pos_trivial)
  then show ?thesis using True by (simp add: prim_as_i256_def ival_def)
next
  case False
  assume "- (2 ^ 127) \<le> v"
  then have "v mod 2 ^ 128 = v + 2 ^ 128" using False by (intro mod_negative) simp_all
  then have "uint (word_of_int v :: u128) = v + 2 ^ 128" by (simp add: uint_word_of_int)
  then show ?thesis using False by (simp add: prim_as_i256_def ival_def)
qed

lemma prim_as_same: "prim_as_u256 v = prim_as_i256 v"
  by (simp add: prim_as_u256_def prim_as_i256_def)

lemma prim_as_u256_val: "- (2 ^ 127) \<le> v \<Longrightarrow> v < 2 ^ 128 \<Longrightarrow> int (uval (prim_as_u256 v)) = v mod 2 ^ 256"
  unfolding prim_as_same uval_ival by (simp only: ival_prim)

lemma uval_prim: "0 \<le> v \<Longrightarrow> v < 2 ^ 128 \<Longrightarrow> int (uval (prim_as_u256 v)) = v"
  by (simp add: prim_as_u256_val mod_pos_pos_trivial)

lemma try_u256_val:
  assumes p: "prim_type p"
  shows "prim_try_from_u256 p x = (if prim_ok p (int (uval x)) then Ok (int (uval x)) else Err TryFromIntError)"
proof -
  note r = prim_range [OF p]
  have "(x \<le> prim_as_u256 (prim_max p)) = (int (uval x) \<le> prim_max p)"
    unfolding le_uval using uval_prim [OF r(3,4)] by linarith
  moreover have "prim_min p \<le> int (uval x)" using r(2) by linarith
  ultimately show ?thesis
    using as_prim_val(1) [OF p, of x] cast_id [OF p, of "int (uval x)"]
    by (auto simp: prim_try_from_u256_def prim_ok_def u256_as_prim_def)
qed

lemma try_i256_val:
  assumes p: "prim_type p"
  shows "prim_try_from_i256 p x = (if prim_ok p (ival x) then Ok (ival x) else Err TryFromIntError)"
proof -
  note r = prim_range [OF p]
  have "ival (prim_as_i256 (prim_min p)) = prim_min p" "ival (prim_as_i256 (prim_max p)) = prim_max p"
    using r by (simp_all add: ival_prim)
  then show ?thesis
    using as_prim_val(2) [OF p, of x] cast_id [OF p, of "ival x"]
    by (auto simp: prim_try_from_i256_def i256_less_ival prim_ok_def i256_as_prim_def)
qed

lemma between_wide_val:
  "i256_try_from_u256 x = (if uval x < 2 ^ 255 then Ok (of_ival (int (uval x))) else Err TryFromIntError)"
  "u256_try_from_i256 y = (if 0 \<le> ival y then Ok (of_val (nat (ival y))) else Err TryFromIntError)"
proof -
  have m: "int (uval I256_MAX) = 2 ^ 255 - 1" by (simp add: uval_ival)
  have "(I256_MAX < x) = (int (uval I256_MAX) < int (uval x))" by (simp only: less_uval of_nat_less_iff)
  then have "(I256_MAX < x) = (\<not> uval x < 2 ^ 255)" unfolding m by auto
  then show "i256_try_from_u256 x = (if uval x < 2 ^ 255 then Ok (of_ival (int (uval x))) else Err TryFromIntError)"
    by (simp add: i256_try_from_u256_def of_val_of_ival [symmetric])
  show "u256_try_from_i256 y = (if 0 \<le> ival y then Ok (of_val (nat (ival y))) else Err TryFromIntError)"
    by (simp add: u256_try_from_i256_def i256_less_ival of_val_of_ival)
qed

section \<open>Properties of the conversions\<close>

text \<open>C29: A fallible conversion succeeds on exactly the values of its target type, and keeps the value.
  Out of either 256-bit type into any primitive type it returns the number itself when that is a value of
  the type and \<open>TryFromIntError\<close> otherwise, and likewise between the two 256-bit types; what came from a
  primitive value goes back to it, a negative one through the signed type only; and the infallible \<open>as_\<close> casts
  agree with the conversion wherever that succeeds.\<close>

theorem conversions_keep_values:
  assumes p: "prim_type p" and v: "prim_ok p v"
  shows "prim_try_from_u256 p x = (if prim_ok p (int (uval x)) then Ok (int (uval x)) else Err TryFromIntError) \<and>
    prim_try_from_i256 p y = (if prim_ok p (ival y) then Ok (ival y) else Err TryFromIntError) \<and>
    i256_try_from_u256 x = (if uval x < 2 ^ 255 then Ok (of_ival (int (uval x))) else Err TryFromIntError) \<and>
    u256_try_from_i256 y = (if 0 \<le> ival y then Ok (of_val (nat (ival y))) else Err TryFromIntError) \<and>
    ival (i256_from_prim v) = v \<and> prim_try_from_i256 p (i256_from_prim v) = Ok v \<and>
    (0 \<le> v \<longrightarrow> int (uval (u256_from_prim v)) = v) \<and>
    bnd (u256_try_from_prim v) (prim_try_from_u256 p) = (if 0 \<le> v then Ok v else Err TryFromIntError) \<and>
    (prim_ok p (ival y) \<longrightarrow> i256_as_prim p y = ival y) \<and>
    (prim_ok p (int (uval x)) \<longrightarrow> u256_as_prim p x = int (uval x))"
proof -
  have range: "- (2 ^ 127) \<le> v" "v < 2 ^ 128" using prim_range [OF p] v by (simp_all add: prim_ok_def)
  have "ival (i256_from_prim v) = v" by (simp add: i256_from_prim_def ival_prim [OF range])
  moreover have "0 \<le> v \<longrightarrow> int (uval (u256_from_prim v)) = v"
    using uval_prim [OF _ range(2)] by (auto simp: u256_from_prim_def prim_as_u256_def)
  moreover have "bnd (u256_try_from_prim v) (prim_try_from_u256 p) = (if 0 \<le> v then Ok v else Err TryFromIntError)"
    using v uval_prim [OF _ range(2)] by (auto simp: u256_try_from_prim_def try_u256_val [OF p] prim_as_u256_def)
  ultimately show ?thesis
    using v by (simp add: try_u256_val [OF p] try_i256_val [OF p] between_wide_val as_prim_val [OF p] cast_id [OF p])
qed

theorem conversions_keep_values_witness:
  "prim_try_from_i256 (Signed 8) (i256_from_prim (- 10)) = Ok (- 10)"
  using conversions_keep_values [of "Signed 8" "- 10" U256_ZERO U256_ZERO]
  by (simp add: prim_type_def prim_ok_def)

section \<open>Bytes and bits\<close>

text \<open>\<open>swap_bytes\<close> of the language's 128-bit integers, and the bytes of one in memory.\<close>

definition swap_bytes_u128 :: "u128 \<Rightarrow> u128" where
  "swap_bytes_u128 w = word_of_nat (be_nat (rev (be_bytes 16 (unat w))))"

definition swap_bytes :: "U256 \<Rightarrow> U256" where
  "swap_bytes x = from_words (swap_bytes_u128 (low x)) (swap_bytes_u128 (high x))"

definition reverse_bits :: "U256 \<Rightarrow> U256" where
  "reverse_bits x = from_words (word_reverse (low x)) (word_reverse (high x))"

definition from_be :: "U256 \<Rightarrow> U256" where "from_be x = swap_bytes x"

definition from_le :: "U256 \<Rightarrow> U256" where "from_le x = x"

definition to_be :: "U256 \<Rightarrow> U256" where "to_be x = swap_bytes x"

definition to_le :: "U256 \<Rightarrow> U256" where "to_le x = x"

text \<open>The transmutations: the low word first, each word from its lowest byte.\<close>

definition to_ne_bytes :: "U256 \<Rightarrow> bytes" where
  "to_ne_bytes x = rev (be_bytes 16 (unat (low x))) @ rev (be_bytes 16 (unat (high x)))"

definition from_ne_bytes :: "bytes \<Rightarrow> U256" where
  "from_ne_bytes bs =
     from_words (word_of_nat (be_nat (rev (drop 16 bs)))) (word_of_nat (be_nat (rev (take 16 bs))))"

definition to_be_bytes :: "U256 \<Rightarrow> bytes" where "to_be_bytes x = to_ne_bytes (to_be x)"

definition to_le_bytes :: "U256 \<Rightarrow> bytes" where "to_le_bytes x = to_ne_bytes (to_le x)"

definition from_be_bytes :: "bytes \<Rightarrow> U256" where "from_be_bytes bs = from_be (from_ne_bytes bs)"

definition from_le_bytes :: "bytes \<Rightarrow> U256" where "from_le_bytes bs = from_le (from_ne_bytes bs)"

definition count_ones_u128 :: "u128 \<Rightarrow> nat" where
  "count_ones_u128 w = length (filter (bit w) [0..<128])"

definition count_ones :: "U256 \<Rightarrow> nat" where
  "count_ones x = count_ones_u128 (low x) + count_ones_u128 (high x)"

definition count_zeros :: "U256 \<Rightarrow> nat" where
  "count_zeros x = (128 - count_ones_u128 (low x)) + (128 - count_ones_u128 (high x))"

definition leading_ones :: "U256 \<Rightarrow> nat" where "leading_ones x = ctlz (u256_not x)"

lemma be_nat_append: "be_nat (xs @ ys) = be_nat xs * 256 ^ length ys + be_nat ys"
  by (induction ys rule: rev_induct) (simp_all add: be_nat_def algebra_simps)

lemma unat_of_bytes: "length bs = 16 \<Longrightarrow> unat (word_of_nat (be_nat bs) :: u128) = be_nat bs"
  using be_nat_less [of bs] by (simp add: unat_of_nat)

lemma bytes_of_word: "be_nat (be_bytes 16 (unat w)) = unat w" for w :: u128
  using unsigned_less [of w, where 'a = nat] by (simp add: be_nat_be_bytes)

lemma bytes_of_bytes: "length bs = 16 \<Longrightarrow> be_bytes 16 (unat (word_of_nat (be_nat bs) :: u128)) = bs"
  using be_bytes_be_nat [of bs] by (simp only: unat_of_bytes)

lemma bytes_swapped: "be_bytes 16 (unat (swap_bytes_u128 w)) = rev (be_bytes 16 (unat w))"
  by (simp add: swap_bytes_u128_def bytes_of_bytes)

lemma swap_swap_u128: "swap_bytes_u128 (swap_bytes_u128 w) = w"
proof -
  have "unat (swap_bytes_u128 (swap_bytes_u128 w)) = unat w"
    by (subst swap_bytes_u128_def) (simp add: bytes_swapped bytes_of_word unat_of_bytes)
  then show ?thesis by (simp only: word_unat_eq_iff)
qed

lemma big_endian_bytes: "to_be_bytes x = be_bytes 16 (unat (high x)) @ be_bytes 16 (unat (low x))"
  by (simp add: to_be_bytes_def to_ne_bytes_def to_be_def swap_bytes_def bytes_swapped)

lemma be_nat_words: "be_nat (be_bytes 16 (unat (high x)) @ be_bytes 16 (unat (low x))) = uval x"
  by (simp add: be_nat_append bytes_of_word uval_def)

lemma uval_bytes: "be_bytes 32 (uval x) = be_bytes 16 (unat (high x)) @ be_bytes 16 (unat (low x))"
  using be_bytes_be_nat [of "be_bytes 16 (unat (high x)) @ be_bytes 16 (unat (low x))"]
  by (simp add: be_nat_words)

lemma from_ne_val: "length bs = 32 \<Longrightarrow> uval (from_ne_bytes bs) = be_nat (rev bs)"
proof -
  assume l: "length bs = 32"
  have "rev bs = rev (drop 16 bs) @ rev (take 16 bs)" by (simp flip: rev_append)
  then have "be_nat (rev bs) = be_nat (rev (drop 16 bs)) * 256 ^ 16 + be_nat (rev (take 16 bs))"
    using l by (simp add: be_nat_append)
  then show ?thesis using l by (simp add: from_ne_bytes_def uval_def unat_of_bytes)
qed

lemma bit_uval: "bit (uval x) n = (if n < 128 then bit (low x) n else bit (high x) (n - 128))"
proof -
  have "uval x = push_bit 128 (unat (high x)) + unat (low x)" by (simp add: uval_def push_bit_eq_mult)
  also have "\<dots> = or (push_bit 128 (unat (high x))) (unat (low x))"
    by (rule disjunctive_add) (auto simp: bit_push_bit_iff bit_unsigned_iff dest: bit_imp_le_length)
  finally show ?thesis
    by (auto simp: bit_or_iff bit_push_bit_iff bit_unsigned_iff dest: bit_imp_le_length)
qed

lemma filter_bits_upt:
  "length (filter P [0..<256]) = length (filter P [0..<128]) + length (filter (\<lambda>k. P (128 + k)) [0..<128])"
proof -
  have "[0..<256] = [0..<128] @ map (\<lambda>k. 128 + k) [0..<128]"
    using upt_add_eq_append [of 0 128 128] map_add_upt [of 128 128] by (simp add: add.commute)
  then show ?thesis by (simp add: filter_map comp_def)
qed

section \<open>Properties of bytes and bits\<close>

text \<open>Byte strings hold the number, most or least significant byte first. \<open>to_be_bytes\<close> is the 32-byte
  big-endian string of the number and \<open>to_le_bytes\<close> its reverse, through two words whose order in memory is the
  other way round; \<open>from_be_bytes\<close> and \<open>from_le_bytes\<close> read any 32 bytes back as that number, so both pairs are
  inverse to each other in both directions.\<close>

theorem byte_strings_round_trip:
  "to_be_bytes x = be_bytes 32 (uval x) \<and> to_le_bytes x = rev (to_be_bytes x) \<and>
   from_be_bytes (to_be_bytes x) = x \<and> from_le_bytes (to_le_bytes x) = x \<and> swap_bytes (swap_bytes x) = x \<and>
   (length bs = 32 \<longrightarrow> uval (from_be_bytes bs) = be_nat bs \<and> uval (from_le_bytes bs) = be_nat (rev bs) \<and>
      to_be_bytes (from_be_bytes bs) = bs \<and> to_le_bytes (from_le_bytes bs) = bs)"
proof -
  have swap: "swap_bytes (swap_bytes x) = x" for x by (simp add: swap_bytes_def swap_swap_u128)
  have le: "to_le_bytes x = rev (to_be_bytes x)" for x
    by (simp add: to_le_bytes_def to_le_def to_ne_bytes_def big_endian_bytes)
  have be: "to_be_bytes x = be_bytes 32 (uval x)" for x by (simp only: big_endian_bytes uval_bytes)
  have ne: "from_ne_bytes (to_ne_bytes x) = x" for x
  proof -
    have "uval (from_ne_bytes (to_ne_bytes x)) = be_nat (rev (to_le_bytes x))"
      by (subst from_ne_val) (simp_all add: to_ne_bytes_def to_le_bytes_def to_le_def)
    then have "uval (from_ne_bytes (to_ne_bytes x)) = uval x"
      by (simp only: le rev_rev_ident big_endian_bytes be_nat_words)
    then show ?thesis by simp
  qed
  have read_le: "uval (from_le_bytes bs) = be_nat (rev bs)" if "length bs = 32"
    using from_ne_val [OF that] by (simp add: from_le_bytes_def from_le_def)
  have write_le: "to_le_bytes (from_le_bytes bs) = bs" if "length bs = 32" for bs
    using be_bytes_be_nat [of "rev bs"] from_ne_val [OF that] that
    by (simp add: le be from_le_bytes_def from_le_def)
  have write_be: "to_be_bytes (from_be_bytes bs) = bs" if "length bs = 32"
    using write_le [OF that] by (simp add: to_be_bytes_def to_be_def from_be_bytes_def from_be_def swap
        to_le_bytes_def to_le_def from_le_bytes_def from_le_def)
  have read_be: "uval (from_be_bytes bs) = be_nat bs" if "length bs = 32"
    using write_be [OF that] be_nat_words [of "from_be_bytes bs"] by (simp add: big_endian_bytes)
  have both: "from_be_bytes (to_be_bytes x) = x" "from_le_bytes (to_le_bytes x) = x"
    by (simp_all only: from_be_bytes_def to_be_bytes_def from_be_def to_be_def from_le_bytes_def to_le_bytes_def
        from_le_def to_le_def ne swap)
  show ?thesis using be le both swap read_be read_le write_be write_le by blast
qed

theorem byte_strings_round_trip_witness:
  "to_be_bytes (from_be_bytes (replicate 31 0 @ [7])) = replicate 31 0 @ [7]"
  using byte_strings_round_trip [of U256_ZERO "replicate 31 0 @ [7]"] by simp

text \<open>Bit \<open>k\<close> of the reversal is bit \<open>255 - k\<close> of the number, the counts are those of its 256 bits, and the
  leading ones are the leading zeros of its complement.\<close>

theorem bits_of_number:
  "(bit (uval (reverse_bits x)) k \<longleftrightarrow> k < 256 \<and> bit (uval x) (255 - k)) \<and>
   count_ones x = length (filter (bit (uval x)) [0..<256]) \<and> count_ones x + count_zeros x = 256 \<and>
   leading_ones x = 256 - bit_len (2 ^ 256 - 1 - uval x)"
proof -
  have "count_ones x = length (filter (bit (uval x)) [0..<256])"
    unfolding filter_bits_upt count_ones_def count_ones_u128_def
    by (intro arg_cong2 [where f = "(+)"] arg_cong [where f = length] filter_cong) (simp_all add: bit_uval)
  moreover have c: "count_ones_u128 w \<le> 128" for w
    unfolding count_ones_u128_def by (rule order_trans [OF length_filter_le]) simp
  have "count_ones x + count_zeros x = 256"
    using c [of "low x"] c [of "high x"] by (simp add: count_ones_def count_zeros_def)
  moreover have "bit (uval (reverse_bits x)) k \<longleftrightarrow> k < 256 \<and> bit (uval x) (255 - k)"
    by (auto simp: bit_uval reverse_bits_def bit_word_reverse_iff)
  moreover have "leading_ones x = 256 - bit_len (2 ^ 256 - 1 - uval x)"
    by (simp only: leading_ones_def ctlz_val uval_not)
  ultimately show ?thesis by blast
qed

end
