(* ===== verification/Twap_Helpers.thy ===== *)
theory Twap_Helpers
  imports Twap_Oracle
begin

unbundle bit_operations_syntax

text \<open>
  The helpers of the price oracle (\<open>twap_oracle/src/lib.rs\<close>) no entry point calls yet: the median of the prices
  several oracles report, by insertion sort in the host's vector, and the fixed-point exponential, the
  counterpart of the logarithm in \<open>Twap_Oracle\<close>.
\<close>

section \<open>The median\<close>

text \<open>The inner loop moves greater prices one place up, from index \<open>j\<close> down; it returns where it stopped.\<close>

fun shift_loop :: "nat \<Rightarrow> int \<Rightarrow> int list \<Rightarrow> nat \<times> int list" where
  "shift_loop 0 v prices = (0, prices)"
| "shift_loop (Suc j) v prices =
     (if prices ! j > v then shift_loop j v (prices[Suc j := prices ! j]) else (Suc j, prices))"

definition sort_step :: "int list \<Rightarrow> nat \<Rightarrow> int list" where
  "sort_step prices i =
     (let v = prices ! i; (j, prices1) = shift_loop i v prices in prices1[j := v])"

text \<open>\<open>i128::midpoint\<close>, rounded towards zero.\<close>

definition midpoint :: "int \<Rightarrow> int \<Rightarrow> int" where
  "midpoint a b = (a + b) sdiv 2"

definition median :: "int list \<Rightarrow> (twap_error, int) outcome" where
  "median prices =
     (if prices = [] then Err OracleUnavailable
      else
        let sorted_prices = foldl sort_step prices [1..<length prices];
            mid = length sorted_prices div 2 in
        if length sorted_prices mod 2 = 1 then Ok (sorted_prices ! mid)
        else
          let lower = sorted_prices ! (mid - 1); upper = sorted_prices ! mid in
          Ok (midpoint lower upper))"

lemma sorted_unique: "sorted xs \<Longrightarrow> sorted ys \<Longrightarrow> mset xs = mset ys \<Longrightarrow> xs = ys" for xs ys :: "int list"
  by (metis properties_for_sort)

lemma insort_snoc:
  fixes v x :: int
  assumes "sorted (xs @ [x])"
  shows "insort v (xs @ [x]) = (if x > v then insort v xs @ [x] else xs @ [x, v])"
  using assms by (intro sorted_unique) (auto simp: sorted_append sorted_insort set_insort_key)

lemma shift_loop_insort:
  "sorted xs \<Longrightarrow> shift_loop (length xs) v (xs @ y # rest) = (j, zs) \<Longrightarrow> zs[j := v] = insort v xs @ rest"
proof (induction xs arbitrary: y rest rule: rev_induct)
  case (snoc x xs)
  have s: "sorted xs" using snoc.prems(1) by (simp add: sorted_append)
  show ?case
  proof (cases "x > v")
    case True
    then have "shift_loop (length xs) v (xs @ x # x # rest) = (j, zs)"
      using snoc.prems(2) by (simp add: nth_append list_update_append)
    from snoc.IH [OF s this] show ?thesis by (simp add: insort_snoc [OF snoc.prems(1)] True)
  next
    case False
    then show ?thesis
      using snoc.prems(2) by (auto simp: insort_snoc [OF snoc.prems(1)] nth_append list_update_append)
  qed
qed (auto)

lemma sort_step_insort: "sorted xs \<Longrightarrow> sort_step (xs @ v # rest) (length xs) = insort v xs @ rest"
  using shift_loop_insort [of xs v v rest] by (auto simp: sort_step_def split: prod.split)

lemma sort_steps: "n \<le> length ps \<Longrightarrow> 0 < n \<Longrightarrow> foldl sort_step ps [1..<n] = sort (take n ps) @ drop n ps"
proof (induction n)
  case (Suc n)
  show ?case
  proof (cases "n = 0")
    case True
    then show ?thesis using Suc.prems by (cases ps) simp_all
  next
    case False
    have split: "drop n ps = ps ! n # drop (Suc n) ps" using Suc.prems by (simp add: Cons_nth_drop_Suc)
    have "foldl sort_step ps [1..<Suc n] = sort_step (sort (take n ps) @ drop n ps) n"
      using Suc False by simp
    also have "\<dots> = insort (ps ! n) (sort (take n ps)) @ drop (Suc n) ps"
      using sort_step_insort [of "sort (take n ps)" "ps ! n" "drop (Suc n) ps"] Suc.prems by (simp add: split)
    also have "insort (ps ! n) (sort (take n ps)) = sort (take (Suc n) ps)"
      using Suc.prems by (intro properties_for_sort [symmetric]) (simp_all add: take_Suc_conv_app_nth sorted_insort)
    finally show ?thesis .
  qed
qed simp

lemma sort_loop_sorts: "ps \<noteq> [] \<Longrightarrow> foldl sort_step ps [1..<length ps] = sort ps"
  using sort_steps [of "length ps" ps] by simp

text \<open>Where most elements of a sorted list lie, the middle ones lie.\<close>

lemma middle_in_majority:
  fixes s :: "int list"
  assumes s: "sorted s" and k: "k < length s" "2 * k \<le> length s" "2 * (length s - Suc k) \<le> length s"
    and maj: "length s < 2 * length (filter (\<lambda>p. a \<le> p \<and> p \<le> b) s)"
  shows "a \<le> s ! k \<and> s ! k \<le> b"
proof (rule ccontr)
  let ?P = "\<lambda>p. a \<le> p \<and> p \<le> b"
  have split: "length (filter ?P s) = length (filter ?P (take n s)) + length (filter ?P (drop n s))" for n
    by (metis append_take_drop_id filter_append length_append)
  have below: "p \<le> s ! k" if "p \<in> set (take (Suc k) s)" for p
    using that s k(1) by (auto simp: in_set_conv_nth sorted_iff_nth_mono)
  have above: "s ! k \<le> p" if "p \<in> set (drop k s)" for p
    using that s k(1) by (auto simp: in_set_conv_nth sorted_iff_nth_mono)
  assume "\<not> ?thesis"
  then consider "s ! k < a" | "b < s ! k" by linarith
  then show False
  proof cases
    case 1
    then have "filter ?P (take (Suc k) s) = []" using below by (force simp: filter_empty_conv)
    moreover have "length (filter ?P (drop (Suc k) s)) \<le> length s - Suc k"
      using length_filter_le [of ?P "drop (Suc k) s"] by simp
    ultimately show False using split [of "Suc k"] k(3) maj by simp
  next
    case 2
    then have "filter ?P (drop k s) = []" using above by (force simp: filter_empty_conv)
    moreover have "length (filter ?P (take k s)) \<le> k"
      using length_filter_le [of ?P "take k s"] by simp
    ultimately show False using split [of k] k(2) maj by simp
  qed
qed

lemma midpoint_between: "a \<le> x \<Longrightarrow> x \<le> b \<Longrightarrow> a \<le> y \<Longrightarrow> y \<le> b \<Longrightarrow> a \<le> midpoint x y \<and> midpoint x y \<le> b"
  by (auto simp: midpoint_def signed_divide_int_def sgn_if)

section \<open>The exponential\<close>

definition Q63 :: nat where "Q63 = 2 ^ 63"

text \<open>\<open>2 ^ (2 ^ - (i + 1))\<close> as a 63-bit fraction, at position \<open>i\<close>.\<close>

definition ROOTS_Q63 :: "nat list" where
  "ROOTS_Q63 =
    [13043817825332782212, 10968499650544839023, 10058158527438640871, 9631725603661576981,
     9425337585438007767, 9323807973325342579, 9273454034941487980, 9248379135337035441,
     9235867122425417553, 9229617465154500136, 9226494222562136017, 9224932997620185949,
     9224152484218207415, 9223762252282022473, 9223567142504825508, 9223469589163912706,
     9223420812880372951, 9223396424835331638, 9223384230836993049, 9223378133843869261,
     9223375085348818743, 9223373561101671328, 9223372798978192081, 9223372417916476073,
     9223372227385623972, 9223372132120199398, 9223372084487487480, 9223372060671131613,
     9223372048762953703, 9223372042808864754, 9223372039831820280, 9223372038343298044]"

fun exp2_loop :: "nat list \<Rightarrow> nat \<Rightarrow> nat \<Rightarrow> nat \<Rightarrow> (twap_error, nat) outcome" where
  "exp2_loop [] i fractional result = Ok result"
| "exp2_loop (root # roots) i fractional result =
     bnd (if fractional AND 2 ^ (62 - i) \<noteq> 0
          then if result * root < 2 ^ 128 then Ok (result * root div 2 ^ 63) else Err PriceOverflow
          else Ok result) (\<lambda>result1.
     exp2_loop roots (Suc i) fractional result1)"

definition exp2_q64 :: "int \<Rightarrow> (twap_error, int) outcome" where
  "exp2_q64 v =
     (if v < 0 then Err InvalidPrice
      else
        let whole = v sdiv Q64 in
        if whole > 126 then Err PriceOverflow
        else
          let fractional = nat (v smod Q64) div 2 in
          bnd (exp2_loop ROOTS_Q63 0 fractional Q63) (\<lambda>result.
          let integer_scaled =
            (if whole < 63 then
               let shift = 63 - nat whole; truncated = result div 2 ^ shift;
                   remainder = result AND (2 ^ shift - 1) in
               if remainder \<ge> 2 ^ (shift - 1) then truncated + 1 else truncated
             else if whole = 63 then result
             else result * 2 ^ nat (whole - 63) mod 2 ^ 128) in
          if integer_scaled < 2 ^ 127 then Ok (int integer_scaled) else Err PriceOverflow))"

text \<open>Multiplying by a root never makes the result smaller, so the largest value the loop can reach is the one
  that takes every root, and that fits.\<close>

abbreviation scale :: "nat \<Rightarrow> nat \<Rightarrow> nat" where
  "scale r root \<equiv> r * root div 2 ^ 63"

lemma scale_ge: "2 ^ 63 \<le> root \<Longrightarrow> r \<le> scale r root"
  using div_le_mono [of "r * 2 ^ 63" "r * root" "2 ^ 63"] by simp

lemma scales_mono: "r \<le> r' \<Longrightarrow> foldl scale r roots \<le> foldl scale r' roots"
  by (induction roots arbitrary: r r') (simp_all add: div_le_mono)

lemma scales_ge: "\<forall>root \<in> set roots. 2 ^ 63 \<le> root \<Longrightarrow> r \<le> foldl scale r roots"
  by (induction roots arbitrary: r) (auto intro: order_trans [OF scale_ge])

lemma exp2_loop_bounds:
  "\<forall>root \<in> set roots. 2 ^ 63 \<le> root \<and> root < 2 ^ 64 \<Longrightarrow> foldl scale r roots < 2 ^ 64 \<Longrightarrow>
   \<exists>r'. exp2_loop roots i f r = Ok r' \<and> r \<le> r' \<and> r' \<le> foldl scale r roots"
proof (induction roots arbitrary: r i)
  case (Cons root roots)
  have root: "2 ^ 63 \<le> root" "root < 2 ^ 64" using Cons.prems(1) by simp_all
  note up = scale_ge [OF root(1), of r]
  have "scale r root \<le> foldl scale (scale r root) roots" using Cons.prems(1) by (intro scales_ge) simp
  then have "r < 2 ^ 64" using up Cons.prems(2) by simp
  then have fits: "r * root < 2 ^ 128" using mult_strict_mono [of r "2 ^ 64" root "2 ^ 64"] root by simp
  have all: "\<forall>root \<in> set roots. 2 ^ 63 \<le> root \<and> root < 2 ^ 64" using Cons.prems(1) by simp
  show ?case
  proof (cases "f AND 2 ^ (62 - i) = 0")
    case True
    have m: "foldl scale r roots \<le> foldl scale (scale r root) roots" by (rule scales_mono [OF up])
    then obtain r' where "exp2_loop roots (Suc i) f r = Ok r'" "r \<le> r'" "r' \<le> foldl scale r roots"
      using Cons.IH [OF all, of r "Suc i"] Cons.prems(2) by auto
    then show ?thesis using True m by auto
  next
    case False
    obtain r' where "exp2_loop roots (Suc i) f (scale r root) = Ok r'" "scale r root \<le> r'"
        "r' \<le> foldl scale (scale r root) roots"
      using Cons.IH [OF all, of "scale r root" "Suc i"] Cons.prems(2) by auto
    then show ?thesis using False fits up by auto
  qed
qed simp

lemma roots_range: "\<forall>root \<in> set ROOTS_Q63. 2 ^ 63 \<le> root \<and> root < 2 ^ 64"
  by (simp add: ROOTS_Q63_def)

lemma all_roots: "foldl scale Q63 ROOTS_Q63 < 2 ^ 64"
  by (simp add: ROOTS_Q63_def Q63_def)

lemma exp2_loop_octave: "\<exists>r. exp2_loop ROOTS_Q63 0 f Q63 = Ok r \<and> 2 ^ 63 \<le> r \<and> r < 2 ^ 64"
  using exp2_loop_bounds [OF roots_range all_roots, of 0 f] all_roots by (auto simp: Q63_def intro: le_less_trans)

lemma exp2_loop_zero: "exp2_loop roots i 0 r = Ok r"
  by (induction roots arbitrary: i) simp_all

text \<open>Rounding a 63-bit fraction between one and two down to \<open>w\<close> bits.\<close>

lemma round_octave:
  fixes r w :: nat
  assumes "2 ^ 63 \<le> r" "r < 2 ^ 64" "w < 63"
  shows "2 ^ w \<le> r div 2 ^ (63 - w) \<and> r div 2 ^ (63 - w) < 2 * 2 ^ w"
proof -
  have p: "(2 :: nat) ^ 63 = 2 ^ w * 2 ^ (63 - w)" using assms(3) by (simp only: power_add [symmetric]) simp
  have "2 ^ w * 2 ^ (63 - w) \<le> r" using assms(1) unfolding p .
  moreover have "(2 :: nat) ^ 64 = 2 * (2 ^ w * 2 ^ (63 - w))" unfolding p [symmetric] by simp
  then have "r < 2 * 2 ^ w * 2 ^ (63 - w)" using assms(2) by (simp only: mult.assoc)
  ultimately show ?thesis by (simp add: less_eq_div_iff_mult_less_eq div_less_iff_less_mult)
qed

lemma and_low_bits: "r AND (2 ^ s - 1) = r mod 2 ^ s" for r :: nat
  by (metis mask_eq_exp_minus_1 take_bit_eq_mask take_bit_eq_mod)

text \<open>What is left of the exponential once its fraction is known.\<close>

definition scaled :: "nat \<Rightarrow> nat \<Rightarrow> nat" where
  "scaled w r =
     (if w < 63 then (if r mod 2 ^ (63 - w) \<ge> 2 ^ (63 - w - 1) then r div 2 ^ (63 - w) + 1 else r div 2 ^ (63 - w))
      else r * 2 ^ (w - 63) mod 2 ^ 128)"

lemma scaled_octave:
  assumes r: "2 ^ 63 \<le> r" "r < 2 ^ 64" and w: "w \<le> 126"
  shows "2 ^ w \<le> scaled w r \<and> scaled w r \<le> 2 * 2 ^ w \<and> scaled w r < 2 ^ 127"
    and "r = 2 ^ 63 \<Longrightarrow> scaled w r = 2 ^ w"
proof -
  show "2 ^ w \<le> scaled w r \<and> scaled w r \<le> 2 * 2 ^ w \<and> scaled w r < 2 ^ 127"
  proof (cases "w < 63")
    case True
    have "(2 :: nat) ^ w \<le> 2 ^ 62" using True by (intro power_increasing) simp_all
    with round_octave [OF r True] show ?thesis using True by (auto simp: scaled_def)
  next
    case False
    have p: "(2 :: nat) ^ w = 2 ^ 63 * 2 ^ (w - 63)" using False by (simp only: power_add [symmetric]) simp
    have "(2 :: nat) ^ (w - 63) \<le> 2 ^ 63" using w by (intro power_increasing) simp_all
    then have "r * 2 ^ (w - 63) < 2 ^ 64 * 2 ^ 63" using r(2) by (intro mult_less_le_imp_less) simp_all
    moreover have "2 ^ 63 * 2 ^ (w - 63) \<le> r * 2 ^ (w - 63)" "r * 2 ^ (w - 63) \<le> 2 ^ 64 * 2 ^ (w - 63)"
      using r by (intro mult_right_mono; simp)+
    ultimately show ?thesis using False unfolding p by (simp add: scaled_def)
  qed
  show "scaled w r = 2 ^ w" if "r = 2 ^ 63"
  proof (cases "w < 63")
    case True
    have p: "(2 :: nat) ^ 63 = 2 ^ w * 2 ^ (63 - w)" using True by (simp only: power_add [symmetric]) simp
    show ?thesis using True unfolding that p by (simp add: scaled_def)
  next
    case False
    have "(2 :: nat) ^ 63 * 2 ^ (w - 63) = 2 ^ w" using False by (simp only: power_add [symmetric]) simp
    moreover have "(2 :: nat) ^ w < 2 ^ 128" using w by (intro power_strict_increasing) simp_all
    ultimately show ?thesis using False unfolding that by (simp only: scaled_def if_False mod_less)
  qed
qed

section \<open>Properties\<close>

text \<open>The median of several oracles' prices. The insertion sort orders the prices, so the result is the middle
  one, or the midpoint of the two middle ones, and an error without any price; hence a minority of wrong prices
  cannot move it away: when more than half of the prices lie in an interval, so does the median.\<close>

theorem median_follows_majority:
  "median prices =
     (if prices = [] then Err OracleUnavailable
      else let s = sort prices; m = length prices div 2 in
        Ok (if odd (length prices) then s ! m else midpoint (s ! (m - 1)) (s ! m))) \<and>
   (length prices < 2 * length (filter (\<lambda>p. a \<le> p \<and> p \<le> b) prices) \<longrightarrow>
      (\<exists>m. median prices = Ok m \<and> a \<le> m \<and> m \<le> b))"
proof -
  let ?s = "sort prices" and ?n = "length prices"
  have med: "median prices = Ok (if odd ?n then ?s ! (?n div 2) else midpoint (?s ! (?n div 2 - 1)) (?s ! (?n div 2)))"
    if "prices \<noteq> []"
    using that sort_loop_sorts [OF that] by (simp add: median_def odd_iff_mod_2_eq_one Let_def)
  have "\<exists>m. median prices = Ok m \<and> a \<le> m \<and> m \<le> b"
    if maj: "?n < 2 * length (filter (\<lambda>p. a \<le> p \<and> p \<le> b) prices)"
  proof -
    have ne: "prices \<noteq> []" using maj by auto
    have "length (filter (\<lambda>p. a \<le> p \<and> p \<le> b) ?s) = length (filter (\<lambda>p. a \<le> p \<and> p \<le> b) prices)"
      by (metis mset_filter mset_sort size_mset)
    with maj have middle: "a \<le> ?s ! k \<and> ?s ! k \<le> b" if "k < ?n" "2 * k \<le> ?n" "2 * (?n - Suc k) \<le> ?n" for k
      using middle_in_majority [of ?s k a b] that by simp
    have "0 < ?n" using ne by simp
    then have "a \<le> ?s ! (?n div 2) \<and> ?s ! (?n div 2) \<le> b" by (intro middle; presburger)
    moreover have "a \<le> ?s ! (?n div 2 - 1) \<and> ?s ! (?n div 2 - 1) \<le> b" if "even ?n"
      using that \<open>0 < ?n\<close> by (intro middle; presburger)
    ultimately show ?thesis using med [OF ne] midpoint_between by auto
  qed
  then show ?thesis using med by (auto simp: median_def Let_def)
qed

theorem median_follows_majority_witness:
  "\<exists>m. median [100, 102, 9999999, 101] = Ok m \<and> 100 \<le> m \<and> m \<le> 102"
  by (rule median_follows_majority [of "[100, 102, 9999999, 101]" 100 102, THEN conjunct2, THEN mp]) simp

text \<open>The exponential is total and keeps to its octave. Below zero it is an error, from \<open>127\<close> on an
  overflow, and on every other 64.64 fixed-point number it returns, without any product leaving 128 bits, a value
  between the powers of two below and above; at the whole numbers it is the power itself.\<close>

theorem exponential_stays_in_octave:
  "(v < 0 \<longrightarrow> exp2_q64 v = Err InvalidPrice) \<and>
   (127 * 2 ^ 64 \<le> v \<longrightarrow> exp2_q64 v = Err PriceOverflow) \<and>
   (0 \<le> v \<and> v < 127 * 2 ^ 64 \<longrightarrow>
      (\<exists>r. exp2_q64 v = Ok r \<and> 2 ^ nat (v div 2 ^ 64) \<le> r \<and> r \<le> 2 * 2 ^ nat (v div 2 ^ 64)
        \<and> (v mod 2 ^ 64 = 0 \<longrightarrow> r = 2 ^ nat (v div 2 ^ 64))))"
proof -
  have big: "exp2_q64 v = Err PriceOverflow" if "127 * 2 ^ 64 \<le> v"
  proof -
    have "127 \<le> v div 2 ^ 64" using zdiv_mono1 [OF that, of "2 ^ 64"] by simp
    then show ?thesis using that by (simp add: exp2_q64_def sdiv_nonneg Q64_def)
  qed
  have "\<exists>r. exp2_q64 v = Ok r \<and> 2 ^ nat (v div 2 ^ 64) \<le> r \<and> r \<le> 2 * 2 ^ nat (v div 2 ^ 64)
        \<and> (v mod 2 ^ 64 = 0 \<longrightarrow> r = 2 ^ nat (v div 2 ^ 64))" if v: "0 \<le> v" "v < 127 * 2 ^ 64"
  proof -
    define w f where "w = nat (v div 2 ^ 64)" and "f = nat (v mod 2 ^ 64) div 2"
    have w: "v sdiv Q64 = int w" "w \<le> 126" "v smod Q64 = v mod 2 ^ 64"
      using v by (auto simp: w_def Q64_def sdiv_nonneg signed_modulo_int_def sgn_if)
    obtain r where r: "exp2_loop ROOTS_Q63 0 f Q63 = Ok r" "2 ^ 63 \<le> r" "r < 2 ^ 64"
      using exp2_loop_octave by blast
    have r0: "r = 2 ^ 63" if "v mod 2 ^ 64 = 0" using r(1) that by (simp add: f_def exp2_loop_zero Q63_def)
    have n: "nat (int w) = w" "nat (int w - 63) = w - 63" by simp_all
    have "r < 2 ^ 128" using r(3) by simp
    then have x: "(if int w < 63
        then if r mod 2 ^ (63 - w) \<ge> 2 ^ (63 - w - 1) then r div 2 ^ (63 - w) + 1 else r div 2 ^ (63 - w)
        else if int w = 63 then r else r * 2 ^ (w - 63) mod 2 ^ 128) = scaled w r"
      by (cases "w = 63") (simp_all add: scaled_def)
    have "exp2_q64 v = (if scaled w r < 2 ^ 127 then Ok (int (scaled w r)) else Err PriceOverflow)"
      using v(1) w(2) unfolding exp2_q64_def Let_def w f_def [symmetric] r(1) bnd_simps and_low_bits n x by simp
    moreover have "2 ^ w \<le> int (scaled w r) \<and> int (scaled w r) \<le> 2 * 2 ^ w" "scaled w r < 2 ^ 127"
      using scaled_octave(1) [OF r(2,3) w(2)] of_nat_le_iff [of "2 ^ w" "scaled w r", where 'a = int]
        of_nat_le_iff [of "scaled w r" "2 * 2 ^ w", where 'a = int] by simp_all
    moreover have "v mod 2 ^ 64 = 0 \<longrightarrow> int (scaled w r) = 2 ^ w"
      using scaled_octave(2) [OF r(2,3) w(2)] r0 by simp
    ultimately show ?thesis unfolding w_def [symmetric] by (simp only: if_True) blast
  qed
  then show ?thesis using big by (auto simp: exp2_q64_def)
qed

theorem exponential_stays_in_octave_witness: "exp2_q64 (5 * 2 ^ 64) = Ok 32"
  using exponential_stays_in_octave [of "5 * 2 ^ 64"] by simp

end
